(* ===== verification/Prelude.thy ===== *)
theory Prelude
  imports Main "HOL-Library.Word" "HOL-Library.Multiset" "HOL-Library.Char_ord"
    "HOL-Library.List_Lexorder"
begin

unbundle bit_operations_syntax

text \<open>
  What the components share: the parts of the Go language and of its standard library
  that the sources use, with the lemmas about them.

  \<^item> Fixed-width integers: a Go \<open>int32\<close>, \<open>int64\<close> or \<open>int\<close> is an \<^typ>\<open>int\<close>, and every
    operation of the sources that can leave the range is written with \<open>wrap_int\<close>.
    Bytes and file modes that are only used bitwise are words.
  \<^item> Strings: a Go string is a sequence of bytes and so is an Isabelle \<^typ>\<open>string\<close>;
    \<open>strings.Split\<close>, \<open>strings.TrimSpace\<close>, \<open>strings.HasPrefix\<close>, \<open>strings.ToLower\<close>,
    \<open>strconv.Atoi\<close>, \<open>strconv.Itoa\<close>.
  \<^item> Maps: a Go map is a map \<open>'k \<rightharpoonup> 'v\<close>. A \<open>range\<close> over it visits the keys in an order the
    language leaves open, so each operation that ranges takes that order as an argument
    (\<open>range_order\<close>) and the theorems hold for every order.
  \<^item> \<open>sort.Slice\<close>: its laws are the locale \<open>slice_sorter\<close>.
  \<^item> Instants (\<open>time.Time\<close>) and durations are nanoseconds, as \<^typ>\<open>int\<close>; the zero instant
    (\<open>time.Time{}\<close>) is 0. The clock is an argument of the operations that read it.
\<close>

named_theorems go_lib \<open>characteristic equations of the modelled library functions\<close>
named_theorems inv_pres \<open>an operation keeps the invariant of its component\<close>

type_synonym instant = int
type_synonym duration = int
type_synonym ('e, 'a) result = "'e + 'a"

section \<open>Results\<close>

definition is_ok :: "('e, 'a) result \<Rightarrow> bool" where
  "is_ok r = (case r of Inl _ \<Rightarrow> False | Inr _ \<Rightarrow> True)"

lemma is_ok_simps [simp]: "is_ok (Inl e) = False" "is_ok (Inr x) = True"
  by (simp_all add: is_ok_def)

lemma is_ok_iff: "is_ok r \<longleftrightarrow> (\<exists>x. r = Inr x)"
  by (cases r) simp_all

section \<open>Fixed-width integers\<close>

definition wrap_int :: "nat \<Rightarrow> int \<Rightarrow> int" where
  "wrap_int w x = (x + 2 ^ (w - 1)) mod 2 ^ w - 2 ^ (w - 1)"

definition int_fits :: "nat \<Rightarrow> int \<Rightarrow> bool" where
  "int_fits w x \<longleftrightarrow> - (2 ^ (w - 1)) \<le> x \<and> x < 2 ^ (w - 1)"

abbreviation int32 :: "int \<Rightarrow> int" where "int32 \<equiv> wrap_int 32"
abbreviation int64 :: "int \<Rightarrow> int" where "int64 \<equiv> wrap_int 64"
abbreviation fits32 :: "int \<Rightarrow> bool" where "fits32 \<equiv> int_fits 32"
abbreviation fits64 :: "int \<Rightarrow> bool" where "fits64 \<equiv> int_fits 64"

lemma two_power_pred: "0 < w \<Longrightarrow> (2::int) ^ w = 2 * 2 ^ (w - 1)"
  by (cases w) simp_all

lemma wrap_int_fits: "0 < w \<Longrightarrow> int_fits w (wrap_int w x)"
proof -
  assume "0 < w"
  then have "(2::int) ^ w = 2 * 2 ^ (w - 1)" by (rule two_power_pred)
  moreover have "0 \<le> (x + 2 ^ (w - 1)) mod 2 ^ w" "(x + 2 ^ (w - 1)) mod 2 ^ w < (2::int) ^ w"
    by simp_all
  ultimately show ?thesis unfolding wrap_int_def int_fits_def by linarith
qed

lemma wrap_int_id: "0 < w \<Longrightarrow> int_fits w x \<Longrightarrow> wrap_int w x = x"
proof -
  assume "0 < w" and fits: "int_fits w x"
  from two_power_pred [OF \<open>0 < w\<close>] fits
  have "0 \<le> x + 2 ^ (w - 1)" "x + 2 ^ (w - 1) < 2 ^ w"
    unfolding int_fits_def by linarith+
  then show ?thesis unfolding wrap_int_def by (simp add: mod_pos_pos_trivial)
qed

text \<open>\<open>wrap_int\<close> is two's complement: the signed value of the low bits.\<close>

lemma wrap_int_is_sint: "wrap_int LENGTH('a) x = sint (word_of_int x :: 'a::len word)"
  by (simp add: wrap_int_def signed_take_bit_eq_take_bit_shift take_bit_eq_mod
      sint_uint uint_word_of_int signed_take_bit_take_bit mod_simps)

text \<open>Go's integer division truncates towards zero.\<close>

definition quot :: "int \<Rightarrow> int \<Rightarrow> int" where
  "quot a b = sgn a * sgn b * (\<bar>a\<bar> div \<bar>b\<bar>)"

lemma quot_nonneg [simp]: "0 \<le> a \<Longrightarrow> 0 < b \<Longrightarrow> quot a b = a div b"
  by (cases "a = 0") (simp_all add: quot_def)


section \<open>Strings\<close>

text \<open>\<open>strings.HasPrefix\<close>, \<open>strings.HasSuffix\<close> and \<open>strings.TrimPrefix\<close>.\<close>

definition HasPrefix :: "string \<Rightarrow> string \<Rightarrow> bool" where
  "HasPrefix s p \<longleftrightarrow> take (length p) s = p"

definition HasSuffix :: "string \<Rightarrow> string \<Rightarrow> bool" where
  "HasSuffix s p \<longleftrightarrow> length p \<le> length s \<and> drop (length s - length p) s = p"

definition TrimPrefix :: "string \<Rightarrow> string \<Rightarrow> string" where
  "TrimPrefix s p = (if HasPrefix s p then drop (length p) s else s)"

lemma HasPrefix_iff: "HasPrefix s p \<longleftrightarrow> (\<exists>t. s = p @ t)"
  unfolding HasPrefix_def by (metis append_eq_conv_conj append_take_drop_id)

lemma HasPrefix_append [simp]: "HasPrefix (p @ t) p"
  by (simp add: HasPrefix_def)

lemma HasPrefix_Nil [simp]: "HasPrefix s []"
  by (simp add: HasPrefix_def)

text \<open>\<open>strings.Contains\<close> for a substring.\<close>

fun Contains :: "string \<Rightarrow> string \<Rightarrow> bool" where
  "Contains [] p = (p = [])"
| "Contains (c # s) p = (HasPrefix (c # s) p \<or> Contains s p)"

lemma Contains_iff: "Contains s p \<longleftrightarrow> (\<exists>u v. s = u @ p @ v)"
proof (induction s)
  case Nil
  then show ?case by simp
next
  case (Cons c s)
  have "(\<exists>u v. c # s = u @ p @ v) \<longleftrightarrow> (\<exists>v. c # s = p @ v) \<or> (\<exists>u v. s = u @ p @ v)"
    by (metis append_Cons append_Nil list.exhaust list.inject)
  with Cons show ?case by (simp add: HasPrefix_iff)
qed

text \<open>
  \<open>strings.Split\<close> with a one-byte separator, and \<open>strings.Join\<close>.
\<close>

fun Split :: "char \<Rightarrow> string \<Rightarrow> string list" where
  "Split c [] = [[]]"
| "Split c (x # xs) =
     (if x = c then [] # Split c xs
      else (case Split c xs of [] \<Rightarrow> [[x]] | p # ps \<Rightarrow> (x # p) # ps))"

fun Join :: "string \<Rightarrow> string list \<Rightarrow> string" where
  "Join sep [] = []"
| "Join sep [s] = s"
| "Join sep (s # t # ss) = s @ sep @ Join sep (t # ss)"

lemma Split_not_Nil [simp]: "Split c s \<noteq> []"
  by (cases s) (simp_all split: list.split)

lemma Split_no_sep: "c \<notin> set s \<Longrightarrow> Split c s = [s]"
  by (induction s) auto

lemma Split_append_sep: "c \<notin> set s \<Longrightarrow> Split c (s @ c # t) = s # Split c t"
  by (induction s) auto

lemma Split_parts_no_sep: "p \<in> set (Split c s) \<Longrightarrow> c \<notin> set p"
proof (induction s arbitrary: p)
  case Nil
  then show ?case by simp
next
  case (Cons x xs)
  show ?case
  proof (cases "x = c")
    case True
    with Cons show ?thesis by auto
  next
    case False
    obtain q qs where "Split c xs = q # qs" by (cases "Split c xs") simp_all
    with Cons False show ?thesis by auto
  qed
qed

text \<open>Splitting what was joined gives the parts back.\<close>

lemma Split_Join:
  "ps \<noteq> [] \<Longrightarrow> (\<And>p. p \<in> set ps \<Longrightarrow> c \<notin> set p) \<Longrightarrow> Split c (Join [c] ps) = ps"
  by (induction "[c]" ps rule: Join.induct) (simp_all add: Split_no_sep Split_append_sep)

lemma Join_Split: "Join [c] (Split c s) = s"
proof (induction s)
  case Nil
  then show ?case by simp
next
  case (Cons x xs)
  obtain p ps where sp: "Split c xs = p # ps" by (cases "Split c xs") simp_all
  with Cons show ?case by (cases ps) auto
qed

text \<open>
  \<open>strings.TrimSpace\<close> strips the code points with the Unicode property White\_Space; these
  are their UTF-8 encodings.
\<close>

definition go_spaces :: "string list" where
  "go_spaces = [[CHR 0x09], [CHR 0x0A], [CHR 0x0B], [CHR 0x0C], [CHR 0x0D], [CHR 0x20],
     [CHR 0xC2, CHR 0x85], [CHR 0xC2, CHR 0xA0], [CHR 0xE1, CHR 0x9A, CHR 0x80],
     [CHR 0xE2, CHR 0x80, CHR 0x80], [CHR 0xE2, CHR 0x80, CHR 0x81],
     [CHR 0xE2, CHR 0x80, CHR 0x82], [CHR 0xE2, CHR 0x80, CHR 0x83],
     [CHR 0xE2, CHR 0x80, CHR 0x84], [CHR 0xE2, CHR 0x80, CHR 0x85],
     [CHR 0xE2, CHR 0x80, CHR 0x86], [CHR 0xE2, CHR 0x80, CHR 0x87],
     [CHR 0xE2, CHR 0x80, CHR 0x88], [CHR 0xE2, CHR 0x80, CHR 0x89],
     [CHR 0xE2, CHR 0x80, CHR 0x8A], [CHR 0xE2, CHR 0x80, CHR 0xA8],
     [CHR 0xE2, CHR 0x80, CHR 0xA9], [CHR 0xE2, CHR 0x80, CHR 0xAF],
     [CHR 0xE2, CHR 0x81, CHR 0x9F], [CHR 0xE3, CHR 0x80, CHR 0x80]]"

definition space_prefix :: "string list \<Rightarrow> string \<Rightarrow> string option" where
  "space_prefix sps s = find (HasPrefix s) sps"

lemma space_prefix_Some:
  "space_prefix sps s = Some p \<Longrightarrow> p \<in> set sps \<and> s = p @ drop (length p) s"
  unfolding space_prefix_def find_Some_iff HasPrefix_def
  by (metis append_take_drop_id nth_mem)

function trim_left :: "string list \<Rightarrow> string \<Rightarrow> string" where
  "trim_left sps s =
     (case space_prefix sps s of
        None \<Rightarrow> s
      | Some p \<Rightarrow> (if p = [] then s else trim_left sps (drop (length p) s)))"
  by pat_completeness auto
termination
proof (relation "measure (\<lambda>(sps, s). length s)", simp)
  fix sps s p
  assume p: "space_prefix sps s = Some p" "p \<noteq> []"
  then have "s \<noteq> []" using space_prefix_Some [OF p(1)] by auto
  with p show "((sps, drop (length p) s), sps, s) \<in> measure (\<lambda>(sps, s). length s)" by simp
qed

declare trim_left.simps [simp del]

definition TrimSpace :: "string \<Rightarrow> string" where
  "TrimSpace s = rev (trim_left (map rev go_spaces) (rev (trim_left go_spaces s)))"

lemma trim_left_suffix: "\<exists>u. s = u @ trim_left sps s"
proof (induction sps s rule: trim_left.induct)
  case (1 sps s)
  show ?case
  proof (cases "space_prefix sps s")
    case None
    then show ?thesis by (simp add: trim_left.simps)
  next
    case (Some p)
    show ?thesis
    proof (cases "p = []")
      case True
      with Some show ?thesis by (simp add: trim_left.simps)
    next
      case False
      with "1.IH" [OF Some] obtain u where "drop (length p) s = u @ trim_left sps (drop (length p) s)"
        by blast
      then have "s = (p @ u) @ trim_left sps s"
        using space_prefix_Some [OF Some] Some False by (simp add: trim_left.simps [of sps s])
      then show ?thesis ..
    qed
  qed
qed

text \<open>What is trimmed is a substring of the input.\<close>

lemma TrimSpace_substring: "\<exists>u v. s = u @ TrimSpace s @ v"
proof -
  obtain u where u: "s = u @ trim_left go_spaces s" using trim_left_suffix by blast
  let ?l = "trim_left go_spaces s"
  obtain w where w: "rev ?l = w @ trim_left (map rev go_spaces) (rev ?l)"
    using trim_left_suffix by blast
  then have "?l = TrimSpace s @ rev w" unfolding TrimSpace_def by (metis rev_append rev_rev_ident)
  with u have "s = u @ TrimSpace s @ rev w" by simp
  then show ?thesis by blast
qed

lemma set_TrimSpace: "set (TrimSpace s) \<subseteq> set s"
  using TrimSpace_substring [of s] by auto (metis Un_iff set_append)

lemma length_TrimSpace: "length (TrimSpace s) \<le> length s"
proof -
  obtain u v where "s = u @ TrimSpace s @ v" using TrimSpace_substring by blast
  then have "length s = length u + length (TrimSpace s) + length v"
    by (metis add.assoc length_append)
  then show ?thesis by simp
qed


lemma trim_left_id:
  assumes "\<And>p. p \<in> set sps \<Longrightarrow> p \<noteq> [] \<and> (s = [] \<or> hd p \<noteq> hd s)"
  shows "trim_left sps s = s"
proof -
  have "space_prefix sps s = None"
    using assms unfolding space_prefix_def find_None_iff HasPrefix_def
    by (metis hd_take length_greater_0_conv take_Nil)
  then show ?thesis by (simp add: trim_left.simps)
qed

text \<open>A string that neither starts nor ends with a byte of a space is not changed.\<close>

lemma TrimSpace_id:
  assumes "s = [] \<or> hd s \<notin> hd ` set go_spaces \<and> last s \<notin> last ` set go_spaces"
  shows "TrimSpace s = s"
proof -
  have ne: "p \<noteq> []" if "p \<in> set go_spaces" for p using that by (auto simp: go_spaces_def)
  have "trim_left go_spaces s = s"
    using assms ne by (intro trim_left_id) (metis imageI)
  moreover have "trim_left (map rev go_spaces) (rev s) = rev s"
  proof (rule trim_left_id)
    fix p assume "p \<in> set (map rev go_spaces)"
    then obtain q where q: "q \<in> set go_spaces" "p = rev q" by auto
    then show "p \<noteq> [] \<and> (rev s = [] \<or> hd p \<noteq> hd (rev s))"
      using assms ne [OF q(1)] q by (metis hd_rev imageI rev_is_Nil_conv)
  qed
  ultimately show ?thesis by (simp add: TrimSpace_def)
qed

text \<open>ASCII classes, by byte value.\<close>

definition byte_val :: "char \<Rightarrow> nat" where
  "byte_val c = of_char c"

definition is_digit :: "char \<Rightarrow> bool" where
  "is_digit c \<longleftrightarrow> 48 \<le> byte_val c \<and> byte_val c \<le> 57"

definition is_lower :: "char \<Rightarrow> bool" where
  "is_lower c \<longleftrightarrow> 97 \<le> byte_val c \<and> byte_val c \<le> 122"

definition is_upper :: "char \<Rightarrow> bool" where
  "is_upper c \<longleftrightarrow> 65 \<le> byte_val c \<and> byte_val c \<le> 90"

definition is_alnum :: "char \<Rightarrow> bool" where
  "is_alnum c \<longleftrightarrow> is_lower c \<or> is_upper c \<or> is_digit c"

lemmas char_class_defs = byte_val_def is_digit_def is_lower_def is_upper_def is_alnum_def

text \<open>
  \<open>strings.ToLower\<close> as it is used here, to compare with ASCII literals: ASCII letters are
  lowered, and so are the two code points outside ASCII whose lower case is an ASCII letter
  (U+0130 to \<open>i\<close>, U+212A to \<open>k\<close>). Every other code point outside ASCII is left as it is;
  its lower case is not ASCII either, so no comparison with an ASCII literal changes.
\<close>

fun ToLower :: "string \<Rightarrow> string" where
  "ToLower [] = []"
| "ToLower (c # s) =
     (if is_upper c then char_of (byte_val c + 32) # ToLower s
      else if c = CHR 0xC4 \<and> take 1 s = [CHR 0xB0] then CHR ''i'' # ToLower (drop 1 s)
      else if c = CHR 0xE2 \<and> take 2 s = [CHR 0x84, CHR 0xAA] then CHR ''k'' # ToLower (drop 2 s)
      else c # ToLower s)"

text \<open>\<open>strconv.Itoa\<close> and \<open>strconv.Atoi\<close> (a 64-bit \<open>int\<close>).\<close>

fun nat_digits :: "nat \<Rightarrow> string" where
  "nat_digits n =
     (if n < 10 then [char_of (n + 48)] else nat_digits (n div 10) @ [char_of (n mod 10 + 48)])"

declare nat_digits.simps [simp del]

definition Itoa :: "int \<Rightarrow> string" where
  "Itoa i = (if i < 0 then CHR ''-'' # nat_digits (nat (- i)) else nat_digits (nat i))"

fun digits_value :: "nat \<Rightarrow> string \<Rightarrow> nat option" where
  "digits_value acc [] = Some acc"
| "digits_value acc (c # s) =
     (if is_digit c then digits_value (acc * 10 + (byte_val c - 48)) s else None)"

definition unsigned_value :: "string \<Rightarrow> nat option" where
  "unsigned_value s = (if s = [] then None else digits_value 0 s)"

definition Atoi :: "string \<Rightarrow> int option" where
  "Atoi s =
     (let neg = (take 1 s = ''-'');
          body = (if take 1 s = ''-'' \<or> take 1 s = ''+'' then drop 1 s else s)
      in case unsigned_value body of
           None \<Rightarrow> None
         | Some n \<Rightarrow> (let v = (if neg then - int n else int n)
                       in if fits64 v then Some v else None))"

lemma byte_val_digit: "d < (10::nat) \<Longrightarrow> byte_val (char_of (d + 48)) = d + 48"
  by (simp add: byte_val_def)

lemma is_digit_char_of: "d < (10::nat) \<Longrightarrow> is_digit (char_of (d + 48))"
  by (simp add: is_digit_def byte_val_digit)

lemma nat_digits_not_Nil [simp]: "nat_digits n \<noteq> []"
  by (simp add: nat_digits.simps)

lemma nat_digits_all_digits: "\<forall>c \<in> set (nat_digits n). is_digit c"
proof (induction n rule: nat_digits.induct)
  case (1 n)
  show ?case
  proof (cases "n < 10")
    case True
    then show ?thesis by (simp add: nat_digits.simps [of n] is_digit_char_of)
  next
    case False
    then show ?thesis
      using "1" is_digit_char_of [of "n mod 10"] by (auto simp: nat_digits.simps [of n])
  qed
qed

lemma digits_value_append:
  "digits_value acc (s @ t) =
     (case digits_value acc s of None \<Rightarrow> None | Some a \<Rightarrow> digits_value a t)"
  by (induction s arbitrary: acc) simp_all

lemma digits_value_nat_digits: "digits_value 0 (nat_digits n) = Some n"
proof (induction n rule: nat_digits.induct)
  case (1 n)
  show ?case
  proof (cases "n < 10")
    case True
    then show ?thesis by (simp add: nat_digits.simps [of n] is_digit_char_of byte_val_digit)
  next
    case False
    then show ?thesis
      using "1" is_digit_char_of [of "n mod 10"] byte_val_digit [of "n mod 10"]
      by (simp add: nat_digits.simps [of n] digits_value_append)
  qed
qed

lemma not_is_digit_sign: "\<not> is_digit CHR ''-''" "\<not> is_digit CHR ''+''" "\<not> is_digit CHR ''.''"
  by (simp_all add: is_digit_def byte_val_def)

lemma nat_digits_no_sign:
  "take 1 (nat_digits n) \<noteq> ''-''" "take 1 (nat_digits n) \<noteq> ''+''" "CHR ''.'' \<notin> set (nat_digits n)"
  using nat_digits_all_digits [of n] not_is_digit_sign
  by (auto simp: take_Suc neq_Nil_conv) (metis list.set_intros(1) list.sel(1) neq_Nil_conv nat_digits_not_Nil)+

theorem Atoi_Itoa: "fits64 i \<Longrightarrow> Atoi (Itoa i) = Some i"
proof -
  assume fits: "fits64 i"
  have un: "unsigned_value (nat_digits n) = Some n" for n
    by (simp add: unsigned_value_def digits_value_nat_digits)
  show ?thesis
  proof (cases "i < 0")
    case True
    with un [of "nat (- i)"] fits show ?thesis by (simp add: Itoa_def Atoi_def Let_def)
  next
    case False
    with un [of "nat i"] nat_digits_no_sign [of "nat i"] fits show ?thesis
      by (simp add: Itoa_def Atoi_def Let_def)
  qed
qed

lemma TrimSpace_digits: "(\<forall>c \<in> set s. is_digit c) \<Longrightarrow> TrimSpace s = s"
proof (rule TrimSpace_id)
  assume "\<forall>c \<in> set s. is_digit c"
  moreover have "\<not> is_digit c" if "c \<in> hd ` set go_spaces \<union> last ` set go_spaces" for c
    using that by (auto simp: go_spaces_def is_digit_def byte_val_def)
  ultimately show "s = [] \<or> hd s \<notin> hd ` set go_spaces \<and> last s \<notin> last ` set go_spaces"
    by (metis UnI1 UnI2 hd_in_set last_in_set)
qed

lemma Itoa_nonneg: "0 \<le> i \<Longrightarrow> Itoa i = nat_digits (nat i)"
  by (simp add: Itoa_def)

lemma Itoa_digits: "0 \<le> i \<Longrightarrow> c \<in> set (Itoa i) \<Longrightarrow> is_digit c"
  using nat_digits_all_digits by (simp add: Itoa_nonneg)

lemma Itoa_not_Nil [simp]: "Itoa i \<noteq> []"
  by (simp add: Itoa_def)

lemma Atoi_TrimSpace_Itoa: "0 \<le> i \<Longrightarrow> fits64 i \<Longrightarrow> Atoi (TrimSpace (Itoa i)) = Some i"
  using TrimSpace_digits [of "Itoa i"] Itoa_digits by (simp add: Atoi_Itoa)

lemma Atoi_fits: "Atoi s = Some i \<Longrightarrow> fits64 i"
  by (auto simp: Atoi_def Let_def split: option.splits if_splits)

section \<open>Maps and the order of range\<close>

definition range_order :: "'k list \<Rightarrow> ('k \<rightharpoonup> 'v) \<Rightarrow> bool" where
  "range_order ks m \<longleftrightarrow> distinct ks \<and> set ks = dom m"

definition range_vals :: "'k list \<Rightarrow> ('k \<rightharpoonup> 'v) \<Rightarrow> 'v list" where
  "range_vals ks m = List.map_filter m ks"

lemma range_vals_simps [simp]:
  "range_vals [] m = []"
  "range_vals (k # ks) m = (case m k of None \<Rightarrow> range_vals ks m | Some v \<Rightarrow> v # range_vals ks m)"
  by (simp_all add: range_vals_def List.map_filter_simps split: option.split)

lemma set_range_vals: "range_order ks m \<Longrightarrow> set (range_vals ks m) = ran m"
  unfolding range_order_def range_vals_def List.map_filter_def ran_def
  by (force simp: dom_def)

lemma range_vals_map: "range_order ks m \<Longrightarrow> range_vals ks m = map (the \<circ> m) ks"
  unfolding range_order_def range_vals_def List.map_filter_def
  by (metis (mono_tags, lifting) comp_apply domIff filter_True)

lemma range_order_finite: "range_order ks m \<Longrightarrow> finite (dom m)"
  unfolding range_order_def by (metis List.finite_set)

section \<open>Sorting slices\<close>

text \<open>
  \<open>sort.Slice\<close> permutes a slice; when the comparison is a strict weak order the result has no
  inversion. Which permutation it returns among equal elements is left open, so clients use
  these laws only.
\<close>

definition strict_weak :: "('a \<Rightarrow> 'a \<Rightarrow> bool) \<Rightarrow> 'a set \<Rightarrow> bool" where
  "strict_weak lt A \<longleftrightarrow>
     (\<forall>x \<in> A. \<not> lt x x) \<and>
     (\<forall>x \<in> A. \<forall>y \<in> A. \<forall>z \<in> A. lt x y \<longrightarrow> lt y z \<longrightarrow> lt x z) \<and>
     (\<forall>x \<in> A. \<forall>y \<in> A. \<forall>z \<in> A. \<not> lt x y \<longrightarrow> \<not> lt y z \<longrightarrow> \<not> lt x z)"

lemma strict_weak_mono: "strict_weak lt A \<Longrightarrow> B \<subseteq> A \<Longrightarrow> strict_weak lt B"
  unfolding strict_weak_def by (meson subsetD)

lemma strict_weak_asym:
  assumes "strict_weak lt A" "x \<in> A" "y \<in> A" "lt x y"
  shows "\<not> lt y x"
  using assms unfolding strict_weak_def by blast

lemma strict_weak_negtrans:
  assumes "strict_weak lt A" "x \<in> A" "y \<in> A" "z \<in> A" "\<not> lt x y" "\<not> lt y z"
  shows "\<not> lt x z"
  using assms unfolding strict_weak_def by blast

locale slice_sorter =
  fixes srt :: "('a \<Rightarrow> 'a \<Rightarrow> bool) \<Rightarrow> 'a list \<Rightarrow> 'a list"
  assumes sort_mset: "mset (srt lt xs) = mset xs"
    and sort_ordered: "strict_weak lt (set xs) \<Longrightarrow> sorted_wrt (\<lambda>x y. \<not> lt y x) (srt lt xs)"
begin

lemma sort_length: "length (srt lt xs) = length xs"
  by (metis size_mset sort_mset)

lemma sort_set: "set (srt lt xs) = set xs"
  by (metis set_mset_mset sort_mset)

lemma sort_distinct: "distinct (map f (srt lt xs)) \<longleftrightarrow> distinct (map f xs)"
  by (metis mset_eq_imp_distinct_iff mset_map sort_mset)

text \<open>When the comparison orders the elements by distinct keys, the result is determined.\<close>

lemma sort_by_key:
  fixes key :: "'a \<Rightarrow> 'k::linorder"
  assumes "\<And>x y. lt x y \<longleftrightarrow> key x < key y"
  shows "sorted (map key (srt lt xs))"
proof -
  have "strict_weak lt (set xs)" by (auto simp: strict_weak_def assms)
  then show ?thesis
    using sort_ordered [of lt xs] by (simp add: sorted_wrt_map assms not_less)
qed

end

text \<open>
  The sort itself: for a slice of at most 12 elements \<open>sort.Slice\<close> is this insertion sort,
  element by element from the left, each moved down past the elements it is less than. For a
  longer slice it is one of the results the laws allow.
\<close>

fun ins_down :: "('a \<Rightarrow> 'a \<Rightarrow> bool) \<Rightarrow> 'a \<Rightarrow> 'a list \<Rightarrow> 'a list" where
  "ins_down lt x [] = [x]"
| "ins_down lt x (y # ys) = (if lt x y then y # ins_down lt x ys else x # y # ys)"

definition sort_slice :: "('a \<Rightarrow> 'a \<Rightarrow> bool) \<Rightarrow> 'a list \<Rightarrow> 'a list" where
  "sort_slice lt xs = rev (fold (ins_down lt) xs [])"

lemma mset_ins_down: "mset (ins_down lt x ys) = {#x#} + mset ys"
  by (induction ys) auto

lemma set_ins_down: "set (ins_down lt x ys) = insert x (set ys)"
  by (induction ys) auto

lemma mset_fold_ins_down: "mset (fold (ins_down lt) xs ys) = mset xs + mset ys"
  by (induction xs arbitrary: ys) (auto simp: mset_ins_down)

lemma ins_down_ordered:
  assumes "strict_weak lt (insert x (set ys))"
    and "sorted_wrt (\<lambda>a b. \<not> lt a b) ys"
  shows "sorted_wrt (\<lambda>a b. \<not> lt a b) (ins_down lt x ys)"
  using assms
proof (induction ys)
  case Nil
  then show ?case by simp
next
  case (Cons y ys)
  have sw: "strict_weak lt (insert x (set ys))"
    using Cons.prems(1) by (rule strict_weak_mono) auto
  show ?case
  proof (cases "lt x y")
    case True
    have "\<not> lt y x" by (rule strict_weak_asym [OF Cons.prems(1) _ _ True]) simp_all
    with True Cons.IH [OF sw] Cons.prems(2) show ?thesis by (auto simp: set_ins_down)
  next
    case False
    have "\<not> lt x z" if "z \<in> set ys" for z
      using Cons.prems that False by (intro strict_weak_negtrans [OF Cons.prems(1), of x y z]) auto
    with False Cons.prems(2) show ?thesis by auto
  qed
qed

lemma fold_ins_down_ordered:
  "strict_weak lt (set xs \<union> set ys) \<Longrightarrow> sorted_wrt (\<lambda>a b. \<not> lt a b) ys \<Longrightarrow>
   sorted_wrt (\<lambda>a b. \<not> lt a b) (fold (ins_down lt) xs ys)"
proof (induction xs arbitrary: ys)
  case Nil
  then show ?case by simp
next
  case (Cons x xs)
  have "strict_weak lt (insert x (set ys))"
    using Cons.prems(1) by (rule strict_weak_mono) auto
  with Cons.prems(2) have "sorted_wrt (\<lambda>a b. \<not> lt a b) (ins_down lt x ys)"
    by (intro ins_down_ordered)
  moreover have "strict_weak lt (set xs \<union> set (ins_down lt x ys))"
    using Cons.prems(1) by (simp add: set_ins_down)
  ultimately show ?case using Cons.IH by simp
qed

interpretation go_sort: slice_sorter sort_slice
proof unfold_locales
  fix lt :: "'a \<Rightarrow> 'a \<Rightarrow> bool" and xs :: "'a list"
  show "mset (sort_slice lt xs) = mset xs"
    by (simp add: sort_slice_def mset_fold_ins_down)
  assume "strict_weak lt (set xs)"
  then show "sorted_wrt (\<lambda>x y. \<not> lt y x) (sort_slice lt xs)"
    unfolding sort_slice_def sorted_wrt_rev by (intro fold_ins_down_ordered) simp_all
qed

section \<open>Searching a slice\<close>

text \<open>The position at which a loop \<open>for i, x := range xs\<close> that returns at the first match stops.\<close>

primrec find_pos :: "('a \<Rightarrow> bool) \<Rightarrow> 'a list \<Rightarrow> nat option" where
  "find_pos P [] = None"
| "find_pos P (x # xs) = (if P x then Some 0 else map_option Suc (find_pos P xs))"

lemma find_pos_None [simp]: "find_pos P xs = None \<longleftrightarrow> (\<forall>x \<in> set xs. \<not> P x)"
  by (induction xs) auto

lemma find_pos_Some: "find_pos P xs = Some i \<Longrightarrow> i < length xs \<and> P (xs ! i) \<and> (\<forall>k < i. \<not> P (xs ! k))"
proof (induction xs arbitrary: i)
  case (Cons x xs)
  then show ?case by (auto simp: nth_Cons less_Suc_eq_0_disj split: if_splits nat.splits)
qed simp

end
