(* ===== verification/Regex.thy ===== *)
theory Regex
  imports Prelude
begin

text \<open>
  The regular expressions of Go's \<open>regexp\<close> package that the sources use: anchored patterns
  over ASCII character classes. The patterns are written as terms of \<open>re\<close>, their meaning is
  the inductive relation \<open>in_lang\<close>, and \<open>rmatch\<close> is the executable matcher (derivatives),
  proved equal to that meaning. A class that holds ASCII bytes only matches a code point
  exactly when it matches its only byte, so matching bytes is matching code points.
\<close>

datatype re =
    Zero
  | Eps
  | Cls "char \<Rightarrow> bool"
  | Seq re re
  | Alt re re
  | Star re

abbreviation Opt :: "re \<Rightarrow> re" where "Opt r \<equiv> Alt r Eps"

inductive in_lang :: "re \<Rightarrow> string \<Rightarrow> bool" where
  l_eps: "in_lang Eps []"
| l_cls: "P c \<Longrightarrow> in_lang (Cls P) [c]"
| l_seq: "in_lang r s \<Longrightarrow> in_lang q t \<Longrightarrow> in_lang (Seq r q) (s @ t)"
| l_alt1: "in_lang r s \<Longrightarrow> in_lang (Alt r q) s"
| l_alt2: "in_lang q s \<Longrightarrow> in_lang (Alt r q) s"
| l_star0: "in_lang (Star r) []"
| l_star: "in_lang r s \<Longrightarrow> in_lang (Star r) t \<Longrightarrow> in_lang (Star r) (s @ t)"

inductive_simps in_lang_simps [simp]:
  "in_lang Zero s" "in_lang Eps s" "in_lang (Cls P) s" "in_lang (Seq r q) s" "in_lang (Alt r q) s"

inductive_cases star_cases: "in_lang (Star r) s"

fun nullable :: "re \<Rightarrow> bool" where
  "nullable Zero = False"
| "nullable Eps = True"
| "nullable (Cls P) = False"
| "nullable (Seq r q) = (nullable r \<and> nullable q)"
| "nullable (Alt r q) = (nullable r \<or> nullable q)"
| "nullable (Star r) = True"

fun deriv :: "char \<Rightarrow> re \<Rightarrow> re" where
  "deriv c Zero = Zero"
| "deriv c Eps = Zero"
| "deriv c (Cls P) = (if P c then Eps else Zero)"
| "deriv c (Seq r q) =
     (if nullable r then Alt (Seq (deriv c r) q) (deriv c q) else Seq (deriv c r) q)"
| "deriv c (Alt r q) = Alt (deriv c r) (deriv c q)"
| "deriv c (Star r) = Seq (deriv c r) (Star r)"

fun rmatch :: "re \<Rightarrow> string \<Rightarrow> bool" where
  "rmatch r [] = nullable r"
| "rmatch r (c # s) = rmatch (deriv c r) s"

lemma nullable_in_lang: "nullable r \<longleftrightarrow> in_lang r []"
  by (induction r) (auto intro: in_lang.intros)

lemma star_nonempty:
  assumes "in_lang q s" and "q = Star r" and "s = c # s'"
  shows "\<exists>u v. s' = u @ v \<and> in_lang r (c # u) \<and> in_lang (Star r) v"
  using assms
proof (induction arbitrary: c s' rule: in_lang.induct)
  case (l_star p a b)
  show ?case
  proof (cases a)
    case Nil
    with l_star show ?thesis by simp
  next
    case (Cons d a')
    with l_star show ?thesis by auto
  qed
qed simp_all

lemma deriv_in_lang: "in_lang (deriv c r) s \<longleftrightarrow> in_lang r (c # s)"
proof (induction r arbitrary: s)
  case (Seq r q)
  have split: "(\<exists>u v. c # s = u @ v \<and> in_lang r u \<and> in_lang q v) \<longleftrightarrow>
      (in_lang r [] \<and> in_lang q (c # s)) \<or> (\<exists>u v. s = u @ v \<and> in_lang r (c # u) \<and> in_lang q v)"
    by (auto simp: Cons_eq_append_conv)
  show ?case using Seq split by (auto simp: nullable_in_lang)
next
  case (Star r)
  show ?case
  proof
    assume "in_lang (deriv c (Star r)) s"
    then obtain u v where "s = u @ v" "in_lang r (c # u)" "in_lang (Star r) v"
      using Star by auto
    then show "in_lang (Star r) (c # s)" using l_star [of r "c # u" v] by simp
  next
    assume "in_lang (Star r) (c # s)"
    then have "\<exists>u v. s = u @ v \<and> in_lang r (c # u) \<and> in_lang (Star r) v"
      by (rule star_nonempty) simp_all
    then show "in_lang (deriv c (Star r)) s" using Star by auto
  qed
qed auto

theorem rmatch_in_lang: "rmatch r s \<longleftrightarrow> in_lang r s"
  by (induction s arbitrary: r) (simp_all add: nullable_in_lang deriv_in_lang)

text \<open>The repetition of a class, which is how the patterns of the sources repeat.\<close>

lemma star_cls_all: "in_lang q s \<Longrightarrow> q = Star (Cls P) \<Longrightarrow> list_all P s"
  by (induction rule: in_lang.induct) auto

lemma in_lang_star_cls [simp]: "in_lang (Star (Cls P)) s \<longleftrightarrow> list_all P s"
proof
  show "in_lang (Star (Cls P)) s \<Longrightarrow> list_all P s" by (rule star_cls_all) simp_all
  show "list_all P s \<Longrightarrow> in_lang (Star (Cls P)) s"
  proof (induction s)
    case Nil
    show ?case by (rule l_star0)
  next
    case (Cons c s)
    then show ?case using l_star [of "Cls P" "[c]" s] by simp
  qed
qed

lemma in_lang_cls_seq: "in_lang (Seq (Cls P) r) (c # t) \<longleftrightarrow> P c \<and> in_lang r t"
  using l_seq [of "Cls P" "[c]" r t] by auto

end
