(* ===== verification/Filepath.thy ===== *)
theory Filepath
  imports Prelude
begin

text \<open>
  The functions of Go's \<open>path/filepath\<close> (Unix) that the sources use: \<open>Clean\<close>, \<open>Join\<close>, \<open>IsAbs\<close>,
  \<open>Abs\<close>, \<open>Dir\<close>, \<open>Base\<close>. \<open>Clean\<close> works on the list of path elements: empty elements and
  \<open>.\<close> vanish, \<open>..\<close> removes the element before it, is dropped at the root and is kept at the
  front of a relative path. The lemmas describe a cleaned path by its elements.
\<close>

definition is_plain :: "string \<Rightarrow> bool" where
  "is_plain e \<longleftrightarrow> e \<noteq> [] \<and> e \<noteq> ''.'' \<and> CHR ''/'' \<notin> set e"

definition path_elems :: "string \<Rightarrow> string list" where
  "path_elems s = filter (\<lambda>e. e \<noteq> [] \<and> e \<noteq> ''.'') (Split CHR ''/'' s)"

definition IsAbs :: "string \<Rightarrow> bool" where
  "IsAbs p = HasPrefix p ''/''"

text \<open>The elements of the output so far, last one first.\<close>

fun clean_elems :: "bool \<Rightarrow> string list \<Rightarrow> string list \<Rightarrow> string list" where
  "clean_elems rooted out [] = rev out"
| "clean_elems rooted out (e # es) =
     (if e = ''..'' then
        (if out \<noteq> [] \<and> hd out \<noteq> ''..'' then clean_elems rooted (tl out) es
         else if rooted then clean_elems rooted out es
         else clean_elems rooted (''..'' # out) es)
      else clean_elems rooted (e # out) es)"

definition render :: "bool \<Rightarrow> string list \<Rightarrow> string" where
  "render rooted es =
     (if rooted then CHR ''/'' # Join ''/'' es else if es = [] then ''.'' else Join ''/'' es)"

definition Clean :: "string \<Rightarrow> string" where
  "Clean p = (if p = [] then ''.'' else render (IsAbs p) (clean_elems (IsAbs p) [] (path_elems p)))"

definition Join_path :: "string list \<Rightarrow> string" where
  "Join_path es =
     (let es' = dropWhile (\<lambda>e. e = []) es
      in if es' = [] then [] else Clean (Join ''/'' es'))"

text \<open>\<open>Abs\<close> joins a relative path to the working directory, which \<open>os.Getwd\<close> may fail to give.\<close>

definition Abs_path :: "string option \<Rightarrow> string \<Rightarrow> string option" where
  "Abs_path cwd p =
     (if IsAbs p then Some (Clean p) else map_option (\<lambda>d. Join_path [d, p]) cwd)"

definition Dir :: "string \<Rightarrow> string" where
  "Dir p = Clean (rev (dropWhile (\<lambda>c. c \<noteq> CHR ''/'') (rev p)))"

definition Base :: "string \<Rightarrow> string" where
  "Base p =
     (if p = [] then ''.''
      else (let q = rev (dropWhile (\<lambda>c. c = CHR ''/'') (rev p));
                b = rev (takeWhile (\<lambda>c. c \<noteq> CHR ''/'') (rev q))
            in if b = [] then ''/'' else b))"

subsection \<open>Elements of a rendered path\<close>

lemma path_elems_plain: "e \<in> set (path_elems s) \<Longrightarrow> is_plain e"
  unfolding path_elems_def is_plain_def using Split_parts_no_sep [of e "CHR ''/''" s] by auto

lemma path_elems_Join:
  assumes "\<And>e. e \<in> set es \<Longrightarrow> is_plain e"
  shows "path_elems (Join ''/'' es) = es"
proof (cases "es = []")
  case True
  then show ?thesis by (simp add: path_elems_def)
next
  case False
  have "Split CHR ''/'' (Join ''/'' es) = es"
    by (rule Split_Join [OF False]) (use assms in \<open>auto simp: is_plain_def\<close>)
  moreover have "filter (\<lambda>e. e \<noteq> [] \<and> e \<noteq> ''.'') es = es"
    by (rule filter_True) (use assms in \<open>auto simp: is_plain_def\<close>)
  ultimately show ?thesis by (simp add: path_elems_def)
qed

lemma path_elems_slash [simp]: "path_elems (CHR ''/'' # s) = path_elems s"
  by (simp add: path_elems_def)

lemma path_elems_render:
  "(\<And>e. e \<in> set es \<Longrightarrow> is_plain e) \<Longrightarrow> path_elems (render rooted es) = es"
  by (auto simp: render_def path_elems_Join) (simp add: path_elems_def)

lemma Join_hd: "es \<noteq> [] \<Longrightarrow> (\<And>e. e \<in> set es \<Longrightarrow> e \<noteq> []) \<Longrightarrow> take 1 (Join sep es) = take 1 (hd es)"
  by (cases "(sep, es)" rule: Join.cases) (auto simp: Suc_le_eq)

lemma IsAbs_Join:
  assumes "\<And>e. e \<in> set es \<Longrightarrow> is_plain e"
  shows "\<not> IsAbs (Join ''/'' es)"
proof (cases es)
  case Nil
  then show ?thesis by (simp add: IsAbs_def HasPrefix_def)
next
  case (Cons e es')
  have "take 1 (Join ''/'' es) = take 1 e"
    using Join_hd [of es "''/''"] assms Cons by (auto simp: is_plain_def)
  moreover have "is_plain e" using assms Cons by simp
  ultimately show ?thesis by (cases e) (auto simp: IsAbs_def HasPrefix_def is_plain_def)
qed

lemma IsAbs_render:
  "(\<And>e. e \<in> set es \<Longrightarrow> is_plain e) \<Longrightarrow> IsAbs (render rooted es) = rooted"
  using IsAbs_Join [of es] by (auto simp: render_def) (simp_all add: IsAbs_def HasPrefix_def)

lemma render_inj:
  assumes "\<And>e. e \<in> set es \<Longrightarrow> is_plain e" "\<And>e. e \<in> set fs \<Longrightarrow> is_plain e"
  shows "render r es = render r fs \<longleftrightarrow> es = fs"
  by (metis assms path_elems_render)

subsection \<open>The result of cleaning\<close>

text \<open>A cleaned list: no \<open>..\<close> when rooted, and only at the front when relative.\<close>

definition clean_list :: "bool \<Rightarrow> string list \<Rightarrow> bool" where
  "clean_list rooted es \<longleftrightarrow>
     (\<exists>n xs. es = replicate n ''..'' @ xs \<and> ''..'' \<notin> set xs \<and> (rooted \<longrightarrow> n = 0))"

lemma clean_list_rooted: "clean_list True es \<longleftrightarrow> ''..'' \<notin> set es"
  by (auto simp: clean_list_def)

lemma clean_list_snoc:
  assumes "clean_list r es" "e \<noteq> ''..''"
  shows "clean_list r (es @ [e])"
proof -
  obtain n xs where "es = replicate n ''..'' @ xs" "''..'' \<notin> set xs" "r \<longrightarrow> n = 0"
    using assms(1) unfolding clean_list_def by blast
  then have "es @ [e] = replicate n ''..'' @ (xs @ [e]) \<and> ''..'' \<notin> set (xs @ [e]) \<and> (r \<longrightarrow> n = 0)"
    using assms(2) by auto
  then show ?thesis unfolding clean_list_def by blast
qed

lemma clean_list_butlast:
  assumes "clean_list r es" "es \<noteq> []" "last es \<noteq> ''..''"
  shows "clean_list r (butlast es)"
proof -
  obtain n xs where es: "es = replicate n ''..'' @ xs" "''..'' \<notin> set xs" "r \<longrightarrow> n = 0"
    using assms(1) unfolding clean_list_def by blast
  have "xs \<noteq> []" using assms(2,3) es(1) by (auto simp: last_replicate)
  then have "butlast es = replicate n ''..'' @ butlast xs" using es(1) by (simp add: butlast_append)
  moreover have "''..'' \<notin> set (butlast xs)" using es(2) by (auto dest: in_set_butlastD)
  ultimately show ?thesis using es(3) unfolding clean_list_def by blast
qed

lemma clean_list_dots:
  assumes "clean_list False es" "es = [] \<or> last es = ''..''"
  shows "clean_list False (es @ [''..''])"
proof -
  obtain n xs where es: "es = replicate n ''..'' @ xs" "''..'' \<notin> set xs"
    using assms(1) unfolding clean_list_def by blast
  have "xs = []" using assms(2) es by (metis append_is_Nil_conv last_appendR last_in_set)
  with es have "es @ [''..''] = replicate (Suc n) ''..'' @ []"
    by (simp add: replicate_append_same)
  then show ?thesis unfolding clean_list_def by (metis empty_iff list.set(1))
qed

lemma clean_elems_clean:
  "clean_list r (rev out) \<Longrightarrow> clean_list r (clean_elems r out es)"
proof (induction r out es rule: clean_elems.induct)
  case (1 r out)
  then show ?case by simp
next
  case (2 r out e es)
  consider (pop) "e = ''..''" "out \<noteq> []" "hd out \<noteq> ''..''"
    | (drop) "e = ''..''" "out = [] \<or> hd out = ''..''" "r"
    | (dots) "e = ''..''" "out = [] \<or> hd out = ''..''" "\<not> r"
    | (push) "e \<noteq> ''..''" by blast
  then show ?case
  proof cases
    case pop
    have "clean_list r (rev (tl out))"
      using clean_list_butlast [OF "2.prems"] pop by (simp add: last_rev butlast_rev)
    with pop "2.IH"(1) show ?thesis by simp
  next
    case drop
    with "2.IH"(2) "2.prems" show ?thesis by auto
  next
    case dots
    have "clean_list r (rev (''..'' # out))"
      using clean_list_dots [of "rev out"] "2.prems" dots by (simp add: last_rev)
    with dots "2.IH"(3) show ?thesis by auto
  next
    case push
    have "clean_list r (rev (e # out))" using clean_list_snoc [OF "2.prems" push] by simp
    with push "2.IH"(4) show ?thesis by simp
  qed
qed

lemma clean_elems_subset: "set (clean_elems r out es) \<subseteq> set out \<union> set es"
proof (induction r out es rule: clean_elems.induct)
  case (2 r out e es)
  have tl: "x \<in> set out" if "x \<in> set (tl out)" for x using that by (cases out) auto
  show ?case
  proof (cases "e = ''..'' \<and> out \<noteq> [] \<and> hd out \<noteq> ''..''")
    case True
    with "2.IH"(1) tl show ?thesis by auto
  next
    case False
    with "2.IH"(2-4) show ?thesis by (cases "e = ''..''"; cases r) auto
  qed
qed simp

lemma clean_list_id: "clean_list r (rev out @ es) \<Longrightarrow> (\<forall>e \<in> set es. e \<noteq> ''..'') \<Longrightarrow> clean_elems r out es = rev out @ es"
  by (induction r out es rule: clean_elems.induct) auto

lemma clean_elems_plain:
  "e \<in> set (clean_elems r [] (path_elems p)) \<Longrightarrow> is_plain e"
  using clean_elems_subset [of r "[]" "path_elems p"] path_elems_plain by auto

lemma Clean_nonempty: "p \<noteq> [] \<Longrightarrow> path_elems (Clean p) = clean_elems (IsAbs p) [] (path_elems p)"
  unfolding Clean_def by (simp add: path_elems_render clean_elems_plain)

lemma IsAbs_Clean [simp]: "IsAbs (Clean p) = IsAbs p"
proof (cases "p = []")
  case True
  then show ?thesis by (simp add: Clean_def IsAbs_def HasPrefix_def)
next
  case False
  then show ?thesis by (simp add: Clean_def IsAbs_render clean_elems_plain)
qed

text \<open>A cleaned absolute path has no \<open>..\<close> element at all.\<close>

theorem Clean_abs_no_dotdot: "IsAbs p \<Longrightarrow> ''..'' \<notin> set (path_elems (Clean p))"
proof -
  assume abs: "IsAbs p"
  then have "p \<noteq> []" by (auto simp: IsAbs_def HasPrefix_def)
  moreover have "clean_list True (clean_elems True [] (path_elems p))"
    by (rule clean_elems_clean) (simp add: clean_list_rooted)
  ultimately show ?thesis using abs by (simp add: Clean_nonempty clean_list_rooted)
qed


subsection \<open>Joining a path to a base\<close>

lemma clean_elems_append:
  "clean_elems r out (xs @ ys) = clean_elems r (rev (clean_elems r out xs)) ys"
  by (induction r out xs rule: clean_elems.induct) auto

text \<open>Once a relative path starts with \<open>..\<close> it keeps that element.\<close>

lemma clean_elems_keeps_dots:
  "out \<noteq> [] \<Longrightarrow> last out = ''..'' \<Longrightarrow> ''..'' \<in> set (clean_elems False out es)"
proof (induction es arbitrary: out)
  case Nil
  then show ?case using last_in_set [of out] by simp
next
  case (Cons e es)
  show ?case
  proof (cases "e = ''..'' \<and> hd out \<noteq> ''..''")
    case True
    have "tl out \<noteq> []" using Cons.prems True by (cases out) auto
    then have "last (tl out) = ''..''" using Cons.prems by (simp add: last_tl)
    with Cons.IH [of "tl out"] \<open>tl out \<noteq> []\<close> True Cons.prems show ?thesis by simp
  next
    case False
    with Cons.IH [of "e # out"] Cons.prems show ?thesis by auto
  qed
qed

text \<open>
  A relative path that cleans to a path without \<open>..\<close> never climbs above its start, so below
  any rooted path it is cleaned on its own.
\<close>

lemma clean_elems_below:
  assumes "''..'' \<notin> set (clean_elems False o' es)" "''..'' \<notin> set o'"
  shows "clean_elems r (o' @ out) es = rev out @ clean_elems False o' es"
  using assms
proof (induction es arbitrary: o')
  case Nil
  then show ?case by simp
next
  case (Cons e es)
  show ?case
  proof (cases "e = ''..''")
    case False
    with Cons.IH [of "e # o'"] Cons.prems show ?thesis by simp
  next
    case True
    show ?thesis
    proof (cases o')
      case Nil
      with Cons.prems True clean_elems_keeps_dots [of "[''..'']" es] show ?thesis by simp
    next
      case (Cons a o'')
      with Cons.prems have "a \<noteq> ''..''" by auto
      with Cons Cons.prems True Cons.IH [of o''] show ?thesis by simp
    qed
  qed
qed

lemma Split_append: "Split c (s @ c # t) = Split c s @ Split c t"
proof (induction s)
  case Nil
  then show ?case by simp
next
  case (Cons x s)
  then show ?case by (cases "Split c s") (simp_all split: list.split)
qed

lemma path_elems_append: "path_elems (a @ CHR ''/'' # b) = path_elems a @ path_elems b"
  by (simp add: path_elems_def Split_append)

lemma path_elems_Clean: "path_elems (Clean p) = clean_elems (IsAbs p) [] (path_elems p)"
proof (cases "p = []")
  case True
  then show ?thesis by (simp add: Clean_def path_elems_def)
next
  case False
  then show ?thesis by (rule Clean_nonempty)
qed

theorem Join_path_below:
  assumes "IsAbs base" "\<not> IsAbs p" "''..'' \<notin> set (path_elems (Clean p))"
  shows "path_elems (Join_path [base, p]) = path_elems (Clean base) @ path_elems (Clean p)"
proof -
  have "base \<noteq> []" using assms(1) by (auto simp: IsAbs_def HasPrefix_def)
  then have "Join_path [base, p] = Clean (base @ CHR ''/'' # p)"
    by (simp add: Join_path_def)
  moreover have abs: "IsAbs (base @ CHR ''/'' # p)"
    using assms(1) by (auto simp: IsAbs_def HasPrefix_iff)
  moreover have "clean_elems False [] (path_elems p) = path_elems (Clean p)"
    using assms(2) by (simp add: path_elems_Clean)
  ultimately show ?thesis
    using assms clean_elems_below [of "[]" "path_elems p" True "rev (clean_elems True [] (path_elems base))"]
    by (simp add: path_elems_Clean path_elems_append clean_elems_append)
qed

lemma Join_element: "e \<in> set es \<Longrightarrow> \<exists>u v. Join sep es = u @ e @ v"
proof (induction sep es rule: Join.induct)
  case (2 sep s)
  then have "Join sep [s] = [] @ e @ []" by simp
  then show ?case by blast
next
  case (3 sep s t ss)
  show ?case
  proof (cases "e = s")
    case True
    then have "Join sep (s # t # ss) = [] @ e @ (sep @ Join sep (t # ss))" by simp
    then show ?thesis by blast
  next
    case False
    with 3 obtain u v where "Join sep (t # ss) = u @ e @ v" by auto
    then have "Join sep (s # t # ss) = (s @ sep @ u) @ e @ v" by simp
    then show ?thesis by blast
  qed
qed simp

lemma Clean_element:
  assumes "e \<in> set (path_elems (Clean p))"
  shows "\<exists>u v. Clean p = u @ e @ v"
proof -
  let ?es = "clean_elems (IsAbs p) [] (path_elems p)"
  have es: "e \<in> set ?es" using assms by (simp add: path_elems_Clean)
  then obtain u v where uv: "Join ''/'' ?es = u @ e @ v" using Join_element by blast
  have "p \<noteq> []" using es by (auto simp: path_elems_def)
  then have "Clean p = Join ''/'' ?es \<or> Clean p = CHR ''/'' # Join ''/'' ?es"
    using es by (cases "IsAbs p") (auto simp: Clean_def render_def)
  then show ?thesis using uv by (metis append_Cons)
qed

text \<open>The first element of a cleaned relative path is the path or a prefix of it up to a slash.\<close>

lemma Clean_first_element:
  assumes "\<not> IsAbs p" "path_elems (Clean p) \<noteq> []"
  shows "Clean p = hd (path_elems (Clean p)) \<or> HasPrefix (Clean p) (hd (path_elems (Clean p)) @ ''/'')"
proof -
  let ?es = "clean_elems (IsAbs p) [] (path_elems p)"
  have ne: "?es \<noteq> []" using assms(2) by (simp add: path_elems_Clean)
  then have "p \<noteq> []" by (auto simp: path_elems_def)
  then have "Clean p = Join ''/'' ?es" using ne assms(1) by (simp add: Clean_def render_def)
  moreover have "Join ''/'' ?es = hd ?es \<or> HasPrefix (Join ''/'' ?es) (hd ?es @ ''/'')"
    using ne by (cases "(''/'', ?es)" rule: Join.cases) (auto simp: HasPrefix_iff)
  ultimately show ?thesis unfolding path_elems_Clean by simp
qed

subsection \<open>Cleaned paths are cleaned, and not empty\<close>

lemma Clean_render: "p \<noteq> [] \<Longrightarrow> Clean p = render (IsAbs p) (path_elems (Clean p))"
  by (subst path_elems_Clean) (simp add: Clean_def)

lemma IsAbs_append: "IsAbs w \<Longrightarrow> IsAbs (w @ s)"
  by (auto simp: IsAbs_def HasPrefix_iff)

lemma IsAbs_not_Nil: "IsAbs w \<Longrightarrow> w \<noteq> []"
  by (auto simp: IsAbs_def HasPrefix_def)

lemma Clean_idem: "IsAbs p \<Longrightarrow> Clean (Clean p) = Clean p"
proof -
  assume abs: "IsAbs p"
  let ?q = "Clean p"
  have q: "IsAbs ?q" using abs by simp
  have "clean_elems True [] (path_elems ?q) = path_elems ?q"
    using clean_list_id [of True "[]" "path_elems ?q"] Clean_abs_no_dotdot [OF abs] by (auto simp: clean_list_rooted)
  then have "path_elems (Clean ?q) = path_elems ?q" using q by (simp add: path_elems_Clean [of ?q])
  then show ?thesis
    using Clean_render [OF IsAbs_not_Nil [OF abs]] Clean_render [OF IsAbs_not_Nil [OF q]] abs by simp
qed

lemma Join_path_two: "b \<noteq> [] \<Longrightarrow> Join_path [b, t] = Clean (b @ ''/'' @ t)"
  by (simp add: Join_path_def)

lemma Join_append: "xs \<noteq> [] \<Longrightarrow> ys \<noteq> [] \<Longrightarrow> Join sep (xs @ ys) = Join sep xs @ sep @ Join sep ys"
  by (induction sep xs rule: Join.induct) (auto simp: neq_Nil_conv)

lemma Join_is_Nil: "Join sep es = [] \<Longrightarrow> es \<noteq> [] \<Longrightarrow> hd es = []"
  by (induction sep es rule: Join.induct) auto

lemma Clean_not_Nil [simp]: "Clean p \<noteq> []"
proof (cases "p = []")
  case False
  let ?es = "clean_elems (IsAbs p) [] (path_elems p)"
  have "e \<noteq> []" if "e \<in> set ?es" for e
    using clean_elems_subset [of "IsAbs p" "[]" "path_elems p"] that path_elems_plain [of e p] by (auto simp: is_plain_def)
  then have "Join ''/'' ?es \<noteq> []" if "?es \<noteq> []"
    using Join_is_Nil [of "''/''" ?es] that by (metis hd_in_set)
  then show ?thesis using False by (auto simp: Clean_def render_def)
qed (simp add: Clean_def)

lemma Join_path_not_Nil [simp]: "d \<noteq> [] \<Longrightarrow> Join_path (d # es) \<noteq> []"
  by (simp add: Join_path_def Let_def)

end
