(* ===== verification/Values.thy ===== *)
theory Values
  imports Prelude Regex Filepath
begin

text \<open>
  The value objects of \<open>internal/joblet/domain/values\<close>: CPU percentages and core sets
  (\<open>cpu.go\<close>), memory sizes (\<open>memory.go\<close>), bandwidths (\<open>bandwidth.go\<close>), identifiers
  (\<open>identifiers.go\<close>), paths (\<open>paths.go\<close>) and collections (\<open>collections.go\<close>). Each Go struct
  is a record, each constructor returns a value or the error of the line that rejects its
  argument. The renderings that go through \<open>float64\<close> (\<open>%.1f\<close>) are left out; of these the
  unit loop is modelled, since it indexes a string.
\<close>

datatype value_error =
    CPUNegative int
  | CPUTooHigh int
  | CoreRangeFormat string
  | CoreRangeNumbers string
  | CoreNegative
  | CoreRangeOrder
  | CoreNumber string
  | CoreNumberNegative int
  | CoreDuplicate int
  | CoreUnavailable int int
  | MemoryNegative int
  | MemorySubtract
  | MemoryBelowMinimum
  | MemoryAboveMaximum
  | BandwidthNegative int
  | BandwidthBelowMinimum
  | BandwidthAboveMaximum
  | JobUUIDEmpty
  | JobUUIDTooShort string
  | PIDNegative int
  | PIDZero
  | NetworkNameEmpty
  | NetworkNameFormat string
  | NetworkNameTooLong string
  | VolumeNameEmpty
  | VolumeNameFormat string
  | VolumeNameTooLong string
  | InvalidVolumeName string value_error
  | VolumeNameDuplicate string
  | RuntimeSpecTooLong string
  | PathEmpty
  | PathNotAbsolute string
  | CgroupPathEmpty
  | CgroupPathInvalid value_error
  | CgroupPathPrefix string

section \<open>CPU (cpu.go)\<close>

record CPUPercentage =
  cpu_value :: int

definition NewCPUPercentage :: "int \<Rightarrow> (value_error, CPUPercentage) result" where
  "NewCPUPercentage percent =
     (if percent < 0 then Inl (CPUNegative percent)
      else if percent > 10000 then Inl (CPUTooHigh percent)
      else Inr \<lparr>cpu_value = percent\<rparr>)"

definition CPUPercentage_Value :: "CPUPercentage \<Rightarrow> int" where
  "CPUPercentage_Value c = cpu_value c"

definition CPUPercentage_String :: "CPUPercentage \<Rightarrow> string" where
  "CPUPercentage_String c = Itoa (cpu_value c) @ ''%''"

definition CPUPercentage_IsUnlimited :: "CPUPercentage \<Rightarrow> bool" where
  "CPUPercentage_IsUnlimited c \<longleftrightarrow> cpu_value c = 0"

record CPUCoreSet =
  cs_cores :: "int list"
  cs_spec :: string

text \<open>
  The loop \<open>for i := start; i <= end; i++\<close>: with \<open>end\<close> the largest \<open>int\<close> the guard never
  fails, \<open>i\<close> wraps around and the loop does not end; \<^const>\<open>None\<close> is that outcome.
\<close>

partial_function (option) core_loop :: "int \<Rightarrow> int \<Rightarrow> int list \<Rightarrow> int list option" where
  [code]: "core_loop i e cores = (if i \<le> e then core_loop (int64 (i + 1)) e (cores @ [i]) else Some cores)"

fun parse_core_list :: "string list \<Rightarrow> int list \<Rightarrow> (value_error, int list) result" where
  "parse_core_list [] cores = Inr cores"
| "parse_core_list (coreStr # rest) cores =
     (case Atoi (TrimSpace coreStr) of
        None \<Rightarrow> Inl (CoreNumber coreStr)
      | Some core \<Rightarrow> if core < 0 then Inl (CoreNumberNegative core)
                     else parse_core_list rest (cores @ [core]))"

fun first_duplicate :: "int set \<Rightarrow> int list \<Rightarrow> int option" where
  "first_duplicate seen [] = None"
| "first_duplicate seen (core # rest) =
     (if core \<in> seen then Some core else first_duplicate (insert core seen) rest)"

definition check_duplicates :: "string \<Rightarrow> int list \<Rightarrow> (value_error, CPUCoreSet) result" where
  "check_duplicates spec cores =
     (case first_duplicate {} cores of
        Some core \<Rightarrow> Inl (CoreDuplicate core)
      | None \<Rightarrow> Inr \<lparr>cs_cores = cores, cs_spec = spec\<rparr>)"

definition parse_core_range :: "string \<Rightarrow> (value_error, int list) result option" where
  "parse_core_range spec =
     (let parts = Split CHR ''-'' spec in
      if length parts \<noteq> 2 then Some (Inl (CoreRangeFormat spec))
      else (case (Atoi (TrimSpace (parts ! 0)), Atoi (TrimSpace (parts ! 1))) of
              (Some start, Some stop) \<Rightarrow>
                if start < 0 \<or> stop < 0 then Some (Inl CoreNegative)
                else if start > stop then Some (Inl CoreRangeOrder)
                else map_option Inr (core_loop start stop [])
            | _ \<Rightarrow> Some (Inl (CoreRangeNumbers spec))))"

definition ParseCPUCoreSet :: "string \<Rightarrow> (value_error, CPUCoreSet) result option" where
  "ParseCPUCoreSet spec =
     (if spec = [] then Some (Inr \<lparr>cs_cores = [], cs_spec = []\<rparr>)
      else map_option
        (\<lambda>r. case r of Inl e \<Rightarrow> Inl e | Inr cores \<Rightarrow> check_duplicates spec cores)
        (if Contains spec ''-'' then parse_core_range spec
         else Some (parse_core_list (Split CHR '','' spec) [])))"

definition CPUCoreSet_Cores :: "CPUCoreSet \<Rightarrow> int list" where
  "CPUCoreSet_Cores c = cs_cores c"

definition CPUCoreSet_Count :: "CPUCoreSet \<Rightarrow> nat" where
  "CPUCoreSet_Count c = length (cs_cores c)"

definition CPUCoreSet_IsEmpty :: "CPUCoreSet \<Rightarrow> bool" where
  "CPUCoreSet_IsEmpty c \<longleftrightarrow> cs_cores c = []"

definition CPUCoreSet_Contains :: "CPUCoreSet \<Rightarrow> int \<Rightarrow> bool" where
  "CPUCoreSet_Contains c core = list_ex (\<lambda>x. x = core) (cs_cores c)"

definition CPUCoreSet_String :: "CPUCoreSet \<Rightarrow> string" where
  "CPUCoreSet_String c = cs_spec c"

definition CPUCoreSet_Validate :: "CPUCoreSet \<Rightarrow> int \<Rightarrow> (value_error, unit) result" where
  "CPUCoreSet_Validate c availableCores =
     (case find (\<lambda>core. core \<ge> availableCores) (cs_cores c) of
        Some core \<Rightarrow> Inl (CoreUnavailable core availableCores)
      | None \<Rightarrow> Inr ())"

section \<open>Memory (memory.go)\<close>

record MemorySize =
  mem_bytes :: int

definition NewMemorySize :: "int \<Rightarrow> (value_error, MemorySize) result" where
  "NewMemorySize bytes =
     (if bytes < 0 then Inl (MemoryNegative bytes) else Inr \<lparr>mem_bytes = bytes\<rparr>)"

definition NewMemorySizeFromMB :: "int \<Rightarrow> (value_error, MemorySize) result" where
  "NewMemorySizeFromMB mb =
     (if mb < 0 then Inl (MemoryNegative mb)
      else Inr \<lparr>mem_bytes = int64 (int64 (mb * 1024) * 1024)\<rparr>)"

definition MemorySize_Bytes :: "MemorySize \<Rightarrow> int" where
  "MemorySize_Bytes m = mem_bytes m"

definition MemorySize_Megabytes :: "MemorySize \<Rightarrow> int" where
  "MemorySize_Megabytes m = int32 (quot (mem_bytes m) (1024 * 1024))"

definition MemorySize_IsUnlimited :: "MemorySize \<Rightarrow> bool" where
  "MemorySize_IsUnlimited m \<longleftrightarrow> mem_bytes m = 0"

text \<open>
  The loop of \<open>MemorySize.String\<close> and \<open>Bandwidth.String\<close> that picks the unit: the divisor and
  the index into \<open>KMGTPE\<close>, which panics when it is not below 6.
\<close>

function unit_loop :: "int \<Rightarrow> int \<Rightarrow> nat \<Rightarrow> int \<times> nat" where
  "unit_loop n d e = (if n \<ge> 1024 then unit_loop (quot n 1024) (int64 (d * 1024)) (Suc e) else (d, e))"
  by pat_completeness auto
termination
  by (relation "measure (\<lambda>(n, d, e). nat n)") auto

declare unit_loop.simps [simp del]

definition unit_of :: "int \<Rightarrow> int \<times> nat" where
  "unit_of amount = unit_loop (quot amount 1024) 1024 0"

definition MemorySize_Add :: "MemorySize \<Rightarrow> MemorySize \<Rightarrow> MemorySize" where
  "MemorySize_Add m other = \<lparr>mem_bytes = int64 (mem_bytes m + mem_bytes other)\<rparr>"

definition MemorySize_Subtract :: "MemorySize \<Rightarrow> MemorySize \<Rightarrow> (value_error, MemorySize) result" where
  "MemorySize_Subtract m other =
     (if mem_bytes other > mem_bytes m then Inl MemorySubtract
      else Inr \<lparr>mem_bytes = int64 (mem_bytes m - mem_bytes other)\<rparr>)"

definition MemorySize_Validate :: "MemorySize \<Rightarrow> MemorySize \<Rightarrow> MemorySize \<Rightarrow> (value_error, unit) result" where
  "MemorySize_Validate m mn mx =
     (if mem_bytes m < mem_bytes mn then Inl MemoryBelowMinimum
      else if mem_bytes mx > 0 \<and> mem_bytes m > mem_bytes mx then Inl MemoryAboveMaximum
      else Inr ())"

section \<open>Bandwidth (bandwidth.go)\<close>

record Bandwidth =
  bw_bytesPerSecond :: int

definition NewBandwidth :: "int \<Rightarrow> (value_error, Bandwidth) result" where
  "NewBandwidth bytesPerSec =
     (if bytesPerSec < 0 then Inl (BandwidthNegative bytesPerSec)
      else Inr \<lparr>bw_bytesPerSecond = bytesPerSec\<rparr>)"

definition Bandwidth_BytesPerSecond :: "Bandwidth \<Rightarrow> int" where
  "Bandwidth_BytesPerSecond b = bw_bytesPerSecond b"

definition Bandwidth_IsUnlimited :: "Bandwidth \<Rightarrow> bool" where
  "Bandwidth_IsUnlimited b \<longleftrightarrow> bw_bytesPerSecond b = 0"

definition Bandwidth_Validate :: "Bandwidth \<Rightarrow> Bandwidth \<Rightarrow> Bandwidth \<Rightarrow> (value_error, unit) result" where
  "Bandwidth_Validate b mn mx =
     (if bw_bytesPerSecond b < bw_bytesPerSecond mn then Inl BandwidthBelowMinimum
      else if bw_bytesPerSecond mx > 0 \<and> bw_bytesPerSecond b > bw_bytesPerSecond mx
        then Inl BandwidthAboveMaximum
      else Inr ())"

section \<open>Identifiers (identifiers.go)\<close>

record JobUUID = uuid_value :: string

definition NewJobUUID :: "string \<Rightarrow> (value_error, JobUUID) result" where
  "NewJobUUID ident =
     (if TrimSpace ident = [] then Inl JobUUIDEmpty
      else if length ident < 8 then Inl (JobUUIDTooShort ident)
      else Inr \<lparr>uuid_value = ident\<rparr>)"

definition JobUUID_String :: "JobUUID \<Rightarrow> string" where
  "JobUUID_String j = uuid_value j"

definition JobUUID_IsEmpty :: "JobUUID \<Rightarrow> bool" where
  "JobUUID_IsEmpty j \<longleftrightarrow> uuid_value j = []"

record ProcessID = pid_value :: int

definition NewProcessID :: "int \<Rightarrow> (value_error, ProcessID) result" where
  "NewProcessID pid =
     (if pid < 0 then Inl (PIDNegative pid)
      else if pid = 0 then Inl PIDZero
      else Inr \<lparr>pid_value = pid\<rparr>)"

definition ProcessID_Value :: "ProcessID \<Rightarrow> int" where
  "ProcessID_Value p = pid_value p"

definition ProcessID_String :: "ProcessID \<Rightarrow> string" where
  "ProcessID_String p = Itoa (pid_value p)"

definition ProcessID_IsValid :: "ProcessID \<Rightarrow> bool" where
  "ProcessID_IsValid p \<longleftrightarrow> pid_value p > 0"

record NetworkName = net_value :: string

text \<open>The pattern \<open>^[a-zA-Z0-9]([a-zA-Z0-9\-]*[a-zA-Z0-9])?$\<close>.\<close>

definition network_name_re :: re where
  "network_name_re =
     Seq (Cls is_alnum) (Opt (Seq (Star (Cls (\<lambda>c. is_alnum c \<or> c = CHR ''-''))) (Cls is_alnum)))"

definition NewNetworkName :: "string \<Rightarrow> (value_error, NetworkName) result" where
  "NewNetworkName name =
     (let name = TrimSpace name in
      if name = [] then Inl NetworkNameEmpty
      else if \<not> rmatch network_name_re name then Inl (NetworkNameFormat name)
      else if length name > 63 then Inl (NetworkNameTooLong name)
      else Inr \<lparr>net_value = name\<rparr>)"

definition NetworkName_String :: "NetworkName \<Rightarrow> string" where
  "NetworkName_String n = net_value n"

definition NetworkName_IsIsolated :: "NetworkName \<Rightarrow> bool" where
  "NetworkName_IsIsolated n \<longleftrightarrow> net_value n = ''isolated''"

record VolumeName = vol_value :: string

text \<open>The pattern \<open>^[a-zA-Z0-9][a-zA-Z0-9_.-]*$\<close>.\<close>

definition volume_name_re :: re where
  "volume_name_re =
     Seq (Cls is_alnum)
         (Star (Cls (\<lambda>c. is_alnum c \<or> c = CHR ''_'' \<or> c = CHR ''.'' \<or> c = CHR ''-'')))"

definition NewVolumeName :: "string \<Rightarrow> (value_error, VolumeName) result" where
  "NewVolumeName name =
     (let name = TrimSpace name in
      if name = [] then Inl VolumeNameEmpty
      else if \<not> rmatch volume_name_re name then Inl (VolumeNameFormat name)
      else if length name > 128 then Inl (VolumeNameTooLong name)
      else Inr \<lparr>vol_value = name\<rparr>)"

definition VolumeName_Value :: "VolumeName \<Rightarrow> string" where
  "VolumeName_Value v = vol_value v"

record RuntimeSpec = rs_value :: string

definition NewRuntimeSpec :: "string \<Rightarrow> (value_error, RuntimeSpec) result" where
  "NewRuntimeSpec spec =
     (let spec = TrimSpace spec in
      if spec = [] then Inr \<lparr>rs_value = []\<rparr>
      else if length spec > 256 then Inl (RuntimeSpecTooLong spec)
      else Inr \<lparr>rs_value = spec\<rparr>)"

definition RuntimeSpec_String :: "RuntimeSpec \<Rightarrow> string" where
  "RuntimeSpec_String r = rs_value r"

definition RuntimeSpec_IsEmpty :: "RuntimeSpec \<Rightarrow> bool" where
  "RuntimeSpec_IsEmpty r \<longleftrightarrow> rs_value r = []"

definition RuntimeSpec_Language :: "RuntimeSpec \<Rightarrow> string" where
  "RuntimeSpec_Language r =
     (if RuntimeSpec_IsEmpty r then [] else Split CHR '':'' (rs_value r) ! 0)"

definition RuntimeSpec_Version :: "RuntimeSpec \<Rightarrow> string" where
  "RuntimeSpec_Version r =
     (if RuntimeSpec_IsEmpty r then []
      else (let parts = Split CHR '':'' (rs_value r)
            in if length parts > 1 then parts ! 1 else []))"

section \<open>Paths (paths.go)\<close>

record Path = path_value :: string

definition NewAbsolutePath :: "string \<Rightarrow> (value_error, Path) result" where
  "NewAbsolutePath path =
     (if TrimSpace path = [] then Inl PathEmpty
      else (let cleaned = Clean path in
            if \<not> IsAbs cleaned then Inl (PathNotAbsolute path)
            else Inr \<lparr>path_value = cleaned\<rparr>))"

definition Path_IsAbsolute :: "Path \<Rightarrow> bool" where
  "Path_IsAbsolute p = IsAbs (path_value p)"

definition Path_Dir :: "Path \<Rightarrow> Path" where
  "Path_Dir p = \<lparr>path_value = Dir (path_value p)\<rparr>"

definition Path_Base :: "Path \<Rightarrow> string" where
  "Path_Base p = Base (path_value p)"

definition Path_Join :: "Path \<Rightarrow> string list \<Rightarrow> Path" where
  "Path_Join p elements = \<lparr>path_value = Join_path (path_value p # elements)\<rparr>"

record CgroupPath = cg_path :: Path

definition NewCgroupPath :: "string \<Rightarrow> (value_error, CgroupPath) result" where
  "NewCgroupPath path =
     (if TrimSpace path = [] then Inl CgroupPathEmpty
      else (case NewAbsolutePath path of
              Inl e \<Rightarrow> Inl (CgroupPathInvalid e)
            | Inr p \<Rightarrow>
                if \<not> HasPrefix (path_value p) ''/sys/fs/cgroup'' \<and>
                   \<not> HasPrefix (path_value p) ''/sys/fs/cgroup2''
                then Inl (CgroupPathPrefix path)
                else Inr \<lparr>cg_path = p\<rparr>))"

definition CgroupPath_Value :: "CgroupPath \<Rightarrow> string" where
  "CgroupPath_Value c = path_value (cg_path c)"

definition CgroupPath_IsV1 :: "CgroupPath \<Rightarrow> bool" where
  "CgroupPath_IsV1 c = HasPrefix (path_value (cg_path c)) ''/sys/fs/cgroup/''"

definition CgroupPath_IsV2 :: "CgroupPath \<Rightarrow> bool" where
  "CgroupPath_IsV2 c = HasPrefix (path_value (cg_path c)) ''/sys/fs/cgroup2/''"

section \<open>Collections (collections.go)\<close>

record VolumeNames = vn_volumes :: "VolumeName list"

fun new_volume_names :: "string list \<Rightarrow> VolumeName list \<Rightarrow> (value_error, VolumeName list) result" where
  "new_volume_names [] volumes = Inr volumes"
| "new_volume_names (name # names) volumes =
     (case NewVolumeName name of
        Inl e \<Rightarrow> Inl (InvalidVolumeName name e)
      | Inr vol \<Rightarrow> new_volume_names names (volumes @ [vol]))"

definition NewVolumeNames :: "string list \<Rightarrow> (value_error, VolumeNames) result" where
  "NewVolumeNames names =
     (case new_volume_names names [] of
        Inl e \<Rightarrow> Inl e
      | Inr volumes \<Rightarrow> Inr \<lparr>vn_volumes = volumes\<rparr>)"

definition VolumeNames_Count :: "VolumeNames \<Rightarrow> nat" where
  "VolumeNames_Count vn = length (vn_volumes vn)"

definition VolumeNames_IsEmpty :: "VolumeNames \<Rightarrow> bool" where
  "VolumeNames_IsEmpty vn \<longleftrightarrow> vn_volumes vn = []"

definition VolumeNames_ToStringSlice :: "VolumeNames \<Rightarrow> string list" where
  "VolumeNames_ToStringSlice vn = map VolumeName_Value (vn_volumes vn)"

definition VolumeNames_String :: "VolumeNames \<Rightarrow> string" where
  "VolumeNames_String vn =
     (if VolumeNames_IsEmpty vn then []
      else Join '','' (sort (VolumeNames_ToStringSlice vn)))"

fun first_duplicate_name :: "string set \<Rightarrow> VolumeName list \<Rightarrow> string option" where
  "first_duplicate_name seen [] = None"
| "first_duplicate_name seen (vol # rest) =
     (let name = VolumeName_Value vol
      in if name \<in> seen then Some name else first_duplicate_name (insert name seen) rest)"

definition VolumeNames_Validate :: "VolumeNames \<Rightarrow> (value_error, unit) result" where
  "VolumeNames_Validate vn =
     (case first_duplicate_name {} (vn_volumes vn) of
        Some name \<Rightarrow> Inl (VolumeNameDuplicate name)
      | None \<Rightarrow> Inr ())"

record Environment = env_variables :: "string \<rightharpoonup> string"

definition NewEnvironment :: "(string \<rightharpoonup> string) \<Rightarrow> Environment" where
  "NewEnvironment vars = \<lparr>env_variables = vars\<rparr>"

definition Environment_ToMap :: "Environment \<Rightarrow> (string \<rightharpoonup> string)" where
  "Environment_ToMap e = env_variables e"

text \<open>\<open>ks\<close> is the order in which \<open>range\<close> visits the map; the result is sorted.\<close>

definition Environment_ToSlice :: "string list \<Rightarrow> Environment \<Rightarrow> string list" where
  "Environment_ToSlice ks e =
     sort (List.map_filter (\<lambda>k. map_option (\<lambda>v. k @ ''='' @ v) (env_variables e k)) ks)"

definition Environment_Count :: "string list \<Rightarrow> Environment \<Rightarrow> nat" where
  "Environment_Count ks e = length (range_vals ks (env_variables e))"

definition Environment_IsEmpty :: "string list \<Rightarrow> Environment \<Rightarrow> bool" where
  "Environment_IsEmpty ks e \<longleftrightarrow> Environment_Count ks e = 0"


section \<open>Core sets\<close>

lemma fits64_iff: "fits64 x \<longleftrightarrow> - 9223372036854775808 \<le> x \<and> x < 9223372036854775808"
  by (simp add: int_fits_def)

lemma core_loop_range:
  "0 \<le> i \<Longrightarrow> e < 9223372036854775807 \<Longrightarrow> core_loop i e cores = Some (cores @ [i..e])"
proof (induction "nat (e - i + 1)" arbitrary: i cores)
  case 0
  then show ?case by (simp add: core_loop.simps)
next
  case (Suc n)
  then have le: "i \<le> e" by simp
  have "int64 (i + 1) = i + 1" using Suc.prems le by (intro wrap_int_id) (simp_all add: fits64_iff)
  then have "core_loop i e cores = core_loop (i + 1) e (cores @ [i])"
    using le by (simp add: core_loop.simps [of i])
  also have "\<dots> = Some ((cores @ [i]) @ [i + 1..e])"
    using Suc by (intro Suc.hyps(1)) simp_all
  also have "(cores @ [i]) @ [i + 1..e] = cores @ [i..e]"
    using le by (simp add: upto_rec1)
  finally show ?case .
qed

lemma core_loop_diverges:
  assumes "fits64 i"
  shows "core_loop i 9223372036854775807 cores = None"
proof (rule ccontr)
  assume "core_loop i 9223372036854775807 cores \<noteq> None"
  then obtain r where ret: "core_loop i 9223372036854775807 cores = Some r" by blast
  have "\<not> (fits64 i \<and> (9223372036854775807::int) = 9223372036854775807)"
  proof (rule core_loop.raw_induct [where P = "\<lambda>i e cores r. \<not> (fits64 i \<and> e = 9223372036854775807)", OF _ ret])
    fix f i e cores r
    assume IH: "\<And>i e cores r. f i e cores = Some r \<Longrightarrow> \<not> (fits64 i \<and> e = 9223372036854775807)"
      and eq: "(if i \<le> e then f (int64 (i + 1)) e (cores @ [i]) else Some cores) = Some r"
    show "\<not> (fits64 i \<and> e = 9223372036854775807)"
    proof
      assume a: "fits64 i \<and> e = 9223372036854775807"
      then have "f (int64 (i + 1)) e (cores @ [i]) = Some r"
        using eq by (simp add: fits64_iff split: if_splits)
      moreover have "fits64 (int64 (i + 1))" by (rule wrap_int_fits) simp
      ultimately show False using IH a by blast
    qed
  qed
  with assms show False by simp
qed

lemma parse_core_list_acc:
  "parse_core_list ss cores = Inr out \<Longrightarrow>
     \<exists>new. out = cores @ new \<and> length new = length ss \<and> (\<forall>c \<in> set new. 0 \<le> c \<and> fits64 c)"
proof (induction ss cores rule: parse_core_list.induct)
  case (1 cores)
  then show ?case by simp
next
  case (2 s rest cores)
  then obtain core where core: "Atoi (TrimSpace s) = Some core" "\<not> core < 0"
      "parse_core_list rest (cores @ [core]) = Inr out"
    by (auto split: option.splits if_splits)
  with "2.IH" obtain new where "out = (cores @ [core]) @ new" "length new = length rest"
      "\<forall>c \<in> set new. 0 \<le> c \<and> fits64 c" by blast
  then show ?case using core Atoi_fits [of "TrimSpace s" core]
    by (intro exI [of _ "core # new"]) auto
qed

lemma parse_core_list_Itoa:
  "(\<forall>c \<in> set new. 0 \<le> c \<and> fits64 c) \<Longrightarrow> parse_core_list (map Itoa new) cores = Inr (cores @ new)"
  by (induction new arbitrary: cores) (auto simp: Atoi_TrimSpace_Itoa)

lemma first_duplicate_None: "first_duplicate seen xs = None \<longleftrightarrow> distinct xs \<and> set xs \<inter> seen = {}"
  by (induction seen xs rule: first_duplicate.induct) auto

lemma parse_core_range_ok:
  assumes "parse_core_range spec = Some (Inr cores)"
  shows "cores \<noteq> [] \<and> (\<forall>c \<in> set cores. 0 \<le> c \<and> fits64 c)"
proof -
  obtain start stop where
    parsed: "Atoi (TrimSpace (Split CHR ''-'' spec ! 1)) = Some stop" "\<not> start < 0" "\<not> start > stop"
    and loop: "core_loop start stop [] = Some cores"
    using assms by (auto simp: parse_core_range_def Let_def split: if_splits option.splits)
  have fits: "fits64 stop" using parsed(1) by (rule Atoi_fits)
  then have "stop \<noteq> 9223372036854775807"
    using core_loop_diverges [of start "[]"] loop parsed(2,3) by (auto simp: fits64_iff)
  then have "cores = [start..stop]"
    using core_loop_range [of start stop "[]"] loop parsed fits by (simp add: fits64_iff)
  with parsed fits show ?thesis by (auto simp: fits64_iff)
qed

lemma ParseCPUCoreSet_accepted:
  assumes "ParseCPUCoreSet spec = Some (Inr cs)"
  shows "distinct (CPUCoreSet_Cores cs) \<and> (\<forall>c \<in> set (CPUCoreSet_Cores cs). 0 \<le> c \<and> fits64 c) \<and>
    CPUCoreSet_String cs = spec \<and> (CPUCoreSet_IsEmpty cs \<longleftrightarrow> spec = [])"
proof (cases "spec = []")
  case True
  with assms show ?thesis
    by (auto simp: ParseCPUCoreSet_def CPUCoreSet_Cores_def CPUCoreSet_String_def CPUCoreSet_IsEmpty_def)
next
  case False
  let ?parsed = "if Contains spec ''-'' then parse_core_range spec
     else Some (parse_core_list (Split CHR '','' spec) [])"
  obtain r where r: "?parsed = Some r"
    and res: "(case r of Inl e \<Rightarrow> Inl e | Inr cores \<Rightarrow> check_duplicates spec cores) = Inr cs"
    using assms False unfolding ParseCPUCoreSet_def by auto
  from res obtain cores where "r = Inr cores" and check: "check_duplicates spec cores = Inr cs"
    by (cases r) simp_all
  with r have cores: "?parsed = Some (Inr cores)" by simp
  have "cores \<noteq> [] \<and> (\<forall>c \<in> set cores. 0 \<le> c \<and> fits64 c)"
  proof (cases "Contains spec ''-''")
    case True
    with cores show ?thesis by (auto dest: parse_core_range_ok)
  next
    case False
    with cores parse_core_list_acc [of "Split CHR '','' spec" "[]" cores] show ?thesis by fastforce
  qed
  moreover have "cs = \<lparr>cs_cores = cores, cs_spec = spec\<rparr>" "distinct cores"
    using check by (auto simp: check_duplicates_def first_duplicate_None split: option.splits)
  ultimately show ?thesis using False
    by (simp add: CPUCoreSet_Cores_def CPUCoreSet_String_def CPUCoreSet_IsEmpty_def)
qed

text \<open>
  A core specification that is accepted names each core once, every core is a
  non-negative int, the original text is kept, and only the empty text gives the empty set
  (which means no restriction).
\<close>

theorem ParseCPUCoreSet_sound:
  assumes "ParseCPUCoreSet spec = Some (Inr cs)"
  shows "distinct (CPUCoreSet_Cores cs) \<and> (\<forall>c \<in> set (CPUCoreSet_Cores cs). 0 \<le> c \<and> fits64 c) \<and>
    CPUCoreSet_String cs = spec \<and> (CPUCoreSet_IsEmpty cs \<longleftrightarrow> spec = [])"
  using assms by (rule ParseCPUCoreSet_accepted)

theorem ParseCPUCoreSet_sound_witness:
  "distinct (CPUCoreSet_Cores \<lparr>cs_cores = [4, 0, 2], cs_spec = ''4,0, 2''\<rparr>)"
proof -
  have "ParseCPUCoreSet ''4,0, 2'' = Some (Inr \<lparr>cs_cores = [4, 0, 2], cs_spec = ''4,0, 2''\<rparr>)"
    by code_simp
  from ParseCPUCoreSet_sound [OF this] show ?thesis by blast
qed

lemma Contains_char: "Contains s [c] \<longleftrightarrow> c \<in> set s"
  by (simp add: Contains_iff in_set_conv_decomp)

lemma Itoa_no_dash: "0 \<le> i \<Longrightarrow> CHR ''-'' \<notin> set (Itoa i)"
  using Itoa_digits [of i "CHR ''-''"] not_is_digit_sign by blast

text \<open>
  A range of cores, written with its two bounds, parses to exactly the cores from the
  first bound to the second; with the largest int as the second bound the parser never
  returns.
\<close>

theorem ParseCPUCoreSet_range:
  assumes "0 \<le> a" "a \<le> b" "fits64 b"
  shows "ParseCPUCoreSet (Itoa a @ ''-'' @ Itoa b) =
    (if b = 9223372036854775807 then None
     else Some (Inr \<lparr>cs_cores = [a..b], cs_spec = Itoa a @ ''-'' @ Itoa b\<rparr>))"
proof -
  let ?spec = "Itoa a @ ''-'' @ Itoa b"
  have fits: "fits64 a" "0 \<le> b" using assms by (simp_all add: fits64_iff)
  have parts: "Split CHR ''-'' ?spec = [Itoa a, Itoa b]"
    using Itoa_no_dash [of a] Itoa_no_dash [of b] assms fits by (simp add: Split_append_sep Split_no_sep)
  have "parse_core_range ?spec = map_option Inr (core_loop a b [])"
    unfolding parse_core_range_def parts
    using assms fits by (simp add: Let_def Atoi_TrimSpace_Itoa)
  moreover have "core_loop a b [] = (if b = 9223372036854775807 then None else Some [a..b])"
    using core_loop_range [of a b "[]"] core_loop_diverges [of a "[]"] assms fits
    by (auto simp: fits64_iff)
  moreover have "check_duplicates ?spec [a..b] = Inr \<lparr>cs_cores = [a..b], cs_spec = ?spec\<rparr>"
    unfolding check_duplicates_def using first_duplicate_None [of "{}" "[a..b]"] by simp
  ultimately show ?thesis by (simp add: ParseCPUCoreSet_def Contains_char)
qed

theorem ParseCPUCoreSet_range_witness:
  "ParseCPUCoreSet ''0-3'' = Some (Inr \<lparr>cs_cores = [0, 1, 2, 3], cs_spec = ''0-3''\<rparr>) \<and>
   ParseCPUCoreSet ''0-9223372036854775807'' = None"
proof
  have itoa: "Itoa 0 = ''0''" "Itoa 3 = ''3''" "Itoa 9223372036854775807 = ''9223372036854775807''"
    by (simp_all add: Itoa_def nat_digits.simps) code_simp+
  have up: "[0..3] = [0, 1, 2, 3::int]" by code_simp
  show "ParseCPUCoreSet ''0-3'' = Some (Inr \<lparr>cs_cores = [0, 1, 2, 3], cs_spec = ''0-3''\<rparr>)"
    using ParseCPUCoreSet_range [of 0 3] itoa up by (simp add: fits64_iff)
  show "ParseCPUCoreSet ''0-9223372036854775807'' = None"
    using ParseCPUCoreSet_range [of 0 9223372036854775807] itoa by (simp add: fits64_iff)
qed

lemma Itoa_no_comma: "0 \<le> i \<Longrightarrow> CHR '','' \<notin> set (Itoa i)"
  using Itoa_digits [of i "CHR '',''"] by (auto simp: is_digit_def byte_val_def)

lemma set_Join: "c \<in> set (Join [d] ps) \<Longrightarrow> c = d \<or> (\<exists>p \<in> set ps. c \<in> set p)"
  by (induction "[d]" ps rule: Join.induct) auto

text \<open>
  A list of distinct cores, written with commas, parses back to that list.
\<close>

theorem ParseCPUCoreSet_list:
  assumes "cores \<noteq> []" "distinct cores" "\<forall>c \<in> set cores. 0 \<le> c \<and> fits64 c"
  shows "ParseCPUCoreSet (Join '','' (map Itoa cores)) =
    Some (Inr \<lparr>cs_cores = cores, cs_spec = Join '','' (map Itoa cores)\<rparr>)"
proof -
  let ?spec = "Join '','' (map Itoa cores)"
  have parts: "Split CHR '','' ?spec = map Itoa cores"
    using assms Itoa_no_comma by (intro Split_Join) auto
  have "CHR ''-'' \<notin> set ?spec" using assms Itoa_no_dash set_Join [of "CHR ''-''"] by fastforce
  moreover have "?spec \<noteq> []" using parts assms(1) by (metis Itoa_not_Nil Split.simps(1) list.set_intros(1) list.simps(8) map_eq_Cons_D)
  moreover have "check_duplicates ?spec cores = Inr \<lparr>cs_cores = cores, cs_spec = ?spec\<rparr>"
    unfolding check_duplicates_def using first_duplicate_None [of "{}" cores] assms(2) by simp
  ultimately show ?thesis
    unfolding ParseCPUCoreSet_def parts using parse_core_list_Itoa [of cores "[]"] assms(3)
    by (simp add: Contains_char)
qed

theorem ParseCPUCoreSet_list_witness:
  "ParseCPUCoreSet ''1,3,5'' = Some (Inr \<lparr>cs_cores = [1, 3, 5], cs_spec = ''1,3,5''\<rparr>)"
proof -
  have "Join '','' (map Itoa [1, 3, 5]) = ''1,3,5''" by code_simp
  then show ?thesis using ParseCPUCoreSet_list [of "[1, 3, 5]"] by (simp add: fits64_iff)
qed

section \<open>Memory sizes\<close>

text \<open>
  A memory size given in megabytes (an int32) is converted to bytes without overflow and
  reads back as the same number of megabytes.
\<close>

theorem MemorySize_MB_roundtrip:
  assumes "0 \<le> mb" "fits32 mb"
  shows "\<exists>m. NewMemorySizeFromMB mb = Inr m \<and> MemorySize_Bytes m = mb * 1048576 \<and>
    MemorySize_Megabytes m = mb"
proof -
  have mb: "mb < 2147483648" using assms(2) by (simp add: int_fits_def)
  have "int64 (mb * 1024) = mb * 1024" "int64 (mb * 1024 * 1024) = mb * 1024 * 1024"
    using assms(1) mb by (auto intro!: wrap_int_id simp: int_fits_def)
  moreover have "int32 (mb * 1048576 div 1048576) = mb"
    using assms(2) by (simp add: wrap_int_id)
  ultimately show ?thesis
    using assms(1) by (simp add: NewMemorySizeFromMB_def MemorySize_Bytes_def MemorySize_Megabytes_def)
qed

theorem MemorySize_MB_roundtrip_witness:
  "\<exists>m. NewMemorySizeFromMB 512 = Inr m \<and> MemorySize_Bytes m = 512 * 1048576 \<and>
    MemorySize_Megabytes m = 512"
  by (rule MemorySize_MB_roundtrip) (simp_all add: int_fits_def)

lemma div_1024_less: "(n::int) div 1024 < m \<longleftrightarrow> n < 1024 * m"
  using mult_div_mod_eq [of 1024 n] pos_mod_bound [of 1024 n] pos_mod_sign [of 1024 n] by linarith

lemma unit_loop_small: "0 \<le> n \<Longrightarrow> n < 1024 \<Longrightarrow> unit_loop n d e = (d, e)"
  by (subst unit_loop.simps) simp

lemma unit_loop_scale:
  "0 \<le> n \<Longrightarrow> n < 1024 ^ Suc k \<Longrightarrow> e + k < 6 \<Longrightarrow> d = 1024 ^ Suc e \<Longrightarrow>
     \<exists>j. unit_loop n d e = (1024 ^ Suc j, j) \<and> j \<le> e + k"
proof (induction k arbitrary: n d e)
  case 0
  then show ?case by (simp add: unit_loop_small)
next
  case (Suc k)
  show ?case
  proof (cases "n < 1024")
    case True
    with Suc.prems show ?thesis by (auto simp: unit_loop_small)
  next
    case False
    have "(1024::int) ^ Suc (Suc e) \<le> 1024 ^ 6" using Suc.prems(3) by (intro power_increasing) simp_all
    then have "int64 (1024 ^ Suc e * 1024) = 1024 ^ Suc (Suc e)"
      by (subst wrap_int_id) (simp_all add: int_fits_def mult.commute order_trans [of _ 0])
    moreover have "n div 1024 < 1024 ^ Suc k"
      using Suc.prems(2) by (simp add: div_1024_less)
    ultimately have "\<exists>j. unit_loop (n div 1024) (1024 ^ Suc (Suc e)) (Suc e) = (1024 ^ Suc j, j) \<and> j \<le> Suc e + k"
      using Suc.prems False by (intro Suc.IH) simp_all
    with False Suc.prems \<open>int64 (1024 ^ Suc e * 1024) = 1024 ^ Suc (Suc e)\<close> show ?thesis
      by (simp add: unit_loop.simps [of n])
  qed
qed

text \<open>
  The loop that picks the display unit of a memory size or a bandwidth ends with an index
  into the six unit letters, so the lookup cannot panic, and with the divisor of that unit,
  which has not overflowed.
\<close>

theorem unit_of_in_range:
  assumes "0 \<le> amount" "fits64 amount"
  shows "\<exists>j < 6. unit_of amount = (1024 ^ Suc j, j)"
proof -
  have "amount < 9223372036854775808" using assms(2) by (simp add: int_fits_def)
  then have "amount div 1024 < 1024 ^ Suc 5" by (simp add: div_1024_less)
  then obtain j where "unit_loop (amount div 1024) 1024 0 = (1024 ^ Suc j, j)" "j \<le> 0 + 5"
    using unit_loop_scale [of "amount div 1024" 5 0 1024] assms(1) by (auto simp: pos_imp_zdiv_nonneg_iff)
  then show ?thesis using assms(1) by (intro exI [of _ j]) (simp add: unit_of_def)
qed

theorem unit_of_in_range_witness: "\<exists>j < 6. unit_of 9223372036854775807 = (1024 ^ Suc j, j)"
  by (rule unit_of_in_range) (simp_all add: int_fits_def)

section \<open>Names\<close>

lemma alnum_all_iff:
  "in_lang network_name_re s \<longleftrightarrow>
     s \<noteq> [] \<and> is_alnum (hd s) \<and> is_alnum (last s) \<and> list_all (\<lambda>c. is_alnum c \<or> c = CHR ''-'') s"
proof
  assume "in_lang network_name_re s"
  then obtain c t where s: "s = c # t" "is_alnum c"
    and t: "t = [] \<or> (\<exists>u d. t = u @ [d] \<and> list_all (\<lambda>c. is_alnum c \<or> c = CHR ''-'') u \<and> is_alnum d)"
    by (auto simp: network_name_re_def)
  then show "s \<noteq> [] \<and> is_alnum (hd s) \<and> is_alnum (last s) \<and>
      list_all (\<lambda>c. is_alnum c \<or> c = CHR ''-'') s" by auto
next
  assume a: "s \<noteq> [] \<and> is_alnum (hd s) \<and> is_alnum (last s) \<and>
      list_all (\<lambda>c. is_alnum c \<or> c = CHR ''-'') s"
  then obtain c t where s: "s = c # t" "is_alnum c" by (cases s) auto
  show "in_lang network_name_re s"
  proof (cases t rule: rev_cases)
    case Nil
    with s show ?thesis by (auto simp: network_name_re_def)
  next
    case (snoc u d)
    with s a have "in_lang (Seq (Star (Cls (\<lambda>c. is_alnum c \<or> c = CHR ''-''))) (Cls is_alnum)) (u @ [d])"
      by (intro l_seq) auto
    with s snoc show ?thesis using l_seq [of "Cls is_alnum" "[c]"] l_alt1
      by (simp add: network_name_re_def del: in_lang_simps(4,5))
  qed
qed

lemma NewNetworkName_ok:
  assumes "NewNetworkName name = Inr n"
  shows "net_value n = TrimSpace name \<and> net_value n \<noteq> [] \<and> length (net_value n) \<le> 63 \<and>
    is_alnum (hd (net_value n)) \<and> is_alnum (last (net_value n)) \<and>
    list_all (\<lambda>c. is_alnum c \<or> c = CHR ''-'') (net_value n)"
  using assms
  by (auto simp: NewNetworkName_def Let_def rmatch_in_lang alnum_all_iff split: if_splits)

lemma NewVolumeName_ok:
  assumes "NewVolumeName name = Inr v"
  shows "vol_value v = TrimSpace name \<and> vol_value v \<noteq> [] \<and> length (vol_value v) \<le> 128 \<and>
    is_alnum (hd (vol_value v)) \<and> CHR ''/'' \<notin> set (vol_value v)"
proof -
  have "\<not> (is_alnum CHR ''/'')" by (simp add: char_class_defs)
  then show ?thesis using assms
    by (auto simp: NewVolumeName_def Let_def rmatch_in_lang volume_name_re_def list_all_iff split: if_splits)
qed

section \<open>Paths\<close>

lemma NewAbsolutePath_ok:
  assumes "NewAbsolutePath path = Inr p"
  shows "Path_IsAbsolute p \<and> ''..'' \<notin> set (path_elems (path_value p))"
proof -
  have "path_value p = Clean path" "IsAbs path"
    using assms by (auto simp: NewAbsolutePath_def Let_def split: if_splits)
  then show ?thesis by (simp add: Path_IsAbsolute_def Clean_abs_no_dotdot)
qed

text \<open>
  A cgroup path that is accepted is absolute, lies below a path that starts with
  \<open>/sys/fs/cgroup\<close>, and has no \<open>..\<close> element left in it, so it cannot climb out again.
\<close>

theorem NewCgroupPath_confined:
  assumes "NewCgroupPath path = Inr c"
  shows "Path_IsAbsolute (cg_path c) \<and> HasPrefix (CgroupPath_Value c) ''/sys/fs/cgroup'' \<and>
    ''..'' \<notin> set (path_elems (CgroupPath_Value c))"
proof -
  obtain p where p: "NewAbsolutePath path = Inr p" and c: "c = \<lparr>cg_path = p\<rparr>"
    and pre: "HasPrefix (path_value p) ''/sys/fs/cgroup'' \<or> HasPrefix (path_value p) ''/sys/fs/cgroup2''"
    using assms by (auto simp: NewCgroupPath_def split: if_splits sum.splits)
  from pre have "HasPrefix (path_value p) ''/sys/fs/cgroup''"
    by (auto simp: HasPrefix_iff)
  with NewAbsolutePath_ok [OF p] c show ?thesis by (simp add: CgroupPath_Value_def)
qed

theorem NewCgroupPath_confined_witness:
  "\<exists>c. NewCgroupPath ''/sys/fs/cgroup/a/../job-1'' = Inr c \<and>
     HasPrefix (CgroupPath_Value c) ''/sys/fs/cgroup'' \<and> CgroupPath_Value c = ''/sys/fs/cgroup/job-1''"
proof -
  let ?c = "\<lparr>cg_path = \<lparr>path_value = ''/sys/fs/cgroup/job-1''\<rparr>\<rparr>"
  have "NewCgroupPath ''/sys/fs/cgroup/a/../job-1'' = Inr ?c" by code_simp
  with NewCgroupPath_confined [OF this] show ?thesis by (auto simp: CgroupPath_Value_def)
qed

end
