(* ===== verification/Domain.thy ===== *)
theory Domain
  imports Values
begin

unbundle bit_operations_syntax

text \<open>
  The domain objects of \<open>internal/joblet/domain\<close>: resource limits (\<open>resource_limits.go\<close>), file
  uploads (\<open>file_upload.go\<close>), jobs (\<open>job.go\<close>, \<open>job_type.go\<close>), network names (\<open>network.go\<close>) and
  volumes (\<open>volume.go\<close>). A Go string enumeration is a string, as it is in the source, so
  that a value read back from storage is any string. A pointer field is an option. Nil and
  empty slices and maps are one value: no operation modelled here tells them apart.
\<close>

section \<open>Resource limits (resource\_limits.go)\<close>

record ResourceLimits =
  rl_CPU :: CPUPercentage
  rl_CPUCores :: CPUCoreSet
  rl_Memory :: MemorySize
  rl_IOBandwidth :: Bandwidth

definition no_limits :: ResourceLimits where
  "no_limits = \<lparr>rl_CPU = \<lparr>cpu_value = 0\<rparr>, rl_CPUCores = \<lparr>cs_cores = [], cs_spec = []\<rparr>,
     rl_Memory = \<lparr>mem_bytes = 0\<rparr>, rl_IOBandwidth = \<lparr>bw_bytesPerSecond = 0\<rparr>\<rparr>"

text \<open>A constructor's result when its error is ignored: the zero value on an error.\<close>

definition value_or_zero :: "'a \<Rightarrow> ('e, 'a) result \<Rightarrow> 'a" where
  "value_or_zero z r = (case r of Inl _ \<Rightarrow> z | Inr v \<Rightarrow> v)"

lemma value_or_zero_simps [simp]: "value_or_zero z (Inl e) = z" "value_or_zero z (Inr v) = v"
  by (simp_all add: value_or_zero_def)

definition NewResourceLimits :: "ResourceLimits option" where
  "NewResourceLimits =
     map_option
       (\<lambda>cores. \<lparr>rl_CPU = value_or_zero (rl_CPU no_limits) (NewCPUPercentage 0),
          rl_CPUCores = value_or_zero (rl_CPUCores no_limits) cores,
          rl_Memory = value_or_zero (rl_Memory no_limits) (NewMemorySize 0),
          rl_IOBandwidth = value_or_zero (rl_IOBandwidth no_limits) (NewBandwidth 0)\<rparr>)
       (ParseCPUCoreSet [])"

text \<open>\<^const>\<open>None\<close>: the parser of the core set does not return.\<close>

definition NewResourceLimitsFromParams :: "int \<Rightarrow> string \<Rightarrow> int \<Rightarrow> int \<Rightarrow> ResourceLimits option" where
  "NewResourceLimitsFromParams cpuPercent cpuCores memoryMB ioBPS =
     (case NewResourceLimits of
        None \<Rightarrow> None
      | Some limits \<Rightarrow>
        (let limits = (if cpuPercent > 0 then
               limits\<lparr>rl_CPU := value_or_zero (rl_CPU limits) (NewCPUPercentage cpuPercent)\<rparr> else limits)
         in case (if cpuCores \<noteq> [] then
                    map_option (\<lambda>r. limits\<lparr>rl_CPUCores := value_or_zero (rl_CPUCores limits) r\<rparr>)
                      (ParseCPUCoreSet cpuCores)
                  else Some limits) of
              None \<Rightarrow> None
            | Some limits \<Rightarrow>
              (let limits = (if memoryMB > 0 then
                     limits\<lparr>rl_Memory := value_or_zero (rl_Memory limits) (NewMemorySizeFromMB memoryMB)\<rparr>
                     else limits);
                   limits = (if ioBPS > 0 then
                     limits\<lparr>rl_IOBandwidth := value_or_zero (rl_IOBandwidth limits) (NewBandwidth ioBPS)\<rparr>
                     else limits)
               in Some limits)))"

definition HasCPULimit :: "ResourceLimits \<Rightarrow> bool" where
  "HasCPULimit r \<longleftrightarrow> \<not> CPUPercentage_IsUnlimited (rl_CPU r)"

definition HasMemoryLimit :: "ResourceLimits \<Rightarrow> bool" where
  "HasMemoryLimit r \<longleftrightarrow> \<not> MemorySize_IsUnlimited (rl_Memory r)"

definition HasIOLimit :: "ResourceLimits \<Rightarrow> bool" where
  "HasIOLimit r \<longleftrightarrow> \<not> Bandwidth_IsUnlimited (rl_IOBandwidth r)"

definition HasCoreRestriction :: "ResourceLimits \<Rightarrow> bool" where
  "HasCoreRestriction r \<longleftrightarrow> \<not> CPUCoreSet_IsEmpty (rl_CPUCores r)"

section \<open>File uploads (file\_upload.go)\<close>

record FileUpload =
  fu_Path :: string
  fu_Content :: string
  fu_Mode :: "32 word"
  fu_IsDirectory :: bool
  fu_Size :: int

record UploadSession =
  us_JobUUID :: string
  us_TotalFiles :: int
  us_TotalSize :: int
  us_Files :: "FileUpload list"
  us_MemoryLimit :: int
  us_ChunkSize :: int

datatype upload_error =
    UploadPathEmpty
  | UploadPathTraversal
  | UploadPathAbsolute
  | UploadPathSystem
  | UploadInvalidPath string upload_error

definition dangerous_dirs :: "string list" where
  "dangerous_dirs = [''proc'', ''sys'', ''dev'', ''etc'', ''bin'', ''sbin'', ''usr/bin'', ''usr/sbin'']"

definition validateFilePath :: "string \<Rightarrow> (upload_error, unit) result" where
  "validateFilePath path =
     (if path = [] then Inl UploadPathEmpty
      else (let cleaned = Clean path in
            if Contains cleaned ''..'' then Inl UploadPathTraversal
            else if IsAbs cleaned then Inl UploadPathAbsolute
            else if list_ex (\<lambda>danger. HasPrefix cleaned (danger @ ''/'') \<or> cleaned = danger) dangerous_dirs
              then Inl UploadPathSystem
            else Inr ()))"

fun validate_files :: "FileUpload list \<Rightarrow> (upload_error, unit) result" where
  "validate_files [] = Inr ()"
| "validate_files (file # files) =
     (case validateFilePath (fu_Path file) of
        Inl e \<Rightarrow> Inl (UploadInvalidPath (fu_Path file) e)
      | Inr _ \<Rightarrow> validate_files files)"

definition ValidateUpload :: "UploadSession \<Rightarrow> UploadSession \<times> (upload_error, unit) result" where
  "ValidateUpload us =
     (case validate_files (us_Files us) of
        Inl e \<Rightarrow> (us, Inl e)
      | Inr _ \<Rightarrow>
          (if us_MemoryLimit us > 0 then
             (let maxChunkSize = quot (us_MemoryLimit us) 10;
                  us = (if us_ChunkSize us > maxChunkSize then us\<lparr>us_ChunkSize := maxChunkSize\<rparr> else us);
                  us = (if us_ChunkSize us < 4096 then us\<lparr>us_ChunkSize := 4096\<rparr> else us)
              in (us, Inr ()))
           else (us, Inr ())))"

definition OptimizeForMemory :: "UploadSession \<Rightarrow> int \<Rightarrow> UploadSession" where
  "OptimizeForMemory us memoryLimitMB =
     (let us = us\<lparr>us_MemoryLimit := int64 (int64 (memoryLimitMB * 1024) * 1024)\<rparr>;
          us = us\<lparr>us_ChunkSize := quot (us_MemoryLimit us) 20\<rparr>;
          us = (if us_ChunkSize us > 1024 * 1024 then us\<lparr>us_ChunkSize := 1024 * 1024\<rparr> else us)
      in if us_ChunkSize us < 4096 then us\<lparr>us_ChunkSize := 4096\<rparr> else us)"

text \<open>The mask \<open>0o777\<close>.\<close>

definition SanitizeUploadMode :: "32 word \<Rightarrow> 32 word" where
  "SanitizeUploadMode mode = mode AND 0x1FF"


section \<open>Jobs (job.go, job\_type.go)\<close>

type_synonym JobStatus = string
type_synonym JobType = string

definition StatusPending :: JobStatus where "StatusPending = ''PENDING''"
definition StatusRunning :: JobStatus where "StatusRunning = ''RUNNING''"
definition StatusCompleted :: JobStatus where "StatusCompleted = ''COMPLETED''"
definition StatusFailed :: JobStatus where "StatusFailed = ''FAILED''"
definition StatusStopped :: JobStatus where "StatusStopped = ''STOPPED''"
definition StatusScheduled :: JobStatus where "StatusScheduled = ''SCHEDULED''"
definition StatusInitializing :: JobStatus where "StatusInitializing = ''INITIALIZING''"
definition StatusCanceled :: JobStatus where "StatusCanceled = ''CANCELED''"
definition StatusStopping :: JobStatus where "StatusStopping = ''STOPPING''"
definition StatusTimeout :: JobStatus where "StatusTimeout = ''TIMEOUT''"

lemmas status_defs = StatusPending_def StatusRunning_def StatusCompleted_def StatusFailed_def
  StatusStopped_def StatusScheduled_def StatusInitializing_def StatusCanceled_def
  StatusStopping_def StatusTimeout_def

definition JobTypeStandard :: JobType where "JobTypeStandard = ''standard''"
definition JobTypeRuntimeBuild :: JobType where "JobTypeRuntimeBuild = ''runtime-build''"

definition JobType_IsRuntimeBuild :: "JobType \<Rightarrow> bool" where
  "JobType_IsRuntimeBuild jt \<longleftrightarrow> jt = JobTypeRuntimeBuild"

definition JobType_String :: "JobType \<Rightarrow> string" where
  "JobType_String jt = (if jt = [] then JobTypeStandard else jt)"

record Job =
  job_Uuid :: string
  job_Command :: string
  job_Args :: "string list"
  job_Type :: JobType
  job_Limits :: ResourceLimits
  job_CgroupPath :: string
  job_Status :: JobStatus
  job_Pid :: int
  job_StartTime :: instant
  job_EndTime :: "instant option"
  job_ScheduledTime :: "instant option"
  job_ExitCode :: int
  job_Network :: string
  job_Volumes :: "string list"
  job_Runtime :: string
  job_WorkingDirectory :: string
  job_Uploads :: "FileUpload list"
  job_Environment :: "string \<rightharpoonup> string"
  job_SecretEnvironment :: "string \<rightharpoonup> string"
  job_GPUIndices :: "int list"
  job_GPUMIGUUIDs :: "string list"
  job_GPUCount :: int
  job_GPUMemoryMB :: int
  job_NodeId :: string
  job_Timeout :: duration
  job_c_jobUUID :: "JobUUID option"
  job_c_cgroupPath :: "CgroupPath option"
  job_c_processID :: "ProcessID option"
  job_c_networkName :: "NetworkName option"
  job_c_volumeNames :: "VolumeNames option"
  job_c_runtimeSpec :: "RuntimeSpec option"
  job_c_environment :: "Environment option"
  job_c_secretEnv :: "Environment option"

text \<open>The zero value \<open>Job{}\<close>.\<close>

definition zero_job :: Job where
  "zero_job = \<lparr>job_Uuid = [], job_Command = [], job_Args = [], job_Type = [],
     job_Limits = no_limits, job_CgroupPath = [], job_Status = [], job_Pid = 0,
     job_StartTime = 0, job_EndTime = None, job_ScheduledTime = None, job_ExitCode = 0,
     job_Network = [], job_Volumes = [], job_Runtime = [], job_WorkingDirectory = [],
     job_Uploads = [], job_Environment = Map.empty, job_SecretEnvironment = Map.empty,
     job_GPUIndices = [], job_GPUMIGUUIDs = [], job_GPUCount = 0, job_GPUMemoryMB = 0,
     job_NodeId = [], job_Timeout = 0, job_c_jobUUID = None, job_c_cgroupPath = None,
     job_c_processID = None, job_c_networkName = None, job_c_volumeNames = None,
     job_c_runtimeSpec = None, job_c_environment = None, job_c_secretEnv = None\<rparr>"

definition IsRunning :: "Job \<Rightarrow> bool" where
  "IsRunning j \<longleftrightarrow> job_Status j = StatusRunning"

definition IsCompleted :: "Job \<Rightarrow> bool" where
  "IsCompleted j \<longleftrightarrow> job_Status j = StatusCompleted \<or> job_Status j = StatusFailed \<or>
     job_Status j = StatusStopped \<or> job_Status j = StatusTimeout"

definition IsScheduled :: "Job \<Rightarrow> bool" where
  "IsScheduled j \<longleftrightarrow> job_Status j = StatusScheduled"

definition IsRuntimeBuild :: "Job \<Rightarrow> bool" where
  "IsRuntimeBuild j \<longleftrightarrow> job_Type j = JobTypeRuntimeBuild"

definition GetType :: "Job \<Rightarrow> JobType" where
  "GetType j = (if job_Type j = [] then JobTypeStandard else job_Type j)"

definition HasResourceLimits :: "Job \<Rightarrow> bool" where
  "HasResourceLimits j \<longleftrightarrow> HasCPULimit (job_Limits j) \<or> HasMemoryLimit (job_Limits j) \<or>
     HasIOLimit (job_Limits j) \<or> HasCoreRestriction (job_Limits j)"

definition HasGPURequirement :: "Job \<Rightarrow> bool" where
  "HasGPURequirement j \<longleftrightarrow> job_GPUCount j > 0"

definition IsGPUAllocated :: "Job \<Rightarrow> bool" where
  "IsGPUAllocated j \<longleftrightarrow> job_GPUIndices j \<noteq> []"

text \<open>\<open>time.Time.Sub\<close> saturates at the ends of \<open>time.Duration\<close>.\<close>

definition time_Sub :: "instant \<Rightarrow> instant \<Rightarrow> duration" where
  "time_Sub t u = max (- (2 ^ 63)) (min (2 ^ 63 - 1) (t - u))"

definition Job_Duration :: "instant \<Rightarrow> Job \<Rightarrow> duration" where
  "Job_Duration now j =
     (case job_EndTime j of
        None \<Rightarrow> (if IsRunning j then time_Sub now (job_StartTime j) else 0)
      | Some e \<Rightarrow> time_Sub e (job_StartTime j))"

definition ScheduleDelay :: "instant \<Rightarrow> Job \<Rightarrow> duration" where
  "ScheduleDelay now j =
     (case job_ScheduledTime j of
        None \<Rightarrow> 0
      | Some t \<Rightarrow> if \<not> IsScheduled j then 0
                   else (let delay = time_Sub t now in if delay < 0 then 0 else delay))"

datatype job_error =
    ErrInvalidCommand
  | JobIDEmpty
  | JobNetworkNameTooLong
  | JobVolumeNameEmpty

definition Job_Validate :: "Job \<Rightarrow> (job_error, unit) result" where
  "Job_Validate j =
     (if job_Command j = [] then Inl ErrInvalidCommand
      else if TrimSpace (job_Uuid j) = [] then Inl JobIDEmpty
      else if job_Network j \<noteq> [] \<and> job_Network j \<noteq> ''isolated'' \<and> length (job_Network j) > 63
        then Inl JobNetworkNameTooLong
      else if list_ex (\<lambda>volume. TrimSpace volume = []) (job_Volumes j) then Inl JobVolumeNameEmpty
      else Inr ())"

subsection \<open>Cached value objects\<close>

text \<open>An accessor returns its value and the job with the value cached.\<close>

definition JobUUIDValue :: "Job \<Rightarrow> JobUUID \<times> Job" where
  "JobUUIDValue j =
     (case job_c_jobUUID j of
        Some v \<Rightarrow> (v, j)
      | None \<Rightarrow> (let v = value_or_zero \<lparr>uuid_value = []\<rparr> (NewJobUUID (job_Uuid j))
                  in (v, j\<lparr>job_c_jobUUID := Some v\<rparr>)))"

definition SetJobUUIDValue :: "Job \<Rightarrow> JobUUID \<Rightarrow> Job" where
  "SetJobUUIDValue j v = j\<lparr>job_Uuid := JobUUID_String v, job_c_jobUUID := Some v\<rparr>"

definition CgroupPathValue :: "Job \<Rightarrow> CgroupPath \<times> Job" where
  "CgroupPathValue j =
     (let j = (if job_c_cgroupPath j = None \<and> job_CgroupPath j \<noteq> [] then
                 (case NewCgroupPath (job_CgroupPath j) of
                    Inl _ \<Rightarrow> j | Inr v \<Rightarrow> j\<lparr>job_c_cgroupPath := Some v\<rparr>)
               else j)
      in case job_c_cgroupPath j of
           Some v \<Rightarrow> (v, j) | None \<Rightarrow> (\<lparr>cg_path = \<lparr>path_value = []\<rparr>\<rparr>, j))"

definition SetCgroupPathValue :: "Job \<Rightarrow> CgroupPath \<Rightarrow> Job" where
  "SetCgroupPathValue j v = j\<lparr>job_CgroupPath := CgroupPath_Value v, job_c_cgroupPath := Some v\<rparr>"

definition ProcessIDValue :: "Job \<Rightarrow> ProcessID option \<times> Job" where
  "ProcessIDValue j =
     (let j = (if job_c_processID j = None \<and> job_Pid j > 0 then
                 (case NewProcessID (job_Pid j) of
                    Inl _ \<Rightarrow> j | Inr v \<Rightarrow> j\<lparr>job_c_processID := Some v\<rparr>)
               else j)
      in (job_c_processID j, j))"

definition SetProcessIDValue :: "Job \<Rightarrow> ProcessID option \<Rightarrow> Job" where
  "SetProcessIDValue j p =
     (case p of
        None \<Rightarrow> j\<lparr>job_Pid := 0, job_c_processID := None\<rparr>
      | Some v \<Rightarrow> j\<lparr>job_Pid := ProcessID_Value v, job_c_processID := Some v\<rparr>)"

definition NetworkNameValue :: "Job \<Rightarrow> NetworkName \<times> Job" where
  "NetworkNameValue j =
     (let j = (if job_c_networkName j = None \<and> job_Network j \<noteq> [] then
                 (case NewNetworkName (job_Network j) of
                    Inl _ \<Rightarrow> j | Inr v \<Rightarrow> j\<lparr>job_c_networkName := Some v\<rparr>)
               else j)
      in case job_c_networkName j of Some v \<Rightarrow> (v, j) | None \<Rightarrow> (\<lparr>net_value = []\<rparr>, j))"

definition SetNetworkNameValue :: "Job \<Rightarrow> NetworkName \<Rightarrow> Job" where
  "SetNetworkNameValue j v = j\<lparr>job_Network := NetworkName_String v, job_c_networkName := Some v\<rparr>"

definition VolumeNamesValue :: "Job \<Rightarrow> VolumeNames \<times> Job" where
  "VolumeNamesValue j =
     (case job_c_volumeNames j of
        Some v \<Rightarrow> (v, j)
      | None \<Rightarrow> (let v = value_or_zero \<lparr>vn_volumes = []\<rparr> (NewVolumeNames (job_Volumes j))
                  in (v, j\<lparr>job_c_volumeNames := Some v\<rparr>)))"

definition SetVolumeNamesValue :: "Job \<Rightarrow> VolumeNames \<Rightarrow> Job" where
  "SetVolumeNamesValue j v =
     j\<lparr>job_Volumes := VolumeNames_ToStringSlice v, job_c_volumeNames := Some v\<rparr>"

definition RuntimeSpecValue :: "Job \<Rightarrow> RuntimeSpec \<times> Job" where
  "RuntimeSpecValue j =
     (case job_c_runtimeSpec j of
        Some v \<Rightarrow> (v, j)
      | None \<Rightarrow> (let v = value_or_zero \<lparr>rs_value = []\<rparr> (NewRuntimeSpec (job_Runtime j))
                  in (v, j\<lparr>job_c_runtimeSpec := Some v\<rparr>)))"

definition SetRuntimeSpecValue :: "Job \<Rightarrow> RuntimeSpec \<Rightarrow> Job" where
  "SetRuntimeSpecValue j v = j\<lparr>job_Runtime := RuntimeSpec_String v, job_c_runtimeSpec := Some v\<rparr>"

definition EnvironmentValue :: "Job \<Rightarrow> Environment \<times> Job" where
  "EnvironmentValue j =
     (case job_c_environment j of
        Some v \<Rightarrow> (v, j)
      | None \<Rightarrow> (let v = NewEnvironment (job_Environment j)
                  in (v, j\<lparr>job_c_environment := Some v\<rparr>)))"

definition SetEnvironmentValue :: "Job \<Rightarrow> Environment \<Rightarrow> Job" where
  "SetEnvironmentValue j v = j\<lparr>job_Environment := Environment_ToMap v, job_c_environment := Some v\<rparr>"

definition SecretEnvironmentValue :: "Job \<Rightarrow> Environment \<times> Job" where
  "SecretEnvironmentValue j =
     (case job_c_secretEnv j of
        Some v \<Rightarrow> (v, j)
      | None \<Rightarrow> (let v = NewEnvironment (job_SecretEnvironment j)
                  in (v, j\<lparr>job_c_secretEnv := Some v\<rparr>)))"

definition SetSecretEnvironmentValue :: "Job \<Rightarrow> Environment \<Rightarrow> Job" where
  "SetSecretEnvironmentValue j v =
     j\<lparr>job_SecretEnvironment := Environment_ToMap v, job_c_secretEnv := Some v\<rparr>"

subsection \<open>Copies and views\<close>

text \<open>The composite literal of \<open>DeepCopy\<close> and the copies after it; a field it does not name
  has its zero value in the copy.\<close>

definition DeepCopy :: "Job \<Rightarrow> Job" where
  "DeepCopy j =
     zero_job\<lparr>job_Uuid := job_Uuid j,
       job_Command := job_Command j,
       job_Args := job_Args j,
       job_Limits := job_Limits j,
       job_CgroupPath := job_CgroupPath j,
       job_Status := job_Status j,
       job_Pid := job_Pid j,
       job_StartTime := job_StartTime j,
       job_ExitCode := job_ExitCode j,
       job_Network := job_Network j,
       job_Volumes := job_Volumes j,
       job_Runtime := job_Runtime j,
       job_Environment := job_Environment j,
       job_SecretEnvironment := job_SecretEnvironment j,
       job_GPUIndices := job_GPUIndices j,
       job_GPUMIGUUIDs := job_GPUMIGUUIDs j,
       job_GPUCount := job_GPUCount j,
       job_GPUMemoryMB := job_GPUMemoryMB j,
       job_NodeId := job_NodeId j,
       job_Timeout := job_Timeout j,
       job_EndTime := job_EndTime j,
       job_ScheduledTime := job_ScheduledTime j\<rparr>"

definition MaskedSecretEnvironment :: "Job \<Rightarrow> (string \<rightharpoonup> string)" where
  "MaskedSecretEnvironment j = (\<lambda>key. map_option (\<lambda>_. ''***'') (job_SecretEnvironment j key))"

definition ResourceLimitsToDTO :: "Job \<Rightarrow> int \<times> int \<times> int \<times> string" where
  "ResourceLimitsToDTO j =
     (CPUPercentage_Value (rl_CPU (job_Limits j)), MemorySize_Megabytes (rl_Memory (job_Limits j)),
      Bandwidth_BytesPerSecond (rl_IOBandwidth (job_Limits j)),
      CPUCoreSet_String (rl_CPUCores (job_Limits j)))"

section \<open>Network and volume names (network.go, volume.go)\<close>

text \<open>
  The loop ranges over code points; a code point outside ASCII fails the test and so does each
  of its bytes, so the loop over bytes gives the same answer.
\<close>

definition name_char :: "char \<Rightarrow> bool" where
  "name_char c \<longleftrightarrow> is_lower c \<or> is_upper c \<or> is_digit c \<or> c = CHR ''-'' \<or> c = CHR ''_''"

definition IsValidNetworkName :: "string \<Rightarrow> bool" where
  "IsValidNetworkName name \<longleftrightarrow>
     \<not> (length name = 0 \<or> length name > 63) \<and> list_all name_char name \<and>
     (let f = hd name; l = last name
      in (is_lower f \<or> is_upper f \<or> is_digit f) \<and> (is_lower l \<or> is_upper l \<or> is_digit l))"

definition IsValidVolumeName :: "string \<Rightarrow> bool" where
  "IsValidVolumeName name \<longleftrightarrow>
     \<not> (length name = 0 \<or> length name > 63) \<and> list_all name_char name \<and>
     (let f = hd name; l = last name
      in (is_lower f \<or> is_upper f \<or> is_digit f) \<and> (is_lower l \<or> is_upper l \<or> is_digit l))"

type_synonym VolumeType = string

definition VolumeTypeFilesystem :: VolumeType where "VolumeTypeFilesystem = ''filesystem''"
definition VolumeTypeMemory :: VolumeType where "VolumeTypeMemory = ''memory''"

record Volume =
  v_Name :: string
  v_Type :: VolumeType
  v_Size :: string
  v_SizeBytes :: int
  v_Path :: string
  v_CreatedTime :: instant
  v_JobCount :: int

definition Volume_IncrementJobCount :: "Volume \<Rightarrow> Volume" where
  "Volume_IncrementJobCount v = v\<lparr>v_JobCount := int32 (v_JobCount v + 1)\<rparr>"

definition Volume_DecrementJobCount :: "Volume \<Rightarrow> Volume" where
  "Volume_DecrementJobCount v =
     (if v_JobCount v > 0 then v\<lparr>v_JobCount := int32 (v_JobCount v - 1)\<rparr> else v)"

definition IsInUse :: "Volume \<Rightarrow> bool" where
  "IsInUse v \<longleftrightarrow> v_JobCount v > 0"

definition MountPath :: "Volume \<Rightarrow> string" where
  "MountPath v = ''/volumes/'' @ v_Name v"

definition Volume_DeepCopy :: "Volume \<Rightarrow> Volume" where
  "Volume_DeepCopy v =
     \<lparr>v_Name = v_Name v, v_Type = v_Type v, v_Size = v_Size v, v_SizeBytes = v_SizeBytes v,
      v_Path = v_Path v, v_CreatedTime = v_CreatedTime v, v_JobCount = v_JobCount v\<rparr>"

record VolumeDTO =
  dto_Name :: string
  dto_Type :: string
  dto_Size :: string
  dto_SizeBytes :: int
  dto_Path :: string
  dto_CreatedTime :: instant
  dto_JobCount :: int
  dto_MountPath :: string
  dto_InUse :: bool

definition ToDTO :: "Volume \<Rightarrow> VolumeDTO" where
  "ToDTO v =
     \<lparr>dto_Name = v_Name v, dto_Type = v_Type v, dto_Size = v_Size v, dto_SizeBytes = v_SizeBytes v,
      dto_Path = v_Path v, dto_CreatedTime = v_CreatedTime v, dto_JobCount = v_JobCount v,
      dto_MountPath = MountPath v, dto_InUse = IsInUse v\<rparr>"


section \<open>Uploads stay inside the workspace\<close>

lemma validateFilePath_ok:
  assumes "validateFilePath path = Inr ()"
  shows "\<not> IsAbs path" "''..'' \<notin> set (path_elems (Clean path))"
    "danger \<in> set dangerous_dirs \<Longrightarrow> \<not> HasPrefix (Clean path) (danger @ ''/'') \<and> Clean path \<noteq> danger"
proof -
  have ok: "\<not> Contains (Clean path) ''..''" "\<not> IsAbs (Clean path)"
    "\<not> list_ex (\<lambda>danger. HasPrefix (Clean path) (danger @ ''/'') \<or> Clean path = danger) dangerous_dirs"
    using assms by (auto simp: validateFilePath_def Let_def split: if_splits)
  show "\<not> IsAbs path" using ok(2) by simp
  show "''..'' \<notin> set (path_elems (Clean path))"
    using ok(1) Clean_element [of "''..''" path] by (auto simp: Contains_iff)
  show "danger \<in> set dangerous_dirs \<Longrightarrow> \<not> HasPrefix (Clean path) (danger @ ''/'') \<and> Clean path \<noteq> danger"
    using ok(3) by (auto simp: list_ex_iff)
qed

text \<open>
  An upload path that passes the check is relative, and joined to any absolute workspace
  directory it names a file below that directory (its elements are those of the directory
  followed by its own, none of them \<open>..\<close>), outside the top-level system directories.
\<close>

theorem validateFilePath_confined:
  assumes "validateFilePath path = Inr ()" "IsAbs workspace"
  shows "path_elems (Join_path [workspace, path]) =
      path_elems (Clean workspace) @ path_elems (Clean path) \<and>
    ''..'' \<notin> set (path_elems (Clean path)) \<and>
    (path_elems (Clean path) \<noteq> [] \<longrightarrow>
      hd (path_elems (Clean path)) \<notin> {''proc'', ''sys'', ''dev'', ''etc'', ''bin'', ''sbin''})"
proof (intro conjI impI)
  note ok = validateFilePath_ok [OF assms(1)]
  show "path_elems (Join_path [workspace, path]) =
      path_elems (Clean workspace) @ path_elems (Clean path)"
    by (rule Join_path_below [OF assms(2) ok(1,2)])
  show "''..'' \<notin> set (path_elems (Clean path))" by (rule ok(2))
  assume "path_elems (Clean path) \<noteq> []"
  then have "hd (path_elems (Clean path)) \<notin> set dangerous_dirs"
    using Clean_first_element [OF ok(1)] ok(3) [of "hd (path_elems (Clean path))"] by auto
  then show "hd (path_elems (Clean path)) \<notin> {''proc'', ''sys'', ''dev'', ''etc'', ''bin'', ''sbin''}"
    by (simp add: dangerous_dirs_def)
qed

theorem validateFilePath_confined_witness:
  "path_elems (Join_path [''/work/job'', ''a/../data/in.txt'']) = [''work'', ''job'', ''data'', ''in.txt'']"
proof -
  have "validateFilePath ''a/../data/in.txt'' = Inr ()" "IsAbs ''/work/job''" by code_simp+
  note ok = validateFilePath_confined [OF this]
  have "path_elems (Clean ''/work/job'') = [''work'', ''job'']"
    "path_elems (Clean ''a/../data/in.txt'') = [''data'', ''in.txt'']" by code_simp+
  with ok show ?thesis by simp
qed

text \<open>
  The mode of an uploaded file keeps the nine permission bits of the requested mode and
  has no other bit set, so no setuid, setgid or sticky file can be requested.
\<close>

theorem SanitizeUploadMode_bits:
  "bit (SanitizeUploadMode mode) n \<longleftrightarrow> bit mode n \<and> n < 9"
proof -
  have m: "(0x1FF :: 32 word) = mask 9" by (simp add: mask_eq_exp_minus_1)
  have "bit (mask 9 :: 32 word) n \<longleftrightarrow> n < 9" by (simp only: bit_mask_iff) auto
  then show ?thesis unfolding SanitizeUploadMode_def m by (simp only: bit_and_iff)
qed

text \<open>
  For every positive memory limit the chunk size chosen for the upload is at least 4 KiB,
  at most 1 MiB and at most a tenth of the limit, and the later validation of the session
  accepts it unchanged (the session itself is valid when every path is).
\<close>

theorem upload_chunk_size:
  assumes "0 < mb" "fits32 mb" "validate_files (us_Files us) = Inr ()"
  shows "ValidateUpload (OptimizeForMemory us mb) = (OptimizeForMemory us mb, Inr ()) \<and>
    4096 \<le> us_ChunkSize (OptimizeForMemory us mb) \<and>
    us_ChunkSize (OptimizeForMemory us mb) \<le> 1048576 \<and>
    10 * us_ChunkSize (OptimizeForMemory us mb) \<le> us_MemoryLimit (OptimizeForMemory us mb)"
proof -
  have mb: "mb < 2147483648" using assms(2) by (simp add: int_fits_def)
  have "int64 (mb * 1024) = mb * 1024" "int64 (mb * 1024 * 1024) = mb * 1024 * 1024"
    using assms(1) mb by (auto intro!: wrap_int_id simp: int_fits_def)
  then have opt: "OptimizeForMemory us mb =
      us\<lparr>us_MemoryLimit := mb * 1048576,
         us_ChunkSize := (if mb * 1048576 div 20 > 1048576 then 1048576 else mb * 1048576 div 20)\<rparr>"
    using assms(1) by (auto simp: OptimizeForMemory_def Let_def)
  show ?thesis
    using assms(1,3) by (auto simp: opt ValidateUpload_def Let_def)
qed

theorem upload_chunk_size_witness:
  "10 * us_ChunkSize (OptimizeForMemory \<lparr>us_JobUUID = ''j'', us_TotalFiles = 0, us_TotalSize = 0,
      us_Files = [], us_MemoryLimit = 0, us_ChunkSize = 0\<rparr> 64) \<le> 64 * 1048576"
proof -
  let ?us = "\<lparr>us_JobUUID = ''j'', us_TotalFiles = 0, us_TotalSize = 0, us_Files = [],
      us_MemoryLimit = 0, us_ChunkSize = 0\<rparr>"
  have "10 * us_ChunkSize (OptimizeForMemory ?us 64) \<le> us_MemoryLimit (OptimizeForMemory ?us 64)"
    using upload_chunk_size [of 64 ?us] by (simp add: int_fits_def)
  moreover have "us_MemoryLimit (OptimizeForMemory ?us 64) = 64 * 1048576" by code_simp
  ultimately show ?thesis by simp
qed

section \<open>Jobs\<close>

text \<open>
  A deep copy of a job is the job in every field but its type, its working directory and
  its uploads, which are reset, and its value-object caches, which start empty. In particular
  the copy of a runtime-build job is a standard job.
\<close>

theorem DeepCopy_exact:
  "DeepCopy j = j\<lparr>job_Type := [], job_WorkingDirectory := [], job_Uploads := [],
     job_c_jobUUID := None, job_c_cgroupPath := None, job_c_processID := None,
     job_c_networkName := None, job_c_volumeNames := None, job_c_runtimeSpec := None,
     job_c_environment := None, job_c_secretEnv := None\<rparr> \<and>
   GetType (DeepCopy j) = JobTypeStandard"
  by (simp add: DeepCopy_def zero_job_def GetType_def)

lemma DeepCopy_simps [simp]:
  "job_Uuid (DeepCopy j) = job_Uuid j"
  "job_Status (DeepCopy j) = job_Status j"
  "job_ScheduledTime (DeepCopy j) = job_ScheduledTime j"
  "job_StartTime (DeepCopy j) = job_StartTime j"
  "job_EndTime (DeepCopy j) = job_EndTime j"
  "job_NodeId (DeepCopy j) = job_NodeId j"
  by (simp_all add: DeepCopy_def)

lemma DeepCopy_status [simp]:
  "IsRunning (DeepCopy j) = IsRunning j" "IsCompleted (DeepCopy j) = IsCompleted j"
  "IsScheduled (DeepCopy j) = IsScheduled j"
  by (simp_all add: IsRunning_def IsCompleted_def IsScheduled_def)

lemma DeepCopy_idem [simp]: "DeepCopy (DeepCopy j) = DeepCopy j"
  by (simp add: DeepCopy_def)

text \<open>The masked view of a job's secret environment has its variable names and no value of it.\<close>

lemma MaskedSecretEnvironment_masks:
  "dom (MaskedSecretEnvironment j) = dom (job_SecretEnvironment j) \<and>
   ran (MaskedSecretEnvironment j) \<subseteq> {''***''}"
  by (auto simp: MaskedSecretEnvironment_def dom_def ran_def)

section \<open>Names\<close>

lemma name_char_alnum: "is_alnum c \<Longrightarrow> name_char c"
  by (auto simp: is_alnum_def name_char_def)

lemma not_space_byte:
  assumes "is_alnum c"
  shows "c \<notin> hd ` set go_spaces" "c \<notin> last ` set go_spaces"
  using assms by (auto simp: go_spaces_def char_class_defs)

text \<open>
  The two validators of volume names agree in one direction only. Every name that
  \<open>IsValidVolumeName\<close> accepts is accepted by \<open>NewVolumeName\<close> and kept as it is, and every name
  that \<open>NewNetworkName\<close> accepts (after trimming) is accepted by \<open>IsValidNetworkName\<close>.
\<close>

theorem name_validators_agree:
  "(IsValidVolumeName name \<longrightarrow> NewVolumeName name = Inr \<lparr>vol_value = name\<rparr>) \<and>
   (NewNetworkName name = Inr n \<longrightarrow> IsValidNetworkName (NetworkName_String n))"
proof (intro conjI impI)
  assume v: "IsValidVolumeName name"
  then have ne: "name \<noteq> []" "length name \<le> 63" and all: "list_all name_char name"
    and ends: "is_alnum (hd name)" "is_alnum (last name)"
    by (auto simp: IsValidVolumeName_def Let_def is_alnum_def)
  have trim: "TrimSpace name = name"
    by (rule TrimSpace_id) (use not_space_byte ends in blast)
  obtain c t where name: "name = c # t" using ne by (cases name) auto
  have "in_lang volume_name_re name"
    unfolding volume_name_re_def name in_lang_cls_seq
    using ends(1) all name by (auto simp: name_char_def is_alnum_def list_all_iff)
  then show "NewVolumeName name = Inr \<lparr>vol_value = name\<rparr>"
    using ne by (simp add: NewVolumeName_def trim rmatch_in_lang)
next
  assume "NewNetworkName name = Inr n"
  from NewNetworkName_ok [OF this] show "IsValidNetworkName (NetworkName_String n)"
    by (auto simp: IsValidNetworkName_def NetworkName_String_def Let_def name_char_def is_alnum_def
        list_all_iff)
qed

theorem name_validators_agree_witness:
  "NewVolumeName ''data_1'' = Inr \<lparr>vol_value = ''data_1''\<rparr>"
proof -
  have "IsValidVolumeName ''data_1''" by code_simp
  then show ?thesis using name_validators_agree [of "''data_1''" "\<lparr>net_value = []\<rparr>"] by blast
qed

end
