(* ===== verification/Heap.thy ===== *)
theory Heap
  imports Prelude
begin

text \<open>
  Go's \<open>container/heap\<close>, which the scheduler's queue is built on. The functions work through the
  interface of the container (\<open>Less\<close> and \<open>Swap\<close> by position), as in Go; the locale
  \<open>heap_container\<close> states what a container promises, and inside it the functions are proved to
  restore the heap order and to keep the elements.
\<close>

section \<open>The functions of container/heap\<close>

definition parent :: "nat \<Rightarrow> nat" where
  "parent j = (j - 1) div 2"

function heap_up :: "('q \<Rightarrow> nat \<Rightarrow> nat \<Rightarrow> bool) \<Rightarrow> ('q \<Rightarrow> nat \<Rightarrow> nat \<Rightarrow> 'q) \<Rightarrow> 'q \<Rightarrow> nat \<Rightarrow> 'q" where
  "heap_up lt swap q j =
     (let i = parent j in
      if i = j \<or> \<not> lt q j i then q else heap_up lt swap (swap q i j) i)"
  by pat_completeness auto
termination
  by (relation "measure (\<lambda>(lt, swap, q, j). j)") (auto simp: parent_def)

text \<open>The position where the element that moves down ends; \<open>down\<close> returns whether it moved.\<close>

function heap_down :: "('q \<Rightarrow> nat \<Rightarrow> nat \<Rightarrow> bool) \<Rightarrow> ('q \<Rightarrow> nat \<Rightarrow> nat \<Rightarrow> 'q) \<Rightarrow> 'q \<Rightarrow> nat \<Rightarrow> nat \<Rightarrow> 'q \<times> nat" where
  "heap_down lt swap q i n =
     (let j1 = 2 * i + 1 in
      if j1 \<ge> n then (q, i)
      else (let j = (if j1 + 1 < n \<and> lt q (j1 + 1) j1 then j1 + 1 else j1) in
            if \<not> lt q j i then (q, i) else heap_down lt swap (swap q i j) j n))"
  by pat_completeness auto
termination
  by (relation "measure (\<lambda>(lt, swap, q, i, n). n - i)") (auto simp: Let_def)

declare heap_up.simps [simp del] heap_down.simps [simp del]

definition heap_sift :: "('q \<Rightarrow> nat \<Rightarrow> nat \<Rightarrow> bool) \<Rightarrow> ('q \<Rightarrow> nat \<Rightarrow> nat \<Rightarrow> 'q) \<Rightarrow> 'q \<Rightarrow> nat \<Rightarrow> nat \<Rightarrow> 'q" where
  "heap_sift lt swap q i n =
     (let (q', i') = heap_down lt swap q i n in if \<not> i' > i then heap_up lt swap q' i else q')"

section \<open>Heap order\<close>

lemma parent_less: "0 < j \<Longrightarrow> parent j < j"
  by (auto simp: parent_def)

lemma parent_zero [simp]: "parent 0 = 0"
  by (simp add: parent_def)

lemma parent_children: "0 < c \<Longrightarrow> parent c = i \<longleftrightarrow> c = 2 * i + 1 \<or> c = 2 * i + 2"
  by (auto simp: parent_def)

definition is_heap :: "(nat \<Rightarrow> 'k::linorder) \<Rightarrow> nat \<Rightarrow> bool" where
  "is_heap key n \<longleftrightarrow> (\<forall>c < n. 0 < c \<longrightarrow> key (parent c) \<le> key c)"

text \<open>
  The order holds except around position \<open>i\<close>, whose children still are not below its parent.
\<close>

definition hole :: "(nat \<Rightarrow> 'k::linorder) \<Rightarrow> nat \<Rightarrow> nat \<Rightarrow> bool" where
  "hole key n i \<longleftrightarrow>
     (\<forall>c < n. 0 < c \<longrightarrow> c \<noteq> i \<longrightarrow> parent c \<noteq> i \<longrightarrow> key (parent c) \<le> key c) \<and>
     (\<forall>c < n. 0 < c \<longrightarrow> parent c = i \<longrightarrow> 0 < i \<longrightarrow> key (parent i) \<le> key c)"

definition above_ok :: "(nat \<Rightarrow> 'k::linorder) \<Rightarrow> nat \<Rightarrow> bool" where
  "above_ok key i \<longleftrightarrow> (0 < i \<longrightarrow> key (parent i) \<le> key i)"

definition below_ok :: "(nat \<Rightarrow> 'k::linorder) \<Rightarrow> nat \<Rightarrow> nat \<Rightarrow> bool" where
  "below_ok key n i \<longleftrightarrow> (\<forall>c < n. 0 < c \<longrightarrow> parent c = i \<longrightarrow> key i \<le> key c)"

lemma hole_closed: "hole key n i \<Longrightarrow> above_ok key i \<Longrightarrow> below_ok key n i \<Longrightarrow> is_heap key n"
  unfolding hole_def above_ok_def below_ok_def is_heap_def by metis

lemma is_heap_hole:
  assumes "is_heap key n" "\<And>c. c < n \<Longrightarrow> c \<noteq> i \<Longrightarrow> key' c = key c"
  shows "hole key' n i"
proof -
  have "key' (parent c) \<le> key' c" if "c < n" "0 < c" "c \<noteq> i" "parent c \<noteq> i" for c
  proof -
    have "key' (parent c) = key (parent c)" "key' c = key c"
      using assms(2) that parent_less [of c] by auto
    with that assms(1) show ?thesis by (simp add: is_heap_def)
  qed
  moreover have "key' (parent i) \<le> key' c" if "c < n" "0 < c" "parent c = i" "0 < i" for c
  proof -
    have lt: "i < c" "parent i < i" using parent_less that by auto
    with assms(2) that have "key' (parent i) = key (parent i)" "key' c = key c" by auto
    moreover have "key (parent i) \<le> key i" "key i \<le> key c"
      using assms(1) that lt unfolding is_heap_def by auto
    ultimately show ?thesis by simp
  qed
  ultimately show ?thesis unfolding hole_def by blast
qed

lemma is_heap_mono: "is_heap key n \<Longrightarrow> m \<le> n \<Longrightarrow> is_heap key m"
  by (simp add: is_heap_def)

lemma is_heap_root: "is_heap key n \<Longrightarrow> c < n \<Longrightarrow> key 0 \<le> key c"
proof (induction c rule: less_induct)
  case (less c)
  show ?case
  proof (cases "c = 0")
    case False
    then have "parent c < c" by (simp add: parent_less)
    with less have "key 0 \<le> key (parent c)" by simp
    also have "\<dots> \<le> key c" using less.prems False by (simp add: is_heap_def)
    finally show ?thesis .
  qed simp
qed

definition swap_key :: "nat \<Rightarrow> nat \<Rightarrow> (nat \<Rightarrow> 'k) \<Rightarrow> nat \<Rightarrow> 'k" where
  "swap_key i j key = key(i := key j, j := key i)"

text \<open>One step up: the hole moves to the parent, and below it the order is restored.\<close>

lemma hole_up:
  assumes h: "hole key n j" "below_ok key n j" and j: "0 < j" "j < n" and lt: "key j < key (parent j)"
  shows "hole (swap_key (parent j) j key) n (parent j) \<and>
    below_ok (swap_key (parent j) j key) n (parent j)"
proof -
  let ?p = "parent j" and ?k = "swap_key (parent j) j key"
  have p: "?p < j" using j by (simp add: parent_less)
  have k: "?k ?p = key j" "?k j = key ?p" "\<And>c. c \<noteq> ?p \<Longrightarrow> c \<noteq> j \<Longrightarrow> ?k c = key c"
    using p by (auto simp: swap_key_def)
  have sib: "key ?p \<le> key c" if "c < n" "0 < c" "parent c = ?p" "c \<noteq> j" for c
    using h(1) that p parent_less [of c] unfolding hole_def by (metis less_irrefl)
  have "?k (parent c) \<le> ?k c" if c: "c < n" "0 < c" "c \<noteq> ?p" "parent c \<noteq> ?p" for c
  proof (cases "parent c = j")
    case True
    with c h(1) j k p show ?thesis unfolding hole_def by (metis less_irrefl parent_less)
  next
    case False
    with c have "c \<noteq> j" by auto
    with c False h(1) k show ?thesis unfolding hole_def by auto
  qed
  moreover have "?k (parent ?p) \<le> ?k c" if c: "c < n" "0 < c" "parent c = ?p" "0 < ?p" for c
  proof -
    have pp: "parent ?p < ?p" using c(4) by (rule parent_less)
    have up: "key (parent ?p) \<le> key ?p" using h(1) c j p pp unfolding hole_def by (metis less_irrefl less_trans)
    show ?thesis
    proof (cases "c = j")
      case True
      with up k pp p show ?thesis by simp
    next
      case False
      with sib [OF c(1-3)] up k pp p c parent_less [of c] show ?thesis by auto
    qed
  qed
  moreover have "?k ?p \<le> ?k c" if c: "c < n" "0 < c" "parent c = ?p" for c
  proof (cases "c = j")
    case True
    with lt k show ?thesis by simp
  next
    case False
    moreover have "c \<noteq> ?p" using parent_less [OF c(2)] c(3) by simp
    ultimately show ?thesis using sib [OF c False] lt k by simp
  qed
  ultimately show ?thesis unfolding hole_def below_ok_def by blast
qed

text \<open>One step down, to a least child.\<close>

lemma hole_down:
  assumes h: "hole key n i" and j: "j < n" "0 < j" "parent j = i"
    and lt: "key j < key i" and least: "\<And>c. c < n \<Longrightarrow> 0 < c \<Longrightarrow> parent c = i \<Longrightarrow> key j \<le> key c"
  shows "hole (swap_key i j key) n j \<and> above_ok (swap_key i j key) j"
proof -
  let ?k = "swap_key i j key"
  have ij: "i < j" using parent_less [OF j(2)] j(3) by simp
  have k: "?k i = key j" "?k j = key i" "\<And>c. c \<noteq> i \<Longrightarrow> c \<noteq> j \<Longrightarrow> ?k c = key c"
    using ij by (auto simp: swap_key_def)
  have "?k (parent c) \<le> ?k c" if c: "c < n" "0 < c" "c \<noteq> j" "parent c \<noteq> j" for c
  proof (cases "c = i")
    case True
    have "key (parent i) \<le> key j" using h j c True unfolding hole_def by blast
    moreover have "parent i \<noteq> i" using parent_less c True by (metis less_irrefl)
    ultimately show ?thesis using True c k by simp
  next
    case False
    show ?thesis
    proof (cases "parent c = i")
      case True
      with False c k least show ?thesis by simp
    next
      case pc: False
      with False c h k show ?thesis unfolding hole_def by simp
    qed
  qed
  moreover have "?k (parent j) \<le> ?k c" if c: "c < n" "0 < c" "parent c = j" "0 < j" for c
  proof -
    have "j < c" using parent_less [OF c(2)] c(3) by simp
    moreover have "key j \<le> key c" using h c ij \<open>j < c\<close> unfolding hole_def by (metis less_irrefl less_trans)
    ultimately show ?thesis using j(3) k ij by simp
  qed
  moreover have "above_ok ?k j" using j k lt by (simp add: above_ok_def)
  ultimately show ?thesis unfolding hole_def by blast
qed

section \<open>Containers\<close>

text \<open>
  What \<open>container/heap\<close> needs of its argument: \<open>Less\<close> compares the keys of the elements at
  two positions, \<open>Swap\<close> exchanges the elements, and the container's own bookkeeping \<open>wf\<close>
  survives a \<open>Swap\<close>.
\<close>

locale heap_container =
  fixes elems :: "'q \<Rightarrow> 'a list" and key :: "'a \<Rightarrow> 'k::linorder" and wf :: "'q \<Rightarrow> bool"
    and lt :: "'q \<Rightarrow> nat \<Rightarrow> nat \<Rightarrow> bool" and swap :: "'q \<Rightarrow> nat \<Rightarrow> nat \<Rightarrow> 'q"
  assumes lt_key: "wf q \<Longrightarrow> i < length (elems q) \<Longrightarrow> j < length (elems q) \<Longrightarrow>
      lt q i j \<longleftrightarrow> key (elems q ! i) < key (elems q ! j)"
    and swap_elems: "wf q \<Longrightarrow> i < length (elems q) \<Longrightarrow> j < length (elems q) \<Longrightarrow>
      elems (swap q i j) = (elems q)[i := elems q ! j, j := elems q ! i]"
    and swap_wf: "wf q \<Longrightarrow> i < length (elems q) \<Longrightarrow> j < length (elems q) \<Longrightarrow> wf (swap q i j)"
begin

definition keyf :: "'q \<Rightarrow> nat \<Rightarrow> 'k" where
  "keyf q c = key (elems q ! c)"

text \<open>\<open>rearranged q q' m\<close>: the elements are the same and those from position \<open>m\<close> on have not moved.\<close>

definition rearranged :: "'q \<Rightarrow> 'q \<Rightarrow> nat \<Rightarrow> bool" where
  "rearranged q q' m \<longleftrightarrow> wf q' \<and> mset (elems q') = mset (elems q) \<and> (\<forall>c \<ge> m. elems q' ! c = elems q ! c)"

lemma rearranged_refl: "wf q \<Longrightarrow> rearranged q q m"
  by (simp add: rearranged_def)

lemma rearranged_trans:
  "rearranged q q' m \<Longrightarrow> rearranged q' q'' m' \<Longrightarrow> m' \<le> m \<Longrightarrow> rearranged q q'' m"
  by (simp add: rearranged_def)

lemma rearranged_length: "rearranged q q' m \<Longrightarrow> length (elems q') = length (elems q)"
  unfolding rearranged_def using mset_eq_length by blast

lemma swap_keyf:
  assumes "wf q" "i < length (elems q)" "j < length (elems q)"
  shows "keyf (swap q i j) = swap_key i j (keyf q)"
proof
  fix c
  show "keyf (swap q i j) c = swap_key i j (keyf q) c"
    using assms by (auto simp: keyf_def swap_key_def swap_elems nth_list_update)
qed

lemma swap_rearranged:
  assumes "wf q" "i < m" "j < m" "m \<le> length (elems q)"
  shows "rearranged q (swap q i j) m"
  using assms unfolding rearranged_def
  by (auto simp: swap_wf swap_elems mset_swap)

lemma up_rearranged:
  "wf q \<Longrightarrow> j < m \<Longrightarrow> m \<le> length (elems q) \<Longrightarrow> rearranged q (heap_up lt swap q j) m"
proof (induction j arbitrary: q rule: less_induct)
  case (less j)
  show ?case
  proof (cases "parent j = j \<or> \<not> lt q j (parent j)")
    case True
    then show ?thesis using less.prems by (subst heap_up.simps) (auto simp: Let_def rearranged_refl)
  next
    case False
    then have p: "parent j < j" by (metis gr0I parent_less parent_zero)
    let ?q = "swap q (parent j) j"
    have r: "rearranged q ?q m" using less.prems p by (intro swap_rearranged) auto
    have "rearranged ?q (heap_up lt swap ?q (parent j)) m"
      using less.IH [OF p, of ?q] less.prems p r rearranged_length [OF r] by (auto simp: rearranged_def)
    with r have "rearranged q (heap_up lt swap ?q (parent j)) m" by (rule rearranged_trans) simp
    with False show ?thesis by (subst heap_up.simps) (auto simp: Let_def)
  qed
qed

lemma up_heap:
  "wf q \<Longrightarrow> j < n \<Longrightarrow> n \<le> length (elems q) \<Longrightarrow> hole (keyf q) n j \<Longrightarrow> below_ok (keyf q) n j
    \<Longrightarrow> is_heap (keyf (heap_up lt swap q j)) n"
proof (induction j arbitrary: q rule: less_induct)
  case (less j)
  show ?case
  proof (cases "parent j = j \<or> \<not> lt q j (parent j)")
    case True
    have "above_ok (keyf q) j"
      unfolding above_ok_def
    proof
      assume "0 < j"
      with True less.prems show "keyf q (parent j) \<le> keyf q j"
        using parent_less [of j] lt_key [of q j "parent j"] by (auto simp: keyf_def)
    qed
    with less.prems have "is_heap (keyf q) n" by (blast intro: hole_closed)
    with True show ?thesis by (subst heap_up.simps) (auto simp: Let_def)
  next
    case False
    then have p: "parent j < j" by (metis gr0I parent_less parent_zero)
    let ?q = "swap q (parent j) j"
    have lt: "keyf q j < keyf q (parent j)"
      using False less.prems p lt_key [of q j "parent j"] by (simp add: keyf_def)
    have k: "keyf ?q = swap_key (parent j) j (keyf q)" using less.prems p by (intro swap_keyf) auto
    have "hole (keyf ?q) n (parent j)" "below_ok (keyf ?q) n (parent j)"
      using hole_up [of "keyf q" n j] less.prems p lt k by auto
    moreover have "wf ?q" "n \<le> length (elems ?q)"
      using less.prems p by (auto simp: swap_wf swap_elems)
    ultimately have "is_heap (keyf (heap_up lt swap ?q (parent j))) n"
      using less.IH [OF p] less.prems p by auto
    with False show ?thesis by (subst heap_up.simps) (auto simp: Let_def)
  qed
qed

text \<open>The child that \<open>down\<close> picks.\<close>

definition least_child :: "'q \<Rightarrow> nat \<Rightarrow> nat \<Rightarrow> nat" where
  "least_child q i n = (if 2 * i + 2 < n \<and> lt q (2 * i + 2) (2 * i + 1) then 2 * i + 2 else 2 * i + 1)"

lemma down_unfold:
  "heap_down lt swap q i n =
    (if 2 * i + 1 \<ge> n \<or> \<not> lt q (least_child q i n) i then (q, i)
     else heap_down lt swap (swap q i (least_child q i n)) (least_child q i n) n)"
  by (subst heap_down.simps) (simp add: Let_def least_child_def)

lemma least_child_bounds:
  "2 * i + 1 < n \<Longrightarrow> i < least_child q i n \<and> least_child q i n < n \<and> parent (least_child q i n) = i"
  by (auto simp: least_child_def parent_def)

lemma least_child_least:
  assumes "wf q" "n \<le> length (elems q)" "2 * i + 1 < n" "c < n" "0 < c" "parent c = i"
  shows "keyf q (least_child q i n) \<le> keyf q c"
proof -
  have "c = 2 * i + 1 \<or> c = 2 * i + 2" using assms parent_children by blast
  then show ?thesis
    using assms lt_key [of q "2 * i + 2" "2 * i + 1"] by (auto simp: least_child_def keyf_def)
qed

lemma down_rearranged:
  "wf q \<Longrightarrow> n \<le> length (elems q) \<Longrightarrow> heap_down lt swap q i n = (q', i') \<Longrightarrow>
    rearranged q q' n \<and> i \<le> i' \<and> (i' = i \<longrightarrow> q' = q)"
proof (induction "n - i" arbitrary: q i rule: less_induct)
  case less
  show ?case
  proof (cases "2 * i + 1 \<ge> n \<or> \<not> lt q (least_child q i n) i")
    case True
    then show ?thesis using less.prems by (auto simp: down_unfold [of q i n] rearranged_refl)
  next
    case False
    let ?j = "least_child q i n" and ?q = "swap q i (least_child q i n)"
    have j: "i < ?j" "?j < n" using least_child_bounds [of i n q] False by auto
    have r: "rearranged q ?q n" using less.prems j by (intro swap_rearranged) auto
    have "heap_down lt swap ?q ?j n = (q', i')" using less.prems False by (auto simp: down_unfold [of q i n])
    then have "rearranged ?q q' n \<and> ?j \<le> i'"
      using less.hyps [of ?j ?q] less.prems j r rearranged_length [OF r] by (auto simp: rearranged_def)
    with r j show ?thesis using rearranged_trans by (meson le_trans less_imp_le not_le order_refl)
  qed
qed

lemma down_heap:
  "wf q \<Longrightarrow> n \<le> length (elems q) \<Longrightarrow> i < n \<Longrightarrow> hole (keyf q) n i \<Longrightarrow>
    heap_down lt swap q i n = (q', i') \<Longrightarrow>
    (i' = i \<longrightarrow> below_ok (keyf q) n i) \<and> (i < i' \<or> above_ok (keyf q) i \<longrightarrow> is_heap (keyf q') n)"
proof (induction "n - i" arbitrary: q i rule: less_induct)
  case less
  show ?case
  proof (cases "2 * i + 1 \<ge> n \<or> \<not> lt q (least_child q i n) i")
    case True
    have "below_ok (keyf q) n i"
      unfolding below_ok_def
    proof (intro allI impI)
      fix c assume c: "c < n" "0 < c" "parent c = i"
      with parent_children [of c i] have "2 * i + 1 < n" by auto
      with True less.prems least_child_bounds [of i n q] have "keyf q i \<le> keyf q (least_child q i n)"
        using lt_key [of q "least_child q i n" i] by (auto simp: keyf_def)
      with least_child_least [OF less.prems(1,2) \<open>2 * i + 1 < n\<close> c] show "keyf q i \<le> keyf q c" by simp
    qed
    moreover have "q' = q" "i' = i" using less.prems True by (auto simp: down_unfold [of q i n])
    ultimately show ?thesis using less.prems hole_closed by auto
  next
    case False
    let ?j = "least_child q i n" and ?q = "swap q i (least_child q i n)"
    have j: "i < ?j" "?j < n" "parent ?j = i" using least_child_bounds [of i n q] False by auto
    have r: "rearranged q ?q n" using less.prems j by (intro swap_rearranged) auto
    have d: "heap_down lt swap ?q ?j n = (q', i')" using less.prems False by (auto simp: down_unfold [of q i n])
    have k: "keyf ?q = swap_key i ?j (keyf q)" using less.prems j by (intro swap_keyf) auto
    have "keyf q ?j < keyf q i" using False less.prems j lt_key [of q ?j i] by (simp add: keyf_def)
    then have "hole (keyf ?q) n ?j \<and> above_ok (keyf ?q) ?j"
      using hole_down [of "keyf q" n i ?j] less.prems j k least_child_least [of q n i] False by auto
    moreover have "n \<le> length (elems ?q)" using less.prems rearranged_length [OF r] by simp
    ultimately have "is_heap (keyf q') n"
      using less.hyps [of ?j ?q] less.prems j d r by (auto simp: rearranged_def)
    moreover have "i < i'"
      using down_rearranged [OF _ \<open>n \<le> length (elems ?q)\<close> d] j r by (auto simp: rearranged_def)
    ultimately show ?thesis by simp
  qed
qed

text \<open>\<open>heap.Fix\<close> and the middle of \<open>heap.Remove\<close>: down, and up when that did not move.\<close>

lemma sift_heap:
  assumes "wf q" "n \<le> length (elems q)" "i < n" "hole (keyf q) n i"
  shows "is_heap (keyf (heap_sift lt swap q i n)) n \<and> rearranged q (heap_sift lt swap q i n) n"
proof -
  obtain q' i' where d: "heap_down lt swap q i n = (q', i')" by fastforce
  note r = down_rearranged [OF assms(1,2) d] and h = down_heap [OF assms d]
  show ?thesis
  proof (cases "i < i'")
    case True
    with d r h show ?thesis by (simp add: heap_sift_def)
  next
    case False
    with r have "i' = i" "q' = q" by auto
    with d h assms up_heap [of q i n] up_rearranged [of q i n] show ?thesis by (simp add: heap_sift_def)
  qed
qed

lemma append_hole:
  assumes "is_heap (keyf q) n" "\<And>c. c < n \<Longrightarrow> elems q' ! c = elems q ! c"
  shows "hole (keyf q') (Suc n) n \<and> below_ok (keyf q') (Suc n) n"
proof -
  have none: "parent c \<noteq> n" if "c < Suc n" "0 < c" for c
    using parent_less [OF that(2)] that(1) by simp
  have "keyf q' (parent c) \<le> keyf q' c" if "c < Suc n" "0 < c" "c \<noteq> n" for c
    using assms that parent_less [of c] by (simp add: is_heap_def keyf_def)
  with none show ?thesis unfolding hole_def below_ok_def by blast
qed

end

end
