(* ===== verification/JobQueue.thy ===== *)
theory JobQueue
  imports Heap Domain
begin

text \<open>
  The queue of scheduled jobs, \<open>internal/joblet/scheduler/priority_queue.go\<close>: a binary heap kept
  through \<open>container/heap\<close>, every item knowing its position. The methods of the exported
  interface hold the queue's mutex for their whole body, so each is one function here.
  The locale \<open>job_queue\<close> says what the scheduler relies on: a multiset of jobs from which
  \<open>Next\<close> takes a job with the least scheduled time. The queue is shown to implement it.
\<close>

section \<open>The data structure\<close>

record ScheduledJob =
  sj_Job :: Job
  sj_ScheduledTime :: instant
  sj_Index :: int

record PriorityQueue =
  pq_items :: "ScheduledJob list"

subsection \<open>The methods of heap.Interface\<close>

definition Len :: "PriorityQueue \<Rightarrow> nat" where
  "Len q = length (pq_items q)"

definition Less :: "PriorityQueue \<Rightarrow> nat \<Rightarrow> nat \<Rightarrow> bool" where
  "Less q i j \<longleftrightarrow> sj_ScheduledTime (pq_items q ! i) < sj_ScheduledTime (pq_items q ! j)"

definition Swap :: "PriorityQueue \<Rightarrow> nat \<Rightarrow> nat \<Rightarrow> PriorityQueue" where
  "Swap q i j =
     q\<lparr>pq_items := (pq_items q)[i := (pq_items q ! j)\<lparr>sj_Index := int i\<rparr>,
                               j := (pq_items q ! i)\<lparr>sj_Index := int j\<rparr>]\<rparr>"

definition Push :: "PriorityQueue \<Rightarrow> ScheduledJob \<Rightarrow> PriorityQueue" where
  "Push q item = q\<lparr>pq_items := pq_items q @ [item\<lparr>sj_Index := int (length (pq_items q))\<rparr>]\<rparr>"

text \<open>\<open>Pop\<close> indexes the last item: it is only called on a queue that is not empty.\<close>

definition Pop :: "PriorityQueue \<Rightarrow> ScheduledJob \<times> PriorityQueue" where
  "Pop q = ((last (pq_items q))\<lparr>sj_Index := - 1\<rparr>, q\<lparr>pq_items := butlast (pq_items q)\<rparr>)"

subsection \<open>container/heap at this type\<close>

definition heap_Init :: "PriorityQueue \<Rightarrow> PriorityQueue" where
  "heap_Init q = fold (\<lambda>i q. fst (heap_down Less Swap q i (Len q))) (rev [0..<Len q div 2]) q"

definition heap_Push :: "PriorityQueue \<Rightarrow> ScheduledJob \<Rightarrow> PriorityQueue" where
  "heap_Push q x = (let q' = Push q x in heap_up Less Swap q' (Len q' - 1))"

definition heap_Pop :: "PriorityQueue \<Rightarrow> ScheduledJob \<times> PriorityQueue" where
  "heap_Pop q = (let n = Len q - 1 in Pop (fst (heap_down Less Swap (Swap q 0 n) 0 n)))"

definition heap_Remove :: "PriorityQueue \<Rightarrow> nat \<Rightarrow> ScheduledJob \<times> PriorityQueue" where
  "heap_Remove q i =
     (let n = Len q - 1 in
      Pop (if n \<noteq> i then heap_sift Less Swap (Swap q i n) i n else q))"

definition heap_Fix :: "PriorityQueue \<Rightarrow> nat \<Rightarrow> PriorityQueue" where
  "heap_Fix q i = heap_sift Less Swap q i (Len q)"

subsection \<open>The exported operations\<close>

definition NewPriorityQueue :: PriorityQueue where
  "NewPriorityQueue = heap_Init \<lparr>pq_items = []\<rparr>"

definition Add :: "PriorityQueue \<Rightarrow> Job \<Rightarrow> PriorityQueue" where
  "Add q job =
     (case job_ScheduledTime job of
        None \<Rightarrow> q
      | Some t \<Rightarrow> heap_Push q \<lparr>sj_Job = job, sj_ScheduledTime = t, sj_Index = 0\<rparr>)"

definition Peek :: "PriorityQueue \<Rightarrow> Job option" where
  "Peek q = (if length (pq_items q) = 0 then None else Some (sj_Job (pq_items q ! 0)))"

definition Next :: "PriorityQueue \<Rightarrow> PriorityQueue \<times> Job option" where
  "Next q =
     (if length (pq_items q) = 0 then (q, None)
      else (let (scheduledJob, q') = heap_Pop q in (q', Some (sj_Job scheduledJob))))"

definition Remove :: "PriorityQueue \<Rightarrow> string \<Rightarrow> PriorityQueue \<times> bool" where
  "Remove q jobID =
     (case find_pos (\<lambda>item. job_Uuid (sj_Job item) = jobID) (pq_items q) of
        None \<Rightarrow> (q, False)
      | Some i \<Rightarrow> (snd (heap_Remove q i), True))"

definition Update :: "PriorityQueue \<Rightarrow> string \<Rightarrow> instant \<Rightarrow> PriorityQueue \<times> bool" where
  "Update q jobID newScheduledTime =
     (case find_pos (\<lambda>item. job_Uuid (sj_Job item) = jobID) (pq_items q) of
        None \<Rightarrow> (q, False)
      | Some i \<Rightarrow>
          (let item = (pq_items q ! i)
                 \<lparr>sj_ScheduledTime := newScheduledTime,
                  sj_Job := (sj_Job (pq_items q ! i))\<lparr>job_ScheduledTime := Some newScheduledTime\<rparr>\<rparr>
           in (heap_Fix (q\<lparr>pq_items := (pq_items q)[i := item]\<rparr>) (nat (sj_Index item)), True)))"

definition GetAll :: "PriorityQueue \<Rightarrow> Job list" where
  "GetAll q = map (\<lambda>item. DeepCopy (sj_Job item)) (pq_items q)"

definition IsEmpty :: "PriorityQueue \<Rightarrow> bool" where
  "IsEmpty q \<longleftrightarrow> length (pq_items q) = 0"

definition Size :: "PriorityQueue \<Rightarrow> int" where
  "Size q = int (length (pq_items q))"

definition GetNextExecutionTime :: "PriorityQueue \<Rightarrow> instant option" where
  "GetNextExecutionTime q =
     (if length (pq_items q) = 0 then None else Some (sj_ScheduledTime (pq_items q ! 0)))"

section \<open>The queue as a heap container\<close>

definition pq_elems :: "PriorityQueue \<Rightarrow> (Job \<times> instant) list" where
  "pq_elems q = map (\<lambda>it. (sj_Job it, sj_ScheduledTime it)) (pq_items q)"

text \<open>Every item knows its position.\<close>

definition index_ok :: "PriorityQueue \<Rightarrow> bool" where
  "index_ok q \<longleftrightarrow> (\<forall>i < length (pq_items q). sj_Index (pq_items q ! i) = int i)"

lemma pq_elems_simps [simp]:
  "length (pq_elems q) = length (pq_items q)"
  "i < length (pq_items q) \<Longrightarrow> pq_elems q ! i = (sj_Job (pq_items q ! i), sj_ScheduledTime (pq_items q ! i))"
  by (simp_all add: pq_elems_def)

interpretation pqh: heap_container pq_elems snd index_ok Less Swap
proof unfold_locales
  fix q i j assume *: "index_ok q" "i < length (pq_elems q)" "j < length (pq_elems q)"
  then show "Less q i j \<longleftrightarrow> snd (pq_elems q ! i) < snd (pq_elems q ! j)"
    by (simp add: Less_def)
  show "pq_elems (Swap q i j) = (pq_elems q)[i := pq_elems q ! j, j := pq_elems q ! i]"
    using * by (simp add: Swap_def pq_elems_def map_update)
  show "index_ok (Swap q i j)"
    using * by (auto simp: Swap_def index_ok_def nth_list_update)
qed

text \<open>The invariant of the queue and the multiset of jobs it stands for.\<close>

definition pq_inv :: "PriorityQueue \<Rightarrow> bool" where
  "pq_inv q \<longleftrightarrow> index_ok q \<and> is_heap (\<lambda>c. snd (pq_elems q ! c)) (length (pq_elems q)) \<and>
     (\<forall>(j, t) \<in> set (pq_elems q). job_ScheduledTime j = Some t)"

definition pq_jobs :: "PriorityQueue \<Rightarrow> Job multiset" where
  "pq_jobs q = image_mset fst (mset (pq_elems q))"

lemma keyf_eq: "pqh.keyf q = (\<lambda>c. snd (pq_elems q ! c))"
  by (simp add: pqh.keyf_def fun_eq_iff)

lemma pq_inv_keyf:
  "pq_inv q \<longleftrightarrow> index_ok q \<and> is_heap (pqh.keyf q) (length (pq_elems q)) \<and>
     (\<forall>(j, t) \<in> set (pq_elems q). job_ScheduledTime j = Some t)"
  by (simp add: pq_inv_def keyf_eq)

lemma pq_jobs_items: "pq_jobs q = mset (map sj_Job (pq_items q))"
  by (simp add: pq_jobs_def pq_elems_def multiset.map_comp comp_def)

lemma pq_jobs_empty [simp]: "pq_jobs q = {#} \<longleftrightarrow> pq_items q = []"
  by (simp add: pq_jobs_items)

definition times_ok :: "PriorityQueue \<Rightarrow> bool" where
  "times_ok q \<longleftrightarrow> (\<forall>(j, t) \<in> set (pq_elems q). job_ScheduledTime j = Some t)"

lemmas pq_inv_parts = pq_inv_keyf [folded times_ok_def]

text \<open>What a rearrangement of the items keeps.\<close>

lemma rearranged_keeps:
  assumes "pqh.rearranged q q' m"
  shows "index_ok q'" "mset (pq_elems q') = mset (pq_elems q)" "times_ok q' = times_ok q"
    "pq_jobs q' = pq_jobs q" "length (pq_items q') = length (pq_items q)"
proof -
  show m: "mset (pq_elems q') = mset (pq_elems q)" and "index_ok q'"
    using assms by (auto simp: pqh.rearranged_def)
  show "times_ok q' = times_ok q" unfolding times_ok_def mset_eq_setD [OF m] ..
  show "pq_jobs q' = pq_jobs q" by (simp add: pq_jobs_def m)
  show "length (pq_items q') = length (pq_items q)"
    using pqh.rearranged_length [OF assms] by simp
qed

lemma is_heap_cong: "(\<And>c. c < n \<Longrightarrow> k c = k' c) \<Longrightarrow> is_heap k n \<longleftrightarrow> is_heap k' n"
  unfolding is_heap_def by (metis less_trans parent_less)

text \<open>Dropping the last item of a queue whose other items are in heap order.\<close>

lemma Pop_inv:
  assumes "pq_items q \<noteq> []" "index_ok q" "times_ok q" "is_heap (pqh.keyf q) (length (pq_items q) - 1)"
  shows "pq_inv (snd (Pop q))"
    "mset (pq_elems q) = add_mset (pq_elems q ! (length (pq_items q) - 1)) (mset (pq_elems (snd (Pop q))))"
    "sj_Job (fst (Pop q)) = fst (pq_elems q ! (length (pq_items q) - 1))"
proof -
  have e: "pq_elems (snd (Pop q)) = butlast (pq_elems q)" by (simp add: Pop_def pq_elems_def map_butlast)
  have "index_ok (snd (Pop q))" using assms(2) by (auto simp: Pop_def index_ok_def nth_butlast)
  moreover have "is_heap (pqh.keyf (snd (Pop q))) (length (pq_items q) - 1)"
    using assms(4) by (subst is_heap_cong [of _ _ "pqh.keyf q"]) (auto simp: pqh.keyf_def e nth_butlast)
  moreover have "times_ok (snd (Pop q))" using assms(3) by (auto simp: times_ok_def e dest: in_set_butlastD)
  ultimately show "pq_inv (snd (Pop q))" by (simp add: pq_inv_parts) (simp add: Pop_def)
  have ne: "pq_elems q \<noteq> []" using assms(1) by (simp add: pq_elems_def)
  then have "mset (pq_elems q) = add_mset (last (pq_elems q)) (mset (butlast (pq_elems q)))"
    by (metis append_butlast_last_id mset_append mset_single_iff_right union_mset_add_mset_right add_mset_add_single)
  then show "mset (pq_elems q) = add_mset (pq_elems q ! (length (pq_items q) - 1)) (mset (pq_elems (snd (Pop q))))"
    using ne by (simp add: e last_conv_nth)
  show "sj_Job (fst (Pop q)) = fst (pq_elems q ! (length (pq_items q) - 1))"
    using assms(1) by (simp add: Pop_def last_conv_nth)
qed

lemma NewPriorityQueue_spec: "pq_inv NewPriorityQueue \<and> pq_jobs NewPriorityQueue = {#}"
  by (simp add: NewPriorityQueue_def heap_Init_def Len_def pq_inv_def index_ok_def is_heap_def pq_elems_def
    pq_jobs_def)

lemma Add_spec:
  assumes "pq_inv q" "job_ScheduledTime j = Some t"
  shows "pq_inv (Add q j)" "pq_jobs (Add q j) = add_mset j (pq_jobs q)"
proof -
  let ?x = "\<lparr>sj_Job = j, sj_ScheduledTime = t, sj_Index = 0\<rparr>" and ?n = "length (pq_items q)"
  let ?q = "Push q ?x"
  have e: "pq_elems ?q = pq_elems q @ [(j, t)]" and n: "length (pq_items ?q) = Suc ?n"
    by (simp_all add: Push_def pq_elems_def)
  have i: "index_ok ?q" using assms by (auto simp: pq_inv_parts index_ok_def Push_def nth_append less_Suc_eq)
  have h: "hole (pqh.keyf ?q) (Suc ?n) ?n \<and> below_ok (pqh.keyf ?q) (Suc ?n) ?n"
    using assms by (intro pqh.append_hole [of q]) (auto simp: pq_inv_parts e nth_append)
  have a: "Add q j = heap_up Less Swap ?q ?n" by (simp add: Add_def assms(2) heap_Push_def Let_def Len_def n)
  have r: "pqh.rearranged ?q (Add q j) (Suc ?n)" unfolding a by (rule pqh.up_rearranged) (simp_all add: i n)
  have "is_heap (pqh.keyf (Add q j)) (Suc ?n)" unfolding a by (rule pqh.up_heap) (simp_all add: i n h)
  moreover have "times_ok ?q" using assms by (auto simp: pq_inv_parts times_ok_def e)
  ultimately show "pq_inv (Add q j)" using rearranged_keeps [OF r] n by (simp add: pq_inv_parts)
  show "pq_jobs (Add q j) = add_mset j (pq_jobs q)"
    using rearranged_keeps(4) [OF r] by (simp add: pq_jobs_def e)
qed

text \<open>
  Taking out the item at a position: it changes places with the last one, the others are put
  back in order, and the last one is dropped.
\<close>

lemma swap_last_hole:
  assumes "pq_inv q" "i < length (pq_items q) - 1"
  defines "n \<equiv> length (pq_items q) - 1"
  shows "index_ok (Swap q i n)" "hole (pqh.keyf (Swap q i n)) n i" "times_ok (Swap q i n)"
    "pqh.rearranged q (Swap q i n) (Suc n)" "pq_elems (Swap q i n) ! n = pq_elems q ! i"
proof -
  have b: "i < n" "n < length (pq_items q)" using assms by auto
  show r: "pqh.rearranged q (Swap q i n) (Suc n)"
    using assms b by (intro pqh.swap_rearranged) (auto simp: pq_inv_parts)
  show "index_ok (Swap q i n)" "times_ok (Swap q i n)"
    using rearranged_keeps [OF r] assms(1) by (auto simp: pq_inv_parts)
  have e: "pq_elems (Swap q i n) = (pq_elems q)[i := pq_elems q ! n, n := pq_elems q ! i]"
    using assms b by (intro pqh.swap_elems) (auto simp: pq_inv_parts)
  show "hole (pqh.keyf (Swap q i n)) n i"
  proof (rule is_heap_hole)
    show "is_heap (pqh.keyf q) n" using assms(1) b by (auto simp: pq_inv_parts intro: is_heap_mono)
  qed (use e in \<open>simp add: pqh.keyf_def\<close>)
  show "pq_elems (Swap q i n) ! n = pq_elems q ! i"
    using b by (simp add: e del: pq_elems_simps(2))
qed

definition taken :: "PriorityQueue \<Rightarrow> nat \<Rightarrow> ScheduledJob \<times> PriorityQueue \<Rightarrow> bool" where
  "taken q i r \<longleftrightarrow> pq_inv (snd r) \<and> mset (pq_elems q) = add_mset (pq_elems q ! i) (mset (pq_elems (snd r))) \<and>
     sj_Job (fst r) = fst (pq_elems q ! i)"

lemma taken_Pop:
  assumes "pq_items q \<noteq> []" "pqh.rearranged q q' (length (pq_items q))"
    "is_heap (pqh.keyf q') (length (pq_items q) - 1)" "times_ok q"
    "pq_elems q' ! (length (pq_items q) - 1) = pq_elems q ! i"
  shows "taken q i (Pop q')"
proof -
  note k = rearranged_keeps [OF assms(2)]
  from assms(1) k(5) have "pq_items q' \<noteq> []" by auto
  then show ?thesis using Pop_inv [of q'] k assms unfolding taken_def by (simp del: pq_elems_simps(2))
qed

lemma taken_swapped:
  assumes "pq_inv q" "i < length (pq_items q) - 1"
    "pqh.rearranged (Swap q i (length (pq_items q) - 1)) q' (length (pq_items q) - 1)"
    "is_heap (pqh.keyf q') (length (pq_items q) - 1)"
  shows "taken q i (Pop q')"
proof (rule taken_Pop)
  show ne: "pq_items q \<noteq> []" using assms(2) by auto
  note s = swap_last_hole [OF assms(1,2)]
  show "pqh.rearranged q q' (length (pq_items q))"
    using pqh.rearranged_trans [OF s(4) assms(3)] ne by simp
  show "pq_elems q' ! (length (pq_items q) - 1) = pq_elems q ! i"
    using assms(3) s(5) unfolding pqh.rearranged_def by simp
qed (use assms in \<open>auto simp: pq_inv_parts\<close>)

lemma heap_Remove_spec:
  assumes "pq_inv q" "i < length (pq_items q)"
  shows "taken q i (heap_Remove q i)"
proof (cases "i = length (pq_items q) - 1")
  case True
  have "taken q i (Pop q)"
    using assms True by (intro taken_Pop)
      (auto simp: pq_inv_parts pqh.rearranged_refl intro: is_heap_mono)
  with True show ?thesis by (simp add: heap_Remove_def Len_def)
next
  case False
  with assms have i: "i < length (pq_items q) - 1" by simp
  note s = swap_last_hole [OF assms(1) i]
  let ?n = "length (pq_items q) - 1"
  have "is_heap (pqh.keyf (heap_sift Less Swap (Swap q i ?n) i ?n)) ?n \<and>
      pqh.rearranged (Swap q i ?n) (heap_sift Less Swap (Swap q i ?n) i ?n) ?n"
    using s i rearranged_keeps(5) [OF s(4)] by (intro pqh.sift_heap) auto
  with taken_swapped [OF assms(1) i] False show ?thesis by (auto simp: heap_Remove_def Len_def Let_def)
qed

lemma heap_Pop_spec:
  assumes "pq_inv q" "pq_items q \<noteq> []"
  shows "taken q 0 (heap_Pop q)"
proof (cases "length (pq_items q) = 1")
  case True
  have r: "pqh.rearranged q (Swap q 0 0) 1"
    using assms True by (intro pqh.swap_rearranged) (auto simp: pq_inv_parts)
  have "taken q 0 (Pop (Swap q 0 0))"
    using assms True r by (intro taken_Pop) (auto simp: pq_inv_parts is_heap_def pqh.swap_elems)
  with True show ?thesis by (simp add: heap_Pop_def Len_def pqh.down_unfold)
next
  case False
  with assms have i: "0 < length (pq_items q) - 1" by (cases "pq_items q") auto
  note s = swap_last_hole [OF assms(1) i]
  let ?n = "length (pq_items q) - 1" and ?q = "Swap q 0 (length (pq_items q) - 1)"
  obtain q' i' where d: "heap_down Less Swap ?q 0 ?n = (q', i')" by fastforce
  have n: "?n \<le> length (pq_elems ?q)" using rearranged_keeps(5) [OF s(4)] by simp
  have "above_ok (pqh.keyf ?q) 0" by (simp add: above_ok_def)
  with pqh.down_heap [OF s(1) n i s(2) d] have "is_heap (pqh.keyf q') ?n" by blast
  moreover have "pqh.rearranged ?q q' ?n" using pqh.down_rearranged [OF s(1) n d] by blast
  ultimately have "taken q 0 (Pop q')" using taken_swapped [OF assms(1) i] by blast
  then show ?thesis unfolding heap_Pop_def Len_def Let_def d by simp
qed

lemma taken_jobs: "taken q i r \<Longrightarrow> pq_jobs q = add_mset (sj_Job (fst r)) (pq_jobs (snd r))"
  by (auto simp: taken_def pq_jobs_def)

lemma root_earliest:
  assumes "pq_inv q" "pq_items q \<noteq> []" "j \<in># pq_jobs q"
  shows "\<exists>t t'. job_ScheduledTime (sj_Job (pq_items q ! 0)) = Some t \<and> job_ScheduledTime j = Some t' \<and> t \<le> t'"
proof -
  obtain c where c: "c < length (pq_elems q)" "j = fst (pq_elems q ! c)"
    using assms(3) by (auto simp: pq_jobs_def in_set_conv_nth)
  have "pqh.keyf q 0 \<le> pqh.keyf q c" using assms(1) c(1) by (intro is_heap_root) (auto simp: pq_inv_parts)
  moreover have t: "job_ScheduledTime (fst (pq_elems q ! k)) = Some (snd (pq_elems q ! k))"
    if "k < length (pq_elems q)" for k
    using assms(1) nth_mem [OF that] unfolding pq_inv_parts times_ok_def by (auto split: prod.splits)
  ultimately show ?thesis
    using t [of 0] t [of c] c assms(2) by (simp add: pqh.keyf_def)
qed

lemma Next_spec:
  assumes "pq_inv q" "pq_jobs q \<noteq> {#}"
  shows "\<exists>q' j. Next q = (q', Some j) \<and> pq_inv q' \<and> pq_jobs q = add_mset j (pq_jobs q') \<and>
    (\<forall>j' \<in># pq_jobs q. the (job_ScheduledTime j) \<le> the (job_ScheduledTime j'))"
proof -
  have ne: "pq_items q \<noteq> []" using assms(2) by simp
  obtain it q' where p: "heap_Pop q = (it, q')" by fastforce
  have t: "taken q 0 (it, q')" using heap_Pop_spec [OF assms(1) ne] p by simp
  then have it: "sj_Job it = sj_Job (pq_items q ! 0)" using ne by (simp add: taken_def)
  have "the (job_ScheduledTime (sj_Job it)) \<le> the (job_ScheduledTime j')" if "j' \<in># pq_jobs q" for j'
    using root_earliest [OF assms(1) ne that] it by auto
  moreover have "Next q = (q', Some (sj_Job it))" using ne p by (simp add: Next_def)
  moreover have "pq_inv q'" using t by (simp add: taken_def)
  ultimately show ?thesis using taken_jobs [OF t] by auto
qed

lemma Remove_spec:
  assumes "pq_inv q" "Remove q i = (q', b)"
  shows "pq_inv q' \<and> (if b then \<exists>j. job_Uuid j = i \<and> pq_jobs q = add_mset j (pq_jobs q')
    else q' = q \<and> (\<forall>j \<in># pq_jobs q. job_Uuid j \<noteq> i))"
proof (cases "find_pos (\<lambda>item. job_Uuid (sj_Job item) = i) (pq_items q)")
  case None
  with assms(2) have "q' = q" "\<not> b" by (auto simp: Remove_def simp del: find_pos_None)
  with None assms(1) show ?thesis by (auto simp: pq_jobs_items)
next
  case (Some k)
  note k = find_pos_Some [OF Some]
  have t: "taken q k (heap_Remove q k)" using assms k by (intro heap_Remove_spec) auto
  then have "job_Uuid (sj_Job (fst (heap_Remove q k))) = i" using k by (simp add: taken_def)
  with t taken_jobs [OF t] show ?thesis using assms(2) Some by (auto simp: Remove_def taken_def)
qed

lemma Update_spec:
  assumes "pq_inv q" "Update q i t = (q', b)"
  shows "pq_inv q' \<and> (if b then \<exists>j r. job_Uuid j = i \<and> pq_jobs q = add_mset j r \<and>
      pq_jobs q' = add_mset (j\<lparr>job_ScheduledTime := Some t\<rparr>) r
    else q' = q \<and> (\<forall>j \<in># pq_jobs q. job_Uuid j \<noteq> i))"
proof (cases "find_pos (\<lambda>item. job_Uuid (sj_Job item) = i) (pq_items q)")
  case None
  with assms(2) have "q' = q" "\<not> b" by (auto simp: Update_def simp del: find_pos_None)
  with None assms(1) show ?thesis by (auto simp: pq_jobs_items)
next
  case (Some k)
  note k = find_pos_Some [OF Some]
  define j where "j = sj_Job (pq_items q ! k)"
  define it where "it = (pq_items q ! k)\<lparr>sj_ScheduledTime := t, sj_Job := j\<lparr>job_ScheduledTime := Some t\<rparr>\<rparr>"
  let ?q = "q\<lparr>pq_items := (pq_items q)[k := it]\<rparr>" and ?n = "length (pq_items q)"
  have ik: "sj_Index (pq_items q ! k) = int k" using assms(1) k by (simp add: pq_inv_parts index_ok_def)
  have q': "q' = heap_sift Less Swap ?q k ?n" "b"
    using assms(2) Some ik by (auto simp: Update_def Let_def heap_Fix_def Len_def it_def j_def)
  have e: "pq_elems ?q = (pq_elems q)[k := (j\<lparr>job_ScheduledTime := Some t\<rparr>, t)]"
    by (simp add: pq_elems_def map_update it_def)
  have ok: "index_ok ?q" "times_ok ?q"
    using assms(1) ik conjunct1 [OF k] unfolding pq_inv_parts times_ok_def e
    by (auto simp: index_ok_def it_def nth_list_update dest!: set_update_subset_insert [THEN subsetD])
  have "hole (pqh.keyf ?q) ?n k"
    by (rule is_heap_hole [of "pqh.keyf q"]) (use assms(1) in \<open>auto simp: pq_inv_parts pqh.keyf_def e\<close>)
  then have h: "is_heap (pqh.keyf q') ?n \<and> pqh.rearranged ?q q' ?n"
    unfolding q' using k ok by (intro pqh.sift_heap) auto
  note kp = rearranged_keeps [OF conjunct2 [OF h]]
  have "pq_inv q'" using h kp ok by (simp add: pq_inv_parts)
  moreover have "pq_jobs q = add_mset j (mset (map fst (pq_elems q)) - {#j#})"
    using k nth_mem [of k "map sj_Job (pq_items q)"]
    by (auto simp: pq_jobs_items pq_elems_def comp_def j_def intro!: insert_DiffM [symmetric])
  moreover have "pq_jobs q' = add_mset (j\<lparr>job_ScheduledTime := Some t\<rparr>) (mset (map fst (pq_elems q)) - {#j#})"
  proof -
    have "pq_jobs q' = mset (map fst (pq_elems ?q))" unfolding kp(4) by (simp only: pq_jobs_def mset_map)
    also have "\<dots> = mset ((map fst (pq_elems q))[k := j\<lparr>job_ScheduledTime := Some t\<rparr>])"
      by (simp only: e map_update fst_conv)
    finally show ?thesis using k by (simp add: mset_update j_def del: mset_map)
  qed
  moreover have "job_Uuid j = i" using k by (simp add: j_def)
  ultimately show ?thesis using q'(2) by auto
qed

section \<open>What the scheduler relies on\<close>

text \<open>
  A queue of scheduled jobs, as its client sees it: a multiset of jobs, each with a scheduled time.
\<close>

locale job_queue =
  fixes empty_q :: 'q and add_q :: "'q \<Rightarrow> Job \<Rightarrow> 'q" and peek_q :: "'q \<Rightarrow> Job option"
    and next_q :: "'q \<Rightarrow> 'q \<times> Job option" and remove_q :: "'q \<Rightarrow> string \<Rightarrow> 'q \<times> bool"
    and inv :: "'q \<Rightarrow> bool" and jobs :: "'q \<Rightarrow> Job multiset"
  assumes empty_inv: "inv empty_q" and empty_jobs: "jobs empty_q = {#}"
    and scheduled: "inv q \<Longrightarrow> j \<in># jobs q \<Longrightarrow> job_ScheduledTime j \<noteq> None"
    and add_unscheduled: "job_ScheduledTime j = None \<Longrightarrow> add_q q j = q"
    and add_inv: "inv q \<Longrightarrow> job_ScheduledTime j \<noteq> None \<Longrightarrow> inv (add_q q j)"
    and add_jobs: "inv q \<Longrightarrow> job_ScheduledTime j \<noteq> None \<Longrightarrow> jobs (add_q q j) = add_mset j (jobs q)"
    and next_empty: "inv q \<Longrightarrow> jobs q = {#} \<Longrightarrow> next_q q = (q, None)"
    and next_some: "inv q \<Longrightarrow> jobs q \<noteq> {#} \<Longrightarrow>
      \<exists>q' j. next_q q = (q', Some j) \<and> inv q' \<and> jobs q = add_mset j (jobs q') \<and>
        (\<forall>j' \<in># jobs q. the (job_ScheduledTime j) \<le> the (job_ScheduledTime j'))"
    and peek_next: "inv q \<Longrightarrow> peek_q q = snd (next_q q)"
    and remove_spec: "inv q \<Longrightarrow> remove_q q i = (q', b) \<Longrightarrow>
      inv q' \<and> (if b then \<exists>j. job_Uuid j = i \<and> jobs q = add_mset j (jobs q')
        else q' = q \<and> (\<forall>j \<in># jobs q. job_Uuid j \<noteq> i))"

text \<open>Repeated calls of \<open>Next\<close>.\<close>

primrec drain :: "('q \<Rightarrow> 'q \<times> 'a option) \<Rightarrow> nat \<Rightarrow> 'q \<Rightarrow> 'a list" where
  "drain next_q 0 q = []"
| "drain next_q (Suc n) q =
     (case next_q q of (q', None) \<Rightarrow> [] | (q', Some j) \<Rightarrow> j # drain next_q n q')"

context job_queue
begin

lemma add_keeps: "inv q \<Longrightarrow> inv (add_q q j)"
  using add_inv add_unscheduled by (cases "job_ScheduledTime j") auto

lemma next_keeps:
  assumes "inv q" "next_q q = (q', r)"
  shows "inv q' \<and> jobs q = (case r of None \<Rightarrow> {#} | Some j \<Rightarrow> add_mset j (jobs q'))"
  using assms next_empty [of q] next_some [of q] by (cases "jobs q = {#}") auto

lemma next_earliest:
  assumes "inv q" "next_q q = (q', Some j)"
  shows "inv q' \<and> jobs q = add_mset j (jobs q') \<and>
    (\<forall>j' \<in># jobs q. the (job_ScheduledTime j) \<le> the (job_ScheduledTime j'))"
  using assms next_empty [of q] next_some [of q] by (cases "jobs q = {#}") auto

lemma remove_keeps: "inv q \<Longrightarrow> inv (fst (remove_q q i))"
  using remove_spec [of q i "fst (remove_q q i)" "snd (remove_q q i)"] by simp

lemma peek_earliest:
  assumes "inv q" "peek_q q = Some j" "j' \<in># jobs q"
  shows "the (job_ScheduledTime j) \<le> the (job_ScheduledTime j')"
  using assms next_some [of q] peek_next [of q] by (cases "jobs q = {#}") auto

lemma drain_sorted:
  "inv q \<Longrightarrow> size (jobs q) \<le> n \<Longrightarrow>
    mset (drain next_q n q) = jobs q \<and> sorted_wrt (\<lambda>a b. the (job_ScheduledTime a) \<le> the (job_ScheduledTime b)) (drain next_q n q)"
proof (induction n arbitrary: q)
  case (Suc n)
  show ?case
  proof (cases "jobs q = {#}")
    case True
    with Suc.prems next_empty show ?thesis by simp
  next
    case False
    with next_some Suc.prems obtain q' j where n: "next_q q = (q', Some j)" "inv q'"
      "jobs q = add_mset j (jobs q')" "\<forall>j' \<in># jobs q. the (job_ScheduledTime j) \<le> the (job_ScheduledTime j')"
      by meson
    have IH: "mset (drain next_q n q') = jobs q'"
      "sorted_wrt (\<lambda>a b. the (job_ScheduledTime a) \<le> the (job_ScheduledTime b)) (drain next_q n q')"
      using Suc.IH [OF n(2)] Suc.prems n(3) by auto
    have "set (drain next_q n q') = set_mset (jobs q')" by (simp flip: IH(1))
    with IH n show ?thesis by auto
  qed
qed simp

end

interpretation jq: job_queue NewPriorityQueue Add Peek Next Remove pq_inv pq_jobs
proof unfold_locales
  fix q j assume "pq_inv q"
  show "job_ScheduledTime j \<noteq> None" if "j \<in># pq_jobs q"
    using \<open>pq_inv q\<close> that by (auto simp: pq_inv_parts times_ok_def pq_jobs_def)
  show "pq_inv (Add q j)" "pq_jobs (Add q j) = add_mset j (pq_jobs q)" if "job_ScheduledTime j \<noteq> None"
    using \<open>pq_inv q\<close> that Add_spec by auto
  show "Next q = (q, None)" if "pq_jobs q = {#}" using that by (simp add: Next_def)
  show "Peek q = snd (Next q)"
  proof (cases "pq_items q = []")
    case False
    with heap_Pop_spec [OF \<open>pq_inv q\<close>] show ?thesis
      by (auto simp: Peek_def Next_def taken_def split: prod.splits)
  qed (simp add: Peek_def Next_def)
qed (use NewPriorityQueue_spec Next_spec Remove_spec in \<open>auto simp: Add_def\<close>)

section \<open>Any sequence of operations\<close>

datatype queue_op =
    OpAdd Job
  | OpNext
  | OpRemove string
  | OpUpdate string instant

fun queue_step :: "queue_op \<Rightarrow> PriorityQueue \<Rightarrow> PriorityQueue" where
  "queue_step (OpAdd job) q = Add q job"
| "queue_step OpNext q = fst (Next q)"
| "queue_step (OpRemove jobID) q = fst (Remove q jobID)"
| "queue_step (OpUpdate jobID t) q = fst (Update q jobID t)"

definition queue_run :: "queue_op list \<Rightarrow> PriorityQueue" where
  "queue_run ops = fold queue_step ops NewPriorityQueue"

lemma queue_step_inv: "pq_inv q \<Longrightarrow> pq_inv (queue_step op q)"
proof (cases op)
  case (OpUpdate i t)
  then show "pq_inv q \<Longrightarrow> ?thesis" using Update_spec [of q i t] by (cases "Update q i t") auto
next
  case OpNext
  then show "pq_inv q \<Longrightarrow> ?thesis" using jq.next_keeps [of q] by (cases "Next q") auto
qed (auto simp: jq.add_keeps jq.remove_keeps)

lemma queue_run_inv: "pq_inv (queue_run ops)"
proof -
  have "pq_inv q \<Longrightarrow> pq_inv (fold queue_step ops q)" for q
    by (induction ops arbitrary: q) (simp_all add: queue_step_inv)
  then show ?thesis by (simp add: queue_run_def jq.empty_inv)
qed

lemma size_pq_jobs: "size (pq_jobs q) = length (pq_items q)"
  by (simp add: pq_jobs_def)

text \<open>
  C8. After any sequence of \<open>Add\<close>, \<open>Next\<close>, \<open>Remove\<close> and \<open>Update\<close> from the new queue, calling
  \<open>Next\<close> as often as \<open>Size\<close> says returns exactly the jobs of the queue, the earliest
  scheduled time first, and \<open>GetNextExecutionTime\<close> is the time of the first of them.
\<close>

theorem queue_drains_in_order:
  "let q = queue_run ops; out = drain Next (nat (Size q)) q in
     mset out = pq_jobs q \<and> mset (GetAll q) = image_mset DeepCopy (mset out) \<and>
     sorted_wrt (\<lambda>a b. the (job_ScheduledTime a) \<le> the (job_ScheduledTime b)) out \<and>
     GetNextExecutionTime q = (case out of [] \<Rightarrow> None | j # _ \<Rightarrow> job_ScheduledTime j)"
proof -
  let ?q = "queue_run ops" and ?out = "drain Next (nat (Size (queue_run ops))) (queue_run ops)"
  have d: "mset ?out = pq_jobs ?q" "sorted_wrt (\<lambda>a b. the (job_ScheduledTime a) \<le> the (job_ScheduledTime b)) ?out"
    using jq.drain_sorted [OF queue_run_inv, of ops "nat (Size ?q)"] by (simp_all add: Size_def size_pq_jobs)
  have "GetNextExecutionTime ?q = (case ?out of [] \<Rightarrow> None | j # _ \<Rightarrow> job_ScheduledTime j)"
  proof (cases "pq_items ?q")
    case Nil
    then show ?thesis by (simp add: GetNextExecutionTime_def Size_def)
  next
    case (Cons it its)
    then obtain q' where "Next ?q = (q', Some (sj_Job it))"
      using heap_Pop_spec [OF queue_run_inv, of ops] by (cases "heap_Pop ?q") (auto simp: Next_def taken_def)
    moreover have "job_ScheduledTime (sj_Job it) = Some (sj_ScheduledTime it)"
      using queue_run_inv [of ops] Cons by (simp add: pq_inv_parts times_ok_def pq_elems_def)
    ultimately show ?thesis using Cons by (simp add: GetNextExecutionTime_def Size_def nat_add_distrib)
  qed
  with d show ?thesis by (simp add: Let_def GetAll_def pq_jobs_items multiset.map_comp comp_def)
qed

text \<open>
  \<open>Remove\<close> takes out one job with the given id when there is one, and says whether it did;
  \<open>Update\<close> gives one such job the new time. Both keep the heap order and the items'
  positions and leave every other job alone.
\<close>

theorem queue_Remove_Update:
  "let q = queue_run ops; (q1, removed) = Remove q jobID; (q2, updated) = Update q jobID t in
     pq_inv q1 \<and> pq_inv q2 \<and>
     removed = (\<exists>j \<in># pq_jobs q. job_Uuid j = jobID) \<and> updated = removed \<and>
     (removed \<longrightarrow> (\<exists>j rest. job_Uuid j = jobID \<and> pq_jobs q = add_mset j rest \<and> pq_jobs q1 = rest)) \<and>
     (updated \<longrightarrow> (\<exists>j rest. job_Uuid j = jobID \<and> pq_jobs q = add_mset j rest \<and>
        pq_jobs q2 = add_mset (j\<lparr>job_ScheduledTime := Some t\<rparr>) rest)) \<and>
     (\<not> removed \<longrightarrow> q1 = q \<and> q2 = q)"
proof -
  let ?q = "queue_run ops"
  obtain q1 r q2 u where e: "Remove ?q jobID = (q1, r)" "Update ?q jobID t = (q2, u)" by fastforce
  have "pq_inv q1 \<and> (if r then \<exists>j. job_Uuid j = jobID \<and> pq_jobs ?q = add_mset j (pq_jobs q1)
      else q1 = ?q \<and> (\<forall>j \<in># pq_jobs ?q. job_Uuid j \<noteq> jobID))"
    by (rule jq.remove_spec [OF queue_run_inv e(1)])
  moreover have "pq_inv q2 \<and> (if u then \<exists>j r. job_Uuid j = jobID \<and> pq_jobs ?q = add_mset j r \<and>
      pq_jobs q2 = add_mset (j\<lparr>job_ScheduledTime := Some t\<rparr>) r
    else q2 = ?q \<and> (\<forall>j \<in># pq_jobs ?q. job_Uuid j \<noteq> jobID))"
    by (rule Update_spec [OF queue_run_inv e(2)])
  ultimately show ?thesis unfolding e Let_def prod.case by (cases r; cases u) auto
qed

text \<open>A queue of three jobs, one of them moved and one removed.\<close>

definition demo_job :: "string \<Rightarrow> instant \<Rightarrow> Job" where
  "demo_job u t = zero_job\<lparr>job_Uuid := u, job_ScheduledTime := Some t\<rparr>"

theorem queue_Remove_Update_witness:
  "snd (Remove (queue_run [OpAdd (demo_job ''a'' 5), OpAdd (demo_job ''b'' 3)]) ''b'') \<longleftrightarrow>
     (\<exists>j \<in># pq_jobs (queue_run [OpAdd (demo_job ''a'' 5), OpAdd (demo_job ''b'' 3)]). job_Uuid j = ''b'')"
  using queue_Remove_Update [of "[OpAdd (demo_job ''a'' 5), OpAdd (demo_job ''b'' 3)]" "''b''" 9]
  by (auto simp: Let_def split: prod.splits)

end
