(* ===== verification/Scheduler.thy ===== *)
theory Scheduler
  imports JobQueue
begin

text \<open>
  The scheduler, \<open>internal/joblet/scheduler/scheduler.go\<close>: callers add and remove jobs while the
  goroutine \<open>run\<close> sleeps until the next job is due. The shared state is a record; what a caller
  or the goroutine does between two points where another may run is one step, so a run of the
  program is a sequence of such steps. A caller's queue operation and the signal it sends after it
  are two steps, and so are the two halves of \<open>Stop\<close>.
\<close>

section \<open>State\<close>

text \<open>Where a goroutine \<open>run\<close> stands. \<open>LSleeping d\<close> waits for the timer that fires at \<open>d\<close>.\<close>

datatype loop_pc =
    LTop
  | LPeek
  | LIdle
  | LPeeked Job
  | LSleeping instant
  | LDue
  | LExecuting Job
  | LReturned

text \<open>
  \<open>sd_newJobSignal\<close> is the buffer of the channel of capacity one, \<open>sd_sending\<close> the number of
  callers that changed the queue and have not come to their \<open>select\<close> yet, \<open>sd_closing\<close> the number of
  callers of \<open>Stop\<close> between the mutex and the \<open>close\<close>. Closing a closed channel panics.
\<close>

record Scheduler =
  sd_queue :: PriorityQueue
  sd_newJobSignal :: bool
  sd_stopSignal :: bool
  sd_cancelled :: bool
  sd_running :: bool
  sd_sending :: nat
  sd_closing :: nat
  sd_loops :: "loop_pc list"
  sd_now :: instant
  sd_panicked :: bool

definition New :: "instant \<Rightarrow> Scheduler" where
  "New t = \<lparr>sd_queue = NewPriorityQueue, sd_newJobSignal = False, sd_stopSignal = False,
     sd_cancelled = False, sd_running = False, sd_sending = 0, sd_closing = 0, sd_loops = [],
     sd_now = t, sd_panicked = False\<rparr>"

section \<open>The calls\<close>

definition Start :: "Scheduler \<Rightarrow> Scheduler" where
  "Start s =
     (if sd_running s then s
      else s\<lparr>sd_running := True, sd_loops := sd_loops s @ [LTop]\<rparr>)"

definition Stop :: "Scheduler \<Rightarrow> Scheduler" where
  "Stop s =
     (if \<not> sd_running s then s
      else s\<lparr>sd_running := False, sd_closing := Suc (sd_closing s)\<rparr>)"

text \<open>The rest of \<open>Stop\<close>: \<open>close(s.stopSignal)\<close> and \<open>s.cancel()\<close>.\<close>

definition Stop_close :: "Scheduler \<Rightarrow> Scheduler" where
  "Stop_close s =
     (if sd_stopSignal s then s\<lparr>sd_panicked := True\<rparr>
      else s\<lparr>sd_stopSignal := True, sd_cancelled := True, sd_closing := sd_closing s - 1\<rparr>)"

definition AddJob :: "Scheduler \<Rightarrow> Job \<Rightarrow> Scheduler" where
  "AddJob s job =
     (case job_ScheduledTime job of
        None \<Rightarrow> s
      | Some _ \<Rightarrow> s\<lparr>sd_queue := Add (sd_queue s) job, sd_sending := Suc (sd_sending s)\<rparr>)"

definition RemoveJob :: "Scheduler \<Rightarrow> string \<Rightarrow> Scheduler \<times> bool" where
  "RemoveJob s jobID =
     (let (q, removed) = Remove (sd_queue s) jobID in
      (if removed then s\<lparr>sd_queue := q, sd_sending := Suc (sd_sending s)\<rparr> else s\<lparr>sd_queue := q\<rparr>, removed))"

text \<open>The \<open>select\<close> at the end of both: a signal is sent unless one is waiting already.\<close>

definition send_signal :: "Scheduler \<Rightarrow> Scheduler" where
  "send_signal s = s\<lparr>sd_newJobSignal := True, sd_sending := sd_sending s - 1\<rparr>"

definition GetScheduledJobs :: "Scheduler \<Rightarrow> Job list" where
  "GetScheduledJobs s = GetAll (sd_queue s)"

definition GetQueueSize :: "Scheduler \<Rightarrow> int" where
  "GetQueueSize s = Size (sd_queue s)"

definition Scheduler_IsRunning :: "Scheduler \<Rightarrow> bool" where
  "Scheduler_IsRunning s \<longleftrightarrow> sd_running s"

section \<open>The goroutine\<close>

datatype event =
    EvAdd Job
  | EvRemove string bool
  | EvStart
  | EvStop
  | EvExec Job instant
  | EvTau

definition stopped :: "Scheduler \<Rightarrow> bool" where
  "stopped s \<longleftrightarrow> sd_stopSignal s \<or> sd_cancelled s"

text \<open>
  One step of \<open>run\<close>. Where several cases of a \<open>select\<close> are ready, any of them may be taken;
  a timer may be read late but not early. The error of \<open>ExecuteScheduledJob\<close> is only logged.
\<close>

inductive run_step :: "Scheduler \<Rightarrow> loop_pc \<Rightarrow> event \<Rightarrow> Scheduler \<Rightarrow> loop_pc \<Rightarrow> bool" where
  top_stop: "stopped s \<Longrightarrow> run_step s LTop EvTau s LReturned"
| top_go: "\<not> stopped s \<Longrightarrow> run_step s LTop EvTau s LPeek"
| peek_none: "Peek (sd_queue s) = None \<Longrightarrow> run_step s LPeek EvTau s LIdle"
| peek_some: "Peek (sd_queue s) = Some j \<Longrightarrow> run_step s LPeek EvTau s (LPeeked j)"
| idle_signal: "sd_newJobSignal s \<Longrightarrow> run_step s LIdle EvTau (s\<lparr>sd_newJobSignal := False\<rparr>) LTop"
| idle_stop: "stopped s \<Longrightarrow> run_step s LIdle EvTau s LReturned"
| sleep: "job_ScheduledTime j = Some t \<Longrightarrow> sd_now s < t \<Longrightarrow>
    run_step s (LPeeked j) EvTau s (LSleeping (sd_now s + time_Sub t (sd_now s)))"
| due: "job_ScheduledTime j = Some t \<Longrightarrow> \<not> sd_now s < t \<Longrightarrow> run_step s (LPeeked j) EvTau s LDue"
| sleep_timer: "d \<le> sd_now s \<Longrightarrow> run_step s (LSleeping d) EvTau s LDue"
| sleep_signal: "sd_newJobSignal s \<Longrightarrow>
    run_step s (LSleeping d) EvTau (s\<lparr>sd_newJobSignal := False\<rparr>) LTop"
| sleep_stop: "stopped s \<Longrightarrow> run_step s (LSleeping d) EvTau s LReturned"
| next_none: "Next (sd_queue s) = (q, None) \<Longrightarrow> run_step s LDue EvTau (s\<lparr>sd_queue := q\<rparr>) LTop"
| next_some: "Next (sd_queue s) = (q, Some j) \<Longrightarrow>
    run_step s LDue EvTau (s\<lparr>sd_queue := q\<rparr>) (LExecuting j)"
| exec: "run_step s (LExecuting j) (EvExec j (sd_now s)) s LTop"

inductive sched_step :: "Scheduler \<Rightarrow> event \<Rightarrow> Scheduler \<Rightarrow> bool" where
  start: "\<not> sd_panicked s \<Longrightarrow> sched_step s EvStart (Start s)"
| stop: "\<not> sd_panicked s \<Longrightarrow> sched_step s EvStop (Stop s)"
| close_chan: "\<not> sd_panicked s \<Longrightarrow> 0 < sd_closing s \<Longrightarrow> sched_step s EvTau (Stop_close s)"
| add: "\<not> sd_panicked s \<Longrightarrow> sched_step s (EvAdd j) (AddJob s j)"
| remove: "\<not> sd_panicked s \<Longrightarrow> RemoveJob s i = (s', b) \<Longrightarrow> sched_step s (EvRemove i b) s'"
| send: "\<not> sd_panicked s \<Longrightarrow> 0 < sd_sending s \<Longrightarrow> sched_step s EvTau (send_signal s)"
| tick: "\<not> sd_panicked s \<Longrightarrow> sd_now s \<le> t \<Longrightarrow> sched_step s EvTau (s\<lparr>sd_now := t\<rparr>)"
| loop: "\<not> sd_panicked s \<Longrightarrow> k < length (sd_loops s) \<Longrightarrow> run_step s (sd_loops s ! k) e s' pc \<Longrightarrow>
    sched_step s e (s'\<lparr>sd_loops := (sd_loops s)[k := pc]\<rparr>)"

inductive sched_run :: "Scheduler \<Rightarrow> event list \<Rightarrow> Scheduler \<Rightarrow> bool" where
  run_nil: "sched_run s [] s"
| run_snoc: "sched_run s evs s' \<Longrightarrow> sched_step s' e s'' \<Longrightarrow> sched_run s (evs @ [e]) s''"

inductive_cases run_step_elim: "run_step s pc e s' pc'"
inductive_cases sched_step_elim: "sched_step s e s'"

section \<open>No job is lost\<close>

text \<open>What an event, and a sequence of events, added, executed and removed.\<close>

fun ev_added :: "event \<Rightarrow> Job multiset" where
  "ev_added (EvAdd j) = (if job_ScheduledTime j = None then {#} else {#j#})"
| "ev_added _ = {#}"

fun ev_executed :: "event \<Rightarrow> Job multiset" where
  "ev_executed (EvExec j t) = {#j#}"
| "ev_executed _ = {#}"

fun ev_removed :: "event \<Rightarrow> string multiset" where
  "ev_removed (EvRemove i b) = (if b then {#i#} else {#})"
| "ev_removed _ = {#}"

definition added :: "event list \<Rightarrow> Job multiset" where
  "added evs = sum_list (map ev_added evs)"

definition executed :: "event list \<Rightarrow> Job multiset" where
  "executed evs = sum_list (map ev_executed evs)"

definition removed_ids :: "event list \<Rightarrow> string multiset" where
  "removed_ids evs = sum_list (map ev_removed evs)"

fun is_start :: "event \<Rightarrow> bool" where
  "is_start EvStart = True"
| "is_start _ = False"

lemma is_start_iff: "is_start e \<longleftrightarrow> e = EvStart"
  by (cases e) auto

definition starts :: "event list \<Rightarrow> nat" where
  "starts evs = length (filter is_start evs)"

lemma trace_simps [simp]:
  "added [] = {#}" "executed [] = {#}" "removed_ids [] = {#}" "starts [] = 0"
  "added (evs @ [e]) = added evs + ev_added e"
  "executed (evs @ [e]) = executed evs + ev_executed e"
  "removed_ids (evs @ [e]) = removed_ids evs + ev_removed e"
  "starts (evs @ [e]) = starts evs + (if e = EvStart then 1 else 0)"
  by (simp_all add: added_def executed_def removed_ids_def starts_def is_start_iff)

text \<open>The jobs that goroutines took from the queue and are about to execute.\<close>

fun pc_hand :: "loop_pc \<Rightarrow> Job multiset" where
  "pc_hand (LExecuting j) = {#j#}"
| "pc_hand _ = {#}"

definition in_hand :: "loop_pc list \<Rightarrow> Job multiset" where
  "in_hand pcs = sum_list (map pc_hand pcs)"

lemma sum_list_upd:
  "k < length xs \<Longrightarrow> sum_list (xs[k := x]) + xs ! k = sum_list xs + (x :: 'a::comm_monoid_add)"
proof (induction xs arbitrary: k)
  case (Cons y ys)
  show ?case
  proof (cases k)
    case (Suc k')
    with Cons.IH [of k'] Cons.prems show ?thesis by (simp add: add.assoc)
  qed (simp add: add_ac)
qed simp

lemma in_hand_upd: "k < length pcs \<Longrightarrow> in_hand (pcs[k := pc]) + pc_hand (pcs ! k) = in_hand pcs + pc_hand pc"
  using sum_list_upd [of k "map pc_hand pcs" "pc_hand pc"] by (simp add: in_hand_def map_update)

lemma in_hand_simps [simp]: "in_hand [] = {#}" "in_hand (pcs @ [LTop]) = in_hand pcs"
  by (simp_all add: in_hand_def)

lemmas sched_op_defs = Start_def Stop_def Stop_close_def AddJob_def RemoveJob_def send_signal_def

text \<open>A step of the goroutine moves a job from the queue to its hand, and from its hand to the executor.\<close>

lemma run_step_conserves:
  assumes "run_step s pc e s' pc'" "pq_inv (sd_queue s)"
  shows "pq_inv (sd_queue s')" "ev_added e = {#}" "ev_removed e = {#}"
    "pq_jobs (sd_queue s) + pc_hand pc = pq_jobs (sd_queue s') + pc_hand pc' + ev_executed e"
    "sd_loops s' = sd_loops s" "sd_now s' = sd_now s"
proof -
  from assms have "pq_inv (sd_queue s') \<and> ev_added e = {#} \<and> ev_removed e = {#} \<and>
      pq_jobs (sd_queue s) + pc_hand pc = pq_jobs (sd_queue s') + pc_hand pc' + ev_executed e \<and>
      sd_loops s' = sd_loops s \<and> sd_now s' = sd_now s"
  proof (induction rule: run_step.induct)
    case (next_none s q)
    then show ?case using jq.next_keeps [of "sd_queue s" q None] by (auto simp: Next_def split: if_splits prod.splits)
  next
    case (next_some s q j)
    then show ?case using jq.next_keeps [of "sd_queue s" q "Some j"] by auto
  qed auto
  then show "pq_inv (sd_queue s')" "ev_added e = {#}" "ev_removed e = {#}"
    "pq_jobs (sd_queue s) + pc_hand pc = pq_jobs (sd_queue s') + pc_hand pc' + ev_executed e"
    "sd_loops s' = sd_loops s" "sd_now s' = sd_now s" by auto
qed

lemma sched_step_conserves:
  assumes "sched_step s e s'" "pq_inv (sd_queue s)"
  shows "pq_inv (sd_queue s') \<and> (\<exists>R. image_mset job_Uuid R = ev_removed e \<and>
    pq_jobs (sd_queue s) + in_hand (sd_loops s) + ev_added e =
    pq_jobs (sd_queue s') + in_hand (sd_loops s') + ev_executed e + R)"
  using assms
proof (induction rule: sched_step.induct)
  case (add s j)
  then show ?case using jq.add_inv [of "sd_queue s" j] jq.add_jobs [of "sd_queue s" j]
    by (cases "job_ScheduledTime j") (auto simp: AddJob_def)
next
  case (remove s i s' b)
  obtain q r where q: "Remove (sd_queue s) i = (q, r)" by fastforce
  have s: "sd_queue s' = q" "sd_loops s' = sd_loops s" "b = r"
    using remove q by (auto simp: RemoveJob_def split: if_splits)
  show ?case
  proof (cases r)
    case True
    with jq.remove_spec [OF remove.prems q] obtain j where j: "pq_inv q" "job_Uuid j = i"
      "pq_jobs (sd_queue s) = add_mset j (pq_jobs q)" by auto
    with True s show ?thesis by (auto intro: exI [of _ "{#j#}"])
  next
    case False
    with jq.remove_spec [OF remove.prems q] s show ?thesis by auto
  qed
next
  case (loop s k e s' pc)
  note r = run_step_conserves [OF loop.hyps(3) loop.prems]
  have "pq_jobs (sd_queue s) + in_hand (sd_loops s) + pc_hand (sd_loops s ! k) =
      pq_jobs (sd_queue s') + in_hand ((sd_loops s)[k := pc]) + ev_executed e + pc_hand (sd_loops s ! k)"
    using in_hand_upd [OF loop.hyps(2), of pc] r(4) by (simp add: add_ac)
  with r show ?case by auto
qed (auto simp: sched_op_defs)

lemma sched_run_conserves:
  assumes "sched_run s0 evs s" "s0 = New t"
  shows "pq_inv (sd_queue s) \<and> (\<exists>R. image_mset job_Uuid R = removed_ids evs \<and>
    added evs = pq_jobs (sd_queue s) + in_hand (sd_loops s) + executed evs + R)"
  using assms
proof (induction rule: sched_run.induct)
  case (run_nil s)
  then show ?case by (simp add: New_def jq.empty_inv jq.empty_jobs)
next
  case (run_snoc s evs s' e s'')
  then obtain R where R: "pq_inv (sd_queue s')" "image_mset job_Uuid R = removed_ids evs"
    "added evs = pq_jobs (sd_queue s') + in_hand (sd_loops s') + executed evs + R" by auto
  from sched_step_conserves [OF run_snoc.hyps(2) R(1)] obtain R' where R': "pq_inv (sd_queue s'')"
    "image_mset job_Uuid R' = ev_removed e"
    "pq_jobs (sd_queue s') + in_hand (sd_loops s') + ev_added e =
      pq_jobs (sd_queue s'') + in_hand (sd_loops s'') + ev_executed e + R'" by auto
  have "added (evs @ [e]) = pq_jobs (sd_queue s'') + in_hand (sd_loops s'') + executed (evs @ [e]) + (R + R')"
    using R(3) R'(3) by (simp add: add_ac)
  with R R' show ?case by (auto intro: exI [of _ "R + R'"])
qed

text \<open>
  C9. Whatever callers and goroutines do, and in whatever order, every job that was added is in
  exactly one place: still in the queue, in the hand of a goroutine, given to the executor, or
  removed by a call of \<open>RemoveJob\<close> with its id that returned true.
\<close>

theorem scheduler_conserves_jobs:
  assumes "sched_run (New t) evs s"
  shows "\<exists>R. image_mset job_Uuid R = removed_ids evs \<and>
    added evs = pq_jobs (sd_queue s) + in_hand (sd_loops s) + executed evs + R"
  using sched_run_conserves [OF assms refl] by blast

theorem scheduler_conserves_jobs_witness:
  "\<exists>R. image_mset job_Uuid R = removed_ids [EvAdd (demo_job ''a'' 5)] \<and>
    added [EvAdd (demo_job ''a'' 5)] = pq_jobs (sd_queue (AddJob (New 0) (demo_job ''a'' 5))) +
      in_hand (sd_loops (AddJob (New 0) (demo_job ''a'' 5))) + executed [EvAdd (demo_job ''a'' 5)] + R"
proof (rule scheduler_conserves_jobs)
  have "sched_run (New 0) ([] @ [EvAdd (demo_job ''a'' 5)]) (AddJob (New 0) (demo_job ''a'' 5))"
    by (rule run_snoc [OF run_nil]) (rule sched_step.add, simp add: New_def)
  then show "sched_run (New 0) [EvAdd (demo_job ''a'' 5)] (AddJob (New 0) (demo_job ''a'' 5))" by simp
qed

section \<open>No job starts early\<close>

abbreviation due_at :: "Job \<Rightarrow> instant" where
  "due_at j \<equiv> the (job_ScheduledTime j)"

text \<open>What the position of the goroutine says of the queue, when nobody else takes jobs out.\<close>

fun pc_ok :: "Scheduler \<Rightarrow> loop_pc \<Rightarrow> bool" where
  "pc_ok s (LPeeked j) \<longleftrightarrow> j \<in># pq_jobs (sd_queue s)"
| "pc_ok s (LSleeping d) \<longleftrightarrow> (\<exists>j \<in># pq_jobs (sd_queue s). due_at j \<le> d)"
| "pc_ok s LDue \<longleftrightarrow> (\<exists>j \<in># pq_jobs (sd_queue s). due_at j \<le> sd_now s)"
| "pc_ok s (LExecuting j) \<longleftrightarrow> job_ScheduledTime j \<noteq> None \<and> due_at j \<le> sd_now s"
| "pc_ok s _ \<longleftrightarrow> True"

lemma pc_ok_mono:
  "pc_ok s pc \<Longrightarrow> pq_jobs (sd_queue s) \<subseteq># pq_jobs (sd_queue s') \<Longrightarrow> sd_now s \<le> sd_now s' \<Longrightarrow> pc_ok s' pc"
  by (cases pc) (auto dest: mset_subset_eqD intro: order_trans)

lemma run_step_pc_ok:
  assumes "run_step s pc e s' pc'" "pq_inv (sd_queue s)" "pc_ok s pc"
    "\<forall>j \<in># pq_jobs (sd_queue s). due_at j - sd_now s \<le> 2 ^ 63 - 1"
  shows "pc_ok s' pc' \<and> (\<forall>j t. e = EvExec j t \<longrightarrow> job_ScheduledTime j \<noteq> None \<and> due_at j \<le> t)"
  using assms
proof (induction rule: run_step.induct)
  case (peek_some s j)
  then show ?case using jq.next_keeps [of "sd_queue s"] jq.peek_next [of "sd_queue s"]
    by (cases "Next (sd_queue s)") auto
next
  case (sleep j t s)
  then show ?case by (auto simp: time_Sub_def intro!: bexI [of _ j])
next
  case (due j t s)
  then show ?case by (auto intro!: bexI [of _ j])
next
  case (next_some s q j)
  have *: "pq_jobs (sd_queue s) = add_mset j (pq_jobs q)" "\<forall>j' \<in># pq_jobs (sd_queue s). due_at j \<le> due_at j'"
    using jq.next_earliest [OF next_some.prems(1) next_some.hyps] by auto
  with next_some jq.scheduled [of "sd_queue s" j] show ?case by fastforce
qed (auto intro: order_trans)

lemma sched_step_loops:
  "sched_step s e s' \<Longrightarrow> length (sd_loops s') \<le> length (sd_loops s) + (if e = EvStart then 1 else 0) \<and>
    sd_now s \<le> sd_now s'"
proof (induction rule: sched_step.induct)
  case (loop s k e s' pc)
  from loop.hyps(3) show ?case by (cases rule: run_step.cases) auto
qed (auto simp: sched_op_defs split: option.splits if_splits prod.splits)

text \<open>Steps of the callers keep what the goroutine knows, unless a job is removed.\<close>

lemma sched_step_pc_ok:
  assumes "sched_step s e s'" "pq_inv (sd_queue s)" "ev_removed e = {#}" "length (sd_loops s') \<le> 1"
    "\<forall>pc \<in> set (sd_loops s). pc_ok s pc" "\<forall>j \<in># pq_jobs (sd_queue s). due_at j - sd_now s \<le> 2 ^ 63 - 1"
  shows "(\<forall>pc \<in> set (sd_loops s'). pc_ok s' pc) \<and>
    (\<forall>j t. e = EvExec j t \<longrightarrow> job_ScheduledTime j \<noteq> None \<and> due_at j \<le> t)"
  using assms
proof (induction rule: sched_step.induct)
  case (loop s k e s' pc)
  then have k: "sd_loops s = [sd_loops s ! k]" "k = 0" by (auto simp: length_Suc_conv le_Suc_eq)
  have "pc_ok s (sd_loops s ! k)" using loop by auto
  from run_step_pc_ok [OF loop.hyps(3) loop.prems(1) this loop.prems(5)]
  have "pc_ok s' pc" "\<forall>j t. e = EvExec j t \<longrightarrow> job_ScheduledTime j \<noteq> None \<and> due_at j \<le> t" by auto
  moreover have "pc_ok (s'\<lparr>sd_loops := x\<rparr>) pc = pc_ok s' pc" for x by (cases pc) auto
  moreover have "(sd_loops s)[k := pc] = [pc]" by (subst k(1)) (simp add: k(2))
  ultimately show ?case by simp
next
  case (add s j)
  have "pq_jobs (sd_queue s) \<subseteq># pq_jobs (sd_queue (AddJob s j)) \<and> sd_now (AddJob s j) = sd_now s
      \<and> sd_loops (AddJob s j) = sd_loops s"
    using jq.add_jobs [of "sd_queue s" j] add.prems by (cases "job_ScheduledTime j") (auto simp: AddJob_def)
  with add.prems show ?case using pc_ok_mono [of s _ "AddJob s j"] by auto
next
  case (remove s i s' b)
  then have "\<not> b" by (simp split: if_splits)
  then have "sd_queue s' = sd_queue s \<and> sd_loops s' = sd_loops s \<and> sd_now s' = sd_now s"
    using remove jq.remove_spec [of "sd_queue s" i] by (auto simp: RemoveJob_def split: if_splits prod.splits)
  with remove.prems show ?case using pc_ok_mono [of s _ s'] by auto
next
  case (start s)
  with pc_ok_mono [of s _ "Start s"] show ?case by (auto simp: Start_def)
next
  case (stop s)
  with pc_ok_mono [of s _ "Stop s"] show ?case by (auto simp: Stop_def)
next
  case (close_chan s)
  with pc_ok_mono [of s _ "Stop_close s"] show ?case by (auto simp: Stop_close_def)
next
  case (send s)
  with pc_ok_mono [of s _ "send_signal s"] show ?case by (auto simp: send_signal_def)
next
  case (tick s t)
  with pc_ok_mono [of s _ "s\<lparr>sd_now := t\<rparr>"] show ?case by auto
qed

lemma sched_run_due:
  assumes "sched_run s0 evs s" "s0 = New t0" "starts evs \<le> 1" "removed_ids evs = {#}"
    "\<forall>j \<in># added evs. due_at j - t0 \<le> 2 ^ 63 - 1"
  shows "length (sd_loops s) \<le> starts evs \<and> t0 \<le> sd_now s \<and> (\<forall>pc \<in> set (sd_loops s). pc_ok s pc) \<and>
    (\<forall>j t. EvExec j t \<in> set evs \<longrightarrow> job_ScheduledTime j \<noteq> None \<and> due_at j \<le> t)"
  using assms
proof (induction rule: sched_run.induct)
  case (run_nil s)
  then show ?case by (simp add: New_def)
next
  case (run_snoc s evs s' e s'')
  then have IH: "length (sd_loops s') \<le> starts evs" "t0 \<le> sd_now s'" "\<forall>pc \<in> set (sd_loops s'). pc_ok s' pc"
    "\<forall>j t. EvExec j t \<in> set evs \<longrightarrow> job_ScheduledTime j \<noteq> None \<and> due_at j \<le> t" by auto
  have l: "length (sd_loops s'') \<le> starts (evs @ [e])" "sd_now s' \<le> sd_now s''"
    using sched_step_loops [OF run_snoc.hyps(2)] IH(1) by auto
  from sched_run_conserves [OF run_snoc.hyps(1) run_snoc.prems(1)]
  obtain R where c: "pq_inv (sd_queue s')"
    "added evs = pq_jobs (sd_queue s') + in_hand (sd_loops s') + executed evs + R" by blast
  have "due_at j - sd_now s' \<le> 2 ^ 63 - 1" if "j \<in># pq_jobs (sd_queue s')" for j
  proof -
    have "j \<in># added (evs @ [e])" using that c(2) by simp
    with run_snoc.prems(4) IH(2) show ?thesis by fastforce
  qed
  then have "(\<forall>pc \<in> set (sd_loops s''). pc_ok s'' pc) \<and>
      (\<forall>j t. e = EvExec j t \<longrightarrow> job_ScheduledTime j \<noteq> None \<and> due_at j \<le> t)"
    using run_snoc.hyps(2) c(1) IH(3) l(1) run_snoc.prems(2,3) by (intro sched_step_pc_ok) auto
  with IH l show ?case by auto
qed

section \<open>Executing the model\<close>

text \<open>
  A function that takes the steps a list of moves asks for; the \<open>select\<close> case of the goroutine is
  part of a move.
\<close>

datatype choice = CGo | CSignal | CStop

datatype move =
    MStart
  | MStop
  | MClose
  | MAdd Job
  | MRemove string
  | MSend
  | MTick instant
  | MLoop nat choice

fun run_move :: "Scheduler \<Rightarrow> loop_pc \<Rightarrow> choice \<Rightarrow> (event \<times> Scheduler \<times> loop_pc) option" where
  "run_move s LTop c = Some (EvTau, s, if stopped s then LReturned else LPeek)"
| "run_move s LPeek c = Some (EvTau, s, case Peek (sd_queue s) of None \<Rightarrow> LIdle | Some j \<Rightarrow> LPeeked j)"
| "run_move s (LPeeked j) c =
     (case job_ScheduledTime j of
        None \<Rightarrow> None
      | Some t \<Rightarrow> Some (EvTau, s, if sd_now s < t then LSleeping (sd_now s + time_Sub t (sd_now s)) else LDue))"
| "run_move s LDue c =
     (case Next (sd_queue s) of
        (q, None) \<Rightarrow> Some (EvTau, s\<lparr>sd_queue := q\<rparr>, LTop)
      | (q, Some j) \<Rightarrow> Some (EvTau, s\<lparr>sd_queue := q\<rparr>, LExecuting j))"
| "run_move s (LExecuting j) c = Some (EvExec j (sd_now s), s, LTop)"
| "run_move s LReturned c = None"
| "run_move s LIdle CGo = None"
| "run_move s (LSleeping d) CGo = (if d \<le> sd_now s then Some (EvTau, s, LDue) else None)"
| "run_move s pc CSignal = (if sd_newJobSignal s then Some (EvTau, s\<lparr>sd_newJobSignal := False\<rparr>, LTop) else None)"
| "run_move s pc CStop = (if stopped s then Some (EvTau, s, LReturned) else None)"

fun sched_move :: "Scheduler \<Rightarrow> move \<Rightarrow> (event \<times> Scheduler) option" where
  "sched_move s MStart = Some (EvStart, Start s)"
| "sched_move s MStop = Some (EvStop, Stop s)"
| "sched_move s MClose = (if 0 < sd_closing s then Some (EvTau, Stop_close s) else None)"
| "sched_move s (MAdd j) = Some (EvAdd j, AddJob s j)"
| "sched_move s (MRemove i) = (let (s', b) = RemoveJob s i in Some (EvRemove i b, s'))"
| "sched_move s MSend = (if 0 < sd_sending s then Some (EvTau, send_signal s) else None)"
| "sched_move s (MTick t) = (if sd_now s \<le> t then Some (EvTau, s\<lparr>sd_now := t\<rparr>) else None)"
| "sched_move s (MLoop k c) =
     (if k < length (sd_loops s) then
        (case run_move s (sd_loops s ! k) c of
           None \<Rightarrow> None
         | Some (e, s', pc) \<Rightarrow> Some (e, s'\<lparr>sd_loops := (sd_loops s)[k := pc]\<rparr>))
      else None)"

fun sched_moves :: "Scheduler \<Rightarrow> move list \<Rightarrow> (event list \<times> Scheduler) option" where
  "sched_moves s [] = Some ([], s)"
| "sched_moves s (m # ms) =
     (if sd_panicked s then None
      else (case sched_move s m of
              None \<Rightarrow> None
            | Some (e, s') \<Rightarrow> map_option (\<lambda>(evs, s''). (e # evs, s'')) (sched_moves s' ms)))"

lemma run_move_sound: "run_move s pc c = Some (e, s', pc') \<Longrightarrow> run_step s pc e s' pc'"
  by (induction s pc c rule: run_move.induct)
    (auto intro: run_step.intros split: if_splits option.splits prod.splits)

lemma run_move_complete: "run_step s pc e s' pc' \<Longrightarrow> \<exists>c. run_move s pc c = Some (e, s', pc')"
  by (induction rule: run_step.induct) (auto intro: exI [of _ CGo] exI [of _ CSignal] exI [of _ CStop])

lemma sched_move_sound: "\<not> sd_panicked s \<Longrightarrow> sched_move s m = Some (e, s') \<Longrightarrow> sched_step s e s'"
  by (cases m) (auto intro: sched_step.intros run_move_sound split: if_splits option.splits prod.splits)

lemma sched_run_cons: "sched_run s' evs s'' \<Longrightarrow> sched_step s e s' \<Longrightarrow> sched_run s (e # evs) s''"
proof (induction rule: sched_run.induct)
  case (run_nil s')
  from run_snoc [OF sched_run.run_nil run_nil] show ?case by simp
next
  case (run_snoc s1 evs s2 e' s3)
  from sched_run.run_snoc [OF run_snoc.IH [OF run_snoc.prems] run_snoc.hyps(2)] show ?case by simp
qed

lemma sched_moves_sound: "sched_moves s ms = Some (evs, s') \<Longrightarrow> sched_run s evs s'"
proof (induction ms arbitrary: s evs)
  case Nil
  then show ?case by (simp add: run_nil)
next
  case (Cons m ms)
  then obtain e s1 evs1 where "\<not> sd_panicked s" "sched_move s m = Some (e, s1)"
    "sched_moves s1 ms = Some (evs1, s')" "evs = e # evs1"
    by (auto split: if_splits option.splits)
  with Cons.IH show ?case by (blast intro: sched_run_cons sched_move_sound)
qed

text \<open>A fact that the execution of moves shows of the run it takes.\<close>

lemma sched_moves_run:
  assumes "case sched_moves (New t) ms of None \<Rightarrow> False | Some (evs, s) \<Rightarrow> P evs s"
  obtains evs s where "sched_run (New t) evs s" "P evs s"
proof (cases "sched_moves (New t) ms")
  case (Some r)
  obtain evs s where "r = (evs, s)" by (cases r)
  with Some assms sched_moves_sound [of "New t" ms evs s] that [of evs s] show ?thesis by simp
qed (use assms in simp)

text \<open>Whether an event is an execution of which \<open>P\<close> holds.\<close>

fun executes :: "(Job \<Rightarrow> instant \<Rightarrow> bool) \<Rightarrow> event \<Rightarrow> bool" where
  "executes P (EvExec j t) = P j t"
| "executes P _ = False"

lemma executesD: "list_ex (executes P) evs \<Longrightarrow> \<exists>j t. EvExec j t \<in> set evs \<and> P j t"
  by (induction evs) (auto elim!: executes.elims)

section \<open>When jobs run\<close>

text \<open>
  C21. As long as the scheduler is started at most once and no job is removed, every job is given
  to the executor at or after its scheduled time. (Times are less than \<open>2 ^ 63\<close> nanoseconds, about
  292 years, ahead of the creation of the scheduler: a difference above is cut off.)
\<close>

theorem jobs_run_when_due:
  assumes "sched_run (New t0) evs s" "starts evs \<le> 1" "removed_ids evs = {#}"
    "\<forall>j \<in># added evs. the (job_ScheduledTime j) - t0 \<le> 2 ^ 63 - 1" "EvExec j t \<in> set evs"
  shows "\<exists>due. job_ScheduledTime j = Some due \<and> due \<le> t"
  using sched_run_due [OF assms(1) refl assms(2-4)] assms(5) by fastforce

text \<open>A scheduler that sleeps until a job at time 5, runs it and finds the queue empty.\<close>

definition demo_moves :: "move list" where
  "demo_moves = [MStart, MAdd (demo_job ''a'' 5), MLoop 0 CGo, MLoop 0 CGo, MLoop 0 CGo, MSend, MTick 5,
     MLoop 0 CGo, MLoop 0 CGo, MLoop 0 CGo, MLoop 0 CGo, MLoop 0 CGo]"

theorem jobs_run_when_due_witness:
  "\<exists>evs s j t. sched_run (New 0) evs s \<and> EvExec j t \<in> set evs \<and> (\<exists>due. job_ScheduledTime j = Some due \<and> due \<le> t)"
proof -
  have "case sched_moves (New 0) demo_moves of None \<Rightarrow> False | Some (evs, s) \<Rightarrow>
      (starts evs \<le> 1 \<and> removed_ids evs = {#}) \<and>
      (\<forall>j \<in># added evs. the (job_ScheduledTime j) - 0 \<le> 2 ^ 63 - 1) \<and>
      list_ex (executes (\<lambda>j t. True)) evs"
    by code_simp
  then obtain evs s where r: "sched_run (New 0) evs s" "starts evs \<le> 1" "removed_ids evs = {#}"
    "\<forall>j \<in># added evs. the (job_ScheduledTime j) - 0 \<le> 2 ^ 63 - 1"
    "list_ex (executes (\<lambda>j t. True)) evs"
    by (rule sched_moves_run) blast
  from r(5) obtain j t where "EvExec j t \<in> set evs" using executesD by blast
  with jobs_run_when_due [OF r(1-4)] r(1) show ?thesis by blast
qed

text \<open>
  Without the hypothesis on removals the property fails: while the goroutine sleeps for the
  job ''a'' due at 5, a caller removes it; if the timer case of the \<open>select\<close> is taken, at time 5,
  before or instead of the signal that \<open>RemoveJob\<close> sends, the goroutine takes the next job of the
  queue and executes it, 95 time units early.
\<close>

theorem removal_can_run_a_job_early:
  "\<exists>evs s j. sched_run (New 0) evs s \<and> starts evs = 1 \<and> removed_ids evs = {#''a''#} \<and>
     job_Uuid j = ''b'' \<and> job_ScheduledTime j = Some 100 \<and> EvExec j 5 \<in> set evs"
proof -
  let ?ms = "[MStart, MAdd (demo_job ''a'' 5), MAdd (demo_job ''b'' 100), MLoop 0 CGo, MLoop 0 CGo, MLoop 0 CGo,
    MTick 5, MRemove ''a'', MLoop 0 CGo, MLoop 0 CGo, MLoop 0 CGo]"
  have "case sched_moves (New 0) ?ms of None \<Rightarrow> False | Some (evs, s) \<Rightarrow>
      (starts evs = 1 \<and> removed_ids evs = {#''a''#}) \<and>
      list_ex (executes (\<lambda>j t. job_Uuid j = ''b'' \<and> job_ScheduledTime j = Some 100 \<and> t = 5)) evs"
    by code_simp
  then obtain evs s where "sched_run (New 0) evs s" "starts evs = 1" "removed_ids evs = {#''a''#}"
    "list_ex (executes (\<lambda>j t. job_Uuid j = ''b'' \<and> job_ScheduledTime j = Some 100 \<and> t = 5)) evs"
    by (rule sched_moves_run) blast
  with executesD [OF this(4)] show ?thesis by metis
qed

section \<open>No wake-up is lost\<close>

text \<open>A signal is in the channel, or a caller is about to send one.\<close>

definition signalled :: "Scheduler \<Rightarrow> bool" where
  "signalled s \<longleftrightarrow> sd_newJobSignal s \<or> 0 < sd_sending s"

fun wake_ok :: "Scheduler \<Rightarrow> loop_pc \<Rightarrow> bool" where
  "wake_ok s LIdle \<longleftrightarrow> signalled s \<or> pq_jobs (sd_queue s) = {#}"
| "wake_ok s (LPeeked j) \<longleftrightarrow> signalled s \<or> (\<forall>j' \<in># pq_jobs (sd_queue s). due_at j \<le> due_at j')"
| "wake_ok s (LSleeping d) \<longleftrightarrow> signalled s \<or> (\<forall>j' \<in># pq_jobs (sd_queue s). d \<le> due_at j')"
| "wake_ok s _ \<longleftrightarrow> True"

lemma wake_ok_mono:
  "wake_ok s pc \<Longrightarrow> signalled s' \<or> (signalled s \<longrightarrow> signalled s') \<and> sd_queue s' = sd_queue s \<Longrightarrow> wake_ok s' pc"
  by (cases pc) auto

lemma run_step_wake_ok:
  assumes "run_step s pc e s' pc'" "pq_inv (sd_queue s)" "wake_ok s pc"
  shows "wake_ok s' pc'"
  using assms
proof (induction rule: run_step.induct)
  case (peek_none s)
  then show ?case by (auto simp: Peek_def split: if_splits)
next
  case (peek_some s j)
  then show ?case using jq.peek_earliest by auto
next
  case (sleep j t s)
  then show ?case by (fastforce simp: time_Sub_def)
qed auto

lemma sched_step_wake_ok:
  assumes "sched_step s e s'" "pq_inv (sd_queue s)" "length (sd_loops s') \<le> 1"
    "\<forall>pc \<in> set (sd_loops s). wake_ok s pc"
  shows "\<forall>pc \<in> set (sd_loops s'). wake_ok s' pc"
  using assms
proof (induction rule: sched_step.induct)
  case (loop s k e s' pc)
  then have k: "sd_loops s = [sd_loops s ! k]" "k = 0" by (auto simp: length_Suc_conv le_Suc_eq)
  have "wake_ok s (sd_loops s ! k)" using loop by auto
  from run_step_wake_ok [OF loop.hyps(3) loop.prems(1) this]
  have "wake_ok (s'\<lparr>sd_loops := x\<rparr>) pc" for x by (rule wake_ok_mono) (simp add: signalled_def)
  moreover have "(sd_loops s)[k := pc] = [pc]" by (subst k(1)) (simp add: k(2))
  ultimately show ?case by simp
next
  case (add s j)
  have "wake_ok (AddJob s j) pc" if "wake_ok s pc" for pc
    by (rule wake_ok_mono [OF that]) (auto simp: AddJob_def signalled_def split: option.splits)
  with add.prems show ?case by (auto simp: AddJob_def split: option.splits)
next
  case (remove s i s' b)
  then have "signalled s' \<or> (signalled s \<longrightarrow> signalled s') \<and> sd_queue s' = sd_queue s" "sd_loops s' = sd_loops s"
    using jq.remove_spec [of "sd_queue s" i]
    by (auto simp: RemoveJob_def signalled_def split: if_splits prod.splits)
  with remove.prems wake_ok_mono [of s _ s'] show ?case by auto
next
  case (start s)
  with wake_ok_mono [of s _ "Start s"] show ?case by (auto simp: Start_def signalled_def)
next
  case (stop s)
  with wake_ok_mono [of s _ "Stop s"] show ?case by (auto simp: Stop_def signalled_def)
next
  case (close_chan s)
  with wake_ok_mono [of s _ "Stop_close s"] show ?case by (auto simp: Stop_close_def signalled_def)
next
  case (send s)
  with wake_ok_mono [of s _ "send_signal s"] show ?case by (auto simp: send_signal_def signalled_def)
next
  case (tick s t)
  with wake_ok_mono [of s _ "s\<lparr>sd_now := t\<rparr>"] show ?case by (auto simp: signalled_def)
qed

lemma sched_run_wake_ok:
  assumes "sched_run s0 evs s" "s0 = New t0" "starts evs \<le> 1"
  shows "length (sd_loops s) \<le> starts evs \<and> (\<forall>pc \<in> set (sd_loops s). wake_ok s pc)"
  using assms
proof (induction rule: sched_run.induct)
  case (run_nil s)
  then show ?case by (simp add: New_def)
next
  case (run_snoc s evs s' e s'')
  then have IH: "length (sd_loops s') \<le> starts evs" "\<forall>pc \<in> set (sd_loops s'). wake_ok s' pc" by auto
  have "length (sd_loops s'') \<le> starts (evs @ [e])" using sched_step_loops [OF run_snoc.hyps(2)] IH(1) by auto
  moreover from this have "\<forall>pc \<in> set (sd_loops s''). wake_ok s'' pc"
    using sched_run_conserves [OF run_snoc.hyps(1) run_snoc.prems(1)] run_snoc IH(2)
    by (intro sched_step_wake_ok [OF run_snoc.hyps(2)]) auto
  ultimately show ?case by simp
qed


fun idle_pc :: "loop_pc \<Rightarrow> bool" where
  "idle_pc LIdle = True"
| "idle_pc _ = False"


section \<open>Starting and stopping\<close>

text \<open>Every open call of \<open>Stop\<close>, the closed channel and the running flag each need a \<open>Start\<close> of their own.\<close>

definition stop_budget :: "Scheduler \<Rightarrow> nat" where
  "stop_budget s = sd_closing s + (if sd_stopSignal s then 1 else 0) + (if sd_running s then 1 else 0)"

lemma sched_step_budget:
  "sched_step s e s' \<Longrightarrow> stop_budget s \<le> n \<Longrightarrow> (sd_panicked s \<longrightarrow> 2 \<le> n) \<Longrightarrow>
    stop_budget s' \<le> n + (if e = EvStart then 1 else 0) \<and> (sd_panicked s' \<longrightarrow> 2 \<le> n + (if e = EvStart then 1 else 0))"
proof (induction rule: sched_step.induct)
  case (loop s k e s' pc)
  from loop.hyps(3) loop.hyps(1) loop.prems show ?case by (cases rule: run_step.cases) (auto simp: stop_budget_def)
qed (auto simp: stop_budget_def sched_op_defs split: option.splits if_splits prod.splits)

lemma sched_run_budget:
  assumes "sched_run s0 evs s" "s0 = New t0"
  shows "stop_budget s \<le> starts evs \<and> (sd_panicked s \<longrightarrow> 2 \<le> starts evs)"
  using assms
proof (induction rule: sched_run.induct)
  case (run_nil s)
  then show ?case by (simp add: New_def stop_budget_def)
next
  case (run_snoc s evs s' e s'')
  with sched_step_budget [OF run_snoc.hyps(2), of "starts evs"] show ?case by simp
qed

text \<open>
  A scheduler that is started at most once never panics, however often \<open>Stop\<close> is called; a
  scheduler that is stopped, started again and stopped again closes its channel twice and panics.
\<close>

theorem stop_panics_only_after_restart:
  "(\<forall>evs s. sched_run (New t0) evs s \<longrightarrow> starts evs \<le> 1 \<longrightarrow> \<not> sd_panicked s) \<and>
   (\<exists>evs s. sched_run (New t0) evs s \<and> starts evs = 2 \<and> sd_panicked s)"
proof -
  have "case sched_moves (New t0) [MStart, MStop, MClose, MStart, MStop, MClose] of
      None \<Rightarrow> False | Some (evs, s) \<Rightarrow> starts evs = 2 \<and> sd_panicked s"
    by (simp add: New_def Start_def Stop_def Stop_close_def starts_def)
  then obtain evs s where "sched_run (New t0) evs s" "starts evs = 2 \<and> sd_panicked s"
    by (rule sched_moves_run)
  moreover have "\<not> sd_panicked s" if "sched_run (New t0) evs s" "starts evs \<le> 1" for evs s
    using sched_run_budget [OF that(1) refl] that(2) by auto
  ultimately show ?thesis by blast
qed

theorem stop_panics_only_after_restart_witness:
  "\<not> sd_panicked (Stop (Start (New 0)))"
proof -
  have "case sched_moves (New 0) [MStart, MStop] of
      None \<Rightarrow> False | Some (evs, s) \<Rightarrow> starts evs \<le> 1 \<and> s = Stop (Start (New 0))"
    by (simp add: New_def starts_def Start_def)
  then obtain evs s where "sched_run (New 0) evs s" "starts evs \<le> 1 \<and> s = Stop (Start (New 0))"
    by (rule sched_moves_run)
  with stop_panics_only_after_restart [of 0] show ?thesis by blast
qed

end
