(* ===== verification/Gpu.thy ===== *)
theory Gpu
  imports Prelude
begin

text \<open>
  GPU allocation, \<open>internal/joblet/gpu/\<close>: the manager (\<open>manager.go\<close>, \<open>types.go\<close>), the
  allocation strategies (\<open>allocation_strategy.go\<close>) and the simulated inventory
  (\<open>simulated.go\<close>). The strategies share one contract, the locale \<open>gpu_strategy\<close>, and the
  manager's safety is proved from it: a GPU never serves two jobs, a quarantined GPU serves none.

  The map of GPUs holds pointers that the lists of the manager share; here a write through such a
  pointer is a write at the key of the map, which is the GPU's index. The commands \<open>nvidia-smi\<close>
  are arguments: the outcome of the query of a GPU's memory is the function \<open>verify\<close>; the
  outcome of the reset is only logged.
\<close>

section \<open>Types\<close>

text \<open>The errors of \<open>queryMemoryUsedMB\<close>, and the reasons of a quarantine, from which the code formats
  its messages.\<close>

datatype verify_error = QueryFailed string | ParseFailed string

datatype quarantine_reason = NoReason | Unverified verify_error | StillInUse int

record GPU =
  g_Index :: int
  g_UUID :: string
  g_Name :: string
  g_MemoryMB :: int
  g_InUse :: bool
  g_JobUUID :: string
  g_AllocatedAt :: "instant option"
  g_IsMIG :: bool
  g_MIGUUID :: string
  g_CapMinors :: "int list"
  g_Quarantined :: bool
  g_QuarantineReason :: quarantine_reason

record GPUAllocation =
  ga_JobUUID :: string
  ga_GPUIndices :: "int list"
  ga_MIGUUIDs :: "string list"
  ga_GPUCount :: int
  ga_GPUMemoryMB :: int
  ga_AllocatedAt :: instant

datatype gpu_error =
    GPUDisabled
  | InvalidGPUCount int
  | NotEnoughGPUs int int
  | GPUNotFound int
  | DiscoveryFailed string

section \<open>Strategies\<close>

datatype strategy = FirstFitStrategy | PackStrategy | SpreadStrategy | BestFitStrategy

definition strategy_Name :: "strategy \<Rightarrow> string" where
  "strategy_Name st =
     (case st of FirstFitStrategy \<Rightarrow> ''first-fit'' | PackStrategy \<Rightarrow> ''pack''
      | SpreadStrategy \<Rightarrow> ''spread'' | BestFitStrategy \<Rightarrow> ''best-fit'')"

definition GetAllocationStrategy :: "string \<Rightarrow> strategy" where
  "GetAllocationStrategy s =
     (if s = ''pack'' then PackStrategy
      else if s = ''spread'' then SpreadStrategy
      else if s = ''best-fit'' then BestFitStrategy
      else FirstFitStrategy)"

definition not_enough :: "GPU list \<Rightarrow> int \<Rightarrow> bool" where
  "not_enough availableGPUs gpuCount \<longleftrightarrow> int (length availableGPUs) < gpuCount"

abbreviation err_not_enough :: "GPU list \<Rightarrow> int \<Rightarrow> (gpu_error, GPU list) result" where
  "err_not_enough availableGPUs gpuCount \<equiv> Inl (NotEnoughGPUs gpuCount (int (length availableGPUs)))"

definition FirstFit_SelectGPUs :: "GPU list \<Rightarrow> int \<Rightarrow> int \<Rightarrow> (gpu_error, GPU list) result" where
  "FirstFit_SelectGPUs availableGPUs gpuCount gpuMemoryMB =
     (if not_enough availableGPUs gpuCount then err_not_enough availableGPUs gpuCount
      else Inr (take (nat gpuCount) availableGPUs))"

definition Pack_SelectGPUs :: "GPU list \<Rightarrow> int \<Rightarrow> int \<Rightarrow> (gpu_error, GPU list) result" where
  "Pack_SelectGPUs availableGPUs gpuCount gpuMemoryMB =
     (if not_enough availableGPUs gpuCount then err_not_enough availableGPUs gpuCount
      else (let sortedGPUs = sort_slice (\<lambda>a b. g_Index a < g_Index b) availableGPUs
            in Inr (take (nat gpuCount) sortedGPUs)))"

text \<open>
  The loop over \<open>i * step\<close>, and the loop that fills the remaining slots from position
  \<open>len(selected)\<close> on.
\<close>

definition spread_pick :: "GPU list \<Rightarrow> nat \<Rightarrow> nat \<Rightarrow> GPU list" where
  "spread_pick sortedGPUs n step =
     map (\<lambda>i. sortedGPUs ! (i * step)) (filter (\<lambda>i. i * step < length sortedGPUs) [0..<n])"

definition spread_fill :: "GPU list \<Rightarrow> nat \<Rightarrow> GPU list \<Rightarrow> GPU list" where
  "spread_fill sortedGPUs n selected =
     selected @ map (\<lambda>i. sortedGPUs ! i) [length selected..<min n (length sortedGPUs)]"

definition Spread_SelectGPUs :: "GPU list \<Rightarrow> int \<Rightarrow> int \<Rightarrow> (gpu_error, GPU list) result" where
  "Spread_SelectGPUs availableGPUs gpuCount gpuMemoryMB =
     (if not_enough availableGPUs gpuCount then err_not_enough availableGPUs gpuCount
      else (let sortedGPUs = sort_slice (\<lambda>a b. g_Index a > g_Index b) availableGPUs in
            if gpuCount > 1 \<and> int (length sortedGPUs) \<ge> gpuCount * 2 then
              (let step = length sortedGPUs div nat gpuCount
               in Inr (spread_fill sortedGPUs (nat gpuCount) (spread_pick sortedGPUs (nat gpuCount) step)))
            else Inr (take (nat gpuCount) sortedGPUs)))"

definition best_fit_less :: "int \<Rightarrow> GPU \<Rightarrow> GPU \<Rightarrow> bool" where
  "best_fit_less gpuMemoryMB a b =
     (if gpuMemoryMB > 0 then
        (let wasteI = int64 (g_MemoryMB a - gpuMemoryMB); wasteJ = int64 (g_MemoryMB b - gpuMemoryMB) in
         if wasteI \<ge> 0 \<and> wasteJ \<ge> 0 then wasteI < wasteJ
         else if wasteI \<ge> 0 then True
         else if wasteJ \<ge> 0 then False
         else g_MemoryMB a > g_MemoryMB b)
      else g_MemoryMB a < g_MemoryMB b)"

definition BestFit_SelectGPUs :: "GPU list \<Rightarrow> int \<Rightarrow> int \<Rightarrow> (gpu_error, GPU list) result" where
  "BestFit_SelectGPUs availableGPUs gpuCount gpuMemoryMB =
     (if not_enough availableGPUs gpuCount then err_not_enough availableGPUs gpuCount
      else (let sortedGPUs = sort_slice (best_fit_less gpuMemoryMB) availableGPUs
            in Inr (take (nat gpuCount) sortedGPUs)))"

definition SelectGPUs :: "strategy \<Rightarrow> GPU list \<Rightarrow> int \<Rightarrow> int \<Rightarrow> (gpu_error, GPU list) result" where
  "SelectGPUs st =
     (case st of FirstFitStrategy \<Rightarrow> FirstFit_SelectGPUs | PackStrategy \<Rightarrow> Pack_SelectGPUs
      | SpreadStrategy \<Rightarrow> Spread_SelectGPUs | BestFitStrategy \<Rightarrow> BestFit_SelectGPUs)"

section \<open>The manager\<close>

record GPUConfig =
  gc_Enabled :: bool
  gc_AllocationStrategy :: string
  gc_ScrubPolicy :: string

record Manager =
  gm_enabled :: bool
  gm_gpus :: "int \<rightharpoonup> GPU"
  gm_allocations :: "string \<rightharpoonup> GPUAllocation"
  gm_allocationStrategy :: strategy
  gm_ScrubPolicy :: string

definition scrubResidualThresholdMB :: int where
  "scrubResidualThresholdMB = 64"

definition NewManager :: "GPUConfig \<Rightarrow> Manager" where
  "NewManager cfg =
     \<lparr>gm_enabled = gc_Enabled cfg, gm_gpus = Map.empty, gm_allocations = Map.empty,
      gm_allocationStrategy = GetAllocationStrategy (gc_AllocationStrategy cfg),
      gm_ScrubPolicy = gc_ScrubPolicy cfg\<rparr>"

definition Initialize :: "Manager \<Rightarrow> (string, GPU list) result \<Rightarrow> Manager \<times> (gpu_error, unit) result" where
  "Initialize m discovered =
     (if \<not> gm_enabled m then (m, Inr ())
      else (case discovered of
              Inl err \<Rightarrow> (m, Inl (DiscoveryFailed err))
            | Inr gpus \<Rightarrow> (m\<lparr>gm_gpus := fold (\<lambda>g gs. gs(g_Index g \<mapsto> g)) gpus (gm_gpus m)\<rparr>, Inr ())))"

definition GetAvailableGPUs :: "int list \<Rightarrow> Manager \<Rightarrow> GPU list" where
  "GetAvailableGPUs ks m =
     (if \<not> gm_enabled m then []
      else filter (\<lambda>g. \<not> g_InUse g \<and> \<not> g_Quarantined g) (range_vals ks (gm_gpus m)))"

definition GetAllGPUs :: "int list \<Rightarrow> Manager \<Rightarrow> GPU list" where
  "GetAllGPUs ks m = (if \<not> gm_enabled m then [] else range_vals ks (gm_gpus m))"

text \<open>The loop that collects the candidates, and the sort after it.\<close>

definition eligible :: "int \<Rightarrow> GPU \<Rightarrow> bool" where
  "eligible gpuMemoryMB g \<longleftrightarrow>
     \<not> g_InUse g \<and> \<not> g_Quarantined g \<and> \<not> (gpuMemoryMB > 0 \<and> g_MemoryMB g < gpuMemoryMB)"

definition candidates :: "int list \<Rightarrow> Manager \<Rightarrow> int \<Rightarrow> GPU list" where
  "candidates ks m gpuMemoryMB =
     sort_slice (\<lambda>a b. g_Index a < g_Index b) (filter (eligible gpuMemoryMB) (range_vals ks (gm_gpus m)))"

definition mark_allocated :: "string \<Rightarrow> instant \<Rightarrow> GPU \<Rightarrow> GPU" where
  "mark_allocated jobID now g = g\<lparr>g_InUse := True, g_JobUUID := jobID, g_AllocatedAt := Some now\<rparr>"

definition AllocateGPUs ::
  "int list \<Rightarrow> instant \<Rightarrow> Manager \<Rightarrow> string \<Rightarrow> int \<Rightarrow> int \<Rightarrow> Manager \<times> (gpu_error, GPUAllocation) result" where
  "AllocateGPUs ks now m jobID gpuCount gpuMemoryMB =
     (if \<not> gm_enabled m then (m, Inl GPUDisabled)
      else if gpuCount \<le> 0 then (m, Inl (InvalidGPUCount gpuCount))
      else (case gm_allocations m jobID of
        Some existing \<Rightarrow> (m, Inr existing)
      | None \<Rightarrow>
          (case SelectGPUs (gm_allocationStrategy m) (candidates ks m gpuMemoryMB) gpuCount gpuMemoryMB of
             Inl err \<Rightarrow> (m, Inl err)
           | Inr selectedGPUs \<Rightarrow>
               (let gpus = fold (\<lambda>g gs. gs(g_Index g \<mapsto> mark_allocated jobID now g)) selectedGPUs (gm_gpus m);
                    allocation = \<lparr>ga_JobUUID = jobID, ga_GPUIndices = map g_Index selectedGPUs,
                      ga_MIGUUIDs = map g_MIGUUID (filter g_IsMIG selectedGPUs), ga_GPUCount = gpuCount,
                      ga_GPUMemoryMB = gpuMemoryMB, ga_AllocatedAt = now\<rparr>
                in (m\<lparr>gm_gpus := gpus, gm_allocations := (gm_allocations m)(jobID \<mapsto> allocation)\<rparr>,
                    Inr allocation)))))"

definition quarantine :: "(int \<rightharpoonup> GPU) \<Rightarrow> int \<Rightarrow> quarantine_reason \<Rightarrow> (int \<rightharpoonup> GPU)" where
  "quarantine gpus gpuIndex reason =
     (case gpus gpuIndex of
        None \<Rightarrow> gpus
      | Some g \<Rightarrow> gpus(gpuIndex \<mapsto> g\<lparr>g_Quarantined := True, g_QuarantineReason := reason\<rparr>))"

text \<open>One round of the loop of \<open>scrubOnRelease\<close>.\<close>

definition scrub_one :: "string \<Rightarrow> (int \<Rightarrow> (verify_error, int) result) \<Rightarrow> int \<Rightarrow> (int \<rightharpoonup> GPU) \<Rightarrow> (int \<rightharpoonup> GPU)" where
  "scrub_one policy verify idx gpus =
     (if policy \<noteq> ''strict'' then gpus
      else (case verify idx of
        Inl err \<Rightarrow> quarantine gpus idx (Unverified err)
      | Inr usedMB \<Rightarrow>
          if usedMB > scrubResidualThresholdMB then
            quarantine gpus idx (StillInUse usedMB)
          else gpus))"

definition scrubOnRelease ::
  "string \<Rightarrow> (int \<Rightarrow> (verify_error, int) result) \<Rightarrow> int list \<Rightarrow> (int \<rightharpoonup> GPU) \<Rightarrow> (int \<rightharpoonup> GPU)" where
  "scrubOnRelease scrub_policy verify gpuIndices gpus =
     (let policy = (if scrub_policy = [] then ''reset'' else scrub_policy) in
      if policy = ''off'' \<or> length gpuIndices = 0 then gpus
      else fold (scrub_one policy verify) gpuIndices gpus)"

definition mark_released :: "GPU \<Rightarrow> GPU" where
  "mark_released g = g\<lparr>g_InUse := False, g_JobUUID := [], g_AllocatedAt := None\<rparr>"

definition release_one :: "int \<Rightarrow> (int \<rightharpoonup> GPU) \<Rightarrow> (int \<rightharpoonup> GPU)" where
  "release_one gpuIndex gpus =
     (case gpus gpuIndex of None \<Rightarrow> gpus | Some g \<Rightarrow> gpus(gpuIndex \<mapsto> mark_released g))"

definition ReleaseGPUs :: "(int \<Rightarrow> (verify_error, int) result) \<Rightarrow> Manager \<Rightarrow> string \<Rightarrow> Manager" where
  "ReleaseGPUs verify m jobID =
     (if \<not> gm_enabled m then m
      else (case gm_allocations m jobID of
        None \<Rightarrow> m
      | Some allocation \<Rightarrow>
          (let gpus = fold release_one (ga_GPUIndices allocation) (gm_gpus m)
           in m\<lparr>gm_gpus := scrubOnRelease (gm_ScrubPolicy m) verify (ga_GPUIndices allocation) gpus,
                gm_allocations := (gm_allocations m)(jobID := None)\<rparr>)))"

definition GetJobAllocation :: "Manager \<Rightarrow> string \<Rightarrow> GPUAllocation option" where
  "GetJobAllocation m jobID = (if \<not> gm_enabled m then None else gm_allocations m jobID)"

definition GetGPUCount :: "int list \<Rightarrow> Manager \<Rightarrow> int" where
  "GetGPUCount ks m = (if \<not> gm_enabled m then 0 else int (length (range_vals ks (gm_gpus m))))"

definition ClearQuarantine :: "Manager \<Rightarrow> int \<Rightarrow> Manager \<times> (gpu_error, unit) result" where
  "ClearQuarantine m gpuIndex =
     (case gm_gpus m gpuIndex of
        None \<Rightarrow> (m, Inl (GPUNotFound gpuIndex))
      | Some g \<Rightarrow> (m\<lparr>gm_gpus := (gm_gpus m)(gpuIndex \<mapsto> g\<lparr>g_Quarantined := False, g_QuarantineReason := NoReason\<rparr>)\<rparr>, Inr ()))"

text \<open>\<open>queryMemoryUsedMB\<close> on the output of \<open>nvidia-smi\<close>, the default of \<open>verify\<close>.\<close>

definition queryMemoryUsedMB :: "(string, string) result \<Rightarrow> (verify_error, int) result" where
  "queryMemoryUsedMB output =
     (case output of
        Inl err \<Rightarrow> Inl (QueryFailed err)
      | Inr out \<Rightarrow>
          (case Atoi (TrimSpace out) of
             None \<Rightarrow> Inl (ParseFailed (TrimSpace out))
           | Some used \<Rightarrow> Inr used))"

section \<open>The simulated inventory\<close>

definition NewSimulatedDiscovery :: "int \<Rightarrow> int \<times> int" where
  "NewSimulatedDiscovery n = (if n \<le> 0 then (2, 16384) else (n, 16384))"

text \<open>\<open>%08d\<close>: at least eight digits.\<close>

definition sim_uuid :: "nat \<Rightarrow> string" where
  "sim_uuid i = ''GPU-SIM-'' @ replicate (8 - length (nat_digits i)) (CHR ''0'') @ nat_digits i"

definition zero_gpu :: GPU where
  "zero_gpu = \<lparr>g_Index = 0, g_UUID = [], g_Name = [], g_MemoryMB = 0, g_InUse = False, g_JobUUID = [],
     g_AllocatedAt = None, g_IsMIG = False, g_MIGUUID = [], g_CapMinors = [], g_Quarantined = False,
     g_QuarantineReason = NoReason\<rparr>"

definition Simulated_DiscoverGPUs :: "int \<times> int \<Rightarrow> GPU list" where
  "Simulated_DiscoverGPUs s =
     map (\<lambda>i. zero_gpu\<lparr>g_Index := int i, g_UUID := sim_uuid i, g_Name := ''Simulated GPU'', g_MemoryMB := snd s\<rparr>)
       [0..<nat (fst s)]"

section \<open>The contract of a strategy\<close>

text \<open>
  A strategy fails exactly when there are not enough candidates, and otherwise returns as many
  different candidates as asked for.
\<close>

locale gpu_strategy =
  fixes sel :: "GPU list \<Rightarrow> int \<Rightarrow> int \<Rightarrow> (gpu_error, GPU list) result"
  assumes sel_few: "int (length gs) < n \<Longrightarrow> sel gs n mem = Inl (NotEnoughGPUs n (int (length gs)))"
    and sel_ok: "0 < n \<Longrightarrow> n \<le> int (length gs) \<Longrightarrow> distinct (map g_Index gs) \<Longrightarrow>
      \<exists>ss. sel gs n mem = Inr ss \<and> length ss = nat n \<and> distinct (map g_Index ss) \<and> set ss \<subseteq> set gs"
begin

lemma sel_Inr:
  assumes "0 < n" "distinct (map g_Index gs)" "sel gs n mem = Inr ss"
  shows "length ss = nat n" "distinct (map g_Index ss)" "set ss \<subseteq> set gs" "n \<le> int (length gs)"
proof -
  show n: "n \<le> int (length gs)" using sel_few [of gs n mem] assms(3) by (cases "int (length gs) < n") auto
  show "length ss = nat n" "distinct (map g_Index ss)" "set ss \<subseteq> set gs"
    using sel_ok [OF assms(1) n assms(2), of mem] assms(3) by auto
qed

lemma sel_Inl:
  "0 < n \<Longrightarrow> distinct (map g_Index gs) \<Longrightarrow> sel gs n mem = Inl e \<longleftrightarrow>
    int (length gs) < n \<and> e = NotEnoughGPUs n (int (length gs))"
  using sel_few [of gs n mem] sel_ok [of n gs mem] by (cases "int (length gs) < n") auto

end

text \<open>A prefix of a rearrangement meets the contract.\<close>

lemma take_sorted_ok:
  assumes "mset ss = mset gs" "0 < n" "n \<le> int (length gs)" "distinct (map g_Index gs)"
  shows "length (take (nat n) ss) = nat n \<and> distinct (map g_Index (take (nat n) ss)) \<and> set (take (nat n) ss) \<subseteq> set gs"
proof -
  have "length ss = length gs" "set ss = set gs" using assms(1) mset_eq_length mset_eq_setD by blast+
  moreover have "mset (map g_Index ss) = mset (map g_Index gs)" using assms(1) by simp
  then have "distinct (map g_Index ss)" using assms(4) mset_eq_imp_distinct_iff by blast
  ultimately show ?thesis using assms(3) set_take_subset [of "nat n" ss] by (auto simp: take_map [symmetric])
qed

lemmas strategy_defs = FirstFit_SelectGPUs_def Pack_SelectGPUs_def Spread_SelectGPUs_def BestFit_SelectGPUs_def
  not_enough_def Let_def

interpretation first_fit: gpu_strategy FirstFit_SelectGPUs
  by unfold_locales (auto simp: strategy_defs simp flip: take_map dest: in_set_takeD)

interpretation pack: gpu_strategy Pack_SelectGPUs
proof unfold_locales
  fix gs :: "GPU list" and n mem :: int
  assume "0 < n" "n \<le> int (length gs)" "distinct (map g_Index gs)"
  with take_sorted_ok [OF go_sort.sort_mset this]
  show "\<exists>ss. Pack_SelectGPUs gs n mem = Inr ss \<and> length ss = nat n \<and> distinct (map g_Index ss) \<and> set ss \<subseteq> set gs"
    by (simp add: strategy_defs)
qed (simp add: strategy_defs)

interpretation best_fit: gpu_strategy BestFit_SelectGPUs
proof unfold_locales
  fix gs :: "GPU list" and n mem :: int
  assume "0 < n" "n \<le> int (length gs)" "distinct (map g_Index gs)"
  with take_sorted_ok [OF go_sort.sort_mset this]
  show "\<exists>ss. BestFit_SelectGPUs gs n mem = Inr ss \<and> length ss = nat n \<and> distinct (map g_Index ss) \<and> set ss \<subseteq> set gs"
    by (simp add: strategy_defs)
qed (simp add: strategy_defs)

text \<open>The picks of the spread strategy are in range and different, so nothing is left to fill.\<close>

lemma spread_ok:
  assumes "0 < n" "n \<le> length gs" "distinct (map g_Index gs)"
  shows "length (spread_pick gs n (length gs div n)) = n" "distinct (map g_Index (spread_pick gs n (length gs div n)))"
    "set (spread_pick gs n (length gs div n)) \<subseteq> set gs"
    "spread_fill gs n (spread_pick gs n (length gs div n)) = spread_pick gs n (length gs div n)"
proof -
  let ?s = "length gs div n"
  have s: "0 < ?s" using assms by (simp add: div_greater_zero_iff)
  have r: "i * ?s < length gs" if "i < n" for i
  proof -
    have "i * ?s < n * ?s" using that s by simp
    also have "\<dots> \<le> length gs" by simp
    finally show ?thesis .
  qed
  then have p: "spread_pick gs n ?s = map (\<lambda>i. gs ! (i * ?s)) [0..<n]"
    unfolding spread_pick_def by (subst filter_True) auto
  then show l: "length (spread_pick gs n ?s) = n" by simp
  show "set (spread_pick gs n ?s) \<subseteq> set gs" using r p by auto
  have "inj_on (\<lambda>i. g_Index (gs ! (i * ?s))) {0..<n}"
  proof (rule inj_onI)
    fix i j assume ij: "i \<in> {0..<n}" "j \<in> {0..<n}" "g_Index (gs ! (i * ?s)) = g_Index (gs ! (j * ?s))"
    then have "i * ?s = j * ?s"
      using nth_eq_iff_index_eq [OF assms(3), of "i * ?s" "j * ?s"] r [of i] r [of j] by simp
    with s show "i = j" by simp
  qed
  then show "distinct (map g_Index (spread_pick gs n ?s))" by (simp add: p distinct_map comp_def inj_on_def)
  show "spread_fill gs n (spread_pick gs n ?s) = spread_pick gs n ?s"
    by (simp add: spread_fill_def l)
qed

interpretation spread: gpu_strategy Spread_SelectGPUs
proof unfold_locales
  fix gs :: "GPU list" and n mem :: int
  assume n: "0 < n" "n \<le> int (length gs)" "distinct (map g_Index gs)"
  let ?ss = "sort_slice (\<lambda>a b. g_Index a > g_Index b) gs"
  have l: "length ?ss = length gs" "set ?ss = set gs" "distinct (map g_Index ?ss)"
    using n(3) by (simp_all add: go_sort.sort_length go_sort.sort_set go_sort.sort_distinct)
  show "\<exists>ss. Spread_SelectGPUs gs n mem = Inr ss \<and> length ss = nat n \<and> distinct (map g_Index ss) \<and> set ss \<subseteq> set gs"
  proof (cases "n > 1 \<and> int (length gs) \<ge> n * 2")
    case True
    have b: "0 < nat n" "nat n \<le> length ?ss" using n l(1) by auto
    note ok = spread_ok [OF b l(3)]
    have "Spread_SelectGPUs gs n mem = Inr (spread_pick ?ss (nat n) (length ?ss div nat n))"
      using True n(2) ok(4) by (simp add: strategy_defs l(1))
    with ok l(2) show ?thesis by simp
  next
    case False
    with n l take_sorted_ok [OF go_sort.sort_mset n, of "\<lambda>a b. g_Index a > g_Index b"]
    show ?thesis by (auto simp: strategy_defs l(1))
  qed
qed (simp add: strategy_defs)

interpretation any_strategy: gpu_strategy "SelectGPUs st" for st
  by (cases st) (simp_all add: SelectGPUs_def first_fit.gpu_strategy_axioms pack.gpu_strategy_axioms
    spread.gpu_strategy_axioms best_fit.gpu_strategy_axioms)

section \<open>The manager's invariant\<close>

text \<open>
  The map's keys are the indices; an allocation lists different GPUs that are in use by its job; a
  GPU in use belongs to the allocation of its job; a quarantined GPU is not in use.
\<close>

definition gpu_inv :: "Manager \<Rightarrow> bool" where
  "gpu_inv m \<longleftrightarrow>
     (\<forall>k g. gm_gpus m k = Some g \<longrightarrow> g_Index g = k) \<and>
     (\<forall>j a. gm_allocations m j = Some a \<longrightarrow> ga_JobUUID a = j \<and> distinct (ga_GPUIndices a) \<and>
        (\<forall>i \<in> set (ga_GPUIndices a). \<exists>g. gm_gpus m i = Some g \<and> g_InUse g \<and> g_JobUUID g = j)) \<and>
     (\<forall>k g. gm_gpus m k = Some g \<longrightarrow> g_InUse g \<longrightarrow>
        (\<exists>a. gm_allocations m (g_JobUUID g) = Some a \<and> k \<in> set (ga_GPUIndices a)) \<and> \<not> g_Quarantined g)"

lemma gpu_invD:
  assumes "gpu_inv m"
  shows "gm_gpus m k = Some g \<Longrightarrow> g_Index g = k"
    "gm_allocations m j = Some a \<Longrightarrow> distinct (ga_GPUIndices a)"
    "gm_allocations m j = Some a \<Longrightarrow> i \<in> set (ga_GPUIndices a) \<Longrightarrow>
      \<exists>g. gm_gpus m i = Some g \<and> g_InUse g \<and> g_JobUUID g = j \<and> \<not> g_Quarantined g"
    "gm_gpus m k = Some g \<Longrightarrow> g_InUse g \<Longrightarrow>
      \<exists>a. gm_allocations m (g_JobUUID g) = Some a \<and> k \<in> set (ga_GPUIndices a)"
    "gm_gpus m k = Some g \<Longrightarrow> g_InUse g \<Longrightarrow> \<not> g_Quarantined g"
    "gm_allocations m j = Some a \<Longrightarrow> ga_JobUUID a = j"
  using assms unfolding gpu_inv_def by (blast, blast, metis, blast, blast, blast)

text \<open>The candidates, whatever order the map is ranged over.\<close>

lemma candidates_spec:
  assumes "gpu_inv m" "range_order ks (gm_gpus m)"
  shows "set (candidates ks m mem) = {g. \<exists>k. gm_gpus m k = Some g \<and> eligible mem g}"
    "distinct (map g_Index (candidates ks m mem))" "sorted (map g_Index (candidates ks m mem))"
proof -
  let ?all = "range_vals ks (gm_gpus m)"
  have idx: "map g_Index ?all = ks"
    unfolding range_vals_map [OF assms(2)] map_map
    using assms(2) gpu_invD(1) [OF assms(1)] by (intro map_idI) (auto simp: range_order_def dom_def)
  show "set (candidates ks m mem) = {g. \<exists>k. gm_gpus m k = Some g \<and> eligible mem g}"
    using set_range_vals [OF assms(2)] by (auto simp: candidates_def go_sort.sort_set ran_def)
  have "distinct (map g_Index ?all)" using assms(2) by (simp add: idx range_order_def)
  then show "distinct (map g_Index (candidates ks m mem))"
    by (simp add: candidates_def go_sort.sort_distinct distinct_map_filter)
  show "sorted (map g_Index (candidates ks m mem))"
    unfolding candidates_def by (rule go_sort.sort_by_key) simp
qed

lemma fold_mark_other:
  "k \<notin> g_Index ` set ss \<Longrightarrow> fold (\<lambda>g gs. gs(g_Index g \<mapsto> f g)) ss m k = m k"
  by (induction ss arbitrary: m) auto

lemma fold_mark:
  "distinct (map g_Index ss) \<Longrightarrow> g \<in> set ss \<Longrightarrow>
    fold (\<lambda>g gs. gs(g_Index g \<mapsto> f g)) ss m (g_Index g) = Some (f g)"
  by (induction ss arbitrary: m) (auto simp: fold_mark_other)

lemma release_fold:
  "fold release_one is gs k = (if k \<in> set is then map_option mark_released (gs k) else gs k)"
  by (induction "is" arbitrary: gs)
    (auto simp: release_one_def mark_released_def option.map_comp comp_def split: option.splits)

text \<open>What \<open>verify\<close> says of a GPU: clean, or why not.\<close>

definition dirty :: "(int \<Rightarrow> (verify_error, int) result) \<Rightarrow> int \<Rightarrow> quarantine_reason option" where
  "dirty verify k =
     (case verify k of
        Inl err \<Rightarrow> Some (Unverified err)
      | Inr usedMB \<Rightarrow> if usedMB > scrubResidualThresholdMB then Some (StillInUse usedMB) else None)"

definition scrubbed :: "(int \<Rightarrow> (verify_error, int) result) \<Rightarrow> int \<Rightarrow> GPU \<Rightarrow> GPU" where
  "scrubbed verify k g =
     (case dirty verify k of
        None \<Rightarrow> g
      | Some r \<Rightarrow> g\<lparr>g_Quarantined := True, g_QuarantineReason := r\<rparr>)"

lemma scrubbed_idem [simp]: "scrubbed v k (scrubbed v k g) = scrubbed v k g"
  by (simp add: scrubbed_def split: option.splits)

lemma scrub_one_strict: "scrub_one ''strict'' v k gs = gs(k := map_option (scrubbed v k) (gs k))"
  by (auto simp: scrub_one_def quarantine_def scrubbed_def dirty_def fun_eq_iff split: option.splits sum.splits)

lemma scrub_fold:
  "fold (scrub_one ''strict'' v) is gs k = (if k \<in> set is then map_option (scrubbed v k) (gs k) else gs k)"
  by (induction "is" arbitrary: gs) (auto simp: scrub_one_strict option.map_comp comp_def)

lemma scrubOnRelease_spec:
  "scrubOnRelease policy v is gs k =
     (if policy = ''strict'' \<and> k \<in> set is then map_option (scrubbed v k) (gs k) else gs k)"
proof (cases "policy = ''strict''")
  case True
  then show ?thesis by (simp add: scrubOnRelease_def scrub_fold)
next
  case False
  then have "fold (scrub_one p v) is gs = gs" if "p \<noteq> ''strict''" for p
    using that by (induction "is") (simp_all add: scrub_one_def)
  with False show ?thesis by (simp add: scrubOnRelease_def Let_def)
qed

text \<open>The state of a GPU after \<open>ReleaseGPUs\<close> of an existing allocation.\<close>

lemma Release_gpus:
  assumes "gm_enabled m" "gm_allocations m j = Some a"
  shows "gm_gpus (ReleaseGPUs v m j) k =
      (if k \<in> set (ga_GPUIndices a) then
         map_option (\<lambda>g. if gm_ScrubPolicy m = ''strict'' then scrubbed v k (mark_released g) else mark_released g) (gm_gpus m k)
       else gm_gpus m k)"
    "gm_allocations (ReleaseGPUs v m j) = (gm_allocations m)(j := None)"
  using assms by (auto simp: ReleaseGPUs_def scrubOnRelease_spec release_fold option.map_comp comp_def)

section \<open>Every operation keeps the invariant\<close>

lemma Initialize_inv:
  assumes "\<forall>g \<in> set gpus. \<not> g_InUse g"
  shows "gpu_inv (fst (Initialize (NewManager cfg) (Inr gpus)))"
proof -
  have "\<forall>k g. fold (\<lambda>g gs. gs(g_Index g \<mapsto> g)) gpus Map.empty k = Some g \<longrightarrow> g_Index g = k \<and> \<not> g_InUse g"
    by (rule fold_invariant [where Q = "\<lambda>g. \<not> g_InUse g" and
        P = "\<lambda>gs. \<forall>k g. gs k = Some g \<longrightarrow> g_Index g = k \<and> \<not> g_InUse g"]) (use assms in \<open>auto split: if_splits\<close>)
  then show ?thesis by (auto simp: gpu_inv_def Initialize_def NewManager_def)
qed

lemma ClearQuarantine_inv:
  assumes "gpu_inv m"
  shows "gpu_inv (fst (ClearQuarantine m i))"
proof (cases "gm_gpus m i")
  case (Some g)
  note I = gpu_invD [OF assms]
  show ?thesis
    unfolding gpu_inv_def ClearQuarantine_def Some
  proof (simp, intro conjI allI impI)
    show "g_Index g = i" using I(1) Some by blast
    show "\<exists>a. gm_allocations m (g_JobUUID g) = Some a \<and> i \<in> set (ga_GPUIndices a)" if "g_InUse g"
      using I(4) Some that by blast
  next
    fix j a assume a: "gm_allocations m j = Some a"
    show "ga_JobUUID a = j" "distinct (ga_GPUIndices a)" using I(2,6) a by blast+
    show "\<forall>k \<in> set (ga_GPUIndices a). (k = i \<longrightarrow> g_InUse g \<and> g_JobUUID g = j) \<and>
        (k \<noteq> i \<longrightarrow> (\<exists>g. gm_gpus m k = Some g \<and> g_InUse g \<and> g_JobUUID g = j))"
      using I(3) [OF a] Some by fastforce
  qed (use I in blast)+
qed (use assms in \<open>simp add: ClearQuarantine_def\<close>)

lemma Release_inv:
  assumes inv: "gpu_inv m"
  shows "gpu_inv (ReleaseGPUs v m j)"
proof (cases "gm_enabled m \<and> gm_allocations m j \<noteq> None")
  case True
  then obtain a where a: "gm_enabled m" "gm_allocations m j = Some a" by auto
  note r = Release_gpus [OF a, of v] and I = gpu_invD [OF inv]
  have idx: "g_Index (scrubbed v k (mark_released g)) = g_Index g \<and> \<not> g_InUse (scrubbed v k (mark_released g))"
    "g_Index (mark_released g) = g_Index g \<and> \<not> g_InUse (mark_released g)" for k g
    by (simp_all add: scrubbed_def mark_released_def split: option.splits)
  have g: "g_Index g = k \<and> (g_InUse g \<longrightarrow> k \<notin> set (ga_GPUIndices a) \<and> gm_gpus m k = Some g)"
    if "gm_gpus (ReleaseGPUs v m j) k = Some g" for k g
    using that I(1) idx by (auto simp: r split: if_splits)
  have other: "i \<notin> set (ga_GPUIndices a)" if "gm_allocations m j' = Some a'" "i \<in> set (ga_GPUIndices a')" "j' \<noteq> j" for i j' a'
    using I(3) [OF that(1,2)] I(3) [OF a(2)] that(3) by fastforce
  show ?thesis
    unfolding gpu_inv_def
  proof (intro conjI allI impI)
    show "g_Index g = k" if "gm_gpus (ReleaseGPUs v m j) k = Some g" for k g using g [OF that] by blast
  next
    fix j' a' assume a': "gm_allocations (ReleaseGPUs v m j) j' = Some a'"
    then have m: "gm_allocations m j' = Some a'" "j' \<noteq> j" by (auto simp: r split: if_splits)
    then show "ga_JobUUID a' = j'" "distinct (ga_GPUIndices a')" using I(2,6) by auto
    show "\<forall>i \<in> set (ga_GPUIndices a'). \<exists>g. gm_gpus (ReleaseGPUs v m j) i = Some g \<and> g_InUse g \<and> g_JobUUID g = j'"
      using I(3) [OF m(1)] other [OF m(1) _ m(2)] by (fastforce simp: r)
  next
    fix k g assume k: "gm_gpus (ReleaseGPUs v m j) k = Some g" "g_InUse g"
    with g have m: "k \<notin> set (ga_GPUIndices a)" "gm_gpus m k = Some g" by auto
    then show "\<not> g_Quarantined g" using I(5) k(2) by blast
    from I(4) [OF m(2) k(2)] m(1) a(2)
    show "\<exists>a. gm_allocations (ReleaseGPUs v m j) (g_JobUUID g) = Some a \<and> k \<in> set (ga_GPUIndices a)"
      by (auto simp: r)
  qed
qed (use inv in \<open>auto simp: ReleaseGPUs_def\<close>)

text \<open>What a new allocation takes: GPUs of the map that are free, not quarantined and large enough.\<close>

definition alloc_result :: "Manager \<Rightarrow> string \<Rightarrow> instant \<Rightarrow> int \<Rightarrow> int \<Rightarrow> Manager \<Rightarrow> GPUAllocation \<Rightarrow> bool" where
  "alloc_result m jobID now n mem m' a \<longleftrightarrow>
     length (ga_GPUIndices a) = nat n \<and> distinct (ga_GPUIndices a) \<and> ga_JobUUID a = jobID \<and>
     (\<forall>i \<in> set (ga_GPUIndices a). \<exists>g. gm_gpus m i = Some g \<and> eligible mem g) \<and>
     gm_gpus m' = (\<lambda>k. if k \<in> set (ga_GPUIndices a) then map_option (mark_allocated jobID now) (gm_gpus m k) else gm_gpus m k) \<and>
     gm_allocations m' = (gm_allocations m)(jobID \<mapsto> a)"

lemma Allocate_cases:
  assumes "gpu_inv m" "range_order ks (gm_gpus m)" "AllocateGPUs ks now m jobID n mem = (m', r)"
  shows "m' = m \<and> (\<not> gm_enabled m \<and> r = Inl GPUDisabled \<or> n \<le> 0 \<and> r = Inl (InvalidGPUCount n) \<or>
      gm_enabled m \<and> 0 < n \<and> gm_allocations m jobID = None \<and> int (length (candidates ks m mem)) < n \<and>
        r = Inl (NotEnoughGPUs n (int (length (candidates ks m mem)))) \<or>
      (\<exists>a. gm_enabled m \<and> 0 < n \<and> gm_allocations m jobID = Some a \<and> r = Inr a)) \<or>
    (\<exists>a. gm_enabled m \<and> 0 < n \<and> gm_allocations m jobID = None \<and> n \<le> int (length (candidates ks m mem)) \<and>
      r = Inr a \<and> alloc_result m jobID now n mem m' a)"
proof (cases "gm_enabled m \<and> 0 < n \<and> gm_allocations m jobID = None")
  case True
  note c = candidates_spec [OF assms(1,2), of mem]
  show ?thesis
  proof (cases "SelectGPUs (gm_allocationStrategy m) (candidates ks m mem) n mem")
    case (Inl e)
    with True assms(3) any_strategy.sel_Inl [OF _ c(2), of n "gm_allocationStrategy m" mem e]
    show ?thesis by (auto simp: AllocateGPUs_def)
  next
    case (Inr ss)
    note s = any_strategy.sel_Inr [OF conjunct1 [OF conjunct2 [OF True]] c(2) Inr]
    have g: "gm_gpus m (g_Index g) = Some g \<and> eligible mem g" if "g \<in> set ss" for g
      using s(3) that c(1) gpu_invD(1) [OF assms(1)] by blast
    have "fold (\<lambda>g gs. gs(g_Index g \<mapsto> mark_allocated jobID now g)) ss (gm_gpus m) k =
        (if k \<in> set (map g_Index ss) then map_option (mark_allocated jobID now) (gm_gpus m k) else gm_gpus m k)" for k
      using fold_mark [OF s(2), of _ "mark_allocated jobID now" "gm_gpus m"] g fold_mark_other [of k ss] by auto
    with True Inr assms(3) s(1,2,4) g show ?thesis
      by (auto simp: AllocateGPUs_def Let_def alloc_result_def intro!: ext)
  qed
qed (use assms(3) in \<open>auto simp: AllocateGPUs_def split: option.splits if_splits\<close>)

lemma alloc_result_inv:
  assumes inv: "gpu_inv m" and a: "alloc_result m jobID now n mem m' a" "gm_allocations m jobID = None"
  shows "gpu_inv m'"
proof -
  note I = gpu_invD [OF inv]
  note r = a(1) [unfolded alloc_result_def]
  have mk: "g_Index (mark_allocated jobID now g) = g_Index g" "g_InUse (mark_allocated jobID now g)"
    "g_JobUUID (mark_allocated jobID now g) = jobID" "g_Quarantined (mark_allocated jobID now g) = g_Quarantined g" for g
    by (simp_all add: mark_allocated_def)
  have new: "\<exists>g. gm_gpus m i = Some g \<and> \<not> g_InUse g \<and> \<not> g_Quarantined g" if "i \<in> set (ga_GPUIndices a)" for i
    using r that unfolding eligible_def by blast
  show ?thesis
    unfolding gpu_inv_def
  proof (intro conjI allI impI)
    show "g_Index g = k" if "gm_gpus m' k = Some g" for k g
      using that r I(1) mk by (auto split: if_splits)
  next
    fix j b assume b: "gm_allocations m' j = Some b"
    show "ga_JobUUID b = j" "distinct (ga_GPUIndices b)" using b r I(2,6) by (auto split: if_splits)
    show "\<forall>i \<in> set (ga_GPUIndices b). \<exists>g. gm_gpus m' i = Some g \<and> g_InUse g \<and> g_JobUUID g = j"
    proof (cases "j = jobID")
      case True
      with b r new mk show ?thesis by fastforce
    next
      case False
      with b r have bm: "gm_allocations m j = Some b" by simp
      show ?thesis
      proof
        fix i assume i: "i \<in> set (ga_GPUIndices b)"
        with I(3) [OF bm] obtain g where g: "gm_gpus m i = Some g" "g_InUse g" "g_JobUUID g = j" by blast
        with new have "i \<notin> set (ga_GPUIndices a)" by fastforce
        with g r show "\<exists>g. gm_gpus m' i = Some g \<and> g_InUse g \<and> g_JobUUID g = j" by simp
      qed
    qed
  next
    fix k g assume k: "gm_gpus m' k = Some g" "g_InUse g"
    show "\<not> g_Quarantined g"
      using k r new I(5) mk by (cases "k \<in> set (ga_GPUIndices a)") fastforce+
    show "\<exists>a. gm_allocations m' (g_JobUUID g) = Some a \<and> k \<in> set (ga_GPUIndices a)"
    proof (cases "k \<in> set (ga_GPUIndices a)")
      case True
      with k r mk show ?thesis by auto
    next
      case False
      with k r I(4) [of k g] a(2) show ?thesis by auto
    qed
  qed
qed

lemma Allocate_inv:
  assumes "gpu_inv m" "range_order ks (gm_gpus m)"
  shows "gpu_inv (fst (AllocateGPUs ks now m jobID n mem))"
proof -
  obtain m' r where e: "AllocateGPUs ks now m jobID n mem = (m', r)" by fastforce
  from Allocate_cases [OF assms e] show ?thesis using alloc_result_inv [OF assms(1)] assms(1) e by auto
qed

section \<open>Histories\<close>

text \<open>
  The states a manager reaches from the inventory it discovers; a discovered GPU is not in use. Every
  call of \<open>AllocateGPUs\<close> ranges over the map in an order of its own.
\<close>

inductive gpu_reach :: "GPUConfig \<Rightarrow> GPU list \<Rightarrow> Manager \<Rightarrow> bool" for cfg gpus where
  g_init: "\<forall>g \<in> set gpus. \<not> g_InUse g \<Longrightarrow> gpu_reach cfg gpus (fst (Initialize (NewManager cfg) (Inr gpus)))"
| g_alloc: "gpu_reach cfg gpus m \<Longrightarrow> range_order ks (gm_gpus m) \<Longrightarrow>
    gpu_reach cfg gpus (fst (AllocateGPUs ks now m jobID n mem))"
| g_release: "gpu_reach cfg gpus m \<Longrightarrow> gpu_reach cfg gpus (ReleaseGPUs verify m jobID)"
| g_clear: "gpu_reach cfg gpus m \<Longrightarrow> gpu_reach cfg gpus (fst (ClearQuarantine m i))"

lemma gpu_reach_inv: "gpu_reach cfg gpus m \<Longrightarrow> gpu_inv m"
  by (induction rule: gpu_reach.induct)
    (auto intro: Initialize_inv Allocate_inv Release_inv ClearQuarantine_inv)

text \<open>
  C7. In every reachable state a GPU serves at most one job: the GPUs of an allocation are in use by
  its job and not quarantined, two allocations share no GPU, and a GPU marked in use belongs to the
  allocation of the job it names.
\<close>

theorem gpu_exclusive:
  assumes "gpu_reach cfg gpus m"
  shows "(\<forall>j a i. gm_allocations m j = Some a \<longrightarrow> i \<in> set (ga_GPUIndices a) \<longrightarrow>
       (\<exists>g. gm_gpus m i = Some g \<and> g_InUse g \<and> g_JobUUID g = j \<and> \<not> g_Quarantined g)) \<and>
    (\<forall>j a j' a'. gm_allocations m j = Some a \<longrightarrow> gm_allocations m j' = Some a' \<longrightarrow> j \<noteq> j' \<longrightarrow>
       set (ga_GPUIndices a) \<inter> set (ga_GPUIndices a') = {}) \<and>
    (\<forall>i g. gm_gpus m i = Some g \<longrightarrow> g_InUse g \<longrightarrow>
       (\<exists>a. gm_allocations m (g_JobUUID g) = Some a \<and> i \<in> set (ga_GPUIndices a)))"
proof -
  note I = gpu_invD [OF gpu_reach_inv [OF assms]]
  have "set (ga_GPUIndices a) \<inter> set (ga_GPUIndices a') = {}"
    if "gm_allocations m j = Some a" "gm_allocations m j' = Some a'" "j \<noteq> j'" for j a j' a'
    using I(3) [OF that(1)] I(3) [OF that(2)] that(3) by fastforce
  with I(3,4) show ?thesis by blast
qed

text \<open>Three simulated GPUs and the job ''a''.\<close>

definition demo_config :: GPUConfig where
  "demo_config = \<lparr>gc_Enabled = True, gc_AllocationStrategy = ''pack'', gc_ScrubPolicy = ''strict''\<rparr>"

definition demo_inventory :: "GPU list" where
  "demo_inventory = Simulated_DiscoverGPUs (NewSimulatedDiscovery 3)"

definition demo_start :: Manager where
  "demo_start = fst (Initialize (NewManager demo_config) (Inr demo_inventory))"

definition demo_manager :: Manager where
  "demo_manager = fst (AllocateGPUs [2, 0, 1] 7 demo_start ''a'' 2 8000)"

lemma demo_start_gpus:
  "gm_gpus demo_start = (\<lambda>i. if i \<in> {0, 1, 2} then Some (zero_gpu\<lparr>g_Index := i, g_UUID := sim_uuid (nat i),
     g_Name := ''Simulated GPU'', g_MemoryMB := 16384\<rparr>) else None)"
  by (rule ext) (simp add: demo_start_def demo_inventory_def demo_config_def Initialize_def NewManager_def
    Simulated_DiscoverGPUs_def NewSimulatedDiscovery_def numeral_3_eq_3 numeral_2_eq_2 zero_gpu_def)

lemma demo_order: "range_order [2, 0, 1] (gm_gpus demo_start)"
  by (auto simp: range_order_def demo_start_gpus dom_def)

lemma demo_start_reach: "gpu_reach demo_config demo_inventory demo_start"
  unfolding demo_start_def
  by (rule g_init) (simp add: demo_inventory_def Simulated_DiscoverGPUs_def zero_gpu_def)

lemma demo_reach: "gpu_reach demo_config demo_inventory demo_manager"
  unfolding demo_manager_def by (rule g_alloc [OF demo_start_reach demo_order])

lemma demo_allocation: "map_option ga_GPUIndices (gm_allocations demo_manager ''a'') = Some [0, 1]"
  by code_simp

theorem gpu_exclusive_witness:
  "\<exists>a g. gm_allocations demo_manager ''a'' = Some a \<and> gm_gpus demo_manager 0 = Some g \<and> g_InUse g \<and> g_JobUUID g = ''a''"
proof -
  obtain a where "gm_allocations demo_manager ''a'' = Some a" "ga_GPUIndices a = [0, 1]"
    using demo_allocation by auto
  with conjunct1 [OF gpu_exclusive [OF demo_reach]] show ?thesis by fastforce
qed

lemma candidates_order:
  assumes "gpu_inv m" "range_order ks (gm_gpus m)" "range_order ks' (gm_gpus m)"
  shows "candidates ks m mem = candidates ks' m mem"
proof -
  note c = candidates_spec [OF assms(1,2), of mem] and c' = candidates_spec [OF assms(1,3), of mem]
  have s: "set (candidates ks m mem) = set (candidates ks' m mem)" by (simp only: c(1) c'(1))
  have "map g_Index (candidates ks m mem) = map g_Index (candidates ks' m mem)"
    by (rule sorted_distinct_set_unique [OF c(3,2) c'(3,2)]) (simp add: s)
  moreover have "inj_on g_Index (set (candidates ks m mem) \<union> set (candidates ks' m mem))"
    using c(2) s by (simp add: distinct_map)
  ultimately show ?thesis using map_inj_on by blast
qed

lemma length_candidates:
  assumes "gpu_inv m" "range_order ks (gm_gpus m)"
  shows "length (candidates ks m mem) = card {i. \<exists>g. gm_gpus m i = Some g \<and> eligible mem g}"
proof -
  note c = candidates_spec [OF assms, of mem]
  have "{i. \<exists>g. gm_gpus m i = Some g \<and> eligible mem g} = g_Index ` set (candidates ks m mem)"
    using gpu_invD(1) [OF assms(1)] unfolding c(1) by force
  with c(2) show ?thesis by (metis distinct_card length_map set_map)
qed





lemma sorted_take_least:
  assumes "sorted (map f xs)" "x \<in> set (take n xs)" "y \<in> set (drop n xs)"
  shows "f x \<le> (f y :: 'k::linorder)"
proof -
  have "sorted (map f (take n xs) @ map f (drop n xs))" using assms(1) by (simp flip: map_append)
  with assms(2,3) show ?thesis by (auto simp: sorted_append)
qed

lemma best_fit_less_enough:
  assumes "\<forall>g \<in> set gs. mem \<le> g_MemoryMB g \<and> g_MemoryMB g < 2 ^ 63" "a \<in> set gs" "b \<in> set gs"
  shows "best_fit_less mem a b \<longleftrightarrow> g_MemoryMB a < g_MemoryMB b"
proof (cases "0 < mem")
  case True
  then have "int64 (g_MemoryMB a - mem) = g_MemoryMB a - mem" "int64 (g_MemoryMB b - mem) = g_MemoryMB b - mem"
    using assms by (auto intro!: wrap_int_id simp: int_fits_def)
  then show ?thesis using assms True by (auto simp: best_fit_less_def)
qed (simp add: best_fit_less_def)

lemma take_least:
  assumes "set xs = set gs" "sorted (map f xs)" "g \<in> set (take n xs)" "g' \<in> set gs - set (take n xs)"
  shows "f g \<le> (f g' :: 'k::linorder)"
proof (rule sorted_take_least [OF assms(2,3)])
  have "set xs = set (take n xs) \<union> set (drop n xs)" by (metis append_take_drop_id set_append)
  with assms(1,4) show "g' \<in> set (drop n xs)" by blast
qed

lemma best_fit_sorted:
  assumes "\<forall>g \<in> set gs. mem \<le> g_MemoryMB g \<and> g_MemoryMB g < 2 ^ 63"
  shows "sorted (map g_MemoryMB (sort_slice (best_fit_less mem) gs))"
proof -
  note l = best_fit_less_enough [OF assms]
  have "strict_weak (best_fit_less mem) (set gs)" unfolding strict_weak_def using l by auto
  from go_sort.sort_ordered [OF this] show ?thesis
    unfolding sorted_wrt_map
    by (rule sorted_wrt_mono_rel [rotated]) (use l in \<open>auto simp: go_sort.sort_set\<close>)
qed

text \<open>
  The best-fit strategy wastes least: when every candidate has enough memory (as the manager's
  filter makes sure), no candidate that is passed over has less memory than one that is selected. The
  first-fit and pack strategies select the candidates with the smallest indices.
\<close>

theorem strategies_optimal:
  assumes "0 < n" "n \<le> int (length gs)" "distinct (map g_Index gs)"
    "\<forall>g \<in> set gs. mem \<le> g_MemoryMB g \<and> g_MemoryMB g < 2 ^ 63"
  shows "(\<exists>ss. BestFit_SelectGPUs gs n mem = Inr ss \<and> length ss = nat n \<and>
      (\<forall>g \<in> set ss. \<forall>g' \<in> set gs - set ss. g_MemoryMB g \<le> g_MemoryMB g')) \<and>
    (\<exists>ss. Pack_SelectGPUs gs n mem = Inr ss \<and> length ss = nat n \<and>
      (\<forall>g \<in> set ss. \<forall>g' \<in> set gs - set ss. g_Index g \<le> g_Index g')) \<and>
    (sorted (map g_Index gs) \<longrightarrow> FirstFit_SelectGPUs gs n mem = Pack_SelectGPUs gs n mem)"
proof (intro conjI impI)
  have n: "\<not> not_enough gs n" using assms(2) by (simp add: not_enough_def)
  let ?b = "sort_slice (best_fit_less mem) gs" and ?p = "sort_slice (\<lambda>a b. g_Index a < g_Index b) gs"
  have p: "sorted (map g_Index ?p)" by (rule go_sort.sort_by_key) simp
  show "\<exists>ss. BestFit_SelectGPUs gs n mem = Inr ss \<and> length ss = nat n \<and>
      (\<forall>g \<in> set ss. \<forall>g' \<in> set gs - set ss. g_MemoryMB g \<le> g_MemoryMB g')"
    using take_least [OF go_sort.sort_set best_fit_sorted [OF assms(4)]] n assms(2)
    by (simp add: BestFit_SelectGPUs_def go_sort.sort_length)
  show "\<exists>ss. Pack_SelectGPUs gs n mem = Inr ss \<and> length ss = nat n \<and>
      (\<forall>g \<in> set ss. \<forall>g' \<in> set gs - set ss. g_Index g \<le> g_Index g')"
    using take_least [OF go_sort.sort_set p] n assms(2) by (simp add: Pack_SelectGPUs_def go_sort.sort_length)
  assume s: "sorted (map g_Index gs)"
  have "map g_Index ?p = map g_Index gs"
    by (rule sorted_distinct_set_unique [OF p _ s assms(3)])
      (simp_all add: go_sort.sort_distinct assms(3) go_sort.sort_set)
  moreover have "inj_on g_Index (set ?p \<union> set gs)" using assms(3) by (simp add: distinct_map go_sort.sort_set)
  ultimately have "?p = gs" using map_inj_on by blast
  with n show "FirstFit_SelectGPUs gs n mem = Pack_SelectGPUs gs n mem"
    by (simp add: FirstFit_SelectGPUs_def Pack_SelectGPUs_def)
qed

theorem strategies_optimal_witness:
  "\<exists>ss. BestFit_SelectGPUs [zero_gpu\<lparr>g_Index := 0, g_MemoryMB := 80\<rparr>, zero_gpu\<lparr>g_Index := 1, g_MemoryMB := 24\<rparr>] 1 16 = Inr ss
     \<and> length ss = 1"
  using strategies_optimal [of 1 "[zero_gpu\<lparr>g_Index := 0, g_MemoryMB := 80\<rparr>, zero_gpu\<lparr>g_Index := 1, g_MemoryMB := 24\<rparr>]" 16]
  by auto

end
