(* ===== verification/Stores.thy ===== *)
theory Stores
  imports Domain
begin

text \<open>
  The in-memory stores, \<open>internal/joblet/adapters/in_memory_stores.go\<close>, and the types they hold,
  \<open>storage_interfaces.go\<close>. The adapters see them through one interface (\<open>volumeStore\<close>,
  \<open>networkStore\<close>, \<open>jobStore\<close> in the sources), here the locale \<open>kv_store\<close>, which every one of
  them is shown to implement. Each method holds the store's mutex for its whole body.
\<close>

section \<open>What the stores hold\<close>

record NetworkConfig =
  nc_Name :: string
  nc_Type :: string
  nc_CIDR :: string
  nc_BridgeName :: string
  nc_Gateway :: string
  nc_DNS :: "string list"
  nc_Metadata :: "string \<rightharpoonup> string"
  nc_CreatedAt :: int
  nc_UpdatedAt :: int

record JobNetworkAllocation =
  na_JobUUID :: string
  na_NetworkName :: string
  na_IPAddress :: string
  na_MACAddress :: string
  na_Hostname :: string
  na_Metadata :: "string \<rightharpoonup> string"
  na_AssignedAt :: int

section \<open>The interface\<close>

text \<open>The errors a backend of the interface may return; the adapters tell a conflict from the others.\<close>

datatype store_error = Conflict | StoreFailure string

definition IsConflictError :: "store_error \<Rightarrow> bool" where
  "IsConflictError e \<longleftrightarrow> e = Conflict"

text \<open>
  \<open>list_s ks s\<close> is \<open>List\<close> when the map is ranged over in the order \<open>ks\<close>.
\<close>

locale kv_store =
  fixes create_s :: "'s \<Rightarrow> string \<Rightarrow> 'v \<Rightarrow> 's \<times> (store_error, unit) result" and get_s :: "'s \<Rightarrow> string \<Rightarrow> 'v option"
    and update_s :: "'s \<Rightarrow> string \<Rightarrow> 'v \<Rightarrow> 's" and list_s :: "string list \<Rightarrow> 's \<Rightarrow> 'v list"
    and delete_s :: "'s \<Rightarrow> string \<Rightarrow> 's" and close_s :: "'s \<Rightarrow> 's"
  assumes create_ok: "snd (create_s s k v) = Inr ()"
    and get_create: "get_s (fst (create_s s k v)) = (get_s s)(k \<mapsto> v)"
    and get_update: "get_s (update_s s k v) = (get_s s)(k \<mapsto> v)"
    and get_delete: "get_s (delete_s s k) = (get_s s)(k := None)"
    and get_close: "get_s (close_s s) = Map.empty"
    and list_get: "list_s ks s = range_vals ks (get_s s)"
begin

lemma create_pair: "create_s s k v = (fst (create_s s k v), Inr ())"
  by (metis create_ok prod.collapse)

lemma set_list: "range_order ks (get_s s) \<Longrightarrow> set (list_s ks s) = ran (get_s s)"
  by (simp add: list_get set_range_vals)

lemma in_list: "range_order ks (get_s s) \<Longrightarrow> v \<in> set (list_s ks s) \<longleftrightarrow> (\<exists>k. get_s s k = Some v)"
  by (auto simp: set_list ran_def)

lemma list_filter_empty:
  "range_order ks (get_s s) \<Longrightarrow> filter P (list_s ks s) = [] \<longleftrightarrow> (\<forall>k v. get_s s k = Some v \<longrightarrow> \<not> P v)"
  by (auto simp: filter_empty_conv in_list)

end

section \<open>The implementations\<close>

subsection \<open>SimpleJobStore\<close>

record SimpleJobStore =
  sjs_jobs :: "string \<rightharpoonup> Job"

definition SimpleJobStore_Create :: "SimpleJobStore \<Rightarrow> string \<Rightarrow> Job \<Rightarrow> SimpleJobStore \<times> (store_error, unit) result" where
  "SimpleJobStore_Create s key x = (s\<lparr>sjs_jobs := (sjs_jobs s)(key \<mapsto> x)\<rparr>, Inr ())"

definition SimpleJobStore_Get :: "SimpleJobStore \<Rightarrow> string \<Rightarrow> Job option" where
  "SimpleJobStore_Get s key = sjs_jobs s key"

definition SimpleJobStore_Update :: "SimpleJobStore \<Rightarrow> string \<Rightarrow> Job \<Rightarrow> SimpleJobStore" where
  "SimpleJobStore_Update s key x = s\<lparr>sjs_jobs := (sjs_jobs s)(key \<mapsto> x)\<rparr>"

definition SimpleJobStore_List :: "string list \<Rightarrow> SimpleJobStore \<Rightarrow> Job list" where
  "SimpleJobStore_List ks s = range_vals ks (sjs_jobs s)"

definition SimpleJobStore_Delete :: "SimpleJobStore \<Rightarrow> string \<Rightarrow> SimpleJobStore" where
  "SimpleJobStore_Delete s key = s\<lparr>sjs_jobs := (sjs_jobs s)(key := None)\<rparr>"

definition SimpleJobStore_Close :: "SimpleJobStore \<Rightarrow> SimpleJobStore" where
  "SimpleJobStore_Close s = s\<lparr>sjs_jobs := Map.empty\<rparr>"

lemma SimpleJobStore_Get_map: "SimpleJobStore_Get s = sjs_jobs s"
  by (simp add: SimpleJobStore_Get_def fun_eq_iff)

lemmas SimpleJobStore_defs = SimpleJobStore_Create_def SimpleJobStore_Update_def SimpleJobStore_List_def
  SimpleJobStore_Delete_def SimpleJobStore_Close_def

interpretation js: kv_store SimpleJobStore_Create SimpleJobStore_Get SimpleJobStore_Update SimpleJobStore_List
  SimpleJobStore_Delete SimpleJobStore_Close
  by unfold_locales (auto simp: SimpleJobStore_defs SimpleJobStore_Get_map)

subsection \<open>SimpleVolumeStore\<close>

record SimpleVolumeStore =
  svs_volumes :: "string \<rightharpoonup> Volume"

definition SimpleVolumeStore_Create :: "SimpleVolumeStore \<Rightarrow> string \<Rightarrow> Volume \<Rightarrow> SimpleVolumeStore \<times> (store_error, unit) result" where
  "SimpleVolumeStore_Create s key x = (s\<lparr>svs_volumes := (svs_volumes s)(key \<mapsto> x)\<rparr>, Inr ())"

definition SimpleVolumeStore_Get :: "SimpleVolumeStore \<Rightarrow> string \<Rightarrow> Volume option" where
  "SimpleVolumeStore_Get s key = svs_volumes s key"

definition SimpleVolumeStore_Update :: "SimpleVolumeStore \<Rightarrow> string \<Rightarrow> Volume \<Rightarrow> SimpleVolumeStore" where
  "SimpleVolumeStore_Update s key x = s\<lparr>svs_volumes := (svs_volumes s)(key \<mapsto> x)\<rparr>"

definition SimpleVolumeStore_List :: "string list \<Rightarrow> SimpleVolumeStore \<Rightarrow> Volume list" where
  "SimpleVolumeStore_List ks s = range_vals ks (svs_volumes s)"

definition SimpleVolumeStore_Delete :: "SimpleVolumeStore \<Rightarrow> string \<Rightarrow> SimpleVolumeStore" where
  "SimpleVolumeStore_Delete s key = s\<lparr>svs_volumes := (svs_volumes s)(key := None)\<rparr>"

definition SimpleVolumeStore_Close :: "SimpleVolumeStore \<Rightarrow> SimpleVolumeStore" where
  "SimpleVolumeStore_Close s = s\<lparr>svs_volumes := Map.empty\<rparr>"

text \<open>The methods of the interface \<open>VolumeStore\<close>, which count the jobs in the volume itself.\<close>

definition SimpleVolumeStore_CreateVolume :: "SimpleVolumeStore \<Rightarrow> Volume \<Rightarrow> SimpleVolumeStore" where
  "SimpleVolumeStore_CreateVolume s v = s\<lparr>svs_volumes := (svs_volumes s)(v_Name v \<mapsto> v)\<rparr>"

definition SimpleVolumeStore_GetVolume :: "SimpleVolumeStore \<Rightarrow> string \<Rightarrow> Volume option" where
  "SimpleVolumeStore_GetVolume s name = svs_volumes s name"

definition SimpleVolumeStore_ListVolumes :: "string list \<Rightarrow> SimpleVolumeStore \<Rightarrow> Volume list" where
  "SimpleVolumeStore_ListVolumes ks s = range_vals ks (svs_volumes s)"

definition SimpleVolumeStore_RemoveVolume :: "SimpleVolumeStore \<Rightarrow> string \<Rightarrow> SimpleVolumeStore" where
  "SimpleVolumeStore_RemoveVolume s name = s\<lparr>svs_volumes := (svs_volumes s)(name := None)\<rparr>"

definition SimpleVolumeStore_IncrementJobCount :: "SimpleVolumeStore \<Rightarrow> string \<Rightarrow> SimpleVolumeStore" where
  "SimpleVolumeStore_IncrementJobCount s name =
     (case svs_volumes s name of
        None \<Rightarrow> s
      | Some v \<Rightarrow> s\<lparr>svs_volumes := (svs_volumes s)(name \<mapsto> v\<lparr>v_JobCount := int32 (v_JobCount v + 1)\<rparr>)\<rparr>)"

definition SimpleVolumeStore_DecrementJobCount :: "SimpleVolumeStore \<Rightarrow> string \<Rightarrow> SimpleVolumeStore" where
  "SimpleVolumeStore_DecrementJobCount s name =
     (case svs_volumes s name of
        None \<Rightarrow> s
      | Some v \<Rightarrow>
          if v_JobCount v > 0 then s\<lparr>svs_volumes := (svs_volumes s)(name \<mapsto> v\<lparr>v_JobCount := int32 (v_JobCount v - 1)\<rparr>)\<rparr>
          else s)"

lemma SimpleVolumeStore_Get_map: "SimpleVolumeStore_Get s = svs_volumes s"
  by (simp add: SimpleVolumeStore_Get_def fun_eq_iff)

lemmas SimpleVolumeStore_defs = SimpleVolumeStore_Create_def SimpleVolumeStore_Update_def SimpleVolumeStore_List_def
  SimpleVolumeStore_Delete_def SimpleVolumeStore_Close_def

interpretation vs: kv_store SimpleVolumeStore_Create SimpleVolumeStore_Get SimpleVolumeStore_Update SimpleVolumeStore_List
  SimpleVolumeStore_Delete SimpleVolumeStore_Close
  by unfold_locales (auto simp: SimpleVolumeStore_defs SimpleVolumeStore_Get_map)

subsection \<open>SimpleNetworkStore\<close>

record SimpleNetworkStore =
  sns_networks :: "string \<rightharpoonup> NetworkConfig"

definition SimpleNetworkStore_Create :: "SimpleNetworkStore \<Rightarrow> string \<Rightarrow> NetworkConfig \<Rightarrow> SimpleNetworkStore \<times> (store_error, unit) result" where
  "SimpleNetworkStore_Create s key x = (s\<lparr>sns_networks := (sns_networks s)(key \<mapsto> x)\<rparr>, Inr ())"

definition SimpleNetworkStore_Get :: "SimpleNetworkStore \<Rightarrow> string \<Rightarrow> NetworkConfig option" where
  "SimpleNetworkStore_Get s key = sns_networks s key"

definition SimpleNetworkStore_Update :: "SimpleNetworkStore \<Rightarrow> string \<Rightarrow> NetworkConfig \<Rightarrow> SimpleNetworkStore" where
  "SimpleNetworkStore_Update s key x = s\<lparr>sns_networks := (sns_networks s)(key \<mapsto> x)\<rparr>"

definition SimpleNetworkStore_List :: "string list \<Rightarrow> SimpleNetworkStore \<Rightarrow> NetworkConfig list" where
  "SimpleNetworkStore_List ks s = range_vals ks (sns_networks s)"

definition SimpleNetworkStore_Delete :: "SimpleNetworkStore \<Rightarrow> string \<Rightarrow> SimpleNetworkStore" where
  "SimpleNetworkStore_Delete s key = s\<lparr>sns_networks := (sns_networks s)(key := None)\<rparr>"

definition SimpleNetworkStore_Close :: "SimpleNetworkStore \<Rightarrow> SimpleNetworkStore" where
  "SimpleNetworkStore_Close s = s\<lparr>sns_networks := Map.empty\<rparr>"

lemma SimpleNetworkStore_Get_map: "SimpleNetworkStore_Get s = sns_networks s"
  by (simp add: SimpleNetworkStore_Get_def fun_eq_iff)

lemmas SimpleNetworkStore_defs = SimpleNetworkStore_Create_def SimpleNetworkStore_Update_def SimpleNetworkStore_List_def
  SimpleNetworkStore_Delete_def SimpleNetworkStore_Close_def

interpretation ns: kv_store SimpleNetworkStore_Create SimpleNetworkStore_Get SimpleNetworkStore_Update SimpleNetworkStore_List
  SimpleNetworkStore_Delete SimpleNetworkStore_Close
  by unfold_locales (auto simp: SimpleNetworkStore_defs SimpleNetworkStore_Get_map)

subsection \<open>SimpleAllocationStore\<close>

record SimpleAllocationStore =
  sas_allocations :: "string \<rightharpoonup> JobNetworkAllocation"

definition SimpleAllocationStore_Create :: "SimpleAllocationStore \<Rightarrow> string \<Rightarrow> JobNetworkAllocation \<Rightarrow> SimpleAllocationStore \<times> (store_error, unit) result" where
  "SimpleAllocationStore_Create s key x = (s\<lparr>sas_allocations := (sas_allocations s)(key \<mapsto> x)\<rparr>, Inr ())"

definition SimpleAllocationStore_Get :: "SimpleAllocationStore \<Rightarrow> string \<Rightarrow> JobNetworkAllocation option" where
  "SimpleAllocationStore_Get s key = sas_allocations s key"

definition SimpleAllocationStore_Update :: "SimpleAllocationStore \<Rightarrow> string \<Rightarrow> JobNetworkAllocation \<Rightarrow> SimpleAllocationStore" where
  "SimpleAllocationStore_Update s key x = s\<lparr>sas_allocations := (sas_allocations s)(key \<mapsto> x)\<rparr>"

definition SimpleAllocationStore_List :: "string list \<Rightarrow> SimpleAllocationStore \<Rightarrow> JobNetworkAllocation list" where
  "SimpleAllocationStore_List ks s = range_vals ks (sas_allocations s)"

definition SimpleAllocationStore_Delete :: "SimpleAllocationStore \<Rightarrow> string \<Rightarrow> SimpleAllocationStore" where
  "SimpleAllocationStore_Delete s key = s\<lparr>sas_allocations := (sas_allocations s)(key := None)\<rparr>"

definition SimpleAllocationStore_Close :: "SimpleAllocationStore \<Rightarrow> SimpleAllocationStore" where
  "SimpleAllocationStore_Close s = s\<lparr>sas_allocations := Map.empty\<rparr>"

lemma SimpleAllocationStore_Get_map: "SimpleAllocationStore_Get s = sas_allocations s"
  by (simp add: SimpleAllocationStore_Get_def fun_eq_iff)

lemmas SimpleAllocationStore_defs = SimpleAllocationStore_Create_def SimpleAllocationStore_Update_def SimpleAllocationStore_List_def
  SimpleAllocationStore_Delete_def SimpleAllocationStore_Close_def

interpretation als: kv_store SimpleAllocationStore_Create SimpleAllocationStore_Get SimpleAllocationStore_Update SimpleAllocationStore_List
  SimpleAllocationStore_Delete SimpleAllocationStore_Close
  by unfold_locales (auto simp: SimpleAllocationStore_defs SimpleAllocationStore_Get_map)

end
