(* ===== verification/VolumeStore.thy ===== *)
theory VolumeStore
  imports Stores
begin

text \<open>
  The volume store adapter, \<open>internal/joblet/adapters/volume_store_adapter.go\<close>: volumes in a backend
  store and, beside it, the number of jobs that use each volume. A method that reads and writes
  under two locks is split where another call can come in between (\<open>RemoveVolume\<close>).
\<close>

section \<open>State and errors\<close>

record volumeStoreAdapter =
  va_volumeStore :: SimpleVolumeStore
  va_jobCounts :: "string \<rightharpoonup> int"
  va_closed :: bool

datatype volume_error =
    VolumeAdapterClosed
  | VolumeNil
  | VolumeNameEmpty
  | VolumeNameRequired
  | VolumeTypeRequired
  | VolumeTypeInvalid string
  | VolumeSizeNotPositive
  | VolumePathRequired
  | VolumeExists string
  | VolumeStoreError store_error
  | ErrVolumeInUse int
  | ErrVolumeNotFound string

definition NewVolumeStoreAdapter :: "SimpleVolumeStore \<Rightarrow> volumeStoreAdapter" where
  "NewVolumeStoreAdapter store = \<lparr>va_volumeStore = store, va_jobCounts = Map.empty, va_closed = False\<rparr>"

definition NewVolumeStore :: volumeStoreAdapter where
  "NewVolumeStore = NewVolumeStoreAdapter \<lparr>svs_volumes = Map.empty\<rparr>"

section \<open>Operations\<close>

definition validateVolume :: "Volume \<Rightarrow> (volume_error, unit) result" where
  "validateVolume v =
     (if v_Name v = [] then Inl VolumeNameRequired
      else if v_Type v = [] then Inl VolumeTypeRequired
      else if v_Type v \<noteq> VolumeTypeFilesystem \<and> v_Type v \<noteq> VolumeTypeMemory then Inl (VolumeTypeInvalid (v_Type v))
      else if v_SizeBytes v \<le> 0 then Inl VolumeSizeNotPositive
      else if v_Type v = VolumeTypeFilesystem \<and> v_Path v = [] then Inl VolumePathRequired
      else Inr ())"

text \<open>The argument is a pointer: \<open>None\<close> is nil.\<close>

definition CreateVolume ::
  "instant \<Rightarrow> volumeStoreAdapter \<Rightarrow> Volume option \<Rightarrow> volumeStoreAdapter \<times> (volume_error, unit) result" where
  "CreateVolume now a volume =
     (if va_closed a then (a, Inl VolumeAdapterClosed)
      else (case volume of
        None \<Rightarrow> (a, Inl VolumeNil)
      | Some v \<Rightarrow>
          if v_Name v = [] then (a, Inl VolumeNameEmpty)
          else (case validateVolume v of
            Inl err \<Rightarrow> (a, Inl err)
          | Inr _ \<Rightarrow>
              (let v' = v\<lparr>v_CreatedTime := now\<rparr> in
               case SimpleVolumeStore_Create (va_volumeStore a) (v_Name v') v' of
                 (store, Inl err) \<Rightarrow>
                   (a\<lparr>va_volumeStore := store\<rparr>,
                    Inl (if IsConflictError err then VolumeExists (v_Name v') else VolumeStoreError err))
               | (store, Inr _) \<Rightarrow>
                   (a\<lparr>va_volumeStore := store, va_jobCounts := (va_jobCounts a)(v_Name v' \<mapsto> 0)\<rparr>, Inr ())))))"

definition GetVolume :: "volumeStoreAdapter \<Rightarrow> string \<Rightarrow> Volume option" where
  "GetVolume a name =
     (if va_closed a then None
      else if name = [] then None
      else map_option Volume_DeepCopy (SimpleVolumeStore_Get (va_volumeStore a) name))"

definition ListVolumes :: "string list \<Rightarrow> volumeStoreAdapter \<Rightarrow> Volume list" where
  "ListVolumes ks a =
     (if va_closed a then [] else map Volume_DeepCopy (SimpleVolumeStore_List ks (va_volumeStore a)))"

definition job_count :: "volumeStoreAdapter \<Rightarrow> string \<Rightarrow> int" where
  "job_count a name = (case va_jobCounts a name of None \<Rightarrow> 0 | Some n \<Rightarrow> n)"

text \<open>\<open>RemoveVolume\<close> up to the check of the count, and from there on.\<close>

definition RemoveVolume_check :: "volumeStoreAdapter \<Rightarrow> string \<Rightarrow> (volume_error, unit) result" where
  "RemoveVolume_check a name =
     (if va_closed a then Inl VolumeAdapterClosed
      else if name = [] then Inl VolumeNameEmpty
      else if job_count a name > 0 then Inl (ErrVolumeInUse (job_count a name))
      else Inr ())"

definition RemoveVolume_delete :: "volumeStoreAdapter \<Rightarrow> string \<Rightarrow> volumeStoreAdapter \<times> (volume_error, unit) result" where
  "RemoveVolume_delete a name =
     (case SimpleVolumeStore_Get (va_volumeStore a) name of
        None \<Rightarrow> (a, Inl (ErrVolumeNotFound name))
      | Some _ \<Rightarrow>
          (a\<lparr>va_volumeStore := SimpleVolumeStore_Delete (va_volumeStore a) name,
             va_jobCounts := (va_jobCounts a)(name := None)\<rparr>, Inr ()))"

definition RemoveVolume :: "volumeStoreAdapter \<Rightarrow> string \<Rightarrow> volumeStoreAdapter \<times> (volume_error, unit) result" where
  "RemoveVolume a name =
     (case RemoveVolume_check a name of
        Inl err \<Rightarrow> (a, Inl err)
      | Inr _ \<Rightarrow> RemoveVolume_delete a name)"

text \<open>The counts are Go's 64-bit \<open>int\<close>.\<close>

definition IncrementJobCount :: "volumeStoreAdapter \<Rightarrow> string \<Rightarrow> volumeStoreAdapter \<times> (volume_error, unit) result" where
  "IncrementJobCount a name =
     (if va_closed a then (a, Inl VolumeAdapterClosed)
      else if name = [] then (a, Inl VolumeNameEmpty)
      else (case GetVolume a name of
        None \<Rightarrow> (a, Inl (ErrVolumeNotFound name))
      | Some _ \<Rightarrow> (a\<lparr>va_jobCounts := (va_jobCounts a)(name \<mapsto> int64 (job_count a name + 1))\<rparr>, Inr ())))"

definition DecrementJobCount :: "volumeStoreAdapter \<Rightarrow> string \<Rightarrow> volumeStoreAdapter \<times> (volume_error, unit) result" where
  "DecrementJobCount a name =
     (if va_closed a then (a, Inl VolumeAdapterClosed)
      else if name = [] then (a, Inl VolumeNameEmpty)
      else (case va_jobCounts a name of
        None \<Rightarrow> (a, Inl (ErrVolumeNotFound name))
      | Some n \<Rightarrow>
          if n \<le> 0 then (a, Inr ())
          else (a\<lparr>va_jobCounts := (va_jobCounts a)(name \<mapsto> n - 1)\<rparr>, Inr ())))"

definition VolumeAdapter_Close :: "volumeStoreAdapter \<Rightarrow> volumeStoreAdapter \<times> (volume_error, unit) result" where
  "VolumeAdapter_Close a =
     (if va_closed a then (a, Inr ())
      else (a\<lparr>va_closed := True, va_jobCounts := Map.empty,
             va_volumeStore := SimpleVolumeStore_Close (va_volumeStore a)\<rparr>, Inr ()))"

section \<open>Sequences of calls\<close>

datatype volume_op =
    VCreate instant "Volume option"
  | VRemove string
  | VIncrement string
  | VDecrement string
  | VClose

fun volume_step :: "volume_op \<Rightarrow> volumeStoreAdapter \<Rightarrow> volumeStoreAdapter" where
  "volume_step (VCreate now v) a = fst (CreateVolume now a v)"
| "volume_step (VRemove name) a = fst (RemoveVolume a name)"
| "volume_step (VIncrement name) a = fst (IncrementJobCount a name)"
| "volume_step (VDecrement name) a = fst (DecrementJobCount a name)"
| "volume_step VClose a = fst (VolumeAdapter_Close a)"

definition volume_run :: "volume_op list \<Rightarrow> volumeStoreAdapter \<Rightarrow> volumeStoreAdapter" where
  "volume_run ops a = fold volume_step ops a"

text \<open>
  The counted volumes are the stored ones; each is stored under its name, has passed validation and
  has a count that is not negative and far from wrapping around.
\<close>

definition volume_inv :: "nat \<Rightarrow> volumeStoreAdapter \<Rightarrow> bool" where
  "volume_inv n a \<longleftrightarrow>
     dom (va_jobCounts a) = dom (SimpleVolumeStore_Get (va_volumeStore a)) \<and>
     (\<forall>name v. SimpleVolumeStore_Get (va_volumeStore a) name = Some v \<longrightarrow>
        v_Name v = name \<and> name \<noteq> [] \<and> validateVolume v = Inr ()) \<and>
     (\<forall>name c. va_jobCounts a name = Some c \<longrightarrow> 0 \<le> c \<and> c \<le> int n) \<and>
     (va_closed a \<longrightarrow> va_jobCounts a = Map.empty)"

lemmas volume_op_defs = CreateVolume_def RemoveVolume_def RemoveVolume_check_def RemoveVolume_delete_def
  IncrementJobCount_def DecrementJobCount_def VolumeAdapter_Close_def

lemma job_count_bounds: "volume_inv n a \<Longrightarrow> 0 \<le> job_count a name \<and> job_count a name \<le> int n"
  by (auto simp: volume_inv_def job_count_def split: option.splits)

lemma GetVolume_None:
  "\<not> va_closed a \<Longrightarrow> name \<noteq> [] \<Longrightarrow> GetVolume a name = None \<longleftrightarrow> SimpleVolumeStore_Get (va_volumeStore a) name = None"
  by (simp add: GetVolume_def)

lemma validateVolume_created [simp]: "validateVolume (v\<lparr>v_CreatedTime := t\<rparr>) = validateVolume v"
  by (simp add: validateVolume_def)

lemma CreateVolume_cases:
  assumes "CreateVolume now a volume = (a', r)"
  shows "a' = a \<and> (\<exists>e. r = Inl e) \<or>
    (\<exists>v. volume = Some v \<and> \<not> va_closed a \<and> v_Name v \<noteq> [] \<and> validateVolume v = Inr () \<and> r = Inr () \<and>
      a' = a\<lparr>va_volumeStore := fst (SimpleVolumeStore_Create (va_volumeStore a) (v_Name v) (v\<lparr>v_CreatedTime := now\<rparr>)),
             va_jobCounts := (va_jobCounts a)(v_Name v \<mapsto> 0)\<rparr>)"
proof (cases volume)
  case (Some v)
  show ?thesis
  proof (cases "validateVolume v")
    case (Inr u)
    with Some assms show ?thesis
      by (auto simp: CreateVolume_def SimpleVolumeStore_Create_def Let_def split: if_splits)
  next
    case (Inl e)
    with Some assms show ?thesis by (auto simp: CreateVolume_def split: if_splits) metis
  qed
qed (use assms in \<open>auto simp: CreateVolume_def split: if_splits\<close>)

lemma volume_step_inv:
  assumes inv: "volume_inv n a" and n: "n < 2 ^ 62"
  shows "volume_inv (Suc n) (volume_step op a)"
proof (cases op)
  case (VCreate now volume)
  obtain a' r where c: "CreateVolume now a volume = (a', r)" by fastforce
  with VCreate have e: "volume_step op a = a'" by simp
  from CreateVolume_cases [OF c] show ?thesis
  proof (elim disjE exE conjE)
    assume "a' = a"
    with inv show ?thesis unfolding e volume_inv_def by fastforce
  next
    fix v assume v: "volume = Some v" "\<not> va_closed a" "v_Name v \<noteq> []" "validateVolume v = Inr ()"
      "a' = a\<lparr>va_volumeStore := fst (SimpleVolumeStore_Create (va_volumeStore a) (v_Name v) (v\<lparr>v_CreatedTime := now\<rparr>)),
             va_jobCounts := (va_jobCounts a)(v_Name v \<mapsto> 0)\<rparr>"
    show ?thesis
      using inv v(2-4) unfolding e v(5) volume_inv_def by (auto simp: vs.get_create split: if_splits) fastforce
  qed
next
  case (VIncrement name)
  have "int64 (job_count a name + 1) = job_count a name + 1"
    using job_count_bounds [OF inv, of name] n by (intro wrap_int_id) (auto simp: int_fits_def)
  then show ?thesis
    using VIncrement inv job_count_bounds [OF inv, of name] unfolding volume_inv_def
    by (auto simp: IncrementJobCount_def GetVolume_def split: if_splits option.splits) fastforce+
next
  case (VRemove name)
  then show ?thesis using inv unfolding volume_inv_def
    by (auto simp: RemoveVolume_def RemoveVolume_check_def RemoveVolume_delete_def vs.get_delete
      split: if_splits option.splits sum.splits) fastforce+
next
  case (VDecrement name)
  then show ?thesis using inv unfolding volume_inv_def
    by (auto simp: DecrementJobCount_def split: if_splits option.splits) fastforce+
next
  case VClose
  then show ?thesis using inv unfolding volume_inv_def
    by (auto simp: VolumeAdapter_Close_def vs.get_close)
qed

lemma volume_run_inv:
  "volume_inv n a \<Longrightarrow> n + length ops < 2 ^ 62 \<Longrightarrow> volume_inv (n + length ops) (volume_run ops a)"
proof (induction ops arbitrary: n a)
  case (Cons op ops)
  then have "volume_inv (Suc n) (volume_step op a)" by (intro volume_step_inv) auto
  from Cons.IH [OF this] Cons.prems show ?case by (simp add: volume_run_def)
qed (simp add: volume_run_def)

lemma new_store_inv: "volume_inv 0 NewVolumeStore"
  by (simp add: volume_inv_def NewVolumeStore_def NewVolumeStoreAdapter_def SimpleVolumeStore_Get_map)

text \<open>
  The counter and the store agree: after any sequence of calls (fewer than \<open>2 ^ 62\<close>) on a new
  adapter, the volumes that have a count are exactly those that are stored, \<open>ListVolumes\<close> shows each
  of them once, as \<open>GetVolume\<close> returns it, and every stored volume is valid and kept under its name.
\<close>

theorem volume_store_consistent:
  assumes "length ops < 2 ^ 62" "range_order ks (SimpleVolumeStore_Get (va_volumeStore (volume_run ops NewVolumeStore)))"
  shows "let a = volume_run ops NewVolumeStore in
    (\<forall>name. va_jobCounts a name \<noteq> None \<longleftrightarrow> GetVolume a name \<noteq> None) \<and>
    (\<forall>name v. GetVolume a name = Some v \<longrightarrow> v_Name v = name \<and> validateVolume v = Inr ()) \<and>
    set (ListVolumes ks a) = {v. \<exists>name. GetVolume a name = Some v} \<and> distinct (map v_Name (ListVolumes ks a)) \<and>
    (\<forall>name. 0 \<le> job_count a name)"
proof -
  let ?a = "volume_run ops NewVolumeStore"
  have inv: "volume_inv (length ops) ?a" using volume_run_inv [OF new_store_inv, of ops] assms(1) by simp
  have copy: "Volume_DeepCopy v = v" for v by (simp add: Volume_DeepCopy_def)
  have get: "GetVolume ?a name = SimpleVolumeStore_Get (va_volumeStore ?a) name" for name
  proof (cases "va_closed ?a \<or> name = []")
    case True
    then have "SimpleVolumeStore_Get (va_volumeStore ?a) name = None"
      using inv unfolding volume_inv_def by (metis dom_empty domIff empty_iff not_Some_eq)
    with True show ?thesis by (auto simp: GetVolume_def)
  next
    case False
    then show ?thesis
      by (cases "SimpleVolumeStore_Get (va_volumeStore ?a) name") (simp_all add: GetVolume_def copy)
  qed
  have list: "ListVolumes ks ?a = SimpleVolumeStore_List ks (va_volumeStore ?a)"
  proof (cases "va_closed ?a")
    case True
    then have "SimpleVolumeStore_Get (va_volumeStore ?a) = Map.empty"
      using inv unfolding volume_inv_def by (metis dom_empty dom_eq_empty_conv)
    then have "SimpleVolumeStore_List ks (va_volumeStore ?a) = []"
      using vs.set_list [OF assms(2)] by simp
    with True show ?thesis by (simp add: ListVolumes_def)
  qed (simp add: ListVolumes_def copy map_idI)
  have "map v_Name (SimpleVolumeStore_List ks (va_volumeStore ?a)) = ks"
    unfolding vs.list_get range_vals_map [OF assms(2)] map_map
    by (rule map_idI) (use assms(2) inv in \<open>auto simp: range_order_def volume_inv_def\<close>)
  with assms(2) have d: "distinct (map v_Name (ListVolumes ks ?a))" by (simp add: list range_order_def)
  have s: "set (ListVolumes ks ?a) = {v. \<exists>name. GetVolume ?a name = Some v}"
    using vs.set_list [OF assms(2)] by (auto simp: list get ran_def)
  have c: "va_jobCounts ?a name \<noteq> None \<longleftrightarrow> GetVolume ?a name \<noteq> None" for name
    using inv unfolding get volume_inv_def by (metis domIff)
  have v: "v_Name v = name \<and> validateVolume v = Inr ()" if "GetVolume ?a name = Some v" for name v
    using inv that unfolding get volume_inv_def by blast
  show ?thesis unfolding Let_def using c v s d job_count_bounds [OF inv] by blast
qed

text \<open>A valid volume.\<close>

definition demo_volume :: Volume where
  "demo_volume = \<lparr>v_Name = ''data'', v_Type = VolumeTypeMemory, v_Size = ''1GB'', v_SizeBytes = 1073741824,
     v_Path = [], v_CreatedTime = 0, v_JobCount = 0\<rparr>"

lemma demo_volume_run:
  "SimpleVolumeStore_Get (va_volumeStore (volume_run [VCreate 3 (Some demo_volume), VIncrement ''data''] NewVolumeStore)) =
     [''data'' \<mapsto> demo_volume\<lparr>v_CreatedTime := 3\<rparr>]"
  by (simp add: volume_run_def CreateVolume_def NewVolumeStore_def NewVolumeStoreAdapter_def demo_volume_def
    validateVolume_def SimpleVolumeStore_Create_def IncrementJobCount_def GetVolume_def SimpleVolumeStore_Get_map
    VolumeTypeMemory_def VolumeTypeFilesystem_def)

theorem volume_store_consistent_witness:
  "let a = volume_run [VCreate 3 (Some demo_volume), VIncrement ''data''] NewVolumeStore in
     set (ListVolumes [''data''] a) = {v. \<exists>name. GetVolume a name = Some v}"
  using volume_store_consistent [of "[VCreate 3 (Some demo_volume), VIncrement ''data'']" "[''data'']"]
  by (simp add: demo_volume_run range_order_def Let_def)

section \<open>Volumes in use\<close>

text \<open>Calls that neither end a use of \<open>name\<close> nor create it anew nor close the store.\<close>

fun keeps_use :: "string \<Rightarrow> volume_op \<Rightarrow> bool" where
  "keeps_use name (VCreate now v) = (case v of None \<Rightarrow> True | Some v \<Rightarrow> v_Name v \<noteq> name)"
| "keeps_use name (VDecrement n) = (n \<noteq> name)"
| "keeps_use name VClose = False"
| "keeps_use name _ = True"

definition in_use :: "string \<Rightarrow> volumeStoreAdapter \<Rightarrow> bool" where
  "in_use name a \<longleftrightarrow> \<not> va_closed a \<and> name \<noteq> [] \<and> job_count a name > 0 \<and> GetVolume a name \<noteq> None"

lemma keeps_use_step:
  assumes "in_use name a" "keeps_use name op" "volume_inv n a" "n < 2 ^ 62"
  shows "in_use name (volume_step op a)"
proof (cases op)
  case (VCreate now volume)
  obtain a' r where c: "CreateVolume now a volume = (a', r)" by fastforce
  from CreateVolume_cases [OF c] VCreate assms(1,2) c show ?thesis
    by (auto simp: in_use_def job_count_def GetVolume_def vs.get_create)
next
  case (VIncrement m)
  have "int64 (job_count a m + 1) = job_count a m + 1"
    using job_count_bounds [OF assms(3), of m] assms(4) by (intro wrap_int_id) (auto simp: int_fits_def)
  with VIncrement assms(1) show ?thesis
    by (auto simp: in_use_def IncrementJobCount_def job_count_def GetVolume_def split: option.splits)
next
  case (VRemove m)
  with assms(1) show ?thesis
    by (auto simp: in_use_def RemoveVolume_def RemoveVolume_check_def RemoveVolume_delete_def job_count_def GetVolume_def
      vs.get_delete split: option.splits sum.splits if_splits)
next
  case (VDecrement m)
  with assms(1,2) show ?thesis
    by (auto simp: in_use_def DecrementJobCount_def job_count_def GetVolume_def split: option.splits)
qed (use assms(2) in simp)

lemma keeps_use_run:
  "in_use name a \<Longrightarrow> list_all (keeps_use name) ops \<Longrightarrow> volume_inv n a \<Longrightarrow> n + length ops < 2 ^ 62 \<Longrightarrow>
    in_use name (volume_run ops a)"
proof (induction ops arbitrary: n a)
  case (Cons op ops)
  have n: "n < 2 ^ 62" "Suc n + length ops < 2 ^ 62" using Cons.prems(4) by auto
  have "in_use name (volume_step op a)" using Cons.prems n by (intro keeps_use_step) auto
  from Cons.IH [OF this _ volume_step_inv [OF Cons.prems(3) n(1)] n(2)] Cons.prems(2)
  show ?case by (simp add: volume_run_def)
qed (simp add: volume_run_def)



text \<open>
  The exceptions are needed. Creating a volume of a name that exists succeeds and sets its count
  to zero, after which \<open>RemoveVolume\<close> removes the volume while a job uses it; and a call of
  \<open>IncrementJobCount\<close> that comes between the two halves of \<open>RemoveVolume\<close> succeeds, and the volume is
  removed all the same.
\<close>

theorem volume_in_use_removed:
  assumes "a = volume_run [VCreate t (Some demo_volume), VIncrement ''data''] NewVolumeStore"
    "b = volume_run [VCreate t (Some demo_volume)] NewVolumeStore"
  shows "job_count a ''data'' = 1 \<and> snd (CreateVolume t' a (Some demo_volume)) = Inr () \<and>
    snd (RemoveVolume (fst (CreateVolume t' a (Some demo_volume))) ''data'') = Inr () \<and>
    RemoveVolume_check b ''data'' = Inr () \<and> snd (IncrementJobCount b ''data'') = Inr () \<and>
    snd (RemoveVolume_delete (fst (IncrementJobCount b ''data'')) ''data'') = Inr ()"
  unfolding assms
  by (simp add: volume_run_def volume_op_defs NewVolumeStore_def NewVolumeStoreAdapter_def demo_volume_def
    validateVolume_def SimpleVolumeStore_Create_def GetVolume_def SimpleVolumeStore_Get_map job_count_def
    VolumeTypeMemory_def VolumeTypeFilesystem_def wrap_int_def)

theorem volume_in_use_removed_witness:
  "snd (RemoveVolume (fst (CreateVolume 5 (volume_run [VCreate 3 (Some demo_volume), VIncrement ''data'']
     NewVolumeStore) (Some demo_volume))) ''data'') = Inr ()"
  using volume_in_use_removed [OF refl refl, of 3 5] by blast

end
