(* ===== verification/Net.thy ===== *)
theory Net
  imports Prelude
begin

unbundle bit_operations_syntax

text \<open>
  What the sources use of Go's package \<open>net\<close>: addresses as byte strings of length 4 or 16, networks,
  \<open>ParseCIDR\<close> and \<open>ParseIP\<close>. The parsing and printing of IPv6 literals is left to two parameters,
  \<open>addr6\<close> and \<open>str6\<close>; everything about IPv4 is defined here.
\<close>

section \<open>Addresses\<close>

type_synonym IP = "8 word list"

record IPNet =
  net_IP :: IP
  net_Mask :: "8 word list"

definition To4 :: "IP \<Rightarrow> IP option" where
  "To4 ip =
     (if length ip = 4 then Some ip
      else if length ip = 16 \<and> take 12 ip = replicate 10 0 @ [255, 255] then Some (drop 12 ip)
      else None)"

definition IP_Equal :: "IP \<Rightarrow> IP \<Rightarrow> bool" where
  "IP_Equal ip x \<longleftrightarrow>
     ip = x \<or> (length ip = 4 \<and> To4 x = Some ip) \<or> (length x = 4 \<and> To4 ip = Some x)"

text \<open>\<open>net.CIDRMask(n, 8 * k)\<close>.\<close>

fun CIDRMask :: "nat \<Rightarrow> nat \<Rightarrow> 8 word list" where
  "CIDRMask n 0 = []"
| "CIDRMask n (Suc k) =
     (if 8 \<le> n then 255 # CIDRMask (n - 8) k else NOT (drop_bit n 255) # CIDRMask 0 k)"

definition IP_Mask :: "IP \<Rightarrow> 8 word list \<Rightarrow> IP" where
  "IP_Mask ip m = map2 (AND) ip m"

text \<open>\<open>networkNumberAndMask\<close> and \<open>IPNet.Contains\<close>.\<close>

definition networkNumberAndMask :: "IPNet \<Rightarrow> IP \<times> 8 word list" where
  "networkNumberAndMask n =
     (case To4 (net_IP n) of
        Some ip \<Rightarrow> (ip, if length (net_Mask n) = 16 then drop 12 (net_Mask n) else net_Mask n)
      | None \<Rightarrow> (net_IP n, net_Mask n))"

definition IPNet_Contains :: "IPNet \<Rightarrow> IP \<Rightarrow> bool" where
  "IPNet_Contains n ip =
     (let (nn, m) = networkNumberAndMask n;
          x = (case To4 ip of Some ip4 \<Rightarrow> ip4 | None \<Rightarrow> ip)
      in length x = length nn \<and> IP_Mask nn m = IP_Mask x m)"

definition dotted :: "IP \<Rightarrow> string" where
  "dotted ip = Join ''.'' (map (\<lambda>b. nat_digits (unat b)) ip)"

definition IP_String :: "(IP \<Rightarrow> string) \<Rightarrow> IP \<Rightarrow> string" where
  "IP_String str6 ip = (case To4 ip of Some ip4 \<Rightarrow> dotted ip4 | None \<Rightarrow> str6 ip)"

section \<open>Parsing\<close>

definition digits_val :: "string \<Rightarrow> nat" where
  "digits_val s = foldl (\<lambda>v c. v * 10 + (byte_val c - 48)) 0 s"

text \<open>A field of an IPv4 literal: one to three digits, no leading zero, at most 255.\<close>

definition octet :: "string \<Rightarrow> 8 word option" where
  "octet s =
     (if s \<noteq> [] \<and> list_all is_digit s \<and> \<not> (length s > 1 \<and> hd s = CHR ''0'') \<and> digits_val s \<le> 255
      then Some (word_of_nat (digits_val s)) else None)"

fun octets :: "string list \<Rightarrow> IP option" where
  "octets [] = Some []"
| "octets (f # fs) =
     (case octet f of None \<Rightarrow> None
      | Some b \<Rightarrow> (case octets fs of None \<Rightarrow> None | Some bs \<Rightarrow> Some (b # bs)))"

definition parse4 :: "string \<Rightarrow> IP option" where
  "parse4 s = (let fs = Split (CHR ''.'') s in if length fs = 4 then octets fs else None)"

text \<open>The first of the characters \<open>.\<close>, \<open>:\<close> and \<open>%\<close> says what kind of literal it is.\<close>

definition ParseAddr :: "(string \<Rightarrow> IP option) \<Rightarrow> string \<Rightarrow> IP option" where
  "ParseAddr addr6 s =
     (case dropWhile (\<lambda>c. c \<notin> {CHR ''.'', CHR '':'', CHR ''%''}) s of
        [] \<Rightarrow> None
      | c # _ \<Rightarrow> if c = CHR ''.'' then parse4 s else if c = CHR '':'' then addr6 s else None)"

definition ParseCIDR :: "(string \<Rightarrow> IP option) \<Rightarrow> string \<Rightarrow> IPNet option" where
  "ParseCIDR addr6 s =
     (let addr = takeWhile (\<lambda>c. c \<noteq> CHR ''/'') s; mask = drop (Suc (length addr)) s in
      if CHR ''/'' \<notin> set s then None
      else (case ParseAddr addr6 addr of
        None \<Rightarrow> None
      | Some ip \<Rightarrow>
          if mask = [] \<or> \<not> list_all is_digit mask \<or> digits_val mask > 8 * length ip then None
          else (let m = CIDRMask (digits_val mask) (length ip)
                in Some \<lparr>net_IP = IP_Mask ip m, net_Mask = m\<rparr>)))"

section \<open>Addresses as numbers\<close>

definition ip_val :: "IP \<Rightarrow> nat" where
  "ip_val ip = foldl (\<lambda>v b. v * 256 + unat b) 0 ip"

lemma ip_val_snoc: "ip_val (xs @ [b]) = ip_val xs * 256 + unat b"
  by (simp add: ip_val_def)

lemma ip_val_Nil [simp]: "ip_val [] = 0"
  by (simp add: ip_val_def)

lemma foldl_ip: "foldl (\<lambda>v b. v * 256 + unat b) v xs = v * 256 ^ length xs + ip_val xs"
proof (induction xs rule: rev_induct)
  case (snoc x xs)
  then show ?case by (simp add: ip_val_snoc algebra_simps)
qed simp

lemma ip_val_Cons: "ip_val (b # xs) = unat b * 256 ^ length xs + ip_val xs"
  using foldl_ip [of "unat b" xs] by (simp add: ip_val_def)

lemma unat_byte: "unat (b :: 8 word) < 256"
  using unsigned_less [of b] by simp

lemma ip_val_less: "ip_val xs < 256 ^ length xs"
proof (induction xs)
  case (Cons b xs)
  have "unat b * 256 ^ length xs + ip_val xs < unat b * 256 ^ length xs + 256 ^ length xs" using Cons by simp
  also have "\<dots> = Suc (unat b) * 256 ^ length xs" by simp
  also have "\<dots> \<le> 256 * 256 ^ length xs" using unat_byte [of b] by (intro mult_le_mono1) simp
  finally show ?case by (simp add: ip_val_Cons)
qed simp

lemma ip_val_inj: "length xs = length ys \<Longrightarrow> ip_val xs = ip_val ys \<Longrightarrow> xs = ys"
proof (induction xs ys rule: list_induct2)
  case (Cons x xs y ys)
  let ?B = "256 ^ length xs :: nat"
  have lt: "ip_val xs < ?B" "ip_val ys < ?B" using ip_val_less [of xs] ip_val_less [of ys] Cons.hyps by auto
  have e: "unat x * ?B + ip_val xs = unat y * ?B + ip_val ys" using Cons.prems Cons.hyps by (simp add: ip_val_Cons)
  have "(unat x * ?B + ip_val xs) div ?B = unat x" "(unat y * ?B + ip_val ys) div ?B = unat y"
    using lt by (simp_all add: div_mult_self3)
  with e have "unat x = unat y" by metis
  then have "x = y" by (rule unsigned_word_eqI)
  moreover have "ip_val xs = ip_val ys" using e \<open>unat x = unat y\<close> by simp
  ultimately show ?case using Cons.IH by simp
qed simp

text \<open>One byte under a mask that keeps all but its low \<open>j\<close> bits.\<close>

lemma byte_mask:
  assumes "j \<le> 8"
  shows "unat (x AND NOT (mask j) :: 8 word) = unat x div 2 ^ j * 2 ^ j"
proof -
  have "x AND NOT (mask j) = push_bit j (drop_bit j x)"
    by (rule bit_eqI) (auto simp: bit_simps)
  then have "unat (x AND NOT (mask j)) = take_bit LENGTH(8) (push_bit j (drop_bit j (unat x)))"
    by (simp only: unsigned_push_bit_eq unat_drop_bit_eq)
  also have "\<dots> = take_bit 8 (unat x div 2 ^ j * 2 ^ j)"
    by (simp only: push_bit_eq_mult [where 'a = nat] drop_bit_eq_div [where 'a = nat]) simp
  also have "\<dots> = unat x div 2 ^ j * 2 ^ j"
    using unat_byte [of x] by (simp add: take_bit_nat_eq_self le_less_trans [OF div_times_less_eq_dividend])
  finally show ?thesis .
qed

lemma unat_low_mask:
  assumes "j \<le> 8"
  shows "unat (mask j :: 8 word) = 2 ^ j - 1"
proof -
  have "int (unat (mask j :: 8 word)) = mask (min LENGTH(8) j)" by (simp only: of_nat_unat uint_mask_eq)
  also have "\<dots> = 2 ^ j - 1" using assms by (simp add: min_def mask_eq_exp_minus_1)
  finally show ?thesis by (simp add: of_nat_diff flip: of_nat_eq_iff [where 'a = int])
qed

lemma byte_or_mask:
  assumes "j \<le> 8"
  shows "unat (x OR mask j :: 8 word) = unat x div 2 ^ j * 2 ^ j + (2 ^ j - 1)"
proof -
  have "(x AND NOT (mask j)) + mask j = (x AND NOT (mask j)) OR mask j"
    by (rule disjunctive_add) (simp add: bit_simps)
  also have "\<dots> = x OR mask j" by (rule bit_eqI) (auto simp: bit_simps)
  finally have "unat (x OR mask j) = unat ((x AND NOT (mask j)) + mask j)" by simp
  also have "\<dots> = (unat (x AND NOT (mask j)) + unat (mask j :: 8 word)) mod 2 ^ LENGTH(8)"
    by (rule unat_word_ariths(1))
  finally have "unat (x OR mask j) = (unat (x AND NOT (mask j)) + unat (mask j :: 8 word)) mod 256"
    by simp
  moreover have "unat x div 2 ^ j * 2 ^ j + (2 ^ j - 1) < 256"
  proof -
    have e: "(256 :: nat) = 2 ^ (8 - j) * 2 ^ j" using assms by (simp flip: power_add)
    have "unat x div 2 ^ j < 2 ^ (8 - j)" using unat_byte [of x] unfolding e by (simp add: less_mult_imp_div_less)
    then have "Suc (unat x div 2 ^ j) * 2 ^ j \<le> 256" unfolding e by (intro mult_le_mono1) simp
    moreover have "0 < (2 :: nat) ^ j" by simp
    ultimately show ?thesis by simp
  qed
  ultimately show ?thesis using assms by (simp add: byte_mask unat_low_mask)
qed

lemma all_ones: "(255 :: 8 word) = mask 8"
  by (simp add: mask_eq_exp_minus_1)

lemma mask_byte: "n \<le> 8 \<Longrightarrow> NOT (drop_bit n 255) = NOT (mask (8 - n) :: 8 word)"
  unfolding all_ones by (rule bit_eqI) (auto simp: bit_simps)

lemma length_CIDRMask [simp]: "length (CIDRMask n k) = k"
  by (induction n k rule: CIDRMask.induct) auto

lemma CIDRMask_zero: "CIDRMask 0 k = replicate k 0"
proof (induction k)
  case (Suc k)
  have "NOT (255 :: 8 word) = 0" by simp
  with Suc show ?case by simp
qed simp

text \<open>
  Masking with a prefix of \<open>n\<close> bits clears the low \<open>h = 8 k - n\<close> bits of the number, and the
  broadcast address sets them.
\<close>

lemma val_masked_aux:
  fixes x v l h :: nat
  assumes "v < 256 ^ l" "h \<le> 8 * l"
  shows "(x * 256 ^ l + v) div 2 ^ h * 2 ^ h = x * 256 ^ l + v div 2 ^ h * 2 ^ h"
proof -
  have "(256 :: nat) ^ l = 2 ^ (8 * l)" by (simp add: power_mult)
  then have "(256 :: nat) ^ l = 2 ^ h * 2 ^ (8 * l - h)" using assms(2) by (simp flip: power_add)
  then have "x * 256 ^ l + v = v + 2 ^ h * (x * 2 ^ (8 * l - h))" by simp
  then have "(x * 256 ^ l + v) div 2 ^ h = x * 2 ^ (8 * l - h) + v div 2 ^ h"
    by (simp only: div_mult_self2 [of "2 ^ h"]) simp
  with \<open>(256 :: nat) ^ l = 2 ^ h * 2 ^ (8 * l - h)\<close> show ?thesis by (simp add: algebra_simps)
qed

lemma val_masked:
  "length ip = k \<Longrightarrow> n \<le> 8 * k \<Longrightarrow>
    ip_val (IP_Mask ip (CIDRMask n k)) = ip_val ip div 2 ^ (8 * k - n) * 2 ^ (8 * k - n)"
proof (induction n k arbitrary: ip rule: CIDRMask.induct)
  case (2 n k)
  then obtain x xs where ip: "ip = x # xs" "length xs = k" by (cases ip) auto
  have full: "x AND 255 = x" unfolding all_ones by (simp add: take_bit_word_eq_self flip: take_bit_eq_mask)
  show ?case
  proof (cases "8 \<le> n")
    case True
    have "ip_val (IP_Mask xs (CIDRMask (n - 8) k)) = ip_val xs div 2 ^ (8 * k - (n - 8)) * 2 ^ (8 * k - (n - 8))"
      using 2 True ip by auto
    moreover have "8 * k - (n - 8) = 8 * Suc k - n" using True by simp
    moreover have "ip_val xs < 256 ^ k" using ip_val_less [of xs] ip by simp
    ultimately show ?thesis
      using True ip 2(4) full val_masked_aux [of "ip_val xs" k "8 * Suc k - n" "unat x"]
      by (simp add: IP_Mask_def ip_val_Cons)
  next
    case False
    have "ip_val (IP_Mask xs (replicate k 0)) = 0" using ip(2)
      by (induction xs arbitrary: k) (auto simp: IP_Mask_def ip_val_Cons)
    then have l: "ip_val (IP_Mask ip (CIDRMask n (Suc k))) = unat x div 2 ^ (8 - n) * 2 ^ (8 - n) * 256 ^ k"
      using False ip byte_mask [of "8 - n" x] by (simp add: IP_Mask_def ip_val_Cons CIDRMask_zero mask_byte)
    have e: "(2 :: nat) ^ (8 * Suc k - n) = 256 ^ k * 2 ^ (8 - n)"
    proof -
      have "8 * Suc k - n = 8 * k + (8 - n)" using False by simp
      then show ?thesis by (simp only: power_add power_mult) simp
    qed
    have "ip_val ip div 2 ^ (8 * Suc k - n) = unat x div 2 ^ (8 - n)"
      unfolding e div_mult2_eq using ip ip_val_less [of xs] by (simp add: ip_val_Cons)
    then show ?thesis unfolding l e by simp
  qed
qed (simp add: IP_Mask_def)

lemma val_or_hostmask:
  "length ip = k \<Longrightarrow> n \<le> 8 * k \<Longrightarrow>
    ip_val (map2 (\<lambda>b m. b OR NOT m) ip (CIDRMask n k)) =
    ip_val ip div 2 ^ (8 * k - n) * 2 ^ (8 * k - n) + (2 ^ (8 * k - n) - 1)"
proof (induction n k arbitrary: ip rule: CIDRMask.induct)
  case (2 n k)
  then obtain x xs where ip: "ip = x # xs" "length xs = k" by (cases ip) auto
  have none: "x OR NOT 255 = x" unfolding all_ones by (rule bit_eqI) (auto simp: bit_simps)
  show ?case
  proof (cases "8 \<le> n")
    case True
    have "ip_val (map2 (\<lambda>b m. b OR NOT m) xs (CIDRMask (n - 8) k)) =
        ip_val xs div 2 ^ (8 * k - (n - 8)) * 2 ^ (8 * k - (n - 8)) + (2 ^ (8 * k - (n - 8)) - 1)"
      using 2 True ip by auto
    moreover have "8 * k - (n - 8) = 8 * Suc k - n" using True by simp
    moreover have "ip_val xs < 256 ^ k" using ip_val_less [of xs] ip by simp
    ultimately have "ip_val (map2 (\<lambda>b m. b OR NOT m) ip (CIDRMask n (Suc k))) =
        unat x * 256 ^ k + (ip_val xs div 2 ^ (8 * Suc k - n) * 2 ^ (8 * Suc k - n) + (2 ^ (8 * Suc k - n) - 1))"
      using True ip none by (simp add: ip_val_Cons del: mult_Suc_right)
    also have "\<dots> = ip_val ip div 2 ^ (8 * Suc k - n) * 2 ^ (8 * Suc k - n) + (2 ^ (8 * Suc k - n) - 1)"
    proof -
      have "8 * Suc k - n \<le> 8 * k" using True by simp
      then have "ip_val ip div 2 ^ (8 * Suc k - n) * 2 ^ (8 * Suc k - n) =
          unat x * 256 ^ k + ip_val xs div 2 ^ (8 * Suc k - n) * 2 ^ (8 * Suc k - n)"
        using val_masked_aux [of "ip_val xs" k "8 * Suc k - n" "unat x"] ip ip_val_less [of xs]
        by (simp only: ip_val_Cons)
      then show ?thesis by (simp only: add.assoc)
    qed
    finally show ?thesis .
  next
    case False
    have "ip_val (map2 (\<lambda>b m. b OR NOT m) xs (replicate k 0)) = 256 ^ k - 1" using ip(2)
    proof (induction xs arbitrary: k)
      case (Cons y ys)
      have "(- 1 :: 8 word) = mask 8" by (rule bit_eqI) (auto simp: bit_simps)
      then have "unat (- 1 :: 8 word) = 255" using unat_low_mask [of 8] by simp
      with Cons show ?case by (auto simp: ip_val_Cons algebra_simps)
    qed simp
    moreover have "x OR NOT (NOT (mask (8 - n))) = x OR mask (8 - n)" by simp
    ultimately have l: "ip_val (map2 (\<lambda>b m. b OR NOT m) ip (CIDRMask n (Suc k))) =
        (unat x div 2 ^ (8 - n) * 2 ^ (8 - n) + (2 ^ (8 - n) - 1)) * 256 ^ k + (256 ^ k - 1)"
      using False ip byte_or_mask [of "8 - n" x] by (simp add: ip_val_Cons CIDRMask_zero mask_byte)
    have e: "(2 :: nat) ^ (8 * Suc k - n) = 256 ^ k * 2 ^ (8 - n)"
    proof -
      have "8 * Suc k - n = 8 * k + (8 - n)" using False by simp
      then show ?thesis by (simp only: power_add power_mult) simp
    qed
    have d: "ip_val ip div 2 ^ (8 * Suc k - n) = unat x div 2 ^ (8 - n)"
      unfolding e div_mult2_eq using ip ip_val_less [of xs] by (simp add: ip_val_Cons)
    have "(a + (b - 1)) * c + (c - 1) = a * c + (c * b - 1)" if "0 < b" "0 < c" for a b c :: nat
      using that by (cases b; cases c) (simp_all add: algebra_simps)
    then show ?thesis unfolding l d unfolding e by (simp add: ac_simps)
  qed
qed simp

text \<open>The address of a number.\<close>

primrec ip_of :: "nat \<Rightarrow> nat \<Rightarrow> IP" where
  "ip_of 0 v = []"
| "ip_of (Suc k) v = ip_of k (v div 256) @ [word_of_nat (v mod 256)]"

lemma length_ip_of [simp]: "length (ip_of k v) = k"
  by (induction k arbitrary: v) auto

lemma ip_val_of: "v < 256 ^ k \<Longrightarrow> ip_val (ip_of k v) = v"
proof (induction k arbitrary: v)
  case (Suc k)
  then have "v div 256 < 256 ^ k" by (simp add: less_mult_imp_div_less ac_simps)
  moreover have "unat (word_of_nat (v mod 256) :: 8 word) = v mod 256"
    by (simp add: unat_of_nat)
  ultimately show ?case using Suc.IH by (simp add: ip_val_snoc)
qed simp

lemma ip_of_val: "ip_of (length ip) (ip_val ip) = ip"
  by (rule ip_val_inj) (simp_all add: ip_val_of ip_val_less)

text \<open>A parsed IPv4 network: \<open>h\<close> host bits, the network number a multiple of \<open>2 ^ h\<close>.\<close>

definition net4 :: "nat \<Rightarrow> nat \<Rightarrow> IPNet" where
  "net4 v n = \<lparr>net_IP = IP_Mask (ip_of 4 v) (CIDRMask n 4), net_Mask = CIDRMask n 4\<rparr>"

lemma net4_IP: "v < 2 ^ 32 \<Longrightarrow> n \<le> 32 \<Longrightarrow> net_IP (net4 v n) = ip_of 4 (v div 2 ^ (32 - n) * 2 ^ (32 - n))"
proof (rule ip_val_inj)
  assume *: "v < 2 ^ 32" "n \<le> 32"
  have "v div 2 ^ (32 - n) * 2 ^ (32 - n) < 256 ^ 4"
    using *(1) by (simp add: le_less_trans [OF div_times_less_eq_dividend])
  then show "ip_val (net_IP (net4 v n)) = ip_val (ip_of 4 (v div 2 ^ (32 - n) * 2 ^ (32 - n)))"
    using * val_masked [of "ip_of 4 v" 4 n] by (simp add: net4_def ip_val_of)
qed (simp add: net4_def IP_Mask_def)

lemma To4_4 [simp]: "length ip = 4 \<Longrightarrow> To4 ip = Some ip"
  by (simp add: To4_def)

lemma Contains_net4:
  assumes "v < 2 ^ 32" "n \<le> 32" "length ip = 4"
  shows "IPNet_Contains (net4 v n) ip \<longleftrightarrow> ip_val ip div 2 ^ (32 - n) = v div 2 ^ (32 - n)"
proof -
  let ?m = "CIDRMask n 4" and ?h = "2 ^ (32 - n) :: nat"
  have l: "length (net_IP (net4 v n)) = 4" by (simp add: net4_def IP_Mask_def)
  have "IPNet_Contains (net4 v n) ip \<longleftrightarrow> IP_Mask (net_IP (net4 v n)) ?m = IP_Mask ip ?m"
    using assms(3) l by (simp add: IPNet_Contains_def networkNumberAndMask_def) (simp add: net4_def)
  also have "\<dots> \<longleftrightarrow> ip_val (IP_Mask (net_IP (net4 v n)) ?m) = ip_val (IP_Mask ip ?m)"
    using ip_val_inj [of "IP_Mask (net_IP (net4 v n)) ?m" "IP_Mask ip ?m"] assms(3) l by (auto simp: IP_Mask_def)
  also have "\<dots> \<longleftrightarrow> v div ?h * ?h = ip_val ip div ?h * ?h"
  proof -
    have "v div ?h * ?h < 256 ^ 4" using assms(1) by (simp add: le_less_trans [OF div_times_less_eq_dividend])
    then have "ip_val (net_IP (net4 v n)) = v div ?h * ?h" using assms by (simp add: net4_IP ip_val_of)
    then show ?thesis using val_masked [of "net_IP (net4 v n)" 4 n] val_masked [of ip 4 n] assms l by simp
  qed
  finally show ?thesis by auto
qed

end
