(* ===== verification/NetworkStore.thy ===== *)
theory NetworkStore
  imports Stores Net
begin

unbundle bit_operations_syntax

text \<open>
  The network store adapter, \<open>internal/joblet/adapters/network_store_adapter.go\<close>: networks, the
  assignment of jobs to them, and a pool of addresses per network; and the first phase of a job's
  network setup, \<open>SetupNetworking\<close> of \<open>internal/joblet/core/execution/network_service.go\<close>, which
  uses it. The pool's contract is the locale \<open>address_pool\<close>.

  \<open>addr6\<close> and \<open>str6\<close> stand for the parsing and printing of IPv6 literals (see \<open>Net\<close>).
\<close>

section \<open>State and errors\<close>

record ipPool =
  pool_cidr :: IPNet
  pool_allocated :: "string set"
  pool_available :: "string list"

record networkStoreAdapter =
  nsa_networkStore :: SimpleNetworkStore
  nsa_allocationStore :: SimpleAllocationStore
  nsa_ipPools :: "string \<rightharpoonup> ipPool"
  nsa_closed :: bool

datatype network_error =
    NetworkAdapterClosed
  | NetworkConfigNil
  | NetworkNameEmpty
  | NetworkTypeRequired
  | NetworkTypeInvalid string
  | InvalidCIDR string
  | InvalidGateway string
  | InvalidDNS string
  | NetworkExists string
  | NetworkStoreError store_error
  | NetworkNotFound string
  | NetworkInUse nat
  | JobIDEmpty
  | AllocationNil
  | JobAlreadyAssigned string
  | JobNotAssigned string
  | NoIPPool string
  | NoAvailableIP string
  | IPEmpty
  | IPNotAllocated string

definition NewNetworkStoreAdapter :: "SimpleNetworkStore \<Rightarrow> SimpleAllocationStore \<Rightarrow> networkStoreAdapter" where
  "NewNetworkStoreAdapter networks allocations =
     \<lparr>nsa_networkStore = networks, nsa_allocationStore = allocations, nsa_ipPools = Map.empty, nsa_closed = False\<rparr>"

definition NewNetworkStore :: networkStoreAdapter where
  "NewNetworkStore = NewNetworkStoreAdapter \<lparr>sns_networks = Map.empty\<rparr> \<lparr>sas_allocations = Map.empty\<rparr>"

section \<open>Address pools\<close>

text \<open>The loop of \<open>nextIP\<close>, from the last byte on.\<close>

fun inc_bytes :: "8 word list \<Rightarrow> 8 word list" where
  "inc_bytes [] = []"
| "inc_bytes (b # bs) = (if b + 1 > 0 then (b + 1) # bs else (b + 1) # inc_bytes bs)"

definition nextIP :: "IP \<Rightarrow> IP" where
  "nextIP ip = rev (inc_bytes (rev ip))"

definition getBroadcastAddress :: "IPNet \<Rightarrow> IP" where
  "getBroadcastAddress n = map2 (\<lambda>b m. b OR NOT m) (net_IP n) (net_Mask n)"

text \<open>The loop that generates the addresses; it need not end, and \<open>None\<close> is that it does not.\<close>

partial_function (option) pool_loop :: "(IP \<Rightarrow> string) \<Rightarrow> IPNet \<Rightarrow> IP \<Rightarrow> string list \<Rightarrow> string list option" where
  "pool_loop str6 n ip available =
     (if IPNet_Contains n ip then
        pool_loop str6 n (nextIP ip)
          (if \<not> IP_Equal ip (net_IP n) \<and> \<not> IP_Equal ip (getBroadcastAddress n)
           then available @ [IP_String str6 ip] else available)
      else Some available)"

declare pool_loop.simps [code]

definition initializeIPPool ::
  "(string \<Rightarrow> IP option) \<Rightarrow> (IP \<Rightarrow> string) \<Rightarrow> networkStoreAdapter \<Rightarrow> string \<Rightarrow> string \<Rightarrow>
   (networkStoreAdapter \<times> (network_error, unit) result) option" where
  "initializeIPPool addr6 str6 a networkName cidr =
     (case ParseCIDR addr6 cidr of
        None \<Rightarrow> Some (a, Inl (InvalidCIDR cidr))
      | Some ipNet \<Rightarrow>
          (case pool_loop str6 ipNet (net_IP ipNet) [] of
             None \<Rightarrow> None
           | Some available \<Rightarrow>
               Some (a\<lparr>nsa_ipPools := (nsa_ipPools a)(networkName \<mapsto>
                 \<lparr>pool_cidr = ipNet, pool_allocated = {}, pool_available = available\<rparr>)\<rparr>, Inr ())))"

text \<open>Taking the first available address out of a pool, and giving an address back.\<close>

definition pool_take :: "ipPool \<Rightarrow> (ipPool \<times> string) option" where
  "pool_take pool =
     (case pool_available pool of
        [] \<Rightarrow> None
      | ip # rest \<Rightarrow>
          Some (pool\<lparr>pool_available := rest, pool_allocated := insert ip (pool_allocated pool)\<rparr>, ip))"

definition pool_give :: "ipPool \<Rightarrow> string \<Rightarrow> ipPool option" where
  "pool_give pool ip =
     (if ip \<notin> pool_allocated pool then None
      else Some (pool\<lparr>pool_allocated := pool_allocated pool - {ip}, pool_available := pool_available pool @ [ip]\<rparr>))"

definition AllocateIP :: "networkStoreAdapter \<Rightarrow> string \<Rightarrow> networkStoreAdapter \<times> (network_error, string) result" where
  "AllocateIP a networkName =
     (if nsa_closed a then (a, Inl NetworkAdapterClosed)
      else if networkName = [] then (a, Inl NetworkNameEmpty)
      else (case nsa_ipPools a networkName of
        None \<Rightarrow> (a, Inl (NoIPPool networkName))
      | Some pool \<Rightarrow>
          (case pool_take pool of
             None \<Rightarrow> (a, Inl (NoAvailableIP networkName))
           | Some (pool', ip) \<Rightarrow> (a\<lparr>nsa_ipPools := (nsa_ipPools a)(networkName \<mapsto> pool')\<rparr>, Inr ip))))"

definition ReleaseIP :: "networkStoreAdapter \<Rightarrow> string \<Rightarrow> string \<Rightarrow> networkStoreAdapter \<times> (network_error, unit) result" where
  "ReleaseIP a networkName ip =
     (if nsa_closed a then (a, Inl NetworkAdapterClosed)
      else if networkName = [] then (a, Inl NetworkNameEmpty)
      else if ip = [] then (a, Inl IPEmpty)
      else (case nsa_ipPools a networkName of
        None \<Rightarrow> (a, Inl (NoIPPool networkName))
      | Some pool \<Rightarrow>
          (case pool_give pool ip of
             None \<Rightarrow> (a, Inl (IPNotAllocated ip))
           | Some pool' \<Rightarrow> (a\<lparr>nsa_ipPools := (nsa_ipPools a)(networkName \<mapsto> pool')\<rparr>, Inr ()))))"

section \<open>Networks\<close>

definition valid_types :: "string list" where
  "valid_types = [''bridge'', ''host'', ''none'', ''custom'']"

fun check_dns :: "(string \<Rightarrow> IP option) \<Rightarrow> string list \<Rightarrow> (network_error, unit) result" where
  "check_dns addr6 [] = Inr ()"
| "check_dns addr6 (d # ds) = (if ParseAddr addr6 d = None then Inl (InvalidDNS d) else check_dns addr6 ds)"

definition validateNetworkConfig :: "(string \<Rightarrow> IP option) \<Rightarrow> NetworkConfig \<Rightarrow> (network_error, unit) result" where
  "validateNetworkConfig addr6 config =
     (if nc_Name config = [] then Inl NetworkNameEmpty
      else if nc_Type config = [] then Inl NetworkTypeRequired
      else if nc_Type config \<notin> set valid_types then Inl (NetworkTypeInvalid (nc_Type config))
      else if nc_CIDR config \<noteq> [] \<and> ParseCIDR addr6 (nc_CIDR config) = None then Inl (InvalidCIDR (nc_CIDR config))
      else if nc_Gateway config \<noteq> [] \<and> ParseAddr addr6 (nc_Gateway config) = None then Inl (InvalidGateway (nc_Gateway config))
      else check_dns addr6 (nc_DNS config))"

text \<open>\<open>None\<close> at the outside is that the call does not return.\<close>

definition CreateNetwork ::
  "(string \<Rightarrow> IP option) \<Rightarrow> (IP \<Rightarrow> string) \<Rightarrow> int \<Rightarrow> networkStoreAdapter \<Rightarrow> NetworkConfig option \<Rightarrow>
   (networkStoreAdapter \<times> (network_error, unit) result) option" where
  "CreateNetwork addr6 str6 now a config =
     (if nsa_closed a then Some (a, Inl NetworkAdapterClosed)
      else (case config of
        None \<Rightarrow> Some (a, Inl NetworkConfigNil)
      | Some c \<Rightarrow>
          if nc_Name c = [] then Some (a, Inl NetworkNameEmpty)
          else (case validateNetworkConfig addr6 c of
            Inl err \<Rightarrow> Some (a, Inl err)
          | Inr _ \<Rightarrow>
              (let c' = c\<lparr>nc_CreatedAt := now, nc_UpdatedAt := now\<rparr> in
               case SimpleNetworkStore_Create (nsa_networkStore a) (nc_Name c') c' of
                 (store, Inl err) \<Rightarrow>
                   Some (a\<lparr>nsa_networkStore := store\<rparr>,
                         Inl (if IsConflictError err then NetworkExists (nc_Name c') else NetworkStoreError err))
               | (store, Inr _) \<Rightarrow>
                   (let a' = a\<lparr>nsa_networkStore := store\<rparr> in
                    if nc_CIDR c' = [] then Some (a', Inr ())
                    else (case initializeIPPool addr6 str6 a' (nc_Name c') (nc_CIDR c') of
                      None \<Rightarrow> None
                    | Some (a'', Inl err) \<Rightarrow>
                        Some (a''\<lparr>nsa_networkStore := SimpleNetworkStore_Delete (nsa_networkStore a'') (nc_Name c')\<rparr>, Inl err)
                    | Some (a'', Inr _) \<Rightarrow> Some (a'', Inr ())))))))"

definition Network :: "networkStoreAdapter \<Rightarrow> string \<Rightarrow> NetworkConfig option" where
  "Network a name =
     (if nsa_closed a then None
      else if name = [] then None
      else SimpleNetworkStore_Get (nsa_networkStore a) name)"

text \<open>The CIDR and the bridge of a network.\<close>

definition GetNetworkConfig :: "networkStoreAdapter \<Rightarrow> string \<Rightarrow> (network_error, string \<times> string) result" where
  "GetNetworkConfig a name =
     (case Network a name of
        None \<Rightarrow> Inl (NetworkNotFound name)
      | Some config \<Rightarrow> Inr (nc_CIDR config, nc_BridgeName config))"

definition ListNetworks :: "string list \<Rightarrow> networkStoreAdapter \<Rightarrow> NetworkConfig list" where
  "ListNetworks ks a = (if nsa_closed a then [] else SimpleNetworkStore_List ks (nsa_networkStore a))"

definition ListJobsInNetwork :: "string list \<Rightarrow> networkStoreAdapter \<Rightarrow> string \<Rightarrow> JobNetworkAllocation list" where
  "ListJobsInNetwork ks a networkName =
     (if nsa_closed a then []
      else filter (\<lambda>al. na_NetworkName al = networkName) (SimpleAllocationStore_List ks (nsa_allocationStore a)))"

definition RemoveNetwork ::
  "string list \<Rightarrow> networkStoreAdapter \<Rightarrow> string \<Rightarrow> networkStoreAdapter \<times> (network_error, unit) result" where
  "RemoveNetwork ks a name =
     (if nsa_closed a then (a, Inl NetworkAdapterClosed)
      else if name = [] then (a, Inl NetworkNameEmpty)
      else if length (ListJobsInNetwork ks a name) > 0 then (a, Inl (NetworkInUse (length (ListJobsInNetwork ks a name))))
      else (case SimpleNetworkStore_Get (nsa_networkStore a) name of
        None \<Rightarrow> (a, Inl (NetworkNotFound name))
      | Some _ \<Rightarrow>
          (a\<lparr>nsa_networkStore := SimpleNetworkStore_Delete (nsa_networkStore a) name,
             nsa_ipPools := (nsa_ipPools a)(name := None)\<rparr>, Inr ())))"

section \<open>Jobs in networks\<close>

definition AssignJobToNetwork ::
  "int \<Rightarrow> networkStoreAdapter \<Rightarrow> string \<Rightarrow> string \<Rightarrow> JobNetworkAllocation option \<Rightarrow>
   networkStoreAdapter \<times> (network_error, unit) result" where
  "AssignJobToNetwork now a jobID networkName allocation =
     (if nsa_closed a then (a, Inl NetworkAdapterClosed)
      else if jobID = [] then (a, Inl JobIDEmpty)
      else if networkName = [] then (a, Inl NetworkNameEmpty)
      else (case allocation of
        None \<Rightarrow> (a, Inl AllocationNil)
      | Some al \<Rightarrow>
          (case Network a networkName of
             None \<Rightarrow> (a, Inl (NetworkNotFound networkName))
           | Some _ \<Rightarrow>
               (let al' = al\<lparr>na_AssignedAt := now, na_JobUUID := jobID, na_NetworkName := networkName\<rparr> in
                case SimpleAllocationStore_Create (nsa_allocationStore a) jobID al' of
                  (store, Inl err) \<Rightarrow>
                    (a\<lparr>nsa_allocationStore := store\<rparr>,
                     Inl (if IsConflictError err then JobAlreadyAssigned jobID else NetworkStoreError err))
                | (store, Inr _) \<Rightarrow> (a\<lparr>nsa_allocationStore := store\<rparr>, Inr ())))))"

definition GetJobNetworkAllocation :: "networkStoreAdapter \<Rightarrow> string \<Rightarrow> JobNetworkAllocation option" where
  "GetJobNetworkAllocation a jobID =
     (if nsa_closed a then None
      else if jobID = [] then None
      else SimpleAllocationStore_Get (nsa_allocationStore a) jobID)"

definition RemoveJobFromNetwork :: "networkStoreAdapter \<Rightarrow> string \<Rightarrow> networkStoreAdapter \<times> (network_error, unit) result" where
  "RemoveJobFromNetwork a jobID =
     (if nsa_closed a then (a, Inl NetworkAdapterClosed)
      else if jobID = [] then (a, Inl JobIDEmpty)
      else (case GetJobNetworkAllocation a jobID of
        None \<Rightarrow> (a, Inl (JobNotAssigned jobID))
      | Some al \<Rightarrow>
          (let a' = (if na_IPAddress al \<noteq> [] then fst (ReleaseIP a (na_NetworkName al) (na_IPAddress al)) else a)
           in (a'\<lparr>nsa_allocationStore := SimpleAllocationStore_Delete (nsa_allocationStore a') jobID\<rparr>, Inr ()))))"

definition NetworkAdapter_Close :: "networkStoreAdapter \<Rightarrow> networkStoreAdapter" where
  "NetworkAdapter_Close a =
     (if nsa_closed a then a
      else a\<lparr>nsa_closed := True, nsa_ipPools := Map.empty,
             nsa_networkStore := SimpleNetworkStore_Close (nsa_networkStore a),
             nsa_allocationStore := SimpleAllocationStore_Close (nsa_allocationStore a)\<rparr>)"

section \<open>The network setup of a job\<close>

text \<open>
  The first phase, before the process is launched. The host name takes the first eight bytes of the
  job's id; a shorter id is a slice out of range, which panics.
\<close>

datatype setup_error = AllocateFailed network_error | AssignFailed network_error | HostnamePanic

record NetworkAllocation =
  nal_JobUUID :: string
  nal_Network :: string
  nal_IP :: string
  nal_Hostname :: string

definition SetupNetworking ::
  "int \<Rightarrow> networkStoreAdapter \<Rightarrow> string \<Rightarrow> string \<Rightarrow> networkStoreAdapter \<times> (setup_error, NetworkAllocation) result" where
  "SetupNetworking now a jobID networkName =
     (if networkName = ''isolated'' then
        (a, Inr \<lparr>nal_JobUUID = jobID, nal_Network = ''isolated'', nal_IP = [], nal_Hostname = []\<rparr>)
      else if networkName = ''none'' then
        (a, Inr \<lparr>nal_JobUUID = jobID, nal_Network = ''none'', nal_IP = [], nal_Hostname = []\<rparr>)
      else (case AllocateIP a networkName of
        (a1, Inl err) \<Rightarrow> (a1, Inl (AllocateFailed err))
      | (a1, Inr ipAddress) \<Rightarrow>
          if length jobID < 8 then (a1, Inl HostnamePanic)
          else (let hostname = ''job_'' @ take 8 jobID;
                    allocation = \<lparr>na_JobUUID = jobID, na_NetworkName = networkName, na_IPAddress = ipAddress,
                      na_MACAddress = [], na_Hostname = hostname, na_Metadata = Map.empty, na_AssignedAt = now\<rparr>
                in case AssignJobToNetwork now a1 jobID networkName (Some allocation) of
                  (a2, Inl err) \<Rightarrow> (fst (ReleaseIP a2 networkName ipAddress), Inl (AssignFailed err))
                | (a2, Inr _) \<Rightarrow>
                    (a2, Inr \<lparr>nal_JobUUID = jobID, nal_Network = networkName, nal_IP = ipAddress, nal_Hostname = hostname\<rparr>))))"

definition CleanupNetworking :: "networkStoreAdapter \<Rightarrow> string \<Rightarrow> networkStoreAdapter \<times> (network_error, unit) result" where
  "CleanupNetworking a jobID = RemoveJobFromNetwork a jobID"

section \<open>The contract of a pool\<close>

locale address_pool =
  fixes free :: "'p \<Rightarrow> 'a list" and used :: "'p \<Rightarrow> 'a set" and take_p :: "'p \<Rightarrow> ('p \<times> 'a) option"
    and give_p :: "'p \<Rightarrow> 'a \<Rightarrow> 'p option"
  assumes take_none: "take_p p = None \<longleftrightarrow> free p = []"
    and take_some: "take_p p = Some (p', x) \<Longrightarrow> free p = x # free p' \<and> used p' = insert x (used p)"
    and give_none: "give_p p x = None \<longleftrightarrow> x \<notin> used p"
    and give_some: "give_p p x = Some p' \<Longrightarrow> free p' = free p @ [x] \<and> used p' = used p - {x}"
begin

text \<open>No address is free twice, or free and in use; \<open>U\<close> are all addresses of the pool.\<close>

definition pool_ok :: "'a set \<Rightarrow> 'p \<Rightarrow> bool" where
  "pool_ok U p \<longleftrightarrow> distinct (free p) \<and> set (free p) \<inter> used p = {} \<and> set (free p) \<union> used p = U"

lemma take_ok: "pool_ok U p \<Longrightarrow> take_p p = Some (p', x) \<Longrightarrow> pool_ok U p' \<and> x \<in> U \<and> x \<notin> used p \<and> x \<in> used p'"
  unfolding pool_ok_def by (drule take_some) auto

lemma give_ok: "pool_ok U p \<Longrightarrow> give_p p x = Some p' \<Longrightarrow> pool_ok U p' \<and> x \<in> used p \<and> x \<notin> used p'"
  unfolding pool_ok_def using give_none [of p x] give_some [of p x p'] by auto

lemma give_take: "take_p p = Some (p', x) \<Longrightarrow> x \<notin> used p \<Longrightarrow> \<exists>p''. give_p p' x = Some p'' \<and> used p'' = used p"
  using take_some [of p p' x] give_none [of p' x] give_some [of p' x] by (cases "give_p p' x") auto

lemma take_ready: "pool_ok U p \<Longrightarrow> used p \<noteq> U \<Longrightarrow> take_p p \<noteq> None"
  unfolding pool_ok_def by (auto simp: take_none)

end

interpretation ip: address_pool pool_available pool_allocated pool_take pool_give
  by unfold_locales (auto simp: pool_take_def pool_give_def split: list.splits if_splits)

section \<open>The addresses of a pool\<close>

lemma val_inc: "ip_val (rev (inc_bytes bs)) = (ip_val (rev bs) + 1) mod 256 ^ length bs"
proof (induction bs)
  case (Cons b bs)
  let ?v = "ip_val (rev bs)" and ?B = "256 ^ length bs :: nat"
  have v: "?v < ?B" using ip_val_less [of "rev bs"] by simp
  have "unat (b + 1) = (unat b + unat (1 :: 8 word)) mod 2 ^ LENGTH(8)" by (rule unat_word_ariths(1))
  then have u: "unat (b + 1) = (unat b + 1) mod 256" by simp
  show ?case
  proof (cases "unat b = 255")
    case True
    with u have z: "b + 1 = 0" by (simp add: unat_eq_0)
    then have "ip_val (rev (inc_bytes (b # bs))) = (?v + 1) mod ?B * 256" using Cons by (simp add: ip_val_snoc)
    also have "\<dots> = ((?v + 1) * 256) mod (?B * 256)" by (simp only: mult_mod_left)
    finally show ?thesis using True by (simp add: ip_val_snoc algebra_simps)
  next
    case False
    with unat_byte [of b] have lt: "unat b + 1 < 256" by simp
    with u have s: "unat (b + 1) = unat b + 1" by simp
    then have "b + 1 > 0" by (metis add_is_0 neq0_conv one_neq_zero unat_eq_0 word_gt_0)
    then have "ip_val (rev (inc_bytes (b # bs))) = ?v * 256 + unat b + 1" by (simp add: ip_val_snoc s)
    moreover have "?v * 256 + unat b + 1 < ?B * 256"
    proof -
      have "?v * 256 + 256 \<le> ?B * 256" using v by (metis Suc_leI add.commute mult_Suc mult_le_mono1)
      with lt show ?thesis by simp
    qed
    ultimately show ?thesis by (simp add: ip_val_snoc ac_simps)
  qed
qed simp

lemma length_inc_bytes [simp]: "length (inc_bytes bs) = length bs"
  by (induction bs) auto

lemma nextIP_of:
  assumes "v < 2 ^ 32"
  shows "nextIP (ip_of 4 v) = ip_of 4 ((v + 1) mod 2 ^ 32)"
proof (rule ip_val_inj)
  have "ip_val (nextIP (ip_of 4 v)) = (v + 1) mod 256 ^ 4"
    using val_inc [of "rev (ip_of 4 v)"] assms by (simp add: nextIP_def ip_val_of)
  also have "\<dots> = ip_val (ip_of 4 ((v + 1) mod 2 ^ 32))" by (simp add: ip_val_of)
  finally show "ip_val (nextIP (ip_of 4 v)) = ip_val (ip_of 4 ((v + 1) mod 2 ^ 32))" .
qed (simp add: nextIP_def)

text \<open>The first and the last address of an IPv4 network.\<close>

definition net_first :: "nat \<Rightarrow> nat \<Rightarrow> nat" where
  "net_first v n = v div 2 ^ (32 - n) * 2 ^ (32 - n)"

definition net_last :: "nat \<Rightarrow> nat \<Rightarrow> nat" where
  "net_last v n = net_first v n + (2 ^ (32 - n) - 1)"

lemma net_last_less:
  assumes "v < 2 ^ 32" "n \<le> 32"
  shows "net_last v n < 2 ^ 32"
proof -
  have e: "(2 :: nat) ^ 32 = 2 ^ n * 2 ^ (32 - n)" using assms(2) by (simp flip: power_add)
  have "v div 2 ^ (32 - n) < 2 ^ n" using assms(1) unfolding e by (simp add: less_mult_imp_div_less)
  then have "Suc (v div 2 ^ (32 - n)) * 2 ^ (32 - n) \<le> 2 ^ n * 2 ^ (32 - n)" by (intro mult_le_mono1) simp
  moreover have "0 < (2 :: nat) ^ (32 - n)" by simp
  ultimately show ?thesis unfolding net_last_def net_first_def e mult_Suc by linarith
qed

lemma net4_first: "v < 2 ^ 32 \<Longrightarrow> n \<le> 32 \<Longrightarrow> net_IP (net4 v n) = ip_of 4 (net_first v n)"
  by (simp add: net4_IP net_first_def)

lemma net4_broadcast:
  assumes "v < 2 ^ 32" "n \<le> 32"
  shows "getBroadcastAddress (net4 v n) = ip_of 4 (net_last v n)"
proof (rule ip_val_inj)
  have d: "net_first v n div 2 ^ (32 - n) = v div 2 ^ (32 - n)" by (simp add: net_first_def)
  have lt: "net_last v n < 256 ^ 4" "net_first v n < 256 ^ 4"
  proof -
    show "net_last v n < 256 ^ 4" using net_last_less [OF assms] by simp
    moreover have "net_first v n \<le> net_last v n" unfolding net_last_def by (rule le_add1)
    ultimately show "net_first v n < 256 ^ 4" by (rule le_less_trans [rotated])
  qed
  have "ip_val (getBroadcastAddress (net4 v n)) = net_last v n"
    using val_or_hostmask [of "net_IP (net4 v n)" 4 n] assms lt(2)
    by (simp add: getBroadcastAddress_def net4_first ip_val_of d) (simp add: net4_def net_last_def net_first_def)
  with lt(1) show "ip_val (getBroadcastAddress (net4 v n)) = ip_val (ip_of 4 (net_last v n))"
    by (simp add: ip_val_of)
qed (simp add: getBroadcastAddress_def net4_def IP_Mask_def)

lemma IP_Equal_of:
  assumes "x < 2 ^ 32" "y < 2 ^ 32"
  shows "IP_Equal (ip_of 4 x) (ip_of 4 y) \<longleftrightarrow> x = y"
proof -
  have "ip_val (ip_of 4 x) = x" "ip_val (ip_of 4 y) = y" using assms by (simp_all add: ip_val_of)
  then have "ip_of 4 x = ip_of 4 y \<longleftrightarrow> x = y" by metis
  then show ?thesis by (simp add: IP_Equal_def eq_commute)
qed

text \<open>
  The loop, started at the address \<open>i\<close> steps into the network, collects the rest of the addresses
  other than the first and the last one.
\<close>

lemma pool_loop_net4:
  assumes v: "v < 2 ^ 32" and n: "0 < n" "n \<le> 32" and i: "i \<le> 2 ^ (32 - n)"
  shows "pool_loop str6 (net4 v n) (ip_of 4 ((net_first v n + i) mod 2 ^ 32)) acc =
    Some (acc @ map (\<lambda>w. dotted (ip_of 4 w)) [max (net_first v n + 1) (net_first v n + i)..<net_last v n])"
  using i
proof (induction "2 ^ (32 - n) - i" arbitrary: i acc)
  case 0
  let ?H = "2 ^ (32 - n) :: nat" and ?F = "net_first v n"
  have H: "0 < ?H" by simp
  from 0 have i: "i = ?H" by simp
  have F: "?F div ?H = v div ?H" by (simp add: net_first_def)
  have "(?F + ?H) mod 2 ^ 32 div ?H \<noteq> v div ?H"
  proof (cases "?F + ?H < 2 ^ 32")
    case True
    then have "(?F + ?H) mod 2 ^ 32 div ?H = ?F div ?H + 1" using H div_add_self2 [of ?H ?F] by simp
    with F show ?thesis by simp
  next
    case False
    moreover have "?F + ?H \<le> 2 ^ 32" using net_last_less [OF v n(2)] H unfolding net_last_def by linarith
    ultimately have e: "?F + ?H = 2 ^ 32" by simp
    have "?H < 2 ^ 32" using n by (intro power_strict_increasing) auto
    with e have "0 < ?F" by linarith
    then have "0 < v div ?H" by (cases "v div ?H") (simp_all add: net_first_def)
    with e show ?thesis by simp
  qed
  moreover have "ip_val (ip_of 4 ((?F + ?H) mod 2 ^ 32)) = (?F + ?H) mod 2 ^ 32" by (simp add: ip_val_of)
  ultimately have "\<not> IPNet_Contains (net4 v n) (ip_of 4 ((?F + i) mod 2 ^ 32))"
    unfolding i using v n by (simp add: Contains_net4)
  moreover have "[max (?F + 1) (?F + i)..<net_last v n] = []" using H unfolding i net_last_def by simp
  ultimately show ?case by (subst pool_loop.simps) simp
next
  case (Suc m)
  let ?H = "2 ^ (32 - n) :: nat" and ?F = "net_first v n"
  have i: "i < ?H" using Suc.hyps(2) by simp
  have lt: "?F + i < 2 ^ 32" using net_last_less [OF v n(2)] i unfolding net_last_def by linarith
  have ipv: "ip_val (ip_of 4 (?F + i)) = ?F + i" using lt by (simp add: ip_val_of)
  have "(?F + i) div ?H = v div ?H" using i by (simp add: net_first_def)
  then have c: "IPNet_Contains (net4 v n) (ip_of 4 (?F + i))" using v n ipv by (simp add: Contains_net4)
  have first: "IP_Equal (ip_of 4 (?F + i)) (net_IP (net4 v n)) \<longleftrightarrow> i = 0"
  proof -
    have "?F < 2 ^ 32" using lt by linarith
    with lt show ?thesis unfolding net4_first [OF v n(2)] by (subst IP_Equal_of) auto
  qed
  have lst: "IP_Equal (ip_of 4 (?F + i)) (getBroadcastAddress (net4 v n)) \<longleftrightarrow> ?F + i = net_last v n"
    unfolding net4_broadcast [OF v n(2)] using lt net_last_less [OF v n(2)] by (rule IP_Equal_of)
  have nxt: "nextIP (ip_of 4 (?F + i)) = ip_of 4 ((?F + Suc i) mod 2 ^ 32)" using nextIP_of [OF lt] by simp
  have "m = ?H - Suc i" "Suc i \<le> ?H" using Suc.hyps(2) i by auto
  note IH = Suc.hyps(1) [OF this]
  show ?case
  proof (cases "i = 0 \<or> ?F + i = net_last v n")
    case True
    have "[max (?F + 1) (?F + Suc i)..<net_last v n] = [max (?F + 1) (?F + i)..<net_last v n]" using True by auto
    with True c first lst nxt IH [of acc] lt show ?thesis by (subst pool_loop.simps) auto
  next
    case False
    with i have "?F + i < net_last v n" unfolding net_last_def by linarith
    with False have "[max (?F + 1) (?F + i)..<net_last v n] = (?F + i) # [max (?F + 1) (?F + Suc i)..<net_last v n]"
      by (simp add: upt_conv_Cons max_def)
    moreover have "IP_String str6 (ip_of 4 (?F + i)) = dotted (ip_of 4 (?F + i))" by (simp add: IP_String_def)
    ultimately show ?thesis
      using False c first lst nxt IH [of "acc @ [dotted (ip_of 4 (?F + i))]"] lt by (subst pool_loop.simps) simp
  qed
qed

lemma IP_Mask_zero: "IP_Mask ip (replicate (length ip) 0) = replicate (length ip) 0"
  by (induction ip) (simp_all add: IP_Mask_def)

lemma IP_Mask_zero': "length ip = k \<Longrightarrow> IP_Mask ip (replicate k 0) = replicate k 0"
  using IP_Mask_zero by blast

text \<open>The network that contains every address never runs out of them.\<close>

lemma pool_loop_all:
  assumes "length ip = 4"
  shows "pool_loop str6 (net4 v 0) ip acc = None"
proof -
  have "nt = net4 v 0 \<longrightarrow> length ip \<noteq> 4" if "pool_loop str6 nt ip acc = Some r" for nt ip acc r
  proof (rule pool_loop.raw_induct [OF _ that], intro impI notI)
    fix f :: "(IP \<Rightarrow> string) \<Rightarrow> IPNet \<Rightarrow> IP \<Rightarrow> string list \<Rightarrow> string list option" and str6 nt ip acc r
    assume IH: "\<And>str6 nt ip acc r. f str6 nt ip acc = Some r \<Longrightarrow> nt = net4 v 0 \<longrightarrow> length ip \<noteq> 4"
      and step: "(if IPNet_Contains nt ip then f str6 nt (nextIP ip)
          (if \<not> IP_Equal ip (net_IP nt) \<and> \<not> IP_Equal ip (getBroadcastAddress nt)
           then acc @ [IP_String str6 ip] else acc) else Some acc) = Some r"
      and nt: "nt = net4 v 0" "length ip = 4"
    have "IPNet_Contains nt ip"
      using nt IP_Mask_zero [of ip]
      by (simp add: IPNet_Contains_def networkNumberAndMask_def net4_def CIDRMask_zero IP_Mask_zero')
    with step have "f str6 nt (nextIP ip) (if \<not> IP_Equal ip (net_IP nt) \<and> \<not> IP_Equal ip (getBroadcastAddress nt)
           then acc @ [IP_String str6 ip] else acc) = Some r" by simp
    from IH [OF this] nt show False by (simp add: nextIP_def)
  qed
  with assms show ?thesis by (cases "pool_loop str6 (net4 v 0) ip acc") auto
qed

text \<open>The host addresses of an IPv4 network, printed.\<close>

definition hosts :: "nat \<Rightarrow> nat \<Rightarrow> string list" where
  "hosts v n = map (\<lambda>w. dotted (ip_of 4 w)) [net_first v n + 1..<net_last v n]"

lemma nat_digits_inj: "nat_digits x = nat_digits y \<Longrightarrow> x = y"
  using digits_value_nat_digits by (metis option.inject)

lemma nat_digits_no_dot: "CHR ''.'' \<notin> set (nat_digits x)"
  using nat_digits_all_digits not_is_digit_sign(3) by blast

lemma dotted_inj:
  assumes "dotted x = dotted y" "x \<noteq> []" "y \<noteq> []"
  shows "x = y"
proof -
  let ?d = "\<lambda>b :: 8 word. nat_digits (unat b)"
  have "Split (CHR ''.'') (dotted z) = map ?d z" if "z \<noteq> []" for z
    unfolding dotted_def using that nat_digits_no_dot by (intro Split_Join) auto
  with assms have "map ?d x = map ?d y" by metis
  moreover have "inj ?d" by (rule injI) (metis nat_digits_inj unsigned_word_eqI)
  ultimately show ?thesis by (simp add: inj_map_eq_map)
qed

lemma hosts_distinct:
  assumes "v < 2 ^ 32" "n \<le> 32"
  shows "distinct (hosts v n)"
proof -
  have "w = w'" if "w < net_last v n" "w' < net_last v n" "dotted (ip_of 4 w) = dotted (ip_of 4 w')" for w w'
  proof -
    have "ip_of 4 w \<noteq> []" "ip_of 4 w' \<noteq> []" using length_ip_of [of 4] by (metis length_0_conv zero_neq_numeral)+
    with that(3) have "ip_of 4 w = ip_of 4 w'" by (intro dotted_inj)
    moreover have "ip_val (ip_of 4 w) = w" "ip_val (ip_of 4 w') = w'"
      using that(1,2) net_last_less [OF assms] by (auto intro!: ip_val_of)
    ultimately show ?thesis by metis
  qed
  then show ?thesis unfolding hosts_def by (auto simp: distinct_map inj_on_def)
qed

lemma ParseCIDR_v4:
  assumes "ParseCIDR addr6 s = Some nt" "length (net_IP nt) = 4"
  shows "\<exists>v n. v < 2 ^ 32 \<and> n \<le> 32 \<and> nt = net4 v n"
proof -
  obtain ip n where ip: "n \<le> 8 * length ip" "nt = \<lparr>net_IP = IP_Mask ip (CIDRMask n (length ip)), net_Mask = CIDRMask n (length ip)\<rparr>"
    using assms(1) by (auto simp: ParseCIDR_def Let_def not_less split: if_splits option.splits)
  with assms(2) have l: "length ip = 4" by (simp add: IP_Mask_def)
  have "nt = net4 (ip_val ip) n" using ip(2) l ip_of_val [of ip] by (simp add: net4_def)
  moreover have "ip_val ip < 2 ^ 32" using ip_val_less [of ip] l by simp
  ultimately show ?thesis using ip(1) l by auto
qed

lemma initializeIPPool_v4:
  assumes "ParseCIDR addr6 cidr = Some (net4 v n)" "v < 2 ^ 32" "n \<le> 32"
  shows "initializeIPPool addr6 str6 a name cidr =
    (if n = 0 then None
     else Some (a\<lparr>nsa_ipPools := (nsa_ipPools a)(name \<mapsto>
       \<lparr>pool_cidr = net4 v n, pool_allocated = {}, pool_available = hosts v n\<rparr>)\<rparr>, Inr ()))"
proof (cases "n = 0")
  case True
  have "length (net_IP (net4 v 0)) = 4" by (simp add: net4_def IP_Mask_def)
  with True assms(1) show ?thesis by (simp add: initializeIPPool_def pool_loop_all)
next
  case False
  have "net_first v n < 2 ^ 32" using net_last_less [OF assms(2,3)] unfolding net_last_def by linarith
  then have "pool_loop str6 (net4 v n) (net_IP (net4 v n)) [] = Some (hosts v n)"
    using pool_loop_net4 [OF assms(2) _ assms(3), of 0 str6 "[]"] False net4_first [OF assms(2,3)]
    by (simp add: hosts_def)
  with False assms(1) show ?thesis by (simp add: initializeIPPool_def)
qed

text \<open>
  C30. For an IPv4 network with a prefix of \<open>n\<close> bits, \<open>initializeIPPool\<close> returns, with a pool that offers
  each host address of the network once, in order, without the network and the broadcast
  address, \<open>2 ^ (32 - n) - 2\<close> addresses in all (none for \<open>n = 31\<close> and \<open>n = 32\<close>). For \<open>n = 0\<close> the loop never ends.
\<close>

theorem initializeIPPool_hosts:
  assumes "ParseCIDR addr6 cidr = Some nt" "length (net_IP nt) = 4"
  shows "\<exists>v n. v < 2 ^ 32 \<and> n \<le> 32 \<and> nt = net4 v n \<and>
    initializeIPPool addr6 str6 a name cidr =
      (if n = 0 then None
       else Some (a\<lparr>nsa_ipPools := (nsa_ipPools a)(name \<mapsto>
         \<lparr>pool_cidr = nt, pool_allocated = {}, pool_available = hosts v n\<rparr>)\<rparr>, Inr ())) \<and>
    distinct (hosts v n) \<and> length (hosts v n) = 2 ^ (32 - n) - 2"
proof -
  obtain v n where vn: "v < 2 ^ 32" "n \<le> 32" "nt = net4 v n" using ParseCIDR_v4 [OF assms] by blast
  moreover have "length (hosts v n) = 2 ^ (32 - n) - 2" by (simp add: hosts_def net_last_def)
  ultimately show ?thesis using initializeIPPool_v4 [of addr6 cidr v n] assms(1) hosts_distinct by blast
qed

theorem initializeIPPool_hosts_witness:
  "\<exists>nt v n. ParseCIDR (\<lambda>_. None) ''10.0.0.9/29'' = Some nt \<and>
    initializeIPPool (\<lambda>_. None) (\<lambda>_. []) NewNetworkStore ''lab'' ''10.0.0.9/29'' =
      (if n = 0 then None
       else Some (NewNetworkStore\<lparr>nsa_ipPools := (nsa_ipPools NewNetworkStore)(''lab'' \<mapsto>
         \<lparr>pool_cidr = nt, pool_allocated = {}, pool_available = hosts v n\<rparr>)\<rparr>, Inr ())) \<and>
    length (hosts v n) = 2 ^ (32 - n) - 2"
proof -
  have "(case ParseCIDR (\<lambda>_. None) ''10.0.0.9/29'' of None \<Rightarrow> False | Some nt \<Rightarrow> length (net_IP nt) = 4)"
    by code_simp
  then obtain nt where nt: "ParseCIDR (\<lambda>_. None) ''10.0.0.9/29'' = Some nt" "length (net_IP nt) = 4"
    by (auto split: option.splits)
  from initializeIPPool_hosts [OF nt, of "\<lambda>_. []" NewNetworkStore "''lab''"] nt(1) show ?thesis by blast
qed

section \<open>Histories\<close>

text \<open>What a call did to the pool of a network, as its caller sees it.\<close>

datatype net_event =
    NCreated string
  | NAllocated string string
  | NReleased string string
  | NOther

inductive net_step :: "(string \<Rightarrow> IP option) \<Rightarrow> (IP \<Rightarrow> string) \<Rightarrow> networkStoreAdapter \<Rightarrow> net_event \<Rightarrow> networkStoreAdapter \<Rightarrow> bool"
  for addr6 str6 where
  ns_create: "CreateNetwork addr6 str6 now a (Some c) = Some (a', r) \<Longrightarrow> net_step addr6 str6 a (NCreated (nc_Name c)) a'"
| ns_remove: "range_order ks (SimpleAllocationStore_Get (nsa_allocationStore a)) \<Longrightarrow>
    net_step addr6 str6 a NOther (fst (RemoveNetwork ks a name))"
| ns_assign: "net_step addr6 str6 a NOther (fst (AssignJobToNetwork now a j name al))"
| ns_alloc: "AllocateIP a name = (a', Inr ip) \<Longrightarrow> net_step addr6 str6 a (NAllocated name ip) a'"
| ns_release: "ReleaseIP a name ip = (a', Inr ()) \<Longrightarrow> net_step addr6 str6 a (NReleased name ip) a'"
| ns_unassign: "GetJobNetworkAllocation a j = Some al \<Longrightarrow> na_IPAddress al \<noteq> [] \<Longrightarrow>
    snd (ReleaseIP a (na_NetworkName al) (na_IPAddress al)) = Inr () \<Longrightarrow>
    net_step addr6 str6 a (NReleased (na_NetworkName al) (na_IPAddress al)) (fst (RemoveJobFromNetwork a j))"
| ns_unassign_only: "GetJobNetworkAllocation a j = Some al \<Longrightarrow>
    na_IPAddress al = [] \<or> (\<exists>e. snd (ReleaseIP a (na_NetworkName al) (na_IPAddress al)) = Inl e) \<Longrightarrow>
    net_step addr6 str6 a NOther (fst (RemoveJobFromNetwork a j))"
| ns_close: "net_step addr6 str6 a NOther (NetworkAdapter_Close a)"

inductive net_run :: "(string \<Rightarrow> IP option) \<Rightarrow> (IP \<Rightarrow> string) \<Rightarrow> networkStoreAdapter \<Rightarrow> net_event list \<Rightarrow> networkStoreAdapter \<Rightarrow> bool"
  for addr6 str6 where
  nr_nil: "net_run addr6 str6 a [] a"
| nr_snoc: "net_run addr6 str6 a evs a' \<Longrightarrow> net_step addr6 str6 a' e a'' \<Longrightarrow> net_run addr6 str6 a (evs @ [e]) a''"

text \<open>The addresses of a network that callers hold after a sequence of events.\<close>

fun held_step :: "string \<Rightarrow> net_event \<Rightarrow> string set \<Rightarrow> string set" where
  "held_step name (NAllocated n ip) H = (if n = name then insert ip H else H)"
| "held_step name (NReleased n ip) H = (if n = name then H - {ip} else H)"
| "held_step name _ H = H"

definition held :: "string \<Rightarrow> net_event list \<Rightarrow> string set" where
  "held name evs = fold (held_step name) evs {}"

lemma held_simps [simp]: "held name [] = {}" "held name (evs @ [e]) = held_step name e (held name evs)"
  by (simp_all add: held_def)

text \<open>The pool of \<open>name\<close> is gone or it is a proper pool over \<open>U\<close> in which the held addresses are allocated.\<close>

definition pool_tracks :: "string \<Rightarrow> string set \<Rightarrow> string set \<Rightarrow> networkStoreAdapter \<Rightarrow> bool" where
  "pool_tracks name U H a \<longleftrightarrow>
     (case nsa_ipPools a name of None \<Rightarrow> True | Some pool \<Rightarrow> ip.pool_ok U pool \<and> pool_allocated pool = H)"

lemma pool_tracks_same: "pool_tracks name U H a \<Longrightarrow> nsa_ipPools a' name = nsa_ipPools a name \<or> nsa_ipPools a' name = None \<Longrightarrow> pool_tracks name U H a'"
  by (auto simp: pool_tracks_def)

lemma AllocateIP_pools:
  assumes "AllocateIP a name = (a', Inr ip)"
  shows "\<exists>pool pool'. nsa_ipPools a name = Some pool \<and> pool_take pool = Some (pool', ip) \<and>
    a' = a\<lparr>nsa_ipPools := (nsa_ipPools a)(name \<mapsto> pool')\<rparr>"
  using assms by (auto simp: AllocateIP_def split: if_splits option.splits prod.splits)

lemma ReleaseIP_pools:
  assumes "ReleaseIP a name ip = (a', Inr ())"
  shows "\<exists>pool pool'. nsa_ipPools a name = Some pool \<and> pool_give pool ip = Some pool' \<and>
    a' = a\<lparr>nsa_ipPools := (nsa_ipPools a)(name \<mapsto> pool')\<rparr>"
  using assms by (auto simp: ReleaseIP_def split: if_splits option.splits)

lemma ReleaseIP_fails: "snd (ReleaseIP a name ip) = Inl e \<Longrightarrow> fst (ReleaseIP a name ip) = a"
  by (auto simp: ReleaseIP_def split: if_splits option.splits)

lemma release_tracks:
  assumes "ReleaseIP a n ip = (a', Inr ())" "pool_tracks name U H a"
  shows "pool_tracks name U (held_step name (NReleased n ip) H) a'"
proof -
  obtain pool pool' where p: "nsa_ipPools a n = Some pool" "pool_give pool ip = Some pool'"
    "a' = a\<lparr>nsa_ipPools := (nsa_ipPools a)(n \<mapsto> pool')\<rparr>" using ReleaseIP_pools [OF assms(1)] by blast
  show ?thesis
  proof (cases "n = name")
    case True
    with assms(2) p ip.give_ok [OF _ p(2)] ip.give_some [OF p(2)] show ?thesis by (auto simp: pool_tracks_def)
  qed (use assms(2) p in \<open>auto simp: pool_tracks_def\<close>)
qed

lemma pool_tracks_alloc_store [simp]:
  "pool_tracks name U H (a\<lparr>nsa_allocationStore := x\<rparr>) = pool_tracks name U H a"
  by (simp add: pool_tracks_def)

lemma CreateNetwork_other_pools:
  assumes "CreateNetwork addr6 str6 now a (Some c) = Some (a', r)" "nc_Name c \<noteq> name"
  shows "nsa_ipPools a' name = nsa_ipPools a name"
  using assms
  by (auto simp: CreateNetwork_def Let_def initializeIPPool_def split: if_splits sum.splits prod.splits option.splits)

lemma net_step_tracks:
  assumes "net_step addr6 str6 a e a'" "e \<noteq> NCreated name" "pool_tracks name U H a"
  shows "pool_tracks name U (held_step name e H) a'"
  using assms
proof (induction rule: net_step.induct)
  case (ns_create now a c a' r)
  then show ?case using CreateNetwork_other_pools [of addr6 str6 now a c a' r name] by (auto intro: pool_tracks_same)
next
  case (ns_remove ks a n)
  then show ?case by (auto simp: RemoveNetwork_def intro!: pool_tracks_same [of name U H a] split: option.splits if_splits)
next
  case (ns_assign a now j n al)
  then show ?case
    by (auto simp: AssignJobToNetwork_def Let_def SimpleAllocationStore_Create_def split: option.splits)
next
  case (ns_alloc a n a' ip)
  obtain pool pool' where p: "nsa_ipPools a n = Some pool" "pool_take pool = Some (pool', ip)"
    "a' = a\<lparr>nsa_ipPools := (nsa_ipPools a)(n \<mapsto> pool')\<rparr>" using AllocateIP_pools [OF ns_alloc.hyps] by blast
  show ?case
  proof (cases "n = name")
    case True
    with ns_alloc.prems p ip.take_ok [OF _ p(2)] ip.take_some [OF p(2)] show ?thesis by (auto simp: pool_tracks_def)
  qed (use ns_alloc.prems p in \<open>auto simp: pool_tracks_def\<close>)
next
  case (ns_release a n ip a')
  then show ?case using release_tracks by blast
next
  case (ns_unassign a j al)
  have "ReleaseIP a (na_NetworkName al) (na_IPAddress al) = (fst (ReleaseIP a (na_NetworkName al) (na_IPAddress al)), Inr ())"
    using ns_unassign.hyps(3) by (metis prod.collapse)
  from release_tracks [OF this ns_unassign.prems(2)] ns_unassign.hyps(1,2) show ?case
    by (auto simp: RemoveJobFromNetwork_def GetJobNetworkAllocation_def Let_def split: if_splits)
next
  case (ns_unassign_only a j al)
  then show ?case
    by (auto simp: RemoveJobFromNetwork_def GetJobNetworkAllocation_def Let_def dest: ReleaseIP_fails split: if_splits)
next
  case (ns_close a)
  then show ?case by (auto simp: NetworkAdapter_Close_def pool_tracks_def)
qed

lemma net_run_tracks:
  assumes "net_run addr6 str6 a evs a'" "NCreated name \<notin> set evs" "pool_tracks name U {} a"
  shows "pool_tracks name U (held name evs) a'"
  using assms
proof (induction rule: net_run.induct)
  case (nr_snoc a evs a' e a'')
  then show ?case using net_step_tracks [of addr6 str6 a' e a'' name U "held name evs"] by auto
qed simp

lemma ParseCIDR_Nil: "ParseCIDR addr6 [] = None"
  by (simp add: ParseCIDR_def)

text \<open>A successful \<open>CreateNetwork\<close> of an IPv4 network.\<close>

lemma CreateNetwork_v4:
  assumes "ParseCIDR addr6 (nc_CIDR c) = Some (net4 v n)" "v < 2 ^ 32" "n \<le> 32" "n \<noteq> 0"
    "\<not> nsa_closed a" "validateNetworkConfig addr6 c = Inr ()"
  shows "\<exists>a'. CreateNetwork addr6 str6 now a (Some c) = Some (a', Inr ()) \<and> nsa_closed a' = nsa_closed a \<and>
    nsa_ipPools a' = (nsa_ipPools a)(nc_Name c \<mapsto> \<lparr>pool_cidr = net4 v n, pool_allocated = {}, pool_available = hosts v n\<rparr>)"
proof -
  have "nc_CIDR c \<noteq> []" "nc_Name c \<noteq> []"
    using assms(1,6) ParseCIDR_Nil [of addr6] by (auto simp: validateNetworkConfig_def split: if_splits)
  with assms show ?thesis
    by (simp add: CreateNetwork_def Let_def SimpleNetworkStore_Create_def initializeIPPool_v4)
qed

lemma CreateNetwork_ok:
  assumes "CreateNetwork addr6 str6 now a (Some c) = Some (a', Inr ())"
  shows "\<not> nsa_closed a" "validateNetworkConfig addr6 c = Inr ()" "nc_Name c \<noteq> []"
  using assms by (auto simp: CreateNetwork_def split: if_splits sum.splits)

lemma CreateNetwork_pool:
  assumes "CreateNetwork addr6 str6 now a (Some c) = Some (a', Inr ())"
    "ParseCIDR addr6 (nc_CIDR c) = Some nt" "length (net_IP nt) = 4"
  shows "\<exists>v n. v < 2 ^ 32 \<and> n \<le> 32 \<and> n \<noteq> 0 \<and> nt = net4 v n \<and> nsa_closed a' = nsa_closed a \<and>
    nsa_ipPools a' = (nsa_ipPools a)(nc_Name c \<mapsto> \<lparr>pool_cidr = nt, pool_allocated = {}, pool_available = hosts v n\<rparr>)"
proof -
  obtain v n where vn: "v < 2 ^ 32" "n \<le> 32" "nt = net4 v n" using ParseCIDR_v4 [OF assms(2,3)] by blast
  note ok = CreateNetwork_ok [OF assms(1)]
  have "n \<noteq> 0"
  proof
    assume "n = 0"
    with vn assms(2) have "initializeIPPool addr6 str6 b m (nc_CIDR c) = None" for b m
      using initializeIPPool_v4 [of addr6 "nc_CIDR c" v n] by simp
    with assms(1) ok assms(2) ParseCIDR_Nil [of addr6] show False
      by (auto simp: CreateNetwork_def Let_def SimpleNetworkStore_Create_def split: if_splits)
  qed
  with CreateNetwork_v4 [of addr6 c v n a str6 now] assms(1,2) vn ok show ?thesis by auto
qed

text \<open>
  C10. No address of an IPv4 network is given to two holders. After the network was created, whatever
  calls were made in whatever order as long as the network was not created again, \<open>AllocateIP\<close>
  returns a host address of the network that nobody holds, that is, one that was not returned
  before or was released since, by \<open>ReleaseIP\<close> or by \<open>RemoveJobFromNetwork\<close>.
\<close>

theorem AllocateIP_exclusive:
  assumes "CreateNetwork addr6 str6 now a (Some c) = Some (a1, Inr ())"
    "ParseCIDR addr6 (nc_CIDR c) = Some nt" "length (net_IP nt) = 4"
    "net_run addr6 str6 a1 evs a2" "NCreated (nc_Name c) \<notin> set evs" "AllocateIP a2 (nc_Name c) = (a3, Inr ip)"
  shows "ip \<notin> held (nc_Name c) evs \<and>
    (\<exists>v n. nt = net4 v n \<and> ip \<in> set (hosts v n) \<and> held (nc_Name c) evs \<subseteq> set (hosts v n))"
proof -
  from CreateNetwork_pool [OF assms(1-3)] obtain v n where vn: "v < 2 ^ 32" "n \<le> 32" "nt = net4 v n"
    "nsa_ipPools a1 = (nsa_ipPools a)(nc_Name c \<mapsto> \<lparr>pool_cidr = nt, pool_allocated = {}, pool_available = hosts v n\<rparr>)"
    by blast
  have "pool_tracks (nc_Name c) (set (hosts v n)) {} a1"
    using hosts_distinct [OF vn(1,2)] by (simp add: pool_tracks_def vn(4) ip.pool_ok_def)
  from net_run_tracks [OF assms(4,5) this]
  have t: "pool_tracks (nc_Name c) (set (hosts v n)) (held (nc_Name c) evs) a2" .
  obtain pool pool' where p: "nsa_ipPools a2 (nc_Name c) = Some pool" "pool_take pool = Some (pool', ip)"
    using AllocateIP_pools [OF assms(6)] by blast
  with t have ok: "ip.pool_ok (set (hosts v n)) pool" "pool_allocated pool = held (nc_Name c) evs"
    by (auto simp: pool_tracks_def)
  have "held (nc_Name c) evs \<subseteq> set (hosts v n)" using ok unfolding ip.pool_ok_def by blast
  with ip.take_ok [OF ok(1) p(2)] ok(2) vn(3) show ?thesis by blast
qed

definition demo_net :: NetworkConfig where
  "demo_net = \<lparr>nc_Name = ''lab'', nc_Type = ''custom'', nc_CIDR = ''10.1.2.0/30'', nc_BridgeName = [], nc_Gateway = [],
     nc_DNS = [], nc_Metadata = Map.empty, nc_CreatedAt = 0, nc_UpdatedAt = 0\<rparr>"

text \<open>The adapter after the network ''lab'' was created.\<close>

definition demo_adapter :: networkStoreAdapter where
  "demo_adapter = fst (the (CreateNetwork (\<lambda>_. None) (\<lambda>_. []) 7 NewNetworkStore (Some demo_net)))"

lemma demo_create: "CreateNetwork (\<lambda>_. None) (\<lambda>_. []) 7 NewNetworkStore (Some demo_net) = Some (demo_adapter, Inr ())"
proof -
  have "(case CreateNetwork (\<lambda>_. None) (\<lambda>_. []) 7 NewNetworkStore (Some demo_net) of
      None \<Rightarrow> False | Some (a, r) \<Rightarrow> is_ok r)" by code_simp
  then show ?thesis
    by (cases "CreateNetwork (\<lambda>_. None) (\<lambda>_. []) 7 NewNetworkStore (Some demo_net)")
      (auto simp: demo_adapter_def is_ok_iff)
qed

lemma demo_cidr: "\<exists>nt. ParseCIDR (\<lambda>_. None) (nc_CIDR demo_net) = Some nt \<and> length (net_IP nt) = 4"
proof -
  have "(case ParseCIDR (\<lambda>_. None) (nc_CIDR demo_net) of None \<Rightarrow> False | Some nt \<Rightarrow> length (net_IP nt) = 4)" by code_simp
  then show ?thesis by (auto split: option.splits)
qed

lemma demo_alloc: "snd (AllocateIP demo_adapter ''lab'') = Inr ''10.1.2.1''"
  by code_simp

lemma demo_alloc2: "snd (AllocateIP (fst (AllocateIP demo_adapter ''lab'')) ''lab'') = Inr ''10.1.2.2''"
  by code_simp

theorem AllocateIP_exclusive_witness:
  "''10.1.2.2'' \<notin> held ''lab'' [NAllocated ''lab'' ''10.1.2.1'']"
proof -
  obtain nt where nt: "ParseCIDR (\<lambda>_. None) (nc_CIDR demo_net) = Some nt" "length (net_IP nt) = 4" using demo_cidr by blast
  have n: "nc_Name demo_net = ''lab''" by (simp add: demo_net_def)
  have a: "AllocateIP demo_adapter ''lab'' = (fst (AllocateIP demo_adapter ''lab''), Inr ''10.1.2.1'')"
    using demo_alloc by (metis prod.collapse)
  have "net_run (\<lambda>_. None) (\<lambda>_. []) demo_adapter ([] @ [NAllocated ''lab'' ''10.1.2.1'']) (fst (AllocateIP demo_adapter ''lab''))"
    by (rule nr_snoc [OF nr_nil ns_alloc [OF a]])
  moreover have "AllocateIP (fst (AllocateIP demo_adapter ''lab'')) ''lab'' =
      (fst (AllocateIP (fst (AllocateIP demo_adapter ''lab'')) ''lab''), Inr ''10.1.2.2'')"
    using demo_alloc2 by (metis prod.collapse)
  ultimately show ?thesis using AllocateIP_exclusive [OF demo_create nt, of "[NAllocated ''lab'' ''10.1.2.1'']"] n by auto
qed

text \<open>
  The exception is needed: \<open>CreateNetwork\<close> does not refuse the name of a network that exists. It
  succeeds again and replaces the pool, and the address that a holder got before is given out a
  second time.
\<close>

theorem recreated_network_repeats_address:
  assumes "CreateNetwork addr6 str6 now a (Some c) = Some (a1, Inr ())"
    "ParseCIDR addr6 (nc_CIDR c) = Some nt" "length (net_IP nt) = 4"
    "AllocateIP a1 (nc_Name c) = (a2, Inr ip)"
  shows "\<exists>a3 a4. CreateNetwork addr6 str6 now' a2 (Some c) = Some (a3, Inr ()) \<and>
    AllocateIP a3 (nc_Name c) = (a4, Inr ip)"
proof -
  from CreateNetwork_pool [OF assms(1-3)] obtain v n where vn: "v < 2 ^ 32" "n \<le> 32" "n \<noteq> 0" "nt = net4 v n"
    "nsa_closed a1 = nsa_closed a"
    "nsa_ipPools a1 = (nsa_ipPools a)(nc_Name c \<mapsto> \<lparr>pool_cidr = nt, pool_allocated = {}, pool_available = hosts v n\<rparr>)"
    by blast
  note ok = CreateNetwork_ok [OF assms(1)]
  obtain pool' where p: "pool_take \<lparr>pool_cidr = nt, pool_allocated = {}, pool_available = hosts v n\<rparr> = Some (pool', ip)"
    "a2 = a1\<lparr>nsa_ipPools := (nsa_ipPools a1)(nc_Name c \<mapsto> pool')\<rparr>"
    using AllocateIP_pools [OF assms(4)] vn(6) by auto
  have "\<not> nsa_closed a2" using ok(1) vn(5) p(2) by simp
  with CreateNetwork_v4 [of addr6 c v n a2 str6 now'] assms(2) vn ok obtain a3 where
    a3: "CreateNetwork addr6 str6 now' a2 (Some c) = Some (a3, Inr ())" "nsa_closed a3 = nsa_closed a2"
    "nsa_ipPools a3 = (nsa_ipPools a2)(nc_Name c \<mapsto> \<lparr>pool_cidr = nt, pool_allocated = {}, pool_available = hosts v n\<rparr>)"
    by auto
  with p(1) ok(3) \<open>\<not> nsa_closed a2\<close> show ?thesis by (simp add: AllocateIP_def)
qed

theorem recreated_network_repeats_address_witness:
  "\<exists>a3 a4. CreateNetwork (\<lambda>_. None) (\<lambda>_. []) 8 (fst (AllocateIP demo_adapter ''lab'')) (Some demo_net) = Some (a3, Inr ()) \<and>
    AllocateIP a3 ''lab'' = (a4, Inr ''10.1.2.1'')"
proof -
  obtain nt where nt: "ParseCIDR (\<lambda>_. None) (nc_CIDR demo_net) = Some nt" "length (net_IP nt) = 4" using demo_cidr by blast
  have n: "nc_Name demo_net = ''lab''" by (simp add: demo_net_def)
  have "AllocateIP demo_adapter (nc_Name demo_net) = (fst (AllocateIP demo_adapter ''lab''), Inr ''10.1.2.1'')"
    unfolding n using demo_alloc by (metis prod.collapse)
  from recreated_network_repeats_address [OF demo_create nt this, of 8] n show ?thesis by simp
qed

section \<open>Jobs keep their network\<close>

text \<open>Every assignment is stored under its job, and its network exists.\<close>

definition assigned_ok :: "networkStoreAdapter \<Rightarrow> bool" where
  "assigned_ok a \<longleftrightarrow> (\<forall>j al. SimpleAllocationStore_Get (nsa_allocationStore a) j = Some al \<longrightarrow>
     j \<noteq> [] \<and> na_NetworkName al \<noteq> [] \<and> na_JobUUID al = j \<and>
     SimpleNetworkStore_Get (nsa_networkStore a) (na_NetworkName al) \<noteq> None)"

text \<open>The validation makes sure that the pool of the new network can be set up.\<close>

lemma CreateNetwork_networks:
  assumes "CreateNetwork addr6 str6 now a (Some c) = Some (a', r)"
  shows "nsa_allocationStore a' = nsa_allocationStore a \<and>
    (SimpleNetworkStore_Get (nsa_networkStore a') = SimpleNetworkStore_Get (nsa_networkStore a) \<or>
     SimpleNetworkStore_Get (nsa_networkStore a') =
       (SimpleNetworkStore_Get (nsa_networkStore a))(nc_Name c \<mapsto> c\<lparr>nc_CreatedAt := now, nc_UpdatedAt := now\<rparr>))"
proof (cases "nsa_closed a \<or> nc_Name c = [] \<or> \<not> is_ok (validateNetworkConfig addr6 c)")
  case True
  with assms show ?thesis
    by (cases "validateNetworkConfig addr6 c") (auto simp: CreateNetwork_def split: if_splits)
next
  case False
  then have v: "validateNetworkConfig addr6 c = Inr ()" "\<not> nsa_closed a" "nc_Name c \<noteq> []" by (auto simp: is_ok_iff)
  have "nc_CIDR c = [] \<or> (\<exists>nt. ParseCIDR addr6 (nc_CIDR c) = Some nt)"
    using v(1) by (auto simp: validateNetworkConfig_def split: if_splits)
  with assms v show ?thesis
    by (auto simp: CreateNetwork_def Let_def SimpleNetworkStore_Create_def initializeIPPool_def SimpleNetworkStore_Get_map
      split: if_splits option.splits)
qed

lemma ReleaseIP_stores:
  "nsa_allocationStore (fst (ReleaseIP a n ip)) = nsa_allocationStore a \<and>
   nsa_networkStore (fst (ReleaseIP a n ip)) = nsa_networkStore a \<and> nsa_closed (fst (ReleaseIP a n ip)) = nsa_closed a"
  by (auto simp: ReleaseIP_def split: option.splits)

lemma AllocateIP_stores:
  "nsa_allocationStore (fst (AllocateIP a n)) = nsa_allocationStore a \<and>
   nsa_networkStore (fst (AllocateIP a n)) = nsa_networkStore a \<and> nsa_closed (fst (AllocateIP a n)) = nsa_closed a"
  by (auto simp: AllocateIP_def split: option.splits)

lemma RemoveJob_stores:
  "nsa_networkStore (fst (RemoveJobFromNetwork a j)) = nsa_networkStore a \<and>
   (nsa_allocationStore (fst (RemoveJobFromNetwork a j)) = nsa_allocationStore a \<or>
    SimpleAllocationStore_Get (nsa_allocationStore (fst (RemoveJobFromNetwork a j))) =
      (SimpleAllocationStore_Get (nsa_allocationStore a))(j := None))"
  by (auto simp: RemoveJobFromNetwork_def Let_def ReleaseIP_stores als.get_delete split: option.splits)

text \<open>The invariant stays when assignments go, and networks go only where no job is assigned.\<close>

lemma assigned_ok_mono:
  assumes "assigned_ok a"
    "\<And>j al. SimpleAllocationStore_Get (nsa_allocationStore a') j = Some al \<Longrightarrow>
      SimpleAllocationStore_Get (nsa_allocationStore a) j = Some al \<and>
      (SimpleNetworkStore_Get (nsa_networkStore a) (na_NetworkName al) \<noteq> None \<longrightarrow>
       SimpleNetworkStore_Get (nsa_networkStore a') (na_NetworkName al) \<noteq> None)"
  shows "assigned_ok a'"
  using assms unfolding assigned_ok_def by blast

lemma assigned_ok_unassign: "assigned_ok a \<Longrightarrow> assigned_ok (fst (RemoveJobFromNetwork a j))"
  by (erule assigned_ok_mono) (use RemoveJob_stores [of a j] in \<open>auto split: if_splits\<close>)

lemma RemoveNetwork_cases:
  assumes "range_order ks (SimpleAllocationStore_Get (nsa_allocationStore a))"
  shows "fst (RemoveNetwork ks a name) = a \<and> (\<exists>e. snd (RemoveNetwork ks a name) = Inl e) \<or>
    snd (RemoveNetwork ks a name) = Inr () \<and> \<not> nsa_closed a \<and>
    (\<forall>j al. SimpleAllocationStore_Get (nsa_allocationStore a) j = Some al \<longrightarrow> na_NetworkName al \<noteq> name) \<and>
    SimpleNetworkStore_Get (nsa_networkStore a) name \<noteq> None \<and>
    fst (RemoveNetwork ks a name) = a\<lparr>nsa_networkStore := SimpleNetworkStore_Delete (nsa_networkStore a) name,
             nsa_ipPools := (nsa_ipPools a)(name := None)\<rparr>"
  using als.list_filter_empty [OF assms, of "\<lambda>al. na_NetworkName al = name"]
  by (auto simp: RemoveNetwork_def ListJobsInNetwork_def split: option.splits)

lemma assigned_ok_assign:
  assumes "assigned_ok a"
  shows "assigned_ok (fst (AssignJobToNetwork now a j name al))"
proof (cases "nsa_closed a \<or> j = [] \<or> name = [] \<or> al = None \<or> Network a name = None")
  case True
  then have "fst (AssignJobToNetwork now a j name al) = a"
    by (auto simp: AssignJobToNetwork_def split: option.splits)
  with assms show ?thesis by simp
next
  case False
  then obtain x where x: "al = Some x" by auto
  have n: "SimpleNetworkStore_Get (nsa_networkStore a) name \<noteq> None" using False by (auto simp: Network_def)
  have "fst (AssignJobToNetwork now a j name al) = a\<lparr>nsa_allocationStore := fst (SimpleAllocationStore_Create
      (nsa_allocationStore a) j (x\<lparr>na_AssignedAt := now, na_JobUUID := j, na_NetworkName := name\<rparr>))\<rparr>"
    using False x by (auto simp: AssignJobToNetwork_def SimpleAllocationStore_Create_def split: option.splits)
  with assms False n show ?thesis unfolding assigned_ok_def by (simp add: als.get_create)
qed

lemma net_step_assigned:
  assumes "net_step addr6 str6 a e a'" "assigned_ok a"
  shows "assigned_ok a'"
  using assms
proof (induction rule: net_step.induct)
  case (ns_create now a c a' r)
  from ns_create.prems show ?case
    by (rule assigned_ok_mono) (use CreateNetwork_networks [OF ns_create.hyps] in auto)
next
  case (ns_remove ks a name)
  from ns_remove.prems show ?case
    by (rule assigned_ok_mono) (use RemoveNetwork_cases [OF ns_remove.hyps, of name] in \<open>auto simp: ns.get_delete\<close>)
next
  case (ns_assign a now j name al)
  then show ?case by (rule assigned_ok_assign)
next
  case (ns_alloc a name a' ip)
  from ns_alloc.prems show ?case
    by (rule assigned_ok_mono) (use AllocateIP_stores [of a name] ns_alloc.hyps in auto)
next
  case (ns_release a name ip a')
  from ns_release.prems show ?case
    by (rule assigned_ok_mono) (use ReleaseIP_stores [of a name ip] ns_release.hyps in auto)
next
  case (ns_close a)
  from ns_close.prems show ?case
    by (rule assigned_ok_mono) (auto simp: NetworkAdapter_Close_def als.get_close split: if_splits)
qed (auto intro: assigned_ok_unassign)

lemma net_run_assigned:
  assumes "net_run addr6 str6 a evs a'" "assigned_ok a"
  shows "assigned_ok a'"
  using assms by (induction rule: net_run.induct) (auto intro: net_step_assigned)

text \<open>
  In every state that calls on a new adapter lead to, each job that is assigned is assigned to a
  network that exists; and \<open>RemoveNetwork\<close> removes a network exactly when it exists and no job is
  assigned to it, and otherwise fails and changes nothing.
\<close>

theorem RemoveNetwork_unused:
  assumes "net_run addr6 str6 NewNetworkStore evs a" "range_order ks (SimpleAllocationStore_Get (nsa_allocationStore a))"
    "\<not> nsa_closed a" "name \<noteq> []"
  shows "(\<forall>j al. GetJobNetworkAllocation a j = Some al \<longrightarrow> na_JobUUID al = j \<and> Network a (na_NetworkName al) \<noteq> None) \<and>
    (if Network a name \<noteq> None \<and> (\<forall>j al. GetJobNetworkAllocation a j = Some al \<longrightarrow> na_NetworkName al \<noteq> name)
     then snd (RemoveNetwork ks a name) = Inr () \<and> Network (fst (RemoveNetwork ks a name)) name = None
     else (\<exists>e. RemoveNetwork ks a name = (a, Inl e)))"
proof
  have ok: "assigned_ok a"
    using net_run_assigned [OF assms(1)]
    by (simp add: assigned_ok_def NewNetworkStore_def NewNetworkStoreAdapter_def SimpleAllocationStore_Get_map)
  have get: "GetJobNetworkAllocation a j = SimpleAllocationStore_Get (nsa_allocationStore a) j" for j
    using ok assms(3) by (cases "SimpleAllocationStore_Get (nsa_allocationStore a) j")
      (auto simp: GetJobNetworkAllocation_def assigned_ok_def)
  have net: "Network a m = SimpleNetworkStore_Get (nsa_networkStore a) m" if "m \<noteq> []" for m
    using that assms(3) by (simp add: Network_def)
  show "\<forall>j al. GetJobNetworkAllocation a j = Some al \<longrightarrow> na_JobUUID al = j \<and> Network a (na_NetworkName al) \<noteq> None"
    using ok net unfolding get assigned_ok_def by auto
  have jobs: "ListJobsInNetwork ks a name = [] \<longleftrightarrow>
      (\<forall>j al. GetJobNetworkAllocation a j = Some al \<longrightarrow> na_NetworkName al \<noteq> name)"
    unfolding get using als.list_filter_empty [OF assms(2), of "\<lambda>al. na_NetworkName al = name"] assms(3)
    by (simp add: ListJobsInNetwork_def)
  show "if Network a name \<noteq> None \<and> (\<forall>j al. GetJobNetworkAllocation a j = Some al \<longrightarrow> na_NetworkName al \<noteq> name)
     then snd (RemoveNetwork ks a name) = Inr () \<and> Network (fst (RemoveNetwork ks a name)) name = None
     else (\<exists>e. RemoveNetwork ks a name = (a, Inl e))"
    unfolding jobs [symmetric] net [OF assms(4)] using assms(3,4)
    by (auto simp: RemoveNetwork_def Network_def ns.get_delete split: option.splits)
qed

text \<open>A job in the network ''lab''.\<close>

definition demo_assigned :: networkStoreAdapter where
  "demo_assigned = fst (AssignJobToNetwork 9 demo_adapter ''job-0001'' ''lab''
     (Some \<lparr>na_JobUUID = [], na_NetworkName = [], na_IPAddress = [], na_MACAddress = [], na_Hostname = [],
            na_Metadata = Map.empty, na_AssignedAt = 0\<rparr>))"

lemma demo_assigned_run: "net_run (\<lambda>_. None) (\<lambda>_. []) NewNetworkStore [NCreated ''lab'', NOther] demo_assigned"
proof -
  have "net_run (\<lambda>_. None) (\<lambda>_. []) NewNetworkStore ([] @ [NCreated (nc_Name demo_net)]) demo_adapter"
    by (rule nr_snoc [OF nr_nil ns_create [OF demo_create]])
  from nr_snoc [OF this ns_assign] show ?thesis by (simp add: demo_assigned_def demo_net_def)
qed

theorem RemoveNetwork_unused_witness:
  "\<exists>e. RemoveNetwork [''job-0001''] demo_assigned ''lab'' = (demo_assigned, Inl e)"
proof -
  have d: "range_order [''job-0001''] (SimpleAllocationStore_Get (nsa_allocationStore demo_assigned))"
  proof -
    have n: "nsa_allocationStore demo_adapter = nsa_allocationStore NewNetworkStore"
      using CreateNetwork_networks [OF demo_create] by blast
    have "\<not> nsa_closed demo_adapter \<and> (case Network demo_adapter ''lab'' of None \<Rightarrow> False | Some _ \<Rightarrow> True)" by code_simp
    then show ?thesis using n
      by (auto simp: demo_assigned_def AssignJobToNetwork_def SimpleAllocationStore_Create_def range_order_def
        SimpleAllocationStore_Get_map NewNetworkStore_def NewNetworkStoreAdapter_def split: option.splits)
  qed
  have "\<not> nsa_closed demo_assigned \<and> (case GetJobNetworkAllocation demo_assigned ''job-0001'' of None \<Rightarrow> False
      | Some al \<Rightarrow> na_NetworkName al = ''lab'')" by code_simp
  then obtain al where c: "\<not> nsa_closed demo_assigned" "GetJobNetworkAllocation demo_assigned ''job-0001'' = Some al"
    "na_NetworkName al = ''lab''" by (auto split: option.splits)
  from RemoveNetwork_unused [OF demo_assigned_run d c(1), of "''lab''"] c(2,3) show ?thesis
    by (auto split: if_splits)
qed

section \<open>Setup and cleanup\<close>

lemma dotted_not_Nil:
  assumes "ip \<noteq> []"
  shows "dotted ip \<noteq> []"
proof -
  obtain b bs where "ip = b # bs" using assms by (cases ip) auto
  then show ?thesis by (cases bs) (simp_all add: dotted_def)
qed

lemma hosts_not_Nil: "ip \<in> set (hosts v n) \<Longrightarrow> ip \<noteq> []"
proof -
  have "ip_of 4 w \<noteq> []" for w using length_ip_of [of 4 w] by (metis list.size(3) zero_neq_numeral)
  then show "ip \<in> set (hosts v n) \<Longrightarrow> ip \<noteq> []" unfolding hosts_def using dotted_not_Nil by auto
qed

text \<open>Giving an address back right after it was taken restores the set of allocated addresses.\<close>

lemma release_after_take:
  assumes "ip.pool_ok U pool" "nsa_ipPools a name = Some pool" "pool_take pool = Some (pool', ip)"
    "b = a\<lparr>nsa_ipPools := (nsa_ipPools a)(name \<mapsto> pool'), nsa_allocationStore := st\<rparr>"
    "\<not> nsa_closed a" "name \<noteq> []" "ip \<noteq> []"
  shows "\<exists>pool''. pool_allocated pool'' = pool_allocated pool \<and>
    ReleaseIP b name ip = (b\<lparr>nsa_ipPools := (nsa_ipPools a)(name \<mapsto> pool'')\<rparr>, Inr ())"
proof -
  obtain pool'' where "pool_give pool' ip = Some pool''" "pool_allocated pool'' = pool_allocated pool"
    using ip.give_take [OF assms(3)] ip.take_ok [OF assms(1,3)] by blast
  with assms show ?thesis by (auto simp: ReleaseIP_def)
qed

lemma Setup_taken:
  assumes "name \<noteq> ''isolated''" "name \<noteq> ''none''" "8 \<le> length j" "SetupNetworking now a j name = (a', r)"
    "ip.pool_ok U pool" "nsa_ipPools a name = Some pool" "\<forall>ip \<in> U. ip \<noteq> []"
  shows "case r of
      Inl e \<Rightarrow> nsa_allocationStore a' = nsa_allocationStore a \<and>
        (\<exists>pool'. nsa_ipPools a' = (nsa_ipPools a)(name \<mapsto> pool') \<and> pool_allocated pool' = pool_allocated pool)
    | Inr al \<Rightarrow> nal_IP al \<in> U \<and> nal_IP al \<notin> pool_allocated pool \<and>
        (\<exists>x. GetJobNetworkAllocation a' j = Some x \<and> na_IPAddress x = nal_IP al \<and> na_NetworkName x = name \<and> na_JobUUID x = j) \<and>
        (\<exists>a'' pool''. CleanupNetworking a' j = (a'', Inr ()) \<and> GetJobNetworkAllocation a'' j = None \<and>
          nsa_ipPools a'' = (nsa_ipPools a)(name \<mapsto> pool'') \<and> pool_allocated pool'' = pool_allocated pool)"
proof (cases "AllocateIP a name")
  case (Pair a1 r1)
  show ?thesis
  proof (cases r1)
    case (Inl e)
    with Pair have "a1 = a" by (auto simp: AllocateIP_def split: if_splits option.splits)
    moreover have "nsa_ipPools a = (nsa_ipPools a)(name \<mapsto> pool)" using assms(6) by auto
    ultimately show ?thesis using Pair Inl assms(1,2,4) by (auto simp: SetupNetworking_def)
  next
    case (Inr ip)
    have opn: "\<not> nsa_closed a" "name \<noteq> []" using Pair Inr by (auto simp: AllocateIP_def split: if_splits)
    obtain pool' where p: "pool_take pool = Some (pool', ip)" "a1 = a\<lparr>nsa_ipPools := (nsa_ipPools a)(name \<mapsto> pool')\<rparr>"
      using AllocateIP_pools [of a name a1 ip] Pair Inr assms(6) by auto
    note t = ip.take_ok [OF assms(5) p(1)]
    have ne: "ip \<noteq> []" using t assms(7) by blast
    have j: "j \<noteq> []" "\<not> length j < 8" using assms(3) by auto
    show ?thesis
    proof (cases "Network a1 name")
      case None
      have as: "AssignJobToNetwork now a1 j name (Some x) = (a1, Inl (NetworkNotFound name))" for x
        using None opn j p(2) by (simp add: AssignJobToNetwork_def)
      obtain pool'' where "pool_allocated pool'' = pool_allocated pool"
        "ReleaseIP a1 name ip = (a1\<lparr>nsa_ipPools := (nsa_ipPools a)(name \<mapsto> pool'')\<rparr>, Inr ())"
        using release_after_take [OF assms(5,6) p(1), of a1 "nsa_allocationStore a"] p(2) opn ne by auto
      with assms(1-4) Pair Inr j as p(2) show ?thesis by (auto simp: SetupNetworking_def Let_def)
    next
      case (Some c)
      define x where "x = \<lparr>na_JobUUID = j, na_NetworkName = name, na_IPAddress = ip, na_MACAddress = [],
        na_Hostname = ''job_'' @ take 8 j, na_Metadata = Map.empty, na_AssignedAt = now\<rparr>"
      define a2 where "a2 = a1\<lparr>nsa_allocationStore := fst (SimpleAllocationStore_Create (nsa_allocationStore a1) j x)\<rparr>"
      have as: "AssignJobToNetwork now a1 j name (Some x) = (a2, Inr ())"
        using Some opn j p(2) by (simp add: AssignJobToNetwork_def a2_def x_def SimpleAllocationStore_Create_def)
      have r: "a' = a2" "r = Inr \<lparr>nal_JobUUID = j, nal_Network = name, nal_IP = ip, nal_Hostname = ''job_'' @ take 8 j\<rparr>"
        using assms(1-4) Pair Inr j as by (auto simp: SetupNetworking_def Let_def x_def)
      have g: "GetJobNetworkAllocation a2 j = Some x"
        using opn j p(2) by (simp add: GetJobNetworkAllocation_def a2_def als.get_create)
      obtain pool'' where p'': "pool_allocated pool'' = pool_allocated pool"
        "ReleaseIP a2 name ip = (a2\<lparr>nsa_ipPools := (nsa_ipPools a)(name \<mapsto> pool'')\<rparr>, Inr ())"
        using release_after_take [OF assms(5,6) p(1), of a2] p(2) opn ne by (auto simp: a2_def)
      have "CleanupNetworking a2 j = (a2\<lparr>nsa_ipPools := (nsa_ipPools a)(name \<mapsto> pool''),
          nsa_allocationStore := SimpleAllocationStore_Delete (nsa_allocationStore a2) j\<rparr>, Inr ())"
        using g p'' ne j opn p(2)
        by (simp add: CleanupNetworking_def RemoveJobFromNetwork_def x_def) (simp add: a2_def)
      with g p'' t r show ?thesis
        by (auto simp: x_def GetJobNetworkAllocation_def als.get_delete)
    qed
  qed
qed

text \<open>
  \<open>SetupNetworking\<close> for a job in an IPv4 network leaks no address. If it fails, the allocated
  addresses and the assignments are what they were. If it succeeds, the job has an address of the
  network that nobody held, it is recorded, and \<open>CleanupNetworking\<close> takes back exactly this. (The id
  of the job has at least the eight bytes the host name is made of.)
\<close>

theorem SetupNetworking_no_leak:
  assumes "CreateNetwork addr6 str6 now a (Some c) = Some (a1, Inr ())"
    "ParseCIDR addr6 (nc_CIDR c) = Some nt" "length (net_IP nt) = 4"
    "net_run addr6 str6 a1 evs a2" "NCreated (nc_Name c) \<notin> set evs" "nsa_ipPools a2 (nc_Name c) \<noteq> None"
    "nc_Name c \<noteq> ''isolated''" "nc_Name c \<noteq> ''none''" "8 \<le> length j" "SetupNetworking now' a2 j (nc_Name c) = (a3, r)"
  shows "case r of
      Inl e \<Rightarrow> nsa_allocationStore a3 = nsa_allocationStore a2 \<and>
        (\<exists>pool'. nsa_ipPools a3 = (nsa_ipPools a2)(nc_Name c \<mapsto> pool') \<and> pool_allocated pool' = held (nc_Name c) evs)
    | Inr al \<Rightarrow> nal_IP al \<notin> held (nc_Name c) evs \<and>
        (\<exists>x. GetJobNetworkAllocation a3 j = Some x \<and> na_IPAddress x = nal_IP al \<and> na_NetworkName x = nc_Name c) \<and>
        (\<exists>a4 pool'. CleanupNetworking a3 j = (a4, Inr ()) \<and> GetJobNetworkAllocation a4 j = None \<and>
          nsa_ipPools a4 = (nsa_ipPools a2)(nc_Name c \<mapsto> pool') \<and> pool_allocated pool' = held (nc_Name c) evs)"
proof -
  from CreateNetwork_pool [OF assms(1-3)] obtain v n where vn: "v < 2 ^ 32" "n \<le> 32"
    "nsa_ipPools a1 = (nsa_ipPools a)(nc_Name c \<mapsto> \<lparr>pool_cidr = nt, pool_allocated = {}, pool_available = hosts v n\<rparr>)"
    by blast
  have "pool_tracks (nc_Name c) (set (hosts v n)) {} a1"
    using hosts_distinct [OF vn(1,2)] by (simp add: pool_tracks_def vn(3) ip.pool_ok_def)
  from net_run_tracks [OF assms(4,5) this] assms(6) obtain pool where
    p: "nsa_ipPools a2 (nc_Name c) = Some pool" "ip.pool_ok (set (hosts v n)) pool" "pool_allocated pool = held (nc_Name c) evs"
    by (auto simp: pool_tracks_def)
  from Setup_taken [OF assms(7-10) p(2,1)] hosts_not_Nil p(3) show ?thesis
    by (cases r) auto
qed

theorem SetupNetworking_no_leak_witness:
  "\<exists>a3 al a4. SetupNetworking 9 demo_adapter ''job-0001'' ''lab'' = (a3, Inr al) \<and> nal_IP al \<notin> held ''lab'' [] \<and>
     CleanupNetworking a3 ''job-0001'' = (a4, Inr ()) \<and> GetJobNetworkAllocation a4 ''job-0001'' = None"
proof -
  obtain nt where nt: "ParseCIDR (\<lambda>_. None) (nc_CIDR demo_net) = Some nt" "length (net_IP nt) = 4" using demo_cidr by blast
  have n: "nc_Name demo_net = ''lab''" by (simp add: demo_net_def)
  have "is_ok (snd (SetupNetworking 9 demo_adapter ''job-0001'' ''lab'')) \<and>
      (case nsa_ipPools demo_adapter ''lab'' of None \<Rightarrow> False | Some _ \<Rightarrow> True)" by code_simp
  then obtain a3 al where s: "SetupNetworking 9 demo_adapter ''job-0001'' ''lab'' = (a3, Inr al)"
    "nsa_ipPools demo_adapter ''lab'' \<noteq> None"
    by (cases "SetupNetworking 9 demo_adapter ''job-0001'' ''lab''") (auto simp: is_ok_iff split: option.splits)
  show ?thesis
    using SetupNetworking_no_leak [OF demo_create nt nr_nil, of "''job-0001''" 9 a3 "Inr al"] s n by auto
qed

end
