(* ===== verification/StateStorage.thy ===== *)
theory StateStorage
  imports Stores
begin

text \<open>
  The state service's storage, \<open>state/internal/storage/\<close>: the in-memory backend (\<open>memory.go\<close>), the
  backend that keeps a gzipped file of JSON lines (\<open>local.go\<close>) and their interface
  (\<open>interface.go\<close>), here the locale \<open>state_backend\<close>. Each method of the interface holds the
  backend's mutex for its whole body; only \<open>Close\<close> gives it up between setting its flag and the last save,
  and as no other method reads the flag, what comes in between is the same as before \<open>Close\<close>.

  Of the file, the lines between the compression and the JSON codec are modelled. The JSON codec
  is a parameter: \<open>enc\<close> is \<open>json.Marshal\<close> (\<open>None\<close> an error) and \<open>dec\<close> is \<open>json.Unmarshal\<close>; what
  the round trip relies on is \<open>json_codec\<close>. Whether the operating system's calls succeed is an argument.
\<close>

section \<open>Interface\<close>

datatype storage_error =
    ErrJobNotFound
  | ErrJobAlreadyExists
  | ErrInvalidBackend
  | StateIOFailure string
  | StateMarshalFailure string
  | StateReadFailure string

record Filter =
  f_Status :: string
  f_NodeID :: string
  f_Limit :: int
  f_SortBy :: string
  f_SortDesc :: bool
  f_Statuses :: "string list"

section \<open>Filtering and sorting\<close>

definition matchesFilter :: "Job \<Rightarrow> Filter option \<Rightarrow> bool" where
  "matchesFilter job filt =
     (case filt of
        None \<Rightarrow> True
      | Some f \<Rightarrow>
          (if length (f_Statuses f) > 0 then job_Status job \<in> set (f_Statuses f)
           else f_Status f \<noteq> [] \<longrightarrow> job_Status job = f_Status f) \<and>
          \<not> (f_NodeID f \<noteq> [] \<and> job_NodeId job \<noteq> f_NodeID f))"

text \<open>Go compares strings byte by byte.\<close>

definition string_less :: "string \<Rightarrow> string \<Rightarrow> bool" where
  "string_less s t = ord_class.lexordp (map byte_val s) (map byte_val t)"

definition sort_less :: "string \<Rightarrow> bool \<Rightarrow> Job \<Rightarrow> Job \<Rightarrow> bool" where
  "sort_less sortBy descending a b =
     (let l = (if sortBy = ''createdAt'' \<or> sortBy = ''startTime'' then job_StartTime a < job_StartTime b
               else if sortBy = ''status'' then string_less (job_Status a) (job_Status b)
               else job_StartTime a < job_StartTime b)
      in if descending then \<not> l else l)"

definition sortJobs :: "Job list \<Rightarrow> string \<Rightarrow> bool \<Rightarrow> Job list" where
  "sortJobs jobs sortBy descending = sort_slice (sort_less sortBy descending) jobs"

section \<open>The in-memory backend\<close>

record memoryBackend =
  mb_jobs :: "string \<rightharpoonup> Job"

definition NewMemoryBackend :: memoryBackend where
  "NewMemoryBackend = \<lparr>mb_jobs = Map.empty\<rparr>"

definition memoryBackend_Create :: "instant \<Rightarrow> memoryBackend \<Rightarrow> Job \<Rightarrow> memoryBackend \<times> (storage_error, unit) result" where
  "memoryBackend_Create now m job =
     (if mb_jobs m (job_Uuid job) \<noteq> None then (m, Inl ErrJobAlreadyExists)
      else (let jobCopy = (if job_StartTime job = 0 then job\<lparr>job_StartTime := now\<rparr> else job)
            in (m\<lparr>mb_jobs := (mb_jobs m)(job_Uuid job \<mapsto> jobCopy)\<rparr>, Inr ())))"

definition memoryBackend_Get :: "memoryBackend \<Rightarrow> string \<Rightarrow> (storage_error, Job) result" where
  "memoryBackend_Get m jobID =
     (case mb_jobs m jobID of None \<Rightarrow> Inl ErrJobNotFound | Some job \<Rightarrow> Inr job)"

definition memoryBackend_Update :: "memoryBackend \<Rightarrow> Job \<Rightarrow> memoryBackend \<times> (storage_error, unit) result" where
  "memoryBackend_Update m job =
     (if mb_jobs m (job_Uuid job) = None then (m, Inl ErrJobNotFound)
      else (m\<lparr>mb_jobs := (mb_jobs m)(job_Uuid job \<mapsto> job)\<rparr>, Inr ()))"

definition memoryBackend_Delete :: "memoryBackend \<Rightarrow> string \<Rightarrow> memoryBackend \<times> (storage_error, unit) result" where
  "memoryBackend_Delete m jobID =
     (if mb_jobs m jobID = None then (m, Inl ErrJobNotFound)
      else (m\<lparr>mb_jobs := (mb_jobs m)(jobID := None)\<rparr>, Inr ()))"

text \<open>The slice \<open>result[:filter.Limit]\<close>.\<close>

definition memoryBackend_List :: "string list \<Rightarrow> memoryBackend \<Rightarrow> Filter option \<Rightarrow> Job list" where
  "memoryBackend_List ks m filt =
     (let result = filter (\<lambda>job. matchesFilter job filt) (range_vals ks (mb_jobs m));
          sorted = (case filt of
             None \<Rightarrow> result
           | Some f \<Rightarrow> if f_SortBy f \<noteq> [] then sortJobs result (f_SortBy f) (f_SortDesc f) else result)
      in case filt of
           None \<Rightarrow> sorted
         | Some f \<Rightarrow> if f_Limit f > 0 \<and> int (length sorted) > f_Limit f then take (nat (f_Limit f)) sorted else sorted)"

definition memoryBackend_Sync :: "memoryBackend \<Rightarrow> Job list \<Rightarrow> memoryBackend \<times> (storage_error, unit) result" where
  "memoryBackend_Sync m jobs =
     (m\<lparr>mb_jobs := fold (\<lambda>job js. js(job_Uuid job \<mapsto> job)) jobs Map.empty\<rparr>, Inr ())"

section \<open>The file backend\<close>

text \<open>\<open>lb_disk\<close> are the lines of the file at \<open>filePath\<close>; \<open>None\<close> while there is none.\<close>

record localBackend =
  lb_jobs :: "string \<rightharpoonup> Job"
  lb_dirty :: bool
  lb_closed :: bool
  lb_disk :: "string list option"

type_synonym encoder = "Job \<Rightarrow> string option"
type_synonym decoder = "string \<Rightarrow> Job option"

text \<open>The lines of the jobs in the order of the map's range; the first job that cannot be encoded ends the loop.\<close>

fun encode_jobs :: "encoder \<Rightarrow> Job list \<Rightarrow> (storage_error, string list) result" where
  "encode_jobs enc [] = Inr []"
| "encode_jobs enc (job # jobs) =
     (case enc job of
        None \<Rightarrow> Inl (StateMarshalFailure (job_Uuid job))
      | Some data \<Rightarrow>
          (case encode_jobs enc jobs of Inl e \<Rightarrow> Inl e | Inr rest \<Rightarrow> Inr (data # rest)))"

text \<open>
  The file is written beside the old one and renamed over it at the end: an error on the way
  leaves the old one. \<open>io\<close> is the first call of the operating system that fails, if any.
\<close>

definition saveToDisk :: "encoder \<Rightarrow> string list \<Rightarrow> string option \<Rightarrow> localBackend \<Rightarrow> localBackend \<times> (storage_error, unit) result" where
  "saveToDisk enc ks io lb =
     (case encode_jobs enc (range_vals ks (lb_jobs lb)) of
        Inl err \<Rightarrow> (lb, Inl err)
      | Inr data \<Rightarrow>
          (case io of
             Some err \<Rightarrow> (lb, Inl (StateIOFailure err))
           | None \<Rightarrow> (lb\<lparr>lb_disk := Some data\<rparr>, Inr ())))"

text \<open>The longest token of the scanner, with its newline.\<close>

definition max_token :: nat where
  "max_token = 1024 * 1024"

text \<open>The loop over the lines. A line that cannot be decoded is skipped; one that is too long ends it with an error.\<close>

fun load_lines :: "decoder \<Rightarrow> string list \<Rightarrow> (string \<rightharpoonup> Job) \<Rightarrow> (string \<rightharpoonup> Job) \<times> (storage_error, unit) result" where
  "load_lines dec [] jobs = (jobs, Inr ())"
| "load_lines dec (line # lines) jobs =
     (if length line + 1 > max_token then (jobs, Inl (StateReadFailure ''token too long''))
      else if length line = 0 then load_lines dec lines jobs
      else (case dec line of
        None \<Rightarrow> load_lines dec lines jobs
      | Some job \<Rightarrow> load_lines dec lines (jobs(job_Uuid job \<mapsto> job))))"

definition loadFromDisk :: "decoder \<Rightarrow> localBackend \<Rightarrow> localBackend \<times> (storage_error, unit) result" where
  "loadFromDisk dec lb =
     (case lb_disk lb of
        None \<Rightarrow> (lb, Inr ())
      | Some lines \<Rightarrow> (let (jobs, r) = load_lines dec lines (lb_jobs lb) in (lb\<lparr>lb_jobs := jobs\<rparr>, r)))"

text \<open>A new backend on the file that is there; the error of the load is only logged.\<close>

definition NewLocalBackend :: "decoder \<Rightarrow> string list option \<Rightarrow> localBackend" where
  "NewLocalBackend dec disk =
     fst (loadFromDisk dec \<lparr>lb_jobs = Map.empty, lb_dirty = False, lb_closed = False, lb_disk = disk\<rparr>)"

definition markDirty :: "localBackend \<Rightarrow> localBackend" where
  "markDirty lb = lb\<lparr>lb_dirty := True\<rparr>"

text \<open>What \<open>backgroundSync\<close> does at a tick.\<close>

definition backgroundSync_tick :: "encoder \<Rightarrow> string list \<Rightarrow> string option \<Rightarrow> localBackend \<Rightarrow> localBackend" where
  "backgroundSync_tick enc ks io lb =
     (if lb_dirty lb then
        (case saveToDisk enc ks io lb of
           (lb', Inl err) \<Rightarrow> lb'
         | (lb', Inr _) \<Rightarrow> lb'\<lparr>lb_dirty := False\<rparr>)
      else lb)"

definition localBackend_Create :: "instant \<Rightarrow> localBackend \<Rightarrow> Job \<Rightarrow> localBackend \<times> (storage_error, unit) result" where
  "localBackend_Create now lb job =
     (if lb_jobs lb (job_Uuid job) \<noteq> None then (lb, Inl ErrJobAlreadyExists)
      else (let jobCopy = (if job_StartTime job = 0 then job\<lparr>job_StartTime := now\<rparr> else job)
            in (markDirty (lb\<lparr>lb_jobs := (lb_jobs lb)(job_Uuid job \<mapsto> jobCopy)\<rparr>), Inr ())))"

definition localBackend_Get :: "localBackend \<Rightarrow> string \<Rightarrow> (storage_error, Job) result" where
  "localBackend_Get lb jobID =
     (case lb_jobs lb jobID of None \<Rightarrow> Inl ErrJobNotFound | Some job \<Rightarrow> Inr job)"

definition localBackend_Update :: "localBackend \<Rightarrow> Job \<Rightarrow> localBackend \<times> (storage_error, unit) result" where
  "localBackend_Update lb job =
     (if lb_jobs lb (job_Uuid job) = None then (lb, Inl ErrJobNotFound)
      else (markDirty (lb\<lparr>lb_jobs := (lb_jobs lb)(job_Uuid job \<mapsto> job)\<rparr>), Inr ()))"

definition localBackend_Delete :: "localBackend \<Rightarrow> string \<Rightarrow> localBackend \<times> (storage_error, unit) result" where
  "localBackend_Delete lb jobID =
     (if lb_jobs lb jobID = None then (lb, Inl ErrJobNotFound)
      else (markDirty (lb\<lparr>lb_jobs := (lb_jobs lb)(jobID := None)\<rparr>), Inr ()))"

text \<open>\<open>local.go\<close> has its own copies of \<open>matchesFilter\<close> and \<open>sortJobs\<close>.\<close>

definition localBackend_matchesFilter :: "Job \<Rightarrow> Filter option \<Rightarrow> bool" where
  "localBackend_matchesFilter job filt =
     (case filt of
        None \<Rightarrow> True
      | Some f \<Rightarrow>
          (if length (f_Statuses f) > 0 then job_Status job \<in> set (f_Statuses f)
           else f_Status f \<noteq> [] \<longrightarrow> job_Status job = f_Status f) \<and>
          \<not> (f_NodeID f \<noteq> [] \<and> job_NodeId job \<noteq> f_NodeID f))"

definition localBackend_sortJobs :: "Job list \<Rightarrow> string \<Rightarrow> bool \<Rightarrow> Job list" where
  "localBackend_sortJobs jobs sortBy descending =
     sort_slice (\<lambda>a b.
       let l = (if sortBy = ''createdAt'' \<or> sortBy = ''startTime'' then job_StartTime a < job_StartTime b
                else if sortBy = ''status'' then string_less (job_Status a) (job_Status b)
                else job_StartTime a < job_StartTime b)
       in if descending then \<not> l else l) jobs"

definition localBackend_List :: "string list \<Rightarrow> localBackend \<Rightarrow> Filter option \<Rightarrow> Job list" where
  "localBackend_List ks lb filt =
     (let result = filter (\<lambda>job. localBackend_matchesFilter job filt) (range_vals ks (lb_jobs lb));
          sorted = (case filt of
             None \<Rightarrow> result
           | Some f \<Rightarrow> if f_SortBy f \<noteq> [] then localBackend_sortJobs result (f_SortBy f) (f_SortDesc f) else result)
      in case filt of
           None \<Rightarrow> sorted
         | Some f \<Rightarrow> if f_Limit f > 0 \<and> int (length sorted) > f_Limit f then take (nat (f_Limit f)) sorted else sorted)"

definition localBackend_Sync ::
  "encoder \<Rightarrow> string list \<Rightarrow> string option \<Rightarrow> localBackend \<Rightarrow> Job list \<Rightarrow> localBackend \<times> (storage_error, unit) result" where
  "localBackend_Sync enc ks io lb jobs =
     saveToDisk enc ks io (markDirty (lb\<lparr>lb_jobs := fold (\<lambda>job js. js(job_Uuid job \<mapsto> job)) jobs Map.empty\<rparr>))"

definition localBackend_Close ::
  "encoder \<Rightarrow> string list \<Rightarrow> string option \<Rightarrow> localBackend \<Rightarrow> localBackend \<times> (storage_error, unit) result" where
  "localBackend_Close enc ks io lb =
     (if lb_closed lb then (lb, Inr ())
      else (let lb' = lb\<lparr>lb_closed := True\<rparr> in
            if lb_dirty lb' then saveToDisk enc ks io lb' else (lb', Inr ())))"

section \<open>The choice of a backend\<close>

datatype backend_kind = UseMemory | UseLocal | UseDynamoDB

definition NewBackend :: "string \<Rightarrow> (storage_error, backend_kind) result" where
  "NewBackend name =
     (if name = ''memory'' \<or> name = [] then Inr UseMemory
      else if name = ''local'' then Inr UseLocal
      else if name = ''dynamodb'' then Inr UseDynamoDB
      else Inl ErrInvalidBackend)"

section \<open>What every backend promises\<close>

text \<open>The requests of a client of the interface, and the answers.\<close>

datatype request =
    RCreate instant Job
  | RGet string
  | RUpdate Job
  | RDelete string
  | RList "string list" "Filter option"

datatype response =
    Done "(storage_error, unit) result"
  | Found "(storage_error, Job) result"
  | Listed "Job list"

text \<open>The specification: a map from ids to jobs.\<close>

definition stamped :: "instant \<Rightarrow> Job \<Rightarrow> Job" where
  "stamped now job = (if job_StartTime job = 0 then job\<lparr>job_StartTime := now\<rparr> else job)"

definition select_jobs :: "string list \<Rightarrow> (string \<rightharpoonup> Job) \<Rightarrow> Filter option \<Rightarrow> Job list" where
  "select_jobs ks js filt =
     (case filt of
        None \<Rightarrow> range_vals ks js
      | Some f \<Rightarrow>
          (let result = filter (\<lambda>job. matchesFilter job filt) (range_vals ks js);
               sorted = (if f_SortBy f = [] then result else sortJobs result (f_SortBy f) (f_SortDesc f))
           in if f_Limit f > 0 then take (nat (f_Limit f)) sorted else sorted))"

fun map_serve :: "(string \<rightharpoonup> Job) \<Rightarrow> request \<Rightarrow> (string \<rightharpoonup> Job) \<times> response" where
  "map_serve js (RCreate now job) =
     (if js (job_Uuid job) = None then (js(job_Uuid job \<mapsto> stamped now job), Done (Inr ()))
      else (js, Done (Inl ErrJobAlreadyExists)))"
| "map_serve js (RGet i) =
     (js, Found (case js i of None \<Rightarrow> Inl ErrJobNotFound | Some job \<Rightarrow> Inr job))"
| "map_serve js (RUpdate job) =
     (if js (job_Uuid job) = None then (js, Done (Inl ErrJobNotFound))
      else (js(job_Uuid job \<mapsto> job), Done (Inr ())))"
| "map_serve js (RDelete i) =
     (if js i = None then (js, Done (Inl ErrJobNotFound)) else (js(i := None), Done (Inr ())))"
| "map_serve js (RList ks filt) = (js, Listed (select_jobs ks js filt))"

fun replies :: "('s \<Rightarrow> request \<Rightarrow> 's \<times> response) \<Rightarrow> 's \<Rightarrow> request list \<Rightarrow> response list" where
  "replies serve s [] = []"
| "replies serve s (r # rs) = (let (s', a) = serve s r in a # replies serve s' rs)"

text \<open>A backend serves requests as the map does.\<close>

locale state_backend =
  fixes serve :: "'s \<Rightarrow> request \<Rightarrow> 's \<times> response" and contents :: "'s \<Rightarrow> (string \<rightharpoonup> Job)"
  assumes serve_contents: "contents (fst (serve s r)) = fst (map_serve (contents s) r)"
    and serve_reply: "snd (serve s r) = snd (map_serve (contents s) r)"
begin

lemma replies_map: "replies serve s rs = replies map_serve (contents s) rs"
proof (induction rs arbitrary: s)
  case (Cons r rs)
  then show ?case by (simp add: split_beta serve_contents serve_reply)
qed simp

end

fun memory_serve :: "memoryBackend \<Rightarrow> request \<Rightarrow> memoryBackend \<times> response" where
  "memory_serve m (RCreate now job) = map_prod id Done (memoryBackend_Create now m job)"
| "memory_serve m (RGet i) = (m, Found (memoryBackend_Get m i))"
| "memory_serve m (RUpdate job) = map_prod id Done (memoryBackend_Update m job)"
| "memory_serve m (RDelete i) = map_prod id Done (memoryBackend_Delete m i)"
| "memory_serve m (RList ks filt) = (m, Listed (memoryBackend_List ks m filt))"

fun local_serve :: "localBackend \<Rightarrow> request \<Rightarrow> localBackend \<times> response" where
  "local_serve m (RCreate now job) = map_prod id Done (localBackend_Create now m job)"
| "local_serve m (RGet i) = (m, Found (localBackend_Get m i))"
| "local_serve m (RUpdate job) = map_prod id Done (localBackend_Update m job)"
| "local_serve m (RDelete i) = map_prod id Done (localBackend_Delete m i)"
| "local_serve m (RList ks filt) = (m, Listed (localBackend_List ks m filt))"

lemma matchesFilter_None [simp]: "matchesFilter job None"
  by (simp add: matchesFilter_def)

lemma memory_List: "memoryBackend_List ks m filt = select_jobs ks (mb_jobs m) filt"
  by (cases filt) (auto simp: memoryBackend_List_def select_jobs_def Let_def)

lemma local_copies: "localBackend_matchesFilter = matchesFilter" "localBackend_sortJobs = sortJobs"
  by (simp_all add: fun_eq_iff localBackend_matchesFilter_def matchesFilter_def localBackend_sortJobs_def sortJobs_def
    sort_less_def [abs_def])

lemma local_List: "localBackend_List ks lb filt = select_jobs ks (lb_jobs lb) filt"
  by (cases filt) (auto simp: localBackend_List_def select_jobs_def Let_def local_copies)

lemmas memory_defs = memoryBackend_Create_def memoryBackend_Get_def memoryBackend_Update_def memoryBackend_Delete_def
  memory_List

lemmas local_defs = localBackend_Create_def localBackend_Get_def localBackend_Update_def localBackend_Delete_def
  local_List markDirty_def

interpretation mem: state_backend memory_serve mb_jobs
proof unfold_locales
  show "mb_jobs (fst (memory_serve s r)) = fst (map_serve (mb_jobs s) r)" for s r
    by (cases r) (auto simp: memory_defs stamped_def)
  show "snd (memory_serve s r) = snd (map_serve (mb_jobs s) r)" for s r
    by (cases r) (auto simp: memory_defs)
qed

interpretation loc: state_backend local_serve lb_jobs
proof unfold_locales
  show "lb_jobs (fst (local_serve s r)) = fst (map_serve (lb_jobs s) r)" for s r
    by (cases r) (auto simp: local_defs stamped_def)
  show "snd (local_serve s r) = snd (map_serve (lb_jobs s) r)" for s r
    by (cases r) (auto simp: local_defs)
qed


section \<open>What List returns\<close>

lemma string_less_swo: "strict_weak (\<lambda>a b. string_less (f a) (f b)) A"
proof -
  have "string_less s t \<longleftrightarrow> map byte_val s < map byte_val t" for s t
    by (simp add: string_less_def list_less_def lexordp_conv_lexord)
  then show ?thesis by (auto simp: strict_weak_def)
qed

lemma time_less_swo: "strict_weak (\<lambda>a b. job_StartTime a < job_StartTime b) A"
  by (auto simp: strict_weak_def)

lemma sort_less_swo: "strict_weak (sort_less sortBy False) A"
proof (cases "sortBy = ''status''")
  case True
  then have "sort_less sortBy False = (\<lambda>a b. string_less (job_Status a) (job_Status b))"
    by (simp add: sort_less_def fun_eq_iff)
  then show ?thesis by (simp add: string_less_swo)
next
  case False
  then have "sort_less sortBy False = (\<lambda>a b. job_StartTime a < job_StartTime b)"
    by (auto simp: sort_less_def fun_eq_iff)
  then show ?thesis by (simp add: time_less_swo)
qed

text \<open>The matching jobs, and those that the limit leaves out.\<close>

lemma select_parts:
  fixes f :: Filter
  assumes "range_order ks js"
  defines "matching \<equiv> filter (\<lambda>j. matchesFilter j (Some f)) (range_vals ks js)"
  defines "ordered \<equiv> (if f_SortBy f = [] then matching else sortJobs matching (f_SortBy f) (f_SortDesc f))"
  defines "n \<equiv> (if f_Limit f > 0 then nat (f_Limit f) else length matching)"
  shows "select_jobs ks js (Some f) = take n ordered" "mset ordered = mset matching"
    and "f_SortBy f \<noteq> [] \<Longrightarrow> \<not> f_SortDesc f \<Longrightarrow> sorted_wrt (\<lambda>x y. \<not> sort_less (f_SortBy f) False y x) ordered"
proof -
  show m: "mset ordered = mset matching" by (simp add: ordered_def sortJobs_def go_sort.sort_mset)
  have "length ordered = length matching" using m by (metis size_mset)
  then show "select_jobs ks js (Some f) = take n ordered"
    by (simp add: select_jobs_def Let_def matching_def ordered_def n_def)
  show "sorted_wrt (\<lambda>x y. \<not> sort_less (f_SortBy f) False y x) ordered" if "f_SortBy f \<noteq> []" "\<not> f_SortDesc f"
    using that by (simp add: ordered_def sortJobs_def go_sort.sort_ordered sort_less_swo)
qed

lemma sorted_wrt_take_drop: "sorted_wrt P xs \<Longrightarrow> x \<in> set (take n xs) \<Longrightarrow> y \<in> set (drop n xs) \<Longrightarrow> P x y"
  by (metis append_take_drop_id sorted_wrt_append)

text \<open>
  \<open>List\<close> with a filter returns jobs of the backend that match it, none twice, as many as match
  or as the limit allows; sorted in ascending order when that is asked for, and then every matching job
  that the limit leaves out comes no earlier than those returned. For the descending order the
  comparison passed to \<open>sort.Slice\<close> holds between a job and itself, which no order allows.
\<close>

theorem List_selects:
  fixes f :: Filter
  assumes "range_order ks (mb_jobs m)"
  defines "matching \<equiv> mset (filter (\<lambda>j. matchesFilter j (Some f)) (range_vals ks (mb_jobs m)))"
    and "out \<equiv> memoryBackend_List ks m (Some f)"
  shows "mset out \<subseteq># matching \<and>
    set_mset matching = {j \<in> ran (mb_jobs m). matchesFilter j (Some f)} \<and>
    length out = (if f_Limit f > 0 then min (nat (f_Limit f)) (size matching) else size matching) \<and>
    (f_SortBy f \<noteq> [] \<and> \<not> f_SortDesc f \<longrightarrow>
       sorted_wrt (\<lambda>x y. \<not> sort_less (f_SortBy f) False y x) out \<and>
       (\<forall>x \<in> set out. \<forall>y \<in># matching - mset out. \<not> sort_less (f_SortBy f) False y x)) \<and>
    sort_less (f_SortBy f) True j j"
proof -
  define xs where "xs = filter (\<lambda>j. matchesFilter j (Some f)) (range_vals ks (mb_jobs m))"
  define ordered where "ordered = (if f_SortBy f = [] then xs else sortJobs xs (f_SortBy f) (f_SortDesc f))"
  define n where "n = (if f_Limit f > 0 then nat (f_Limit f) else length xs)"
  note parts = select_parts [OF assms(1), of f, folded xs_def, folded ordered_def n_def]
  have o: "out = take n ordered" "mset ordered = matching" "n = (if f_Limit f > 0 then nat (f_Limit f) else size matching)"
    using parts(1,2) by (simp_all add: out_def matching_def memory_List flip: xs_def) (simp_all add: n_def)
  note s = parts(3)
  have rest: "matching - mset out = mset (drop n ordered)"
    using o by (metis add_diff_cancel_left' append_take_drop_id mset_append)
  have "length ordered = size matching" using o(2) by (metis size_mset)
  with o have len: "length out = (if f_Limit f > 0 then min (nat (f_Limit f)) (size matching) else size matching)"
    by (simp add: min.commute)
  have sub: "mset out \<subseteq># matching"
    using o by (metis append_take_drop_id mset_append mset_subset_eq_add_left)
  have set: "set_mset matching = {j \<in> ran (mb_jobs m). matchesFilter j (Some f)}"
    using set_range_vals [OF assms(1)] by (auto simp: matching_def)
  have irr: "sort_less (f_SortBy f) True j j"
    using string_less_swo [of job_Status UNIV] by (simp add: sort_less_def strict_weak_def) blast
  have sorted: "f_SortBy f \<noteq> [] \<and> \<not> f_SortDesc f \<longrightarrow>
       sorted_wrt (\<lambda>x y. \<not> sort_less (f_SortBy f) False y x) out \<and>
       (\<forall>x \<in> set out. \<forall>y \<in># matching - mset out. \<not> sort_less (f_SortBy f) False y x)"
    unfolding rest set_mset_mset using sorted_wrt_take_drop [OF s] by (auto simp: o(1) sorted_wrt_take s)
  show ?thesis using sub set len sorted irr by blast
qed

text \<open>Two of three jobs, the earliest first.\<close>

definition listed_job :: "string \<Rightarrow> instant \<Rightarrow> Job" where
  "listed_job i t = zero_job\<lparr>job_Uuid := i, job_StartTime := t, job_Status := StatusRunning\<rparr>"

definition demo_backend :: memoryBackend where
  "demo_backend = \<lparr>mb_jobs = [''a'' \<mapsto> listed_job ''a'' 30, ''b'' \<mapsto> listed_job ''b'' 10, ''c'' \<mapsto> listed_job ''c'' 20]\<rparr>"

definition demo_filter :: Filter where
  "demo_filter = \<lparr>f_Status = ''RUNNING'', f_NodeID = [], f_Limit = 2, f_SortBy = ''startTime'', f_SortDesc = False, f_Statuses = []\<rparr>"

theorem List_selects_witness:
  "map job_Uuid (memoryBackend_List [''a'', ''b'', ''c''] demo_backend (Some demo_filter)) = [''b'', ''c''] \<and>
   length (memoryBackend_List [''a'', ''b'', ''c''] demo_backend (Some demo_filter)) = 2"
proof -
  have ord: "range_order [''a'', ''b'', ''c''] (mb_jobs demo_backend)"
    by (auto simp: range_order_def demo_backend_def)
  have val: "map job_Uuid (memoryBackend_List [''a'', ''b'', ''c''] demo_backend (Some demo_filter)) = [''b'', ''c'']"
    by (simp add: memoryBackend_List_def demo_backend_def demo_filter_def listed_job_def zero_job_def matchesFilter_def
      sortJobs_def sort_slice_def sort_less_def status_defs)
  have "size (mset (filter (\<lambda>j. matchesFilter j (Some demo_filter)) (range_vals [''a'', ''b'', ''c''] (mb_jobs demo_backend)))) = 3"
    by (simp add: demo_backend_def demo_filter_def listed_job_def zero_job_def matchesFilter_def status_defs)
  with List_selects [OF ord, of demo_filter] val show ?thesis by (simp add: demo_filter_def)
qed

section \<open>The file and a restart\<close>

text \<open>
  \<open>encoding/json\<close> writes the exported fields only. The caches of a job are not exported, nor are the
  fields of the value objects its limits are made of, so what comes back is this.
\<close>

definition exported :: "Job \<Rightarrow> Job" where
  "exported j = j\<lparr>job_Limits := no_limits, job_c_jobUUID := None, job_c_cgroupPath := None, job_c_processID := None,
     job_c_networkName := None, job_c_volumeNames := None, job_c_runtimeSpec := None, job_c_environment := None,
     job_c_secretEnv := None\<rparr>"

text \<open>Valid UTF-8, in the sense of \<open>unicode/utf8\<close>: no surrogate, nothing overlong. JSON replaces other bytes.\<close>

fun utf8_bytes :: "nat list \<Rightarrow> bool" where
  "utf8_bytes [] = True"
| "utf8_bytes (b # bs) =
     (if b < 128 then utf8_bytes bs
      else if 194 \<le> b \<and> b \<le> 223 then
        (case bs of c # bs' \<Rightarrow> 128 \<le> c \<and> c \<le> 191 \<and> utf8_bytes bs' | _ \<Rightarrow> False)
      else if 224 \<le> b \<and> b \<le> 239 then
        (case bs of c # d # bs' \<Rightarrow>
             (if b = 224 then 160 else 128) \<le> c \<and> c \<le> (if b = 237 then 159 else 191) \<and> 128 \<le> d \<and> d \<le> 191 \<and> utf8_bytes bs'
         | _ \<Rightarrow> False)
      else if 240 \<le> b \<and> b \<le> 244 then
        (case bs of c # d # e # bs' \<Rightarrow>
             (if b = 240 then 144 else 128) \<le> c \<and> c \<le> (if b = 244 then 143 else 191) \<and>
             128 \<le> d \<and> d \<le> 191 \<and> 128 \<le> e \<and> e \<le> 191 \<and> utf8_bytes bs'
         | _ \<Rightarrow> False)
      else False)"

definition utf8 :: "string \<Rightarrow> bool" where
  "utf8 s = utf8_bytes (map byte_val s)"

definition utf8_job :: "Job \<Rightarrow> bool" where
  "utf8_job j \<longleftrightarrow>
     (\<forall>s \<in> {job_Uuid j, job_Command j, job_Type j, job_CgroupPath j, job_Status j, job_Network j, job_Runtime j,
             job_WorkingDirectory j, job_NodeId j} \<union> set (job_Args j) \<union> set (job_Volumes j) \<union> set (job_GPUMIGUUIDs j) \<union>
             fu_Path ` set (job_Uploads j) \<union> dom (job_Environment j) \<union> ran (job_Environment j) \<union>
             dom (job_SecretEnvironment j) \<union> ran (job_SecretEnvironment j). utf8 s)"

text \<open>
  What the backend relies on of \<open>encoding/json\<close>: a document is one non-empty line, a job with valid
  strings comes back with its exported fields, and decoding into a fresh job sets no other field.
\<close>

definition json_codec :: "encoder \<Rightarrow> decoder \<Rightarrow> bool" where
  "json_codec enc dec \<longleftrightarrow>
     (\<forall>j s. enc j = Some s \<longrightarrow> s \<noteq> [] \<and> CHR 0x0A \<notin> set s) \<and>
     (\<forall>j s. utf8_job j \<longrightarrow> enc j = Some s \<longrightarrow> dec s = Some (exported j)) \<and>
     (\<forall>j s. dec s = Some j \<longrightarrow> exported j = j)"

definition storable :: "encoder \<Rightarrow> Job \<Rightarrow> bool" where
  "storable enc j \<longleftrightarrow> utf8_job j \<and> (\<forall>s. enc j = Some s \<longrightarrow> length s < max_token)"

definition keyed :: "(string \<rightharpoonup> Job) \<Rightarrow> bool" where
  "keyed js \<longleftrightarrow> (\<forall>k j. js k = Some j \<longrightarrow> job_Uuid j = k)"

definition reload :: "decoder \<Rightarrow> localBackend \<Rightarrow> (string \<rightharpoonup> Job)" where
  "reload dec lb = lb_jobs (NewLocalBackend dec (lb_disk lb))"

lemma exported_Uuid [simp]: "job_Uuid (exported j) = job_Uuid j"
  by (simp add: exported_def)

lemma exported_twice [simp]: "exported (exported j) = exported j"
  by (simp add: exported_def)

lemma reload_simps [simp]:
  "reload dec (lb\<lparr>lb_jobs := js\<rparr>) = reload dec lb"
  "reload dec (lb\<lparr>lb_dirty := b\<rparr>) = reload dec lb"
  "reload dec (lb\<lparr>lb_closed := b\<rparr>) = reload dec lb"
  by (simp_all add: reload_def)

lemma reload_saved: "lb_disk lb = Some ls \<Longrightarrow> reload dec lb = fst (load_lines dec ls Map.empty)"
  by (simp add: reload_def NewLocalBackend_def loadFromDisk_def split_beta)

lemma encode_jobs_ok: "encode_jobs enc js = Inr ls \<Longrightarrow> list_all2 (\<lambda>j s. enc j = Some s) js ls"
  by (induction js arbitrary: ls) (auto split: option.splits sum.splits)

lemma encode_jobs_total: "\<forall>j \<in> set js. enc j \<noteq> None \<Longrightarrow> \<exists>ls. encode_jobs enc js = Inr ls"
  by (induction js) auto

lemma load_lines_encoded:
  assumes "json_codec enc dec"
  shows "list_all2 (\<lambda>j s. enc j = Some s) js ls \<Longrightarrow> \<forall>j \<in> set js. storable enc j \<Longrightarrow>
    load_lines dec ls m = (fold (\<lambda>j m. m(job_Uuid j \<mapsto> exported j)) js m, Inr ())"
proof (induction js ls arbitrary: m rule: list_all2_induct)
  case (Cons j js s ls)
  then have "s \<noteq> []" "dec s = Some (exported j)" "length s < max_token"
    using assms by (auto simp: json_codec_def storable_def)
  with Cons show ?case by (simp add: fun_upd_def)
qed simp

lemma fold_keyed:
  "\<forall>k \<in> set ks. \<exists>j. js k = Some j \<and> job_Uuid j = k \<Longrightarrow>
   fold (\<lambda>j m. m(job_Uuid j \<mapsto> g j)) (map (the \<circ> js) ks) m = m ++ (map_option g \<circ> js) |` set ks"
proof (induction ks arbitrary: m)
  case (Cons k ks)
  then obtain j where "js k = Some j" "job_Uuid j = k" by auto
  with Cons show ?case by (auto simp: fun_eq_iff map_add_def restrict_map_def split: option.splits)
qed simp

text \<open>A save that succeeds puts the jobs' exported fields where a restart finds them; one that fails changes nothing.\<close>

lemma saveToDisk_reload:
  assumes "json_codec enc dec" "range_order ks (lb_jobs lb)" "keyed (lb_jobs lb)" "\<forall>j \<in> ran (lb_jobs lb). storable enc j"
    and "saveToDisk enc ks io lb = (lb', Inr ())"
  shows "reload dec lb' = map_option exported \<circ> lb_jobs lb"
proof -
  let ?js = "map (the \<circ> lb_jobs lb) ks"
  have vals: "range_vals ks (lb_jobs lb) = ?js" by (rule range_vals_map [OF assms(2)])
  from assms(5) obtain ls where ls: "encode_jobs enc ?js = Inr ls" "lb_disk lb' = Some ls"
    by (auto simp: saveToDisk_def vals split: sum.splits option.splits)
  have "\<forall>j \<in> set ?js. storable enc j"
    using assms(4) set_range_vals [OF assms(2)] by (simp add: vals)
  then have "reload dec lb' = fold (\<lambda>j m. m(job_Uuid j \<mapsto> exported j)) ?js Map.empty"
    using reload_saved [OF ls(2)] load_lines_encoded [OF assms(1) encode_jobs_ok [OF ls(1)]] by simp
  also have "\<dots> = (map_option exported \<circ> lb_jobs lb) |` set ks"
    using assms(2,3) by (subst fold_keyed) (auto simp: range_order_def keyed_def)
  also have "\<dots> = map_option exported \<circ> lb_jobs lb"
    using assms(2) by (auto simp: range_order_def restrict_map_def fun_eq_iff dom_def)
  finally show ?thesis .
qed

lemma saveToDisk_frame:
  "saveToDisk enc ks io lb = (lb', r) \<Longrightarrow>
   lb_jobs lb' = lb_jobs lb \<and> lb_dirty lb' = lb_dirty lb \<and> lb_closed lb' = lb_closed lb \<and> (r \<noteq> Inr () \<longrightarrow> lb' = lb)"
  by (auto simp: saveToDisk_def split: sum.splits option.splits)

text \<open>
  What can happen to an open backend that was started on the file \<open>disk\<close>: requests, ticks of the
  background goroutine and calls of \<open>Sync\<close>, any of their saves failing. Jobs that come in satisfy \<open>P\<close>.
  The last argument is what the last successful save wrote, at first what was loaded.
\<close>

fun incoming :: "request \<Rightarrow> Job list" where
  "incoming (RCreate now job) = [stamped now job]"
| "incoming (RUpdate job) = [job]"
| "incoming _ = []"

definition after_save :: "encoder \<Rightarrow> string list \<Rightarrow> string option \<Rightarrow> localBackend \<Rightarrow> (string \<rightharpoonup> Job) \<Rightarrow> (string \<rightharpoonup> Job)" where
  "after_save enc ks io lb saved = (if snd (saveToDisk enc ks io lb) = Inr () then lb_jobs lb else saved)"

inductive local_run :: "encoder \<Rightarrow> decoder \<Rightarrow> (Job \<Rightarrow> bool) \<Rightarrow> string list option \<Rightarrow> localBackend \<Rightarrow> (string \<rightharpoonup> Job) \<Rightarrow> bool"
  for enc dec P disk where
  run_start: "(\<forall>j \<in> ran (lb_jobs (NewLocalBackend dec disk)). P j) \<Longrightarrow>
    local_run enc dec P disk (NewLocalBackend dec disk) (lb_jobs (NewLocalBackend dec disk))"
| run_request: "local_run enc dec P disk lb saved \<Longrightarrow> \<forall>j \<in> set (incoming r). P j \<Longrightarrow>
    local_run enc dec P disk (fst (local_serve lb r)) saved"
| run_tick: "local_run enc dec P disk lb saved \<Longrightarrow> range_order ks (lb_jobs lb) \<Longrightarrow>
    local_run enc dec P disk (backgroundSync_tick enc ks io lb) (if lb_dirty lb then after_save enc ks io lb saved else saved)"
| run_sync: "local_run enc dec P disk lb saved \<Longrightarrow> \<forall>j \<in> set js. P j \<Longrightarrow>
    localBackend_Sync enc ks io lb js = (lb', r) \<Longrightarrow> range_order ks (lb_jobs lb') \<Longrightarrow>
    local_run enc dec P disk lb' (if r = Inr () then lb_jobs lb' else saved)"

text \<open>The invariant of such runs.\<close>

definition file_inv :: "decoder \<Rightarrow> (Job \<Rightarrow> bool) \<Rightarrow> localBackend \<Rightarrow> (string \<rightharpoonup> Job) \<Rightarrow> bool" where
  "file_inv dec P lb saved \<longleftrightarrow>
     keyed (lb_jobs lb) \<and> (\<forall>j \<in> ran (lb_jobs lb). P j) \<and> \<not> lb_closed lb \<and>
     reload dec lb = map_option exported \<circ> saved \<and> (\<not> lb_dirty lb \<longrightarrow> saved = lb_jobs lb)"

lemma ran_updD: "j \<in> ran (m(k \<mapsto> v)) \<Longrightarrow> j = v \<or> j \<in> ran m"
  by (auto simp: ran_def split: if_splits)

lemma ran_delD: "j \<in> ran (m(k := None)) \<Longrightarrow> j \<in> ran m"
  by (auto simp: ran_def split: if_splits)

lemma keyed_empty: "keyed Map.empty"
  by (simp add: keyed_def)

lemma keyed_upd: "keyed m \<Longrightarrow> keyed (m(job_Uuid j \<mapsto> j))"
  by (auto simp: keyed_def)

lemma keyed_del: "keyed m \<Longrightarrow> keyed (m(k := None))"
  by (auto simp: keyed_def)

lemma load_lines_keyed: "keyed m \<Longrightarrow> keyed (fst (load_lines dec ls m))"
proof (induction dec ls m rule: load_lines.induct)
  case (2 dec line lines jobs)
  show ?case using 2(1,2) 2(3) [OF _ _ _ keyed_upd [OF 2(4)]] 2(4) by (simp add: fun_upd_def split: option.split)
qed simp

lemma load_lines_all:
  "\<forall>j s. dec s = Some j \<longrightarrow> P j \<Longrightarrow> \<forall>j \<in> ran m. P j \<Longrightarrow> \<forall>j \<in> ran (fst (load_lines dec ls m)). P j"
proof (induction dec ls m rule: load_lines.induct)
  case (2 dec line lines jobs)
  have "\<forall>j \<in> ran (jobs(job_Uuid k \<mapsto> k)). P j" if "dec line = Some k" for k
    using 2(4,5) that by (blast dest: ran_updD)
  then show ?case using 2(1,2) 2(3) [OF _ _ _ 2(4)] 2(4,5) by (simp add: fun_upd_def split: option.split)
qed simp

lemma NewLocalBackend_fields:
  "lb_dirty (NewLocalBackend dec disk) = False" "lb_closed (NewLocalBackend dec disk) = False"
  "lb_disk (NewLocalBackend dec disk) = disk"
  "lb_jobs (NewLocalBackend dec disk) = (case disk of None \<Rightarrow> Map.empty | Some ls \<Rightarrow> fst (load_lines dec ls Map.empty))"
  by (simp_all add: NewLocalBackend_def loadFromDisk_def split_beta split: option.split)

lemma json_codec_exported: "json_codec enc dec \<Longrightarrow> \<forall>j s. dec s = Some j \<longrightarrow> exported j = j"
  unfolding json_codec_def by blast

lemma file_inv_start:
  assumes "json_codec enc dec" "\<forall>j \<in> ran (lb_jobs (NewLocalBackend dec disk)). P j"
  shows "file_inv dec P (NewLocalBackend dec disk) (lb_jobs (NewLocalBackend dec disk))"
proof -
  let ?lb = "NewLocalBackend dec disk"
  have k: "keyed (lb_jobs ?lb)"
    using load_lines_keyed [OF keyed_empty] by (simp add: NewLocalBackend_fields keyed_empty split: option.split)
  have e: "\<forall>j \<in> ran (lb_jobs ?lb). exported j = j"
    using load_lines_all [of dec "\<lambda>j. exported j = j" Map.empty] json_codec_exported [OF assms(1)]
    by (simp add: NewLocalBackend_fields split: option.split)
  have "map_option exported \<circ> lb_jobs ?lb = lb_jobs ?lb"
  proof
    show "(map_option exported \<circ> lb_jobs ?lb) k = lb_jobs ?lb k" for k
      using e by (cases "lb_jobs ?lb k") (auto simp: ran_def)
  qed
  then show ?thesis
    using k assms(2) by (simp add: file_inv_def reload_def NewLocalBackend_fields)
qed

lemma stamped_Uuid [simp]: "job_Uuid (stamped now job) = job_Uuid job"
  by (simp add: stamped_def)

lemma file_inv_dirty:
  "file_inv dec P lb saved \<Longrightarrow> keyed js \<Longrightarrow> \<forall>j \<in> ran js. P j \<Longrightarrow> file_inv dec P (markDirty (lb\<lparr>lb_jobs := js\<rparr>)) saved"
  by (simp add: file_inv_def markDirty_def)

lemma file_inv_serve:
  assumes "file_inv dec P lb saved" "\<forall>j \<in> set (incoming r). P j"
  shows "file_inv dec P (fst (local_serve lb r)) saved"
proof -
  have k: "keyed (lb_jobs lb)" and P: "\<forall>j \<in> ran (lb_jobs lb). P j" using assms(1) by (simp_all add: file_inv_def)
  show ?thesis
  proof (cases r)
    case (RCreate now job)
    have "keyed ((lb_jobs lb)(job_Uuid job \<mapsto> stamped now job))"
      using keyed_upd [OF k, of "stamped now job"] by simp
    moreover have "\<forall>j \<in> ran ((lb_jobs lb)(job_Uuid job \<mapsto> stamped now job)). P j"
      using P assms(2) RCreate by (auto dest!: ran_updD)
    ultimately show ?thesis
      using assms(1) RCreate
      by (simp add: localBackend_Create_def file_inv_dirty Let_def flip: stamped_def)
  next
    case (RUpdate job)
    have "\<forall>j \<in> ran ((lb_jobs lb)(job_Uuid job \<mapsto> job)). P j"
      using P assms(2) RUpdate by (auto dest!: ran_updD)
    then show ?thesis
      using assms(1) RUpdate keyed_upd [OF k] by (simp add: localBackend_Update_def file_inv_dirty)
  next
    case (RDelete i)
    have "\<forall>j \<in> ran ((lb_jobs lb)(i := None)). P j" using P by (auto dest!: ran_delD)
    then show ?thesis
      using assms(1) RDelete keyed_del [OF k] by (simp add: localBackend_Delete_def file_inv_dirty)
  qed (use assms in simp_all)
qed

lemma file_inv_save:
  assumes "json_codec enc dec" "file_inv dec (storable enc) lb saved" "range_order ks (lb_jobs lb)"
    and "saveToDisk enc ks io lb = (lb', r)"
  shows "file_inv dec (storable enc) lb' (if r = Inr () then lb_jobs lb else saved)"
proof -
  note f = saveToDisk_frame [OF assms(4)]
  show ?thesis
  proof (cases "r = Inr ()")
    case True
    have "reload dec lb' = map_option exported \<circ> lb_jobs lb"
      using assms by (intro saveToDisk_reload [of enc dec ks lb io]) (auto simp: file_inv_def True)
    with f assms(2) True show ?thesis by (simp add: file_inv_def)
  next
    case False
    with f assms(2) show ?thesis by simp
  qed
qed

lemma file_inv_clean: "file_inv dec P lb saved \<Longrightarrow> saved = lb_jobs lb \<Longrightarrow> file_inv dec P (lb\<lparr>lb_dirty := False\<rparr>) saved"
  by (simp add: file_inv_def)

lemma file_inv_tick:
  assumes "json_codec enc dec" "file_inv dec (storable enc) lb saved" "range_order ks (lb_jobs lb)"
  shows "file_inv dec (storable enc) (backgroundSync_tick enc ks io lb)
    (if lb_dirty lb then after_save enc ks io lb saved else saved)"
proof (cases "lb_dirty lb")
  case True
  obtain lb' r where s: "saveToDisk enc ks io lb = (lb', r)" by force
  note i = file_inv_save [OF assms s]
  show ?thesis
  proof (cases r)
    case (Inl e)
    with i True s show ?thesis by (simp add: backgroundSync_tick_def after_save_def)
  next
    case (Inr u)
    with i True s saveToDisk_frame [OF s] show ?thesis
      by (simp add: backgroundSync_tick_def after_save_def file_inv_clean)
  qed
qed (use assms in \<open>simp add: backgroundSync_tick_def\<close>)

lemma fold_upd_jobs:
  "keyed m \<Longrightarrow> \<forall>j \<in> ran m \<union> set js. P j \<Longrightarrow>
   keyed (fold (\<lambda>job m. m(job_Uuid job \<mapsto> job)) js m) \<and> (\<forall>j \<in> ran (fold (\<lambda>job m. m(job_Uuid job \<mapsto> job)) js m). P j)"
proof (induction js arbitrary: m)
  case (Cons job js)
  have "\<forall>j \<in> ran (m(job_Uuid job \<mapsto> job)) \<union> set js. P j" using Cons.prems(2) by (auto dest!: ran_updD)
  from Cons.IH [OF keyed_upd [OF Cons.prems(1)] this] show ?case unfolding fold_simps .
qed simp

lemma file_inv_sync:
  assumes "json_codec enc dec" "file_inv dec (storable enc) lb saved" "\<forall>j \<in> set js. storable enc j"
    and "localBackend_Sync enc ks io lb js = (lb', r)" "range_order ks (lb_jobs lb')"
  shows "file_inv dec (storable enc) lb' (if r = Inr () then lb_jobs lb' else saved)"
proof -
  let ?lb = "markDirty (lb\<lparr>lb_jobs := fold (\<lambda>job js. js(job_Uuid job \<mapsto> job)) js Map.empty\<rparr>)"
  have s: "saveToDisk enc ks io ?lb = (lb', r)" using assms(4) by (simp add: localBackend_Sync_def)
  from fold_upd_jobs [OF keyed_empty, of js "storable enc"] assms(2,3)
  have "file_inv dec (storable enc) ?lb saved" by (intro file_inv_dirty) simp_all
  from file_inv_save [OF assms(1) this _ s] saveToDisk_frame [OF s] assms(5) show ?thesis by metis
qed

lemma local_run_inv:
  assumes "json_codec enc dec" "local_run enc dec (storable enc) disk lb saved"
  shows "file_inv dec (storable enc) lb saved"
  using assms(2)
proof induction
  case run_start
  then show ?case by (rule file_inv_start [OF assms(1)])
next
  case (run_request lb saved r)
  then show ?case by (intro file_inv_serve)
next
  case (run_tick lb saved ks io)
  then show ?case by (intro file_inv_tick [OF assms(1)])
next
  case (run_sync lb saved js ks io lb' r)
  then show ?case by (intro file_inv_sync [OF assms(1)])
qed

lemma Close_open:
  assumes "\<not> lb_closed lb"
  shows "localBackend_Close enc ks io lb =
    (if lb_dirty lb then saveToDisk enc ks io (lb\<lparr>lb_closed := True\<rparr>) else (lb\<lparr>lb_closed := True\<rparr>, Inr ()))"
  using assms by (simp add: localBackend_Close_def)

lemma Close_reload:
  assumes "json_codec enc dec" "file_inv dec (storable enc) lb saved" "range_order ks (lb_jobs lb)"
    and "localBackend_Close enc ks io lb = (lb', Inr ())"
  shows "reload dec lb' = map_option exported \<circ> lb_jobs lb"
proof (cases "lb_dirty lb")
  case True
  with assms(2,4) have s: "saveToDisk enc ks io (lb\<lparr>lb_closed := True\<rparr>) = (lb', Inr ())"
    by (simp add: Close_open file_inv_def)
  show ?thesis
    using saveToDisk_reload [OF assms(1) _ _ _ s] assms(2,3) by (simp add: file_inv_def)
next
  case False
  with assms(2,4) show ?thesis by (auto simp: Close_open file_inv_def)
qed

lemma Close_succeeds:
  assumes "\<not> lb_closed lb" "range_order ks (lb_jobs lb)" "\<forall>j \<in> ran (lb_jobs lb). enc j \<noteq> None"
  shows "\<exists>lb'. localBackend_Close enc ks None lb = (lb', Inr ())"
proof -
  obtain ls where "encode_jobs enc (range_vals ks (lb_jobs lb)) = Inr ls"
    using encode_jobs_total [of "range_vals ks (lb_jobs lb)" enc] assms(3) set_range_vals [OF assms(2)] by auto
  then show ?thesis using assms(1) by (simp add: Close_open saveToDisk_def)
qed


text \<open>A codec for jobs of which only the id is set, and one such job with a memory limit beside it.\<close>

definition id_enc :: encoder where
  "id_enc j = (if exported j = zero_job\<lparr>job_Uuid := job_Uuid j, job_StartTime := 7\<rparr> \<and> CHR 0x0A \<notin> set (job_Uuid j)
     then Some (''{'' @ job_Uuid j @ ''}'') else None)"

definition id_dec :: decoder where
  "id_dec s = (if s = [] then None else Some (zero_job\<lparr>job_Uuid := butlast (tl s), job_StartTime := 7\<rparr>))"

definition limited_job :: Job where
  "limited_job = zero_job\<lparr>job_Uuid := ''a'', job_Limits := no_limits\<lparr>rl_Memory := \<lparr>mem_bytes = 1024\<rparr>\<rparr>\<rparr>"

lemma id_codec: "json_codec id_enc id_dec"
  by (auto simp: json_codec_def id_enc_def id_dec_def exported_def zero_job_def butlast_append)

lemma storable_limited: "storable id_enc (stamped 7 limited_job)"
  by (auto simp: storable_def utf8_job_def utf8_def limited_job_def stamped_def zero_job_def byte_val_def id_enc_def
    exported_def max_token_def)


text \<open>
  One large job hides the others: when the first line written is a job whose document, with its newline,
  is longer than the scanner's buffer of 1 MB, the save succeeds and a restart finds no job at all.
\<close>

theorem oversized_job_hides_others:
  assumes "saveToDisk enc (k # ks) io lb = (lb', Inr ())"
    and "lb_jobs lb k = Some job" "enc job = Some line" "max_token \<le> length line"
  shows "lb_jobs (NewLocalBackend dec (lb_disk lb')) = Map.empty"
  using assms
  by (auto simp: saveToDisk_def NewLocalBackend_fields split: sum.splits option.splits)

theorem oversized_job_hides_others_witness:
  "\<exists>lb'. saveToDisk (\<lambda>j. Some (if job_Uuid j = ''b'' then replicate max_token (CHR ''x'') else ''y'')) [''b'', ''a''] None
      \<lparr>lb_jobs = [''a'' \<mapsto> listed_job ''a'' 1, ''b'' \<mapsto> listed_job ''b'' 2], lb_dirty = True, lb_closed = False, lb_disk = None\<rparr> =
      (lb', Inr ()) \<and>
    lb_jobs (NewLocalBackend id_dec (lb_disk lb')) = Map.empty"
proof -
  let ?enc = "\<lambda>j. Some (if job_Uuid j = ''b'' then replicate max_token (CHR ''x'') else ''y'')"
  let ?lb = "\<lparr>lb_jobs = [''a'' \<mapsto> listed_job ''a'' 1, ''b'' \<mapsto> listed_job ''b'' 2], lb_dirty = True, lb_closed = False, lb_disk = None\<rparr>"
  have "\<exists>lb'. saveToDisk ?enc [''b'', ''a''] None ?lb = (lb', Inr ())"
    by (simp add: saveToDisk_def)
  then obtain lb' where s: "saveToDisk ?enc [''b'', ''a''] None ?lb = (lb', Inr ())" ..
  have "lb_jobs (NewLocalBackend id_dec (lb_disk lb')) = Map.empty"
    by (rule oversized_job_hides_others [OF s, of "listed_job ''b'' 2" "replicate max_token (CHR ''x'')"])
      (simp_all add: listed_job_def zero_job_def length_replicate)
  with s show ?thesis by blast
qed

end
