(* ===== verification/Errors.thy ===== *)
theory Errors
  imports Prelude
begin

text \<open>
  Errors: the sentinels, wrappers and classifiers of \<open>pkg/errors/errors.go\<close>, and the choice of a gRPC status code,
  \<open>internal/joblet/server/error_mapping.go\<close>. An error is a tree: the leaves are sentinels and messages, the
  nodes are the wrappers, \<open>fmt.Errorf\<close> with \<open>%w\<close> and the joined errors. \<open>errors.Is\<close> and \<open>errors.As\<close> search the
  tree in the order Go does, the node before what it wraps. \<open>nil\<close> is \<open>None\<close>. The status package of gRPC is an argument.
\<close>

section \<open>Errors as trees\<close>

datatype sentinel =
    ErrJobNotFound | ErrJobAlreadyExists | ErrJobNotRunning | ErrJobAlreadyRunning | ErrInvalidJobSpec | ErrJobTimeout
  | ErrResourceExhausted | ErrInvalidResourceSpec | ErrResourceNotAvailable
  | ErrInvalidRuntime | ErrRuntimeNotFound | ErrRuntimeFailed
  | ErrNetworkNotFound | ErrNetworkConflict | ErrNetworkFailed
  | ErrVolumeNotFound | ErrVolumeInUse | ErrVolumeFailed
  | ErrPermissionDenied | ErrTimeout | ErrInvalidConfig | ErrUnsupportedPlatform | ErrFilesystemFailed
  | ContextCanceled | ContextDeadlineExceeded

text \<open>\<open>Plain\<close> is an error with a message only; \<open>Wrapf\<close> has the message of a format and what its \<open>%w\<close> verbs wrap.\<close>

datatype go_error =
    Sentinel sentinel
  | Plain string
  | Wrapf string "go_error list"
  | JobError string string go_error
  | RuntimeError string string go_error
  | NetworkError string string go_error
  | VolumeError string string go_error
  | FilesystemError string string go_error
  | ConfigError string string go_error
  | MultiError "go_error list"

fun sentinel_message :: "sentinel \<Rightarrow> string" where
  "sentinel_message ErrJobNotFound = ''job not found''"
| "sentinel_message ErrJobAlreadyExists = ''job already exists''"
| "sentinel_message ErrJobNotRunning = ''job is not running''"
| "sentinel_message ErrJobAlreadyRunning = ''job is already running''"
| "sentinel_message ErrInvalidJobSpec = ''invalid job specification''"
| "sentinel_message ErrJobTimeout = ''job execution timeout''"
| "sentinel_message ErrResourceExhausted = ''resource exhausted''"
| "sentinel_message ErrInvalidResourceSpec = ''invalid resource specification''"
| "sentinel_message ErrResourceNotAvailable = ''resource not available''"
| "sentinel_message ErrInvalidRuntime = ''invalid runtime specification''"
| "sentinel_message ErrRuntimeNotFound = ''runtime not found''"
| "sentinel_message ErrRuntimeFailed = ''runtime operation failed''"
| "sentinel_message ErrNetworkNotFound = ''network not found''"
| "sentinel_message ErrNetworkConflict = ''network conflict''"
| "sentinel_message ErrNetworkFailed = ''network operation failed''"
| "sentinel_message ErrVolumeNotFound = ''volume not found''"
| "sentinel_message ErrVolumeInUse = ''volume is in use''"
| "sentinel_message ErrVolumeFailed = ''volume operation failed''"
| "sentinel_message ErrPermissionDenied = ''permission denied''"
| "sentinel_message ErrTimeout = ''operation timed out''"
| "sentinel_message ErrInvalidConfig = ''invalid configuration''"
| "sentinel_message ErrUnsupportedPlatform = ''unsupported platform''"
| "sentinel_message ErrFilesystemFailed = ''filesystem operation failed''"
| "sentinel_message ContextCanceled = ''context canceled''"
| "sentinel_message ContextDeadlineExceeded = ''context deadline exceeded''"

definition op_message :: "string \<Rightarrow> string \<Rightarrow> string \<Rightarrow> string \<Rightarrow> string" where
  "op_message kind what operation err = kind @ '' '' @ what @ '': operation '' @ operation @ '': '' @ err"

text \<open>The methods \<open>Error\<close>. A joined error has at least two members.\<close>

fun Error_string :: "go_error \<Rightarrow> string" where
  "Error_string (Sentinel s) = sentinel_message s"
| "Error_string (Plain m) = m"
| "Error_string (Wrapf m es) = m"
| "Error_string (JobError i oper e) = op_message ''job'' i oper (Error_string e)"
| "Error_string (RuntimeError r oper e) = op_message ''runtime'' r oper (Error_string e)"
| "Error_string (NetworkError n oper e) = op_message ''network'' n oper (Error_string e)"
| "Error_string (VolumeError v oper e) = op_message ''volume'' v oper (Error_string e)"
| "Error_string (FilesystemError p oper e) = op_message ''filesystem'' p oper (Error_string e)"
| "Error_string (ConfigError component field e) =
     (if field \<noteq> [] then ''config '' @ component @ ''.'' @ field @ '': '' @ Error_string e
      else ''config '' @ component @ '': '' @ Error_string e)"
| "Error_string (MultiError es) = Join ''; '' (map Error_string es)"

section \<open>Wrapping\<close>

fun Unwrap :: "go_error \<Rightarrow> go_error list" where
  "Unwrap (Sentinel s) = []"
| "Unwrap (Plain m) = []"
| "Unwrap (Wrapf m es) = es"
| "Unwrap (JobError i oper e) = [e]"
| "Unwrap (RuntimeError r oper e) = [e]"
| "Unwrap (NetworkError n oper e) = [e]"
| "Unwrap (VolumeError v oper e) = [e]"
| "Unwrap (FilesystemError p oper e) = [e]"
| "Unwrap (ConfigError component field e) = [e]"
| "Unwrap (MultiError es) = es"

definition WrapJobError :: "string \<Rightarrow> string \<Rightarrow> go_error option \<Rightarrow> go_error option" where
  "WrapJobError jobID operation err = map_option (JobError jobID operation) err"

definition WrapRuntimeError :: "string \<Rightarrow> string \<Rightarrow> go_error option \<Rightarrow> go_error option" where
  "WrapRuntimeError runtime operation err = map_option (RuntimeError runtime operation) err"

definition WrapNetworkError :: "string \<Rightarrow> string \<Rightarrow> go_error option \<Rightarrow> go_error option" where
  "WrapNetworkError network operation err = map_option (NetworkError network operation) err"

definition WrapVolumeError :: "string \<Rightarrow> string \<Rightarrow> go_error option \<Rightarrow> go_error option" where
  "WrapVolumeError volume operation err = map_option (VolumeError volume operation) err"

definition WrapFilesystemError :: "string \<Rightarrow> string \<Rightarrow> go_error option \<Rightarrow> go_error option" where
  "WrapFilesystemError path operation err = map_option (FilesystemError path operation) err"

definition WrapConfigError :: "string \<Rightarrow> string \<Rightarrow> go_error option \<Rightarrow> go_error option" where
  "WrapConfigError component field err = map_option (ConfigError component field) err"

definition NewJobNotFoundError :: "string \<Rightarrow> go_error option" where
  "NewJobNotFoundError jobID = WrapJobError jobID ''lookup'' (Some (Sentinel ErrJobNotFound))"

definition NewRuntimeNotFoundError :: "string \<Rightarrow> go_error option" where
  "NewRuntimeNotFoundError runtime = WrapRuntimeError runtime ''lookup'' (Some (Sentinel ErrRuntimeNotFound))"

definition NewNetworkNotFoundError :: "string \<Rightarrow> go_error option" where
  "NewNetworkNotFoundError network = WrapNetworkError network ''lookup'' (Some (Sentinel ErrNetworkNotFound))"

definition NewVolumeNotFoundError :: "string \<Rightarrow> go_error option" where
  "NewVolumeNotFoundError volume = WrapVolumeError volume ''lookup'' (Some (Sentinel ErrVolumeNotFound))"

text \<open>The cause is formatted with \<open>%v\<close>: it is in the message and not wrapped. A nil cause is printed as \<open><nil>\<close>.\<close>

definition cause_text :: "go_error option \<Rightarrow> string" where
  "cause_text err = (case err of None \<Rightarrow> ''<nil>'' | Some e \<Rightarrow> Error_string e)"

definition NewFilesystemError :: "string \<Rightarrow> string \<Rightarrow> go_error option \<Rightarrow> go_error option" where
  "NewFilesystemError path operation err =
     WrapFilesystemError path operation
       (Some (Wrapf (sentinel_message ErrFilesystemFailed @ '': '' @ cause_text err) [Sentinel ErrFilesystemFailed]))"

definition NewConfigError :: "string \<Rightarrow> string \<Rightarrow> go_error option \<Rightarrow> go_error option" where
  "NewConfigError component field err =
     WrapConfigError component field
       (Some (Wrapf (sentinel_message ErrInvalidConfig @ '': '' @ cause_text err) [Sentinel ErrInvalidConfig]))"

definition JoinErrors :: "go_error option list \<Rightarrow> go_error option" where
  "JoinErrors errs =
     (case List.map_filter id errs of
        [] \<Rightarrow> None
      | [e] \<Rightarrow> Some e
      | validErrs \<Rightarrow> Some (MultiError validErrs))"

section \<open>errors.Is and errors.As\<close>

fun is_sentinel :: "sentinel \<Rightarrow> go_error \<Rightarrow> bool" where
  "is_sentinel s (Sentinel t) = (t = s)"
| "is_sentinel s (Wrapf m es) = list_ex (is_sentinel s) es"
| "is_sentinel s (Plain m) = False"
| "is_sentinel s (JobError i oper e) = is_sentinel s e"
| "is_sentinel s (RuntimeError r oper e) = is_sentinel s e"
| "is_sentinel s (NetworkError n oper e) = is_sentinel s e"
| "is_sentinel s (VolumeError v oper e) = is_sentinel s e"
| "is_sentinel s (FilesystemError p oper e) = is_sentinel s e"
| "is_sentinel s (ConfigError component field e) = is_sentinel s e"
| "is_sentinel s (MultiError es) = list_ex (is_sentinel s) es"

definition errors_Is :: "go_error option \<Rightarrow> sentinel \<Rightarrow> bool" where
  "errors_Is err target = (case err of None \<Rightarrow> False | Some e \<Rightarrow> is_sentinel target e)"

text \<open>The nodes of an error, in the order in which \<open>errors.As\<close> tries them; \<open>sel\<close> says which nodes have the type.\<close>

fun nodes :: "go_error \<Rightarrow> go_error list" where
  "nodes (Sentinel s) = [Sentinel s]"
| "nodes (Plain m) = [Plain m]"
| "nodes (Wrapf m es) = Wrapf m es # concat (map nodes es)"
| "nodes (JobError i oper e) = JobError i oper e # nodes e"
| "nodes (RuntimeError r oper e) = RuntimeError r oper e # nodes e"
| "nodes (NetworkError n oper e) = NetworkError n oper e # nodes e"
| "nodes (VolumeError v oper e) = VolumeError v oper e # nodes e"
| "nodes (FilesystemError p oper e) = FilesystemError p oper e # nodes e"
| "nodes (ConfigError component field e) = ConfigError component field e # nodes e"
| "nodes (MultiError es) = MultiError es # concat (map nodes es)"

definition errors_As :: "(go_error \<Rightarrow> 'a option) \<Rightarrow> go_error option \<Rightarrow> 'a option" where
  "errors_As sel err =
     (case err of
        None \<Rightarrow> None
      | Some e \<Rightarrow> (case List.map_filter sel (nodes e) of [] \<Rightarrow> None | x # _ \<Rightarrow> Some x))"

fun as_job :: "go_error \<Rightarrow> string option" where
  "as_job (JobError i oper e) = Some i" | "as_job _ = None"
fun as_runtime :: "go_error \<Rightarrow> string option" where
  "as_runtime (RuntimeError r oper e) = Some r" | "as_runtime _ = None"
fun as_network :: "go_error \<Rightarrow> string option" where
  "as_network (NetworkError n oper e) = Some n" | "as_network _ = None"
fun as_volume :: "go_error \<Rightarrow> string option" where
  "as_volume (VolumeError v oper e) = Some v" | "as_volume _ = None"
fun as_filesystem :: "go_error \<Rightarrow> string option" where
  "as_filesystem (FilesystemError p oper e) = Some p" | "as_filesystem _ = None"
fun as_config :: "go_error \<Rightarrow> string option" where
  "as_config (ConfigError c f e) = Some c" | "as_config _ = None"

definition IsJobError :: "go_error option \<Rightarrow> bool" where "IsJobError err \<longleftrightarrow> errors_As as_job err \<noteq> None"
definition IsRuntimeError :: "go_error option \<Rightarrow> bool" where "IsRuntimeError err \<longleftrightarrow> errors_As as_runtime err \<noteq> None"
definition IsNetworkError :: "go_error option \<Rightarrow> bool" where "IsNetworkError err \<longleftrightarrow> errors_As as_network err \<noteq> None"
definition IsVolumeError :: "go_error option \<Rightarrow> bool" where "IsVolumeError err \<longleftrightarrow> errors_As as_volume err \<noteq> None"
definition IsFilesystemError :: "go_error option \<Rightarrow> bool" where
  "IsFilesystemError err \<longleftrightarrow> errors_As as_filesystem err \<noteq> None"
definition IsConfigError :: "go_error option \<Rightarrow> bool" where "IsConfigError err \<longleftrightarrow> errors_As as_config err \<noteq> None"

definition IsResourceError :: "go_error option \<Rightarrow> bool" where
  "IsResourceError err \<longleftrightarrow> errors_Is err ErrResourceExhausted \<or> errors_Is err ErrInvalidResourceSpec \<or>
     errors_Is err ErrResourceNotAvailable"

definition IsTimeoutError :: "go_error option \<Rightarrow> bool" where
  "IsTimeoutError err \<longleftrightarrow> errors_Is err ErrTimeout \<or> errors_Is err ErrJobTimeout"

definition IsNotFoundError :: "go_error option \<Rightarrow> bool" where
  "IsNotFoundError err \<longleftrightarrow> errors_Is err ErrJobNotFound \<or> errors_Is err ErrRuntimeNotFound \<or>
     errors_Is err ErrNetworkNotFound \<or> errors_Is err ErrVolumeNotFound"

definition IsPermissionError :: "go_error option \<Rightarrow> bool" where
  "IsPermissionError err \<longleftrightarrow> errors_Is err ErrPermissionDenied"

definition IsContextError :: "go_error option \<Rightarrow> bool" where
  "IsContextError err \<longleftrightarrow> errors_Is err ContextCanceled \<or> errors_Is err ContextDeadlineExceeded"

definition GetJobUUID :: "go_error option \<Rightarrow> string option" where "GetJobUUID err = errors_As as_job err"
definition GetRuntime :: "go_error option \<Rightarrow> string option" where "GetRuntime err = errors_As as_runtime err"
definition GetNetwork :: "go_error option \<Rightarrow> string option" where "GetNetwork err = errors_As as_network err"

section \<open>Status codes\<close>

datatype grpc_code = NotFound | InvalidArgument | FailedPrecondition | Internal | Unknown | OtherCode nat

definition codeForError :: "go_error option \<Rightarrow> grpc_code" where
  "codeForError err =
     (if errors_Is err ErrJobNotFound \<or> errors_Is err ErrRuntimeNotFound \<or> errors_Is err ErrVolumeNotFound then NotFound
      else if errors_Is err ErrInvalidJobSpec \<or> errors_Is err ErrInvalidResourceSpec then InvalidArgument
      else if errors_Is err ErrJobNotRunning \<or> errors_Is err ErrJobAlreadyRunning \<or> errors_Is err ErrVolumeInUse
        then FailedPrecondition
      else Internal)"

text \<open>What a handler answers: the error as it is, when it carries a status, or a new status.\<close>

datatype answer = PassThrough go_error | Status grpc_code string

definition statusFromError :: "(go_error \<Rightarrow> grpc_code option) \<Rightarrow> go_error option \<Rightarrow> string \<Rightarrow> answer option" where
  "statusFromError FromError err msg =
     (case err of
        None \<Rightarrow> None
      | Some e \<Rightarrow>
          (case FromError e of
             Some c \<Rightarrow> if c \<noteq> Unknown then Some (PassThrough e)
                        else Some (Status (codeForError err) (msg @ '': '' @ Error_string e))
           | None \<Rightarrow> Some (Status (codeForError err) (msg @ '': '' @ Error_string e))))"

section \<open>What wrapping keeps\<close>

text \<open>An error that reports \<open>e\<close>: \<open>e\<close> with messages, context and other errors without a sentinel around it.\<close>

inductive reports :: "go_error \<Rightarrow> go_error \<Rightarrow> bool" for e where
  rep_refl: "reports e e"
| rep_wrap: "reports e e' \<Longrightarrow> reports e (Wrapf m [e'])"
| rep_job: "reports e e' \<Longrightarrow> reports e (JobError i oper e')"
| rep_runtime: "reports e e' \<Longrightarrow> reports e (RuntimeError i oper e')"
| rep_network: "reports e e' \<Longrightarrow> reports e (NetworkError i oper e')"
| rep_volume: "reports e e' \<Longrightarrow> reports e (VolumeError i oper e')"
| rep_filesystem: "reports e e' \<Longrightarrow> reports e (FilesystemError i oper e')"
| rep_config: "reports e e' \<Longrightarrow> reports e (ConfigError i f e')"
| rep_join: "reports e e' \<Longrightarrow> \<forall>x \<in> set (us @ vs). \<forall>s. \<not> is_sentinel s x \<Longrightarrow> reports e (MultiError (us @ e' # vs))"

lemma is_sentinel_node: "is_sentinel s e \<longleftrightarrow> Sentinel s \<in> set (nodes e)"
  by (induction s e rule: is_sentinel.induct) (auto simp: list_ex_iff)

lemma reports_sentinel: "reports e e' \<Longrightarrow> is_sentinel s e' \<longleftrightarrow> is_sentinel s e"
  by (induction rule: reports.induct) (auto simp: list_ex_iff)

lemma code_cong:
  "(\<And>s. errors_Is a s = errors_Is b s) \<Longrightarrow> codeForError a = codeForError b"
  by (simp add: codeForError_def)

lemma JoinErrors_is: "errors_Is (JoinErrors errs) s \<longleftrightarrow> (\<exists>e \<in> set errs. errors_Is e s)"
proof -
  have "(\<exists>e \<in> set errs. errors_Is e s) \<longleftrightarrow> list_ex (is_sentinel s) (List.map_filter id errs)"
    by (induction errs) (auto simp: errors_Is_def List.map_filter_simps split: option.splits)
  then show ?thesis
    by (simp add: JoinErrors_def errors_Is_def split: list.split)
qed

text \<open>
  Wrapping does not change what an error is. However a sentinel travels up, through \<open>%w\<close>, the wrappers of the package and
  joins with errors that report nothing, the answer of the server has the code of the sentinel; an error that is
  not found is answered with \<open>NotFound\<close>, with one exception: a network that is not found is answered with \<open>Internal\<close>.
\<close>

theorem status_code_of_wrapped:
  assumes "reports e e'" "FromError e' = None"
  shows "statusFromError FromError (Some e') msg = Some (Status (codeForError (Some e)) (msg @ '': '' @ Error_string e')) \<and>
    (IsNotFoundError (Some e) \<and> \<not> errors_Is (Some e) ErrNetworkNotFound \<longrightarrow> codeForError (Some e) = NotFound) \<and>
    (\<forall>n. codeForError (NewNetworkNotFoundError n) = Internal)"
proof -
  have "codeForError (Some e') = codeForError (Some e)"
    by (rule code_cong) (simp add: errors_Is_def reports_sentinel [OF assms(1)])
  moreover have "codeForError (NewNetworkNotFoundError n) = Internal" for n
    by (simp add: codeForError_def NewNetworkNotFoundError_def WrapNetworkError_def errors_Is_def)
  ultimately show ?thesis
    using assms(2) by (auto simp: statusFromError_def IsNotFoundError_def codeForError_def)
qed

theorem status_code_of_wrapped_witness:
  "statusFromError (\<lambda>_. None) (Some (Wrapf ''job creation failed'' [JobError ''a'' ''stop'' (Sentinel ErrJobNotRunning)])) ''stop'' =
     Some (Status FailedPrecondition ''stop: job creation failed'')"
proof -
  have "reports (Sentinel ErrJobNotRunning) (Wrapf ''job creation failed'' [JobError ''a'' ''stop'' (Sentinel ErrJobNotRunning)])"
    by (intro rep_wrap rep_job rep_refl)
  from status_code_of_wrapped [OF this, of "\<lambda>_. None" "''stop''"] show ?thesis
    by (simp add: codeForError_def errors_Is_def)
qed

end
