(* ===== verification/Auth.thy ===== *)
theory Auth
  imports Prelude
begin

text \<open>
  Authorization, \<open>internal/joblet/auth/grpc_authorization.go\<close>: the role of a client is read from the organizational units
  of its certificate, and a table says which operations a role may perform. What the transport knows of
  the client, \<open>peer.FromContext\<close> and the TLS state, is an argument. The locale \<open>access_policy\<close> states what the handlers rely on.
\<close>

section \<open>Roles and operations\<close>

type_synonym ClientRole = string
type_synonym Operation = string

definition AdminRole :: ClientRole where "AdminRole = ''admin''"
definition MaintainerRole :: ClientRole where "MaintainerRole = ''maintainer''"
definition DeveloperRole :: ClientRole where "DeveloperRole = ''developer''"
definition ReaderRole :: ClientRole where "ReaderRole = ''reader''"
definition UnknownRole :: ClientRole where "UnknownRole = ''unknown''"

lemmas role_defs = AdminRole_def MaintainerRole_def DeveloperRole_def ReaderRole_def UnknownRole_def

definition RunJobOp :: Operation where "RunJobOp = ''run_job''"
definition GetJobOp :: Operation where "GetJobOp = ''get_job''"
definition StopJobOp :: Operation where "StopJobOp = ''stop_job''"
definition DeleteJobOp :: Operation where "DeleteJobOp = ''delete_job''"
definition ListJobsOp :: Operation where "ListJobsOp = ''list_jobs''"
definition GetJobLogsOp :: Operation where "GetJobLogsOp = ''get_job_logs''"
definition GetJobStatusOp :: Operation where "GetJobStatusOp = ''get_job_status''"
definition CreateNetworkOp :: Operation where "CreateNetworkOp = ''create_network''"
definition ListNetworksOp :: Operation where "ListNetworksOp = ''list_networks''"
definition RemoveNetworkOp :: Operation where "RemoveNetworkOp = ''remove_network''"
definition CreateVolumeOp :: Operation where "CreateVolumeOp = ''create_volume''"
definition ListVolumesOp :: Operation where "ListVolumesOp = ''list_volumes''"
definition RemoveVolumeOp :: Operation where "RemoveVolumeOp = ''remove_volume''"
definition ListRuntimesOp :: Operation where "ListRuntimesOp = ''list_runtimes''"
definition GetRuntimeInfoOp :: Operation where "GetRuntimeInfoOp = ''get_runtime_info''"
definition TestRuntimeOp :: Operation where "TestRuntimeOp = ''test_runtime''"
definition ValidateRuntimeOp :: Operation where "ValidateRuntimeOp = ''validate_runtime''"
definition BuildRuntimeOp :: Operation where "BuildRuntimeOp = ''build_runtime''"
definition RemoveRuntimeOp :: Operation where "RemoveRuntimeOp = ''remove_runtime''"
definition GetMetricsOp :: Operation where "GetMetricsOp = ''get_metrics''"
definition QueryLogsOp :: Operation where "QueryLogsOp = ''query_logs''"
definition QueryMetricsOp :: Operation where "QueryMetricsOp = ''query_metrics''"

lemmas op_defs = RunJobOp_def GetJobOp_def StopJobOp_def DeleteJobOp_def ListJobsOp_def GetJobLogsOp_def GetJobStatusOp_def
  CreateNetworkOp_def ListNetworksOp_def RemoveNetworkOp_def CreateVolumeOp_def ListVolumesOp_def RemoveVolumeOp_def
  ListRuntimesOp_def GetRuntimeInfoOp_def TestRuntimeOp_def ValidateRuntimeOp_def BuildRuntimeOp_def RemoveRuntimeOp_def
  GetMetricsOp_def QueryLogsOp_def QueryMetricsOp_def

definition readOps :: "Operation list" where
  "readOps = [GetJobOp, ListJobsOp, GetJobLogsOp, GetJobStatusOp, ListNetworksOp, ListVolumesOp, ListRuntimesOp,
     GetRuntimeInfoOp, GetMetricsOp, QueryLogsOp, QueryMetricsOp]"

definition developerOps :: "Operation list" where
  "developerOps = [RunJobOp, StopJobOp, DeleteJobOp, TestRuntimeOp] @ readOps"

definition maintainerOps :: "Operation list" where
  "maintainerOps = [BuildRuntimeOp, ValidateRuntimeOp, CreateNetworkOp, CreateVolumeOp] @ developerOps"

definition opSet :: "Operation list \<Rightarrow> Operation set" where
  "opSet ops = set ops"

definition roleOperations :: "ClientRole \<rightharpoonup> Operation set" where
  "roleOperations = [ReaderRole \<mapsto> opSet readOps, DeveloperRole \<mapsto> opSet developerOps, MaintainerRole \<mapsto> opSet maintainerOps]"

text \<open>Reading the map at a role that is not in it gives 0.\<close>

definition rolePrivilege :: "ClientRole \<Rightarrow> int" where
  "rolePrivilege r =
     (if r = ReaderRole then 1 else if r = DeveloperRole then 2 else if r = MaintainerRole then 3
      else if r = AdminRole then 4 else 0)"

section \<open>The role of a client\<close>

text \<open>What is known of the peer: nothing, no TLS, or the organizational units of the certificates it presented.\<close>

datatype peer_info = NoPeer | NoTLS | PeerCertificates "string list list"

datatype auth_error = NoPeerInformation | NoTLSInformation | NoClientCertificate
  | Unauthenticated auth_error | PermissionDenied ClientRole Operation

definition role_of_ou :: "string \<Rightarrow> ClientRole option" where
  "role_of_ou ou =
     (let s = ToLower ou in
      if s = ''admin'' then Some AdminRole
      else if s = ''maintainer'' then Some MaintainerRole
      else if s = ''developer'' then Some DeveloperRole
      else if s = ''reader'' \<or> s = ''viewer'' then Some ReaderRole
      else None)"

definition pick_role :: "string \<Rightarrow> ClientRole \<Rightarrow> ClientRole" where
  "pick_role ou role =
     (case role_of_ou ou of
        None \<Rightarrow> role
      | Some candidate \<Rightarrow>
          if role = UnknownRole \<or> rolePrivilege candidate < rolePrivilege role then candidate else role)"

definition extractClientRole :: "peer_info \<Rightarrow> (auth_error, ClientRole) result" where
  "extractClientRole p =
     (case p of
        NoPeer \<Rightarrow> Inl NoPeerInformation
      | NoTLS \<Rightarrow> Inl NoTLSInformation
      | PeerCertificates [] \<Rightarrow> Inl NoClientCertificate
      | PeerCertificates (clientCert # _) \<Rightarrow> Inr (fold pick_role clientCert UnknownRole))"

definition isOperationAllowed :: "ClientRole \<Rightarrow> Operation \<Rightarrow> bool" where
  "isOperationAllowed role operation \<longleftrightarrow>
     role = AdminRole \<or> (case roleOperations role of None \<Rightarrow> False | Some ops \<Rightarrow> operation \<in> ops)"

definition Authorized :: "peer_info \<Rightarrow> Operation \<Rightarrow> (auth_error, unit) result" where
  "Authorized p operation =
     (case extractClientRole p of
        Inl err \<Rightarrow> Inl (Unauthenticated err)
      | Inr role \<Rightarrow> if \<not> isOperationAllowed role operation then Inl (PermissionDenied role operation) else Inr ())"

definition noOp_Authorized :: "peer_info \<Rightarrow> Operation \<Rightarrow> (auth_error, unit) result" where
  "noOp_Authorized p operation = Inr ()"

section \<open>The policy\<close>

text \<open>
  A policy by ranks: rank 0 may do nothing, a higher rank may do whatever a lower one may. Inside, what a client with
  several ranks may do when it is given the least of them.
\<close>

locale access_policy =
  fixes rank :: "'r \<Rightarrow> int" and allowed :: "'r \<Rightarrow> 'o \<Rightarrow> bool" and roles :: "'r set"
  assumes nothing: "rank r \<le> 0 \<Longrightarrow> \<not> allowed r x"
    and monotone: "r \<in> roles \<Longrightarrow> r' \<in> roles \<Longrightarrow> rank r \<le> rank r' \<Longrightarrow> allowed r x \<Longrightarrow> allowed r' x"
    and ranked: "r \<in> roles \<Longrightarrow> 0 < rank r"
begin

lemma least_allowed:
  assumes "r \<in> A" "A \<subseteq> roles" "\<forall>r' \<in> A. rank r \<le> rank r'"
  shows "allowed r x \<longleftrightarrow> (\<forall>r' \<in> A. allowed r' x)"
  using assms monotone by (meson subsetD)

end

lemma lookups [simp]:
  "roleOperations ReaderRole = Some (opSet readOps)" "roleOperations DeveloperRole = Some (opSet developerOps)"
  "roleOperations MaintainerRole = Some (opSet maintainerOps)"
  by (simp_all add: roleOperations_def role_defs)

lemma privileges [simp]:
  "rolePrivilege ReaderRole = 1" "rolePrivilege DeveloperRole = 2" "rolePrivilege MaintainerRole = 3"
  "rolePrivilege AdminRole = 4" "rolePrivilege UnknownRole = 0"
  by (simp_all add: rolePrivilege_def role_defs)

definition known_roles :: "ClientRole set" where
  "known_roles = {ReaderRole, DeveloperRole, MaintainerRole, AdminRole}"

lemma allowed_known: "isOperationAllowed r x \<Longrightarrow> r \<in> known_roles"
  by (auto simp: isOperationAllowed_def known_roles_def roleOperations_def split: if_splits option.splits)

lemma ops_grow: "opSet readOps \<subseteq> opSet developerOps" "opSet developerOps \<subseteq> opSet maintainerOps"
  by (auto simp: opSet_def developerOps_def maintainerOps_def)

lemma admin_not_listed: "AdminRole \<noteq> ReaderRole" "AdminRole \<noteq> DeveloperRole" "AdminRole \<noteq> MaintainerRole"
  by (simp_all add: role_defs)

interpretation authz: access_policy rolePrivilege isOperationAllowed known_roles
proof unfold_locales
  show "\<not> isOperationAllowed r x" if "rolePrivilege r \<le> 0" for r x
    using allowed_known [of r x] that by (auto simp: known_roles_def)
  show "0 < rolePrivilege r" if "r \<in> known_roles" for r
    using that by (auto simp: known_roles_def)
  show "isOperationAllowed r' x"
    if "r \<in> known_roles" "r' \<in> known_roles" "rolePrivilege r \<le> rolePrivilege r'" "isOperationAllowed r x" for r r' x
    using that ops_grow(1) [THEN subsetD, of x] ops_grow(2) [THEN subsetD, of x]
    by (auto simp: known_roles_def isOperationAllowed_def admin_not_listed)
qed

lemma role_of_ou_known: "role_of_ou ou = Some r \<Longrightarrow> r \<in> known_roles"
  by (auto simp: role_of_ou_def known_roles_def Let_def split: if_splits)

lemma unknown_not_known [simp]: "UnknownRole \<notin> known_roles"
  by (simp add: known_roles_def role_defs)

definition cert_roles :: "string list \<Rightarrow> ClientRole set" where
  "cert_roles ous = {r. \<exists>ou \<in> set ous. role_of_ou ou = Some r}"

lemma cert_roles_simps [simp]:
  "cert_roles [] = {}"
  "cert_roles (ou # ous) = (case role_of_ou ou of None \<Rightarrow> {} | Some r \<Rightarrow> {r}) \<union> cert_roles ous"
  by (auto simp: cert_roles_def split: option.splits)

lemma cert_roles_known: "cert_roles ous \<subseteq> known_roles"
  using role_of_ou_known by (auto simp: cert_roles_def)

text \<open>The loop: the least of the roles, or the role it started with.\<close>

definition start_roles :: "ClientRole \<Rightarrow> ClientRole set" where
  "start_roles role = (if role = UnknownRole then {} else {role})"

lemma fold_pick_role:
  fixes ous :: "string list"
  assumes "role = UnknownRole \<or> role \<in> known_roles"
  defines "A \<equiv> start_roles role \<union> cert_roles ous"
  shows "(A = {} \<longrightarrow> fold pick_role ous role = UnknownRole) \<and>
    (A \<noteq> {} \<longrightarrow> fold pick_role ous role \<in> A \<and> (\<forall>r \<in> A. rolePrivilege (fold pick_role ous role) \<le> rolePrivilege r))"
  using assms(1) unfolding A_def
proof (induction ous arbitrary: role)
  case Nil
  then show ?case by (auto simp: start_roles_def)
next
  case (Cons ou ous)
  show ?case
  proof (cases "role_of_ou ou")
    case None
    with Cons.IH [OF Cons.prems] show ?thesis by (simp add: pick_role_def)
  next
    case (Some c)
    have c: "c \<in> known_roles" "c \<noteq> UnknownRole" using role_of_ou_known [OF Some] by auto
    define role' where "role' = pick_role ou role"
    have role': "role' \<in> known_roles" "role' \<noteq> UnknownRole" "role' \<in> start_roles role \<union> {c}"
      "\<forall>r \<in> start_roles role \<union> {c}. rolePrivilege role' \<le> rolePrivilege r"
      using c Cons.prems by (auto simp: role'_def pick_role_def Some start_roles_def)
    let ?f = "fold pick_role ous role'"
    have "?f \<in> {role'} \<union> cert_roles ous" "\<forall>r \<in> {role'} \<union> cert_roles ous. rolePrivilege ?f \<le> rolePrivilege r"
      using Cons.IH [of role'] role'(1,2) by (auto simp: start_roles_def)
    then show ?thesis using role'(3,4) Some by (fastforce simp: role'_def)
  qed
qed

text \<open>
  C27. A certificate never escalates. A client is let through for an operation exactly when its certificate has a unit that names a role
  and every role it names may perform the operation; so the order and the number of the units do not matter, and a
  unit that names no role gives nothing. Without a peer, TLS or a certificate nobody is let through. Shared infrastructure
  is removed by administrators only.
\<close>

theorem authorization_least_privilege:
  "(Authorized (PeerCertificates (ous # certs)) x = Inr () \<longleftrightarrow>
     cert_roles ous \<noteq> {} \<and> (\<forall>r \<in> cert_roles ous. isOperationAllowed r x)) \<and>
   Authorized NoPeer x \<noteq> Inr () \<and> Authorized NoTLS x \<noteq> Inr () \<and> Authorized (PeerCertificates []) x \<noteq> Inr () \<and>
   (Authorized (PeerCertificates (ous # certs)) x = Inr () \<and> x \<in> {RemoveRuntimeOp, RemoveNetworkOp, RemoveVolumeOp} \<longrightarrow>
     cert_roles ous = {AdminRole})"
proof -
  let ?r = "fold pick_role ous UnknownRole" and ?A = "cert_roles ous"
  have auth: "Authorized (PeerCertificates (ous # certs)) x = Inr () \<longleftrightarrow> isOperationAllowed ?r x"
    by (simp add: Authorized_def extractClientRole_def)
  have f: "?A = {} \<Longrightarrow> ?r = UnknownRole" "?A \<noteq> {} \<Longrightarrow> ?r \<in> ?A" "\<forall>r \<in> ?A. rolePrivilege ?r \<le> rolePrivilege r"
    using fold_pick_role [of UnknownRole ous] by (auto simp: start_roles_def)
  have iff: "isOperationAllowed ?r x \<longleftrightarrow> ?A \<noteq> {} \<and> (\<forall>r \<in> ?A. isOperationAllowed r x)"
  proof (cases "?A = {}")
    case True
    then show ?thesis using f(1) authz.nothing [of UnknownRole x] by simp
  next
    case False
    then show ?thesis using authz.least_allowed [OF f(2) cert_roles_known f(3)] by simp
  qed
  have admin: "r = AdminRole" if "isOperationAllowed r x" "x \<in> {RemoveRuntimeOp, RemoveNetworkOp, RemoveVolumeOp}" for r
    using that by (auto simp: isOperationAllowed_def roleOperations_def opSet_def maintainerOps_def developerOps_def readOps_def
      op_defs split: if_splits)
  show ?thesis
    using auth iff admin by (auto simp: Authorized_def extractClientRole_def)
qed

theorem authorization_least_privilege_witness:
  "Authorized (PeerCertificates [[''Engineering'', ''Admin'', ''viewer'']]) RunJobOp \<noteq> Inr () \<and>
   Authorized (PeerCertificates [[''Engineering'', ''ADMIN'']]) RemoveVolumeOp = Inr ()"
proof -
  have ou: "role_of_ou ''Engineering'' = None" "role_of_ou ''Admin'' = Some AdminRole"
    "role_of_ou ''ADMIN'' = Some AdminRole" "role_of_ou ''viewer'' = Some ReaderRole"
    by code_simp+
  then have "cert_roles [''Engineering'', ''Admin'', ''viewer''] = {AdminRole, ReaderRole}"
    by auto
  moreover have "\<not> isOperationAllowed ReaderRole RunJobOp"
    by (simp add: isOperationAllowed_def role_defs roleOperations_def opSet_def readOps_def op_defs)
  moreover have "cert_roles [''Engineering'', ''ADMIN''] = {AdminRole}"
    using ou by simp
  ultimately show ?thesis
    using authorization_least_privilege [of "[''Engineering'', ''Admin'', ''viewer'']" "[]" RunJobOp]
      authorization_least_privilege [of "[''Engineering'', ''ADMIN'']" "[]" RemoveVolumeOp]
    by (simp add: isOperationAllowed_def)
qed

end
