(* ===== verification/Runtimes.thy ===== *)
theory Runtimes
  imports Prelude Filepath
begin

text \<open>
  Semantic versions (\<open>pkg/semver/semver.go\<close>) and the runtime resolver
  (\<open>internal/joblet/runtime/resolver.go\<close>, \<open>types.go\<close>).

  The resolver reads the node through the platform: directory listings, files, the YAML
  decoder and the architecture the server was built for are fields of the record
  \<open>node\<close>, an argument of the operations. \<open>candidates\<close> is the reference the scans are
  compared with: every runtime the directories hold, in the order the code meets them.
\<close>

section \<open>Versions\<close>

datatype Version = Version (v_major: int) (v_minor: int) (v_patch: int)

datatype version_error = InvalidFormat string | InvalidMajor | InvalidMinor | InvalidPatch | NegativeComponent

definition NewVersion :: "string \<Rightarrow> (version_error, Version) result" where
  "NewVersion version =
     (let s = TrimPrefix version ''v''; parts = Split CHR ''.'' s in
      if length parts \<noteq> 3 then Inl (InvalidFormat s)
      else (case Atoi (parts ! 0) of None \<Rightarrow> Inl InvalidMajor | Some major \<Rightarrow>
           (case Atoi (parts ! 1) of None \<Rightarrow> Inl InvalidMinor | Some minor \<Rightarrow>
           (case Atoi (parts ! 2) of None \<Rightarrow> Inl InvalidPatch | Some patch \<Rightarrow>
             if major < 0 \<or> minor < 0 \<or> patch < 0 then Inl NegativeComponent
             else Inr (Version major minor patch)))))"

definition Version_GreaterThan :: "Version \<Rightarrow> Version \<Rightarrow> bool" where
  "Version_GreaterThan v w =
     (if v_major v \<noteq> v_major w then v_major w < v_major v
      else if v_minor v \<noteq> v_minor w then v_minor w < v_minor v
      else v_patch w < v_patch v)"

definition Version_String :: "Version \<Rightarrow> string" where
  "Version_String v = Itoa (v_major v) @ ''.'' @ Itoa (v_minor v) @ ''.'' @ Itoa (v_patch v)"

definition Version_Equal :: "Version \<Rightarrow> Version \<Rightarrow> bool" where
  "Version_Equal v w \<longleftrightarrow> v_major v = v_major w \<and> v_minor v = v_minor w \<and> v_patch v = v_patch w"

definition Version_LessThan :: "Version \<Rightarrow> Version \<Rightarrow> bool" where
  "Version_LessThan v w \<longleftrightarrow> \<not> Version_GreaterThan v w \<and> \<not> Version_Equal v w"

text \<open>The comparisons of the code make versions a linear order, so the library's maxima apply to them.\<close>

instantiation Version :: linorder
begin

definition less_eq_Version :: "Version \<Rightarrow> Version \<Rightarrow> bool" where
  "less_eq_Version v w \<longleftrightarrow> \<not> Version_GreaterThan v w"

definition less_Version :: "Version \<Rightarrow> Version \<Rightarrow> bool" where
  "less_Version v w \<longleftrightarrow> Version_LessThan v w"

instance
  by standard
    (auto simp: less_eq_Version_def less_Version_def Version_LessThan_def Version_GreaterThan_def Version_Equal_def
      split: if_splits intro: Version.expand)

end

lemma GreaterThan_iff: "Version_GreaterThan v w \<longleftrightarrow> w < v"
  by (simp add: less_eq_Version_def flip: not_le)

definition valid_version :: "Version \<Rightarrow> bool" where
  "valid_version v \<longleftrightarrow> (\<forall>i \<in> {v_major v, v_minor v, v_patch v}. 0 \<le> i \<and> fits64 i)"

lemma NewVersion_valid: "NewVersion s = Inr v \<Longrightarrow> valid_version v"
  by (auto simp: NewVersion_def valid_version_def Let_def Atoi_fits split: if_splits option.splits)

lemma Itoa_no_dot: "0 \<le> i \<Longrightarrow> CHR ''.'' \<notin> set (Itoa i)"
  using Itoa_digits not_is_digit_sign(3) by blast

lemma TrimPrefix_digit: "0 \<le> i \<Longrightarrow> TrimPrefix (Itoa i @ s) ''v'' = Itoa i @ s"
proof -
  assume "0 \<le> i"
  then have "is_digit (hd (Itoa i))" using Itoa_digits [OF _ hd_in_set [OF Itoa_not_Nil]] by blast
  then have "hd (Itoa i) \<noteq> CHR ''v''" by (auto simp: is_digit_def byte_val_def)
  then show ?thesis by (cases "Itoa i") (simp_all add: TrimPrefix_def HasPrefix_def)
qed

text \<open>
  A version survives printing and parsing, with or without the \<open>v\<close> in front, and what the parser accepts
  has non-negative 64-bit components; the comparisons are those of one linear order, so exactly one of less, equal and
  greater holds of two versions.
\<close>

theorem version_roundtrip:
  assumes "valid_version v"
  shows "NewVersion (Version_String v) = Inr v \<and> NewVersion (''v'' @ Version_String v) = Inr v \<and>
    (\<forall>s u. NewVersion s = Inr u \<longrightarrow> valid_version u) \<and>
    (Version_LessThan v w \<longleftrightarrow> Version_GreaterThan w v) \<and> (Version_Equal v w \<longleftrightarrow> v = w) \<and>
    (\<not> Version_LessThan v w \<and> \<not> Version_Equal v w \<longleftrightarrow> Version_GreaterThan v w)"
proof -
  have nn: "0 \<le> v_major v" "0 \<le> v_minor v" "0 \<le> v_patch v"
    and at: "Atoi (Itoa (v_major v)) = Some (v_major v)" "Atoi (Itoa (v_minor v)) = Some (v_minor v)"
      "Atoi (Itoa (v_patch v)) = Some (v_patch v)"
    using assms by (auto simp: valid_version_def Atoi_Itoa)
  have sp: "Split CHR ''.'' (Version_String v) = [Itoa (v_major v), Itoa (v_minor v), Itoa (v_patch v)]"
    using nn by (simp add: Version_String_def Split_append_sep Split_no_sep Itoa_no_dot)
  have "TrimPrefix (Version_String v) ''v'' = Version_String v"
    using TrimPrefix_digit [OF nn(1)] by (simp add: Version_String_def)
  moreover have "TrimPrefix (''v'' @ Version_String v) ''v'' = Version_String v"
    by (simp add: TrimPrefix_def HasPrefix_def)
  ultimately have "NewVersion (Version_String v) = Inr v" "NewVersion (''v'' @ Version_String v) = Inr v"
    using nn at sp by (simp_all add: NewVersion_def Let_def)
  moreover have "Version_Equal v w \<longleftrightarrow> v = w"
    by (auto simp: Version_Equal_def intro: Version.expand)
  ultimately show ?thesis
    using NewVersion_valid by (auto simp: GreaterThan_iff less_Version_def [symmetric])
qed

theorem version_roundtrip_witness:
  "NewVersion (Version_String (Version 1 3 10)) = Inr (Version 1 3 10) \<and> Version_LessThan (Version 1 3 10) (Version 1 10 0)"
  using version_roundtrip [of "Version 1 3 10" "Version 1 10 0"]
  by (simp add: valid_version_def int_fits_def Version_LessThan_def Version_GreaterThan_def Version_Equal_def)

section \<open>The resolver\<close>

record BuildInfo =
  BuiltAt :: string
  BuiltWith :: string
  bi_Platform :: string

record MountSpec =
  ms_Source :: string
  ms_Target :: string
  ms_ReadOnly :: bool

record RuntimeRequirements =
  Architectures :: "string list"
  req_GPU :: bool
  CUDAVersion :: string

text \<open>A nil map of the environment is \<open>None\<close>.\<close>

record RuntimeConfig =
  rc_Name :: string
  rc_Language :: string
  rc_LanguageVersion :: string
  rc_Version :: string
  rc_Description :: string
  rc_Mounts :: "MountSpec list"
  rc_Environment :: "(string \<rightharpoonup> string) option"
  rc_Requirements :: RuntimeRequirements
  rc_Packages :: "string list"
  rc_Libraries :: "string list"
  rc_BuildInfo :: BuildInfo
  rc_OriginalYAML :: string

record RuntimeSpec =
  rs_Language :: string
  rs_Version :: string
  rs_Tags :: "string list"

record RuntimeInfo =
  ri_Name :: string
  ri_Language :: string
  ri_Version :: string
  ri_Description :: string
  ri_Path :: string
  ri_Size :: int
  ri_LastUsed :: "instant option"
  ri_Available :: bool

text \<open>
  What the resolver sees of the node. A directory entry is a name and whether it is a directory; a visit of
  \<open>filepath.Walk\<close> is an error or a file with its size (\<open>None\<close> for a directory).
\<close>

record node =
  fs_DirExists :: "string \<Rightarrow> bool"
  fs_ReadDir :: "string \<Rightarrow> (string \<times> bool) list option"
  fs_Stat :: "string \<Rightarrow> bool"
  fs_ReadFile :: "string \<Rightarrow> string option"
  yaml_Unmarshal :: "string \<Rightarrow> RuntimeConfig option"
  fs_Walk :: "string \<Rightarrow> int option option list"
  runtimesPath :: string
  GOARCH :: string

datatype runtime_error =
    ReadRuntimesFailed
  | SpecNotFound string
  | ReadConfigFailed
  | ParseConfigFailed
  | RuntimeNotFound runtime_error
  | LoadConfigFailed runtime_error
  | RuntimeInvalid "string list" string

definition loadRuntimeConfig :: "node \<Rightarrow> string \<Rightarrow> (runtime_error, RuntimeConfig) result" where
  "loadRuntimeConfig r configPath =
     (case fs_ReadFile r configPath of
        None \<Rightarrow> Inl ReadConfigFailed
      | Some data \<Rightarrow> (case yaml_Unmarshal r data of None \<Rightarrow> Inl ParseConfigFailed | Some config \<Rightarrow> Inr config))"

definition extractTypeFromName :: "string \<Rightarrow> string" where
  "extractTypeFromName runtimeName =
     (let parts = Split CHR ''-'' runtimeName in if 0 < length parts then parts ! 0 else runtimeName)"

text \<open>The sum so far, also when the walk stops at an error (the callers ignore the error).\<close>

fun walk_size :: "int option option list \<Rightarrow> int \<Rightarrow> int" where
  "walk_size [] sum_so_far = sum_so_far"
| "walk_size (None # vs) sum_so_far = sum_so_far"
| "walk_size (Some None # vs) sum_so_far = walk_size vs sum_so_far"
| "walk_size (Some (Some n) # vs) sum_so_far = walk_size vs (int64 (sum_so_far + n))"

definition getDirectorySize :: "node \<Rightarrow> string \<Rightarrow> int" where
  "getDirectorySize r path = walk_size (fs_Walk r path) 0"

abbreviation config_path :: "string \<Rightarrow> string" where
  "config_path dir \<equiv> Join_path [dir, ''runtime.yml'']"

definition runtime_info :: "node \<Rightarrow> string \<Rightarrow> string \<Rightarrow> RuntimeConfig \<Rightarrow> RuntimeInfo" where
  "runtime_info r entryName path config =
     \<lparr>ri_Name = rc_Name config,
      ri_Language = (if rc_Language config = [] then extractTypeFromName entryName else rc_Language config),
      ri_Version = rc_Version config, ri_Description = rc_Description config, ri_Path = path,
      ri_Size = getDirectorySize r path, ri_LastUsed = None, ri_Available = True\<rparr>"

text \<open>The loop over the version directories: whether one has a \<open>runtime.yml\<close>, and the infos collected.\<close>

fun list_versions :: "node \<Rightarrow> string \<Rightarrow> string \<Rightarrow> (string \<times> bool) list \<Rightarrow> bool \<times> RuntimeInfo list" where
  "list_versions r entryName nameDir [] = (False, [])"
| "list_versions r entryName nameDir ((v, isDir) # vs) =
     (let (has, infos) = list_versions r entryName nameDir vs; versionPath = Join_path [nameDir, v] in
      if \<not> isDir then (has, infos)
      else if \<not> fs_Stat r (config_path versionPath) then (has, infos)
      else (case loadRuntimeConfig r (config_path versionPath) of
              Inl _ \<Rightarrow> (True, infos)
            | Inr config \<Rightarrow> (True, runtime_info r entryName versionPath config # infos)))"

definition list_entry :: "node \<Rightarrow> string \<times> bool \<Rightarrow> RuntimeInfo list" where
  "list_entry r entry =
     (if \<not> snd entry then []
      else let nameDir = Join_path [runtimesPath r, fst entry] in
      (case fs_ReadDir r nameDir of
         None \<Rightarrow> []
       | Some versionEntries \<Rightarrow>
           (let (hasVersionDirs, infos) = list_versions r (fst entry) nameDir versionEntries in
            if hasVersionDirs then infos
            else if \<not> fs_Stat r (config_path nameDir) then infos
            else (case loadRuntimeConfig r (config_path nameDir) of
                    Inl _ \<Rightarrow> infos
                  | Inr config \<Rightarrow> infos @ [runtime_info r (fst entry) nameDir config]))))"

definition ListRuntimes :: "node \<Rightarrow> (runtime_error, RuntimeInfo list) result" where
  "ListRuntimes r =
     (if \<not> fs_DirExists r (runtimesPath r) then Inr []
      else (case fs_ReadDir r (runtimesPath r) of
              None \<Rightarrow> Inl ReadRuntimesFailed
            | Some entries \<Rightarrow> Inr (concat (map (list_entry r) entries))))"

subsection \<open>Finding the directory of a specification\<close>

text \<open>The loop of \<open>findLatestVersion\<close>: the latest version and its path so far, the path empty at first.\<close>

fun latest_loop :: "(string \<times> string) list \<Rightarrow> Version option \<Rightarrow> string \<Rightarrow> string" where
  "latest_loop [] latestSemver latestPath = latestPath"
| "latest_loop ((path, version) # vs) latestSemver latestPath =
     (case NewVersion version of
        Inl _ \<Rightarrow> latest_loop vs latestSemver (if latestPath = [] then path else latestPath)
      | Inr sv \<Rightarrow>
          (case latestSemver of
             None \<Rightarrow> latest_loop vs (Some sv) path
           | Some l \<Rightarrow> if Version_GreaterThan sv l then latest_loop vs (Some sv) path
                        else latest_loop vs latestSemver latestPath))"

definition findLatestVersion :: "(string \<times> string) list \<Rightarrow> string" where
  "findLatestVersion versions =
     (if length versions = 0 then []
      else if length versions = 1 then fst (versions ! 0)
      else latest_loop versions None [])"

definition wants_latest :: "string \<Rightarrow> bool" where
  "wants_latest requestedVersion \<longleftrightarrow> requestedVersion = [] \<or> requestedVersion = ''latest''"

text \<open>The inner loop of the first pass: a path to return at once, or the versions to choose from.\<close>

fun match_versions ::
  "node \<Rightarrow> string \<Rightarrow> string \<Rightarrow> string \<Rightarrow> (string \<times> bool) list \<Rightarrow> (string \<times> string) list \<Rightarrow> string + (string \<times> string) list" where
  "match_versions r name ver nameDir [] acc = Inr acc"
| "match_versions r name ver nameDir ((v, isDir) # vs) acc =
     (let versionPath = Join_path [nameDir, v] in
      if \<not> isDir then match_versions r name ver nameDir vs acc
      else (case loadRuntimeConfig r (config_path versionPath) of
              Inl _ \<Rightarrow> match_versions r name ver nameDir vs acc
            | Inr config \<Rightarrow>
                if rc_Name config = name then
                  if \<not> wants_latest ver then
                    if rc_Version config = ver then Inl versionPath
                    else match_versions r name ver nameDir vs acc
                  else match_versions r name ver nameDir vs (acc @ [(versionPath, rc_Version config)])
                else match_versions r name ver nameDir vs acc))"

definition flat_match :: "node \<Rightarrow> (RuntimeConfig \<Rightarrow> bool) \<Rightarrow> string \<Rightarrow> string option" where
  "flat_match r P nameDir =
     (case loadRuntimeConfig r (config_path nameDir) of
        Inl _ \<Rightarrow> None
      | Inr config \<Rightarrow> if P config then Some nameDir else None)"

fun first_pass :: "node \<Rightarrow> string \<Rightarrow> string \<Rightarrow> (string \<times> bool) list \<Rightarrow> string option" where
  "first_pass r name ver [] = None"
| "first_pass r name ver ((d, isDir) # es) =
     (let nameDir = Join_path [runtimesPath r, d] in
      if \<not> isDir then first_pass r name ver es
         else (case fs_ReadDir r nameDir of
                 None \<Rightarrow> first_pass r name ver es
               | Some versionEntries \<Rightarrow>
                   (case match_versions r name ver nameDir versionEntries [] of
                      Inl p \<Rightarrow> Some p
                    | Inr matching \<Rightarrow>
                        if 0 < length matching \<and> wants_latest ver \<and> findLatestVersion matching \<noteq> []
                        then Some (findLatestVersion matching)
                        else (case flat_match r (\<lambda>c. rc_Name c = name \<and> (wants_latest ver \<or> rc_Version c = ver)) nameDir of
                                Some p \<Rightarrow> Some p | None \<Rightarrow> first_pass r name ver es))))"

definition version_ok :: "RuntimeConfig \<Rightarrow> RuntimeSpec \<Rightarrow> bool" where
  "version_ok config spec \<longleftrightarrow>
     \<not> (rs_Version spec \<noteq> [] \<and> rs_Version spec \<noteq> ''unknown'' \<and> rs_Version spec \<noteq> ''latest'' \<and> rc_Version config \<noteq> rs_Version spec)"

definition runtimeMatches :: "RuntimeConfig \<Rightarrow> RuntimeSpec \<Rightarrow> bool" where
  "runtimeMatches config spec =
     (if rs_Language spec \<noteq> [] \<and> rs_Language spec \<noteq> ''unknown'' then
        if rc_Name config = rs_Language spec then version_ok config spec
        else if rc_Language config \<noteq> [] \<and> rs_Language spec = rc_Language config then version_ok config spec
        else False
      else version_ok config spec)"

text \<open>\<open>strings.SplitN(s, sep, 2)\<close> of a string that has the separator.\<close>

definition SplitN2 :: "char \<Rightarrow> string \<Rightarrow> string \<times> string" where
  "SplitN2 c s = (takeWhile (\<lambda>x. x \<noteq> c) s, drop 1 (dropWhile (\<lambda>x. x \<noteq> c) s))"

definition parseRuntimeSpec :: "string \<Rightarrow> RuntimeSpec" where
  "parseRuntimeSpec spec =
     (let colon = Split CHR '':'' spec; plus = Split CHR ''+'' spec; main = Split CHR ''-'' (plus ! 0); dash = Split CHR ''-'' spec in
      if CHR ''@'' \<in> set spec then
        \<lparr>rs_Language = fst (SplitN2 CHR ''@'' spec), rs_Version = snd (SplitN2 CHR ''@'' spec), rs_Tags = []\<rparr>
      else if CHR '':'' \<in> set spec \<and> length colon = 2 then
        (let versionAndTags = Split CHR ''+'' (colon ! 1) in
         \<lparr>rs_Language = colon ! 0, rs_Version = versionAndTags ! 0, rs_Tags = tl versionAndTags\<rparr>)
      else if CHR ''+'' \<in> set spec \<and> 3 \<le> length main then
        \<lparr>rs_Language = main ! 0, rs_Version = main ! 1, rs_Tags = drop 2 main @ tl plus\<rparr>
      else if length dash = 2 then
        \<lparr>rs_Language = dash ! 0, rs_Version = dash ! 1, rs_Tags = []\<rparr>
      else \<lparr>rs_Language = extractTypeFromName spec, rs_Version = ''unknown'', rs_Tags = []\<rparr>)"

fun match_spec :: "node \<Rightarrow> RuntimeSpec \<Rightarrow> string \<Rightarrow> (string \<times> bool) list \<Rightarrow> string option" where
  "match_spec r spec nameDir [] = None"
| "match_spec r spec nameDir ((v, isDir) # vs) =
     (let versionPath = Join_path [nameDir, v] in
      if \<not> isDir then match_spec r spec nameDir vs
      else (case loadRuntimeConfig r (config_path versionPath) of
              Inl _ \<Rightarrow> match_spec r spec nameDir vs
            | Inr config \<Rightarrow> if runtimeMatches config spec then Some versionPath else match_spec r spec nameDir vs))"

fun second_pass :: "node \<Rightarrow> RuntimeSpec \<Rightarrow> (string \<times> bool) list \<Rightarrow> string option" where
  "second_pass r spec [] = None"
| "second_pass r spec ((d, isDir) # es) =
     (let nameDir = Join_path [runtimesPath r, d] in
      if \<not> isDir then second_pass r spec es
      else (case fs_ReadDir r nameDir of
              None \<Rightarrow> second_pass r spec es
            | Some versionEntries \<Rightarrow>
                (case match_spec r spec nameDir versionEntries of
                   Some p \<Rightarrow> Some p
                 | None \<Rightarrow> (case flat_match r (\<lambda>c. runtimeMatches c spec) nameDir of
                              Some p \<Rightarrow> Some p | None \<Rightarrow> second_pass r spec es))))"

definition FindRuntimeDirectory :: "node \<Rightarrow> string \<Rightarrow> (runtime_error, string) result" where
  "FindRuntimeDirectory r spec =
     (let (runtimeName, requestedVersion) = (if CHR ''@'' \<in> set spec then SplitN2 CHR ''@'' spec else (spec, [])) in
      case fs_ReadDir r (runtimesPath r) of
        None \<Rightarrow> Inl ReadRuntimesFailed
      | Some entries \<Rightarrow>
          (case first_pass r runtimeName requestedVersion entries of
             Some p \<Rightarrow> Inr p
           | None \<Rightarrow>
               (case second_pass r (parseRuntimeSpec spec) entries of
                  Some p \<Rightarrow> Inr p
                | None \<Rightarrow> Inl (SpecNotFound spec))))"

definition normalizeArch :: "string \<Rightarrow> string" where
  "normalizeArch arch = (if arch = ''x86_64'' then ''amd64'' else if arch = ''aarch64'' then ''arm64'' else arch)"

definition validateRuntime :: "node \<Rightarrow> RuntimeConfig \<Rightarrow> (runtime_error, unit) result" where
  "validateRuntime r config =
     (let archs = Architectures (rc_Requirements config) in
      if 0 < length archs \<and> \<not> list_ex (\<lambda>a. normalizeArch a = GOARCH r) archs then Inl (RuntimeInvalid archs (GOARCH r))
      else Inr ())"

definition ResolveRuntimeDirectory :: "node \<Rightarrow> string \<Rightarrow> (runtime_error, string \<times> RuntimeConfig) result" where
  "ResolveRuntimeDirectory r runtimeSpec =
     (case FindRuntimeDirectory r runtimeSpec of
        Inl err \<Rightarrow> Inl (RuntimeNotFound err)
      | Inr runtimeDir \<Rightarrow>
          (case loadRuntimeConfig r (config_path runtimeDir) of
             Inl err \<Rightarrow> Inl (LoadConfigFailed err)
           | Inr config \<Rightarrow>
               (case validateRuntime r config of Inl err \<Rightarrow> Inl err | Inr _ \<Rightarrow> Inr (runtimeDir, config))))"

text \<open>For the empty specification the answer is a nil configuration and no error.\<close>

definition ResolveRuntime :: "node \<Rightarrow> string \<Rightarrow> (runtime_error, RuntimeConfig option) result" where
  "ResolveRuntime r runtimeSpec =
     (if runtimeSpec = [] then Inr None
      else (case ResolveRuntimeDirectory r runtimeSpec of Inl err \<Rightarrow> Inl err | Inr (_, config) \<Rightarrow> Inr (Some config)))"

subsection \<open>GPU support of a runtime\<close>

definition specHasGPUSupport :: "RuntimeSpec \<Rightarrow> bool" where
  "specHasGPUSupport spec =
     list_ex (\<lambda>tag. ToLower tag \<in> {''gpu'', ''cuda'', ''ml'', ''ai'', ''tensorflow'', ''pytorch'', ''nvidia''}) (rs_Tags spec)"

definition IsGPUEnabled :: "string \<Rightarrow> bool" where
  "IsGPUEnabled runtimeName =
     (let lowerName = ToLower runtimeName in
      list_ex (Contains lowerName) [''gpu'', ''cuda'', ''-ml'', ''tensorflow'', ''pytorch'', ''nvidia''] \<or>
      specHasGPUSupport (parseRuntimeSpec runtimeName))"

definition ListGPUEnabledRuntimes :: "node \<Rightarrow> (runtime_error, RuntimeInfo list) result" where
  "ListGPUEnabledRuntimes r =
     (case ListRuntimes r of
        Inl err \<Rightarrow> Inl err
      | Inr allRuntimes \<Rightarrow> Inr (filter (\<lambda>i. IsGPUEnabled (ri_Name i)) allRuntimes))"

definition getRuntimeConfig :: "node \<Rightarrow> string \<Rightarrow> (runtime_error, RuntimeConfig) result" where
  "getRuntimeConfig r runtimeName =
     (case fs_ReadDir r (runtimesPath r) of
        None \<Rightarrow> Inl ReadRuntimesFailed
      | Some entries \<Rightarrow>
          (case find (\<lambda>(n, isDir). isDir \<and> (Contains n runtimeName \<or> runtimeName = n)) entries of
             Some (n, _) \<Rightarrow> loadRuntimeConfig r (Join_path [runtimesPath r, n, ''runtime.yml''])
           | None \<Rightarrow> Inl (SpecNotFound runtimeName)))"

definition cudaVersionMap :: "string \<rightharpoonup> string" where
  "cudaVersionMap = map_of
     [(''cuda12'', ''12.0''), (''cuda12.0'', ''12.0''), (''cuda12.1'', ''12.1''), (''cuda12.2'', ''12.2''),
      (''cuda11'', ''11.8''), (''cuda11.8'', ''11.8''), (''cuda11.7'', ''11.7''), (''cuda11.6'', ''11.6''),
      (''pytorch'', ''11.8''), (''tensorflow'', ''11.8'')]"

text \<open>The loop ranges over a map: the order is the argument \<open>patterns\<close>.\<close>

definition inferCUDAVersion :: "string list \<Rightarrow> string \<Rightarrow> string" where
  "inferCUDAVersion patterns runtimeName =
     (case find (Contains (ToLower runtimeName)) patterns of
        Some pattern \<Rightarrow> (case cudaVersionMap pattern of Some version \<Rightarrow> version | None \<Rightarrow> [])
      | None \<Rightarrow> ''11.8'')"

definition isVersionString :: "string \<Rightarrow> bool" where
  "isVersionString s =
     (let parts = Split CHR ''.'' s in
      2 \<le> length parts \<and> list_all (\<lambda>part. part \<noteq> [] \<and> list_all is_digit part) parts)"

definition extractVersionFromPath :: "string \<Rightarrow> string" where
  "extractVersionFromPath path =
     (case find (\<lambda>part. CHR ''.'' \<in> set part \<and> isVersionString part) (Split CHR ''-'' path) of
        Some part \<Rightarrow> part | None \<Rightarrow> ''unknown'')"

definition GetCUDARequirements :: "string list \<Rightarrow> node \<Rightarrow> string \<Rightarrow> string" where
  "GetCUDARequirements patterns r runtimeName =
     (let inferred = inferCUDAVersion patterns runtimeName in
      case getRuntimeConfig r runtimeName of
        Inl _ \<Rightarrow> inferred
      | Inr config \<Rightarrow>
          (case rc_Environment config of
             None \<Rightarrow> inferred
           | Some env \<Rightarrow>
               (case env ''CUDA_VERSION'' of
                  Some cudaVersion \<Rightarrow> cudaVersion
                | None \<Rightarrow>
                    (case env ''CUDA_HOME'' of
                       Some cudaHome \<Rightarrow> extractVersionFromPath cudaHome
                     | None \<Rightarrow> inferred))))"

section \<open>The scans against their reference\<close>

definition loaded :: "node \<Rightarrow> string \<Rightarrow> (string \<times> RuntimeConfig) list" where
  "loaded r dir = (case loadRuntimeConfig r (config_path dir) of Inl _ \<Rightarrow> [] | Inr c \<Rightarrow> [(dir, c)])"

definition nested_candidates :: "node \<Rightarrow> string \<Rightarrow> (string \<times> bool) list \<Rightarrow> (string \<times> RuntimeConfig) list" where
  "nested_candidates r nameDir vs = concat (map (\<lambda>(v, isDir). if isDir then loaded r (Join_path [nameDir, v]) else []) vs)"

definition entry_candidates :: "node \<Rightarrow> string \<times> bool \<Rightarrow> (string \<times> RuntimeConfig) list" where
  "entry_candidates r entry =
     (let nameDir = Join_path [runtimesPath r, fst entry] in
      if \<not> snd entry then []
      else (case fs_ReadDir r nameDir of None \<Rightarrow> [] | Some vs \<Rightarrow> nested_candidates r nameDir vs @ loaded r nameDir))"

definition candidates :: "node \<Rightarrow> (string \<times> RuntimeConfig) list" where
  "candidates r = (case fs_ReadDir r (runtimesPath r) of None \<Rightarrow> [] | Some es \<Rightarrow> concat (map (entry_candidates r) es))"

lemma nested_candidates_simps [simp]:
  "nested_candidates r d [] = []"
  "nested_candidates r d ((v, isDir) # vs) = (if isDir then loaded r (Join_path [d, v]) else []) @ nested_candidates r d vs"
  by (simp_all add: nested_candidates_def)

lemma entry_candidates_Pair [simp]:
  "entry_candidates r (d, isDir) =
     (if \<not> isDir then []
      else (case fs_ReadDir r (Join_path [runtimesPath r, d]) of
              None \<Rightarrow> []
            | Some vs \<Rightarrow> nested_candidates r (Join_path [runtimesPath r, d]) vs @ loaded r (Join_path [runtimesPath r, d])))"
  by (simp add: entry_candidates_def Let_def)

text \<open>The directory of the first candidate a predicate accepts.\<close>

definition pick :: "(RuntimeConfig \<Rightarrow> bool) \<Rightarrow> (string \<times> RuntimeConfig) list \<Rightarrow> string option" where
  "pick P cs = map_option fst (find (\<lambda>pc. P (snd pc)) cs)"

lemma pick_Nil [simp]: "pick P [] = None"
  by (simp add: pick_def)

lemma pick_append: "pick P (xs @ ys) = (case pick P xs of None \<Rightarrow> pick P ys | Some x \<Rightarrow> Some x)"
  by (induction xs) (simp_all add: pick_def)

lemma pick_loaded:
  "pick P (loaded r d) = (case loadRuntimeConfig r (config_path d) of Inl _ \<Rightarrow> None | Inr c \<Rightarrow> if P c then Some d else None)"
  by (simp add: loaded_def pick_def split: sum.split)

lemma pick_Some: "pick P cs = Some p \<Longrightarrow> \<exists>c. (p, c) \<in> set cs \<and> P c"
  by (induction cs) (auto simp: pick_def split: if_splits)

lemma pick_None: "pick P cs = None \<longleftrightarrow> (\<forall>(p, c) \<in> set cs. \<not> P c)"
  by (auto simp: pick_def find_None_iff)

lemma pick_cong: "(\<And>p c. (p, c) \<in> set cs \<Longrightarrow> P c \<longleftrightarrow> Q c) \<Longrightarrow> pick P cs = pick Q cs"
  by (auto simp: pick_def intro!: arg_cong [of _ _ "map_option fst"] find_cong)

lemma flat_match_pick: "flat_match r P d = pick P (loaded r d)"
  by (simp add: flat_match_def pick_loaded)

lemma match_spec_pick: "match_spec r spec d vs = pick (\<lambda>c. runtimeMatches c spec) (nested_candidates r d vs)"
  by (induction r spec d vs rule: match_spec.induct)
    (simp_all add: pick_append pick_loaded Let_def split: sum.splits option.splits)

lemma second_pass_pick:
  "second_pass r spec es = pick (\<lambda>c. runtimeMatches c spec) (concat (map (entry_candidates r) es))"
proof (induction es)
  case (Cons e es)
  then show ?case
    by (cases e) (auto simp: pick_append Let_def match_spec_pick flat_match_pick split: option.splits)
qed simp

text \<open>With an explicit version the first pass is a search for the exact name and version.\<close>

lemma match_versions_exact:
  "\<not> wants_latest ver \<Longrightarrow>
   match_versions r name ver d vs acc =
     (case pick (\<lambda>c. rc_Name c = name \<and> rc_Version c = ver) (nested_candidates r d vs) of Some p \<Rightarrow> Inl p | None \<Rightarrow> Inr acc)"
  by (induction r name ver d vs acc rule: match_versions.induct)
    (simp_all add: pick_append pick_loaded Let_def split: sum.splits option.splits)

lemma first_pass_exact:
  "\<not> wants_latest ver \<Longrightarrow>
   first_pass r name ver es = pick (\<lambda>c. rc_Name c = name \<and> rc_Version c = ver) (concat (map (entry_candidates r) es))"
proof (induction es)
  case (Cons e es)
  then show ?case
    by (cases e) (auto simp: pick_append Let_def match_versions_exact flat_match_pick split: option.splits)
qed simp

text \<open>Without one it collects the versions under the name, entry by entry.\<close>

definition named :: "string \<Rightarrow> (string \<times> RuntimeConfig) list \<Rightarrow> (string \<times> string) list" where
  "named name cs = map (\<lambda>(p, c). (p, rc_Version c)) (filter (\<lambda>(p, c). rc_Name c = name) cs)"

lemma named_append [simp]: "named name (xs @ ys) = named name xs @ named name ys"
  by (simp add: named_def)

lemma match_versions_latest:
  "wants_latest ver \<Longrightarrow> match_versions r name ver d vs acc = Inr (acc @ named name (nested_candidates r d vs))"
  by (induction r name ver d vs acc rule: match_versions.induct)
    (simp_all add: named_def loaded_def Let_def split: sum.splits)

lemma SplitN2_at: "CHR ''@'' \<notin> set name \<Longrightarrow> SplitN2 CHR ''@'' (name @ CHR ''@'' # ver) = (name, ver)"
  by (induction name) (auto simp: SplitN2_def)

lemma candidate_loaded: "(p, c) \<in> set (loaded r d) \<Longrightarrow> loadRuntimeConfig r (config_path p) = Inr c"
  by (simp add: loaded_def split: sum.splits)

lemma nested_candidate_loaded: "(p, c) \<in> set (nested_candidates r d vs) \<Longrightarrow> loadRuntimeConfig r (config_path p) = Inr c"
  by (auto simp: nested_candidates_def candidate_loaded split: if_splits)

lemma entry_candidate_loaded: "(p, c) \<in> set (entry_candidates r e) \<Longrightarrow> loadRuntimeConfig r (config_path p) = Inr c"
  by (cases e) (auto simp: candidate_loaded nested_candidate_loaded split: if_splits option.splits)

lemma candidates_loaded: "(p, c) \<in> set (candidates r) \<Longrightarrow> loadRuntimeConfig r (config_path p) = Inr c"
  by (auto simp: candidates_def simp del: entry_candidates_Pair split: option.splits dest: entry_candidate_loaded)

text \<open>Every listed runtime is a candidate.\<close>

lemma list_versions_candidates:
  "i \<in> set (snd (list_versions r e d vs)) \<Longrightarrow>
   \<exists>c. (ri_Path i, c) \<in> set (nested_candidates r d vs) \<and> ri_Name i = rc_Name c \<and> ri_Version i = rc_Version c"
  by (induction r e d vs rule: list_versions.induct)
    (auto simp: Let_def loaded_def runtime_info_def split: if_splits sum.splits prod.splits)

lemma list_entry_candidates:
  "i \<in> set (list_entry r e) \<Longrightarrow>
   \<exists>c. (ri_Path i, c) \<in> set (entry_candidates r e) \<and> ri_Name i = rc_Name c \<and> ri_Version i = rc_Version c"
proof (cases e)
  case (Pair d isDir)
  assume i: "i \<in> set (list_entry r e)"
  let ?d = "Join_path [runtimesPath r, d]"
  from i Pair obtain vs where vs: "isDir" "fs_ReadDir r ?d = Some vs"
    by (cases "fs_ReadDir r ?d") (auto simp: list_entry_def Let_def split: if_splits)
  consider "i \<in> set (snd (list_versions r d ?d vs))"
    | c where "loadRuntimeConfig r (config_path ?d) = Inr c" "i = runtime_info r d ?d c"
    using i Pair vs
    by (cases "list_versions r d ?d vs"; cases "loadRuntimeConfig r (config_path ?d)")
      (auto simp: list_entry_def Let_def split: if_splits)
  then show ?thesis
  proof cases
    case 1
    with list_versions_candidates [OF 1] show ?thesis using Pair vs by auto
  next
    case 2
    then show ?thesis using Pair vs by (auto simp: loaded_def runtime_info_def)
  qed
qed

lemma listed_candidate:
  "ListRuntimes r = Inr infos \<Longrightarrow> i \<in> set infos \<Longrightarrow>
   \<exists>c. (ri_Path i, c) \<in> set (candidates r) \<and> ri_Name i = rc_Name c \<and> ri_Version i = rc_Version c"
proof -
  assume "ListRuntimes r = Inr infos" "i \<in> set infos"
  then obtain es e where "fs_ReadDir r (runtimesPath r) = Some es" "e \<in> set es" "i \<in> set (list_entry r e)"
    by (auto simp: ListRuntimes_def split: if_splits option.splits)
  with list_entry_candidates [OF this(3)] show ?thesis by (auto simp: candidates_def)
qed

lemma find_directory_exact:
  assumes "fs_ReadDir r (runtimesPath r) = Some es" "CHR ''@'' \<notin> set name" "name \<notin> {[], ''unknown''}"
    and ver: "ver \<notin> {[], ''latest'', ''unknown''}"
  shows "FindRuntimeDirectory r (name @ ''@'' @ ver) =
    (case pick (\<lambda>c. rc_Name c = name \<and> rc_Version c = ver) (candidates r) of
       Some p \<Rightarrow> Inr p
     | None \<Rightarrow>
         (case pick (\<lambda>c. rc_Language c = name \<and> rc_Version c = ver) (candidates r) of
            Some p \<Rightarrow> Inr p
          | None \<Rightarrow> Inl (SpecNotFound (name @ ''@'' @ ver))))"
proof -
  let ?spec = "parseRuntimeSpec (name @ ''@'' @ ver)" and ?E = "\<lambda>c. rc_Name c = name \<and> rc_Version c = ver"
  have cs: "concat (map (entry_candidates r) es) = candidates r" using assms(1) by (simp add: candidates_def)
  have w: "\<not> wants_latest ver" using ver by (simp add: wants_latest_def)
  have sp: "rs_Language ?spec = name" "rs_Version ?spec = ver"
    using SplitN2_at [OF assms(2), of ver] by (simp_all add: parseRuntimeSpec_def Let_def)
  have "pick (\<lambda>c. runtimeMatches c ?spec) (candidates r) = pick (\<lambda>c. rc_Language c = name \<and> rc_Version c = ver) (candidates r)"
    if none: "pick ?E (candidates r) = None"
  proof (rule pick_cong)
    fix p c assume "(p, c) \<in> set (candidates r)"
    then have "\<not> ?E c" using none [unfolded pick_None] by auto
    then show "runtimeMatches c ?spec \<longleftrightarrow> rc_Language c = name \<and> rc_Version c = ver"
      using assms(3) ver unfolding runtimeMatches_def version_ok_def sp by auto
  qed
  then show ?thesis
    using SplitN2_at [OF assms(2), of ver] assms(1)
    by (auto simp: FindRuntimeDirectory_def first_pass_exact [OF w] second_pass_pick cs split: option.splits)
qed

text \<open>
  A specification \<open>name@version\<close> resolves to the first installed runtime with exactly that name and version, or,
  when there is none, to the first whose language is that name and whose version is that version, or to an error. So what
  is resolved has the requested version and suits the architecture of the node, and every listed runtime resolves by its
  name and version.
\<close>

theorem resolve_explicit_version:
  assumes "fs_ReadDir r (runtimesPath r) = Some es" "CHR ''@'' \<notin> set name" "name \<notin> {[], ''unknown''}"
    "ver \<notin> {[], ''latest'', ''unknown''}"
  defines "spec \<equiv> name @ ''@'' @ ver"
  shows "FindRuntimeDirectory r spec =
      (case pick (\<lambda>c. rc_Name c = name \<and> rc_Version c = ver) (candidates r) of
         Some p \<Rightarrow> Inr p
       | None \<Rightarrow>
           (case pick (\<lambda>c. rc_Language c = name \<and> rc_Version c = ver) (candidates r) of
              Some p \<Rightarrow> Inr p
            | None \<Rightarrow> Inl (SpecNotFound spec))) \<and>
    (ResolveRuntimeDirectory r spec = Inr (p, c) \<longrightarrow>
       rc_Version c = ver \<and> (rc_Name c = name \<or> rc_Language c = name) \<and>
       (Architectures (rc_Requirements c) = [] \<or> GOARCH r \<in> normalizeArch ` set (Architectures (rc_Requirements c)))) \<and>
    (ListRuntimes r = Inr infos \<and> i \<in> set infos \<and> ri_Name i = name \<and> ri_Version i = ver \<longrightarrow>
       (\<exists>q d. FindRuntimeDirectory r spec = Inr q \<and> loadRuntimeConfig r (config_path q) = Inr d \<and> rc_Name d = name \<and> rc_Version d = ver))"
proof (intro conjI impI)
  note F = find_directory_exact [OF assms(1-4), folded spec_def]
  show "FindRuntimeDirectory r spec =
      (case pick (\<lambda>c. rc_Name c = name \<and> rc_Version c = ver) (candidates r) of
         Some p \<Rightarrow> Inr p
       | None \<Rightarrow> (case pick (\<lambda>c. rc_Language c = name \<and> rc_Version c = ver) (candidates r) of
              Some p \<Rightarrow> Inr p | None \<Rightarrow> Inl (SpecNotFound spec)))"
    by (rule F)
  {
    assume "ResolveRuntimeDirectory r spec = Inr (p, c)"
    then have p: "FindRuntimeDirectory r spec = Inr p" and c: "loadRuntimeConfig r (config_path p) = Inr c"
      and ok: "validateRuntime r c = Inr ()"
      by (auto simp: ResolveRuntimeDirectory_def split: sum.splits)
    obtain d where "(p, d) \<in> set (candidates r)" "rc_Version d = ver" "rc_Name d = name \<or> rc_Language d = name"
      using p unfolding F by (auto split: option.splits dest: pick_Some)
    with c show "rc_Version c = ver" "rc_Name c = name \<or> rc_Language c = name"
      by (auto dest: candidates_loaded)
    show "Architectures (rc_Requirements c) = [] \<or> GOARCH r \<in> normalizeArch ` set (Architectures (rc_Requirements c))"
      using ok by (simp add: validateRuntime_def Let_def list_ex_iff split: if_splits) (metis imageI)
  }
  assume "ListRuntimes r = Inr infos \<and> i \<in> set infos \<and> ri_Name i = name \<and> ri_Version i = ver"
  then obtain c where "(ri_Path i, c) \<in> set (candidates r)" "rc_Name c = name" "rc_Version c = ver"
    using listed_candidate by metis
  then obtain q where q: "pick (\<lambda>c. rc_Name c = name \<and> rc_Version c = ver) (candidates r) = Some q"
    by (metis (mono_tags, lifting) not_None_eq case_prodD pick_None)
  then show "\<exists>q d. FindRuntimeDirectory r spec = Inr q \<and> loadRuntimeConfig r (config_path q) = Inr d \<and> rc_Name d = name \<and> rc_Version d = ver"
    unfolding F using pick_Some [OF q] by (auto dest: candidates_loaded)
qed

text \<open>A node with two versions of one runtime, for the examples.\<close>

definition example_config :: "string \<Rightarrow> string \<Rightarrow> RuntimeConfig" where
  "example_config name ver =
     \<lparr>rc_Name = name, rc_Language = ''python'', rc_LanguageVersion = ''3.11'', rc_Version = ver, rc_Description = [],
      rc_Mounts = [], rc_Environment = None,
      rc_Requirements = \<lparr>Architectures = [''x86_64''], req_GPU = False, CUDAVersion = []\<rparr>,
      rc_Packages = [], rc_Libraries = [], rc_BuildInfo = \<lparr>BuiltAt = [], BuiltWith = [], bi_Platform = []\<rparr>,
      rc_OriginalYAML = []\<rparr>"

definition example_node :: node where
  "example_node =
     \<lparr>fs_DirExists = (\<lambda>p. True),
      fs_ReadDir = [''/rt'' \<mapsto> [(''py'', True), (''notes'', False)], ''/rt/py'' \<mapsto> [(''a'', True), (''b'', True)]],
      fs_Stat = (\<lambda>p. True),
      fs_ReadFile = [''/rt/py/a/runtime.yml'' \<mapsto> ''1.3.1'', ''/rt/py/b/runtime.yml'' \<mapsto> ''1.10.0''],
      yaml_Unmarshal = (\<lambda>data. Some (example_config ''py'' data)),
      fs_Walk = (\<lambda>p. []), runtimesPath = ''/rt'', GOARCH = ''amd64''\<rparr>"

lemma example_paths:
  "Join_path [''/rt'', ''py''] = ''/rt/py''" "Join_path [''/rt/py'', ''a''] = ''/rt/py/a''" "Join_path [''/rt/py'', ''b''] = ''/rt/py/b''"
  "config_path ''/rt/py'' = ''/rt/py/runtime.yml''"
  "config_path ''/rt/py/a'' = ''/rt/py/a/runtime.yml''" "config_path ''/rt/py/b'' = ''/rt/py/b/runtime.yml''"
  by code_simp+

lemma example_candidates:
  "candidates example_node = [(''/rt/py/a'', example_config ''py'' ''1.3.1''), (''/rt/py/b'', example_config ''py'' ''1.10.0'')]"
  by (simp add: candidates_def example_node_def example_paths loaded_def loadRuntimeConfig_def)

theorem resolve_explicit_version_witness:
  "FindRuntimeDirectory example_node ''py@1.10.0'' = Inr ''/rt/py/b''"
proof -
  have "fs_ReadDir example_node (runtimesPath example_node) = Some [(''py'', True), (''notes'', False)]"
    by (simp add: example_node_def)
  from resolve_explicit_version [OF this, of "''py''" "''1.10.0''"]
  show ?thesis by (simp add: example_candidates pick_def example_config_def)
qed

section \<open>The latest version\<close>

text \<open>\<open>at_most w v\<close>: if \<open>w\<close> is a semantic version then so is \<open>v\<close>, and it is not smaller.\<close>

definition at_most :: "string \<Rightarrow> string \<Rightarrow> bool" where
  "at_most w v \<longleftrightarrow> (\<forall>sw. NewVersion w = Inr sw \<longrightarrow> (\<exists>sv. NewVersion v = Inr sv \<and> sw \<le> sv))"

lemma at_most_trans: "at_most w v \<Longrightarrow> at_most v u \<Longrightarrow> at_most w u"
  by (force simp: at_most_def)

definition is_latest :: "(string \<times> string) list \<Rightarrow> string \<Rightarrow> bool" where
  "is_latest vs p \<longleftrightarrow> (\<exists>v. (p, v) \<in> set vs \<and> (\<forall>(q, w) \<in> set vs. at_most w v))"

text \<open>The state of the loop after the versions \<open>seen\<close>.\<close>

definition loop_state :: "(string \<times> string) list \<Rightarrow> Version option \<Rightarrow> string \<Rightarrow> bool" where
  "loop_state seen l p \<longleftrightarrow>
     (case l of
        None \<Rightarrow> (\<forall>(q, w) \<in> set seen. \<not> is_ok (NewVersion w)) \<and> (if seen = [] then p = [] else \<exists>v. (p, v) \<in> set seen)
      | Some sv \<Rightarrow> (\<exists>v. (p, v) \<in> set seen \<and> NewVersion v = Inr sv \<and> (\<forall>(q, w) \<in> set seen. at_most w v)))"

lemma loop_state_latest: "loop_state seen l p \<Longrightarrow> seen \<noteq> [] \<Longrightarrow> is_latest seen p"
  by (fastforce simp: loop_state_def is_latest_def at_most_def is_ok_def split: option.splits sum.splits)

lemma loop_state_step:
  assumes st: "loop_state seen l p" and ne: "\<forall>(q, w) \<in> set (seen @ [(path, ver)]). q \<noteq> []"
  shows "case NewVersion ver of
      Inl _ \<Rightarrow> loop_state (seen @ [(path, ver)]) l (if p = [] then path else p)
    | Inr sv \<Rightarrow>
        (case l of
           None \<Rightarrow> loop_state (seen @ [(path, ver)]) (Some sv) path
         | Some m \<Rightarrow> if Version_GreaterThan sv m then loop_state (seen @ [(path, ver)]) (Some sv) path
                      else loop_state (seen @ [(path, ver)]) l p)"
proof (cases "NewVersion ver")
  case (Inl e)
  then show ?thesis using st ne by (auto simp: loop_state_def at_most_def split: option.splits if_splits)
next
  case (Inr sv)
  show ?thesis
  proof (cases l)
    case None
    then show ?thesis using st Inr by (fastforce simp: loop_state_def at_most_def is_ok_def split: sum.splits)
  next
    case (Some m)
    then obtain v where v: "(p, v) \<in> set seen" "NewVersion v = Inr m" "\<forall>(q, w) \<in> set seen. at_most w v"
      using st by (auto simp: loop_state_def)
    have "loop_state (seen @ [(path, ver)]) (Some sv) path" if "m < sv"
    proof -
      have "at_most v ver" using v(2) Inr that by (simp add: at_most_def)
      then have "\<forall>(q, w) \<in> set (seen @ [(path, ver)]). at_most w ver"
        using v(3) at_most_trans by (auto simp: at_most_def [of ver ver])
      then show ?thesis using Inr by (auto simp: loop_state_def)
    qed
    moreover have "loop_state (seen @ [(path, ver)]) (Some m) p" if "sv \<le> m"
    proof -
      have "at_most ver v" using v(2) Inr that by (simp add: at_most_def)
      then show ?thesis using v by (auto simp: loop_state_def)
    qed
    ultimately show ?thesis using Inr Some by (auto simp: GreaterThan_iff not_less)
  qed
qed

lemma latest_loop_latest:
  "loop_state seen l p \<Longrightarrow> \<forall>(q, w) \<in> set (seen @ vs). q \<noteq> [] \<Longrightarrow> seen @ vs \<noteq> [] \<Longrightarrow> is_latest (seen @ vs) (latest_loop vs l p)"
proof (induction vs l p arbitrary: seen rule: latest_loop.induct)
  case (1 l p)
  then show ?case using loop_state_latest by simp
next
  case (2 path ver vs l p)
  have step: "\<forall>(q, w) \<in> set (seen @ [(path, ver)]). q \<noteq> []" using "2.prems"(2) by auto
  show ?case
    using loop_state_step [OF "2.prems"(1) step] "2.IH" [where seen = "seen @ [(path, ver)]"] "2.prems"(2)
    by (auto split: sum.splits option.splits if_splits)
qed

lemma findLatestVersion_latest:
  assumes "vs \<noteq> []" "\<forall>(q, w) \<in> set vs. q \<noteq> []"
  shows "is_latest vs (findLatestVersion vs)"
proof (cases "length vs = 1")
  case True
  then obtain p v where "vs = [(p, v)]" by (cases vs) auto
  then show ?thesis by (simp add: findLatestVersion_def is_latest_def at_most_def)
next
  case False
  then show ?thesis
    using latest_loop_latest [of "[]" None "[]" vs] assms by (simp add: findLatestVersion_def loop_state_def)
qed

lemma nested_paths: "d \<noteq> [] \<Longrightarrow> (p, c) \<in> set (nested_candidates r d vs) \<Longrightarrow> p \<noteq> []"
  by (auto simp: nested_candidates_def loaded_def split: if_splits sum.splits)

lemma named_iff: "(p, v) \<in> set (named name cs) \<longleftrightarrow> (\<exists>c. (p, c) \<in> set cs \<and> rc_Name c = name \<and> rc_Version c = v)"
  by (auto simp: named_def image_iff)

text \<open>An entry with no runtime of the name is passed over.\<close>

lemma first_pass_skip:
  "wants_latest ver \<Longrightarrow> \<forall>(p, c) \<in> set (concat (map (entry_candidates r) pre)). rc_Name c \<noteq> name \<Longrightarrow>
   first_pass r name ver (pre @ es) = first_pass r name ver es"
proof (induction pre)
  case (Cons e pre)
  obtain d isDir where e: "e = (d, isDir)" by (cases e)
  let ?d = "Join_path [runtimesPath r, d]"
  have IH: "first_pass r name ver (pre @ es) = first_pass r name ver es"
    using Cons by auto
  show ?case
  proof (cases "isDir \<and> fs_ReadDir r ?d \<noteq> None")
    case True
    then obtain vs where vs: "fs_ReadDir r ?d = Some vs" by auto
    have none: "\<forall>(p, c) \<in> set (nested_candidates r ?d vs @ loaded r ?d). rc_Name c \<noteq> name"
      using Cons.prems(2) True vs by (auto simp: e)
    then have "named name (nested_candidates r ?d vs) = []"
      by (auto simp: named_def filter_empty_conv)
    moreover have "flat_match r (\<lambda>c. rc_Name c = name \<and> (wants_latest ver \<or> rc_Version c = ver)) ?d = None"
      unfolding flat_match_pick pick_None using none by auto
    ultimately show ?thesis
      using True vs IH Cons.prems(1) by (simp add: e Let_def match_versions_latest)
  next
    case False
    then show ?thesis using IH by (auto simp: e Let_def)
  qed
qed simp

text \<open>
  A name without a version (or with \<open>@latest\<close>) resolves to the latest version. Take the first runtime directory that
  has a runtime of the name in a version directory (none before it has the name). What is found there is a runtime
  of that name; if any of the versions is a semantic version then the one found is, and none of the others is greater.
\<close>

theorem resolve_latest_version:
  assumes es: "fs_ReadDir r (runtimesPath r) = Some (pre @ (d, True) # post)" and root: "runtimesPath r \<noteq> []"
    and name: "CHR ''@'' \<notin> set name" and spec: "spec = name \<or> spec = name @ ''@latest''"
    and before: "\<forall>(p, c) \<in> set (concat (map (entry_candidates r) pre)). rc_Name c \<noteq> name"
    and vs: "fs_ReadDir r (Join_path [runtimesPath r, d]) = Some vs"
    and some: "named name (nested_candidates r (Join_path [runtimesPath r, d]) vs) \<noteq> []"
  shows "\<exists>p c. FindRuntimeDirectory r spec = Inr p \<and> (p, c) \<in> set (nested_candidates r (Join_path [runtimesPath r, d]) vs) \<and>
    rc_Name c = name \<and>
    (\<forall>(q, c') \<in> set (nested_candidates r (Join_path [runtimesPath r, d]) vs). \<forall>w.
       rc_Name c' = name \<and> NewVersion (rc_Version c') = Inr w \<longrightarrow> (\<exists>v. NewVersion (rc_Version c) = Inr v \<and> w \<le> v))"
proof -
  let ?d = "Join_path [runtimesPath r, d]"
  let ?N = "named name (nested_candidates r ?d vs)"
  have pv: "\<exists>ver. wants_latest ver \<and> (if CHR ''@'' \<in> set spec then SplitN2 CHR ''@'' spec else (spec, [])) = (name, ver)"
    using spec name SplitN2_at [OF name, of "''latest''"] by (auto simp: wants_latest_def)
  then obtain ver where ver: "wants_latest ver" "(if CHR ''@'' \<in> set spec then SplitN2 CHR ''@'' spec else (spec, [])) = (name, ver)"
    by blast
  have ne: "p \<noteq> []" if "(p, c) \<in> set (nested_candidates r ?d vs)" for p c
    using nested_paths [OF _ that] root by simp
  then have "\<forall>(q, w) \<in> set ?N. q \<noteq> []"
    by (metis (mono_tags, lifting) case_prodI2 named_iff)
  then have L: "is_latest ?N (findLatestVersion ?N)"
    by (rule findLatestVersion_latest [OF some])
  then obtain v where v: "(findLatestVersion ?N, v) \<in> set ?N" "\<forall>(q, w) \<in> set ?N. at_most w v"
    by (auto simp: is_latest_def)
  then obtain c where c: "(findLatestVersion ?N, c) \<in> set (nested_candidates r ?d vs)" "rc_Name c = name" "rc_Version c = v"
    by (auto simp: named_iff)
  have "findLatestVersion ?N \<noteq> []" using c(1) ne by blast
  then have "FindRuntimeDirectory r spec = Inr (findLatestVersion ?N)"
    using es some vs unfolding FindRuntimeDirectory_def ver(2)
    by (simp add: first_pass_skip [OF ver(1) before] Let_def match_versions_latest [OF ver(1)] ver(1))
  then show ?thesis
    using c v(2) by (fastforce simp: named_iff at_most_def)
qed

theorem resolve_latest_version_witness:
  "FindRuntimeDirectory example_node ''py'' = Inr ''/rt/py/b''"
proof -
  have ex: "fs_ReadDir example_node (runtimesPath example_node) = Some ([] @ (''py'', True) # [(''notes'', False)])"
    "fs_ReadDir example_node (Join_path [runtimesPath example_node, ''py'']) = Some [(''a'', True), (''b'', True)]"
    "nested_candidates example_node (Join_path [runtimesPath example_node, ''py'']) [(''a'', True), (''b'', True)] =
       [(''/rt/py/a'', example_config ''py'' ''1.3.1''), (''/rt/py/b'', example_config ''py'' ''1.10.0'')]"
    by (simp_all add: example_node_def example_paths loaded_def loadRuntimeConfig_def)
  have "NewVersion ''1.3.1'' = Inr (Version 1 3 1) \<and> NewVersion ''1.10.0'' = Inr (Version 1 10 0) \<and>
      \<not> Version 1 10 0 \<le> Version 1 3 1"
    by code_simp
  then show ?thesis
    using resolve_latest_version [OF ex(1) _ _ _ _ ex(2), of "''py''" "''py''"] unfolding ex(3)
    by (auto simp: example_node_def example_config_def named_def)
qed

text \<open>
  The CUDA version inferred from a name depends on the order in which the language ranges over the table:
  for a name with \<open>cuda12.1\<close> both orders are possible and give different versions.
\<close>

lemma infer_depends_on_order:
  "\<exists>ks ks'. range_order ks cudaVersionMap \<and> range_order ks' cudaVersionMap \<and>
     inferCUDAVersion ks ''py-cuda12.1'' = ''12.1'' \<and> inferCUDAVersion ks' ''py-cuda12.1'' = ''12.0''"
proof -
  let ?k = "[''cuda12.0'', ''cuda12.2'', ''cuda11'', ''cuda11.8'', ''cuda11.7'', ''cuda11.6'', ''pytorch'', ''tensorflow'']"
  have "range_order (''cuda12.1'' # ''cuda12'' # ?k) cudaVersionMap" "range_order (''cuda12'' # ''cuda12.1'' # ?k) cudaVersionMap"
    by (auto simp: range_order_def cudaVersionMap_def split: if_splits)
  moreover have "inferCUDAVersion (''cuda12.1'' # ''cuda12'' # ?k) ''py-cuda12.1'' = ''12.1''"
    "inferCUDAVersion (''cuda12'' # ''cuda12.1'' # ?k) ''py-cuda12.1'' = ''12.0''"
    by code_simp+
  ultimately show ?thesis by blast
qed

text \<open>A runtime whose name is free of the patterns gets the default, whatever the order.\<close>

lemma infer_default:
  assumes "range_order ks cudaVersionMap" "\<forall>k \<in> dom cudaVersionMap. \<not> Contains (ToLower name) k"
  shows "inferCUDAVersion ks name = ''11.8''"
proof -
  have "find (Contains (ToLower name)) ks = None"
    unfolding find_None_iff using assms by (simp add: range_order_def)
  then show ?thesis by (simp add: inferCUDAVersion_def)
qed

end
