(* ===== verification/Building.thy ===== *)
theory Building
  imports Domain
begin

unbundle bit_operations_syntax

text \<open>
  How a request becomes a job: the shared validators (\<open>internal/joblet/core/validation/validator.go\<close>), the identifier
  generator (\<open>internal/joblet/core/job/id_generator.go\<close>) and the job builder
  (\<open>internal/joblet/core/job/builder.go\<close>), with \<open>time.ParseDuration\<close> as the builder uses it.

  The kernel's answers (the file of identifiers, the random bytes) are arguments. A panic is the value \<open>None\<close>.
\<close>

section \<open>Validators (validator.go)\<close>

datatype validation_error =
    EnvNameInvalid string
  | EnvValueTooLong string nat
  | BasePathEmpty
  | PathEscapes string
  | BasePathInvalid
  | TargetPathInvalid

definition env_start :: "char \<Rightarrow> bool" where
  "env_start c \<longleftrightarrow> is_lower c \<or> is_upper c \<or> c = CHR ''_''"

definition env_char :: "char \<Rightarrow> bool" where
  "env_char c \<longleftrightarrow> is_lower c \<or> is_upper c \<or> is_digit c \<or> c = CHR ''_''"

definition validEnvVarRegex :: re where
  "validEnvVarRegex = Seq (Cls env_start) (Star (Cls env_char))"

definition ValidateEnvironmentVariable :: "string \<Rightarrow> string \<Rightarrow> (validation_error, unit) result" where
  "ValidateEnvironmentVariable key val =
     (if \<not> rmatch validEnvVarRegex key then Inl (EnvNameInvalid key)
      else if length val > 32768 then Inl (EnvValueTooLong key (length val))
      else Inr ())"

text \<open>\<open>cwd\<close> is what \<open>os.Getwd\<close> gives to \<open>filepath.Abs\<close>.\<close>

definition ValidatePathWithinBase :: "string option \<Rightarrow> string \<Rightarrow> string \<Rightarrow> (validation_error, string) result" where
  "ValidatePathWithinBase cwd basePath targetPath =
     (if basePath = [] then Inl BasePathEmpty
      else if IsAbs targetPath then Inl (PathEscapes targetPath)
      else (let fullPath = Join_path [basePath, targetPath] in
        case Abs_path cwd basePath of
          None \<Rightarrow> Inl BasePathInvalid
        | Some absBase \<Rightarrow>
            (case Abs_path cwd fullPath of
               None \<Rightarrow> Inl TargetPathInvalid
             | Some absFull \<Rightarrow>
                 if absFull \<noteq> absBase \<and> \<not> HasPrefix absFull (absBase @ ''/'') then Inl (PathEscapes targetPath)
                 else Inr absFull)))"

lemma ValidateEnvironmentVariable_ok:
  "ValidateEnvironmentVariable key val = Inr () \<longleftrightarrow>
     key \<noteq> [] \<and> env_start (hd key) \<and> list_all env_char (tl key) \<and> length val \<le> 32768"
proof (cases key)
  case Nil
  then show ?thesis by (simp add: ValidateEnvironmentVariable_def validEnvVarRegex_def)
next
  case (Cons c t)
  then show ?thesis
    by (auto simp: ValidateEnvironmentVariable_def validEnvVarRegex_def rmatch_in_lang in_lang_cls_seq
        simp del: in_lang_simps(4) rmatch.simps(2))
qed

text \<open>An accepted name cannot break the \<open>KEY=VALUE\<close> form of the process environment.\<close>

lemma env_name_no_equals: "ValidateEnvironmentVariable key val = Inr () \<Longrightarrow> CHR ''='' \<notin> set key"
  by (cases key) (auto simp: ValidateEnvironmentVariable_ok env_start_def env_char_def char_class_defs list_all_iff)

lemma Abs_path_clean:
  assumes "Abs_path cwd p = Some q" "\<forall>w. cwd = Some w \<longrightarrow> IsAbs w"
  shows "IsAbs q \<and> ''..'' \<notin> set (path_elems q)"
proof (cases "IsAbs p")
  case True
  then show ?thesis using assms(1) by (auto simp: Abs_path_def Clean_abs_no_dotdot)
next
  case False
  then obtain w where w: "cwd = Some w" "q = Join_path [w, p]" using assms(1) by (auto simp: Abs_path_def)
  then have "IsAbs w" using assms(2) by simp
  then have "w \<noteq> []" and "IsAbs (w @ ''/'' @ p)" by (auto simp: IsAbs_not_Nil IsAbs_append)
  then show ?thesis using w Clean_abs_no_dotdot [of "w @ ''/'' @ p"] by (simp add: Join_path_two)
qed

lemma ValidatePathWithinBase_sound:
  assumes "\<forall>w. cwd = Some w \<longrightarrow> IsAbs w" and ok: "ValidatePathWithinBase cwd basePath target = Inr p"
  shows "\<exists>absBase rest. Abs_path cwd basePath = Some absBase \<and> path_elems p = path_elems absBase @ rest \<and> IsAbs p \<and> ''..'' \<notin> set (path_elems p)"
proof -
  obtain absBase where b: "Abs_path cwd basePath = Some absBase" "Abs_path cwd (Join_path [basePath, target]) = Some p"
    "p = absBase \<or> HasPrefix p (absBase @ ''/'')"
    using ok by (auto simp: ValidatePathWithinBase_def Let_def split: if_splits option.splits)
  have "\<exists>rest. path_elems p = path_elems absBase @ rest"
    using b(3) by (auto simp: HasPrefix_iff path_elems_append)
  then show ?thesis using b(1) Abs_path_clean [OF b(2) assms(1)] by blast
qed

text \<open>
  No path traversal: an accepted target is an absolute path below the base (its elements start with those of
  the base and none is \<open>..\<close>). Conversely a relative target that does not climb out is accepted, and its path is that of the base followed by
  its own, for every absolute base except the root directory.
\<close>

theorem path_within_base:
  assumes "\<forall>w. cwd = Some w \<longrightarrow> IsAbs w"
  shows "(ValidatePathWithinBase cwd basePath target = Inr p \<longrightarrow>
      (\<exists>absBase rest. Abs_path cwd basePath = Some absBase \<and> path_elems p = path_elems absBase @ rest \<and>
         IsAbs p \<and> ''..'' \<notin> set (path_elems p))) \<and>
    (IsAbs basePath \<and> Clean basePath \<noteq> ''/'' \<and> \<not> IsAbs target \<and> ''..'' \<notin> set (path_elems (Clean target)) \<longrightarrow>
      (\<exists>p. ValidatePathWithinBase cwd basePath target = Inr p \<and> path_elems p = path_elems (Clean basePath) @ path_elems (Clean target)))"
proof (intro conjI impI)
  assume "ValidatePathWithinBase cwd basePath target = Inr p"
  then show "\<exists>absBase rest. Abs_path cwd basePath = Some absBase \<and> path_elems p = path_elems absBase @ rest \<and>
         IsAbs p \<and> ''..'' \<notin> set (path_elems p)"
    by (rule ValidatePathWithinBase_sound [OF assms])
next
  assume a: "IsAbs basePath \<and> Clean basePath \<noteq> ''/'' \<and> \<not> IsAbs target \<and> ''..'' \<notin> set (path_elems (Clean target))"
  then have ne: "basePath \<noteq> []" by (auto simp: IsAbs_def HasPrefix_def)
  let ?full = "basePath @ ''/'' @ target"
  have elems: "path_elems (Clean ?full) = path_elems (Clean basePath) @ path_elems (Clean target)"
    using Join_path_below [of basePath target] a ne by (simp add: Join_path_two)
  have absF: "IsAbs ?full" using a by (simp add: IsAbs_append)
  have full: "Abs_path cwd (Join_path [basePath, target]) = Some (Clean ?full)"
    using absF ne Clean_idem [OF absF] by (simp add: Join_path_two Abs_path_def)
  have baseR: "Clean basePath = ''/'' @ Join ''/'' (path_elems (Clean basePath))" "path_elems (Clean basePath) \<noteq> []"
    using Clean_render [OF ne] a by (auto simp: render_def)
  have "Clean ?full = ''/'' @ Join ''/'' (path_elems (Clean ?full))"
    using Clean_render [of ?full] absF by (simp add: render_def)
  then have "Clean ?full = Clean basePath @ (if path_elems (Clean target) = [] then [] else ''/'' @ Join ''/'' (path_elems (Clean target)))"
    unfolding elems using baseR by (auto simp: Join_append)
  then have "Clean ?full = Clean basePath \<or> HasPrefix (Clean ?full) (Clean basePath @ ''/'')"
    by (auto simp: HasPrefix_iff)
  then have "ValidatePathWithinBase cwd basePath target = Inr (Clean ?full)"
    using a ne full by (auto simp: ValidatePathWithinBase_def Let_def Abs_path_def)
  then show "\<exists>p. ValidatePathWithinBase cwd basePath target = Inr p \<and> path_elems p = path_elems (Clean basePath) @ path_elems (Clean target)"
    using elems by blast
qed

theorem path_within_base_witness:
  "\<exists>p. ValidatePathWithinBase None ''/opt/jobs/7/work'' ''a/../b/./c'' = Inr p \<and>
     path_elems p = path_elems (Clean ''/opt/jobs/7/work'') @ [''b'', ''c'']"
proof -
  have "IsAbs ''/opt/jobs/7/work'' \<and> Clean ''/opt/jobs/7/work'' \<noteq> ''/'' \<and> \<not> IsAbs ''a/../b/./c'' \<and>
      path_elems (Clean ''a/../b/./c'') = [''b'', ''c'']"
    by code_simp
  then show ?thesis using path_within_base [of None "''/opt/jobs/7/work''" "''a/../b/./c''"] by auto
qed

section \<open>Identifiers of jobs (id\_generator.go)\<close>

text \<open>
  What the kernel answers to one request: the contents of \<open>/proc/sys/kernel/random/uuid\<close> (\<open>None\<close> if it cannot be
  opened or read), whether \<open>/dev/urandom\<close> opens, and the sixteen bytes read from it (\<open>None\<close> if the read fails).
\<close>

record kernel_random =
  kr_uuid_file :: "string option"
  kr_urandom_opens :: bool
  kr_bytes :: "8 word list option"

record UUIDGenerator =
  fallbackFD_open :: bool

definition NewUUIDGenerator :: "string \<Rightarrow> string \<Rightarrow> UUIDGenerator" where
  "NewUUIDGenerator prefix nodeID = \<lparr>fallbackFD_open = False\<rparr>"

datatype uuid_error = UUIDReadFailed | UUIDBadLength nat | UrandomOpenFailed | UrandomReadFailed

definition readKernelUUID :: "kernel_random \<Rightarrow> (uuid_error, string) result" where
  "readKernelUUID k =
     (case kr_uuid_file k of
        None \<Rightarrow> Inl UUIDReadFailed
      | Some bytes \<Rightarrow>
          (let uuid = TrimSpace bytes in if length uuid \<noteq> 36 then Inl (UUIDBadLength (length uuid)) else Inr uuid))"

text \<open>The verb \<open>%x\<close> of a byte slice: two lower case digits per byte. The widths of the format are those of the slices.\<close>

definition hex_digit :: "nat \<Rightarrow> char" where
  "hex_digit n = (if n < 10 then char_of (n + 48) else char_of (n + 87))"

definition hex_byte :: "8 word \<Rightarrow> string" where
  "hex_byte b = [hex_digit (unat (drop_bit 4 b)), hex_digit (unat (b AND 15))]"

definition hex :: "8 word list \<Rightarrow> string" where
  "hex bs = concat (map hex_byte bs)"

definition set_version :: "8 word list \<Rightarrow> 8 word list" where
  "set_version bs = bs[6 := (bs ! 6 AND 0x0f) OR 0x40, 8 := (bs ! 8 AND 0x3f) OR 0x80]"

definition format_uuid :: "8 word list \<Rightarrow> string" where
  "format_uuid bs =
     hex (take 4 bs) @ ''-'' @ hex (take 2 (drop 4 bs)) @ ''-'' @ hex (take 2 (drop 6 bs)) @ ''-'' @
     hex (take 2 (drop 8 bs)) @ ''-'' @ hex (take 6 (drop 10 bs))"

definition generateUrandomUUID :: "kernel_random \<Rightarrow> UUIDGenerator \<Rightarrow> UUIDGenerator \<times> (uuid_error, string) result" where
  "generateUrandomUUID k g =
     (if \<not> fallbackFD_open g \<and> \<not> kr_urandom_opens k then (g, Inl UrandomOpenFailed)
      else (g\<lparr>fallbackFD_open := True\<rparr>,
            case kr_bytes k of None \<Rightarrow> Inl UrandomReadFailed | Some randomBytes \<Rightarrow> Inr (format_uuid (set_version randomBytes))))"

definition generateKernelUUID :: "kernel_random \<Rightarrow> UUIDGenerator \<Rightarrow> UUIDGenerator \<times> string option" where
  "generateKernelUUID k g =
     (case readKernelUUID k of
        Inr uuid \<Rightarrow> (g, Some uuid)
      | Inl _ \<Rightarrow> (case generateUrandomUUID k g of (g', Inl err) \<Rightarrow> (g', None) | (g', Inr uuid) \<Rightarrow> (g', Some uuid)))"

definition Next :: "kernel_random \<Rightarrow> UUIDGenerator \<Rightarrow> UUIDGenerator \<times> string option" where
  "Next k g = generateKernelUUID k g"

text \<open>The shape of RFC 4122, version 4: digits and dashes in place, the version and the variant.\<close>

definition is_hex :: "char \<Rightarrow> bool" where
  "is_hex c \<longleftrightarrow> c \<in> hex_digit ` {..<16}"

definition uuid_v4 :: "string \<Rightarrow> bool" where
  "uuid_v4 s \<longleftrightarrow>
     length s = 36 \<and> (\<forall>i \<in> {8, 13, 18, 23}. s ! i = CHR ''-'') \<and>
     (\<forall>i < 36. i \<notin> {8, 13, 18, 23} \<longrightarrow> is_hex (s ! i)) \<and>
     s ! 14 = CHR ''4'' \<and> s ! 19 \<in> {CHR ''8'', CHR ''9'', CHR ''a'', CHR ''b''}"

lemma hex_digit_inj: "i < 16 \<Longrightarrow> j < 16 \<Longrightarrow> hex_digit i = hex_digit j \<longleftrightarrow> i = j"
proof -
  assume ij: "i < 16" "j < 16"
  have v: "of_char (hex_digit n) = (if n < 10 then n + 48 else n + 87 :: nat)" if "n < 16" for n
    using that by (simp add: hex_digit_def)
  have "i = j" if "hex_digit i = hex_digit j"
  proof -
    have "(if i < 10 then i + 48 else i + 87) = (if j < 10 then j + 48 else j + 87)"
      using v [OF ij(1)] v [OF ij(2)] that by metis
    then show ?thesis using ij by (simp split: if_splits)
  qed
  then show ?thesis by auto
qed

lemma and_15: "b AND 15 = take_bit 4 (b :: 8 word)"
  by (simp add: take_bit_eq_mask mask_eq_exp_minus_1)

lemma nibble_bounds: "unat (drop_bit 4 (b :: 8 word)) < 16" "unat (b AND 15) < 16"
proof -
  have "unat b < 256" using unsigned_less [of b] by simp
  then show "unat (drop_bit 4 b) < 16" by (simp add: drop_bit_eq_div unat_div less_mult_imp_div_less)
  show "unat (b AND 15) < 16" unfolding and_15 by (simp add: take_bit_eq_mod unat_mod)
qed

lemma hex_byte_inj: "hex_byte a = hex_byte b \<longleftrightarrow> a = b"
proof
  assume "hex_byte a = hex_byte b"
  then have "unat (drop_bit 4 a) = unat (drop_bit 4 b)" "unat (a AND 15) = unat (b AND 15)"
    using nibble_bounds [of a] nibble_bounds [of b] by (simp_all add: hex_byte_def hex_digit_inj)
  then have "drop_bit 4 a = drop_bit 4 b" "take_bit 4 a = take_bit 4 b"
    unfolding and_15 by (meson word_unat_eq_iff)+
  then show "a = b" by (metis bits_ident)
qed simp

lemma hex_inj: "hex as = hex bs \<longleftrightarrow> as = bs"
proof (induction as arbitrary: bs)
  case (Cons a as)
  show ?case
  proof (cases bs)
    case (Cons b bs')
    then show ?thesis using Cons.IH [of bs'] hex_byte_inj [of a b] by (auto simp: hex_def hex_byte_def)
  qed (simp add: hex_def hex_byte_def)
qed (auto simp: hex_def hex_byte_def)

lemma length_hex [simp]: "length (hex bs) = 2 * length bs"
  by (induction bs) (simp_all add: hex_def hex_byte_def)

lemma is_hex_hex: "c \<in> set (hex bs) \<Longrightarrow> is_hex c"
  using nibble_bounds by (auto simp: hex_def hex_byte_def is_hex_def)

lemma sixteen: "length bs = 16 \<Longrightarrow> \<exists>a b c d e f g h i j k l m n q r. bs = [a, b, c, d, e, f, g, h, i, j, k, l, m, n, q, r]"
  by (auto simp: numeral_eq_Suc length_Suc_conv)

text \<open>The fixed bits of the two bytes.\<close>

lemma hex_digits:
  "hex_digit 4 = CHR ''4''" "hex_digit 8 = CHR ''8''" "hex_digit 9 = CHR ''9''" "hex_digit 10 = CHR ''a''" "hex_digit 11 = CHR ''b''"
  by code_simp+

lemma version_nibble: "hex_digit (unat (drop_bit 4 ((b AND 0x0f) OR 0x40 :: 8 word))) = CHR ''4''"
proof -
  have "drop_bit 4 ((b AND 0x0f) OR 0x40 :: 8 word) = 4"
    by (simp add: drop_bit_or drop_bit_and)
  then show ?thesis by (simp add: hex_digits)
qed

lemma variant_nibble:
  "hex_digit (unat (drop_bit 4 ((b AND 0x3f) OR 0x80 :: 8 word))) \<in> {CHR ''8'', CHR ''9'', CHR ''a'', CHR ''b''}"
proof -
  define x where "x = drop_bit 4 b AND 3"
  have eq: "drop_bit 4 ((b AND 0x3f) OR 0x80 :: 8 word) = x OR 8"
    by (simp add: drop_bit_or drop_bit_and x_def)
  have "x = take_bit 2 (drop_bit 4 b)"
    unfolding x_def by (simp add: take_bit_eq_mask mask_eq_exp_minus_1)
  then have "unat x < 4" by (simp add: take_bit_eq_mod unat_mod)
  then have "unat x \<in> {0, 1, 2, 3}" by auto
  then have "x \<in> {0, 1, 2, 3}" using word_unat_eq_iff [of x] by auto
  then show ?thesis unfolding eq by (auto simp: hex_digits)
qed

lemma hex_append: "hex (as @ bs) = hex as @ hex bs"
  by (simp add: hex_def)

lemma hex_hex_byte: "is_hex c" if "c \<in> set (hex_byte b)"
  using is_hex_hex [of c "[b]"] that by (simp add: hex_def)

lemma format_uuid_shape:
  assumes "length bs = 16"
  shows "length (format_uuid bs) = 36 \<and> (\<forall>i \<in> {8, 13, 18, 23}. format_uuid bs ! i = CHR ''-'') \<and>
    (\<forall>i < 36. i \<notin> {8, 13, 18, 23} \<longrightarrow> is_hex (format_uuid bs ! i)) \<and>
    format_uuid bs ! 14 = hex_digit (unat (drop_bit 4 (bs ! 6))) \<and> format_uuid bs ! 19 = hex_digit (unat (drop_bit 4 (bs ! 8)))"
proof -
  define hi lo :: "8 word \<Rightarrow> char" where hl: "hi = (\<lambda>b. hex_digit (unat (drop_bit 4 b)))" "lo = (\<lambda>b. hex_digit (unat (b AND 15)))"
  have d: "is_hex (hi b)" "is_hex (lo b)" for b
    using nibble_bounds [of b] by (auto simp: is_hex_def hl)
  have hb: "hex_byte b = [hi b, lo b]" for b by (simp add: hex_byte_def hl)
  obtain a b c d e f g h i j k l m n q r where bs: "bs = [a, b, c, d, e, f, g, h, i, j, k, l, m, n, q, r]"
    using sixteen [OF assms] by blast
  have s: "format_uuid bs = hex_byte a @ hex_byte b @ hex_byte c @ hex_byte d @ ''-'' @ hex_byte e @ hex_byte f @ ''-'' @
      hex_byte g @ hex_byte h @ ''-'' @ hex_byte i @ hex_byte j @ ''-'' @
      hex_byte k @ hex_byte l @ hex_byte m @ hex_byte n @ hex_byte q @ hex_byte r"
    by (simp add: bs format_uuid_def hex_def)
  have "length (format_uuid bs) = 36 \<and> (\<forall>i \<in> {8, 13, 18, 23}. format_uuid bs ! i = CHR ''-'') \<and>
    (\<forall>i < 36. i \<notin> {8, 13, 18, 23} \<longrightarrow> is_hex (format_uuid bs ! i)) \<and>
    format_uuid bs ! 14 = hi (bs ! 6) \<and> format_uuid bs ! 19 = hi (bs ! 8)"
    unfolding s hb by (auto simp: d bs nth_Cons' numeral_eq_Suc less_Suc_eq)
  then show ?thesis by (simp add: hl)
qed

lemma set_version_nth:
  assumes "length bs = 16"
  shows "length (set_version bs) = 16" "set_version bs ! 6 = (bs ! 6 AND 0x0f) OR 0x40" "set_version bs ! 8 = (bs ! 8 AND 0x3f) OR 0x80"
  using assms by (simp_all add: set_version_def)

lemma format_uuid_inj:
  assumes "length as = 16" "length bs = 16" "format_uuid as = format_uuid bs"
  shows "as = bs"
proof -
  have split: "xs = take 4 xs @ take 2 (drop 4 xs) @ take 2 (drop 6 xs) @ take 2 (drop 8 xs) @ take 6 (drop 10 xs)"
    if "length xs = 16" for xs :: "8 word list"
    using sixteen [OF that] by auto
  have "take 4 as = take 4 bs \<and> take 2 (drop 4 as) = take 2 (drop 4 bs) \<and> take 2 (drop 6 as) = take 2 (drop 6 bs) \<and>
      take 2 (drop 8 as) = take 2 (drop 8 bs) \<and> take 6 (drop 10 as) = take 6 (drop 10 bs)"
    using assms by (simp add: format_uuid_def hex_inj)
  then show ?thesis using split [OF assms(1)] split [OF assms(2)] by metis
qed

lemma set_version_bits:
  assumes "length as = 16" "length bs = 16" "set_version as = set_version bs"
  shows "(\<forall>i < 16. i \<noteq> 6 \<and> i \<noteq> 8 \<longrightarrow> as ! i = bs ! i) \<and> as ! 6 AND 0x0f = bs ! 6 AND 0x0f \<and> as ! 8 AND 0x3f = bs ! 8 AND 0x3f"
proof (intro conjI allI impI)
  have keep: "((x AND 0x0f) OR 0x40) AND 0x0f = x AND 0x0f" "((x AND 0x3f) OR 0x80) AND 0x3f = x AND 0x3f" for x :: "8 word"
    by (simp_all add: bit.conj_disj_distrib2 and.assoc)
  show "as ! 6 AND 0x0f = bs ! 6 AND 0x0f" "as ! 8 AND 0x3f = bs ! 8 AND 0x3f"
    using set_version_nth [OF assms(1)] set_version_nth [OF assms(2)] assms(3) keep by metis+
  fix i :: nat assume "i < 16" "i \<noteq> 6 \<and> i \<noteq> 8"
  then have "set_version as ! i = as ! i" "set_version bs ! i = bs ! i"
    using assms(1,2) by (simp_all add: set_version_def)
  then show "as ! i = bs ! i" using assms(3) by simp
qed

lemma is_hex_not_space: "is_hex c \<Longrightarrow> c \<notin> hd ` set go_spaces \<and> c \<notin> last ` set go_spaces"
proof -
  assume "is_hex c"
  then have "byte_val c \<in> {48..57} \<union> {97..102}"
    by (auto simp: is_hex_def hex_digit_def byte_val_def)
  moreover have "byte_val d \<notin> {48..57} \<union> {97..102}" if "d \<in> hd ` set go_spaces \<union> last ` set go_spaces" for d
    using that by (auto simp: go_spaces_def byte_val_def)
  ultimately show ?thesis by blast
qed

lemma uuid_v4_job_id: "uuid_v4 s \<Longrightarrow> NewJobUUID s = Inr \<lparr>uuid_value = s\<rparr>"
proof -
  assume v4: "uuid_v4 s"
  then have len: "length s = 36" and "is_hex (s ! 0)" "is_hex (s ! 35)" by (auto simp: uuid_v4_def)
  moreover from len have "s \<noteq> []" by auto
  ultimately have "is_hex (hd s)" "is_hex (last s)" by (simp_all add: hd_conv_nth last_conv_nth)
  with \<open>s \<noteq> []\<close> have "TrimSpace s = s" by (intro TrimSpace_id) (auto dest: is_hex_not_space)
  then show ?thesis using len \<open>s \<noteq> []\<close> by (simp add: NewJobUUID_def)
qed

text \<open>
  C29. The identifiers the fallback generator makes are RFC 4122 version 4 identifiers, for every sixteen random bytes, and
  are accepted as job identifiers; two of them are equal only if the random bytes agree in all but the six fixed bits. The kernel's own
  identifier is used as it is when it has 36 characters; only when both sources fail does the generator panic.
\<close>

theorem generated_uuid_type:
  assumes "length bs = 16" "kr_bytes k = Some bs" "fallbackFD_open g \<or> kr_urandom_opens k"
  shows "(\<exists>s. snd (generateUrandomUUID k g) = Inr s \<and> uuid_v4 s \<and> NewJobUUID s = Inr \<lparr>uuid_value = s\<rparr>) \<and>
    (length cs = 16 \<and> format_uuid (set_version cs) = format_uuid (set_version bs) \<longrightarrow>
       (\<forall>i < 16. i \<noteq> 6 \<and> i \<noteq> 8 \<longrightarrow> cs ! i = bs ! i) \<and> cs ! 6 AND 0x0f = bs ! 6 AND 0x0f \<and> cs ! 8 AND 0x3f = bs ! 8 AND 0x3f) \<and>
    snd (Next k g) \<noteq> None"
proof (intro conjI impI)
  let ?s = "format_uuid (set_version bs)"
  have gen: "snd (generateUrandomUUID k g) = Inr ?s"
    using assms by (auto simp: generateUrandomUUID_def)
  note sv = set_version_nth [OF assms(1)] and shape = format_uuid_shape [OF set_version_nth(1) [OF assms(1)]]
  have v4: "uuid_v4 ?s"
    unfolding uuid_v4_def using shape version_nibble variant_nibble by (simp only: sv) blast
  show "\<exists>s. snd (generateUrandomUUID k g) = Inr s \<and> uuid_v4 s \<and> NewJobUUID s = Inr \<lparr>uuid_value = s\<rparr>"
    using gen v4 uuid_v4_job_id [OF v4] by blast
  show "snd (Next k g) \<noteq> None"
    using gen by (auto simp: Next_def generateKernelUUID_def split: sum.splits prod.splits)
  assume "length cs = 16 \<and> format_uuid (set_version cs) = ?s"
  then have "length cs = 16" "set_version cs = set_version bs"
    using format_uuid_inj [of "set_version cs" "set_version bs"] assms(1) by (simp_all add: set_version_nth)
  from set_version_bits [OF this(1) assms(1) this(2)]
  show "\<forall>i < 16. i \<noteq> 6 \<and> i \<noteq> 8 \<longrightarrow> cs ! i = bs ! i" "cs ! 6 AND 0x0f = bs ! 6 AND 0x0f" "cs ! 8 AND 0x3f = bs ! 8 AND 0x3f"
    by blast+
qed

theorem generated_uuid_type_witness:
  "\<exists>s. snd (generateUrandomUUID \<lparr>kr_uuid_file = None, kr_urandom_opens = True, kr_bytes = Some (replicate 16 255)\<rparr> (NewUUIDGenerator [] [])) = Inr s \<and>
     uuid_v4 s"
  using generated_uuid_type [of "replicate 16 255" "\<lparr>kr_uuid_file = None, kr_urandom_opens = True, kr_bytes = Some (replicate 16 255)\<rparr>"
      "NewUUIDGenerator [] []"]
  by auto

section \<open>Durations\<close>

text \<open>
  \<open>time.ParseDuration\<close> on unsigned 64-bit arithmetic: a sign, then numbers with units. A fraction is converted in floating point:
  \<open>frac f unit scale\<close> stands for \<open>uint64(float64(f) * (float64(unit) / scale))\<close>, an argument here.
\<close>

definition unitMap :: "string \<rightharpoonup> nat" where
  "unitMap = map_of
     [(''ns'', 1), (''us'', 1000), ([CHR 0xC2, CHR 0xB5, CHR ''s''], 1000), ([CHR 0xCE, CHR 0xBC, CHR ''s''], 1000),
      (''ms'', 1000000), (''s'', 1000000000), (''m'', 60000000000), (''h'', 3600000000000)]"

text \<open>\<open>None\<close> on overflow.\<close>

fun leadingInt :: "nat \<Rightarrow> string \<Rightarrow> (nat \<times> string) option" where
  "leadingInt x [] = Some (x, [])"
| "leadingInt x (c # s) =
     (if is_digit c then
        if x > 2 ^ 63 div 10 then None
        else (let y = x * 10 + (byte_val c - 48) in if y > 2 ^ 63 then None else leadingInt y s)
      else Some (x, c # s))"

text \<open>The digits after the point: value, scale, the rest; digits past the range are skipped.\<close>

fun leadingFraction :: "nat \<Rightarrow> nat \<Rightarrow> bool \<Rightarrow> string \<Rightarrow> nat \<times> nat \<times> string" where
  "leadingFraction x scale overflow [] = (x, scale, [])"
| "leadingFraction x scale overflow (c # s) =
     (if is_digit c then
        if overflow then leadingFraction x scale True s
        else if x > (2 ^ 63 - 1) div 10 then leadingFraction x scale True s
        else (let y = x * 10 + (byte_val c - 48) in
              if y > 2 ^ 63 then leadingFraction x scale True s else leadingFraction y (scale * 10) False s)
      else (x, scale, c # s))"

definition is_number_char :: "char \<Rightarrow> bool" where
  "is_number_char c \<longleftrightarrow> c = CHR ''.'' \<or> is_digit c"

text \<open>One number with its unit: the nanoseconds it adds and the rest.\<close>

definition duration_term :: "(nat \<Rightarrow> nat \<Rightarrow> nat \<Rightarrow> nat) \<Rightarrow> string \<Rightarrow> (nat \<times> string) option" where
  "duration_term frac s =
     (if s = [] \<or> \<not> is_number_char (hd s) then None
      else (case leadingInt 0 s of
        None \<Rightarrow> None
      | Some (v, s1) \<Rightarrow>
          (let pre = (length s1 \<noteq> length s);
               (f, scale, s2) = (if s1 \<noteq> [] \<and> hd s1 = CHR ''.'' then leadingFraction 0 1 False (tl s1) else (0, 1, s1));
               post = (s1 \<noteq> [] \<and> hd s1 = CHR ''.'' \<and> length s2 \<noteq> length (tl s1));
               u = takeWhile (\<lambda>c. \<not> is_number_char c) s2;
               s3 = dropWhile (\<lambda>c. \<not> is_number_char c) s2
           in if \<not> pre \<and> \<not> post then None
              else if u = [] then None
              else (case unitMap u of
                      None \<Rightarrow> None
                    | Some unit \<Rightarrow>
                        if v > 2 ^ 63 div unit then None
                        else if f > 0 \<and> v * unit + frac f unit scale > 2 ^ 63 then None
                        else Some (if f > 0 then v * unit + frac f unit scale else v * unit, s3)))))"

lemma leadingInt_shorter: "leadingInt x s = Some (v, t) \<Longrightarrow> length t \<le> length s"
  by (induction x s rule: leadingInt.induct) (auto simp: Let_def split: if_splits)

lemma leadingFraction_shorter: "leadingFraction x sc ov s = (f, g, t) \<Longrightarrow> length t \<le> length s"
proof (induction s arbitrary: x sc ov)
  case (Cons c s)
  then show ?case by (auto simp: Let_def split: if_splits intro: le_SucI)
qed simp

lemma duration_term_shorter: "duration_term frac s = Some (v, t) \<Longrightarrow> length t < length s"
proof -
  assume "duration_term frac s = Some (v, t)"
  then obtain w s1 f sc s2 where "leadingInt 0 s = Some (w, s1)"
    "(if s1 \<noteq> [] \<and> hd s1 = CHR ''.'' then leadingFraction 0 1 False (tl s1) else (0, 1, s1)) = (f, sc, s2)"
    "takeWhile (\<lambda>c. \<not> is_number_char c) s2 \<noteq> []" "t = dropWhile (\<lambda>c. \<not> is_number_char c) s2"
    by (auto simp: duration_term_def Let_def split: if_splits option.splits prod.splits)
  moreover from this(2) have "length s2 \<le> length s1"
    by (auto dest: leadingFraction_shorter split: if_splits)
  moreover have "length (dropWhile P s2) < length s2" if "takeWhile P s2 \<noteq> []" for P
    using that arg_cong [OF takeWhile_dropWhile_id [of P s2], of length] by (cases "takeWhile P s2") auto
  ultimately show ?thesis using leadingInt_shorter by fastforce
qed

function duration_loop :: "(nat \<Rightarrow> nat \<Rightarrow> nat \<Rightarrow> nat) \<Rightarrow> string \<Rightarrow> nat \<Rightarrow> nat option" where
  "duration_loop frac s d =
     (if s = [] then Some d
      else (case duration_term frac s of
              None \<Rightarrow> None
            | Some (v, t) \<Rightarrow>
                (let e = (d + v) mod 2 ^ 64 in if e > 2 ^ 63 then None else duration_loop frac t e)))"
  by pat_completeness auto
termination
  by (relation "measure (\<lambda>(frac, s, d). length s)") (auto dest: duration_term_shorter)

declare duration_loop.simps [simp del]

definition ParseDuration :: "(nat \<Rightarrow> nat \<Rightarrow> nat \<Rightarrow> nat) \<Rightarrow> string \<Rightarrow> duration option" where
  "ParseDuration frac s =
     (let neg = (take 1 s = ''-''); body = (if take 1 s = ''-'' \<or> take 1 s = ''+'' then drop 1 s else s) in
      if body = ''0'' then Some 0
      else if body = [] then None
      else (case duration_loop frac body 0 of
              None \<Rightarrow> None
            | Some d \<Rightarrow> if neg then Some (- int d) else if d > 2 ^ 63 - 1 then None else Some (int d)))"

lemma duration_loop_bound: "duration_loop frac s d = Some r \<Longrightarrow> d \<le> 2 ^ 63 \<Longrightarrow> r \<le> 2 ^ 63"
proof (induction frac s d rule: duration_loop.induct)
  case (1 frac s d)
  show ?case
    using "1.prems" "1.IH" by (subst (asm) duration_loop.simps) (auto simp: Let_def split: if_splits option.splits)
qed

lemma ParseDuration_fits: "ParseDuration frac s = Some d \<Longrightarrow> fits64 d"
  using duration_loop_bound [of frac _ 0]
  by (fastforce simp: ParseDuration_def Let_def int_fits_def split: if_splits option.splits)

text \<open>A whole number of units is read exactly, up to the end of the range.\<close>

lemma digits_value_mono: "digits_value acc s = Some n \<Longrightarrow> acc \<le> n"
  by (induction s arbitrary: acc) (force split: if_splits)+

lemma leadingInt_digits:
  "digits_value acc s = Some n \<Longrightarrow> n \<le> 2 ^ 63 \<Longrightarrow> rest \<noteq> [] \<Longrightarrow> \<not> is_digit (hd rest) \<Longrightarrow>
   leadingInt acc (s @ rest) = Some (n, rest)"
proof (induction s arbitrary: acc)
  case Nil
  then show ?case by (cases rest) simp_all
next
  case (Cons c s)
  let ?y = "acc * 10 + (byte_val c - 48)"
  have c: "is_digit c" and y: "digits_value ?y s = Some n" using Cons.prems(1) by (auto split: if_splits)
  have "?y \<le> 2 ^ 63" using digits_value_mono [OF y] Cons.prems(2) by linarith
  then have "\<not> acc > 2 ^ 63 div 10" "\<not> ?y > 2 ^ 63" by simp_all
  then show ?case using c Cons.IH [OF y Cons.prems(2-)] by (simp add: Let_def)
qed

lemma ParseDuration_unit:
  assumes "unitMap u = Some k" "n * k < 2 ^ 63"
  shows "ParseDuration frac (Itoa (int n) @ u) = Some (int (n * k))"
proof -
  have u: "u \<noteq> []" "\<not> is_digit (hd u)" "takeWhile (\<lambda>c. \<not> is_number_char c) u = u" "dropWhile (\<lambda>c. \<not> is_number_char c) u = []"
    "hd u \<noteq> CHR ''.''" and k: "0 < k"
    using assms(1) by (auto simp: unitMap_def is_number_char_def is_digit_def byte_val_def split: if_splits)
  let ?d = "nat_digits n"
  have d: "Itoa (int n) = ?d" by (simp add: Itoa_nonneg)
  have "n \<le> n * k" using k by simp
  then have "n \<le> 2 ^ 63" using assms(2) by linarith
  then have li: "leadingInt 0 (?d @ u) = Some (n, u)"
    by (rule leadingInt_digits [OF digits_value_nat_digits]) (use u in auto)
  have hd: "is_digit (hd (?d @ u))" using nat_digits_all_digits [of n] by (simp add: hd_append)
  have num: "is_number_char (hd (?d @ u))" using hd by (simp add: is_number_char_def)
  have le: "\<not> n > 2 ^ 63 div k" using assms(2) k by (simp add: not_less less_eq_div_iff_mult_less_eq)
  have one: "duration_term frac (?d @ u) = Some (n * k, [])"
    unfolding duration_term_def li using num u(1,5) le assms(1)
    by (simp add: Let_def u(3,4))
  have "duration_loop frac (?d @ u) 0 = Some (n * k)"
    using one assms(2) u(1) by (simp add: duration_loop.simps [of frac "?d @ u"] duration_loop.simps [of frac "[]"] Let_def)
  moreover have "take 1 (?d @ u) \<noteq> ''-''" "take 1 (?d @ u) \<noteq> ''+''"
    using nat_digits_no_sign(1,2) [of n] by (cases ?d; simp)+
  moreover have "?d @ u \<noteq> ''0''" using u(1,2) by (cases ?d rule: rev_cases) (auto simp: append_eq_Cons_conv)
  ultimately show ?thesis using assms(2) by (auto simp: ParseDuration_def Let_def d)
qed

section \<open>The job builder (builder.go)\<close>

record BuilderConfig =
  DefaultCPULimit :: int
  DefaultMemoryLimit :: int
  DefaultIOLimit :: int
  cgroup_BaseDir :: string
  server_NodeId :: string

record BuildRequest =
  br_Command :: string
  br_Args :: "string list"
  br_Limits :: ResourceLimits
  br_Schedule :: string
  br_Network :: string
  br_Volumes :: "string list"
  br_Runtime :: string
  br_Environment :: "string \<rightharpoonup> string"
  br_SecretEnvironment :: "string \<rightharpoonup> string"
  br_JobType :: JobType
  br_WorkingDirectory :: string
  br_Uploads :: "FileUpload list"
  br_GPUCount :: int
  br_GPUMemoryMB :: int
  br_Timeout :: string

datatype build_error = InvalidTimeout | NegativeTimeout | InvalidCPULimit | InvalidMemoryLimit

text \<open>\<open>None\<close>: the parser of the core set does not return.\<close>

definition applyResourceDefaults :: "BuilderConfig \<Rightarrow> ResourceLimits \<Rightarrow> ResourceLimits option" where
  "applyResourceDefaults cfg limits =
     (let cpuValue = CPUPercentage_Value (rl_CPU limits);
          cpuValue = (if cpuValue \<le> 0 then DefaultCPULimit cfg else cpuValue);
          memoryValue = MemorySize_Megabytes (rl_Memory limits);
          memoryValue = (if memoryValue \<le> 0 then DefaultMemoryLimit cfg else memoryValue);
          ioValue = Bandwidth_BytesPerSecond (rl_IOBandwidth limits);
          ioValue = (if ioValue \<le> 0 then DefaultIOLimit cfg else ioValue);
          cpuCores = (if \<not> CPUCoreSet_IsEmpty (rl_CPUCores limits) then CPUCoreSet_String (rl_CPUCores limits) else [])
      in NewResourceLimitsFromParams cpuValue cpuCores memoryValue ioValue)"

definition generateCgroupPath :: "BuilderConfig \<Rightarrow> string \<Rightarrow> string" where
  "generateCgroupPath cfg jobUUID = Join_path [cgroup_BaseDir cfg, ''job-'' @ jobUUID]"

definition copyStrings :: "string list \<Rightarrow> string list" where
  "copyStrings src = src"

text \<open>The copy is filled key by key, in the order \<open>ks\<close> of the range; it does not matter which.\<close>

definition copyEnvironment :: "string list \<Rightarrow> (string \<rightharpoonup> string) \<Rightarrow> (string \<rightharpoonup> string)" where
  "copyEnvironment ks src = fold (\<lambda>k dst. case src k of None \<Rightarrow> dst | Some v \<Rightarrow> dst(k \<mapsto> v)) ks Map.empty"

definition determineJobType :: "BuildRequest \<Rightarrow> JobType" where
  "determineJobType req = br_JobType req"

definition parse_timeout :: "(nat \<Rightarrow> nat \<Rightarrow> nat \<Rightarrow> nat) \<Rightarrow> string \<Rightarrow> (build_error, duration) result" where
  "parse_timeout frac t =
     (if t = [] then Inr 0
      else (case ParseDuration frac t of
              None \<Rightarrow> Inl InvalidTimeout
            | Some timeout \<Rightarrow> if timeout < 0 then Inl NegativeTimeout else Inr timeout))"

text \<open>
  The inputs beside the request: the conversion of fractions, the clock, the kernel's random source and the orders of the two ranges. \<open>None\<close>:
  the identifier generator panics or the parser of the core set does not return.
\<close>

definition Build ::
  "(nat \<Rightarrow> nat \<Rightarrow> nat \<Rightarrow> nat) \<Rightarrow> instant \<Rightarrow> kernel_random \<Rightarrow> string list \<Rightarrow> string list \<Rightarrow> BuilderConfig \<Rightarrow> BuildRequest \<Rightarrow>
   UUIDGenerator \<Rightarrow> UUIDGenerator \<times> (build_error, Job) result option" where
  "Build frac now k envKs secKs cfg req g =
     (case Next k g of
        (g, None) \<Rightarrow> (g, None)
      | (g, Some jobUuid) \<Rightarrow>
          (let job = zero_job\<lparr>job_Uuid := jobUuid, job_Command := br_Command req, job_Args := copyStrings (br_Args req),
                 job_Type := determineJobType req, job_Status := StatusInitializing, job_CgroupPath := generateCgroupPath cfg jobUuid,
                 job_StartTime := now, job_Network := br_Network req, job_Volumes := copyStrings (br_Volumes req),
                 job_Runtime := br_Runtime req, job_Environment := copyEnvironment envKs (br_Environment req),
                 job_SecretEnvironment := copyEnvironment secKs (br_SecretEnvironment req),
                 job_WorkingDirectory := br_WorkingDirectory req, job_Uploads := br_Uploads req,
                 job_GPUCount := br_GPUCount req, job_GPUMemoryMB := br_GPUMemoryMB req, job_GPUIndices := [],
                 job_NodeId := server_NodeId cfg\<rparr>
           in case parse_timeout frac (br_Timeout req) of
                Inl err \<Rightarrow> (g, Some (Inl err))
              | Inr timeout \<Rightarrow>
                  (case applyResourceDefaults cfg (br_Limits req) of
                     None \<Rightarrow> (g, None)
                   | Some limits \<Rightarrow>
                       if CPUPercentage_Value (rl_CPU limits) < 0 \<or> CPUPercentage_Value (rl_CPU limits) > 100
                       then (g, Some (Inl InvalidCPULimit))
                       else if MemorySize_Bytes (rl_Memory limits) < 0 then (g, Some (Inl InvalidMemoryLimit))
                       else (g, Some (Inr (job\<lparr>job_Timeout := timeout, job_Limits := limits\<rparr>))))))"

lemma copyEnvironment_id: "set ks = dom m \<Longrightarrow> copyEnvironment ks m = m"
proof -
  have step: "fold (\<lambda>k dst. case m k of None \<Rightarrow> dst | Some v \<Rightarrow> dst(k \<mapsto> v)) ks d = (\<lambda>k. if k \<in> set ks \<and> m k \<noteq> None then m k else d k)" for d
    by (induction ks arbitrary: d) (auto simp: fun_eq_iff split: option.splits)
  assume "set ks = dom m"
  then show ?thesis unfolding copyEnvironment_def step by (auto simp: fun_eq_iff)
qed

text \<open>The constructor of the limits in closed form, for 32-bit parameters.\<close>

definition limits_of :: "int \<Rightarrow> CPUCoreSet \<Rightarrow> int \<Rightarrow> int \<Rightarrow> ResourceLimits" where
  "limits_of c cores m io =
     \<lparr>rl_CPU = \<lparr>cpu_value = (if 0 < c \<and> c \<le> 10000 then c else 0)\<rparr>, rl_CPUCores = cores,
      rl_Memory = \<lparr>mem_bytes = (if 0 < m then m * 1048576 else 0)\<rparr>,
      rl_IOBandwidth = \<lparr>bw_bytesPerSecond = (if 0 < io then io else 0)\<rparr>\<rparr>"

lemma NewMemorySizeFromMB_bytes: "0 < m \<Longrightarrow> fits32 m \<Longrightarrow> NewMemorySizeFromMB m = Inr \<lparr>mem_bytes = m * 1048576\<rparr>"
  by (simp add: NewMemorySizeFromMB_def int_fits_def wrap_int_id)

lemma NewResourceLimitsFromParams_eq:
  assumes "fits32 m"
  shows "NewResourceLimitsFromParams c spec m io =
    map_option (\<lambda>r. limits_of c (value_or_zero \<lparr>cs_cores = [], cs_spec = []\<rparr> r) m io) (ParseCPUCoreSet spec)"
  using assms
  by (auto simp: NewResourceLimitsFromParams_def NewResourceLimits_def NewCPUPercentage_def NewMemorySize_def NewBandwidth_def
      NewMemorySizeFromMB_bytes limits_of_def no_limits_def ParseCPUCoreSet_def [of "[]"] Let_def split: option.splits)

definition effective :: "int \<Rightarrow> int \<Rightarrow> int" where
  "effective x dflt = (if 0 < x then x else dflt)"

lemma cores_reparse:
  assumes "ParseCPUCoreSet spec = Some cores"
  defines "cs \<equiv> value_or_zero \<lparr>cs_cores = [], cs_spec = []\<rparr> cores"
  shows "map_option (value_or_zero \<lparr>cs_cores = [], cs_spec = []\<rparr>) (ParseCPUCoreSet (if \<not> CPUCoreSet_IsEmpty cs then CPUCoreSet_String cs else [])) = Some cs"
proof (cases cores)
  case (Inl e)
  then show ?thesis by (simp add: cs_def CPUCoreSet_IsEmpty_def ParseCPUCoreSet_def)
next
  case (Inr c)
  have "CPUCoreSet_String c = spec \<and> (CPUCoreSet_IsEmpty c \<longleftrightarrow> spec = [])"
    using ParseCPUCoreSet_accepted [of spec c] assms(1) Inr by simp
  then have "(if \<not> CPUCoreSet_IsEmpty cs then CPUCoreSet_String cs else []) = spec"
    using Inr by (simp add: cs_def)
  then show ?thesis using assms(1) Inr by (simp add: cs_def)
qed

text \<open>What the defaults make of limits that came from parameters.\<close>

lemma applyResourceDefaults_eq:
  assumes "fits32 m" "fits32 (DefaultMemoryLimit cfg)" "ParseCPUCoreSet spec = Some cores"
  defines "cs \<equiv> value_or_zero \<lparr>cs_cores = [], cs_spec = []\<rparr> cores"
  shows "applyResourceDefaults cfg (limits_of c cs m io) =
    Some (limits_of (effective (if c \<le> 10000 then c else 0) (DefaultCPULimit cfg)) cs
      (effective m (DefaultMemoryLimit cfg)) (effective io (DefaultIOLimit cfg)))"
proof -
  let ?L = "limits_of c cs m io" and ?z = "\<lparr>cs_cores = [], cs_spec = []\<rparr>"
  let ?s = "if \<not> CPUCoreSet_IsEmpty cs then CPUCoreSet_String cs else []"
  have mb: "MemorySize_Megabytes (rl_Memory ?L) = (if 0 < m then m else 0)"
    using assms(1) by (simp add: limits_of_def MemorySize_Megabytes_def wrap_int_id int_fits_def)
  obtain r where r: "ParseCPUCoreSet ?s = Some r" "value_or_zero ?z r = cs"
    using cores_reparse [OF assms(3)] unfolding cs_def [symmetric] by (cases "ParseCPUCoreSet ?s") auto
  have "fits32 (effective m (DefaultMemoryLimit cfg))" using assms(1,2) by (simp add: effective_def)
  from NewResourceLimitsFromParams_eq [OF this] r show ?thesis
    unfolding applyResourceDefaults_def Let_def mb
    by (auto simp: limits_of_def effective_def CPUPercentage_Value_def Bandwidth_BytesPerSecond_def)
qed

text \<open>
  What the builder makes of a request with limits from parameters (32-bit, as the service passes them). It fails on a timeout that
  does not parse or is negative and on an effective CPU limit above 100 and on nothing else. Otherwise the job is new
  (initializing, with the generated identifier, no process, no GPUs yet), its command, arguments, environment, network, volumes
  and GPU demand are those of the request, the timeout is a non-negative 64-bit duration, a limit that was asked for is kept
  and one that was not is the default.
\<close>

theorem Build_job:
  assumes "fits32 m" "fits32 (DefaultMemoryLimit cfg)" "0 \<le> DefaultCPULimit cfg"
    and lim: "NewResourceLimitsFromParams c spec m io = Some (br_Limits req)"
    and id: "Next k g = (g', Some ident)"
    and env: "set envKs = dom (br_Environment req)" "set secKs = dom (br_SecretEnvironment req)"
  defines "cpu \<equiv> effective (if c \<le> 10000 then c else 0) (DefaultCPULimit cfg)"
  shows "case Build frac now k envKs secKs cfg req g of
      (g2, None) \<Rightarrow> False
    | (g2, Some (Inl err)) \<Rightarrow>
        parse_timeout frac (br_Timeout req) = Inl err \<or> err = InvalidCPULimit \<and> 100 < cpu \<and> cpu \<le> 10000
    | (g2, Some (Inr job)) \<Rightarrow>
        g2 = g' \<and> job_Uuid job = ident \<and> job_Status job = StatusInitializing \<and> job_Pid job = 0 \<and> job_GPUIndices job = [] \<and>
        job_Command job = br_Command req \<and> job_Args job = br_Args req \<and> job_Environment job = br_Environment req \<and>
        job_SecretEnvironment job = br_SecretEnvironment req \<and> job_Network job = br_Network req \<and>
        job_Volumes job = br_Volumes req \<and> job_GPUCount job = br_GPUCount req \<and>
        parse_timeout frac (br_Timeout req) = Inr (job_Timeout job) \<and> 0 \<le> job_Timeout job \<and> fits64 (job_Timeout job) \<and>
        rl_CPUCores (job_Limits job) = rl_CPUCores (br_Limits req) \<and>
        cpu_value (rl_CPU (job_Limits job)) = (if cpu \<le> 10000 then cpu else 0) \<and> cpu_value (rl_CPU (job_Limits job)) \<le> 100 \<and>
        mem_bytes (rl_Memory (job_Limits job)) = max 0 (effective m (DefaultMemoryLimit cfg)) * 1048576"
proof -
  obtain cores where cores: "ParseCPUCoreSet spec = Some cores"
    and L: "br_Limits req = limits_of c (value_or_zero \<lparr>cs_cores = [], cs_spec = []\<rparr> cores) m io"
    using lim NewResourceLimitsFromParams_eq [OF assms(1), of c spec io] by auto
  let ?L = "limits_of cpu (value_or_zero \<lparr>cs_cores = [], cs_spec = []\<rparr> cores)
      (effective m (DefaultMemoryLimit cfg)) (effective io (DefaultIOLimit cfg))"
  have A: "applyResourceDefaults cfg (br_Limits req) = Some ?L"
    unfolding L cpu_def by (rule applyResourceDefaults_eq [OF assms(1,2) cores])
  have cpu: "0 \<le> cpu" using assms(3) by (simp add: cpu_def effective_def)
  have t: "0 \<le> t \<and> fits64 t" if "parse_timeout frac (br_Timeout req) = Inr t" for t
    using that ParseDuration_fits by (auto simp: parse_timeout_def int_fits_def split: if_splits option.splits)
  have v: "cpu_value (rl_CPU ?L) = (if cpu \<le> 10000 then cpu else 0)" "rl_CPUCores ?L = rl_CPUCores (br_Limits req)"
    "mem_bytes (rl_Memory ?L) = max 0 (effective m (DefaultMemoryLimit cfg)) * 1048576"
    using cpu by (auto simp: limits_of_def L)
  show ?thesis
  proof (cases "parse_timeout frac (br_Timeout req)")
    case (Inl err)
    then show ?thesis by (simp add: Build_def id Let_def)
  next
    case (Inr t)
    show ?thesis
      using t [OF Inr] v cpu env
      by (simp add: Build_def id Let_def Inr A CPUPercentage_Value_def MemorySize_Bytes_def copyStrings_def zero_job_def
          copyEnvironment_id)
  qed
qed

definition example_builder_config :: BuilderConfig where
  "example_builder_config =
     \<lparr>DefaultCPULimit = 100, DefaultMemoryLimit = 512, DefaultIOLimit = 0, cgroup_BaseDir = ''/sys/fs/cgroup'', server_NodeId = ''n1''\<rparr>"

definition example_build_request :: BuildRequest where
  "example_build_request =
     \<lparr>br_Command = ''echo'', br_Args = [''hi''], br_Limits = limits_of 50 \<lparr>cs_cores = [], cs_spec = []\<rparr> 0 0, br_Schedule = [],
      br_Network = ''bridge'', br_Volumes = [], br_Runtime = [], br_Environment = Map.empty, br_SecretEnvironment = Map.empty,
      br_JobType = JobTypeStandard, br_WorkingDirectory = [], br_Uploads = [], br_GPUCount = 0, br_GPUMemoryMB = 0, br_Timeout = ''90s''\<rparr>"

definition example_kernel :: kernel_random where
  "example_kernel = \<lparr>kr_uuid_file = None, kr_urandom_opens = True, kr_bytes = Some (replicate 16 255)\<rparr>"

theorem Build_job_witness:
  "case Build (\<lambda>_ _ _. 0) 7 example_kernel [] [] example_builder_config example_build_request (NewUUIDGenerator [] []) of
     (g, Some (Inr job)) \<Rightarrow>
       job_Timeout job = 90000000000 \<and> cpu_value (rl_CPU (job_Limits job)) = 50 \<and> mem_bytes (rl_Memory (job_Limits job)) = 536870912
   | _ \<Rightarrow> False"
proof -
  let ?req = example_build_request and ?cfg = example_builder_config
  have "ParseDuration (\<lambda>_ _ _. 0) (Itoa (int 90) @ ''s'') = Some (int (90 * 1000000000))"
    by (rule ParseDuration_unit) (simp_all add: unitMap_def)
  moreover have "Itoa (int 90) @ ''s'' = ''90s''" by code_simp
  ultimately have t: "parse_timeout (\<lambda>_ _ _. 0) (br_Timeout ?req) = Inr 90000000000"
    by (simp add: parse_timeout_def example_build_request_def)
  have lim: "NewResourceLimitsFromParams 50 [] 0 0 = Some (br_Limits ?req)"
    by (simp add: NewResourceLimitsFromParams_eq int_fits_def ParseCPUCoreSet_def example_build_request_def)
  have id: "Next example_kernel (NewUUIDGenerator [] []) = (\<lparr>fallbackFD_open = True\<rparr>, Some (format_uuid (set_version (replicate 16 255))))"
    by (simp add: Next_def generateKernelUUID_def generateUrandomUUID_def readKernelUUID_def example_kernel_def NewUUIDGenerator_def)
  show ?thesis
    using Build_job [OF _ _ _ lim id, of ?cfg "[]" "[]" "\<lambda>_ _ _. 0" 7] t
    by (auto simp: example_builder_config_def example_build_request_def int_fits_def effective_def split: prod.splits option.splits sum.splits)
qed

end
