(* ===== verification/PubSub.thy ===== *)
theory PubSub
  imports Prelude
begin

text \<open>
  The in-memory publish/subscribe hub (\<open>internal/joblet/pubsub/pubsub.go\<close>, \<open>errors.go\<close>).

  Publishers, subscribers and the closing of the hub run concurrently. The model has one step per critical section: a
  publisher takes the read lock of \<open>closeMutex\<close> and a message identifier (\<open>publish_begin\<close>), copies the subscribers of the topic under
  \<open>subMutex\<close> (\<open>publish_snapshot\<close>) and then, holding only that read lock, sends to the copied channels one by one
  (\<open>deliver\<close>); \<open>Close\<close> needs the write lock, so it waits for the publishers in flight; unsubscribing takes \<open>subMutex\<close> only. A channel
  is its buffer and whether it is closed; a subscriber is one object, known by its identifier, which the copies share.
  The identifier \<open>sub_<nanoseconds>_<n>\<close> is given by its two numbers. The
  message counter is an unbounded number: an \<open>int64\<close> incremented once per message does not wrap in practice.
\<close>

type_synonym pub_id = nat

datatype sub_id = Sub (sub_nano: int) (sub_num: int)

record 'a message =
  m_ID :: string
  m_Topic :: string
  m_Payload :: 'a
  m_Timestamp :: instant
  m_Attributes :: "string \<rightharpoonup> string"

record TopicStats =
  ts_MessageCount :: int
  ts_SubscriberCount :: int
  ts_LastMessageTime :: "instant option"
  ts_BytesPublished :: int

record SubscriptionStats =
  ss_MessagesReceived :: int
  ss_LastMessageTime :: "instant option"
  ss_IsActive :: bool

record topic =
  t_subscribers :: "sub_id list"
  t_stats :: TopicStats

record 'a subscriber =
  s_topic :: string
  s_queue :: "'a message list"
  s_closed :: bool
  s_unsubscribed :: bool
  s_stats :: SubscriptionStats

datatype 'a publisher = Snapshotting "'a message" | Delivering "'a message" "sub_id list"

record 'a hub =
  h_topics :: "string \<rightharpoonup> topic"
  h_subs :: "sub_id \<rightharpoonup> 'a subscriber"
  h_bufferSize :: nat
  h_closed :: bool
  h_messageID :: int
  h_publishers :: "pub_id \<rightharpoonup> 'a publisher"
  h_panic :: bool

datatype pubsub_error = ErrPublisherClosed | ErrSubscriberClosed | ErrContextDone

section \<open>Operations\<close>

definition WithBufferSize :: "int \<Rightarrow> 'a hub \<Rightarrow> 'a hub" where
  "WithBufferSize n h = (if n > 0 then h\<lparr>h_bufferSize := nat n\<rparr> else h)"

definition NewPubSub :: "('a hub \<Rightarrow> 'a hub) list \<Rightarrow> 'a hub" where
  "NewPubSub opts =
     fold (\<lambda>opt h. opt h) opts
       \<lparr>h_topics = Map.empty, h_subs = Map.empty, h_bufferSize = 10, h_closed = False, h_messageID = 0,
        h_publishers = Map.empty, h_panic = False\<rparr>"

definition new_topic :: topic where
  "new_topic = \<lparr>t_subscribers = [], t_stats = \<lparr>ts_MessageCount = 0, ts_SubscriberCount = 0, ts_LastMessageTime = None, ts_BytesPublished = 0\<rparr>\<rparr>"

definition getOrCreateTopic :: "string \<Rightarrow> 'a hub \<Rightarrow> topic \<times> 'a hub" where
  "getOrCreateTopic name h =
     (case h_topics h name of
        Some t \<Rightarrow> (t, h)
      | None \<Rightarrow> (new_topic, h\<lparr>h_topics := (h_topics h)(name \<mapsto> new_topic)\<rparr>))"

definition nextMessageID :: "'a hub \<Rightarrow> int \<times> 'a hub" where
  "nextMessageID h = (let n = h_messageID h + 1 in (n, h\<lparr>h_messageID := n\<rparr>))"

text \<open>The first part of \<open>Publish\<close>, by the publisher \<open>p\<close>: context, read lock, closed flag, topic and message.\<close>

definition publish_begin :: "bool \<Rightarrow> pub_id \<Rightarrow> string \<Rightarrow> 'a \<Rightarrow> instant \<Rightarrow> 'a hub \<Rightarrow> (pubsub_error, 'a hub) result" where
  "publish_begin ctxDone p topicName payload now h =
     (if ctxDone then Inl ErrContextDone
      else if h_closed h then Inl ErrPublisherClosed
      else let (t, h) = getOrCreateTopic topicName h; (n, h) = nextMessageID h;
               msg = \<lparr>m_ID = Itoa n, m_Topic = topicName, m_Payload = payload, m_Timestamp = now, m_Attributes = Map.empty\<rparr>
           in Inr (h\<lparr>h_publishers := (h_publishers h)(p \<mapsto> Snapshotting msg)\<rparr>))"

text \<open>The copy of the subscribers, in the order \<open>ks\<close> of the range, and the statistics of the topic; \<open>bytes\<close> is the length of the printed message.\<close>

definition publish_snapshot :: "pub_id \<Rightarrow> sub_id list \<Rightarrow> instant \<Rightarrow> int \<Rightarrow> 'a message \<Rightarrow> topic \<Rightarrow> 'a hub \<Rightarrow> 'a hub" where
  "publish_snapshot p ks now bytes msg t h =
     (let st = t_stats t;
          st = st\<lparr>ts_MessageCount := ts_MessageCount st + 1, ts_BytesPublished := ts_BytesPublished st + bytes, ts_LastMessageTime := Some now\<rparr>
      in h\<lparr>h_topics := (h_topics h)(m_Topic msg \<mapsto> t\<lparr>t_stats := st\<rparr>),
           h_publishers := (h_publishers h)(p \<mapsto> Delivering msg ks)\<rparr>)"

text \<open>What the \<open>select\<close> of the delivery does: the send, the timer of 100 ms or the end of the context.\<close>

datatype choice = Send | Timer | CtxDone

text \<open>
  Sending on a closed channel panics, whether the publisher finds it closed or waits on it when it is closed. The send is
  ready when the buffer has room; the timer can only win while it is full.
\<close>

definition deliver :: "choice \<Rightarrow> pub_id \<Rightarrow> instant \<Rightarrow> 'a message \<Rightarrow> sub_id \<Rightarrow> sub_id list \<Rightarrow> 'a hub \<Rightarrow> 'a hub option" where
  "deliver ch p now msg a rest h =
     (case h_subs h a of
        None \<Rightarrow> None
      | Some sub \<Rightarrow>
          (case ch of
             Send \<Rightarrow>
               if s_closed sub then Some (h\<lparr>h_panic := True\<rparr>)
               else if length (s_queue sub) < h_bufferSize h then
                 Some (h\<lparr>h_subs := (h_subs h)(a \<mapsto> sub\<lparr>s_queue := s_queue sub @ [msg],
                            s_stats := (s_stats sub)\<lparr>ss_MessagesReceived := ss_MessagesReceived (s_stats sub) + 1, ss_LastMessageTime := Some now\<rparr>\<rparr>),
                         h_publishers := (h_publishers h)(p \<mapsto> Delivering msg rest)\<rparr>)
               else None
           | Timer \<Rightarrow>
               if \<not> s_closed sub \<and> \<not> length (s_queue sub) < h_bufferSize h then
                 Some (h\<lparr>h_publishers := (h_publishers h)(p \<mapsto> Delivering msg rest)\<rparr>)
               else None
           | CtxDone \<Rightarrow> Some (h\<lparr>h_publishers := (h_publishers h)(p := None)\<rparr>)))"

text \<open>\<open>Subscribe\<close> at the clock reading \<open>nano\<close>; it holds the read lock of \<open>closeMutex\<close> throughout.\<close>

definition Subscribe :: "instant \<Rightarrow> string \<Rightarrow> 'a hub \<Rightarrow> (pubsub_error, sub_id \<times> 'a hub) result" where
  "Subscribe nano topicName h =
     (if h_closed h then Inl ErrSubscriberClosed
      else let (t, h) = getOrCreateTopic topicName h; (n, h) = nextMessageID h; a = Sub nano n;
               sub = \<lparr>s_topic = topicName, s_queue = [], s_closed = False, s_unsubscribed = False,
                      s_stats = \<lparr>ss_MessagesReceived = 0, ss_LastMessageTime = None, ss_IsActive = True\<rparr>\<rparr>;
               ids = List.insert a (t_subscribers t)
           in Inr (a, h\<lparr>h_subs := (h_subs h)(a \<mapsto> sub),
                        h_topics := (h_topics h)(topicName \<mapsto>
                          t\<lparr>t_subscribers := ids, t_stats := (t_stats t)\<lparr>ts_SubscriberCount := int (length ids)\<rparr>\<rparr>)\<rparr>))"

text \<open>The closure that \<open>Subscribe\<close> returns; also called when the subscriber's context ends.\<close>

definition unsubscribe :: "sub_id \<Rightarrow> 'a hub \<Rightarrow> 'a hub" where
  "unsubscribe a h =
     (case h_subs h a of
        None \<Rightarrow> h
      | Some sub \<Rightarrow>
          if s_unsubscribed sub then h
          else let sub = sub\<lparr>s_unsubscribed := True, s_stats := (s_stats sub)\<lparr>ss_IsActive := False\<rparr>\<rparr> in
            (case h_topics h (s_topic sub) of
               None \<Rightarrow> h\<lparr>h_subs := (h_subs h)(a \<mapsto> sub)\<rparr>
             | Some t \<Rightarrow>
                 if a \<in> set (t_subscribers t) then
                   let ids = remove1 a (t_subscribers t) in
                   if s_closed sub then h\<lparr>h_panic := True\<rparr>
                   else h\<lparr>h_topics := (h_topics h)(s_topic sub \<mapsto>
                            t\<lparr>t_subscribers := ids, t_stats := (t_stats t)\<lparr>ts_SubscriberCount := int (length ids)\<rparr>\<rparr>),
                          h_subs := (h_subs h)(a \<mapsto> sub\<lparr>s_closed := True\<rparr>)\<rparr>
                 else h\<lparr>h_subs := (h_subs h)(a \<mapsto> sub),
                        h_topics := (h_topics h)(s_topic sub \<mapsto>
                          t\<lparr>t_stats := (t_stats t)\<lparr>ts_SubscriberCount := int (length (t_subscribers t))\<rparr>\<rparr>)\<rparr>))"

definition registered :: "'a hub \<Rightarrow> sub_id \<Rightarrow> bool" where
  "registered h a \<longleftrightarrow> (\<exists>name t. h_topics h name = Some t \<and> a \<in> set (t_subscribers t))"

text \<open>
  \<open>Close\<close> over the topics \<open>names\<close>: closing a channel twice panics. The topics keep their entries in the model of the loop and
  vanish at the end.
\<close>

definition close_chan :: "sub_id \<Rightarrow> 'a hub \<Rightarrow> 'a hub" where
  "close_chan a h =
     (case h_subs h a of
        None \<Rightarrow> h
      | Some sub \<Rightarrow> if s_closed sub then h\<lparr>h_panic := True\<rparr> else h\<lparr>h_subs := (h_subs h)(a \<mapsto> sub\<lparr>s_closed := True\<rparr>)\<rparr>)"

definition Close :: "string list \<Rightarrow> 'a hub \<Rightarrow> 'a hub" where
  "Close names h =
     (if h_closed h then h
      else let h = h\<lparr>h_closed := True\<rparr>;
               h = fold (\<lambda>name h. case h_topics h name of None \<Rightarrow> h | Some t \<Rightarrow> fold close_chan (t_subscribers t) h) names h
           in h\<lparr>h_topics := Map.empty\<rparr>)"

definition Health :: "'a hub \<Rightarrow> (pubsub_error, unit) result" where
  "Health h = (if h_closed h then Inl ErrPublisherClosed else Inr ())"

section \<open>Interleavings\<close>

text \<open>
  One step of the system, with what happens to the channels: a message put into a subscriber's channel, dropped because it was full, or
  taken out by its reader.
\<close>

datatype 'a event = Sent sub_id "'a message" | Dropped sub_id "'a message" | Received sub_id "'a message" | Silent

datatype 'a action =
    ABegin pub_id string 'a instant
  | ASnapshot pub_id "sub_id list" instant int
  | ADeliver choice pub_id instant
  | ADone pub_id
  | ASubscribe instant string
  | AUnsubscribe sub_id
  | AReceive sub_id
  | AClose "string list"

fun exec :: "'a action \<Rightarrow> 'a hub \<Rightarrow> ('a hub \<times> 'a event) option" where
  "exec (ABegin p name payload now) h =
     (if h_publishers h p \<noteq> None then None
      else case publish_begin False p name payload now h of Inl _ \<Rightarrow> Some (h, Silent) | Inr h' \<Rightarrow> Some (h', Silent))"
| "exec (ASnapshot p ks now bytes) h =
     (case h_publishers h p of
        Some (Snapshotting msg) \<Rightarrow>
          (case h_topics h (m_Topic msg) of
             None \<Rightarrow> None
           | Some t \<Rightarrow> if distinct ks \<and> set ks = set (t_subscribers t) then Some (publish_snapshot p ks now bytes msg t h, Silent) else None)
      | _ \<Rightarrow> None)"
| "exec (ADeliver ch p now) h =
     (case h_publishers h p of
        Some (Delivering msg (a # rest)) \<Rightarrow>
          (case deliver ch p now msg a rest h of
             None \<Rightarrow> None
           | Some h' \<Rightarrow>
               Some (h', if ch = Send \<and> \<not> h_panic h' then Sent a msg else if ch = Timer then Dropped a msg else Silent))
      | _ \<Rightarrow> None)"
| "exec (ADone p) h =
     (case h_publishers h p of Some (Delivering msg []) \<Rightarrow> Some (h\<lparr>h_publishers := (h_publishers h)(p := None)\<rparr>, Silent) | _ \<Rightarrow> None)"
| "exec (ASubscribe nano name) h =
     (case Subscribe nano name h of Inl _ \<Rightarrow> Some (h, Silent) | Inr (a, h') \<Rightarrow> Some (h', Silent))"
| "exec (AUnsubscribe a) h = Some (unsubscribe a h, Silent)"
| "exec (AReceive a) h =
     (case h_subs h a of
        None \<Rightarrow> None
      | Some sub \<Rightarrow>
          (case s_queue sub of
             [] \<Rightarrow> None
           | msg # q \<Rightarrow> Some (h\<lparr>h_subs := (h_subs h)(a \<mapsto> sub\<lparr>s_queue := q\<rparr>)\<rparr>, Received a msg)))"
| "exec (AClose names) h = (if h_publishers h = Map.empty \<and> range_order names (h_topics h) then Some (Close names h, Silent) else None)"

text \<open>After a panic the process is gone. \<open>reach b h evs\<close>: from a new hub with buffers of \<open>b\<close> messages, the events \<open>evs\<close> lead to \<open>h\<close>.\<close>

inductive reach :: "nat \<Rightarrow> 'a hub \<Rightarrow> 'a event list \<Rightarrow> bool" where
  start: "0 < b \<Longrightarrow> reach b (NewPubSub [WithBufferSize (int b)]) []"
| step: "reach b h evs \<Longrightarrow> \<not> h_panic h \<Longrightarrow> exec act h = Some (h', e) \<Longrightarrow> reach b h' (evs @ [e])"

section \<open>The invariant\<close>

fun sent_msg :: "sub_id \<Rightarrow> 'a event \<Rightarrow> 'a message list" where
  "sent_msg a (Sent b m) = (if a = b then [m] else [])"
| "sent_msg a _ = []"

fun received_msg :: "sub_id \<Rightarrow> 'a event \<Rightarrow> 'a message list" where
  "received_msg a (Received b m) = (if a = b then [m] else [])"
| "received_msg a _ = []"

definition sent_to :: "sub_id \<Rightarrow> 'a event list \<Rightarrow> 'a message list" where
  "sent_to a evs = concat (map (sent_msg a) evs)"

definition received_by :: "sub_id \<Rightarrow> 'a event list \<Rightarrow> 'a message list" where
  "received_by a evs = concat (map (received_msg a) evs)"

lemma history_simps [simp]:
  "sent_to a [] = []" "sent_to a (evs @ [e]) = sent_to a evs @ sent_msg a e"
  "received_by a [] = []" "received_by a (evs @ [e]) = received_by a evs @ received_msg a e"
  by (simp_all add: sent_to_def received_by_def)

text \<open>Channels: first in, first out, each message once, of the right topic, never more than the buffer holds, and counted.\<close>

definition chan_ok :: "nat \<Rightarrow> sub_id \<Rightarrow> 'a subscriber option \<Rightarrow> 'a event list \<Rightarrow> bool" where
  "chan_ok b a sub evs \<longleftrightarrow>
     distinct (map m_ID (sent_to a evs)) \<and>
     (case sub of
        None \<Rightarrow> sent_to a evs = [] \<and> received_by a evs = []
      | Some s \<Rightarrow>
          sent_to a evs = received_by a evs @ s_queue s \<and> length (s_queue s) \<le> b \<and>
          ss_MessagesReceived (s_stats s) = int (length (sent_to a evs)) \<and> (\<forall>m \<in> set (sent_to a evs). m_Topic m = s_topic s))"

definition chan_inv :: "'a hub \<Rightarrow> 'a event list \<Rightarrow> bool" where
  "chan_inv h evs \<longleftrightarrow> (\<forall>a. chan_ok (h_bufferSize h) a (h_subs h a) evs)"

text \<open>Identifiers come from the counter.\<close>

definition numbered :: "'a hub \<Rightarrow> 'a message \<Rightarrow> bool" where
  "numbered h m \<longleftrightarrow> (\<exists>n. 0 \<le> n \<and> n \<le> h_messageID h \<and> m_ID m = Itoa n)"

definition id_inv :: "'a hub \<Rightarrow> 'a event list \<Rightarrow> bool" where
  "id_inv h evs \<longleftrightarrow>
     0 \<le> h_messageID h \<and> (\<forall>a \<in> dom (h_subs h). sub_num a \<le> h_messageID h) \<and> (\<forall>a. \<forall>m \<in> set (sent_to a evs). numbered h m)"

fun pub_msg :: "'a publisher \<Rightarrow> 'a message" where
  "pub_msg (Snapshotting m) = m"
| "pub_msg (Delivering m ks) = m"

text \<open>The subscribers a publisher may still send to.\<close>

fun pending :: "'a publisher \<Rightarrow> sub_id set" where
  "pending (Snapshotting m) = UNIV"
| "pending (Delivering m ks) = set ks"

fun pub_ok :: "'a hub \<Rightarrow> 'a publisher \<Rightarrow> bool" where
  "pub_ok h (Snapshotting m) = True"
| "pub_ok h (Delivering m ks) = (distinct ks \<and> (\<forall>a \<in> set ks. \<exists>s. h_subs h a = Some s \<and> s_topic s = m_Topic m))"

definition pub_inv :: "'a hub \<Rightarrow> 'a event list \<Rightarrow> bool" where
  "pub_inv h evs \<longleftrightarrow>
     (\<forall>p x. h_publishers h p = Some x \<longrightarrow>
        numbered h (pub_msg x) \<and> pub_ok h x \<and> (\<forall>a \<in> pending x. m_ID (pub_msg x) \<notin> m_ID ` set (sent_to a evs)) \<and>
        (\<forall>q y. h_publishers h q = Some y \<and> p \<noteq> q \<longrightarrow> m_ID (pub_msg x) \<noteq> m_ID (pub_msg y)))"

text \<open>A registered subscriber has an open channel; closed ones were unsubscribed, or the hub is closed and has no publishers.\<close>

definition reg_inv :: "'a hub \<Rightarrow> bool" where
  "reg_inv h \<longleftrightarrow>
     (\<forall>name t. h_topics h name = Some t \<longrightarrow>
        distinct (t_subscribers t) \<and>
        (\<forall>a \<in> set (t_subscribers t). \<exists>s. h_subs h a = Some s \<and> s_topic s = name \<and> \<not> s_closed s)) \<and>
     (h_closed h \<longrightarrow> h_publishers h = Map.empty \<and> h_topics h = Map.empty) \<and>
     (\<forall>a s. \<not> h_closed h \<and> h_subs h a = Some s \<and> s_closed s \<longrightarrow> s_unsubscribed s)"

definition hub_inv :: "'a hub \<Rightarrow> 'a event list \<Rightarrow> bool" where
  "hub_inv h evs \<longleftrightarrow> chan_inv h evs \<and> id_inv h evs \<and> pub_inv h evs \<and> reg_inv h"

lemma Itoa_inj: "0 \<le> i \<Longrightarrow> 0 \<le> j \<Longrightarrow> Itoa i = Itoa j \<longleftrightarrow> i = j"
  by (metis Itoa_nonneg digits_value_nat_digits int_nat_eq option.inject)

text \<open>The next number has not been used.\<close>

lemma next_fresh: "numbered h m \<Longrightarrow> 0 \<le> h_messageID h \<Longrightarrow> m_ID m \<noteq> Itoa (h_messageID h + 1)"
  by (auto simp: numbered_def Itoa_inj)

lemma numbered_mono: "numbered h m \<Longrightarrow> h_messageID h \<le> h_messageID h' \<Longrightarrow> numbered h' m"
  by (auto simp: numbered_def)

lemma chan_ok_silent [simp]:
  "chan_ok b a s (evs @ [Silent]) = chan_ok b a s evs" "chan_ok b a s (evs @ [Dropped c m]) = chan_ok b a s evs"
  by (simp_all add: chan_ok_def split: option.split)

lemma chan_inv_silent [simp]:
  "chan_inv h (evs @ [Silent]) = chan_inv h evs" "chan_inv h (evs @ [Dropped c m]) = chan_inv h evs"
  by (simp_all add: chan_inv_def)

lemma id_inv_silent [simp]:
  "id_inv h (evs @ [Silent]) = id_inv h evs" "id_inv h (evs @ [Dropped c m]) = id_inv h evs"
  "id_inv h (evs @ [Received c m]) = id_inv h evs"
  by (simp_all add: id_inv_def)

lemma pub_inv_silent [simp]:
  "pub_inv h (evs @ [Silent]) = pub_inv h evs" "pub_inv h (evs @ [Dropped c m]) = pub_inv h evs"
  "pub_inv h (evs @ [Received c m]) = pub_inv h evs"
  by (simp_all add: pub_inv_def)

lemma hub_inv_silent [simp]:
  "hub_inv h (evs @ [Silent]) = hub_inv h evs" "hub_inv h (evs @ [Dropped c m]) = hub_inv h evs"
  by (simp_all add: hub_inv_def)

lemma hub_inv_panic [simp]: "hub_inv (h\<lparr>h_panic := v\<rparr>) evs = hub_inv h evs"
proof -
  have "pub_ok (h\<lparr>h_panic := v\<rparr>) x = pub_ok h x" for x by (cases x) auto
  then show ?thesis by (simp add: hub_inv_def chan_inv_def id_inv_def pub_inv_def reg_inv_def numbered_def)
qed

section \<open>Every step keeps the invariant\<close>

lemma getOrCreateTopic_inv:
  assumes "hub_inv h evs" "getOrCreateTopic name h = (t, h1)" "\<not> h_closed h"
  shows "hub_inv h1 evs \<and> h_topics h1 name = Some t \<and> h_subs h1 = h_subs h \<and> h_publishers h1 = h_publishers h \<and>
    h_messageID h1 = h_messageID h \<and> h_bufferSize h1 = h_bufferSize h \<and> h_closed h1 = h_closed h \<and> h_panic h1 = h_panic h"
proof (cases "h_topics h name")
  case None
  then have h1: "h1 = h\<lparr>h_topics := (h_topics h)(name \<mapsto> new_topic)\<rparr>" "t = new_topic"
    using assms(2) by (auto simp: getOrCreateTopic_def)
  have "pub_ok h1 x = pub_ok h x" for x by (cases x) (auto simp: h1)
  then show ?thesis using assms(1,3)
    by (auto simp: h1 hub_inv_def chan_inv_def id_inv_def pub_inv_def reg_inv_def numbered_def new_topic_def)
next
  case (Some u)
  then show ?thesis using assms by (simp add: getOrCreateTopic_def)
qed

lemma nextMessageID_inv:
  assumes "hub_inv h evs"
  shows "hub_inv (h\<lparr>h_messageID := h_messageID h + 1\<rparr>) evs"
proof -
  let ?h = "h\<lparr>h_messageID := h_messageID h + 1\<rparr>"
  have "pub_ok ?h x = pub_ok h x" for x by (cases x) auto
  moreover have "numbered h m \<Longrightarrow> numbered ?h m" for m by (erule numbered_mono) (simp, linarith?)
  moreover have "\<forall>a \<in> dom (h_subs h). sub_num a \<le> h_messageID h + 1"
    using assms unfolding hub_inv_def id_inv_def by force
  ultimately show ?thesis using assms
    unfolding hub_inv_def chan_inv_def id_inv_def pub_inv_def reg_inv_def by auto
qed

text \<open>Only the entry of one publisher changes.\<close>

lemma publishers_inv:
  assumes "hub_inv h evs" "\<not> h_closed h"
    and x: "numbered h (pub_msg x)" "pub_ok h x" "\<forall>a \<in> pending x. m_ID (pub_msg x) \<notin> m_ID ` set (sent_to a evs)"
    and other: "\<And>q y. h_publishers h q = Some y \<Longrightarrow> q \<noteq> p \<Longrightarrow> m_ID (pub_msg x) \<noteq> m_ID (pub_msg y)"
  shows "hub_inv (h\<lparr>h_publishers := (h_publishers h)(p \<mapsto> x)\<rparr>) evs"
proof -
  let ?h = "h\<lparr>h_publishers := (h_publishers h)(p \<mapsto> x)\<rparr>"
  have same: "pub_ok ?h y = pub_ok h y" "numbered ?h m = numbered h m" for y m
    by (cases y, auto simp: numbered_def)
  have "pub_inv ?h evs"
    unfolding pub_inv_def same using assms(1) x other other [THEN not_sym] by (auto simp: hub_inv_def pub_inv_def)
  then show ?thesis
    using assms(1,2) by (auto simp: hub_inv_def chan_inv_def id_inv_def reg_inv_def same)
qed

lemma publishers_remove_inv:
  assumes "hub_inv h evs"
  shows "hub_inv (h\<lparr>h_publishers := (h_publishers h)(p := None)\<rparr>) evs"
proof -
  let ?h = "h\<lparr>h_publishers := (h_publishers h)(p := None)\<rparr>"
  have same: "pub_ok ?h y = pub_ok h y" "numbered ?h m = numbered h m" for y m
    by (cases y, auto simp: numbered_def)
  have "pub_inv ?h evs"
    unfolding pub_inv_def same using assms by (auto simp: hub_inv_def pub_inv_def)
  then show ?thesis
    using assms by (auto simp: hub_inv_def chan_inv_def id_inv_def reg_inv_def same)
qed

lemma not_closed_publisher: "hub_inv h evs \<Longrightarrow> h_publishers h p = Some x \<Longrightarrow> \<not> h_closed h"
  by (auto simp: hub_inv_def reg_inv_def split: if_splits)

lemma begin_inv:
  assumes "hub_inv h evs" "exec (ABegin p name payload now) h = Some (h', e)"
  shows "hub_inv h' (evs @ [e])"
proof (cases "h_closed h")
  case True
  then show ?thesis using assms by (auto simp: publish_begin_def split: if_splits)
next
  case False
  obtain t h1 where t: "getOrCreateTopic name h = (t, h1)" by (cases "getOrCreateTopic name h")
  note g = getOrCreateTopic_inv [OF assms(1) t False]
  let ?h2 = "h1\<lparr>h_messageID := h_messageID h1 + 1\<rparr>"
  let ?m = "\<lparr>m_ID = Itoa (h_messageID h1 + 1), m_Topic = name, m_Payload = payload, m_Timestamp = now, m_Attributes = Map.empty\<rparr>"
  have inv2: "hub_inv ?h2 evs" using nextMessageID_inv g by blast
  have nn: "0 \<le> h_messageID h1" using g by (simp add: hub_inv_def id_inv_def)
  have fresh: "m_ID m \<noteq> m_ID ?m" if "numbered h1 m" for m using next_fresh [OF that nn] by simp
  have "hub_inv (?h2\<lparr>h_publishers := (h_publishers ?h2)(p \<mapsto> Snapshotting ?m)\<rparr>) evs"
  proof (rule publishers_inv [OF inv2])
    show "numbered ?h2 (pub_msg (Snapshotting ?m))" using nn by (auto simp: numbered_def intro!: exI [of _ "h_messageID h1 + 1"])
    have "numbered h1 m" if "m \<in> set (sent_to a evs)" for a m
      using g that by (simp add: hub_inv_def id_inv_def)
    then have "m_ID m \<noteq> m_ID ?m" if "m \<in> set (sent_to a evs)" for a m
      using fresh that by blast
    then show "\<forall>a \<in> pending (Snapshotting ?m). m_ID (pub_msg (Snapshotting ?m)) \<notin> m_ID ` set (sent_to a evs)"
      by (intro ballI) (simp only: pub_msg.simps image_iff, metis)
    show "m_ID (pub_msg (Snapshotting ?m)) \<noteq> m_ID (pub_msg y)" if "h_publishers ?h2 q = Some y" for q y
    proof -
      have "numbered h1 (pub_msg y)" using g that by (simp add: hub_inv_def pub_inv_def)
      from fresh [OF this] show ?thesis by (metis pub_msg.simps(1))
    qed
  qed (use False g in auto)
  moreover have "h' = ?h2\<lparr>h_publishers := (h_publishers ?h2)(p \<mapsto> Snapshotting ?m)\<rparr>" "e = Silent"
    using assms(2) False t by (auto simp: publish_begin_def nextMessageID_def Let_def split: if_splits)
  ultimately show ?thesis by simp
qed

lemma snapshot_inv:
  assumes "hub_inv h evs" "exec (ASnapshot p ks now bytes) h = Some (h', e)"
  shows "hub_inv h' (evs @ [e])"
proof -
  obtain msg t where p: "h_publishers h p = Some (Snapshotting msg)" and t: "h_topics h (m_Topic msg) = Some t"
    and ks: "distinct ks" "set ks = set (t_subscribers t)" and h': "h' = publish_snapshot p ks now bytes msg t h" and e: "e = Silent"
    using assms(2) by (auto split: option.splits publisher.splits if_splits)
  have nc: "\<not> h_closed h" using not_closed_publisher [OF assms(1) p] .
  have msg: "numbered h msg" "\<forall>a. m_ID msg \<notin> m_ID ` set (sent_to a evs)"
    "\<And>q y. h_publishers h q = Some y \<Longrightarrow> q \<noteq> p \<Longrightarrow> m_ID msg \<noteq> m_ID (pub_msg y)"
    using assms(1) p by (force simp: hub_inv_def pub_inv_def)+
  have ok: "pub_ok h (Delivering msg ks)"
    using assms(1) t ks by (fastforce simp: hub_inv_def reg_inv_def)
  let ?h1 = "h\<lparr>h_publishers := (h_publishers h)(p \<mapsto> Delivering msg ks)\<rparr>"
  have inv1: "hub_inv ?h1 evs" by (rule publishers_inv [OF assms(1) nc]) (use msg ok in auto)
  define t' where "t' = t\<lparr>t_stats := (t_stats t)\<lparr>ts_MessageCount := ts_MessageCount (t_stats t) + 1,
    ts_BytesPublished := ts_BytesPublished (t_stats t) + bytes, ts_LastMessageTime := Some now\<rparr>\<rparr>"
  have h2: "h' = ?h1\<lparr>h_topics := (h_topics ?h1)(m_Topic msg \<mapsto> t')\<rparr>"
    by (simp add: h' publish_snapshot_def Let_def t'_def)
  have same: "pub_ok h' y = pub_ok ?h1 y" "numbered h' m = numbered ?h1 m" for y m
    by (cases y, auto simp: numbered_def h2)
  have "reg_inv h'"
    using inv1 t nc unfolding hub_inv_def reg_inv_def by (auto simp: h2 t'_def)
  then show ?thesis
    using inv1 unfolding e by (simp add: hub_inv_def chan_inv_def id_inv_def pub_inv_def same) (simp add: h2)
qed

lemma done_inv:
  assumes "hub_inv h evs" "exec (ADone p) h = Some (h', e)"
  shows "hub_inv h' (evs @ [e])"
  using assms publishers_remove_inv [OF assms(1)] by (auto split: option.splits publisher.splits list.splits)

text \<open>A change to one subscriber that keeps its topic.\<close>

lemma pub_ok_subs:
  assumes "h_subs h a = Some s" "s_topic s' = s_topic s"
  shows "pub_ok (h\<lparr>h_subs := (h_subs h)(a \<mapsto> s')\<rparr>) x = pub_ok h x"
proof (cases x)
  case (Delivering m ks)
  have "(\<exists>u. ((h_subs h)(a \<mapsto> s')) b = Some u \<and> s_topic u = m_Topic m) \<longleftrightarrow> (\<exists>u. h_subs h b = Some u \<and> s_topic u = m_Topic m)" for b
    using assms by auto
  then show ?thesis using Delivering by simp
qed simp

lemma sub_rest:
  assumes "hub_inv h evs" "h_subs h a = Some s" "s_topic s' = s_topic s"
    and "s_closed s' \<Longrightarrow> \<not> registered h a \<and> (h_closed h \<or> s_unsubscribed s')"
  defines "h' \<equiv> h\<lparr>h_subs := (h_subs h)(a \<mapsto> s')\<rparr>"
  shows "id_inv h' evs" "pub_inv h' evs" "reg_inv h'"
proof -
  have same: "pub_ok h' x = pub_ok h x" "numbered h' m = numbered h m" for x m
    using pub_ok_subs [OF assms(2,3)] by (simp_all add: numbered_def h'_def)
  have sel: "h_subs h' = (h_subs h)(a \<mapsto> s')" "h_publishers h' = h_publishers h" "h_messageID h' = h_messageID h"
    "h_topics h' = h_topics h" "h_closed h' = h_closed h"
    by (simp_all add: h'_def)
  have "dom (h_subs h') = dom (h_subs h)" using assms(2) by (auto simp: sel)
  then show "id_inv h' evs" using assms(1) unfolding hub_inv_def id_inv_def same by (simp add: sel(3))
  show "pub_inv h' evs" using assms(1) unfolding hub_inv_def pub_inv_def same sel by blast
  have "\<exists>u. h_subs h' b = Some u \<and> s_topic u = name \<and> \<not> s_closed u"
    if "h_topics h name = Some t" "b \<in> set (t_subscribers t)" for name t b
    using assms that unfolding sel by (cases "b = a") (fastforce simp: hub_inv_def reg_inv_def registered_def)+
  then show "reg_inv h'" using assms(1,4) unfolding hub_inv_def reg_inv_def sel by (auto split: if_splits)
qed

lemma sub_inv:
  assumes "hub_inv h evs" "h_subs h a = Some s" "s_topic s' = s_topic s"
    and "chan_ok (h_bufferSize h) a (Some s') evs"
    and "s_closed s' \<Longrightarrow> \<not> registered h a \<and> (h_closed h \<or> s_unsubscribed s')"
  shows "hub_inv (h\<lparr>h_subs := (h_subs h)(a \<mapsto> s')\<rparr>) evs"
  using sub_rest [OF assms(1-3,5)] assms(1,4) by (simp add: hub_inv_def chan_inv_def)

lemma registered_open: "hub_inv h evs \<Longrightarrow> registered h a \<Longrightarrow> \<exists>s. h_subs h a = Some s \<and> \<not> s_closed s"
  by (fastforce simp: hub_inv_def reg_inv_def registered_def)

lemma closed_facts:
  assumes "hub_inv h evs" "h_subs h a = Some s" "s_closed s"
  shows "\<not> registered h a \<and> (h_closed h \<or> s_unsubscribed s)"
proof -
  have "\<not> registered h a" using registered_open [OF assms(1), of a] assms(2,3) by auto
  moreover have "h_closed h \<or> s_unsubscribed s" using assms unfolding hub_inv_def reg_inv_def by blast
  ultimately show ?thesis ..
qed

lemma chan_okD: "hub_inv h evs \<Longrightarrow> h_subs h a = s \<Longrightarrow> chan_ok (h_bufferSize h) a s evs"
  by (auto simp: hub_inv_def chan_inv_def)

lemma chan_ok_cong:
  "s_queue s' = s_queue s \<Longrightarrow> s_topic s' = s_topic s \<Longrightarrow> ss_MessagesReceived (s_stats s') = ss_MessagesReceived (s_stats s) \<Longrightarrow>
   chan_ok b a (Some s') evs = chan_ok b a (Some s) evs"
  by (simp add: chan_ok_def)

lemma receive_inv:
  assumes "hub_inv h evs" "exec (AReceive a) h = Some (h', e)"
  shows "hub_inv h' (evs @ [e])"
proof -
  obtain s m q where s: "h_subs h a = Some s" "s_queue s = m # q" and e: "e = Received a m"
    and h': "h' = h\<lparr>h_subs := (h_subs h)(a \<mapsto> s\<lparr>s_queue := q\<rparr>)\<rparr>"
    using assms(2) by (auto split: option.splits list.splits)
  have "chan_ok (h_bufferSize h) b (h_subs h' b) (evs @ [e])" for b
    using chan_okD [OF assms(1), of b] s by (auto simp: chan_ok_def h' e split: option.splits)
  then have "chan_inv h' (evs @ [e])" by (simp add: chan_inv_def h')
  moreover have "id_inv h' evs" "pub_inv h' evs" "reg_inv h'"
    using sub_rest [OF assms(1) s(1), of "s\<lparr>s_queue := q\<rparr>"] closed_facts [OF assms(1) s(1)] unfolding h' by simp_all
  ultimately show ?thesis by (simp add: hub_inv_def e)
qed

lemma deliver_inv:
  assumes "hub_inv h evs" "exec (ADeliver ch p now) h = Some (h', e)" "\<not> h_panic h"
  shows "hub_inv h' (evs @ [e])"
proof -
  obtain msg a rest where p: "h_publishers h p = Some (Delivering msg (a # rest))"
    and d: "deliver ch p now msg a rest h = Some h'"
    and e: "e = (if ch = Send \<and> \<not> h_panic h' then Sent a msg else if ch = Timer then Dropped a msg else Silent)"
    using assms(2) by (auto split: option.splits publisher.splits list.splits)
  obtain s where s: "h_subs h a = Some s" using d by (auto simp: deliver_def split: option.splits)
  have nc: "\<not> h_closed h" using not_closed_publisher [OF assms(1) p] .
  have msg: "numbered h msg" "\<forall>b \<in> set (a # rest). m_ID msg \<notin> m_ID ` set (sent_to b evs)" "pub_ok h (Delivering msg (a # rest))"
    "\<And>q y. h_publishers h q = Some y \<Longrightarrow> q \<noteq> p \<Longrightarrow> m_ID msg \<noteq> m_ID (pub_msg y)"
    using assms(1) p by (force simp: hub_inv_def pub_inv_def)+
  let ?h1 = "h\<lparr>h_publishers := (h_publishers h)(p \<mapsto> Delivering msg rest)\<rparr>"
  have inv1: "hub_inv ?h1 evs"
    by (rule publishers_inv [OF assms(1) nc]) (use msg in auto)
  show ?thesis
  proof (cases ch)
    case Timer
    then show ?thesis using d e s inv1 by (auto simp: deliver_def split: if_splits)
  next
    case CtxDone
    then show ?thesis using d e s publishers_remove_inv [OF assms(1), of p] by (auto simp: deliver_def)
  next
    case Send
    show ?thesis
    proof (cases "s_closed s")
      case True
      then show ?thesis using Send d e s assms(1) by (auto simp: deliver_def)
    next
      case False
      define s' where "s' = s\<lparr>s_queue := s_queue s @ [msg], s_stats := (s_stats s)\<lparr>ss_MessagesReceived := ss_MessagesReceived (s_stats s) + 1,
        ss_LastMessageTime := Some now\<rparr>\<rparr>"
      have room: "length (s_queue s) < h_bufferSize h" and h': "h' = ?h1\<lparr>h_subs := (h_subs ?h1)(a \<mapsto> s')\<rparr>"
        using Send d s False by (auto simp: deliver_def s'_def split: if_splits)
      have e: "e = Sent a msg" using e Send assms(3) by (simp add: h')
      have top: "s_topic s = m_Topic msg" using msg(3) s by simp
      have "chan_ok (h_bufferSize h) b (h_subs h' b) (evs @ [e])" for b
        using chan_okD [OF assms(1), of b] s msg(2) room top
        by (auto simp: chan_ok_def h' e s'_def split: option.splits)
      then have "chan_inv h' (evs @ [e])" by (simp add: chan_inv_def h')
      moreover have rest: "id_inv h' evs" "pub_inv h' evs" "reg_inv h'"
        using sub_rest [OF inv1, of a s s'] s False unfolding h' by (simp_all add: s'_def)
      moreover have "numbered h' msg" using msg(1) by (simp add: numbered_def h')
      then have "id_inv h' (evs @ [e])" using rest(1) by (auto simp: id_inv_def e)
      moreover have "pub_inv h' (evs @ [e])"
        unfolding pub_inv_def
      proof (intro allI impI conjI)
        fix q y assume q: "h_publishers h' q = Some y"
        note old = rest(2) [unfolded pub_inv_def, rule_format, OF q]
        then show "numbered h' (pub_msg y)" "pub_ok h' y"
          "\<And>r z. h_publishers h' r = Some z \<and> q \<noteq> r \<Longrightarrow> m_ID (pub_msg y) \<noteq> m_ID (pub_msg z)" by blast+
        show "\<forall>b \<in> pending y. m_ID (pub_msg y) \<notin> m_ID ` set (sent_to b (evs @ [e]))"
        proof (cases "q = p")
          case True
          then show ?thesis using old q msg(3) by (auto simp: e h')
        next
          case False
          then have "m_ID (pub_msg y) \<noteq> m_ID msg" using msg(4) [of q y] q by (auto simp: h')
          then show ?thesis using old by (auto simp: e)
        qed
      qed
      ultimately show ?thesis by (simp add: hub_inv_def)
    qed
  qed
qed

text \<open>A topic whose subscribers are a sublist of what they were.\<close>

lemma topic_inv:
  assumes "hub_inv h evs" "h_topics h name = Some t" "distinct (t_subscribers t')" "set (t_subscribers t') \<subseteq> set (t_subscribers t)"
  shows "hub_inv (h\<lparr>h_topics := (h_topics h)(name \<mapsto> t')\<rparr>) evs"
proof -
  let ?h = "h\<lparr>h_topics := (h_topics h)(name \<mapsto> t')\<rparr>"
  have same: "pub_ok ?h y = pub_ok h y" "numbered ?h m = numbered h m" for y m
    by (cases y, auto simp: numbered_def)
  have "reg_inv ?h" using assms by (auto simp: hub_inv_def reg_inv_def subset_iff)
  then show ?thesis using assms(1) by (auto simp: hub_inv_def chan_inv_def id_inv_def pub_inv_def same)
qed

lemma subscribe_inv:
  assumes "hub_inv h evs" "exec (ASubscribe nano name) h = Some (h', e)"
  shows "hub_inv h' (evs @ [e])"
proof (cases "h_closed h")
  case True
  then show ?thesis using assms by (auto simp: Subscribe_def)
next
  case False
  obtain t h1 where t: "getOrCreateTopic name h = (t, h1)" by (cases "getOrCreateTopic name h")
  note g = getOrCreateTopic_inv [OF assms(1) t False]
  let ?n = "h_messageID h1 + 1"
  let ?h2 = "h1\<lparr>h_messageID := ?n\<rparr>" and ?a = "Sub nano (h_messageID h1 + 1)"
  have inv2: "hub_inv ?h2 evs" using nextMessageID_inv g by blast
  define sub :: "'a subscriber" where "sub = \<lparr>s_topic = name, s_queue = [], s_closed = False, s_unsubscribed = False,
    s_stats = \<lparr>ss_MessagesReceived = 0, ss_LastMessageTime = None, ss_IsActive = True\<rparr>\<rparr>"
  have new: "h_subs ?h2 ?a = None" using g by (fastforce simp: hub_inv_def id_inv_def dom_def)
  define t' where "t' = t\<lparr>t_subscribers := List.insert ?a (t_subscribers t),
    t_stats := (t_stats t)\<lparr>ts_SubscriberCount := int (length (List.insert ?a (t_subscribers t)))\<rparr>\<rparr>"
  have h': "h' = ?h2\<lparr>h_subs := (h_subs ?h2)(?a \<mapsto> sub), h_topics := (h_topics ?h2)(name \<mapsto> t')\<rparr>" and e: "e = Silent"
    using assms(2) False t by (auto simp: Subscribe_def nextMessageID_def Let_def sub_def t'_def)
  have "chan_ok (h_bufferSize ?h2) b (h_subs h' b) evs" for b
    using chan_okD [OF inv2, of b] new by (auto simp: h' chan_ok_def sub_def)
  then have "chan_inv h' evs" by (simp add: chan_inv_def h')
  moreover have "id_inv h' evs" using inv2 by (auto simp: hub_inv_def id_inv_def numbered_def h')
  moreover have ok: "pub_ok h' x" if "pub_ok ?h2 x" for x
    using that new by (cases x) (force simp: h')+
  then have "pub_inv h' evs" using inv2 by (simp add: hub_inv_def pub_inv_def numbered_def) (simp add: h')
  moreover have "reg_inv h'"
  proof -
    have "\<exists>u. h_subs h' b = Some u \<and> s_topic u = nm \<and> \<not> s_closed u"
      if "h_topics ?h2 nm = Some u" "b \<in> set (t_subscribers u)" for nm u b
      using inv2 that new by (fastforce simp: hub_inv_def reg_inv_def h')
    moreover have "distinct (t_subscribers t)" using inv2 g by (auto simp: hub_inv_def reg_inv_def)
    ultimately show ?thesis
      using inv2 g False by (auto simp: hub_inv_def reg_inv_def h' t'_def sub_def)
  qed
  ultimately show ?thesis by (simp add: hub_inv_def e)
qed

lemma unsubscribe_inv:
  assumes "hub_inv h evs"
  shows "hub_inv (unsubscribe a h) evs \<and> h_panic (unsubscribe a h) = h_panic h"
proof (cases "h_subs h a")
  case None
  then show ?thesis using assms by (simp add: unsubscribe_def)
next
  case (Some s)
  show ?thesis
  proof (cases "s_unsubscribed s")
    case True
    then show ?thesis using assms Some by (simp add: unsubscribe_def)
  next
    case False
    define s1 where "s1 = s\<lparr>s_unsubscribed := True, s_stats := (s_stats s)\<lparr>ss_IsActive := False\<rparr>\<rparr>"
    have chan: "chan_ok (h_bufferSize h) a (Some s1) evs" "chan_ok (h_bufferSize h) a (Some (s1\<lparr>s_closed := True\<rparr>)) evs"
      using chan_okD [OF assms Some] chan_ok_cong [of s1 s] chan_ok_cong [of "s1\<lparr>s_closed := True\<rparr>" s] by (auto simp: s1_def)
    have inv1: "hub_inv (h\<lparr>h_subs := (h_subs h)(a \<mapsto> s1)\<rparr>) evs"
      by (rule sub_inv [OF assms Some]) (use chan closed_facts [OF assms Some] in \<open>auto simp: s1_def\<close>)
    show ?thesis
    proof (cases "h_topics h (s_topic s)")
      case None
      then show ?thesis using Some False inv1 by (simp add: unsubscribe_def Let_def s1_def)
    next
      case (Some t)
      have dist: "distinct (t_subscribers t)" using assms Some by (auto simp: hub_inv_def reg_inv_def)
      show ?thesis
      proof (cases "a \<in> set (t_subscribers t)")
        case True
        then have reg: "registered h a" using Some by (auto simp: registered_def)
        then have open_chan: "\<not> s_closed s" using registered_open [OF assms reg] \<open>h_subs h a = Some s\<close> by auto
        define t' where "t' = t\<lparr>t_subscribers := remove1 a (t_subscribers t),
          t_stats := (t_stats t)\<lparr>ts_SubscriberCount := int (length (remove1 a (t_subscribers t)))\<rparr>\<rparr>"
        let ?h1 = "h\<lparr>h_topics := (h_topics h)(s_topic s \<mapsto> t')\<rparr>"
        have invt: "hub_inv ?h1 evs"
          by (rule topic_inv [OF assms Some]) (use dist set_remove1_subset in \<open>auto simp: t'_def\<close>)
        have "\<not> registered ?h1 a"
        proof
          assume "registered ?h1 a"
          then obtain nm u where "((h_topics h)(s_topic s \<mapsto> t')) nm = Some u" "a \<in> set (t_subscribers u)" by (auto simp: registered_def)
          moreover have "a \<notin> set (t_subscribers t')" using dist by (simp add: t'_def)
          ultimately show False
            using assms \<open>h_subs h a = Some s\<close> by (cases "nm = s_topic s") (fastforce simp: hub_inv_def reg_inv_def)+
        qed
        then have "hub_inv (?h1\<lparr>h_subs := (h_subs ?h1)(a \<mapsto> s1\<lparr>s_closed := True\<rparr>)\<rparr>) evs"
          by (intro sub_inv [OF invt, of a s]) (use chan \<open>h_subs h a = Some s\<close> in \<open>auto simp: s1_def\<close>)
        then show ?thesis
          using Some \<open>h_subs h a = Some s\<close> False True open_chan by (simp add: unsubscribe_def Let_def s1_def t'_def)
      next
        case nreg: False
        define t' where "t' = t\<lparr>t_stats := (t_stats t)\<lparr>ts_SubscriberCount := int (length (t_subscribers t))\<rparr>\<rparr>"
        have "hub_inv (h\<lparr>h_subs := (h_subs h)(a \<mapsto> s1), h_topics := (h_topics h)(s_topic s \<mapsto> t')\<rparr>) evs"
          using topic_inv [OF inv1, of "s_topic s" t t'] Some dist by (simp add: t'_def)
        then show ?thesis
          using Some \<open>h_subs h a = Some s\<close> False nreg by (simp add: unsubscribe_def Let_def s1_def t'_def)
      qed
    qed
  qed
qed

text \<open>Closing distinct open channels closes exactly those.\<close>

lemma fold_close_chan:
  assumes "distinct as" "\<forall>a \<in> set as. \<exists>s. h_subs h a = Some s \<and> \<not> s_closed s"
  shows "fold close_chan as h =
    h\<lparr>h_subs := (\<lambda>b. if b \<in> set as then map_option (\<lambda>s. s\<lparr>s_closed := True\<rparr>) (h_subs h b) else h_subs h b)\<rparr>"
  using assms
proof (induction as arbitrary: h)
  case (Cons a as)
  then obtain s where s: "h_subs h a = Some s" "\<not> s_closed s" by auto
  let ?h = "h\<lparr>h_subs := (h_subs h)(a \<mapsto> s\<lparr>s_closed := True\<rparr>)\<rparr>"
  have "fold close_chan (a # as) h = fold close_chan as ?h" using s by (simp add: close_chan_def)
  also have "\<dots> = ?h\<lparr>h_subs := (\<lambda>b. if b \<in> set as then map_option (\<lambda>s. s\<lparr>s_closed := True\<rparr>) (h_subs ?h b) else h_subs ?h b)\<rparr>"
    by (rule Cons.IH) (use Cons.prems in auto)
  finally show ?case using Cons.prems(1) s by (auto simp: fun_eq_iff intro!: hub.equality)
qed simp

lemma close_chan_topics [simp]: "h_topics (close_chan a h) = h_topics h"
  by (simp add: close_chan_def split: option.split)

lemma fold_close_chan_topics [simp]: "h_topics (fold close_chan as h) = h_topics h"
  by (induction as arbitrary: h) simp_all

definition members :: "'a hub \<Rightarrow> string \<Rightarrow> sub_id list" where
  "members h name = (case h_topics h name of None \<Rightarrow> [] | Some t \<Rightarrow> t_subscribers t)"

lemma close_loop:
  "fold (\<lambda>name h. case h_topics h name of None \<Rightarrow> h | Some t \<Rightarrow> fold close_chan (t_subscribers t) h) names h =
   fold close_chan (concat (map (members h) names)) h"
proof (induction names arbitrary: h)
  case (Cons name names)
  show ?case
  proof (cases "h_topics h name")
    case None
    then show ?thesis using Cons by (simp add: members_def)
  next
    case (Some t)
    have "members (fold close_chan (t_subscribers t) h) = members h" by (simp add: fun_eq_iff members_def)
    then show ?thesis using Cons Some by (simp add: members_def [of h name])
  qed
qed simp

lemma members_distinct:
  assumes "hub_inv h evs" "distinct names"
  shows "distinct (concat (map (members h) names)) \<and> (\<forall>a \<in> set (concat (map (members h) names)). \<exists>s. h_subs h a = Some s \<and> \<not> s_closed s)"
proof -
  have m: "distinct (members h n) \<and> (\<forall>a \<in> set (members h n). \<exists>s. h_subs h a = Some s \<and> s_topic s = n \<and> \<not> s_closed s)" for n
    using assms(1) by (auto simp: hub_inv_def reg_inv_def members_def split: option.splits)
  have "distinct (concat (map (members h) names))"
    using assms(2)
  proof (induction names)
    case (Cons n names)
    moreover have "set (members h n) \<inter> set (members h k) = {}" if "k \<in> set names" for k
      using m [of n] m [of k] Cons.prems that by fastforce
    ultimately show ?case using m [of n] by auto
  qed simp
  then show ?thesis using m by fastforce
qed

lemma close_inv:
  assumes "hub_inv h evs" "exec (AClose names) h = Some (h', e)" "\<not> h_panic h"
  shows "hub_inv h' (evs @ [e]) \<and> \<not> h_panic h'"
proof (cases "h_closed h")
  case True
  then show ?thesis using assms by (auto simp: Close_def split: if_splits)
next
  case False
  have pubs: "h_publishers h = Map.empty" and names: "distinct names" and e: "e = Silent" and h': "h' = Close names h"
    using assms(2) by (auto simp: range_order_def split: if_splits)
  let ?all = "concat (map (members h) names)" and ?h1 = "h\<lparr>h_closed := True\<rparr>"
  note d = members_distinct [OF assms(1) names]
  let ?S = "\<lambda>b. if b \<in> set ?all then map_option (\<lambda>s. s\<lparr>s_closed := True\<rparr>) (h_subs h b) else h_subs h b"
  have same: "members ?h1 = members h" by (simp add: fun_eq_iff members_def)
  have h2: "h' = h\<lparr>h_closed := True, h_subs := ?S, h_topics := Map.empty\<rparr>"
    using fold_close_chan [of ?all ?h1] d False by (simp add: h' Close_def Let_def close_loop same cong: if_cong)
  have "chan_ok (h_bufferSize h) b (?S b) evs" for b
    using chan_okD [OF assms(1), of b] by (auto simp: chan_ok_def split: option.splits)
  then have "chan_inv h' evs" by (simp add: chan_inv_def h2)
  moreover have "dom ?S = dom (h_subs h)" by (auto simp: dom_def)
  then have "id_inv h' evs" using assms(1) by (simp add: hub_inv_def id_inv_def h2 numbered_def)
  moreover have "pub_inv h' evs" by (simp add: pub_inv_def h2 pubs)
  moreover have "reg_inv h'" by (simp add: reg_inv_def h2 pubs)
  ultimately show ?thesis using assms(3) by (simp add: hub_inv_def e h2)
qed

lemma exec_inv:
  assumes "hub_inv h evs" "\<not> h_panic h" "exec act h = Some (h', e)"
  shows "hub_inv h' (evs @ [e])"
proof (cases act)
  case (ABegin p n x t)
  from begin_inv [OF assms(1)] assms(3) show ?thesis unfolding ABegin by blast
next
  case (ASnapshot p ks t b)
  from snapshot_inv [OF assms(1)] assms(3) show ?thesis unfolding ASnapshot by blast
next
  case (ADeliver ch p t)
  from deliver_inv [OF assms(1)] assms(2,3) show ?thesis unfolding ADeliver by blast
next
  case (ADone p)
  from done_inv [OF assms(1)] assms(3) show ?thesis unfolding ADone by blast
next
  case (ASubscribe t n)
  from subscribe_inv [OF assms(1)] assms(3) show ?thesis unfolding ASubscribe by blast
next
  case (AUnsubscribe a)
  then show ?thesis using assms unsubscribe_inv [OF assms(1), of a] by simp
next
  case (AReceive a)
  from receive_inv [OF assms(1)] assms(3) show ?thesis unfolding AReceive by blast
next
  case (AClose names)
  from close_inv [OF assms(1)] assms(2,3) show ?thesis unfolding AClose by blast
qed

lemma fold_close_chan_buffer [simp]: "h_bufferSize (fold close_chan as h) = h_bufferSize h"
  by (induction as arbitrary: h) (simp_all add: close_chan_def split: option.split)

lemma exec_buffer: "exec act h = Some (h', e) \<Longrightarrow> h_bufferSize h' = h_bufferSize h"
  by (cases act)
    (auto simp: publish_begin_def getOrCreateTopic_def nextMessageID_def publish_snapshot_def deliver_def Subscribe_def unsubscribe_def
      Close_def close_loop Let_def split: if_splits option.splits publisher.splits list.splits choice.splits)

lemma new_hub_inv: "0 < b \<Longrightarrow> hub_inv (NewPubSub [WithBufferSize (int b)]) []"
  by (simp add: NewPubSub_def WithBufferSize_def hub_inv_def chan_inv_def chan_ok_def id_inv_def pub_inv_def reg_inv_def)

lemma reach_inv: "reach b h evs \<Longrightarrow> hub_inv h evs \<and> h_bufferSize h = b"
proof (induction rule: reach.induct)
  case (start b)
  then show ?case using new_hub_inv by (simp add: NewPubSub_def WithBufferSize_def)
next
  case (step b h evs act h' e)
  then show ?case using exec_inv exec_buffer by metis
qed

section \<open>What the hub guarantees\<close>

text \<open>
  C26. Delivery. However publishers, readers, subscriptions and the closing of the hub interleave: what a subscriber has received is the
  beginning, in order, of what was put into its channel, and the rest is in the buffer, which never holds more than its size; no message is put
  there twice; every message is of the topic subscribed to; and the statistics count them exactly.
\<close>

theorem pubsub_delivery:
  assumes "reach b h evs"
  shows "case h_subs h a of
      None \<Rightarrow> sent_to a evs = [] \<and> received_by a evs = []
    | Some s \<Rightarrow>
        sent_to a evs = received_by a evs @ s_queue s \<and> length (s_queue s) \<le> b \<and> distinct (map m_ID (sent_to a evs)) \<and>
        (\<forall>m \<in> set (sent_to a evs). m_Topic m = s_topic s) \<and> ss_MessagesReceived (s_stats s) = int (length (sent_to a evs))"
proof -
  have "chan_ok b a (h_subs h a) evs" using reach_inv [OF assms] chan_okD [of h evs a] by auto
  then show ?thesis unfolding chan_ok_def by (simp split: option.splits del: map_append distinct_append)
qed

text \<open>A run of the model, for the examples.\<close>

fun run :: "'a action list \<Rightarrow> 'a hub \<Rightarrow> ('a hub \<times> 'a event list) option" where
  "run [] h = Some (h, [])"
| "run (act # acts) h =
     (if h_panic h then None
      else case exec act h of
             None \<Rightarrow> None
           | Some (h', e) \<Rightarrow> (case run acts h' of None \<Rightarrow> None | Some (h'', es) \<Rightarrow> Some (h'', e # es)))"

lemma run_reach: "run acts h = Some (h', es) \<Longrightarrow> reach b h evs \<Longrightarrow> reach b h' (evs @ es)"
proof (induction acts arbitrary: h evs es)
  case (Cons act acts)
  then obtain h1 e es1 where "exec act h = Some (h1, e)" "run acts h1 = Some (h', es1)" "es = e # es1" "\<not> h_panic h"
    by (auto split: if_splits option.splits)
  then show ?case using Cons.IH [of h1 es1 "evs @ [e]"] reach.step [OF Cons.prems(2)] by simp
qed simp

lemmas run_simps = NewPubSub_def WithBufferSize_def Subscribe_def getOrCreateTopic_def nextMessageID_def new_topic_def publish_begin_def
  publish_snapshot_def deliver_def unsubscribe_def Let_def

definition quiet_run :: "nat action list" where
  "quiet_run = [ASubscribe 5 ''j'', ABegin 0 ''j'' 7 6, ASnapshot 0 [Sub 5 1] 6 1, ADeliver Send 0 6, ADone 0, AReceive (Sub 5 1)]"

theorem pubsub_delivery_witness:
  "\<exists>h evs. reach 1 h evs \<and> length (received_by (Sub 5 1) evs) = 1 \<and> sent_to (Sub 5 1) (evs :: nat event list) = received_by (Sub 5 1) evs"
proof -
  let ?h0 = "NewPubSub [WithBufferSize (int 1)] :: nat hub"
  have "case run quiet_run ?h0 of
      None \<Rightarrow> False
    | Some (h, evs) \<Rightarrow> (case h_subs h (Sub 5 1) of None \<Rightarrow> False | Some s \<Rightarrow> s_queue s = []) \<and> length (received_by (Sub 5 1) evs) = 1"
    by (simp add: quiet_run_def run_simps received_by_def)
  then obtain h evs s where r: "run quiet_run ?h0 = Some (h, evs)" "h_subs h (Sub 5 1) = Some s" "s_queue s = []" "length (received_by (Sub 5 1) evs) = 1"
    by (auto split: option.splits)
  have R: "reach 1 h evs" using run_reach [OF r(1) reach.start [of 1]] by simp
  show ?thesis using pubsub_delivery [OF R, of "Sub 5 1"] R r(2-) by auto
qed

lemma panic_only_send:
  assumes "hub_inv h evs" "\<not> h_panic h" "exec act h = Some (h', e)" "h_panic h'"
  shows "\<exists>p now msg a rest s. act = ADeliver Send p now \<and> h_publishers h p = Some (Delivering msg (a # rest)) \<and>
    h_subs h a = Some s \<and> s_closed s \<and> s_unsubscribed s"
proof (cases act)
  case (ADeliver ch p now)
  then obtain msg a rest s where p: "h_publishers h p = Some (Delivering msg (a # rest))" and s: "h_subs h a = Some s"
    "ch = Send" "s_closed s"
    using assms(2-4) by (auto simp: deliver_def split: option.splits publisher.splits list.splits choice.splits if_splits)
  then have "s_unsubscribed s"
    using closed_facts [OF assms(1) s(1)] not_closed_publisher [OF assms(1) p] by auto
  then show ?thesis using ADeliver p s by blast
next
  case (AUnsubscribe a)
  then show ?thesis using assms unsubscribe_inv [OF assms(1), of a] by simp
next
  case (AClose names)
  then show ?thesis using assms close_inv by blast
qed (use assms(2-4) in \<open>auto simp: publish_begin_def getOrCreateTopic_def nextMessageID_def publish_snapshot_def Subscribe_def Let_def
      split: if_splits option.splits publisher.splits list.splits\<close>)

text \<open>
  Where the hub can crash. The process panics in exactly one way: a publisher sends to a subscriber that unsubscribed after the publisher copied
  the list of subscribers. It does happen: one subscriber that leaves during a publication is enough. Closing the hub and
  unsubscribing never panic, and while nobody unsubscribes nothing does.
\<close>

theorem pubsub_panic:
  "(\<forall>b h evs act h' e. reach b h evs \<and> \<not> h_panic h \<and> exec act h = Some (h', e) \<and> h_panic h' \<longrightarrow>
      (\<exists>p now msg a rest s. act = ADeliver Send p now \<and> h_publishers h p = Some (Delivering msg (a # rest)) \<and>
         h_subs h a = Some s \<and> s_closed s \<and> s_unsubscribed s)) \<and>
   (\<exists>h evs. reach 10 (h :: nat hub) evs \<and> h_panic h)"
proof
  show "\<forall>b h evs act h' e. reach b h evs \<and> \<not> h_panic h \<and> exec act h = Some (h', e) \<and> h_panic h' \<longrightarrow>
      (\<exists>p now msg a rest s. act = ADeliver Send p now \<and> h_publishers h p = Some (Delivering msg (a # rest)) \<and>
         h_subs h a = Some s \<and> s_closed s \<and> s_unsubscribed s)"
    using reach_inv panic_only_send by blast
  let ?h0 = "NewPubSub [WithBufferSize (int 10)] :: nat hub"
  let ?acts = "[ASubscribe 5 ''j'', ABegin 0 ''j'' 7 6, ASnapshot 0 [Sub 5 1] 6 1, AUnsubscribe (Sub 5 1), ADeliver Send 0 6]"
  have "case run ?acts ?h0 of None \<Rightarrow> False | Some (h, evs) \<Rightarrow> h_panic h" by (simp add: run_simps)
  then obtain h evs where "run ?acts ?h0 = Some (h, evs)" "h_panic h" by (auto split: option.splits)
  then show "\<exists>h evs. reach 10 (h :: nat hub) evs \<and> h_panic h"
    using run_reach [OF _ reach.start [of 10]] by fastforce
qed

theorem pubsub_panic_witness:
  "\<exists>h evs h' e. reach 10 (h :: nat hub) evs \<and> \<not> h_panic h \<and> exec (ADeliver Send 0 6) h = Some (h', e) \<and> h_panic h' \<and>
     (\<exists>a s. h_subs h a = Some s \<and> s_closed s \<and> s_unsubscribed s)"
proof -
  let ?h0 = "NewPubSub [WithBufferSize (int 10)] :: nat hub"
  let ?acts = "[ASubscribe 5 ''j'', ABegin 0 ''j'' 7 6, ASnapshot 0 [Sub 5 1] 6 1, AUnsubscribe (Sub 5 1)]"
  have "case run ?acts ?h0 of None \<Rightarrow> False
    | Some (h, evs) \<Rightarrow> \<not> h_panic h \<and> (case exec (ADeliver Send 0 6) h of None \<Rightarrow> False | Some (h', e) \<Rightarrow> h_panic h')"
    by (simp add: run_simps)
  then obtain h evs h' e where r: "run ?acts ?h0 = Some (h, evs)" "\<not> h_panic h" "exec (ADeliver Send 0 6) h = Some (h', e)" "h_panic h'"
    by (auto split: option.splits)
  have R: "reach 10 h evs" using run_reach [OF r(1) reach.start [of 10]] by simp
  have "\<exists>p now msg a rest s. ADeliver Send 0 6 = (ADeliver Send p now :: nat action) \<and> h_publishers h p = Some (Delivering msg (a # rest)) \<and>
      h_subs h a = Some s \<and> s_closed s \<and> s_unsubscribed s"
    using pubsub_panic R r(2-) by blast
  then show ?thesis using R r(2-) by blast
qed

end
