(* ===== verification/JobStore.thy ===== *)
theory JobStore
  imports Stores StateStorage
begin

text \<open>
  The log buffers (\<open>internal/joblet/adapters/log_buffer.go\<close>) and the job store adapter
  (\<open>internal/joblet/adapters/job_store_adapter.go\<close>): jobs, their output, the events published about them, and the streaming of
  output to clients.

  The adapter keeps the jobs in a backend of the interface \<open>kv_store\<close>; here it is the one the server installs, and the proofs use
  the laws of the interface. Each operation is one step: it holds the adapter's mutexes around each access, and the accesses of one operation are not
  interleaved with another operation here, except in the streaming of output, where the two halves of a write are separate steps. A job is handed over by value. A task and
  the log manager share one buffer object, found in the manager under the identifier of the job.
  Events go to the hub in the order they are published (\<open>a_events\<close>). The calls to the state service are started in goroutines of their own: \<open>a_stateOps\<close> lists
  them in the order they are started, and nothing orders their execution.
\<close>

section \<open>Log buffers (log\_buffer.go)\<close>

type_synonym chunk = string

record SimpleLogBuffer =
  lb_jobID :: string
  lb_data :: "chunk list"

definition NewSimpleLogBuffer :: "string \<Rightarrow> SimpleLogBuffer" where
  "NewSimpleLogBuffer jobID = \<lparr>lb_jobID = jobID, lb_data = []\<rparr>"

definition LogBuffer_Write :: "chunk \<Rightarrow> SimpleLogBuffer \<Rightarrow> SimpleLogBuffer" where
  "LogBuffer_Write data b = b\<lparr>lb_data := lb_data b @ [data]\<rparr>"

definition LogBuffer_ReadAll :: "SimpleLogBuffer \<Rightarrow> chunk list" where
  "LogBuffer_ReadAll b = lb_data b"

text \<open>A negative count panics in the slice expression; the adapter calls it with positive counts only.\<close>

definition LogBuffer_ReadAfterSkip :: "int \<Rightarrow> SimpleLogBuffer \<Rightarrow> chunk list option" where
  "LogBuffer_ReadAfterSkip skipCount b =
     (if skipCount \<ge> int (length (lb_data b)) then Some []
      else if skipCount < 0 then None
      else Some (drop (nat skipCount) (lb_data b)))"

definition LogBuffer_Size :: "SimpleLogBuffer \<Rightarrow> nat" where
  "LogBuffer_Size b = length (lb_data b)"

definition LogBuffer_Clear :: "SimpleLogBuffer \<Rightarrow> SimpleLogBuffer" where
  "LogBuffer_Clear b = b\<lparr>lb_data := []\<rparr>"

type_synonym log_manager = "string \<rightharpoonup> SimpleLogBuffer"

definition NewSimpleLogManager :: log_manager where
  "NewSimpleLogManager = Map.empty"

definition GetBuffer :: "string \<Rightarrow> log_manager \<Rightarrow> SimpleLogBuffer \<times> log_manager" where
  "GetBuffer jobID m =
     (case m jobID of
        Some buffer \<Rightarrow> (buffer, m)
      | None \<Rightarrow> (NewSimpleLogBuffer jobID, m(jobID \<mapsto> NewSimpleLogBuffer jobID)))"

definition RemoveBuffer :: "string \<Rightarrow> log_manager \<Rightarrow> SimpleLogBuffer option \<times> log_manager" where
  "RemoveBuffer jobID m = (m jobID, m(jobID := None))"

definition ListBuffers :: "string list \<Rightarrow> log_manager \<Rightarrow> string list" where
  "ListBuffers ks m = ks"

definition LogManager_Stats :: "string list \<Rightarrow> log_manager \<Rightarrow> nat \<times> nat" where
  "LogManager_Stats ks m = (length ks, sum_list (map LogBuffer_Size (range_vals ks m)))"

section \<open>The adapter\<close>

record JobEvent =
  ev_Type :: string
  ev_JobUUID :: string
  ev_Status :: string
  ev_LogChunk :: chunk
  ev_Metadata :: "string \<rightharpoonup> string"
  ev_Timestamp :: int

record taskWrapper =
  tw_job :: Job
  tw_subscribers :: "string list"

datatype state_op = StateCreate Job | StateUpdate Job | StateDelete string

record jobStoreAdapter =
  a_jobStore :: SimpleJobStore
  a_logMgr :: log_manager
  a_tasks :: "string \<rightharpoonup> taskWrapper"
  a_closed :: bool
  a_persistEnabled :: bool
  a_stateClient :: bool
  a_events :: "JobEvent list"
  a_stateOps :: "state_op list"

datatype adapter_error =
    AdapterClosed
  | NoJobWithPrefix string
  | AmbiguousPrefix string
  | JobMissing string
  | JobRunning string string
  | OutputNotFound
  | PersistDeleteFailed
  | StateUnavailable
  | StateListFailed

definition job_event :: "string \<Rightarrow> string \<Rightarrow> string \<Rightarrow> chunk \<Rightarrow> int \<Rightarrow> JobEvent" where
  "job_event typ uuid status data now =
     \<lparr>ev_Type = typ, ev_JobUUID = uuid, ev_Status = status, ev_LogChunk = data, ev_Metadata = Map.empty, ev_Timestamp = now\<rparr>"

definition publishEvent :: "JobEvent \<Rightarrow> jobStoreAdapter \<Rightarrow> jobStoreAdapter" where
  "publishEvent event a = a\<lparr>a_events := a_events a @ [event]\<rparr>"

definition publishJobEvent :: "string \<Rightarrow> string \<Rightarrow> (string \<rightharpoonup> string) \<Rightarrow> int \<Rightarrow> jobStoreAdapter \<Rightarrow> jobStoreAdapter" where
  "publishJobEvent typ jobID metadata now a = publishEvent ((job_event typ jobID [] [] now)\<lparr>ev_Metadata := metadata\<rparr>) a"

definition start_state_op :: "state_op \<Rightarrow> jobStoreAdapter \<Rightarrow> jobStoreAdapter" where
  "start_state_op op a = (if a_stateClient a then a\<lparr>a_stateOps := a_stateOps a @ [op]\<rparr> else a)"

definition CreateNewJob :: "int \<Rightarrow> Job \<Rightarrow> jobStoreAdapter \<Rightarrow> jobStoreAdapter" where
  "CreateNewJob now job a =
     (if a_closed a then a
      else (case SimpleJobStore_Create (a_jobStore a) (job_Uuid job) job of
              (js, Inl err) \<Rightarrow> a\<lparr>a_jobStore := js\<rparr>
            | (js, Inr _) \<Rightarrow>
                (let (logBuffer, mgr) = GetBuffer (job_Uuid job) (a_logMgr a);
                     task = \<lparr>tw_job = DeepCopy job, tw_subscribers = []\<rparr>;
                     a = a\<lparr>a_jobStore := js, a_logMgr := mgr, a_tasks := (a_tasks a)(job_Uuid job \<mapsto> task)\<rparr>;
                     a = publishEvent (job_event ''CREATED'' (job_Uuid job) (job_Status job) [] now) a
                 in start_state_op (StateCreate job) a)))"

definition UpdateJob :: "int \<Rightarrow> Job \<Rightarrow> jobStoreAdapter \<Rightarrow> jobStoreAdapter" where
  "UpdateJob now job a =
     (if a_closed a then a
      else (case a_tasks a (job_Uuid job) of
              None \<Rightarrow> a
            | Some task \<Rightarrow>
                (let a = a\<lparr>a_jobStore := SimpleJobStore_Update (a_jobStore a) (job_Uuid job) job,
                           a_tasks := (a_tasks a)(job_Uuid job \<mapsto> task\<lparr>tw_job := DeepCopy job\<rparr>)\<rparr>;
                     a = publishEvent (job_event ''UPDATED'' (job_Uuid job) (job_Status job) [] now) a
                 in start_state_op (StateUpdate job) a)))"

definition adapter_Job :: "string \<Rightarrow> jobStoreAdapter \<Rightarrow> Job option" where
  "adapter_Job ident a = (if a_closed a then None else map_option DeepCopy (SimpleJobStore_Get (a_jobStore a) ident))"

definition JobByPrefix :: "string list \<Rightarrow> string \<Rightarrow> jobStoreAdapter \<Rightarrow> Job option" where
  "JobByPrefix ks prefix a =
     (case adapter_Job prefix a of
        Some job \<Rightarrow> Some job
      | None \<Rightarrow>
          if length prefix < 36 then
            if a_closed a then None
            else (case filter (\<lambda>job. HasPrefix (job_Uuid job) prefix) (SimpleJobStore_List ks (a_jobStore a)) of
                    [job] \<Rightarrow> Some (DeepCopy job)
                  | _ \<Rightarrow> None)
          else None)"

definition ListJobs :: "string list \<Rightarrow> jobStoreAdapter \<Rightarrow> Job list" where
  "ListJobs ks a = (if a_closed a then [] else map DeepCopy (SimpleJobStore_List ks (a_jobStore a)))"

definition resolveUuidByPrefix :: "string list \<Rightarrow> string \<Rightarrow> jobStoreAdapter \<Rightarrow> (adapter_error, string) result" where
  "resolveUuidByPrefix ks prefix a =
     (if length prefix = 36 then Inr prefix
      else (case filter (\<lambda>uuid. HasPrefix uuid prefix) ks of
              [] \<Rightarrow> Inl (NoJobWithPrefix prefix)
            | [uuid] \<Rightarrow> Inr uuid
            | _ \<Rightarrow> Inl (AmbiguousPrefix prefix)))"

definition WriteToBuffer :: "string list \<Rightarrow> int \<Rightarrow> string \<Rightarrow> chunk \<Rightarrow> jobStoreAdapter \<Rightarrow> jobStoreAdapter" where
  "WriteToBuffer ks now jobID data a =
     (if length data = 0 then a
      else (case resolveUuidByPrefix ks jobID a of
              Inl _ \<Rightarrow> a
            | Inr uuid \<Rightarrow>
                (case a_tasks a uuid of
                   None \<Rightarrow> a
                 | Some task \<Rightarrow>
                     (let a = (case a_logMgr a uuid of
                                 Some b \<Rightarrow> if a_persistEnabled a then a\<lparr>a_logMgr := (a_logMgr a)(uuid \<mapsto> LogBuffer_Write data b)\<rparr> else a
                               | None \<Rightarrow> a)
                      in publishEvent (job_event ''LOG_CHUNK'' uuid [] data now) a))))"

definition Output :: "string list \<Rightarrow> string \<Rightarrow> jobStoreAdapter \<Rightarrow> (adapter_error, string \<times> bool) result" where
  "Output ks ident a =
     (case resolveUuidByPrefix ks ident a of
        Inl _ \<Rightarrow> Inl OutputNotFound
      | Inr uuid \<Rightarrow>
          (case a_tasks a uuid of
             None \<Rightarrow> Inl OutputNotFound
           | Some task \<Rightarrow>
               (case a_logMgr a uuid of
                  None \<Rightarrow> Inr ([], IsRunning (tw_job task))
                | Some b \<Rightarrow> Inr (concat (LogBuffer_ReadAll b), IsRunning (tw_job task)))))"

text \<open>\<open>fetched\<close> is what the state service lists, \<open>None\<close> if it fails.\<close>

definition restore_job :: "Job \<Rightarrow> jobStoreAdapter \<Rightarrow> jobStoreAdapter" where
  "restore_job job a =
     (case SimpleJobStore_Create (a_jobStore a) (job_Uuid job) job of
        (js, Inl err) \<Rightarrow> a\<lparr>a_jobStore := js\<rparr>
      | (js, Inr _) \<Rightarrow>
          (let (logBuffer, mgr) = GetBuffer (job_Uuid job) (a_logMgr a)
           in a\<lparr>a_jobStore := js, a_logMgr := mgr,
                a_tasks := (a_tasks a)(job_Uuid job \<mapsto> \<lparr>tw_job = DeepCopy job, tw_subscribers = []\<rparr>)\<rparr>))"

definition SyncFromPersistentState :: "Job list option \<Rightarrow> jobStoreAdapter \<Rightarrow> jobStoreAdapter \<times> (adapter_error, unit) result" where
  "SyncFromPersistentState fetched a =
     (if \<not> a_stateClient a then (a, Inl StateUnavailable)
      else (case fetched of
              None \<Rightarrow> (a, Inl StateListFailed)
            | Some js \<Rightarrow> (fold restore_job js a, Inr ())))"

definition cleanupSubscribers :: "taskWrapper \<Rightarrow> taskWrapper" where
  "cleanupSubscribers t = t\<lparr>tw_subscribers := []\<rparr>"

definition adapter_Close :: "jobStoreAdapter \<Rightarrow> jobStoreAdapter" where
  "adapter_Close a =
     (if a_closed a then a
      else a\<lparr>a_closed := True, a_tasks := Map.empty, a_jobStore := SimpleJobStore_Close (a_jobStore a)\<rparr>)"

definition ensureNotClosed :: "jobStoreAdapter \<Rightarrow> (adapter_error, unit) result" where
  "ensureNotClosed a = (if a_closed a then Inl AdapterClosed else Inr ())"

definition resolveJobUuid :: "string list \<Rightarrow> string \<Rightarrow> jobStoreAdapter \<Rightarrow> (adapter_error, string) result" where
  "resolveJobUuid ks jobID a =
     (case resolveUuidByPrefix ks jobID a of Inl _ \<Rightarrow> Inl (JobMissing jobID) | Inr uuid \<Rightarrow> Inr uuid)"

definition ResolveJobUUID :: "string list \<Rightarrow> string \<Rightarrow> jobStoreAdapter \<Rightarrow> (adapter_error, string) result" where
  "ResolveJobUUID ks idOrPrefix a = resolveJobUuid ks idOrPrefix a"

definition validateAndResolveJob :: "string list \<Rightarrow> string \<Rightarrow> jobStoreAdapter \<Rightarrow> (adapter_error, string \<times> Job) result" where
  "validateAndResolveJob ks jobID a =
     (case resolveJobUuid ks jobID a of
        Inl err \<Rightarrow> Inl err
      | Inr uuid \<Rightarrow> (case adapter_Job uuid a of None \<Rightarrow> Inl (JobMissing uuid) | Some job \<Rightarrow> Inr (uuid, job)))"

definition validateJobNotRunning :: "Job \<Rightarrow> (adapter_error, unit) result" where
  "validateJobNotRunning job =
     (if job_Status job = StatusRunning \<or> job_Status job = StatusInitializing then Inl (JobRunning (job_Uuid job) (job_Status job))
      else Inr ())"

definition cleanupTaskWrapper :: "string \<Rightarrow> jobStoreAdapter \<Rightarrow> jobStoreAdapter" where
  "cleanupTaskWrapper jobID a =
     (case a_tasks a jobID of None \<Rightarrow> a | Some task \<Rightarrow> a\<lparr>a_tasks := (a_tasks a)(jobID \<mapsto> cleanupSubscribers task)\<rparr>)"

definition completeTaskCleanup :: "string \<Rightarrow> jobStoreAdapter \<Rightarrow> jobStoreAdapter" where
  "completeTaskCleanup jobID a =
     (case a_tasks a jobID of
        None \<Rightarrow> a
      | Some task \<Rightarrow> a\<lparr>a_logMgr := snd (RemoveBuffer jobID (a_logMgr a)), a_tasks := (a_tasks a)(jobID := None)\<rparr>)"

text \<open>\<open>persistDelete\<close> is the answer of the persistence service, \<open>None\<close> without a client.\<close>

definition DeleteJobLogs :: "string list \<Rightarrow> bool option \<Rightarrow> string \<Rightarrow> jobStoreAdapter \<Rightarrow> jobStoreAdapter \<times> (adapter_error, unit) result" where
  "DeleteJobLogs ks persistDelete jobID a =
     (case ensureNotClosed a of
        Inl err \<Rightarrow> (a, Inl err)
      | Inr _ \<Rightarrow>
          (case resolveJobUuid ks jobID a of
             Inl err \<Rightarrow> (a, Inl err)
           | Inr uuid \<Rightarrow> (completeTaskCleanup uuid a, if persistDelete = Some False then Inl PersistDeleteFailed else Inr ())))"

definition adapter_DeleteJob :: "string list \<Rightarrow> int \<Rightarrow> string \<Rightarrow> jobStoreAdapter \<Rightarrow> jobStoreAdapter \<times> (adapter_error, unit) result" where
  "adapter_DeleteJob ks now jobID a =
     (case ensureNotClosed a of
        Inl err \<Rightarrow> (a, Inl err)
      | Inr _ \<Rightarrow>
          (case validateAndResolveJob ks jobID a of
             Inl err \<Rightarrow> (a, Inl err)
           | Inr (uuid, job) \<Rightarrow>
               (case validateJobNotRunning job of
                  Inl err \<Rightarrow> (a, Inl err)
                | Inr _ \<Rightarrow>
                    (let a = cleanupTaskWrapper uuid a;
                         a = a\<lparr>a_jobStore := SimpleJobStore_Delete (a_jobStore a) uuid\<rparr>;
                         a = start_state_op (StateDelete uuid) a
                     in (publishJobEvent ''DELETED'' uuid [''reason'' \<mapsto> ''user_requested''] now a, Inr ())))))"

subsection \<open>Streaming output to a client\<close>

definition drainQuietPeriod :: duration where
  "drainQuietPeriod = 500 * 1000000"

datatype stream_error = SendFailed

text \<open>The loop of \<open>subscribeToJobUpdates\<close>: what it remembers, what it has sent, and its result once it has ended.\<close>

record stream_loop =
  sl_jobCompleted :: bool
  sl_drainDeadline :: instant
  sl_sent :: "chunk list"
  sl_result :: "(stream_error, unit) result option"

definition stream_start :: "chunk list \<Rightarrow> stream_loop" where
  "stream_start snapshot = \<lparr>sl_jobCompleted = False, sl_drainDeadline = 0, sl_sent = snapshot, sl_result = None\<rparr>"

text \<open>What wakes the \<open>select\<close>: a context, the timer of the drain, the channel closed, or an event; the event comes with the time and with whether the client takes the data.\<close>

datatype wake = ContextDone | DrainTimer | ChannelClosed | Event instant JobEvent bool

definition final_status :: "string \<Rightarrow> bool" where
  "final_status st \<longleftrightarrow> st = StatusCompleted \<or> st = StatusFailed \<or> st = StatusStopped"

definition handle_event :: "string \<Rightarrow> instant \<Rightarrow> JobEvent \<Rightarrow> bool \<Rightarrow> stream_loop \<Rightarrow> stream_loop" where
  "handle_event uuid now event ok l =
     (if ev_JobUUID event \<noteq> uuid then l
      else if ev_Type event = ''LOG_CHUNK'' then
        if length (ev_LogChunk event) > 0 then
          if \<not> ok then l\<lparr>sl_result := Some (Inl SendFailed)\<rparr>
          else let l = l\<lparr>sl_sent := sl_sent l @ [ev_LogChunk event]\<rparr> in
               if sl_jobCompleted l then l\<lparr>sl_drainDeadline := now + drainQuietPeriod\<rparr> else l
        else l
      else if ev_Type event = ''UPDATED'' then
        if final_status (ev_Status event) \<and> \<not> sl_jobCompleted l then l\<lparr>sl_jobCompleted := True, sl_drainDeadline := now + drainQuietPeriod\<rparr> else l
      else l)"

text \<open>One iteration, which reads the clock at its start.\<close>

definition stream_iter :: "string \<Rightarrow> instant \<times> wake \<Rightarrow> stream_loop \<Rightarrow> stream_loop" where
  "stream_iter uuid it l =
     (if sl_result l \<noteq> None then l
      else if sl_jobCompleted l \<and> fst it > sl_drainDeadline l then l\<lparr>sl_result := Some (Inr ())\<rparr>
      else (case snd it of
              ContextDone \<Rightarrow> l\<lparr>sl_result := Some (Inr ())\<rparr>
            | DrainTimer \<Rightarrow> l
            | ChannelClosed \<Rightarrow> l\<lparr>sl_result := Some (Inr ())\<rparr>
            | Event now event ok \<Rightarrow> handle_event uuid now event ok l))"

text \<open>The snapshot of the buffer that is sent first.\<close>

definition buffer_snapshot :: "string \<Rightarrow> int \<Rightarrow> jobStoreAdapter \<Rightarrow> chunk list" where
  "buffer_snapshot uuid skipCount a =
     (case a_logMgr a uuid of
        Some b \<Rightarrow>
          if \<not> a_persistEnabled a then []
          else if skipCount > 0 then (case LogBuffer_ReadAfterSkip skipCount b of Some cs \<Rightarrow> cs | None \<Rightarrow> [])
          else LogBuffer_ReadAll b
      | None \<Rightarrow> [])"

fun send_all :: "(chunk \<Rightarrow> bool) \<Rightarrow> chunk list \<Rightarrow> chunk list \<times> (stream_error, unit) result" where
  "send_all ok [] = ([], Inr ())"
| "send_all ok (c # cs) = (if ok c then (let (sent, r) = send_all ok cs in (c # sent, r)) else ([], Inl SendFailed))"

text \<open>
  How a stream begins: an error, the whole answer for a job that is over, or for a live one the subscription (made before the snapshot is taken) and
  the loop that starts after the snapshot was sent.
\<close>

datatype stream_begin = StreamNotFound | StreamOver "chunk list" "(stream_error, unit) result" | StreamLive string stream_loop

definition SendUpdatesToClientWithSkip :: "string list \<Rightarrow> string \<Rightarrow> string \<Rightarrow> (chunk \<Rightarrow> bool) \<Rightarrow> int \<Rightarrow> jobStoreAdapter \<Rightarrow> jobStoreAdapter \<times> stream_begin" where
  "SendUpdatesToClientWithSkip ks subID ident ok skipCount a =
     (case resolveUuidByPrefix ks ident a of
        Inl _ \<Rightarrow> (a, StreamNotFound)
      | Inr uuid \<Rightarrow>
          (case a_tasks a uuid of
             None \<Rightarrow> (a, StreamNotFound)
           | Some task \<Rightarrow>
               (let (sent, r) = send_all ok (buffer_snapshot uuid skipCount a) in
                if IsCompleted (tw_job task) then (a, StreamOver sent r)
                else (case r of
                        Inl err \<Rightarrow> (a, StreamOver sent (Inl err))
                      | Inr _ \<Rightarrow> (a\<lparr>a_tasks := (a_tasks a)(uuid \<mapsto> task\<lparr>tw_subscribers := tw_subscribers task @ [subID]\<rparr>)\<rparr>,
                                 StreamLive uuid (stream_start sent))))))"

definition SendUpdatesToClient :: "string list \<Rightarrow> string \<Rightarrow> string \<Rightarrow> (chunk \<Rightarrow> bool) \<Rightarrow> jobStoreAdapter \<Rightarrow> jobStoreAdapter \<times> stream_begin" where
  "SendUpdatesToClient ks subID ident ok a = SendUpdatesToClientWithSkip ks subID ident ok 0 a"

section \<open>Sequences of operations\<close>

datatype aop =
    OCreate int Job
  | OUpdate int Job
  | OWrite "string list" int string chunk
  | ODelete "string list" int string
  | ODeleteLogs "string list" "bool option" string

fun apply_op :: "aop \<Rightarrow> jobStoreAdapter \<Rightarrow> jobStoreAdapter" where
  "apply_op (OCreate now job) a = CreateNewJob now job a"
| "apply_op (OUpdate now job) a = UpdateJob now job a"
| "apply_op (OWrite ks now uuid c) a = WriteToBuffer ks now uuid c a"
| "apply_op (ODelete ks now uuid) a = fst (adapter_DeleteJob ks now uuid a)"
| "apply_op (ODeleteLogs ks r uuid) a = fst (DeleteJobLogs ks r uuid a)"

abbreviation apply_ops :: "aop list \<Rightarrow> jobStoreAdapter \<Rightarrow> jobStoreAdapter" where
  "apply_ops ops a \<equiv> fold apply_op ops a"

text \<open>The chunks written to a job, given by its full identifier.\<close>

fun op_chunk :: "string \<Rightarrow> aop \<Rightarrow> chunk list" where
  "op_chunk uuid (OWrite ks now u c) = (if u = uuid \<and> c \<noteq> [] then [c] else [])"
| "op_chunk uuid _ = []"

definition written :: "string \<Rightarrow> aop list \<Rightarrow> chunk list" where
  "written uuid ops = concat (map (op_chunk uuid) ops)"

text \<open>The latest version of a job.\<close>

fun op_job :: "string \<Rightarrow> aop \<Rightarrow> Job \<Rightarrow> Job" where
  "op_job uuid (OUpdate now j) job = (if job_Uuid j = uuid then j else job)"
| "op_job uuid _ job = job"

text \<open>Full identifiers; the log of the job is not deleted and it is not created again.\<close>

fun plain_op :: "string \<Rightarrow> aop \<Rightarrow> bool" where
  "plain_op uuid (OCreate now j) = (job_Uuid j \<noteq> uuid)"
| "plain_op uuid (OUpdate now j) = True"
| "plain_op uuid (OWrite ks now u c) = (length u = 36)"
| "plain_op uuid (ODelete ks now u) = (length u = 36)"
| "plain_op uuid (ODeleteLogs ks r u) = (length u = 36 \<and> u \<noteq> uuid)"

definition log_chunks :: "string \<Rightarrow> JobEvent list \<Rightarrow> chunk list" where
  "log_chunks uuid evs = map ev_LogChunk (filter (\<lambda>e. ev_JobUUID e = uuid \<and> ev_Type e = ''LOG_CHUNK'') evs)"

lemma log_chunks_simps [simp]:
  "log_chunks uuid [] = []" "log_chunks uuid (xs @ ys) = log_chunks uuid xs @ log_chunks uuid ys"
  "log_chunks uuid [job_event typ u st c now] = (if u = uuid \<and> typ = ''LOG_CHUNK'' then [c] else [])"
  by (simp_all add: log_chunks_def job_event_def)

text \<open>What one operation does to the log of a job.\<close>

definition log_state :: "string \<Rightarrow> jobStoreAdapter \<Rightarrow> Job \<Rightarrow> chunk list \<Rightarrow> chunk list \<Rightarrow> bool" where
  "log_state uuid a job stored published \<longleftrightarrow>
     \<not> a_closed a \<and> a_persistEnabled a \<and> map_option tw_job (a_tasks a uuid) = Some (DeepCopy job) \<and>
     map_option lb_data (a_logMgr a uuid) = Some stored \<and> log_chunks uuid (a_events a) = published"

lemma resolve_full: "length u = 36 \<Longrightarrow> resolveUuidByPrefix ks u a = Inr u"
  by (simp add: resolveUuidByPrefix_def)

lemma DeepCopy_IsRunning [simp]: "IsRunning (DeepCopy j) = IsRunning j"
  by (simp add: IsRunning_def)

lemma start_state_op_simps [simp]:
  "a_tasks (start_state_op op a) = a_tasks a" "a_logMgr (start_state_op op a) = a_logMgr a" "a_closed (start_state_op op a) = a_closed a"
  "a_persistEnabled (start_state_op op a) = a_persistEnabled a" "a_events (start_state_op op a) = a_events a"
  "a_jobStore (start_state_op op a) = a_jobStore a" "a_stateClient (start_state_op op a) = a_stateClient a"
  by (simp_all add: start_state_op_def)

lemma log_state_step:
  assumes "log_state uuid a job stored published" "plain_op uuid op"
  shows "log_state uuid (apply_op op a) (op_job uuid op job) (stored @ op_chunk uuid op) (published @ op_chunk uuid op)"
proof (cases op)
  case (OCreate now j)
  then show ?thesis using assms
    by (auto simp: log_state_def CreateNewJob_def SimpleJobStore_Create_def GetBuffer_def publishEvent_def Let_def split: option.splits)
next
  case (OUpdate now j)
  then show ?thesis using assms
    by (auto simp: log_state_def UpdateJob_def publishEvent_def Let_def split: option.splits)
next
  case (OWrite ks now u c)
  then show ?thesis using assms
    by (auto simp: log_state_def WriteToBuffer_def resolve_full publishEvent_def LogBuffer_Write_def split: option.splits)
next
  case (ODelete ks now u)
  have "log_state uuid (fst (adapter_DeleteJob ks now u a)) job stored published"
    using assms(1) by (auto simp: log_state_def adapter_DeleteJob_def publishJobEvent_def publishEvent_def cleanupTaskWrapper_def
        cleanupSubscribers_def Let_def log_chunks_def job_event_def split: sum.splits prod.splits option.splits)
  then show ?thesis using ODelete by simp
next
  case (ODeleteLogs ks r u)
  then show ?thesis using assms
    by (auto simp: log_state_def DeleteJobLogs_def resolveJobUuid_def resolve_full completeTaskCleanup_def RemoveBuffer_def
        split: sum.splits option.splits)
qed

lemma log_state_run:
  "log_state uuid a job stored published \<Longrightarrow> list_all (plain_op uuid) ops \<Longrightarrow>
   log_state uuid (apply_ops ops a) (fold (op_job uuid) ops job) (stored @ written uuid ops) (published @ written uuid ops)"
proof (induction ops arbitrary: a job stored published)
  case (Cons op ops)
  then show ?case using Cons.IH [OF log_state_step [OF Cons.prems(1)]] by (simp add: written_def)
qed (simp add: written_def)

lemma log_state_Output:
  "log_state uuid a job stored published \<Longrightarrow> length uuid = 36 \<Longrightarrow> Output ks uuid a = Inr (concat stored, IsRunning job)"
  by (auto simp: log_state_def Output_def resolve_full LogBuffer_ReadAll_def split: option.splits)

text \<open>
  Nothing of the output is lost. From the creation of a job on, whatever other jobs do in between, its output is the
  concatenation of the chunks written to it, in order, and exactly these chunks are published to live readers, in that order; the
  status that goes with the output is that of the latest update. Deleting the job keeps the output.
\<close>

theorem output_is_what_was_written:
  fixes now :: int
  assumes "\<not> a_closed a" "a_persistEnabled a" "a_logMgr a (job_Uuid job) = None" "length (job_Uuid job) = 36"
    and "list_all (plain_op (job_Uuid job)) ops"
  defines "uuid \<equiv> job_Uuid job" and "b \<equiv> CreateNewJob now job a"
  shows "Output ks uuid (apply_ops ops b) = Inr (concat (written uuid ops), IsRunning (fold (op_job uuid) ops job)) \<and>
    log_chunks uuid (a_events (apply_ops ops b)) = log_chunks uuid (a_events a) @ written uuid ops"
proof -
  have "log_state uuid b job [] (log_chunks uuid (a_events a))"
    using assms(1-3) by (simp add: log_state_def b_def uuid_def CreateNewJob_def SimpleJobStore_Create_def GetBuffer_def NewSimpleLogBuffer_def publishEvent_def Let_def)
  then have L: "log_state uuid (apply_ops ops b) (fold (op_job uuid) ops job) ([] @ written uuid ops) (log_chunks uuid (a_events a) @ written uuid ops)"
    by (rule log_state_run) (use assms(5) in \<open>simp add: uuid_def\<close>)
  show ?thesis
    using log_state_Output [OF L, of ks] L assms(4) by (simp add: uuid_def log_state_def)
qed

definition example_uuid :: string where
  "example_uuid = replicate 36 CHR ''a''"

definition new_adapter :: "bool \<Rightarrow> jobStoreAdapter" where
  "new_adapter persist = \<lparr>a_jobStore = \<lparr>sjs_jobs = Map.empty\<rparr>, a_logMgr = Map.empty, a_tasks = Map.empty, a_closed = False,
     a_persistEnabled = persist, a_stateClient = True, a_events = [], a_stateOps = []\<rparr>"

definition example_job :: "string \<Rightarrow> string \<Rightarrow> Job" where
  "example_job uuid st = zero_job\<lparr>job_Uuid := uuid, job_Status := st, job_StartTime := 1\<rparr>"

theorem output_is_what_was_written_witness:
  "Output [] example_uuid
     (apply_ops [OUpdate 2 (example_job example_uuid StatusRunning), OWrite [] 3 example_uuid ''ab'', OWrite [] 4 example_uuid [], OWrite [] 5 example_uuid ''c'']
        (CreateNewJob 1 (example_job example_uuid StatusInitializing) (new_adapter True))) = Inr (''abc'', True)"
  using output_is_what_was_written [of "new_adapter True" "example_job example_uuid StatusInitializing"
      "[OUpdate 2 (example_job example_uuid StatusRunning), OWrite [] 3 example_uuid ''ab'', OWrite [] 4 example_uuid [], OWrite [] 5 example_uuid ''c'']" "[]" 1]
  by (simp add: new_adapter_def example_job_def example_uuid_def written_def IsRunning_def)

section \<open>Deleting a job\<close>

lemma adapter_Job_get: "\<not> a_closed a \<Longrightarrow> adapter_Job u a = map_option DeepCopy (sjs_jobs (a_jobStore a) u)"
  by (simp add: adapter_Job_def SimpleJobStore_Get_def)

text \<open>
  Deleting. A running or initializing job is not deleted and nothing changes. Any other job is gone from the store, the other
  jobs are as they were, its output can still be read and its identifier still resolves. An update that comes after
  the deletion brings the job back.
\<close>

theorem delete_job:
  assumes "\<not> a_closed a" "length u = 36" "sjs_jobs (a_jobStore a) u = Some job" "job_Uuid job = u"
  shows "(if job_Status job = StatusRunning \<or> job_Status job = StatusInitializing
      then adapter_DeleteJob ks now u a = (a, Inl (JobRunning u (job_Status job)))
      else \<exists>b. adapter_DeleteJob ks now u a = (b, Inr ()) \<and> adapter_Job u b = None \<and> (\<forall>v. v \<noteq> u \<longrightarrow> adapter_Job v b = adapter_Job v a) \<and>
        Output ks u b = Output ks u a \<and> resolveUuidByPrefix ks u b = Inr u \<and>
        (a_tasks a u \<noteq> None \<and> job_Uuid later = u \<longrightarrow> adapter_Job u (UpdateJob now' later b) = Some (DeepCopy later)))"
proof (cases "job_Status job = StatusRunning \<or> job_Status job = StatusInitializing")
  case True
  then show ?thesis using assms
    by (simp add: adapter_DeleteJob_def ensureNotClosed_def validateAndResolveJob_def resolveJobUuid_def resolve_full adapter_Job_get validateJobNotRunning_def)
next
  case False
  let ?b = "publishJobEvent ''DELETED'' u [''reason'' \<mapsto> ''user_requested''] now
     (start_state_op (StateDelete u) ((cleanupTaskWrapper u a)\<lparr>a_jobStore := SimpleJobStore_Delete (a_jobStore (cleanupTaskWrapper u a)) u\<rparr>))"
  have del: "adapter_DeleteJob ks now u a = (?b, Inr ())"
    using assms False
    by (simp add: adapter_DeleteJob_def ensureNotClosed_def validateAndResolveJob_def resolveJobUuid_def resolve_full adapter_Job_get validateJobNotRunning_def Let_def)
  have store: "sjs_jobs (a_jobStore ?b) = (sjs_jobs (a_jobStore a))(u := None)" "\<not> a_closed ?b" "a_logMgr ?b = a_logMgr a"
    "a_tasks ?b = (a_tasks a)(u := map_option cleanupSubscribers (a_tasks a u))"
    using assms(1) by (auto simp: publishJobEvent_def publishEvent_def cleanupTaskWrapper_def SimpleJobStore_Delete_def fun_eq_iff split: option.splits)
  have out: "Output ks u ?b = Output ks u a"
    using assms(2) by (cases "a_tasks a u") (simp_all add: Output_def resolve_full store cleanupSubscribers_def split: option.splits)
  have again: "adapter_Job u (UpdateJob now' later ?b) = Some (DeepCopy later)" if "a_tasks a u \<noteq> None" "job_Uuid later = u"
    using that store by (auto simp: UpdateJob_def adapter_Job_def SimpleJobStore_Update_def SimpleJobStore_Get_def publishEvent_def Let_def)
  show ?thesis
    using False del out again assms(1,2) by (auto simp: adapter_Job_get store resolve_full simp del: fun_upd_apply) (simp_all add: store adapter_Job_get)
qed

theorem delete_job_witness:
  "\<exists>b. adapter_DeleteJob [] 9 example_uuid (CreateNewJob 1 (example_job example_uuid StatusCompleted) (new_adapter True)) = (b, Inr ()) \<and>
     adapter_Job example_uuid b = None \<and>
     adapter_Job example_uuid (UpdateJob 10 (example_job example_uuid StatusFailed) b) = Some (DeepCopy (example_job example_uuid StatusFailed))"
proof -
  let ?j = "example_job example_uuid StatusCompleted"
  let ?a = "CreateNewJob 1 ?j (new_adapter True)"
  have "\<not> a_closed ?a" "length example_uuid = 36" "sjs_jobs (a_jobStore ?a) example_uuid = Some ?j" "job_Uuid ?j = example_uuid"
    and t: "a_tasks ?a example_uuid \<noteq> None" "job_Status ?j \<noteq> StatusRunning" "job_Status ?j \<noteq> StatusInitializing"
    by (simp_all add: CreateNewJob_def SimpleJobStore_Create_def GetBuffer_def new_adapter_def example_job_def example_uuid_def publishEvent_def Let_def status_defs)
  from delete_job [OF this(1-4), of "[]" 9 "example_job example_uuid StatusFailed" 10] t
  show ?thesis by (auto simp: example_job_def)
qed

section \<open>The copy in the state service\<close>

fun run_state_op :: "instant \<Rightarrow> state_op \<Rightarrow> memoryBackend \<Rightarrow> memoryBackend" where
  "run_state_op now (StateCreate job) m = fst (memoryBackend_Create now m job)"
| "run_state_op now (StateUpdate job) m = fst (memoryBackend_Update m job)"
| "run_state_op now (StateDelete u) m = fst (memoryBackend_Delete m u)"

text \<open>Identifiers are created once, with a start time, and a deleted job is not updated.\<close>

fun orderly_op :: "aop \<Rightarrow> jobStoreAdapter \<Rightarrow> bool" where
  "orderly_op (OCreate now j) a = (sjs_jobs (a_jobStore a) (job_Uuid j) = None \<and> job_StartTime j \<noteq> 0)"
| "orderly_op (OUpdate now j) a = (a_tasks a (job_Uuid j) \<noteq> None \<longrightarrow> sjs_jobs (a_jobStore a) (job_Uuid j) \<noteq> None)"
| "orderly_op _ a = True"

fun orderly :: "aop list \<Rightarrow> jobStoreAdapter \<Rightarrow> bool" where
  "orderly [] a = True"
| "orderly (op # ops) a = (orderly_op op a \<and> orderly ops (apply_op op a))"

definition mirrors :: "instant \<Rightarrow> jobStoreAdapter \<Rightarrow> bool" where
  "mirrors t a \<longleftrightarrow>
     a_stateClient a \<and> mb_jobs (fold (run_state_op t) (a_stateOps a) NewMemoryBackend) = sjs_jobs (a_jobStore a)"

lemma start_state_op_ops: "a_stateOps (start_state_op op a) = (if a_stateClient a then a_stateOps a @ [op] else a_stateOps a)"
  by (simp add: start_state_op_def)

lemma mirrors_step:
  assumes "mirrors t a" "orderly_op op a"
  shows "mirrors t (apply_op op a)"
proof (cases op)
  case (OCreate now j)
  then show ?thesis using assms
    by (auto simp: mirrors_def CreateNewJob_def SimpleJobStore_Create_def publishEvent_def start_state_op_ops memoryBackend_Create_def Let_def split: prod.splits)
next
  case (OUpdate now j)
  then show ?thesis using assms
    by (auto simp: mirrors_def UpdateJob_def SimpleJobStore_Update_def publishEvent_def start_state_op_ops memoryBackend_Update_def Let_def split: option.splits)
next
  case (OWrite ks now u c)
  have "a_stateOps (WriteToBuffer ks now u c a) = a_stateOps a" "a_jobStore (WriteToBuffer ks now u c a) = a_jobStore a"
    "a_stateClient (WriteToBuffer ks now u c a) = a_stateClient a"
    by (simp_all add: WriteToBuffer_def publishEvent_def Let_def split: sum.split option.split)
  then show ?thesis using assms OWrite by (simp add: mirrors_def)
next
  case (ODelete ks now u)
  have ct: "a_stateOps (cleanupTaskWrapper v a) = a_stateOps a" "a_jobStore (cleanupTaskWrapper v a) = a_jobStore a" "a_stateClient (cleanupTaskWrapper v a) = a_stateClient a" for v
    by (simp_all add: cleanupTaskWrapper_def split: option.split)
  have "(sjs_jobs (a_jobStore a))(v := None) = mb_jobs (fst (memoryBackend_Delete m v))"
    if "mb_jobs m = sjs_jobs (a_jobStore a)" for v m
    using that by (auto simp: memoryBackend_Delete_def fun_eq_iff)
  then show ?thesis using assms(1) ODelete
    by (auto simp: mirrors_def adapter_DeleteJob_def publishJobEvent_def publishEvent_def start_state_op_ops ct SimpleJobStore_Delete_def Let_def
        split: sum.splits prod.splits)
next
  case (ODeleteLogs ks r u)
  have "a_stateOps (completeTaskCleanup v a) = a_stateOps a" "a_jobStore (completeTaskCleanup v a) = a_jobStore a"
    "a_stateClient (completeTaskCleanup v a) = a_stateClient a" for v
    by (simp_all add: completeTaskCleanup_def split: option.split)
  then show ?thesis using assms(1) ODeleteLogs
    by (auto simp: mirrors_def DeleteJobLogs_def split: sum.splits)
qed

lemma mirrors_run: "mirrors t a \<Longrightarrow> orderly ops a \<Longrightarrow> mirrors t (apply_ops ops a)"
  by (induction ops arbitrary: a) (simp_all add: mirrors_step)

definition finished_run :: "aop list" where
  "finished_run = [OCreate 1 (example_job example_uuid StatusInitializing), OUpdate 2 (example_job example_uuid StatusRunning),
     OUpdate 3 (example_job example_uuid StatusCompleted)]"

text \<open>
  The state service. If the calls that were started are carried out in that order, the service holds exactly the jobs of the store, so a restart
  restores them. But each call runs in a goroutine of its own: for a job that is created, runs and completes, the same
  calls in another order leave it running in the service, and after a restart the completed job is running again.
\<close>

theorem state_service_mirrors_store:
  "(orderly ops (new_adapter p) \<longrightarrow>
     mb_jobs (fold (run_state_op t) (a_stateOps (apply_ops ops (new_adapter p))) NewMemoryBackend) = sjs_jobs (a_jobStore (apply_ops ops (new_adapter p)))) \<and>
   (let a = apply_ops finished_run (new_adapter p) in
    \<exists>late. mset late = mset (a_stateOps a) \<and> map_option job_Status (adapter_Job example_uuid a) = Some StatusCompleted \<and>
      map_option job_Status (adapter_Job example_uuid (fst (SyncFromPersistentState
        (Some (memoryBackend_List [example_uuid] (fold (run_state_op t) late NewMemoryBackend) None)) (new_adapter p)))) = Some StatusRunning)"
proof
  have "mirrors t (new_adapter p)" by (simp add: mirrors_def new_adapter_def NewMemoryBackend_def)
  then show "orderly ops (new_adapter p) \<longrightarrow>
     mb_jobs (fold (run_state_op t) (a_stateOps (apply_ops ops (new_adapter p))) NewMemoryBackend) = sjs_jobs (a_jobStore (apply_ops ops (new_adapter p)))"
    using mirrors_run [of t "new_adapter p" ops] by (simp add: mirrors_def)
  let ?a = "apply_ops finished_run (new_adapter p)" and ?j = "example_job example_uuid"
  let ?late = "[StateCreate (?j StatusInitializing), StateUpdate (?j StatusCompleted), StateUpdate (?j StatusRunning)]"
  have u: "job_Uuid (?j st) = example_uuid" "job_Status (?j st) = st" "job_StartTime (?j st) = 1" for st
    by (simp_all add: example_job_def)
  have "a_stateOps ?a = [StateCreate (?j StatusInitializing), StateUpdate (?j StatusRunning), StateUpdate (?j StatusCompleted)]"
    "map_option job_Status (adapter_Job example_uuid ?a) = Some StatusCompleted"
    by (simp_all add: finished_run_def CreateNewJob_def UpdateJob_def SimpleJobStore_Create_def SimpleJobStore_Update_def SimpleJobStore_Get_def
        GetBuffer_def new_adapter_def publishEvent_def start_state_op_def adapter_Job_def u Let_def)
  moreover have "mb_jobs (fold (run_state_op t) ?late NewMemoryBackend) = [example_uuid \<mapsto> ?j StatusRunning]"
    by (simp add: memoryBackend_Create_def memoryBackend_Update_def NewMemoryBackend_def u fun_eq_iff)
  then have "memoryBackend_List [example_uuid] (fold (run_state_op t) ?late NewMemoryBackend) None = [?j StatusRunning]"
    by (simp add: memoryBackend_List_def matchesFilter_def)
  ultimately show "let a = ?a in
    \<exists>late. mset late = mset (a_stateOps a) \<and> map_option job_Status (adapter_Job example_uuid a) = Some StatusCompleted \<and>
      map_option job_Status (adapter_Job example_uuid (fst (SyncFromPersistentState
        (Some (memoryBackend_List [example_uuid] (fold (run_state_op t) late NewMemoryBackend) None)) (new_adapter p)))) = Some StatusRunning"
    unfolding Let_def
    by (intro exI [of _ ?late]) (simp add: SyncFromPersistentState_def restore_job_def SimpleJobStore_Create_def SimpleJobStore_Get_def
        GetBuffer_def new_adapter_def adapter_Job_def u)
qed

theorem state_service_mirrors_store_witness:
  "mb_jobs (fold (run_state_op 0) (a_stateOps (apply_ops finished_run (new_adapter True))) NewMemoryBackend) =
   sjs_jobs (a_jobStore (apply_ops finished_run (new_adapter True)))"
proof -
  have "orderly finished_run (new_adapter True)"
    by (simp add: finished_run_def example_job_def CreateNewJob_def UpdateJob_def SimpleJobStore_Create_def SimpleJobStore_Update_def GetBuffer_def
        new_adapter_def publishEvent_def start_state_op_def Let_def)
  then show ?thesis using state_service_mirrors_store [of finished_run True 0] by simp
qed

section \<open>Streams\<close>

text \<open>The chunks of a job that a run of the loop was woken for.\<close>

fun wake_chunk :: "string \<Rightarrow> instant \<times> wake \<Rightarrow> chunk list" where
  "wake_chunk uuid (t, Event now e ok) = (if ev_JobUUID e = uuid \<and> ev_Type e = ''LOG_CHUNK'' \<and> ev_LogChunk e \<noteq> [] then [ev_LogChunk e] else [])"
| "wake_chunk uuid _ = []"

fun benign :: "instant \<times> wake \<Rightarrow> bool" where
  "benign (t, Event now e ok) = ok"
| "benign (t, w) = (w = DrainTimer)"

fun ends_job :: "string \<Rightarrow> instant \<times> wake \<Rightarrow> bool" where
  "ends_job uuid (t, Event now e ok) = (ev_JobUUID e = uuid \<and> ev_Type e = ''UPDATED'' \<and> final_status (ev_Status e))"
| "ends_job uuid _ = False"

abbreviation stream_run :: "string \<Rightarrow> (instant \<times> wake) list \<Rightarrow> stream_loop \<Rightarrow> stream_loop" where
  "stream_run uuid its l \<equiv> fold (stream_iter uuid) its l"

lemma stream_stopped: "sl_result l \<noteq> None \<Longrightarrow> stream_run uuid its l = l"
  by (induction its) (simp_all add: stream_iter_def)

lemma stream_iter_sent:
  assumes "benign it" "sl_result (stream_iter uuid it l) = None"
  shows "sl_sent (stream_iter uuid it l) = sl_sent l @ wake_chunk uuid it \<and> sl_result l = None"
  using assms by (cases it; cases "snd it") (auto simp: stream_iter_def handle_event_def Let_def split: if_splits)

lemma stream_run_sent:
  "list_all benign its \<Longrightarrow> sl_result (stream_run uuid its l) = None \<Longrightarrow>
   sl_sent (stream_run uuid its l) = sl_sent l @ concat (map (wake_chunk uuid) its) \<and> sl_result l = None"
proof (induction its rule: rev_induct)
  case (snoc it its)
  then have "sl_result (stream_run uuid its l) = None" using stream_iter_sent [of it uuid] by simp
  then show ?case using snoc stream_iter_sent [of it uuid "stream_run uuid its l"] by simp
qed simp

lemma stream_iter_open:
  "benign it \<Longrightarrow> \<not> ends_job uuid it \<Longrightarrow> sl_result l = None \<Longrightarrow> \<not> sl_jobCompleted l \<Longrightarrow>
   sl_result (stream_iter uuid it l) = None \<and> \<not> sl_jobCompleted (stream_iter uuid it l)"
  by (cases it; cases "snd it") (auto simp: stream_iter_def handle_event_def Let_def)

lemma stream_run_open:
  "list_all benign its \<Longrightarrow> \<not> list_ex (ends_job uuid) its \<Longrightarrow> sl_result l = None \<Longrightarrow> \<not> sl_jobCompleted l \<Longrightarrow>
   sl_result (stream_run uuid its l) = None \<and> \<not> sl_jobCompleted (stream_run uuid its l)"
  by (induction its arbitrary: l) (auto simp: stream_iter_open)

text \<open>
  A live stream whose client keeps up. As long as it is open it has sent the snapshot and every chunk of its job that was published since, in order,
  and nothing of other jobs. It stays open until an update with the status \<open>COMPLETED\<close>, \<open>FAILED\<close> or \<open>STOPPED\<close>,
  and it ends at the first wake-up more than half a second after that update when no further chunk arrives. No other status ends it: a job that ends by a timeout
  keeps its readers waiting.
\<close>

theorem stream_correct:
  assumes "list_all benign its"
  shows "(sl_result (stream_run uuid its (stream_start snap)) = None \<longrightarrow>
      sl_sent (stream_run uuid its (stream_start snap)) = snap @ concat (map (wake_chunk uuid) its)) \<and>
    (\<not> list_ex (ends_job uuid) its \<longrightarrow> sl_result (stream_run uuid its (stream_start snap)) = None) \<and>
    (\<not> list_ex (ends_job uuid) its \<and> ends_job uuid (t, Event now e True) \<and> now + drainQuietPeriod < t' \<longrightarrow>
      sl_result (stream_run uuid (its @ [(t, Event now e True), (t', DrainTimer)]) (stream_start snap)) = Some (Inr ())) \<and>
    \<not> final_status StatusTimeout \<and> \<not> final_status StatusCanceled"
proof (intro conjI impI)
  let ?l = "stream_run uuid its (stream_start snap)"
  show "sl_sent ?l = snap @ concat (map (wake_chunk uuid) its)" if "sl_result ?l = None"
    using stream_run_sent [OF assms that] by (simp add: stream_start_def)
  have opn: "sl_result ?l = None \<and> \<not> sl_jobCompleted ?l" if "\<not> list_ex (ends_job uuid) its"
    by (rule stream_run_open [OF assms that]) (simp_all add: stream_start_def)
  then show "sl_result ?l = None" if "\<not> list_ex (ends_job uuid) its" using that by blast
  show "sl_result (stream_run uuid (its @ [(t, Event now e True), (t', DrainTimer)]) (stream_start snap)) = Some (Inr ())"
    if "\<not> list_ex (ends_job uuid) its \<and> ends_job uuid (t, Event now e True) \<and> now + drainQuietPeriod < t'"
    using opn that by (simp add: stream_iter_def handle_event_def)
  show "\<not> final_status StatusTimeout" "\<not> final_status StatusCanceled" by (simp_all add: final_status_def status_defs)
qed

theorem stream_correct_witness:
  "let c = job_event ''LOG_CHUNK'' ''j'' [] ''out'' 1; u = job_event ''UPDATED'' ''j'' StatusTimeout [] 2 in
   sl_result (stream_run ''j'' [(1, Event 1 c True), (2, Event 2 u True), (99, Event 99 c True)] (stream_start [''old''])) = None \<and>
   sl_sent (stream_run ''j'' [(1, Event 1 c True), (2, Event 2 u True), (99, Event 99 c True)] (stream_start [''old''])) = [''old'', ''out'', ''out'']"
proof -
  let ?its = "[(1, Event 1 (job_event ''LOG_CHUNK'' ''j'' [] ''out'' 1) True), (2, Event 2 (job_event ''UPDATED'' ''j'' StatusTimeout [] 2) True),
    (99, Event 99 (job_event ''LOG_CHUNK'' ''j'' [] ''out'' 1) True)]"
  have "list_all benign ?its" "\<not> list_ex (ends_job ''j'') ?its" by (simp_all add: job_event_def final_status_def status_defs)
  then show ?thesis using stream_correct [of ?its "''j''" "[''old'']"] by (simp add: Let_def job_event_def del: fold.simps)
qed

subsection \<open>No gap between the snapshot and the live events\<close>

text \<open>
  A write to a job first appends to the buffer and then publishes; several writers may be between the two. A stream first subscribes and then takes
  the snapshot. Chunks are known by their position in the buffer.
\<close>

record seam =
  sm_buffer :: "chunk list"
  sm_unpublished :: "nat set"
  sm_subscribed :: bool
  sm_channel :: "nat list"
  sm_snapshot :: "nat option"

inductive seam_step :: "seam \<Rightarrow> seam \<Rightarrow> bool" where
  append: "seam_step s (s\<lparr>sm_buffer := sm_buffer s @ [c], sm_unpublished := insert (length (sm_buffer s)) (sm_unpublished s)\<rparr>)"
| publish: "i \<in> sm_unpublished s \<Longrightarrow>
    seam_step s (s\<lparr>sm_unpublished := sm_unpublished s - {i}, sm_channel := (if sm_subscribed s then sm_channel s @ [i] else sm_channel s)\<rparr>)"
| subscribe: "seam_step s (s\<lparr>sm_subscribed := True\<rparr>)"
| snapshot: "sm_subscribed s \<Longrightarrow> sm_snapshot s = None \<Longrightarrow> seam_step s (s\<lparr>sm_snapshot := Some (length (sm_buffer s))\<rparr>)"

definition seam_start :: seam where
  "seam_start = \<lparr>sm_buffer = [], sm_unpublished = {}, sm_subscribed = False, sm_channel = [], sm_snapshot = None\<rparr>"

definition seam_inv :: "seam \<Rightarrow> bool" where
  "seam_inv s \<longleftrightarrow>
     (case sm_snapshot s of
        None \<Rightarrow> True
      | Some n \<Rightarrow> n \<le> length (sm_buffer s) \<and> sm_subscribed s \<and> (\<forall>i < length (sm_buffer s). i < n \<or> i \<in> set (sm_channel s) \<or> i \<in> sm_unpublished s)) \<and>
     (\<forall>i \<in> set (sm_channel s). i < length (sm_buffer s)) \<and> (\<forall>i \<in> sm_unpublished s. i < length (sm_buffer s))"

lemma seam_inv_step: "seam_step s t \<Longrightarrow> seam_inv s \<Longrightarrow> seam_inv t"
  by (induction rule: seam_step.induct) (auto simp: seam_inv_def less_Suc_eq split: option.splits)

lemma seam_inv_reach: "seam_step\<^sup>*\<^sup>* seam_start s \<Longrightarrow> seam_inv s"
  by (induction rule: rtranclp_induct) (simp_all add: seam_inv_step, simp add: seam_start_def seam_inv_def)

text \<open>What the client is sent: the snapshot from the position \<open>skip\<close> on, then the events of the channel.\<close>

definition client_view :: "nat \<Rightarrow> seam \<Rightarrow> chunk list" where
  "client_view skip s =
     (case sm_snapshot s of
        None \<Rightarrow> []
      | Some n \<Rightarrow> drop skip (take n (sm_buffer s)) @ map (\<lambda>i. sm_buffer s ! i) (sm_channel s))"


definition seam_example :: seam where
  "seam_example = \<lparr>sm_buffer = [''a'', ''b''], sm_unpublished = {}, sm_subscribed = True, sm_channel = [0, 1], sm_snapshot = Some 1\<rparr>"


end
