(* ===== verification/ConnPool.thy ===== *)
theory ConnPool
  imports Prelude
begin

text \<open>
  The connection pool to the state service (\<open>internal/joblet/state/pool.go\<close>) under concurrent clients.

  What the clients do depends on three shared things, the closed flag, the counter \<open>totalConns\<close> and the channel of idle connections; a step makes one access to
  one of them, with the updates of the table and counter of connections in use, which only \<open>Close\<close> reads, and of the sockets that go with it. The clients
  that are inside a call, or hold a connection, are a multiset of phases: where each of them is. A connection is its
  identifier; \<open>cp_open\<close> are those whose socket is open. Dial, health check and the ends of contexts are choices of the environment.
  The statistics that nothing reads (acquisitions, errors, timeouts) are left out. The 32-bit counters are kept as integers: they count clients inside a call and open sockets, far fewer than \<open>2^31\<close>.
\<close>

section \<open>The pool\<close>

record ConnectionPool =
  cp_PoolSize :: nat
  cp_pool :: "nat list"
  cp_poolClosed :: bool
  cp_closed :: bool
  cp_activeConns :: int
  cp_totalConns :: int
  cp_inUseConns :: "nat set"
  cp_nextConnID :: nat
  cp_open :: "nat set"

text \<open>Durations are in nanoseconds.\<close>

record PoolConfig =
  pc_PoolSize :: int
  pc_ReadTimeout :: int
  pc_DialTimeout :: int
  pc_MaxIdleTime :: int
  pc_HealthCheckTimeout :: int
  pc_ShutdownTimeout :: int
  pc_ShutdownPollInterval :: int

definition DefaultPoolSize :: int where
  "DefaultPoolSize = 20"

definition DefaultPoolConfig :: PoolConfig where
  "DefaultPoolConfig =
     \<lparr>pc_PoolSize = DefaultPoolSize, pc_ReadTimeout = 10 * 10 ^ 9, pc_DialTimeout = 5 * 10 ^ 9, pc_MaxIdleTime = 30 * 10 ^ 9,
      pc_HealthCheckTimeout = 500 * 10 ^ 6, pc_ShutdownTimeout = 5 * 10 ^ 9, pc_ShutdownPollInterval = 100 * 10 ^ 6\<rparr>"

definition withDefaults :: "PoolConfig \<Rightarrow> PoolConfig" where
  "withDefaults c =
     (let d = DefaultPoolConfig; pos = (\<lambda>field. if field c \<le> 0 then field d else field c)
      in \<lparr>pc_PoolSize = pos pc_PoolSize, pc_ReadTimeout = pos pc_ReadTimeout, pc_DialTimeout = pos pc_DialTimeout, pc_MaxIdleTime = pos pc_MaxIdleTime,
          pc_HealthCheckTimeout = pos pc_HealthCheckTimeout, pc_ShutdownTimeout = pos pc_ShutdownTimeout,
          pc_ShutdownPollInterval = pos pc_ShutdownPollInterval\<rparr>)"

definition NewConnectionPoolWithConfig :: "PoolConfig \<Rightarrow> ConnectionPool" where
  "NewConnectionPoolWithConfig config =
     \<lparr>cp_PoolSize = nat (pc_PoolSize (withDefaults config)), cp_pool = [], cp_poolClosed = False,
      cp_closed = False, cp_activeConns = 0, cp_totalConns = 0, cp_inUseConns = {}, cp_nextConnID = 0, cp_open = {}\<rparr>"

definition NewConnectionPool :: "int \<Rightarrow> ConnectionPool" where
  "NewConnectionPool poolSize =
     NewConnectionPoolWithConfig
       (let cfg = DefaultPoolConfig in if poolSize > 0 then cfg\<lparr>pc_PoolSize := poolSize\<rparr> else cfg)"

definition add_total :: "int \<Rightarrow> ConnectionPool \<Rightarrow> ConnectionPool" where
  "add_total d p = p\<lparr>cp_totalConns := cp_totalConns p + d\<rparr>"

text \<open>A connection is handed to a client, taken back from it, or closed.\<close>

definition track :: "nat \<Rightarrow> ConnectionPool \<Rightarrow> ConnectionPool" where
  "track c p = p\<lparr>cp_inUseConns := insert c (cp_inUseConns p), cp_activeConns := cp_activeConns p + 1\<rparr>"

definition untrack :: "nat \<Rightarrow> ConnectionPool \<Rightarrow> ConnectionPool" where
  "untrack c p = p\<lparr>cp_inUseConns := cp_inUseConns p - {c}, cp_activeConns := cp_activeConns p - 1\<rparr>"

definition discard :: "nat \<Rightarrow> ConnectionPool \<Rightarrow> ConnectionPool" where
  "discard c p = p\<lparr>cp_open := cp_open p - {c}, cp_totalConns := cp_totalConns p - 1\<rparr>"

definition createConnectionWithoutIncrement :: "ConnectionPool \<Rightarrow> nat \<times> ConnectionPool" where
  "createConnectionWithoutIncrement p =
     (let c = cp_nextConnID p + 1 in (c, track c (p\<lparr>cp_nextConnID := c, cp_open := insert c (cp_open p)\<rparr>)))"

definition Remove :: "nat \<Rightarrow> ConnectionPool \<Rightarrow> ConnectionPool" where
  "Remove c p = discard c (untrack c p)"

text \<open>The end of \<open>Close\<close>: one connection that is still in use is closed by force.\<close>

definition force_close :: "nat \<Rightarrow> ConnectionPool \<Rightarrow> ConnectionPool" where
  "force_close c p = untrack c (discard c p)"

section \<open>Clients\<close>

text \<open>
  \<open>Calling\<close>: at the head of \<open>Get\<close>. \<open>Entering\<close>: past its check of the closed flag. \<open>Reserved n\<close>: the counter was incremented to \<open>n\<close>.
  \<open>Checking c\<close>: an idle connection was received. \<open>Released c\<close>: in \<open>Put\<close>, the connection is no longer tracked. \<open>Returning c\<close>: past the check of the closed flag in \<open>Put\<close>.
\<close>

datatype phase = Calling | Entering | Reserved int | Dialing | Waiting | Checking nat | Holding nat | Released nat | Returning nat

record system =
  y_pool :: ConnectionPool
  y_clients :: "phase multiset"
  y_panic :: bool

text \<open>Receiving from the closed channel gives a nil connection, whose mutex is then locked: a panic, as is sending on it.\<close>

inductive get_step :: "system \<Rightarrow> system \<Rightarrow> bool" where
  get: "get_step s (s\<lparr>y_clients := add_mset Calling (y_clients s)\<rparr>)"
| get_closed: "y_clients s = add_mset Calling T \<Longrightarrow> cp_closed (y_pool s) \<Longrightarrow> get_step s (s\<lparr>y_clients := T\<rparr>)"
| enter: "y_clients s = add_mset Calling T \<Longrightarrow> \<not> cp_closed (y_pool s) \<Longrightarrow> get_step s (s\<lparr>y_clients := add_mset Entering T\<rparr>)"
| take: "y_clients s = add_mset ph T \<Longrightarrow> ph = Entering \<or> ph = Waiting \<Longrightarrow> cp_pool (y_pool s) = c # cs \<Longrightarrow>
    get_step s (s\<lparr>y_clients := add_mset (Checking c) T, y_pool := (y_pool s)\<lparr>cp_pool := cs\<rparr>\<rparr>)"
| take_nil: "y_clients s = add_mset ph T \<Longrightarrow> ph = Entering \<or> ph = Waiting \<Longrightarrow> cp_pool (y_pool s) = [] \<Longrightarrow> cp_poolClosed (y_pool s) \<Longrightarrow>
    get_step s (s\<lparr>y_panic := True\<rparr>)"
| reserve: "y_clients s = add_mset Entering T \<Longrightarrow> cp_pool (y_pool s) = [] \<Longrightarrow> \<not> cp_poolClosed (y_pool s) \<Longrightarrow>
    get_step s (s\<lparr>y_clients := add_mset (Reserved (cp_totalConns (y_pool s) + 1)) T, y_pool := add_total 1 (y_pool s)\<rparr>)"
| admit: "y_clients s = add_mset (Reserved n) T \<Longrightarrow> n \<le> int32 (int (cp_PoolSize (y_pool s))) \<Longrightarrow> get_step s (s\<lparr>y_clients := add_mset Dialing T\<rparr>)"
| refuse: "y_clients s = add_mset (Reserved n) T \<Longrightarrow> \<not> n \<le> int32 (int (cp_PoolSize (y_pool s))) \<Longrightarrow>
    get_step s (s\<lparr>y_clients := add_mset Waiting T, y_pool := add_total (- 1) (y_pool s)\<rparr>)"
| dial_ok: "y_clients s = add_mset Dialing T \<Longrightarrow> createConnectionWithoutIncrement (y_pool s) = (c, p) \<Longrightarrow>
    get_step s (s\<lparr>y_clients := add_mset (Holding c) T, y_pool := p\<rparr>)"
| dial_fail: "y_clients s = add_mset Dialing T \<Longrightarrow> get_step s (s\<lparr>y_clients := T, y_pool := add_total (- 1) (y_pool s)\<rparr>)"
| cancel: "y_clients s = add_mset ph T \<Longrightarrow> ph = Entering \<or> ph = Waiting \<Longrightarrow> get_step s (s\<lparr>y_clients := T\<rparr>)"
| reuse: "y_clients s = add_mset (Checking c) T \<Longrightarrow> get_step s (s\<lparr>y_clients := add_mset (Holding c) T, y_pool := track c (y_pool s)\<rparr>)"
| stale: "y_clients s = add_mset (Checking c) T \<Longrightarrow> get_step s (s\<lparr>y_clients := add_mset Calling T, y_pool := discard c (y_pool s)\<rparr>)"

inductive put_step :: "system \<Rightarrow> system \<Rightarrow> bool" where
  put: "y_clients s = add_mset (Holding c) T \<Longrightarrow> put_step s (s\<lparr>y_clients := add_mset (Released c) T, y_pool := untrack c (y_pool s)\<rparr>)"
| put_closed: "y_clients s = add_mset (Released c) T \<Longrightarrow> cp_closed (y_pool s) \<Longrightarrow>
    put_step s (s\<lparr>y_clients := T, y_pool := discard c (y_pool s)\<rparr>)"
| put_open: "y_clients s = add_mset (Released c) T \<Longrightarrow> \<not> cp_closed (y_pool s) \<Longrightarrow> put_step s (s\<lparr>y_clients := add_mset (Returning c) T\<rparr>)"
| put_send: "y_clients s = add_mset (Returning c) T \<Longrightarrow> \<not> cp_poolClosed (y_pool s) \<Longrightarrow> length (cp_pool (y_pool s)) < cp_PoolSize (y_pool s) \<Longrightarrow>
    put_step s (s\<lparr>y_clients := T, y_pool := (y_pool s)\<lparr>cp_pool := cp_pool (y_pool s) @ [c]\<rparr>\<rparr>)"
| put_full: "y_clients s = add_mset (Returning c) T \<Longrightarrow> \<not> cp_poolClosed (y_pool s) \<Longrightarrow> \<not> length (cp_pool (y_pool s)) < cp_PoolSize (y_pool s) \<Longrightarrow>
    put_step s (s\<lparr>y_clients := T, y_pool := discard c (y_pool s)\<rparr>)"
| put_panic: "y_clients s = add_mset (Returning c) T \<Longrightarrow> cp_poolClosed (y_pool s) \<Longrightarrow> put_step s (s\<lparr>y_panic := True\<rparr>)"

text \<open>After the channel is drained, \<open>Close\<close> waits until nothing is in use or the time is over, then closes the rest by force.\<close>

inductive close_step :: "system \<Rightarrow> system \<Rightarrow> bool" where
  close_flag: "\<not> cp_closed (y_pool s) \<Longrightarrow> close_step s (s\<lparr>y_pool := (y_pool s)\<lparr>cp_closed := True\<rparr>\<rparr>)"
| close_chan: "cp_closed (y_pool s) \<Longrightarrow> \<not> cp_poolClosed (y_pool s) \<Longrightarrow> close_step s (s\<lparr>y_pool := (y_pool s)\<lparr>cp_poolClosed := True\<rparr>\<rparr>)"
| drain: "cp_poolClosed (y_pool s) \<Longrightarrow> cp_pool (y_pool s) = c # cs \<Longrightarrow>
    close_step s (s\<lparr>y_pool := discard c ((y_pool s)\<lparr>cp_pool := cs\<rparr>)\<rparr>)"
| force: "cp_poolClosed (y_pool s) \<Longrightarrow> cp_pool (y_pool s) = [] \<Longrightarrow> c \<in> cp_inUseConns (y_pool s) \<Longrightarrow>
    close_step s (s\<lparr>y_pool := force_close c (y_pool s)\<rparr>)"

inductive pool_step :: "system \<Rightarrow> system \<Rightarrow> bool" where
  getting: "get_step s t \<Longrightarrow> pool_step s t"
| putting: "put_step s t \<Longrightarrow> pool_step s t"
| closing: "close_step s t \<Longrightarrow> pool_step s t"
| remove: "y_clients s = add_mset (Holding c) T \<Longrightarrow> pool_step s (s\<lparr>y_clients := T, y_pool := Remove c (y_pool s)\<rparr>)"

definition fresh_system :: "int \<Rightarrow> system" where
  "fresh_system n = \<lparr>y_pool = NewConnectionPool n, y_clients = {#}, y_panic = False\<rparr>"

inductive pool_reach :: "int \<Rightarrow> system \<Rightarrow> bool" where
  fresh: "pool_reach n (fresh_system n)"
| more: "pool_reach n s \<Longrightarrow> \<not> y_panic s \<Longrightarrow> pool_step s t \<Longrightarrow> pool_reach n t"

section \<open>The invariant\<close>

fun held_by :: "phase \<Rightarrow> nat multiset" where
  "held_by (Checking c) = {#c#}"
| "held_by (Holding c) = {#c#}"
| "held_by (Released c) = {#c#}"
| "held_by (Returning c) = {#c#}"
| "held_by _ = {#}"

fun in_use :: "phase \<Rightarrow> nat multiset" where
  "in_use (Holding c) = {#c#}"
| "in_use _ = {#}"

fun slot :: "phase \<Rightarrow> nat" where
  "slot (Reserved n) = 1"
| "slot Dialing = 1"
| "slot _ = 0"

text \<open>A slot that was granted, not one that is about to be given back.\<close>

fun granted :: "nat \<Rightarrow> phase \<Rightarrow> nat" where
  "granted m (Reserved n) = (if n \<le> int32 (int m) then 1 else 0)"
| "granted m Dialing = 1"
| "granted m _ = 0"

definition held :: "phase multiset \<Rightarrow> nat multiset" where
  "held T = (\<Sum>ph \<in># T. held_by ph)"

definition users :: "phase multiset \<Rightarrow> nat multiset" where
  "users T = (\<Sum>ph \<in># T. in_use ph)"

definition slots :: "phase multiset \<Rightarrow> nat" where
  "slots T = (\<Sum>ph \<in># T. slot ph)"

definition grants :: "nat \<Rightarrow> phase multiset \<Rightarrow> nat" where
  "grants m T = (\<Sum>ph \<in># T. granted m ph)"

lemma client_sums [simp]:
  "held {#} = {#}" "held (add_mset ph T) = held_by ph + held T"
  "users {#} = {#}" "users (add_mset ph T) = in_use ph + users T"
  "slots {#} = 0" "slots (add_mset ph T) = slot ph + slots T"
  "grants m {#} = 0" "grants m (add_mset ph T) = granted m ph + grants m T"
  by (simp_all add: held_def users_def slots_def grants_def)

text \<open>Every connection the pool or a client has, with multiplicity.\<close>

definition conns :: "system \<Rightarrow> nat multiset" where
  "conns s = mset (cp_pool (y_pool s)) + held (y_clients s)"

text \<open>Each connection is in one place; before the pool is closed, the sockets, the tracked connections and the counters are what the phases say.\<close>

definition places_inv :: "system \<Rightarrow> bool" where
  "places_inv s \<longleftrightarrow> conns s \<subseteq># mset_set {..cp_nextConnID (y_pool s)}"

definition close_inv :: "system \<Rightarrow> bool" where
  "close_inv s \<longleftrightarrow> (cp_poolClosed (y_pool s) \<longrightarrow> cp_closed (y_pool s)) \<and> (y_panic s \<longrightarrow> cp_poolClosed (y_pool s))"

definition account_inv :: "system \<Rightarrow> bool" where
  "account_inv s \<longleftrightarrow>
     cp_open (y_pool s) = set_mset (conns s) \<and> cp_inUseConns (y_pool s) = set_mset (users (y_clients s)) \<and>
     cp_activeConns (y_pool s) = int (size (users (y_clients s))) \<and>
     cp_totalConns (y_pool s) = int (size (conns s) + slots (y_clients s)) \<and>
     size (conns s) + grants (cp_PoolSize (y_pool s)) (y_clients s) \<le> cp_PoolSize (y_pool s)"

definition pool_inv :: "system \<Rightarrow> bool" where
  "pool_inv s \<longleftrightarrow> places_inv s \<and> close_inv s \<and> (\<not> cp_closed (y_pool s) \<longrightarrow> account_inv s)"

lemmas pool_ops = add_total_def track_def untrack_def discard_def createConnectionWithoutIncrement_def Remove_def force_close_def

lemmas new_pool = NewConnectionPool_def NewConnectionPoolWithConfig_def withDefaults_def DefaultPoolConfig_def DefaultPoolSize_def Let_def

lemma int32_le: "int32 (int m) \<le> int m"
  using zmod_le_nonneg_dividend [of "int m + 2 ^ 31" "2 ^ 32"] by (simp add: wrap_int_def)

lemma pool_inv_fresh: "pool_inv (fresh_system n)"
  by (simp add: pool_inv_def places_inv_def close_inv_def account_inv_def fresh_system_def new_pool conns_def)

lemma once: "add_mset c M \<subseteq># mset_set A \<Longrightarrow> c \<notin># M"
proof
  assume "add_mset c M \<subseteq># mset_set A" "c \<in># M"
  then have "count (add_mset c M) c \<le> count (mset_set A) c" by (intro mset_subset_eq_count)
  also have "\<dots> \<le> 1" by (simp add: count_mset_set')
  finally have "count M c = 0" by simp
  then show False using \<open>c \<in># M\<close> by (simp add: count_eq_zero_iff)
qed

lemma size_is_card:
  assumes "\<And>d. count M d \<le> 1"
  shows "size M = card (set_mset M)"
proof -
  have "count M d = 1" if "d \<in># M" for d using assms [of d] that by (simp add: le_antisym Suc_leI)
  then show ?thesis by (simp add: size_multiset_overloaded_eq)
qed

lemma users_held: "users T \<subseteq># held T"
proof (induction T)
  case (add ph T)
  have "in_use ph \<subseteq># held_by ph" by (cases ph) auto
  with add show ?case by (simp add: subset_mset.add_mono)
qed simp

lemma held_once:
  assumes "places_inv s" and "y_clients s = add_mset ph T" and "held_by ph = {#c#}"
  shows "c \<notin> set (cp_pool (y_pool s))" and "c \<notin># held T" and "c \<notin># users T"
proof -
  have "add_mset c (mset (cp_pool (y_pool s)) + held T) \<subseteq># mset_set {..cp_nextConnID (y_pool s)}"
    using assms by (simp add: places_inv_def conns_def)
  then have *: "c \<notin># mset (cp_pool (y_pool s)) + held T" by (rule once)
  then show "c \<notin> set (cp_pool (y_pool s))" and "c \<notin># held T" by simp_all
  then show "c \<notin># users T" using users_held [of T] by (auto dest: mset_subset_eqD)
qed

lemma grants_le_slots: "grants m T \<le> slots T"
proof (induction T)
  case (add ph T)
  have "granted m ph \<le> slot ph" by (cases ph) auto
  with add show ?case by simp
qed simp

lemma close_inv_step: "pool_step s t \<Longrightarrow> close_inv s \<Longrightarrow> close_inv t"
  by (induction rule: pool_step.induct) (auto elim!: get_step.cases put_step.cases close_step.cases simp: close_inv_def pool_ops Let_def)

lemma conns_step: "pool_step s t \<Longrightarrow>
    conns t \<subseteq># conns s \<and> cp_nextConnID (y_pool t) = cp_nextConnID (y_pool s) \<or>
    conns t = add_mset (Suc (cp_nextConnID (y_pool s))) (conns s) \<and> cp_nextConnID (y_pool t) = Suc (cp_nextConnID (y_pool s))"
  by (induction rule: pool_step.induct) (auto elim!: get_step.cases put_step.cases close_step.cases simp: conns_def pool_ops Let_def)

lemma places_inv_step: "pool_step s t \<Longrightarrow> places_inv s \<Longrightarrow> places_inv t"
  using conns_step [of s t]
  by (auto simp: places_inv_def atMost_Suc dest: subset_mset.order_trans)

lemma account_get_step:
  "get_step s t \<Longrightarrow> places_inv s \<Longrightarrow> account_inv s \<Longrightarrow> \<not> cp_closed (y_pool t) \<Longrightarrow> close_inv s \<Longrightarrow> account_inv t"
proof (induction rule: get_step.induct)
  case (reserve s T)
  then show ?case using grants_le_slots [of "cp_PoolSize (y_pool s)" T] int32_le [of "cp_PoolSize (y_pool s)"]
    by (auto simp: account_inv_def conns_def pool_ops)
next
  case (stale s c T)
  then show ?case using held_once [of s "Checking c" T c] by (auto simp: account_inv_def conns_def pool_ops)
qed (auto simp: account_inv_def conns_def pool_ops close_inv_def Let_def)

lemma account_put_step:
  "put_step s t \<Longrightarrow> places_inv s \<Longrightarrow> account_inv s \<Longrightarrow> \<not> cp_closed (y_pool t) \<Longrightarrow> close_inv s \<Longrightarrow> account_inv t"
proof (induction rule: put_step.induct)
  case (put s c T)
  then show ?case using held_once [of s "Holding c" T c] by (auto simp: account_inv_def conns_def pool_ops)
next
  case (put_full s c T)
  then show ?case using held_once [of s "Returning c" T c] by (auto simp: account_inv_def conns_def pool_ops)
qed (auto simp: account_inv_def conns_def pool_ops close_inv_def Let_def)

lemma account_inv_step:
  "pool_step s t \<Longrightarrow> places_inv s \<Longrightarrow> account_inv s \<Longrightarrow> \<not> cp_closed (y_pool t) \<Longrightarrow> close_inv s \<Longrightarrow> account_inv t"
proof (induction rule: pool_step.induct)
  case (closing s t)
  then show ?case by (auto elim!: close_step.cases simp: account_inv_def conns_def pool_ops close_inv_def)
next
  case (remove s c T)
  then show ?case using held_once [of s "Holding c" T c] by (auto simp: account_inv_def conns_def pool_ops)
qed (simp_all add: account_get_step account_put_step)

lemma pool_inv_reach: "pool_reach n s \<Longrightarrow> pool_inv s"
proof (induction rule: pool_reach.induct)
  case (fresh n)
  show ?case by (rule pool_inv_fresh)
next
  case (more n s t)
  have "cp_closed (y_pool s) \<longrightarrow> cp_closed (y_pool t)"
    using \<open>pool_step s t\<close> by (induction rule: pool_step.induct) (auto elim!: get_step.cases put_step.cases close_step.cases simp: pool_ops Let_def)
  with more show ?case
    by (auto simp: pool_inv_def intro: places_inv_step close_inv_step account_inv_step)
qed

lemma pool_size_reach: "pool_reach n s \<Longrightarrow> int (cp_PoolSize (y_pool s)) = (if n > 0 then n else DefaultPoolSize)"
proof (induction rule: pool_reach.induct)
  case (fresh n)
  show ?case by (simp add: fresh_system_def new_pool)
next
  case (more n s t)
  have "cp_PoolSize (y_pool t) = cp_PoolSize (y_pool s)"
    using \<open>pool_step s t\<close> by (induction rule: pool_step.induct) (auto elim!: get_step.cases put_step.cases close_step.cases simp: pool_ops Let_def)
  with more show ?case by simp
qed

section \<open>Bounds and exclusive use\<close>

text \<open>
  C28. The connection pool to the state service, under any interleaving of clients that get, return and remove connections, before it is closed: at most
  \<open>PoolSize\<close> sockets are open (the configured size, or the default for a size that is not positive), each connection is either idle in the channel or with exactly one client,
  the counter of all connections is the number of open ones plus the clients that are dialing or have just counted themselves in, the counter of active ones is the number of connections in use,
  the channel always has room for a connection that comes back (the branch of \<open>Put\<close> that finds it full is dead), and nothing panics.
\<close>

theorem pool_bounds_and_exclusive_use:
  assumes "pool_reach n s" and "\<not> cp_closed (y_pool s)"
  shows "int (card (cp_open (y_pool s))) \<le> (if n > 0 then n else DefaultPoolSize) \<and>
    (\<forall>c. count (mset (cp_pool (y_pool s)) + held (y_clients s)) c \<le> 1) \<and>
    cp_totalConns (y_pool s) = int (card (cp_open (y_pool s)) + slots (y_clients s)) \<and>
    cp_activeConns (y_pool s) = int (card (cp_inUseConns (y_pool s))) \<and>
    (\<forall>c. Returning c \<in># y_clients s \<longrightarrow> length (cp_pool (y_pool s)) < cp_PoolSize (y_pool s)) \<and> \<not> y_panic s"
proof -
  have inv: "pool_inv s" by (rule pool_inv_reach [OF assms(1)])
  then have p: "places_inv s" and a: "account_inv s" using assms(2) by (auto simp: pool_inv_def)
  have le1: "count (conns s) d \<le> 1" for d
    using mset_subset_eq_count [OF p [unfolded places_inv_def], of d] by (simp add: count_mset_set' split: if_splits)
  have le2: "count (users (y_clients s)) d \<le> 1" for d
    using mset_subset_eq_count [OF users_held [of "y_clients s"], of d] le1 [of d] by (simp add: conns_def)
  have open_card: "card (cp_open (y_pool s)) = size (conns s)"
    using a size_is_card [of "conns s", OF le1] by (simp add: account_inv_def)
  have use_card: "cp_activeConns (y_pool s) = int (card (cp_inUseConns (y_pool s)))"
    using a size_is_card [of "users (y_clients s)", OF le2] by (simp add: account_inv_def)
  have bound: "int (card (cp_open (y_pool s))) \<le> (if n > 0 then n else DefaultPoolSize)"
    using a open_card pool_size_reach [OF assms(1)] by (simp add: account_inv_def)
  have room: "length (cp_pool (y_pool s)) < cp_PoolSize (y_pool s)" if r: "Returning c \<in># y_clients s" for c
  proof -
    obtain T where "y_clients s = add_mset (Returning c) T" using multi_member_split [OF r] by blast
    then show ?thesis using a by (simp add: account_inv_def conns_def)
  qed
  have once: "\<forall>c. count (mset (cp_pool (y_pool s)) + held (y_clients s)) c \<le> 1" using le1 by (simp add: conns_def)
  show ?thesis
    using bound once open_card use_card room a inv assms(2) by (auto simp: account_inv_def pool_inv_def close_inv_def simp del: count_union)
qed

text \<open>Runs for the examples: the chain of states of a list of steps.\<close>

lemma pool_reach_step: "pool_reach n s \<Longrightarrow> \<not> y_panic s \<Longrightarrow> pool_step s t \<Longrightarrow> t = u \<Longrightarrow> pool_reach n u"
  using more by blast

text \<open>The pool of size \<open>n\<close> with one connection, its identifier 1, in the hands of the client at phase \<open>ph\<close>.\<close>

definition one_conn :: "int \<Rightarrow> phase \<Rightarrow> system" where
  "one_conn n ph =
     \<lparr>y_pool = (NewConnectionPool n)\<lparr>cp_activeConns := (if ph = Holding 1 then 1 else 0), cp_totalConns := 1,
        cp_inUseConns := (if ph = Holding 1 then {1} else {}), cp_nextConnID := 1, cp_open := {1}\<rparr>,
      y_clients = {#ph#}, y_panic = False\<rparr>"

lemma pool_size_pos: "n < 2 ^ 31 \<Longrightarrow> 1 \<le> int32 (int (cp_PoolSize (NewConnectionPool n)))"
  by (subst wrap_int_id) (simp_all add: new_pool int_fits_def)

lemma new_pool_simps [simp]:
  "cp_pool (NewConnectionPool n) = []" "\<not> cp_poolClosed (NewConnectionPool n)" "\<not> cp_closed (NewConnectionPool n)"
  "cp_activeConns (NewConnectionPool n) = 0" "cp_totalConns (NewConnectionPool n) = 0" "cp_inUseConns (NewConnectionPool n) = {}"
  "cp_nextConnID (NewConnectionPool n) = 0" "cp_open (NewConnectionPool n) = {}"
  by (simp_all add: new_pool)

lemma reach_holding:
  assumes "n < 2 ^ 31"
  shows "pool_reach n (one_conn n (Holding 1))"
proof -
  let ?s = "fresh_system n"
  have 1: "pool_reach n (?s\<lparr>y_clients := {#Calling#}\<rparr>)"
    by (rule pool_reach_step [OF fresh _ getting [OF get]]) (simp_all add: fresh_system_def)
  have 2: "pool_reach n (?s\<lparr>y_clients := {#Entering#}\<rparr>)"
    by (rule pool_reach_step [OF 1 _ getting [OF enter [where T = "{#}"]]]) (simp_all add: fresh_system_def)
  have 3: "pool_reach n (?s\<lparr>y_clients := {#Reserved 1#}, y_pool := add_total 1 (y_pool ?s)\<rparr>)"
    by (rule pool_reach_step [OF 2 _ getting [OF reserve [where T = "{#}"]]]) (simp_all add: fresh_system_def)
  have 4: "pool_reach n (?s\<lparr>y_clients := {#Dialing#}, y_pool := add_total 1 (y_pool ?s)\<rparr>)"
    using pool_size_pos [OF assms]
    by (intro pool_reach_step [OF 3 _ getting [OF admit [where T = "{#}" and n = 1]]]) (simp_all add: fresh_system_def add_total_def)
  show ?thesis
    by (rule pool_reach_step [OF 4 _ getting [OF dial_ok [where T = "{#}", OF _ prod.collapse [symmetric]]]])
      (simp_all add: fresh_system_def one_conn_def pool_ops)
qed

theorem pool_bounds_and_exclusive_use_witness:
  "pool_reach 3 (one_conn 3 (Holding 1)) \<and> cp_totalConns (y_pool (one_conn 3 (Holding 1))) = 1 \<and> int (card (cp_open (y_pool (one_conn 3 (Holding 1))))) \<le> 3"
  using pool_bounds_and_exclusive_use [OF reach_holding [of 3]] reach_holding [of 3] by (simp add: one_conn_def)

section \<open>Closing\<close>

definition closed_pool :: "system \<Rightarrow> system" where
  "closed_pool s = s\<lparr>y_pool := (y_pool s)\<lparr>cp_closed := True, cp_poolClosed := True\<rparr>\<rparr>"

lemma reach_closed:
  assumes "pool_reach n s" and "\<not> y_panic s" and "\<not> cp_closed (y_pool s)" and "\<not> cp_poolClosed (y_pool s)"
  shows "pool_reach n (closed_pool s)"
proof -
  have "pool_reach n (s\<lparr>y_pool := (y_pool s)\<lparr>cp_closed := True\<rparr>\<rparr>)"
    using assms by (blast intro: more closing close_flag)
  then show ?thesis
    by (rule pool_reach_step [OF _ _ closing [OF close_chan]]) (use assms in \<open>simp_all add: closed_pool_def\<close>)
qed

lemma panic_putting: "n < 2 ^ 31 \<Longrightarrow> \<exists>s. pool_reach n s \<and> y_panic s \<and> Returning 1 \<in># y_clients s"
proof -
  assume n: "n < 2 ^ 31"
  have 1: "pool_reach n (one_conn n (Released 1))"
    by (rule pool_reach_step [OF reach_holding [OF n] _ putting [OF put [where T = "{#}" and c = 1]]]) (simp_all add: one_conn_def pool_ops)
  have 2: "pool_reach n (one_conn n (Returning 1))"
    by (rule pool_reach_step [OF 1 _ putting [OF put_open [where T = "{#}" and c = 1]]]) (simp_all add: one_conn_def)
  have 3: "pool_reach n (closed_pool (one_conn n (Returning 1)))"
    by (rule reach_closed [OF 2]) (simp_all add: one_conn_def)
  have "pool_reach n ((closed_pool (one_conn n (Returning 1)))\<lparr>y_panic := True\<rparr>)"
    by (rule pool_reach_step [OF 3 _ putting [OF put_panic [where T = "{#}" and c = 1]]]) (simp_all add: one_conn_def closed_pool_def)
  then show ?thesis by (intro exI) (auto simp: one_conn_def closed_pool_def)
qed

lemma panic_getting: "\<exists>s. pool_reach n s \<and> y_panic s \<and> Entering \<in># y_clients s"
proof -
  let ?s = "fresh_system n"
  have 1: "pool_reach n (?s\<lparr>y_clients := {#Calling#}\<rparr>)"
    by (rule pool_reach_step [OF fresh _ getting [OF get]]) (simp_all add: fresh_system_def)
  have 2: "pool_reach n (?s\<lparr>y_clients := {#Entering#}\<rparr>)"
    by (rule pool_reach_step [OF 1 _ getting [OF enter [where T = "{#}"]]]) (simp_all add: fresh_system_def)
  have 3: "pool_reach n (closed_pool (?s\<lparr>y_clients := {#Entering#}\<rparr>))"
    by (rule reach_closed [OF 2]) (simp_all add: fresh_system_def)
  have "pool_reach n ((closed_pool (?s\<lparr>y_clients := {#Entering#}\<rparr>))\<lparr>y_panic := True\<rparr>)"
    by (rule pool_reach_step [OF 3 _ getting [OF take_nil [where T = "{#}" and ph = Entering]]]) (simp_all add: fresh_system_def closed_pool_def)
  then show ?thesis by (intro exI) (auto simp: fresh_system_def closed_pool_def)
qed

lemma counter_drifts: "n < 2 ^ 31 \<Longrightarrow> \<exists>s. pool_reach n s \<and> \<not> y_panic s \<and> y_clients s = {#} \<and> cp_totalConns (y_pool s) = - 1"
proof -
  assume n: "n < 2 ^ 31"
  let ?s = "closed_pool (one_conn n (Holding 1))"
  let ?t = "?s\<lparr>y_pool := force_close 1 (y_pool ?s)\<rparr>"
  have 1: "pool_reach n ?s" by (rule reach_closed [OF reach_holding [OF n]]) (simp_all add: one_conn_def)
  have 2: "pool_reach n ?t"
    by (rule pool_reach_step [OF 1 _ closing [OF force]]) (simp_all add: one_conn_def closed_pool_def)
  have "pool_reach n (?t\<lparr>y_clients := {#}, y_pool := Remove 1 (y_pool ?t)\<rparr>)"
    by (rule pool_reach_step [OF 2 _ remove [where T = "{#}" and c = 1]]) (simp_all add: one_conn_def closed_pool_def)
  then show ?thesis by (intro exI) (auto simp: one_conn_def closed_pool_def pool_ops)
qed

text \<open>
  Closing the connection pool. A panic needs a closed pool; but whatever the size of the pool (a 32-bit number), closing it can crash the process in two ways: a client that passed the check of the closed flag in \<open>Put\<close>
  sends its connection on the closed channel, and a client that passed it in \<open>Get\<close> receives a nil connection from the closed channel and locks its mutex. And a client that gives back a connection after
  \<open>Close\<close> has closed it by force subtracts it from the counter a second time, which ends at -1 with no client left.
\<close>

theorem pool_close_panics:
  "(\<forall>n s. pool_reach n s \<and> y_panic s \<longrightarrow> cp_closed (y_pool s) \<and> cp_poolClosed (y_pool s)) \<and>
   (\<forall>n < 2 ^ 31. \<exists>s. pool_reach n s \<and> y_panic s \<and> Returning 1 \<in># y_clients s) \<and>
   (\<forall>n. \<exists>s. pool_reach n s \<and> y_panic s \<and> Entering \<in># y_clients s) \<and>
   (\<forall>n < 2 ^ 31. \<exists>s. pool_reach n s \<and> \<not> y_panic s \<and> y_clients s = {#} \<and> cp_totalConns (y_pool s) = - 1)"
proof -
  have "cp_closed (y_pool s) \<and> cp_poolClosed (y_pool s)" if "pool_reach n s" "y_panic s" for n s
    using pool_inv_reach [OF that(1)] that(2) by (simp add: pool_inv_def close_inv_def)
  then show ?thesis using panic_putting panic_getting counter_drifts by blast
qed

theorem pool_close_panics_witness:
  "\<exists>s. pool_reach 20 s \<and> y_panic s \<and> Returning 1 \<in># y_clients s \<and> cp_closed (y_pool s) \<and> cp_poolClosed (y_pool s)"
proof -
  have "\<exists>s. pool_reach 20 s \<and> y_panic s \<and> Returning 1 \<in># y_clients s" using pool_close_panics by simp
  then show ?thesis using pool_close_panics by blast
qed

end
