(* ===== verification/Environ.thy ===== *)
theory Environ
  imports Building
begin

text \<open>
  The environment of a job's process. The server builds it (\<open>core/environment/builder.go\<close>, \<open>core/execution/environment_service.go\<close>, the check of the
  client's variables in \<open>server/job_service.go\<close>, the check before the launch in \<open>core/process/manager.go\<close>), \<open>os/exec\<close> removes duplicates from it, and the
  init process reads the job back from it. The workspace and its uploads are here too.

  What the service reads (its own environment, files, which paths exist) is the record \<open>host\<close>; the orders in which Go ranges over the maps are arguments.
\<close>

section \<open>What is read\<close>

record host =
  h_Environ :: "string list"
  h_Getenv :: "string \<Rightarrow> string"
  h_ReadFile :: "string \<rightharpoonup> string"
  h_exists :: "string \<Rightarrow> bool"

record ServerConfig =
  fs_BaseDir :: string
  fs_TmpDir :: string
  fs_WorkspaceDir :: string
  rt_BasePath :: string
  rt_AllowedMounts :: "string list"
  gpu_Enabled :: bool
  gpu_CUDAPaths :: "string list"

definition kv :: "string \<Rightarrow> string \<Rightarrow> string" where
  "kv k v = k @ ''='' @ v"

section \<open>Forwarded settings (builder.go)\<close>

definition FilterServerConfigEnv :: "string list \<Rightarrow> string list" where
  "FilterServerConfigEnv env =
     filter (\<lambda>e. \<not> (HasPrefix e ''JOBLET_CONFIG_PATH='' \<or> HasPrefix e ''JOBLET_RUNTIME_CONFIG_PATH='')) env"

definition ForwardFilesystemEnv :: "ServerConfig \<Rightarrow> string list" where
  "ForwardFilesystemEnv cfg =
     [kv ''JOB_FS_WORKSPACE_DIR'' (fs_WorkspaceDir cfg), kv ''JOB_FS_BASE_DIR'' (fs_BaseDir cfg), kv ''JOB_FS_TMP_DIR'' (fs_TmpDir cfg)]"

definition ForwardRuntimeEnv :: "ServerConfig \<Rightarrow> string list" where
  "ForwardRuntimeEnv cfg =
     kv ''JOB_RT_BASE_PATH'' (rt_BasePath cfg) #
     (if length (rt_AllowedMounts cfg) > 0 then [kv ''JOB_RT_ALLOWED_MOUNTS'' (Join '':'' (rt_AllowedMounts cfg))] else [])"

definition indexed_env :: "string \<Rightarrow> string list \<Rightarrow> string list" where
  "indexed_env pre xs = map (\<lambda>i. kv (pre @ nat_digits i) (xs ! i)) [0..<length xs]"

section \<open>The runtime's variables (environment\_service.go)\<close>

text \<open>\<open>strings.Trim(s, "\"'")\<close>.\<close>

definition trim_quotes :: "string \<Rightarrow> string" where
  "trim_quotes s = (let q = (\<lambda>c. c = CHR 0x22 \<or> c = CHR 0x27) in rev (dropWhile q (rev (dropWhile q s))))"

text \<open>One line of \<open>runtime.yml\<close>; the state is whether the lines belong to the environment section, and what was read so far.\<close>

definition runtime_line :: "string \<Rightarrow> bool \<times> (string \<rightharpoonup> string) \<Rightarrow> bool \<times> (string \<rightharpoonup> string)" where
  "runtime_line originalLine st =
     (let line = TrimSpace originalLine; (inEnvironment, vars) = st;
          hasIndentation = (HasPrefix originalLine '' '' \<or> HasPrefix originalLine [CHR 0x09])
      in if line = [] \<or> HasPrefix line ''#'' then st
         else if HasPrefix line ''environment:'' then (True, vars)
         else if inEnvironment then
           if \<not> hasIndentation \<and> CHR '':'' \<in> set line then (False, vars)
           else if hasIndentation \<and> CHR '':'' \<in> set line then
             (True, vars(TrimSpace (takeWhile (\<lambda>c. c \<noteq> CHR '':'') line) \<mapsto>
                         trim_quotes (TrimSpace (drop 1 (dropWhile (\<lambda>c. c \<noteq> CHR '':'') line)))))
           else st
         else st)"

definition runtime_vars :: "string \<Rightarrow> (string \<rightharpoonup> string)" where
  "runtime_vars content = snd (fold runtime_line (Split (CHR 0x0A) content) (False, Map.empty))"

definition runtime_entry :: "host \<Rightarrow> string \<Rightarrow> string \<Rightarrow> string" where
  "runtime_entry h key val =
     (if key = ''PATH_PREPEND'' then
        if h_Getenv h ''PATH'' \<noteq> [] then kv ''PATH'' (val @ '':'' @ h_Getenv h ''PATH'') else kv ''PATH'' val
      else kv key val)"

text \<open>The orders \<open>ks\<close> of the range are given as a function of the map.\<close>

definition getRuntimeEnvironment :: "((string \<rightharpoonup> string) \<Rightarrow> string list) \<Rightarrow> ServerConfig \<Rightarrow> host \<Rightarrow> string \<Rightarrow> string list" where
  "getRuntimeEnvironment ks cfg h runtimeSpec =
     (if runtimeSpec = [] then []
      else case h_ReadFile h (Join_path [Join_path [rt_BasePath cfg, runtimeSpec], ''runtime.yml'']) of
             None \<Rightarrow> []
           | Some configData \<Rightarrow>
               (let vars = runtime_vars configData
                in map (\<lambda>k. runtime_entry h k (the (vars k))) (ks vars)))"

section \<open>CUDA (environment\_service.go)\<close>

definition isCUDAPath :: "host \<Rightarrow> string \<Rightarrow> bool" where
  "isCUDAPath h path \<longleftrightarrow>
     h_exists h (Join_path [path, ''bin'', ''nvcc'']) \<and> h_exists h (Join_path [path, ''include'', ''cuda.h'']) \<and>
     (h_exists h (Join_path [path, ''lib64'']) \<or> h_exists h (Join_path [path, ''lib'']))"

text \<open>\<open>None\<close>: no installation was found.\<close>

definition DetectCUDA :: "host \<Rightarrow> string list option" where
  "DetectCUDA h =
     (let commonPaths = [''/usr/local/cuda'', ''/opt/cuda'', ''/usr/cuda''];
          paths = (if h_Getenv h ''CUDA_HOME'' \<noteq> [] then h_Getenv h ''CUDA_HOME'' # commonPaths else commonPaths);
          cudaPaths = filter (isCUDAPath h) paths
      in if cudaPaths = [] then None else Some cudaPaths)"

definition prepend_path :: "string \<Rightarrow> string \<Rightarrow> string" where
  "prepend_path p current = (if current \<noteq> [] then p @ '':'' @ current else p)"

definition GetCUDAEnvironment :: "host \<Rightarrow> string \<Rightarrow> (string \<rightharpoonup> string)" where
  "GetCUDAEnvironment h cudaPath =
     (let env = [''CUDA_HOME'' \<mapsto> cudaPath, ''PATH'' \<mapsto> prepend_path (Join_path [cudaPath, ''bin'']) (h_Getenv h ''PATH'')];
          libs = filter (h_exists h) [Join_path [cudaPath, ''lib64''], Join_path [cudaPath, ''lib'']]
      in if libs \<noteq> [] then env(''LD_LIBRARY_PATH'' \<mapsto> prepend_path (Join '':'' libs) (h_Getenv h ''LD_LIBRARY_PATH'')) else env)"

definition formatGPUIndices :: "int list \<Rightarrow> string" where
  "formatGPUIndices indices = Join '','' (map Itoa indices)"

definition buildGPUEnvironment :: "ServerConfig \<Rightarrow> host \<Rightarrow> Job \<Rightarrow> string list" where
  "buildGPUEnvironment cfg h job =
     (if length (job_GPUIndices job) > 0 then [kv ''CUDA_VISIBLE_DEVICES'' (formatGPUIndices (job_GPUIndices job))] else []) @
     [kv ''JOBLET_GPU_COUNT'' (Itoa (job_GPUCount job)), kv ''JOBLET_GPU_MEMORY_MB'' (Itoa (job_GPUMemoryMB job)),
      kv ''JOBLET_GPU_ALLOCATED_COUNT'' (nat_digits (length (job_GPUIndices job)))] @
     (if gpu_Enabled cfg \<and> length (gpu_CUDAPaths cfg) > 0 then
        (let cudaPath = gpu_CUDAPaths cfg ! 0
         in [kv ''CUDA_HOME'' cudaPath, kv ''CUDA_ROOT'' cudaPath,
             kv ''LD_LIBRARY_PATH'' (prepend_path (Join_path [cudaPath, ''lib64'']) (h_Getenv h ''LD_LIBRARY_PATH'')),
             kv ''PATH'' (prepend_path (Join_path [cudaPath, ''bin'']) (h_Getenv h ''PATH''))])
      else [])"

section \<open>The environment of a job (environment\_service.go)\<close>

text \<open>The variables that the init process trusts.\<close>

definition control_env :: "ServerConfig \<Rightarrow> Job \<Rightarrow> string \<Rightarrow> string list" where
  "control_env cfg job phase =
     [''JOBLET_MODE=init'', kv ''JOB_PHASE'' phase, kv ''JOB_ID'' (job_Uuid job), kv ''JOB_TYPE'' (JobType_String (job_Type job)),
      kv ''JOB_CGROUP_PATH'' ''/sys/fs/cgroup'', kv ''JOB_CGROUP_HOST_PATH'' (job_CgroupPath job),
      kv ''JOB_MAX_CPU'' (Itoa (CPUPercentage_Value (rl_CPU (job_Limits job)))),
      kv ''JOB_MAX_MEMORY'' (Itoa (MemorySize_Megabytes (rl_Memory (job_Limits job)))),
      kv ''JOB_MAX_IOBPS'' (Itoa (Bandwidth_BytesPerSecond (rl_IOBandwidth (job_Limits job)))),
      kv ''JOB_COMMAND'' (job_Command job), kv ''JOB_ARGS_COUNT'' (nat_digits (length (job_Args job)))] @
     ForwardFilesystemEnv cfg @ ForwardRuntimeEnv cfg @
     indexed_env ''JOB_ARG_'' (job_Args job) @
     (if \<not> CPUCoreSet_IsEmpty (rl_CPUCores (job_Limits job)) then [kv ''JOB_CPU_CORES'' (CPUCoreSet_String (rl_CPUCores (job_Limits job)))] else []) @
     (if length (job_Volumes job) > 0
      then kv ''JOB_VOLUMES_COUNT'' (nat_digits (length (job_Volumes job))) # indexed_env ''JOB_VOLUME_'' (job_Volumes job) else []) @
     (if job_Runtime job \<noteq> [] then [kv ''JOB_RUNTIME'' (job_Runtime job)] else [])"

definition map_env :: "((string \<rightharpoonup> string) \<Rightarrow> string list) \<Rightarrow> (string \<rightharpoonup> string) \<Rightarrow> string list" where
  "map_env ks m = map (\<lambda>k. kv k (the (m k))) (ks m)"

definition BuildEnvironment :: "((string \<rightharpoonup> string) \<Rightarrow> string list) \<Rightarrow> ServerConfig \<Rightarrow> host \<Rightarrow> Job \<Rightarrow> string \<Rightarrow> string list" where
  "BuildEnvironment ks cfg h job phase =
     FilterServerConfigEnv (h_Environ h) @ map_env ks (job_Environment job) @ map_env ks (job_SecretEnvironment job) @
     (if job_Runtime job \<noteq> [] then getRuntimeEnvironment ks cfg h (job_Runtime job) else []) @
     (if HasGPURequirement job \<and> IsGPUAllocated job then buildGPUEnvironment cfg h job else []) @
     control_env cfg job phase"

section \<open>The client's variables (job\_service.go)\<close>

datatype env_error = EnvInvalid validation_error | EnvReserved string | EnvReservedPrefix string string

definition reservedEnvPrefixes :: "string list" where
  "reservedEnvPrefixes = [''JOB_'', ''JOBLET_'']"

definition reservedEnvExact :: "string list" where
  "reservedEnvExact = [''RUNTIME_MANAGER_PATH'', ''NETWORK_READY_FILE'']"

fun validateClientEnvironment :: "(string \<times> string) list \<Rightarrow> (env_error, unit) result" where
  "validateClientEnvironment [] = Inr ()"
| "validateClientEnvironment ((k, v) # es) =
     (case ValidateEnvironmentVariable k v of
        Inl err \<Rightarrow> Inl (EnvInvalid err)
      | Inr _ \<Rightarrow>
          if k \<in> set reservedEnvExact then Inl (EnvReserved k)
          else (case find (HasPrefix k) reservedEnvPrefixes of
                  Some p \<Rightarrow> Inl (EnvReservedPrefix k p)
                | None \<Rightarrow> validateClientEnvironment es))"

section \<open>The launch\<close>

datatype launch_error = EnvNull nat | EnvNoSeparator nat | EnvLaunchFailed

fun validate_env_from :: "nat \<Rightarrow> string list \<Rightarrow> (launch_error, unit) result" where
  "validate_env_from i [] = Inr ()"
| "validate_env_from i (e # es) =
     (if CHR 0x00 \<in> set e then Inl (EnvNull i)
      else if CHR ''='' \<notin> set e then Inl (EnvNoSeparator i)
      else validate_env_from (Suc i) es)"

definition validateEnvironment :: "string list \<Rightarrow> (launch_error, unit) result" where
  "validateEnvironment env = validate_env_from 0 env"

text \<open>
  What \<open>os/exec\<close> does to the environment of a command: from the end, an entry whose variable was seen already is dropped. The name of an entry ends at its first
  equals sign.
\<close>

definition env_key :: "string \<Rightarrow> string" where
  "env_key e = takeWhile (\<lambda>c. c \<noteq> CHR ''='') e"

fun dedup_rev :: "string set \<Rightarrow> string list \<Rightarrow> string list" where
  "dedup_rev seen [] = []"
| "dedup_rev seen (e # es) = (if env_key e \<in> seen then dedup_rev seen es else e # dedup_rev (insert (env_key e) seen) es)"

definition dedupEnv :: "string list \<Rightarrow> string list" where
  "dedupEnv env = rev (dedup_rev {} (rev env))"

text \<open>\<open>os.Getenv\<close> in the process: the first entry with the name.\<close>

definition Getenv :: "string list \<Rightarrow> string \<Rightarrow> string" where
  "Getenv env k = (case find (\<lambda>e. HasPrefix e (k @ ''='')) env of None \<Rightarrow> [] | Some e \<Rightarrow> drop (Suc (length k)) e)"

section \<open>The job read back (builder.go)\<close>

record JobConfig =
  jc_JobUUID :: string
  jc_Command :: string
  jc_Args :: "string list"
  jc_CgroupPath :: string
  jc_HasUploadSession :: bool
  jc_UploadPipePath :: string
  jc_TotalFiles :: int

text \<open>\<open>ArgsPanic\<close>: \<open>make\<close> with a capacity that is negative or larger than the address space.\<close>

datatype config_error = NoJobID | NoJobCommand | ArgsPanic

text \<open>\<open>strconv.Atoi\<close> when its error is ignored: a number out of range gives the nearest \<open>int\<close>, anything else that is no number gives 0.\<close>

definition Atoi_value :: "string \<Rightarrow> int" where
  "Atoi_value s =
     (let neg = (take 1 s = ''-''); body = (if take 1 s = ''-'' \<or> take 1 s = ''+'' then drop 1 s else s)
      in case unsigned_value body of
           None \<Rightarrow> 0
         | Some n \<Rightarrow> max (- (2 ^ 63)) (min (2 ^ 63 - 1) (if neg then - int n else int n)))"

definition LoadJobConfigFromEnvironment :: "(string \<Rightarrow> string) \<Rightarrow> (config_error, JobConfig) result" where
  "LoadJobConfigFromEnvironment getenv =
     (if getenv ''JOB_ID'' = [] then Inl NoJobID
      else if getenv ''JOB_COMMAND'' = [] then Inl NoJobCommand
      else let argsCount = (if getenv ''JOB_ARGS_COUNT'' \<noteq> [] then Atoi_value (getenv ''JOB_ARGS_COUNT'') else 0) in
        if argsCount < 0 \<or> argsCount * 16 > 2 ^ 48 then Inl ArgsPanic
        else Inr \<lparr>jc_JobUUID = getenv ''JOB_ID'', jc_Command = getenv ''JOB_COMMAND'',
                  jc_Args = filter (\<lambda>a. a \<noteq> []) (map (\<lambda>i. getenv (''JOB_ARG_'' @ nat_digits i)) [0..<nat argsCount]),
                  jc_CgroupPath = (if getenv ''JOB_CGROUP_PATH'' = [] then ''/sys/fs/cgroup'' else getenv ''JOB_CGROUP_PATH''),
                  jc_HasUploadSession = (getenv ''JOB_UPLOAD_SESSION'' = ''true''),
                  jc_UploadPipePath = getenv ''JOB_UPLOAD_PIPE'',
                  jc_TotalFiles = (if getenv ''JOB_UPLOAD_TOTAL_FILES'' \<noteq> [] then Atoi_value (getenv ''JOB_UPLOAD_TOTAL_FILES'') else 0)\<rparr>)"

section \<open>The workspace (environment\_service.go)\<close>

text \<open>What is done to the file system as root, in order. \<open>ok\<close> says which of these calls succeed.\<close>

datatype fs_op = OpMkdirAll string "32 word" | OpWriteFile string string "32 word"

datatype workspace_error = UploadEscapes validation_error | MkdirFailed string | WriteFailed string

definition upload_ops :: "string \<Rightarrow> FileUpload \<Rightarrow> fs_op list" where
  "upload_ops fullPath upload =
     (let mode = SanitizeUploadMode (fu_Mode upload)
      in if fu_IsDirectory upload then [OpMkdirAll fullPath mode]
         else [OpMkdirAll (Dir fullPath) 0x1ED, OpWriteFile fullPath (fu_Content upload) mode])"

fun op_error :: "fs_op \<Rightarrow> workspace_error" where
  "op_error (OpMkdirAll p m) = MkdirFailed p"
| "op_error (OpWriteFile p c m) = WriteFailed p"

fun run_ops :: "(fs_op \<Rightarrow> bool) \<Rightarrow> fs_op list \<Rightarrow> fs_op list \<times> (workspace_error, unit) result" where
  "run_ops ok [] = ([], Inr ())"
| "run_ops ok (x # xs) = (if ok x then (let (done, r) = run_ops ok xs in (x # done, r)) else ([], Inl (op_error x)))"

fun processUploads :: "string option \<Rightarrow> (fs_op \<Rightarrow> bool) \<Rightarrow> string \<Rightarrow> FileUpload list \<Rightarrow> fs_op list \<times> (workspace_error, unit) result" where
  "processUploads cwd ok workDir [] = ([], Inr ())"
| "processUploads cwd ok workDir (upload # uploads) =
     (case ValidatePathWithinBase cwd workDir (fu_Path upload) of
        Inl err \<Rightarrow> ([], Inl (UploadEscapes err))
      | Inr fullPath \<Rightarrow>
          (case run_ops ok (upload_ops fullPath upload) of
             (done, Inl err) \<Rightarrow> (done, Inl err)
           | (done, Inr _) \<Rightarrow> (let (more, r) = processUploads cwd ok workDir uploads in (done @ more, r))))"

definition work_dir :: "ServerConfig \<Rightarrow> string \<Rightarrow> string" where
  "work_dir cfg jobID = Join_path [Join_path [fs_BaseDir cfg, jobID], ''work'']"

definition PrepareWorkspace ::
  "string option \<Rightarrow> (fs_op \<Rightarrow> bool) \<Rightarrow> ServerConfig \<Rightarrow> string \<Rightarrow> FileUpload list \<Rightarrow> fs_op list \<times> (workspace_error, string) result" where
  "PrepareWorkspace cwd ok cfg jobID uploads =
     (let workDir = work_dir cfg jobID in
      case run_ops ok [OpMkdirAll workDir 0x1ED] of
        (done, Inl err) \<Rightarrow> (done, Inl err)
      | (done, Inr _) \<Rightarrow>
          (let (more, r) = processUploads cwd ok workDir uploads
           in (done @ more, case r of Inl err \<Rightarrow> Inl err | Inr _ \<Rightarrow> Inr workDir)))"

section \<open>The last entry of a variable wins\<close>

lemma env_key_iff: "CHR ''='' \<notin> set k \<Longrightarrow> CHR ''='' \<in> set e \<Longrightarrow> HasPrefix e (k @ ''='') \<longleftrightarrow> env_key e = k"
proof
  assume "CHR ''='' \<notin> set k" "HasPrefix e (k @ ''='')"
  then show "env_key e = k" by (auto simp: HasPrefix_iff env_key_def takeWhile_tail)
next
  assume "CHR ''='' \<in> set e" "env_key e = k"
  then have "e = k @ dropWhile (\<lambda>c. c \<noteq> CHR ''='') e" "dropWhile (\<lambda>c. c \<noteq> CHR ''='') e \<noteq> []"
    by (auto simp: env_key_def)
  moreover have "hd (dropWhile (\<lambda>c. c \<noteq> CHR ''='') e) = CHR ''=''" using calculation(2) hd_dropWhile by blast
  ultimately have "e = (k @ ''='') @ tl (dropWhile (\<lambda>c. c \<noteq> CHR ''='') e)"
    by (metis append.assoc append_Cons append_Nil list.exhaust_sel)
  then show "HasPrefix e (k @ ''='')" by (metis HasPrefix_append)
qed

lemma env_key_kv [simp]: "CHR ''='' \<notin> set k \<Longrightarrow> env_key (kv k v) = k"
  unfolding env_key_def kv_def by (subst takeWhile_append2) auto

lemma dedup_find: "k \<notin> seen \<Longrightarrow> find (\<lambda>e. env_key e = k) (dedup_rev seen es) = find (\<lambda>e. env_key e = k) es"
  by (induction seen es rule: dedup_rev.induct) auto

lemma dedup_keys: "env_key ` set (dedup_rev seen es) \<inter> seen = {} \<and> distinct (map env_key (dedup_rev seen es))"
  by (induction seen es rule: dedup_rev.induct) auto

lemma set_dedup: "set (dedup_rev seen es) \<subseteq> set es"
  by (induction seen es rule: dedup_rev.induct) auto

lemma find_append: "find P (ys @ zs) = (case find P ys of None \<Rightarrow> find P zs | Some y \<Rightarrow> Some y)"
  by (induction ys) auto

lemma find_rev_unique: "distinct (map f xs) \<Longrightarrow> find (\<lambda>x. f x = k) (rev xs) = find (\<lambda>x. f x = k) xs"
proof (induction xs)
  case (Cons x xs)
  then have "f x = k \<Longrightarrow> find (\<lambda>x. f x = k) xs = None" by (auto simp: find_None_iff image_iff)
  with Cons show ?case by (auto simp: find_append split: option.splits)
qed simp

lemma validateEnvironment_ok: "validate_env_from i env = Inr () \<longleftrightarrow> (\<forall>e \<in> set env. CHR 0x00 \<notin> set e \<and> CHR ''='' \<in> set e)"
  by (induction i env rule: validate_env_from.induct) auto

lemma Getenv_launched:
  assumes "validateEnvironment env = Inr ()" and k: "CHR ''='' \<notin> set k"
  shows "Getenv (dedupEnv env) k = (case find (\<lambda>e. env_key e = k) (rev env) of None \<Rightarrow> [] | Some e \<Rightarrow> drop (Suc (length k)) e)"
proof -
  have eq: "\<forall>e \<in> set env. CHR ''='' \<in> set e" using assms(1) by (simp add: validateEnvironment_def validateEnvironment_ok)
  have find_cong: "find P xs = find Q xs" if "\<forall>x \<in> set xs. P x = Q x" for P Q :: "string \<Rightarrow> bool" and xs
    using that by (induction xs) auto
  have "find (\<lambda>e. HasPrefix e (k @ ''='')) (dedupEnv env) = find (\<lambda>e. env_key e = k) (dedupEnv env)"
    using eq set_dedup [of "{}" "rev env"] by (intro find_cong ballI env_key_iff [OF k]) (auto simp: dedupEnv_def)
  also have "\<dots> = find (\<lambda>e. env_key e = k) (rev env)"
    using find_rev_unique [of env_key "dedup_rev {} (rev env)" k] dedup_keys [of "{}" "rev env"] dedup_find [of k "{}" "rev env"]
    by (simp add: dedupEnv_def)
  finally show ?thesis by (simp add: Getenv_def)
qed

text \<open>Entries as pairs: what the last part of the environment says about a variable is what the process reads.\<close>

definition entries :: "(string \<times> string) list \<Rightarrow> string list" where
  "entries ps = map (\<lambda>(k, v). kv k v) ps"

lemma entries_simps [simp]: "entries [] = []" "entries ((k, v) # ps) = kv k v # entries ps" "entries (ps @ qs) = entries ps @ entries qs"
  by (simp_all add: entries_def)

lemma find_entries:
  "\<forall>(k', v) \<in> set ps. CHR ''='' \<notin> set k' \<Longrightarrow> find (\<lambda>e. env_key e = k) (entries ps) = map_option (kv k) (map_of ps k)"
  by (induction ps) auto

lemma Getenv_trusted:
  assumes "validateEnvironment (pre @ entries ps) = Inr ()" and keys: "\<forall>(k', v) \<in> set ps. CHR ''='' \<notin> set k'"
    and v: "map_of (rev ps) k = Some v"
  shows "Getenv (dedupEnv (pre @ entries ps)) k = v"
proof -
  have rev: "rev (entries ps) = entries (rev ps)" by (simp add: entries_def rev_map)
  have k: "CHR ''='' \<notin> set k" using map_of_SomeD [OF v] keys by auto
  have "find (\<lambda>e. env_key e = k) (entries (rev ps)) = Some (kv k v)" using find_entries [of "rev ps" k] keys v by simp
  then have "find (\<lambda>e. env_key e = k) (rev (pre @ entries ps)) = Some (kv k v)" by (simp add: rev find_append)
  then show ?thesis using Getenv_launched [OF assms(1) k] by (simp add: kv_def)
qed

section \<open>The control variables\<close>

definition indexed :: "string \<Rightarrow> string list \<Rightarrow> (string \<times> string) list" where
  "indexed pre xs = map (\<lambda>i. (pre @ nat_digits i, xs ! i)) [0..<length xs]"

lemma indexed_env_entries: "indexed_env pre xs = entries (indexed pre xs)"
  by (simp add: indexed_env_def entries_def indexed_def)

lemma nat_digits_eq_iff [simp]: "nat_digits x = nat_digits y \<longleftrightarrow> x = y"
  by (metis digits_value_nat_digits option.inject)

lemma indexed_keys: "CHR ''='' \<notin> set pre \<Longrightarrow> (k, v) \<in> set (indexed pre xs) \<Longrightarrow> CHR ''='' \<notin> set k"
  using nat_digits_all_digits by (fastforce simp: indexed_def is_digit_def byte_val_def)

lemma map_of_indexed_other: "\<not> HasPrefix k pre \<Longrightarrow> map_of (rev (indexed pre xs)) k = None"
  by (auto simp: map_of_eq_None_iff indexed_def)

lemma map_of_indexed: "i < length xs \<Longrightarrow> map_of (rev (indexed pre xs)) (pre @ nat_digits i) = Some (xs ! i)"
proof -
  assume i: "i < length xs"
  have "distinct (map fst (rev (indexed pre xs)))" by (simp add: indexed_def distinct_map inj_on_def comp_def rev_map [symmetric])
  moreover have "(pre @ nat_digits i, xs ! i) \<in> set (rev (indexed pre xs))" using i by (auto simp: indexed_def)
  ultimately show ?thesis by (simp add: map_of_eq_Some_iff)
qed

definition control_pairs :: "ServerConfig \<Rightarrow> Job \<Rightarrow> string \<Rightarrow> (string \<times> string) list" where
  "control_pairs cfg job phase =
     [(''JOBLET_MODE'', ''init''), (''JOB_PHASE'', phase), (''JOB_ID'', job_Uuid job), (''JOB_TYPE'', JobType_String (job_Type job)),
      (''JOB_CGROUP_PATH'', ''/sys/fs/cgroup''), (''JOB_CGROUP_HOST_PATH'', job_CgroupPath job),
      (''JOB_MAX_CPU'', Itoa (CPUPercentage_Value (rl_CPU (job_Limits job)))),
      (''JOB_MAX_MEMORY'', Itoa (MemorySize_Megabytes (rl_Memory (job_Limits job)))),
      (''JOB_MAX_IOBPS'', Itoa (Bandwidth_BytesPerSecond (rl_IOBandwidth (job_Limits job)))),
      (''JOB_COMMAND'', job_Command job), (''JOB_ARGS_COUNT'', nat_digits (length (job_Args job))),
      (''JOB_FS_WORKSPACE_DIR'', fs_WorkspaceDir cfg), (''JOB_FS_BASE_DIR'', fs_BaseDir cfg), (''JOB_FS_TMP_DIR'', fs_TmpDir cfg),
      (''JOB_RT_BASE_PATH'', rt_BasePath cfg)] @
     (if length (rt_AllowedMounts cfg) > 0 then [(''JOB_RT_ALLOWED_MOUNTS'', Join '':'' (rt_AllowedMounts cfg))] else []) @
     indexed ''JOB_ARG_'' (job_Args job) @
     (if \<not> CPUCoreSet_IsEmpty (rl_CPUCores (job_Limits job)) then [(''JOB_CPU_CORES'', CPUCoreSet_String (rl_CPUCores (job_Limits job)))] else []) @
     (if length (job_Volumes job) > 0
      then (''JOB_VOLUMES_COUNT'', nat_digits (length (job_Volumes job))) # indexed ''JOB_VOLUME_'' (job_Volumes job) else []) @
     (if job_Runtime job \<noteq> [] then [(''JOB_RUNTIME'', job_Runtime job)] else [])"

lemma control_env_entries: "control_env cfg job phase = entries (control_pairs cfg job phase)"
  by (simp add: control_env_def control_pairs_def ForwardFilesystemEnv_def ForwardRuntimeEnv_def indexed_env_entries kv_def [of "''JOBLET_MODE''"])

lemma control_keys: "\<forall>(k, v) \<in> set (control_pairs cfg job phase). CHR ''='' \<notin> set k"
  by (auto simp: control_pairs_def dest: indexed_keys [rotated])

lemma control_lookup:
  "map_of (rev (control_pairs cfg job phase)) ''JOBLET_MODE'' = Some ''init''"
  "map_of (rev (control_pairs cfg job phase)) ''JOB_PHASE'' = Some phase"
  "map_of (rev (control_pairs cfg job phase)) ''JOB_ID'' = Some (job_Uuid job)"
  "map_of (rev (control_pairs cfg job phase)) ''JOB_TYPE'' = Some (JobType_String (job_Type job))"
  "map_of (rev (control_pairs cfg job phase)) ''JOB_COMMAND'' = Some (job_Command job)"
  "map_of (rev (control_pairs cfg job phase)) ''JOB_CGROUP_PATH'' = Some ''/sys/fs/cgroup''"
  "map_of (rev (control_pairs cfg job phase)) ''JOB_ARGS_COUNT'' = Some (nat_digits (length (job_Args job)))"
  by (simp_all add: control_pairs_def map_add_def map_of_indexed_other HasPrefix_def)

lemma control_lookup_arg:
  "i < length (job_Args job) \<Longrightarrow> map_of (rev (control_pairs cfg job phase)) (''JOB_ARG_'' @ nat_digits i) = Some (job_Args job ! i)"
  using map_of_indexed [of i "job_Args job" "''JOB_ARG_''"]
  by (simp add: control_pairs_def map_add_def map_of_indexed_other HasPrefix_def)

lemma BuildEnvironment_split: "\<exists>pre. BuildEnvironment ks cfg h job phase = pre @ entries (control_pairs cfg job phase)"
  by (simp add: BuildEnvironment_def control_env_entries)

text \<open>What the init process reads of a control variable, when the server may have added the name of the ready file of the network.\<close>

lemma Getenv_control:
  assumes "validateEnvironment (BuildEnvironment ks cfg h job phase @ ready) = Inr ()" and "ready = [] \<or> ready = [kv ''NETWORK_READY_FILE'' f]"
    and "map_of (rev (control_pairs cfg job phase)) k = Some v" and "k \<noteq> ''NETWORK_READY_FILE''"
  shows "Getenv (dedupEnv (BuildEnvironment ks cfg h job phase @ ready)) k = v"
proof -
  obtain pre where pre: "BuildEnvironment ks cfg h job phase = pre @ entries (control_pairs cfg job phase)"
    using BuildEnvironment_split by blast
  obtain rp where rp: "ready = entries rp" "rp = [] \<or> rp = [(''NETWORK_READY_FILE'', f)]"
    using assms(2) by (metis entries_simps(1,2))
  have "map_of (rev (control_pairs cfg job phase @ rp)) k = Some v" using rp(2) assms(3,4) by auto
  then show ?thesis
    using Getenv_trusted [of pre "control_pairs cfg job phase @ rp" k v] assms(1) pre rp control_keys [of cfg job phase] by auto
qed

lemma Atoi_value_digits: "int n < 2 ^ 63 \<Longrightarrow> Atoi_value (nat_digits n) = int n"
proof -
  assume n: "int n < 2 ^ 63"
  have "take 1 (nat_digits n) \<noteq> ''-''" "take 1 (nat_digits n) \<noteq> ''+''"
    using nat_digits_all_digits [of n] by (cases "nat_digits n"; auto simp: is_digit_def byte_val_def)+
  then show ?thesis using n by (simp add: Atoi_value_def unsigned_value_def digits_value_nat_digits)
qed

lemma job_loaded:
  assumes "job_Uuid job \<noteq> []" and "job_Command job \<noteq> []" and "int (length (job_Args job)) * 16 \<le> 2 ^ 48"
    and "ready = [] \<or> ready = [kv ''NETWORK_READY_FILE'' f]"
    and "validateEnvironment (BuildEnvironment ks cfg h job ''execute'' @ ready) = Inr ()"
  shows "\<exists>c. LoadJobConfigFromEnvironment (Getenv (dedupEnv (BuildEnvironment ks cfg h job ''execute'' @ ready))) = Inr c \<and>
    jc_JobUUID c = job_Uuid job \<and> jc_Command c = job_Command job \<and> jc_Args c = filter (\<lambda>a. a \<noteq> []) (job_Args job) \<and>
    jc_CgroupPath c = ''/sys/fs/cgroup''"
proof -
  let ?g = "Getenv (dedupEnv (BuildEnvironment ks cfg h job ''execute'' @ ready))"
  note get = Getenv_control [OF assms(5,4)]
  have vals: "?g ''JOB_ID'' = job_Uuid job" "?g ''JOB_COMMAND'' = job_Command job" "?g ''JOB_CGROUP_PATH'' = ''/sys/fs/cgroup''"
    "?g ''JOB_ARGS_COUNT'' = nat_digits (length (job_Args job))"
    by (rule get; simp add: control_lookup)+
  have args: "map (\<lambda>i. ?g (''JOB_ARG_'' @ nat_digits i)) [0..<length (job_Args job)] = job_Args job"
  proof (rule nth_equalityI)
    fix i
    assume "i < length (map (\<lambda>i. ?g (''JOB_ARG_'' @ nat_digits i)) [0..<length (job_Args job)])"
    then have i: "i < length (job_Args job)" by simp
    have "?g (''JOB_ARG_'' @ nat_digits i) = job_Args job ! i"
      by (rule get) (simp_all only: control_lookup_arg [OF i], simp)
    then show "map (\<lambda>i. ?g (''JOB_ARG_'' @ nat_digits i)) [0..<length (job_Args job)] ! i = job_Args job ! i" using i by simp
  qed simp
  have "Atoi_value (nat_digits (length (job_Args job))) = int (length (job_Args job))"
    using assms(3) by (intro Atoi_value_digits) simp
  then show ?thesis using assms(1-3) vals args by (simp add: LoadJobConfigFromEnvironment_def)
qed

text \<open>
  C16. A job reaches its init process. Whatever the client, the runtime and the GPU setup put into the environment of a job, and whatever the server's own environment holds: if the
  environment passes the check before the launch, the init process reads back the job's identifier, its command and its arguments, in order and unchanged,
  except that arguments that are empty strings are lost.
\<close>

theorem job_reaches_init:
  assumes "job_Uuid job \<noteq> []" and "job_Command job \<noteq> []" and "int (length (job_Args job)) * 16 \<le> 2 ^ 48"
    and "ready = [] \<or> ready = [kv ''NETWORK_READY_FILE'' f]"
    and "validateEnvironment (BuildEnvironment ks cfg h job ''execute'' @ ready) = Inr ()"
  shows "\<exists>c. LoadJobConfigFromEnvironment (Getenv (dedupEnv (BuildEnvironment ks cfg h job ''execute'' @ ready))) = Inr c \<and>
    jc_JobUUID c = job_Uuid job \<and> jc_Command c = job_Command job \<and> jc_Args c = filter (\<lambda>a. a \<noteq> []) (job_Args job) \<and>
    jc_CgroupPath c = ''/sys/fs/cgroup''"
  by (rule job_loaded [OF assms])

definition example_host :: host where
  "example_host = \<lparr>h_Environ = [''HOME=/root'', ''JOB_TYPE=runtime-build''], h_Getenv = (\<lambda>k. []), h_ReadFile = Map.empty, h_exists = (\<lambda>p. False)\<rparr>"

definition example_server :: ServerConfig where
  "example_server = \<lparr>fs_BaseDir = ''/opt/jobs'', fs_TmpDir = ''/tmp/{JOB_ID}'', fs_WorkspaceDir = ''/work'', rt_BasePath = ''/rt'', rt_AllowedMounts = [],
     gpu_Enabled = False, gpu_CUDAPaths = []\<rparr>"

definition example_env_job :: Job where
  "example_env_job = zero_job\<lparr>job_Uuid := ''u1'', job_Command := ''echo'', job_Args := [''a'', [], ''b=c''],
     job_Environment := [''JOB_ID'' \<mapsto> ''forged''], job_Limits := no_limits\<rparr>"

definition example_order :: "(string \<rightharpoonup> string) \<Rightarrow> string list" where
  "example_order m = (if m ''JOB_ID'' = None then [] else [''JOB_ID''])"

lemma example_env_ok: "validateEnvironment (BuildEnvironment example_order example_server example_host example_env_job ''execute'' @ []) = Inr ()"
  by code_simp

theorem job_reaches_init_witness:
  "\<exists>c. LoadJobConfigFromEnvironment (Getenv (dedupEnv (BuildEnvironment example_order example_server example_host example_env_job ''execute'' @ []))) = Inr c \<and>
     jc_JobUUID c = ''u1'' \<and> jc_Args c = [''a'', ''b=c'']"
  using job_reaches_init [OF _ _ _ disjI1 [OF refl] example_env_ok] by (force simp: example_env_job_def)

section \<open>Uploads stay in the workspace\<close>

lemma run_ops_done: "set (fst (run_ops ok xs)) \<subseteq> set xs"
  by (induction xs) (auto split: prod.splits)

text \<open>The operations of one upload: its own path, or the directory it is in.\<close>

lemma processUploads_done:
  "x \<in> set (fst (processUploads cwd ok workDir uploads)) \<Longrightarrow>
    \<exists>u \<in> set uploads. \<exists>p. ValidatePathWithinBase cwd workDir (fu_Path u) = Inr p \<and> x \<in> set (upload_ops p u)"
proof (induction uploads)
  case (Cons u us)
  from Cons.prems obtain p where p: "ValidatePathWithinBase cwd workDir (fu_Path u) = Inr p" by (auto split: sum.splits)
  show ?case
  proof (cases "x \<in> set (fst (run_ops ok (upload_ops p u)))")
    case True
    then show ?thesis using p run_ops_done by fastforce
  next
    case False
    then show ?thesis using Cons p by (auto split: prod.splits sum.splits)
  qed
qed simp

text \<open>
  C17. Uploads cannot leave the workspace. Whatever paths and modes a client sends, everything written while the workspace of a job is prepared is below the job's directory \<open>work\<close>, or is
  that directory or a directory above it, created with mode 0755; no path has an element \<open>..\<close>; and no file or directory gets a mode with set-user, set-group or sticky bit.
\<close>

theorem uploads_confined:
  assumes "IsAbs (fs_BaseDir cfg)" and "\<forall>w. cwd = Some w \<longrightarrow> IsAbs w" and "x \<in> set (fst (PrepareWorkspace cwd ok cfg jobID uploads))"
  shows "\<exists>p m. (x = OpMkdirAll p m \<or> (\<exists>c. x = OpWriteFile p c m)) \<and> (\<forall>n \<ge> 9. \<not> bit m n) \<and>
    (\<exists>q rest. path_elems q = path_elems (work_dir cfg jobID) @ rest \<and> ''..'' \<notin> set (path_elems q) \<and> IsAbs q \<and> (p = q \<or> p = Dir q \<and> x = OpMkdirAll p 0x1ED))"
proof -
  let ?w = "work_dir cfg jobID"
  have ne: "fs_BaseDir cfg \<noteq> []" using assms(1) by (rule IsAbs_not_Nil)
  have base: "IsAbs (Join_path [fs_BaseDir cfg, jobID])" using Join_path_two [OF ne] assms(1) by (simp add: IsAbs_append)
  have w: "?w = Clean (Join_path [fs_BaseDir cfg, jobID] @ ''/'' @ ''work'')"
    unfolding work_dir_def by (rule Join_path_two [OF IsAbs_not_Nil [OF base]])
  have abs: "Abs_path cwd ?w = Some ?w" unfolding w using Clean_idem base by (simp add: Abs_path_def IsAbs_append)
  note wok = Abs_path_clean [OF abs assms(2)]
  have perm: "SanitizeUploadMode 0x1ED = 0x1ED" by (simp add: SanitizeUploadMode_def)
  have mode: "\<not> bit (SanitizeUploadMode m) n" if "9 \<le> n" for m n using that by (simp add: SanitizeUploadMode_bits)
  have mode': "\<not> bit (0x1ED :: 32 word) n" if "9 \<le> n" for n using mode [OF that, of "0x1ED"] unfolding perm .
  consider "x = OpMkdirAll ?w 0x1ED" | "x \<in> set (fst (processUploads cwd ok ?w uploads))"
    using assms(3) by (auto simp: PrepareWorkspace_def Let_def split: prod.splits if_splits)
  then show ?thesis
  proof cases
    case 1
    then show ?thesis using wok mode' by (intro exI [of _ ?w] exI [of _ "0x1ED"] conjI exI [of _ "[]"]) auto
  next
    case 2
    then obtain u p where p: "ValidatePathWithinBase cwd ?w (fu_Path u) = Inr p" "x \<in> set (upload_ops p u)"
      using processUploads_done by blast
    obtain rest where r: "path_elems p = path_elems ?w @ rest" "IsAbs p" "''..'' \<notin> set (path_elems p)"
      using ValidatePathWithinBase_sound [OF assms(2) p(1)] abs by auto
    have "x = OpMkdirAll p (SanitizeUploadMode (fu_Mode u)) \<or> x = OpMkdirAll (Dir p) 0x1ED \<or>
        x = OpWriteFile p (fu_Content u) (SanitizeUploadMode (fu_Mode u))"
      using p(2) by (auto simp: upload_ops_def Let_def split: if_splits)
    then show ?thesis using r mode mode' by blast
  qed
qed

theorem uploads_confined_witness:
  "\<exists>p m. OpWriteFile ''/opt/jobs/u1/work/a/b'' ''x'' 0x1A4 = OpWriteFile p ''x'' m \<and> (\<forall>n \<ge> 9. \<not> bit m n) \<and>
     (\<exists>rest. path_elems p = path_elems (work_dir example_server ''u1'') @ rest)"
proof -
  let ?u = "\<lparr>fu_Path = ''a/./b'', fu_Content = ''x'', fu_Mode = 0x9A4, fu_IsDirectory = False, fu_Size = 1\<rparr>"
  have "OpWriteFile ''/opt/jobs/u1/work/a/b'' ''x'' 0x1A4 \<in> set (fst (PrepareWorkspace None (\<lambda>x. True) example_server ''u1'' [?u]))"
    by code_simp
  moreover have "IsAbs (fs_BaseDir example_server)" by code_simp
  ultimately show ?thesis using uploads_confined [of example_server None _ "\<lambda>x. True" "''u1''" "[?u]"] by fastforce
qed

section \<open>The reserved namespace\<close>

definition reserved :: "string \<Rightarrow> bool" where
  "reserved k \<longleftrightarrow> k \<in> set reservedEnvExact \<or> (\<exists>p \<in> set reservedEnvPrefixes. HasPrefix k p)"

lemma validateClientEnvironment_ok:
  "validateClientEnvironment es = Inr () \<longleftrightarrow> (\<forall>(k, v) \<in> set es. ValidateEnvironmentVariable k v = Inr () \<and> \<not> reserved k)"
proof (induction es rule: validateClientEnvironment.induct)
  case (2 k v es)
  have "find (HasPrefix k) reservedEnvPrefixes = None \<longleftrightarrow> \<not> (\<exists>p \<in> set reservedEnvPrefixes. HasPrefix k p)"
    by (auto simp: find_None_iff)
  with 2 show ?case by (auto simp: reserved_def split: sum.splits option.splits)
qed simp

text \<open>The entries of a map, in the order of the range.\<close>

definition map_pairs :: "((string \<rightharpoonup> string) \<Rightarrow> string list) \<Rightarrow> (string \<rightharpoonup> string) \<Rightarrow> (string \<times> string) list" where
  "map_pairs ks m = map (\<lambda>k. (k, the (m k))) (ks m)"

lemma client_entries_skipped:
  assumes "validateClientEnvironment (map_pairs ks m) = Inr ()" and "reserved k"
  shows "find (\<lambda>e. env_key e = k) (rev (map_env ks m)) = None"
proof -
  have "env_key (kv x (the (m x))) \<noteq> k" if "x \<in> set (ks m)" for x
    using assms that env_name_no_equals by (auto simp: validateClientEnvironment_ok map_pairs_def)
  then show ?thesis by (auto simp: find_None_iff map_env_def)
qed


definition polite_job :: Job where
  "polite_job = example_env_job\<lparr>job_Environment := [''USER'' \<mapsto> ''me'']\<rparr>"

definition polite_order :: "(string \<rightharpoonup> string) \<Rightarrow> string list" where
  "polite_order m = (if m ''USER'' = None then [] else [''USER''])"


end
