(* ===== verification/InitMode.thy ===== *)
theory InitMode
  imports Environ
begin

text \<open>
  The init process of a job (\<open>internal/modes/jobexec/jobexec.go\<close>): it reads the job from its environment, finds the command, gives up its privileges and replaces itself by the
  command. The namespaces it starts in are chosen in \<open>core/unprivileged/namespace.go\<close>.

  The credentials of the process are part of the state; a system call that is refused leaves them as they are. What the process sees of its file system is the record
  \<open>host\<close>, its environment is an argument.
\<close>

section \<open>Namespaces (namespace.go)\<close>

datatype namespace_flag = NewPID | NewNS | NewIPC | NewUTS | NewNet

definition CreateIsolatedSysProcAttrForJobType :: "JobType \<Rightarrow> namespace_flag set" where
  "CreateIsolatedSysProcAttrForJobType jobType =
     {NewPID, NewNS, NewIPC, NewUTS} \<union> (if JobType_IsRuntimeBuild jobType then {} else {NewNet})"

section \<open>Credentials\<close>

record cred =
  c_uid :: int
  c_gid :: int
  c_groups :: "int list"

text \<open>Which of the three calls the kernel lets through.\<close>

record kernel =
  k_Setgroups :: bool
  k_Setgid :: bool
  k_Setuid :: bool

definition UnprivilegedUID :: int where
  "UnprivilegedUID = 65534"

definition UnprivilegedGID :: int where
  "UnprivilegedGID = 65534"

datatype exec_error =
    ConfigError config_error
  | UploadPhase
  | UnknownPhase string
  | CommandNotFound string
  | WorkspaceNotConfigured
  | ChdirFailed string
  | SetgroupsFailed
  | SetgidFailed
  | SetuidFailed
  | DropNotVerified int int
  | ExecFailed

definition dropPrivileges :: "kernel \<Rightarrow> cred \<Rightarrow> cred \<times> (exec_error, unit) result" where
  "dropPrivileges k c =
     (if \<not> k_Setgroups k then (c, Inl SetgroupsFailed)
      else let c = c\<lparr>c_groups := []\<rparr> in
      if \<not> k_Setgid k then (c, Inl SetgidFailed)
      else let c = c\<lparr>c_gid := UnprivilegedGID\<rparr> in
      if \<not> k_Setuid k then (c, Inl SetuidFailed)
      else let c = c\<lparr>c_uid := UnprivilegedUID\<rparr> in
      if c_uid c \<noteq> UnprivilegedUID \<or> c_gid c \<noteq> UnprivilegedGID then (c, Inl (DropNotVerified (c_uid c) (c_gid c)))
      else (c, Inr ()))"

section \<open>The command\<close>

definition resolveCommandPath :: "host \<Rightarrow> (string \<rightharpoonup> string) \<Rightarrow> string \<Rightarrow> (exec_error, string) result" where
  "resolveCommandPath h lookPath command =
     (if IsAbs command then Inr command
      else (case find (h_exists h) (map (\<lambda>d. Join_path [d, command]) [''/usr/local/bin'', ''/usr/bin'', ''/bin'', ''/sbin'', ''/usr/sbin'']) of
              Some path \<Rightarrow> Inr path
            | None \<Rightarrow> (case lookPath command of Some path \<Rightarrow> Inr path | None \<Rightarrow> Inl (CommandNotFound command))))"

text \<open>\<open>None\<close>: there is no such file, or it cannot be read.\<close>

definition loadRuntimeEnvironment :: "host \<Rightarrow> string list option" where
  "loadRuntimeEnvironment h =
     (if \<not> h_exists h ''/joblet/runtime.env'' then None
      else map_option (\<lambda>content. filter (\<lambda>line. \<not> (line = [] \<or> HasPrefix line ''#'')) (map TrimSpace (Split (CHR 0x0A) content)))
             (h_ReadFile h ''/joblet/runtime.env''))"

text \<open>The end of the init process: it has become the command, with these credentials, arguments and variables, or it failed.\<close>

datatype outcome = Exec cred string "string list" "string list" | Failed exec_error

definition executeCommand ::
  "host \<Rightarrow> (string \<rightharpoonup> string) \<Rightarrow> bool \<Rightarrow> bool \<Rightarrow> kernel \<Rightarrow> string \<Rightarrow> string list \<Rightarrow> cred \<Rightarrow> JobConfig \<Rightarrow> outcome" where
  "executeCommand h lookPath chdirOk execOk k workspaceDir env c config =
     (let getenv = Getenv env in
      case resolveCommandPath h lookPath (jc_Command config) of
        Inl err \<Rightarrow> Failed err
      | Inr commandPath \<Rightarrow>
          (let start =
             (if getenv ''JOB_HAS_UPLOADS'' = ''true'' then
                if workspaceDir = [] then Some WorkspaceNotConfigured
                else if h_exists h workspaceDir \<and> \<not> chdirOk then Some (ChdirFailed workspaceDir)
                else None
              else None)
           in case start of
                Some err \<Rightarrow> Failed err
              | None \<Rightarrow>
                  (let envv = env @ (case loadRuntimeEnvironment h of None \<Rightarrow> [] | Some runtimeEnv \<Rightarrow> runtimeEnv);
                       argv = commandPath # jc_Args config
                   in case (if getenv ''JOB_TYPE'' = ''runtime-build'' then (c, Inr ()) else dropPrivileges k c) of
                        (c, Inl err) \<Rightarrow> Failed err
                      | (c, Inr _) \<Rightarrow> if execOk then Exec c commandPath argv envv else Failed ExecFailed)))"

definition ExecuteJob ::
  "host \<Rightarrow> (string \<rightharpoonup> string) \<Rightarrow> bool \<Rightarrow> bool \<Rightarrow> kernel \<Rightarrow> string \<Rightarrow> string list \<Rightarrow> cred \<Rightarrow> outcome" where
  "ExecuteJob h lookPath chdirOk execOk k workspaceDir env c =
     (case LoadJobConfigFromEnvironment (Getenv env) of
        Inl err \<Rightarrow> Failed (ConfigError err)
      | Inr config \<Rightarrow>
          (let phase = Getenv env ''JOB_PHASE'' in
           if phase = ''upload'' then Failed UploadPhase
           else if phase = ''execute'' \<or> phase = [] then executeCommand h lookPath chdirOk execOk k workspaceDir env c config
           else Failed (UnknownPhase phase)))"

section \<open>Privileges\<close>

definition unprivileged :: "cred \<Rightarrow> bool" where
  "unprivileged c \<longleftrightarrow> c_uid c = UnprivilegedUID \<and> c_gid c = UnprivilegedGID \<and> c_groups c = []"

lemma dropPrivileges_ok: "dropPrivileges k c = (c', Inr u) \<Longrightarrow> unprivileged c'"
  by (auto simp: dropPrivileges_def Let_def unprivileged_def split: if_splits)

lemma executeCommand_Exec:
  assumes "executeCommand h lookPath chdirOk execOk k ws env c config = Exec c' path argv envv"
  shows "argv = path # jc_Args config" and "resolveCommandPath h lookPath (jc_Command config) = Inr path"
    and "Getenv env ''JOB_TYPE'' \<noteq> ''runtime-build'' \<Longrightarrow> unprivileged c'" and "\<exists>more. envv = env @ more"
  using assms by (auto simp: executeCommand_def Let_def split: sum.splits option.splits if_splits prod.splits dest: dropPrivileges_ok)

lemma type_not_build: "job_Type job \<noteq> ''runtime-build'' \<Longrightarrow> JobType_String (job_Type job) \<noteq> ''runtime-build''"
  by (auto simp: JobType_String_def JobTypeStandard_def)

text \<open>
  C13. A job that is not a runtime build never runs with privileges. Whatever the client, the runtime file and the server's own environment put into the environment (a forged \<open>JOB_TYPE\<close> included), and
  whichever system calls fail: if the init process that gets this environment becomes a command at all, it is the command of the job, found by the resolver, with the arguments of the job that are not empty,
  as user and group 65534 and without supplementary groups.
\<close>

theorem job_runs_unprivileged:
  assumes "job_Type job \<noteq> ''runtime-build''" and "int (length (job_Args job)) * 16 \<le> 2 ^ 48"
    and "ready = [] \<or> ready = [kv ''NETWORK_READY_FILE'' f]"
    and "validateEnvironment (BuildEnvironment ks cfg h job ''execute'' @ ready) = Inr ()"
    and "ExecuteJob h' lookPath chdirOk execOk k ws (dedupEnv (BuildEnvironment ks cfg h job ''execute'' @ ready)) c = Exec c' path argv envv"
  shows "unprivileged c' \<and> argv = path # filter (\<lambda>a. a \<noteq> []) (job_Args job) \<and> resolveCommandPath h' lookPath (job_Command job) = Inr path"
proof -
  let ?env = "dedupEnv (BuildEnvironment ks cfg h job ''execute'' @ ready)"
  obtain config where c: "LoadJobConfigFromEnvironment (Getenv ?env) = Inr config"
    "executeCommand h' lookPath chdirOk execOk k ws ?env c config = Exec c' path argv envv"
    using assms(5) by (auto simp: ExecuteJob_def Let_def split: sum.splits if_splits)
  have ty: "Getenv ?env ''JOB_TYPE'' = JobType_String (job_Type job)" "Getenv ?env ''JOB_ID'' = job_Uuid job"
    "Getenv ?env ''JOB_COMMAND'' = job_Command job"
    by (rule Getenv_control [OF assms(4,3)]; simp add: control_lookup)+
  have ne: "job_Uuid job \<noteq> []" "job_Command job \<noteq> []"
    using c(1) ty by (auto simp: LoadJobConfigFromEnvironment_def split: if_splits)
  have "jc_Args config = filter (\<lambda>a. a \<noteq> []) (job_Args job)" "jc_Command config = job_Command job"
    using job_loaded [OF ne assms(2-4)] c(1) by auto
  then show ?thesis using executeCommand_Exec [OF c(2)] ty(1) type_not_build [OF assms(1)] by auto
qed

definition example_init_host :: host where
  "example_init_host = \<lparr>h_Environ = [], h_Getenv = (\<lambda>k. []), h_ReadFile = Map.empty, h_exists = (\<lambda>p. p = ''/bin/echo'')\<rparr>"

theorem job_runs_unprivileged_witness:
  "\<exists>envv. ExecuteJob example_init_host Map.empty True True \<lparr>k_Setgroups = True, k_Setgid = True, k_Setuid = True\<rparr> ''/work''
      (dedupEnv (BuildEnvironment example_order example_server example_host example_env_job ''execute'' @ [])) \<lparr>c_uid = 0, c_gid = 0, c_groups = [0]\<rparr> =
    Exec \<lparr>c_uid = 65534, c_gid = 65534, c_groups = []\<rparr> ''/bin/echo'' [''/bin/echo'', ''a'', ''b=c''] envv \<and>
    unprivileged \<lparr>c_uid = 65534, c_gid = 65534, c_groups = []\<rparr>"
proof -
  let ?k = "\<lparr>k_Setgroups = True, k_Setgid = True, k_Setuid = True\<rparr>" and ?c = "\<lparr>c_uid = 0, c_gid = 0, c_groups = [0]\<rparr>"
  let ?env = "BuildEnvironment example_order example_server example_host example_env_job ''execute'' @ []"
  have "case ExecuteJob example_init_host Map.empty True True ?k ''/work'' (dedupEnv ?env) ?c of
      Exec c path argv envv \<Rightarrow> c = \<lparr>c_uid = 65534, c_gid = 65534, c_groups = []\<rparr> \<and> path = ''/bin/echo'' \<and> argv = [''/bin/echo'', ''a'', ''b=c'']
    | Failed e \<Rightarrow> False"
    by code_simp
  then obtain envv where e: "ExecuteJob example_init_host Map.empty True True ?k ''/work'' (dedupEnv ?env) ?c =
      Exec \<lparr>c_uid = 65534, c_gid = 65534, c_groups = []\<rparr> ''/bin/echo'' [''/bin/echo'', ''a'', ''b=c''] envv"
    by (auto split: outcome.splits)
  moreover have "job_Type example_env_job \<noteq> ''runtime-build''" "int (length (job_Args example_env_job)) * 16 \<le> 2 ^ 48"
    by (simp_all add: example_env_job_def zero_job_def)
  ultimately show ?thesis using job_runs_unprivileged [OF _ _ disjI1 [OF refl] example_env_ok e] by blast
qed

end
