(* ===== verification/Execution.thy ===== *)
theory Execution
  imports InitMode Gpu NetworkStore
begin

text \<open>
  The execution engine over the GPU manager, the network store and the environment: the GPU service (\<open>core/execution/gpu_service.go\<close>), the coordinator that starts and stops a job
  (\<open>core/execution/coordinator.go\<close>), the resource manager (\<open>core/resource_manager.go\<close>) and the cleanup coordinator (\<open>core/cleanup/coordinator.go\<close>).

  The engine's state is what the jobs hold: GPUs, addresses, directories, cgroups and processes. What the host answers to the calls of one operation is the record \<open>calls\<close>; the theorems
  hold for all answers. Directories and cgroups are the sets of their paths, files a map from paths to contents; removing a path removes what is below it.
\<close>

section \<open>State and answers\<close>

record engine =
  e_gpus :: Manager
  e_net :: networkStoreAdapter
  e_dirs :: "string set"
  e_files :: "string \<rightharpoonup> string"
  e_cgroups :: "string set"
  e_procs :: "string \<rightharpoonup> string list"
  e_cleanups :: "string set"

text \<open>
  How \<open>cgroup.Create\<close> can end: refused before the directory is made, all limits enforced, or a limit that cannot be enforced.
\<close>

datatype cgroup_answer = CgroupRefused | CgroupMade | CgroupNotEnforced

record calls =
  x_now :: int
  x_cwd :: "string option"
  x_host :: host
  x_mapOrder :: "(string \<rightharpoonup> string) \<Rightarrow> string list"
  x_gpuOrder :: "int list"
  x_verify :: "int \<Rightarrow> (verify_error, int) result"
  x_mkdir :: bool
  x_cgroup :: cgroup_answer
  x_cores :: bool
  x_devices :: bool
  x_isolate :: bool
  x_fsOk :: "fs_op \<Rightarrow> bool"
  x_cudaVerifier :: bool
  x_cudaUsable :: bool
  x_launch :: "int option"
  x_ready :: bool
  x_statFails :: "string \<Rightarrow> bool"
  x_removeFails :: "string \<Rightarrow> bool"

record engine_config =
  ec_server :: ServerConfig
  ec_cgroupBase :: string

definition remove_tree :: "string \<Rightarrow> string set \<Rightarrow> string set" where
  "remove_tree p D = {d \<in> D. d \<noteq> p \<and> \<not> HasPrefix d (p @ ''/'')}"

definition remove_all :: "string \<Rightarrow> engine \<Rightarrow> engine" where
  "remove_all p e = e\<lparr>e_dirs := remove_tree p (e_dirs e), e_files := (\<lambda>q. if q = p \<or> HasPrefix q (p @ ''/'') then None else e_files e q)\<rparr>"

text \<open>A directory exists when it was made or when one below it was.\<close>

definition path_exists :: "string \<Rightarrow> string set \<Rightarrow> bool" where
  "path_exists p D \<longleftrightarrow> (\<exists>d \<in> D. d = p \<or> HasPrefix d (p @ ''/''))"

definition job_root :: "engine_config \<Rightarrow> string \<Rightarrow> string" where
  "job_root cfg jobID = Join_path [fs_BaseDir (ec_server cfg), jobID]"

section \<open>GPU service (gpu\_service.go)\<close>

datatype gpu_service_error = GPUSupportDisabled int | GPUAllocation gpu_error | CUDAVerificationFailed

definition AllocateGPU :: "calls \<Rightarrow> Manager \<Rightarrow> Job \<Rightarrow> Manager \<times> Job \<times> (gpu_service_error, GPUAllocation option) result" where
  "AllocateGPU x m job =
     (if \<not> gm_enabled m then
        (m, job, if HasGPURequirement job then Inl (GPUSupportDisabled (job_GPUCount job)) else Inr None)
      else if \<not> HasGPURequirement job then (m, job, Inr None)
      else (case AllocateGPUs (x_gpuOrder x) (x_now x) m (job_Uuid job) (job_GPUCount job) (job_GPUMemoryMB job) of
              (m, Inl err) \<Rightarrow> (m, job, Inl (GPUAllocation err))
            | (m, Inr allocation) \<Rightarrow>
                (let job = job\<lparr>job_GPUIndices := map int32 (ga_GPUIndices allocation), job_GPUMIGUUIDs := ga_MIGUUIDs allocation\<rparr>
                 in if x_cudaVerifier x \<and> \<not> x_cudaUsable x
                    then (ReleaseGPUs (x_verify x) m (job_Uuid job), job, Inl CUDAVerificationFailed)
                    else (m, job, Inr (Some allocation)))))"

definition ReleaseGPU :: "calls \<Rightarrow> Manager \<Rightarrow> string \<Rightarrow> Manager" where
  "ReleaseGPU x m jobID = (if \<not> gm_enabled m then m else ReleaseGPUs (x_verify x) m jobID)"

section \<open>The coordinator (coordinator.go)\<close>

datatype start_error =
    IsolationFailed
  | WorkspaceFailed workspace_error
  | GPUFailed gpu_service_error
  | NetworkingFailed setup_error
  | LaunchFailed
  | ReadyFileFailed

definition CleanupWorkspace :: "calls \<Rightarrow> engine_config \<Rightarrow> string \<Rightarrow> engine \<Rightarrow> engine" where
  "CleanupWorkspace x cfg jobID e =
     (if x_removeFails x (job_root cfg jobID) then e else remove_all (job_root cfg jobID) e)"

definition cleanup :: "calls \<Rightarrow> engine_config \<Rightarrow> string \<Rightarrow> engine \<Rightarrow> engine" where
  "cleanup x cfg jobID e = CleanupWorkspace x cfg jobID e"

definition cleanupGPU :: "calls \<Rightarrow> string \<Rightarrow> bool \<Rightarrow> engine \<Rightarrow> engine" where
  "cleanupGPU x jobID allocated e = (if allocated then e\<lparr>e_gpus := ReleaseGPU x (e_gpus e) jobID\<rparr> else e)"

text \<open>The values of \<open>CUDA_VISIBLE_DEVICES\<close> and of the variables for the init process; the function returns no error.\<close>

definition setupGPUEnvironment :: "calls \<Rightarrow> Job \<Rightarrow> Job" where
  "setupGPUEnvironment x job =
     (if \<not> IsGPUAllocated job then job
      else let cudaPaths = (case DetectCUDA (x_host x) of None \<Rightarrow> [] | Some ps \<Rightarrow> ps);
               visible = (if length (job_GPUMIGUUIDs job) > 0 then Join '','' (job_GPUMIGUUIDs job) else formatGPUIndices (job_GPUIndices job));
               env = (job_Environment job)(''CUDA_VISIBLE_DEVICES'' \<mapsto> visible, ''NVIDIA_VISIBLE_DEVICES'' \<mapsto> visible,
                       ''JOB_GPU_INDICES'' \<mapsto> formatGPUIndices (job_GPUIndices job));
               env = (if length cudaPaths > 0
                      then env(''JOB_GPU_CUDA_MOUNTS'' \<mapsto> Join '':'' cudaPaths) ++ GetCUDAEnvironment (x_host x) (cudaPaths ! 0) else env)
           in job\<lparr>job_Environment := env\<rparr>)"

definition ready_file :: "string \<Rightarrow> string" where
  "ready_file jobID = ''/tmp/joblet-network-ready-'' @ jobID"

text \<open>
  The third step: GPUs, if the job needs any. The last component says whether \<open>gpuAllocation\<close> is different from \<open>nil\<close>; it is an interface, and one that holds a nil pointer is.
\<close>

definition start_gpu :: "calls \<Rightarrow> engine_config \<Rightarrow> engine \<Rightarrow> Job \<Rightarrow> engine \<times> Job \<times> (start_error, bool) result" where
  "start_gpu x cfg e job =
     (if \<not> HasGPURequirement job then (e, job, Inr False)
      else (case AllocateGPU x (e_gpus e) job of
              (m, job, Inl err) \<Rightarrow> (cleanup x cfg (job_Uuid job) (e\<lparr>e_gpus := m\<rparr>), job, Inl (GPUFailed err))
            | (m, job, Inr None) \<Rightarrow> (e\<lparr>e_gpus := m\<rparr>, job, Inr True)
            | (m, job, Inr (Some allocation)) \<Rightarrow> (e\<lparr>e_gpus := m\<rparr>, setupGPUEnvironment x job, Inr True)))"

text \<open>The fourth: an address, if the job names a network. The answer is the allocation.\<close>

definition start_network :: "calls \<Rightarrow> engine_config \<Rightarrow> bool \<Rightarrow> engine \<Rightarrow> Job \<Rightarrow> engine \<times> (start_error, NetworkAllocation option) result" where
  "start_network x cfg gpu e job =
     (if job_Network job = [] then (e, Inr None)
      else (case SetupNetworking (x_now x) (e_net e) (job_Uuid job) (job_Network job) of
              (a, Inl err) \<Rightarrow> (cleanupGPU x (job_Uuid job) gpu (cleanup x cfg (job_Uuid job) (e\<lparr>e_net := a\<rparr>)), Inl (NetworkingFailed err))
            | (a, Inr al) \<Rightarrow> (e\<lparr>e_net := a\<rparr>, Inr (Some al))))"

text \<open>The rest: the process is launched with the job's environment, and the network is configured once it runs.\<close>

definition needs_network :: "NetworkAllocation option \<Rightarrow> bool" where
  "needs_network al = (case al of None \<Rightarrow> False | Some al \<Rightarrow> nal_Network al \<noteq> ''none'')"

definition launch_env :: "calls \<Rightarrow> engine_config \<Rightarrow> NetworkAllocation option \<Rightarrow> Job \<Rightarrow> string list" where
  "launch_env x cfg al job =
     BuildEnvironment (x_mapOrder x) (ec_server cfg) (x_host x) job ''execute'' @
     (if needs_network al then [kv ''NETWORK_READY_FILE'' (ready_file (job_Uuid job))] else [])"

definition LaunchProcess :: "calls \<Rightarrow> string list \<Rightarrow> int option" where
  "LaunchProcess x env = (if validateEnvironment env = Inr () then x_launch x else None)"

definition start_process :: "calls \<Rightarrow> engine_config \<Rightarrow> bool \<Rightarrow> NetworkAllocation option \<Rightarrow> engine \<Rightarrow> Job \<Rightarrow> engine \<times> (start_error, int) result" where
  "start_process x cfg gpu al e job =
     (case LaunchProcess x (launch_env x cfg al job) of
        None \<Rightarrow>
          (let e = cleanup x cfg (job_Uuid job) e;
               e = (if al \<noteq> None then e\<lparr>e_net := fst (CleanupNetworking (e_net e) (job_Uuid job))\<rparr> else e)
           in (cleanupGPU x (job_Uuid job) gpu e, Inl LaunchFailed))
      | Some pid \<Rightarrow>
          (let e = e\<lparr>e_procs := (e_procs e)(job_Uuid job \<mapsto> launch_env x cfg al job)\<rparr>
           in if needs_network al \<and> \<not> x_ready x then (e, Inl ReadyFileFailed) else (e, Inr pid)))"

definition made_dirs :: "fs_op list \<Rightarrow> string list" where
  "made_dirs ops = concat (map (\<lambda>x. case x of OpMkdirAll p m \<Rightarrow> [p] | OpWriteFile p c m \<Rightarrow> []) ops)"

definition written_files :: "fs_op list \<Rightarrow> (string \<rightharpoonup> string) \<Rightarrow> (string \<rightharpoonup> string)" where
  "written_files ops F = fold (\<lambda>x F. case x of OpMkdirAll p m \<Rightarrow> F | OpWriteFile p c m \<Rightarrow> F(p \<mapsto> c)) ops F"

definition apply_fs :: "fs_op list \<Rightarrow> engine \<Rightarrow> engine" where
  "apply_fs ops e = e\<lparr>e_dirs := e_dirs e \<union> set (made_dirs ops), e_files := written_files ops (e_files e)\<rparr>"

text \<open>The three steps in sequence, after the workspace was prepared.\<close>

definition start_steps :: "calls \<Rightarrow> engine_config \<Rightarrow> engine \<Rightarrow> Job \<Rightarrow> engine \<times> Job \<times> (start_error, int) result" where
  "start_steps x cfg e job =
     (case start_gpu x cfg e job of
        (e, job, Inl err) \<Rightarrow> (e, job, Inl err)
      | (e, job, Inr gpu) \<Rightarrow>
          (case start_network x cfg gpu e job of
             (e, Inl err) \<Rightarrow> (e, job, Inl err)
           | (e, Inr al) \<Rightarrow> (let (e, r) = start_process x cfg gpu al e job in (e, job, r))))"

definition coordinator_StartJob :: "calls \<Rightarrow> engine_config \<Rightarrow> engine \<Rightarrow> Job \<Rightarrow> FileUpload list \<Rightarrow> engine \<times> Job \<times> (start_error, int) result" where
  "coordinator_StartJob x cfg e job uploads =
     (if \<not> x_isolate x then (e, job, Inl IsolationFailed)
      else (case PrepareWorkspace (x_cwd x) (x_fsOk x) (ec_server cfg) (job_Uuid job) uploads of
        (ops, r) \<Rightarrow>
          (let e = apply_fs ops e in
           case r of
             Inl err \<Rightarrow> (e, job, Inl (WorkspaceFailed err))
           | Inr workspaceDir \<Rightarrow> start_steps x cfg e job)))"

text \<open>The answer of \<open>StopJob\<close> is whether there were errors; it goes on after each.\<close>

definition coordinator_StopJob :: "calls \<Rightarrow> engine_config \<Rightarrow> engine \<Rightarrow> string \<Rightarrow> engine \<times> bool" where
  "coordinator_StopJob x cfg e jobID =
     (case CleanupNetworking (e_net e) jobID of
        (a, r) \<Rightarrow>
          (let e = e\<lparr>e_net := a\<rparr>;
               e = e\<lparr>e_gpus := ReleaseGPU x (e_gpus e) jobID\<rparr>
           in (CleanupWorkspace x cfg jobID e, is_ok r \<and> \<not> x_removeFails x (job_root cfg jobID))))"

section \<open>The resource manager (resource\_manager.go)\<close>

datatype resource_error = MkdirWorkspaceFailed | CgroupCreationFailed | CoresFailed | DevicesFailed | UploadsFailed

text \<open>\<open>cgroup.CleanupCgroup\<close> removes the directory of the job it is given.\<close>

definition CleanupCgroup :: "engine_config \<Rightarrow> string \<Rightarrow> engine \<Rightarrow> engine" where
  "CleanupCgroup cfg jobID e = e\<lparr>e_cgroups := remove_tree (Join_path [ec_cgroupBase cfg, ''job-'' @ jobID]) (e_cgroups e)\<rparr>"

text \<open>When a limit cannot be enforced, \<open>Create\<close> cleans up under the last element of the path, where a job identifier is meant.\<close>

definition createCgroup :: "calls \<Rightarrow> engine_config \<Rightarrow> engine \<Rightarrow> Job \<Rightarrow> engine \<times> (resource_error, unit) result" where
  "createCgroup x cfg e job =
     (if \<not> HasPrefix (job_CgroupPath job) (ec_cgroupBase cfg) then (e, Inl CgroupCreationFailed)
      else (case x_cgroup x of
              CgroupRefused \<Rightarrow> (e, Inl CgroupCreationFailed)
            | CgroupMade \<Rightarrow> (e\<lparr>e_cgroups := insert (job_CgroupPath job) (e_cgroups e)\<rparr>, Inr ())
            | CgroupNotEnforced \<Rightarrow>
                (CleanupCgroup cfg (Base (job_CgroupPath job)) (e\<lparr>e_cgroups := insert (job_CgroupPath job) (e_cgroups e)\<rparr>), Inl CgroupCreationFailed)))"

definition createWorkspace :: "calls \<Rightarrow> engine_config \<Rightarrow> engine \<Rightarrow> string \<Rightarrow> engine \<times> (resource_error, unit) result" where
  "createWorkspace x cfg e jobID =
     (if x_mkdir x then (e\<lparr>e_dirs := insert (job_root cfg jobID) (e_dirs e)\<rparr>, Inr ()) else (e, Inl MkdirWorkspaceFailed))"

definition cleanupWorkspace :: "calls \<Rightarrow> engine_config \<Rightarrow> string \<Rightarrow> engine \<Rightarrow> engine" where
  "cleanupWorkspace x cfg jobID e =
     (if x_removeFails x (job_root cfg jobID) then e else remove_all (job_root cfg jobID) e)"

definition cleanupAll :: "calls \<Rightarrow> engine_config \<Rightarrow> string \<Rightarrow> engine \<Rightarrow> engine" where
  "cleanupAll x cfg jobID e = cleanupWorkspace x cfg jobID (CleanupCgroup cfg jobID e)"

definition SetupJobResources :: "calls \<Rightarrow> engine_config \<Rightarrow> engine \<Rightarrow> Job \<Rightarrow> engine \<times> (resource_error, unit) result" where
  "SetupJobResources x cfg e job =
     (case createWorkspace x cfg e (job_Uuid job) of
        (e, Inl err) \<Rightarrow> (e, Inl err)
      | (e, Inr _) \<Rightarrow>
          (case createCgroup x cfg e job of
             (e, Inl err) \<Rightarrow> (cleanupWorkspace x cfg (job_Uuid job) e, Inl err)
           | (e, Inr _) \<Rightarrow>
               if \<not> CPUCoreSet_IsEmpty (rl_CPUCores (job_Limits job)) \<and> \<not> x_cores x
               then (cleanupAll x cfg (job_Uuid job) e, Inl CoresFailed)
               else if IsGPUAllocated job \<and> \<not> x_devices x
               then (cleanupAll x cfg (job_Uuid job) e, Inl DevicesFailed)
               else (e, Inr ())))"

definition getWorkspaceDir :: "engine_config \<Rightarrow> string \<Rightarrow> string" where
  "getWorkspaceDir cfg jobID = Join_path [fs_BaseDir (ec_server cfg), jobID, ''work'']"

section \<open>The cleanup coordinator (cleanup/coordinator.go)\<close>

datatype cleanup_error = CleanupInProgress string | CleanupErrors nat

definition releaseGPUs :: "calls \<Rightarrow> string \<Rightarrow> engine \<Rightarrow> engine" where
  "releaseGPUs x jobID e = e\<lparr>e_gpus := ReleaseGPUs (x_verify x) (e_gpus e) jobID\<rparr>"

definition removeDirectory :: "calls \<Rightarrow> string \<Rightarrow> engine \<Rightarrow> engine \<times> bool" where
  "removeDirectory x path e =
     (if x_statFails x path then (e, False)
      else if \<not> path_exists path (e_dirs e) then (e, True)
      else if x_removeFails x path then (e, False)
      else (remove_all path e, True))"

text \<open>\<open>strings.Replace(s, old, new, -1)\<close> with a non-empty \<open>old\<close>.\<close>

function Replace_all :: "string \<Rightarrow> string \<Rightarrow> string \<Rightarrow> string" where
  "Replace_all old new s =
     (if old = [] \<or> s = [] then s
      else if HasPrefix s old then new @ Replace_all old new (drop (length old) s)
      else hd s # Replace_all old new (tl s))"
  by pat_completeness auto
termination
  by (relation "measure (\<lambda>(old, new, s). length s)") (auto simp: length_greater_0_conv)

declare Replace_all.simps [simp del]

text \<open>Only the errors of the first two removals count.\<close>

definition cleanupFilesystem :: "calls \<Rightarrow> engine_config \<Rightarrow> string \<Rightarrow> engine \<Rightarrow> engine \<times> bool" where
  "cleanupFilesystem x cfg jobID e =
     (let tmpDir = fs_TmpDir (ec_server cfg);
          jobTmpDir = Replace_all ''{JOB_ID}'' jobID tmpDir;
          (e, ok1) = removeDirectory x (job_root cfg jobID) e;
          (e, ok2) = (if jobTmpDir \<noteq> tmpDir then removeDirectory x jobTmpDir e else (e, True));
          (e, _) = removeDirectory x (Join_path [fs_BaseDir (ec_server cfg), jobID, ''pipes'']) e;
          (e, _) = removeDirectory x (getWorkspaceDir cfg jobID) e
      in (e, ok1 \<and> ok2))"

definition CleanupJob :: "calls \<Rightarrow> engine_config \<Rightarrow> string \<Rightarrow> engine \<Rightarrow> engine \<times> (cleanup_error, unit) result" where
  "CleanupJob x cfg jobID e =
     (if jobID \<in> e_cleanups e then (e, Inl (CleanupInProgress jobID))
      else let e = CleanupCgroup cfg jobID e;
               e = releaseGPUs x jobID e;
               (e, ok) = cleanupFilesystem x cfg jobID e;
               e = e\<lparr>e_net := fst (RemoveJobFromNetwork (e_net e) jobID)\<rparr>
           in (e, if ok then Inr () else Inl (CleanupErrors 1)))"

definition CleanupJobSystemResourcesOnly :: "calls \<Rightarrow> engine_config \<Rightarrow> string \<Rightarrow> engine \<Rightarrow> engine \<times> (cleanup_error, unit) result" where
  "CleanupJobSystemResourcesOnly x cfg jobID e =
     (if jobID \<in> e_cleanups e then (e, Inl (CleanupInProgress jobID))
      else (releaseGPUs x jobID (CleanupCgroup cfg jobID e), Inr ()))"

text \<open>\<open>CleanupProcess\<close> sends signals to the process; \<open>killed\<close> says whether the process is gone after it.\<close>

definition end_process :: "bool \<Rightarrow> int \<Rightarrow> string \<Rightarrow> engine \<Rightarrow> engine" where
  "end_process killed pid jobID e = (if pid > 0 \<and> killed then e\<lparr>e_procs := (e_procs e)(jobID := None)\<rparr> else e)"

definition CleanupJobWithProcess :: "calls \<Rightarrow> engine_config \<Rightarrow> bool \<Rightarrow> string \<Rightarrow> int \<Rightarrow> engine \<Rightarrow> engine \<times> (cleanup_error, unit) result" where
  "CleanupJobWithProcess x cfg killed jobID pid e = CleanupJob x cfg jobID (end_process killed pid jobID e)"

definition CleanupJobWithProcessSystemOnly :: "calls \<Rightarrow> engine_config \<Rightarrow> bool \<Rightarrow> string \<Rightarrow> int \<Rightarrow> engine \<Rightarrow> engine \<times> (cleanup_error, unit) result" where
  "CleanupJobWithProcessSystemOnly x cfg killed jobID pid e = CleanupJobSystemResourcesOnly x cfg jobID (end_process killed pid jobID e)"

text \<open>\<open>entries\<close> are the names in the base directory with whether they are directories; the answer counts the jobs cleaned up and the errors.\<close>

fun CleanupOrphanedResources :: "calls \<Rightarrow> engine_config \<Rightarrow> string set \<Rightarrow> (string \<times> bool) list \<Rightarrow> engine \<Rightarrow> engine \<times> nat \<times> nat" where
  "CleanupOrphanedResources x cfg active [] e = (e, 0, 0)"
| "CleanupOrphanedResources x cfg active ((jobUUID, isDir) # es) e =
     (if \<not> isDir \<or> jobUUID \<in> active \<or> jobUUID \<in> e_cleanups e then CleanupOrphanedResources x cfg active es e
      else (case CleanupJob x cfg jobUUID e of
              (e, r) \<Rightarrow> (let (e, cleaned, errors) = CleanupOrphanedResources x cfg active es e
                         in (e, (if is_ok r then Suc cleaned else cleaned), (if is_ok r then errors else Suc errors)))))"

section \<open>Resources that jobs acquire and release\<close>

text \<open>
  The interface the coordinator relies on: acquiring that fails changes nothing that counts, and releasing right after acquiring restores what counts (\<open>view\<close>). \<open>fit\<close>: the state is well formed and the job
  holds nothing yet.
\<close>

locale job_resource =
  fixes view :: "'s \<Rightarrow> 'v" and fit :: "'q \<Rightarrow> 's \<Rightarrow> string \<Rightarrow> bool" and acquire :: "'q \<Rightarrow> 's \<Rightarrow> string \<Rightarrow> 's \<times> ('e, 'a) result"
    and release :: "'q \<Rightarrow> 's \<Rightarrow> string \<Rightarrow> 's"
  assumes failed: "fit q s j \<Longrightarrow> acquire q s j = (s', Inl e) \<Longrightarrow> view s' = view s"
    and undone: "fit q s j \<Longrightarrow> acquire q s j = (s', Inr a) \<Longrightarrow> view (release q s' j) = view s"
begin

lemma attempt: "fit q s j \<Longrightarrow> acquire q s j = (s', r) \<Longrightarrow> view (if is_ok r then release q s' j else s') = view s"
  using failed undone by (cases r) auto

end

text \<open>GPUs: what counts are the allocations.\<close>

definition gpu_fit :: "calls \<times> Job \<Rightarrow> Manager \<Rightarrow> string \<Rightarrow> bool" where
  "gpu_fit q m j \<longleftrightarrow> gpu_inv m \<and> range_order (x_gpuOrder (fst q)) (gm_gpus m) \<and> gm_allocations m j = None"

definition gpu_acquire :: "calls \<times> Job \<Rightarrow> Manager \<Rightarrow> string \<Rightarrow> Manager \<times> (gpu_service_error, GPUAllocation option) result" where
  "gpu_acquire q m j = (case AllocateGPU (fst q) m ((snd q)\<lparr>job_Uuid := j\<rparr>) of (m', job', r) \<Rightarrow> (m', r))"

lemma AllocateGPUs_allocations:
  assumes "gm_allocations m j = None" "AllocateGPUs ks now m j n mem = (m', r)"
  shows "gm_enabled m' = gm_enabled m \<and> (case r of Inl e \<Rightarrow> gm_allocations m' = gm_allocations m
    | Inr a \<Rightarrow> gm_enabled m \<and> gm_allocations m' = (gm_allocations m)(j \<mapsto> a))"
  using assms by (auto simp: AllocateGPUs_def Let_def split: if_splits sum.splits option.splits)

lemma ReleaseGPUs_allocations:
  "gm_enabled m \<Longrightarrow> gm_allocations (ReleaseGPUs v m j) = (gm_allocations m)(j := None)"
  by (cases "gm_allocations m j") (auto simp: ReleaseGPUs_def Let_def)

lemma map_restore: "m j = None \<Longrightarrow> (m(j \<mapsto> a))(j := None) = m"
  by auto

lemma AllocateGPU_allocations:
  assumes "gm_allocations m (job_Uuid job) = None" "AllocateGPU x m job = (m', job', r)"
  shows "gm_enabled m' = gm_enabled m \<and> job_Uuid job' = job_Uuid job \<and>
    (case r of Inr (Some a) \<Rightarrow> gm_enabled m \<and> gm_allocations m' = (gm_allocations m)(job_Uuid job \<mapsto> a) | _ \<Rightarrow> gm_allocations m' = gm_allocations m)"
proof (cases "gm_enabled m \<and> HasGPURequirement job")
  case True
  obtain m1 r1 where r1: "AllocateGPUs (x_gpuOrder x) (x_now x) m (job_Uuid job) (job_GPUCount job) (job_GPUMemoryMB job) = (m1, r1)" by fastforce
  note a = AllocateGPUs_allocations [OF assms(1) r1]
  have "gm_enabled (ReleaseGPUs v m1 j) = gm_enabled m1" for v j by (auto simp: ReleaseGPUs_def Let_def split: option.splits)
  then show ?thesis using True assms r1 a
    by (auto simp: AllocateGPU_def Let_def ReleaseGPUs_allocations map_restore split: sum.splits if_splits)
qed (use assms in \<open>auto simp: AllocateGPU_def split: if_splits\<close>)

interpretation gpus: job_resource gm_allocations gpu_fit gpu_acquire "\<lambda>q m j. ReleaseGPU (fst q) m j"
proof
  fix q m j m' e
  assume "gpu_fit q m j" "gpu_acquire q m j = (m', Inl e)"
  then show "gm_allocations m' = gm_allocations m"
    using AllocateGPU_allocations [of m "(snd q)\<lparr>job_Uuid := j\<rparr>" "fst q"] by (fastforce simp: gpu_acquire_def gpu_fit_def split: prod.splits)
next
  fix q m j m' and a :: "GPUAllocation option"
  assume f: "gpu_fit q m j" and a: "gpu_acquire q m j = (m', Inr a)"
  obtain job' where "AllocateGPU (fst q) m ((snd q)\<lparr>job_Uuid := j\<rparr>) = (m', job', Inr a)"
    using a by (auto simp: gpu_acquire_def split: prod.splits)
  then have "gm_enabled m' = gm_enabled m \<and> (case a of Some a \<Rightarrow> gm_enabled m \<and> gm_allocations m' = (gm_allocations m)(j \<mapsto> a)
      | None \<Rightarrow> gm_allocations m' = gm_allocations m)"
    using AllocateGPU_allocations [of m "(snd q)\<lparr>job_Uuid := j\<rparr>" "fst q"] f by (auto simp: gpu_fit_def split: option.splits)
  then show "gm_allocations (ReleaseGPU (fst q) m' j) = gm_allocations m"
    using f by (auto simp: gpu_fit_def ReleaseGPU_def ReleaseGPUs_allocations map_restore split: option.splits)
qed

text \<open>Networks: what counts are the addresses in use of each network and the assignments.\<close>

definition net_view :: "networkStoreAdapter \<Rightarrow> (string \<Rightarrow> string set option) \<times> (string \<Rightarrow> JobNetworkAllocation option)" where
  "net_view a = (\<lambda>name. map_option pool_allocated (nsa_ipPools a name), SimpleAllocationStore_Get (nsa_allocationStore a))"

definition pools_ok :: "networkStoreAdapter \<Rightarrow> bool" where
  "pools_ok a \<longleftrightarrow> (\<forall>name pool. nsa_ipPools a name = Some pool \<longrightarrow> (\<exists>U. ip.pool_ok U pool \<and> [] \<notin> U))"

definition net_fit :: "int \<times> string \<Rightarrow> networkStoreAdapter \<Rightarrow> string \<Rightarrow> bool" where
  "net_fit q a j \<longleftrightarrow> pools_ok a \<and> 8 \<le> length j \<and> SimpleAllocationStore_Get (nsa_allocationStore a) j = None"

lemma Cleanup_unassigned:
  "SimpleAllocationStore_Get (nsa_allocationStore a) j = None \<Longrightarrow> fst (CleanupNetworking a j) = a"
  by (auto simp: CleanupNetworking_def RemoveJobFromNetwork_def GetJobNetworkAllocation_def)

lemma Setup_special: "name = ''isolated'' \<or> name = ''none'' \<Longrightarrow> SetupNetworking now a j name = (a', r) \<Longrightarrow> a' = a \<and> is_ok r"
  by (auto simp: SetupNetworking_def)

lemma Setup_no_pool: "nsa_ipPools a name = None \<Longrightarrow> SetupNetworking now a j name = (a', r) \<Longrightarrow> a' = a \<and> (is_ok r \<longrightarrow> name = ''isolated'' \<or> name = ''none'')"
  by (auto simp: SetupNetworking_def AllocateIP_def split: if_splits)

lemma Setup_assigns:
  assumes "SetupNetworking now a j name = (a', Inr al)" "name \<noteq> ''isolated''" "name \<noteq> ''none''"
  shows "\<exists>x. SimpleAllocationStore_Get (nsa_allocationStore a') = (SimpleAllocationStore_Get (nsa_allocationStore a))(j \<mapsto> x)"
proof -
  obtain a1 ip where a1: "AllocateIP a name = (a1, Inr ip)"
    using assms by (cases "AllocateIP a name"; cases "snd (AllocateIP a name)") (auto simp: SetupNetworking_def)
  have st: "nsa_allocationStore a1 = nsa_allocationStore a" using AllocateIP_stores [of a name] a1 by simp
  obtain a2 y where a2: "AssignJobToNetwork now a1 j name (Some y) = (a2, Inr ())" "a' = a2"
    using assms a1 by (auto simp: SetupNetworking_def Let_def split: if_splits sum.splits prod.splits)
  have "SimpleAllocationStore_Get (nsa_allocationStore a2) = (SimpleAllocationStore_Get (nsa_allocationStore a1))
      (j \<mapsto> y\<lparr>na_AssignedAt := now, na_JobUUID := j, na_NetworkName := name\<rparr>)"
    using a2(1) als.get_create [of "nsa_allocationStore a1" j "y\<lparr>na_AssignedAt := now, na_JobUUID := j, na_NetworkName := name\<rparr>"]
    by (auto simp: AssignJobToNetwork_def Let_def split: if_splits option.splits prod.splits sum.splits)
  then show ?thesis using st a2(2) by auto
qed

interpretation nets: job_resource net_view net_fit "\<lambda>q a j. SetupNetworking (fst q) a j (snd q)" "\<lambda>q a j. fst (CleanupNetworking a j)"
proof
  fix q a j a' e
  assume f: "net_fit q a j" and s: "SetupNetworking (fst q) a j (snd q) = (a', Inl e)"
  then have ns: "snd q \<noteq> ''isolated''" "snd q \<noteq> ''none''" using Setup_special [OF _ s] by auto
  show "net_view a' = net_view a"
  proof (cases "nsa_ipPools a (snd q)")
    case None
    then show ?thesis using Setup_no_pool [OF None s] by simp
  next
    case (Some pool)
    then obtain U where U: "ip.pool_ok U pool" "[] \<notin> U" using f by (auto simp: net_fit_def pools_ok_def)
    have "\<forall>ip \<in> U. ip \<noteq> []" "8 \<le> length j" using U(2) f by (auto simp: net_fit_def)
    from Setup_taken [OF ns this(2) s U(1) Some this(1)] Some show ?thesis by (auto simp: net_view_def fun_eq_iff)
  qed
next
  fix q a j a' al
  assume f: "net_fit q a j" and s: "SetupNetworking (fst q) a j (snd q) = (a', Inr al)"
  show "net_view (fst (CleanupNetworking a' j)) = net_view a"
  proof (cases "snd q = ''isolated'' \<or> snd q = ''none''")
    case True
    then show ?thesis using Setup_special [OF True s] f by (simp add: Cleanup_unassigned net_fit_def)
  next
    case False
    then obtain pool where p: "nsa_ipPools a (snd q) = Some pool" using Setup_no_pool [OF _ s] by fastforce
    then obtain U where U: "ip.pool_ok U pool" "[] \<notin> U" using f by (auto simp: net_fit_def pools_ok_def)
    obtain a'' pool'' where c: "CleanupNetworking a' j = (a'', Inr ())" "GetJobNetworkAllocation a'' j = None"
      "nsa_ipPools a'' = (nsa_ipPools a)(snd q \<mapsto> pool'')" "pool_allocated pool'' = pool_allocated pool"
      using Setup_taken [OF _ _ _ s U(1) p] False f U(2) by (auto simp: net_fit_def)
    obtain x where x: "SimpleAllocationStore_Get (nsa_allocationStore a') = (SimpleAllocationStore_Get (nsa_allocationStore a))(j \<mapsto> x)"
      using Setup_assigns [OF s] False by auto
    have "SimpleAllocationStore_Get (nsa_allocationStore a'') = (SimpleAllocationStore_Get (nsa_allocationStore a'))(j := None)"
      using c(1) x by (auto simp: CleanupNetworking_def RemoveJobFromNetwork_def Let_def als.get_delete ReleaseIP_stores split: if_splits option.splits)
    then show ?thesis using c x p f by (auto simp: net_view_def net_fit_def fun_eq_iff)
  qed
qed

section \<open>Starting a job\<close>

text \<open>What the jobs hold, abstractly: GPUs, addresses in use, and the assignments of jobs to networks.\<close>

record ledger =
  l_gpus :: "string \<rightharpoonup> GPUAllocation"
  l_addrs :: "string \<Rightarrow> string set option"
  l_jobs :: "string \<Rightarrow> JobNetworkAllocation option"

definition ledger_of :: "engine \<Rightarrow> ledger" where
  "ledger_of e = \<lparr>l_gpus = gm_allocations (e_gpus e), l_addrs = fst (net_view (e_net e)), l_jobs = snd (net_view (e_net e))\<rparr>"

definition engine_ok :: "engine \<Rightarrow> bool" where
  "engine_ok e \<longleftrightarrow> gpu_inv (e_gpus e) \<and> pools_ok (e_net e) \<and> assigned_ok (e_net e) \<and> \<not> nsa_closed (e_net e)"

text \<open>The job is new to the engine.\<close>

definition fresh_job :: "engine \<Rightarrow> string \<Rightarrow> bool" where
  "fresh_job e j \<longleftrightarrow> 8 \<le> length j \<and> l_gpus (ledger_of e) j = None \<and> l_jobs (ledger_of e) j = None"

lemma ledger_eq: "ledger_of e' = ledger_of e \<longleftrightarrow> gm_allocations (e_gpus e') = gm_allocations (e_gpus e) \<and> net_view (e_net e') = net_view (e_net e)"
  by (auto simp: ledger_of_def prod_eq_iff)

lemma remove_all_fields [simp]:
  "e_gpus (remove_all p e) = e_gpus e" "e_net (remove_all p e) = e_net e" "e_procs (remove_all p e) = e_procs e"
  "e_cgroups (remove_all p e) = e_cgroups e" "e_cleanups (remove_all p e) = e_cleanups e" "e_dirs (remove_all p e) = remove_tree p (e_dirs e)"
  by (simp_all add: remove_all_def)

lemma apply_fs_fields [simp]:
  "e_gpus (apply_fs ops e) = e_gpus e" "e_net (apply_fs ops e) = e_net e" "e_procs (apply_fs ops e) = e_procs e"
  "e_cgroups (apply_fs ops e) = e_cgroups e" "e_cleanups (apply_fs ops e) = e_cleanups e"
  by (simp_all add: apply_fs_def)

lemma CleanupWorkspace_fields [simp]:
  "e_gpus (CleanupWorkspace x cfg j e) = e_gpus e" "e_net (CleanupWorkspace x cfg j e) = e_net e" "e_procs (CleanupWorkspace x cfg j e) = e_procs e"
  by (simp_all add: CleanupWorkspace_def)

lemma cleanupGPU_fields [simp]: "e_net (cleanupGPU x j b e) = e_net e" "e_procs (cleanupGPU x j b e) = e_procs e"
  by (simp_all add: cleanupGPU_def)

lemma setupGPUEnvironment_Uuid [simp]: "job_Uuid (setupGPUEnvironment x job) = job_Uuid job" "job_Network (setupGPUEnvironment x job) = job_Network job"
  by (simp_all add: setupGPUEnvironment_def Let_def)

lemma AllocateGPU_job: "AllocateGPU x m job = (m', job', r) \<Longrightarrow> job_Uuid job' = job_Uuid job \<and> job_Network job' = job_Network job"
  by (auto simp: AllocateGPU_def Let_def split: if_splits prod.splits sum.splits)

text \<open>The GPU step: a failure leaves the allocations alone; after a success, \<open>cleanupGPU\<close> restores them.\<close>

lemma start_gpu_spec:
  assumes "start_gpu x cfg e job = (e', job', r)" and "gpu_fit (x, job) (e_gpus e) (job_Uuid job)"
  shows "e_net e' = e_net e \<and> e_procs e' = e_procs e \<and> job_Uuid job' = job_Uuid job \<and> job_Network job' = job_Network job \<and>
    (case r of Inl err \<Rightarrow> gm_allocations (e_gpus e') = gm_allocations (e_gpus e)
     | Inr gpu \<Rightarrow> gm_allocations (e_gpus (cleanupGPU x (job_Uuid job) gpu e')) = gm_allocations (e_gpus e))"
proof (cases "HasGPURequirement job")
  case False
  then show ?thesis using assms(1) by (auto simp: start_gpu_def cleanupGPU_def)
next
  case True
  obtain m job1 r1 where a: "AllocateGPU x (e_gpus e) job = (m, job1, r1)" by (metis prod_cases3)
  have acq: "gpu_acquire (x, job) (e_gpus e) (job_Uuid job) = (m, r1)" using a by (simp add: gpu_acquire_def)
  note j = AllocateGPU_job [OF a] and att = gpus.attempt [OF assms(2) acq]
  have none: "r1 = Inr None \<Longrightarrow> gm_allocations m = gm_allocations (e_gpus e)"
    using AllocateGPU_allocations [OF _ a] assms(2) by (auto simp: gpu_fit_def)
  show ?thesis using assms(1) True a j att none
    by (auto simp: start_gpu_def cleanup_def cleanupGPU_def split: sum.splits option.splits)
qed

text \<open>The network step, likewise.\<close>

lemma start_network_spec:
  assumes "start_network x cfg gpu e job = (e', r)" and "net_fit (x_now x, job_Network job) (e_net e) (job_Uuid job)"
  shows "e_procs e' = e_procs e \<and>
    (case r of Inl err \<Rightarrow> e_gpus e' = e_gpus (cleanupGPU x (job_Uuid job) gpu e) \<and> net_view (e_net e') = net_view (e_net e)
     | Inr al \<Rightarrow> e_gpus e' = e_gpus e \<and> (al = None \<longrightarrow> e_net e' = e_net e) \<and>
         (al \<noteq> None \<longrightarrow> net_view (fst (CleanupNetworking (e_net e') (job_Uuid job))) = net_view (e_net e)))"
proof (cases "job_Network job = []")
  case True
  then show ?thesis using assms(1) by (auto simp: start_network_def)
next
  case False
  obtain a r1 where s: "SetupNetworking (x_now x) (e_net e) (job_Uuid job) (job_Network job) = (a, r1)" by fastforce
  have f: "r1 = Inl err \<Longrightarrow> net_view a = net_view (e_net e)" for err using nets.failed [OF assms(2)] s by simp
  have u: "r1 = Inr al \<Longrightarrow> net_view (fst (CleanupNetworking a (job_Uuid job))) = net_view (e_net e)" for al
    using nets.undone [OF assms(2)] s by simp
  show ?thesis using assms(1) False s f u
    by (auto simp: start_network_def cleanup_def cleanupGPU_def split: sum.splits)
qed

lemma start_process_spec:
  assumes "start_process x cfg gpu al e job = (e', r)"
  shows "case r of
      Inr pid \<Rightarrow> e_procs e' (job_Uuid job) = Some (launch_env x cfg al job) \<and> e_gpus e' = e_gpus e \<and> e_net e' = e_net e \<and> validateEnvironment (launch_env x cfg al job) = Inr ()
    | Inl err \<Rightarrow> if err = ReadyFileFailed then e_procs e' (job_Uuid job) \<noteq> None \<and> e_gpus e' = e_gpus e \<and> e_net e' = e_net e
        else e_procs e' = e_procs e \<and> e_gpus e' = e_gpus (cleanupGPU x (job_Uuid job) gpu e) \<and>
          e_net e' = (if al \<noteq> None then fst (CleanupNetworking (e_net e) (job_Uuid job)) else e_net e)"
  using assms by (auto simp: start_process_def Let_def LaunchProcess_def cleanup_def cleanupGPU_def split: option.splits if_splits)

lemma fits: "engine_ok e \<Longrightarrow> fresh_job e j \<Longrightarrow> range_order (x_gpuOrder x) (gm_gpus (e_gpus e)) \<Longrightarrow>
    gpu_fit (x, job) (e_gpus e) j \<and> net_fit q (e_net e) j"
  by (simp add: engine_ok_def fresh_job_def gpu_fit_def net_fit_def ledger_of_def net_view_def)

lemma start_steps_failed:
  assumes "start_steps x cfg e job = (e', job', Inl err)" and "gpu_fit (x, job) (e_gpus e) (job_Uuid job)" and "\<And>q. net_fit q (e_net e) (job_Uuid job)"
  shows "if err = ReadyFileFailed then e_procs e' (job_Uuid job) \<noteq> None else ledger_of e' = ledger_of e \<and> e_procs e' = e_procs e"
proof -
  obtain e1 job1 r1 where g: "start_gpu x cfg e job = (e1, job1, r1)" by (metis prod_cases3)
  note G = start_gpu_spec [OF g assms(2)]
  show ?thesis
  proof (cases r1)
    case (Inl err1)
    have "err1 \<noteq> ReadyFileFailed" using g Inl by (auto simp: start_gpu_def split: if_splits prod.splits sum.splits option.splits)
    then show ?thesis using assms(1) g Inl G by (auto simp: start_steps_def ledger_eq)
  next
    case (Inr gpu)
    have c: "gm_allocations (e_gpus (cleanupGPU x (job_Uuid job) gpu e1)) = gm_allocations (e_gpus e)" using G Inr by simp
    obtain e2 r2 where n: "start_network x cfg gpu e1 job1 = (e2, r2)" by fastforce
    have nf: "net_fit (x_now x, job_Network job1) (e_net e1) (job_Uuid job1)" using G assms(3) by simp
    note N = start_network_spec [OF n nf]
    show ?thesis
    proof (cases r2)
      case (Inl err2)
      have "err2 \<noteq> ReadyFileFailed" using n Inl by (auto simp: start_network_def split: if_splits prod.splits sum.splits)
      then show ?thesis using assms(1) g Inr n Inl N G c by (auto simp: start_steps_def ledger_eq)
    next
      case (Inr al)
      obtain e3 r3 where p: "start_process x cfg gpu al e2 job1 = (e3, r3)" by fastforce
      have e3: "e' = e3" "r3 = Inl err" using assms(1) g \<open>r1 = Inr gpu\<close> n Inr p by (auto simp: start_steps_def)
      have "e_gpus e2 = e_gpus e1" using N Inr by simp
      then have "gm_allocations (e_gpus (cleanupGPU x (job_Uuid job) gpu e2)) = gm_allocations (e_gpus e)" using c by (simp add: cleanupGPU_def split: if_splits)
      then show ?thesis using start_process_spec [OF p] e3 N Inr G by (auto simp: ledger_eq split: if_splits)
    qed
  qed
qed


text \<open>An engine with three GPUs and a network, and the answers of a host on which everything works but the launch.\<close>

definition example_engine :: engine where
  "example_engine = \<lparr>e_gpus = demo_start, e_net = demo_adapter, e_dirs = {}, e_files = Map.empty, e_cgroups = {}, e_procs = Map.empty, e_cleanups = {}\<rparr>"

definition example_cfg :: engine_config where
  "example_cfg = \<lparr>ec_server = example_server, ec_cgroupBase = ''/sys/fs/cgroup/joblet''\<rparr>"

definition example_calls :: calls where
  "example_calls = \<lparr>x_now = 5, x_cwd = None, x_host = example_host, x_mapOrder = (\<lambda>m. []), x_gpuOrder = [2, 0, 1], x_verify = (\<lambda>i. Inr 0), x_mkdir = True,
     x_cgroup = CgroupMade, x_cores = True, x_devices = True, x_isolate = True, x_fsOk = (\<lambda>x. True), x_cudaVerifier = False, x_cudaUsable = True, x_launch = None, x_ready = True,
     x_statFails = (\<lambda>p. False), x_removeFails = (\<lambda>p. False)\<rparr>"

definition example_job2 :: Job where
  "example_job2 = zero_job\<lparr>job_Uuid := ''job-0001'', job_Command := ''echo'', job_Network := ''lab'', job_GPUCount := 2\<rparr>"

lemma demo_adapter_state: "pools_ok demo_adapter" "SimpleAllocationStore_Get (nsa_allocationStore demo_adapter) = Map.empty" "\<not> nsa_closed demo_adapter"
proof -
  obtain nt where nt: "ParseCIDR (\<lambda>_. None) (nc_CIDR demo_net) = Some nt" "length (net_IP nt) = 4" using demo_cidr by blast
  obtain v n where vn: "v < 2 ^ 32" "n \<le> 32" "nsa_closed demo_adapter = nsa_closed NewNetworkStore"
    "nsa_ipPools demo_adapter = (nsa_ipPools NewNetworkStore)(nc_Name demo_net \<mapsto> \<lparr>pool_cidr = nt, pool_allocated = {}, pool_available = hosts v n\<rparr>)"
    using CreateNetwork_pool [OF demo_create nt] by blast
  have "[] \<notin> set (hosts v n)" using hosts_not_Nil by blast
  then show "pools_ok demo_adapter"
    using hosts_distinct [OF vn(1,2)] vn(4) by (auto simp: pools_ok_def ip.pool_ok_def NewNetworkStore_def NewNetworkStoreAdapter_def)
  show "\<not> nsa_closed demo_adapter" using vn(3) by (simp add: NewNetworkStore_def NewNetworkStoreAdapter_def)
  show "SimpleAllocationStore_Get (nsa_allocationStore demo_adapter) = Map.empty"
    using CreateNetwork_networks [OF demo_create] by (auto simp: NewNetworkStore_def NewNetworkStoreAdapter_def SimpleAllocationStore_Get_def)
qed

lemma example_engine_ok: "engine_ok example_engine" "fresh_job example_engine ''job-0001''" "range_order (x_gpuOrder example_calls) (gm_gpus (e_gpus example_engine))"
proof -
  show "engine_ok example_engine" "fresh_job example_engine ''job-0001''"
    using gpu_reach_inv [OF demo_start_reach] demo_adapter_state
    by (auto simp: engine_ok_def example_engine_def assigned_ok_def fresh_job_def ledger_of_def net_view_def demo_start_def Initialize_def NewManager_def Let_def demo_config_def)
  show "range_order (x_gpuOrder example_calls) (gm_gpus (e_gpus example_engine))" using demo_order by (simp add: example_calls_def example_engine_def)
qed


section \<open>Cleaning up after a job\<close>

text \<open>The abstract operation: the job's GPUs, its assignment and its address are given back, nothing else changes.\<close>

definition release_job :: "string \<Rightarrow> ledger \<Rightarrow> ledger" where
  "release_job j L = L\<lparr>l_gpus := (l_gpus L)(j := None), l_jobs := (l_jobs L)(j := None),
     l_addrs := (case l_jobs L j of None \<Rightarrow> l_addrs L
       | Some al \<Rightarrow> (l_addrs L)(na_NetworkName al := map_option (\<lambda>U. U - {na_IPAddress al}) (l_addrs L (na_NetworkName al))))\<rparr>"

lemma pool_allocated_not_Nil: "pools_ok a \<Longrightarrow> nsa_ipPools a name = Some pool \<Longrightarrow> [] \<notin> pool_allocated pool"
  unfolding pools_ok_def ip.pool_ok_def by blast

lemma ReleaseIP_addrs:
  assumes "pools_ok a" "\<not> nsa_closed a" "name \<noteq> []"
  shows "(\<lambda>n. map_option pool_allocated (nsa_ipPools (if addr \<noteq> [] then fst (ReleaseIP a name addr) else a) n)) =
    (\<lambda>n. map_option pool_allocated (nsa_ipPools a n))(name := map_option (\<lambda>U. U - {addr}) (map_option pool_allocated (nsa_ipPools a name)))"
proof (cases "nsa_ipPools a name")
  case None
  then show ?thesis using assms by (auto simp: ReleaseIP_def fun_eq_iff)
next
  case (Some pool)
  have nil: "[] \<notin> pool_allocated pool" using pool_allocated_not_Nil [OF assms(1) Some] .
  show ?thesis
  proof (cases "pool_give pool addr")
    case None
    then have "addr \<notin> pool_allocated pool" using ip.give_none by blast
    then show ?thesis using Some None assms by (auto simp: ReleaseIP_def fun_eq_iff)
  next
    case (Some pool')
    have "pool_allocated pool' = pool_allocated pool - {addr}" using ip.give_some [OF Some] by simp
    moreover have "addr \<noteq> []" using Some nil ip.give_none [of pool addr] by auto
    ultimately show ?thesis using \<open>nsa_ipPools a name = Some pool\<close> Some assms by (auto simp: ReleaseIP_def fun_eq_iff)
  qed
qed

lemma RemoveJob_ledger:
  assumes "engine_ok e" "j \<noteq> []"
  shows "ledger_of (e\<lparr>e_net := fst (RemoveJobFromNetwork (e_net e) j)\<rparr>)\<lparr>l_gpus := (gm_allocations (e_gpus e))(j := None)\<rparr> = release_job j (ledger_of e)"
proof (cases "SimpleAllocationStore_Get (nsa_allocationStore (e_net e)) j")
  case None
  then have "fst (RemoveJobFromNetwork (e_net e) j) = e_net e"
    by (auto simp: RemoveJobFromNetwork_def GetJobNetworkAllocation_def)
  then show ?thesis using None by (simp add: ledger_of_def net_view_def release_job_def fun_upd_idem)
next
  case (Some al)
  have ok: "pools_ok (e_net e)" "\<not> nsa_closed (e_net e)" "na_NetworkName al \<noteq> []"
    using assms(1) Some by (auto simp: engine_ok_def assigned_ok_def)
  have g: "GetJobNetworkAllocation (e_net e) j = Some al" using Some ok(2) assms(2) by (simp add: GetJobNetworkAllocation_def)
  let ?a = "if na_IPAddress al \<noteq> [] then fst (ReleaseIP (e_net e) (na_NetworkName al) (na_IPAddress al)) else e_net e"
  have "fst (RemoveJobFromNetwork (e_net e) j) = ?a\<lparr>nsa_allocationStore := SimpleAllocationStore_Delete (nsa_allocationStore ?a) j\<rparr>"
    using g ok(2) assms(2) by (simp add: RemoveJobFromNetwork_def Let_def)
  moreover have "nsa_allocationStore ?a = nsa_allocationStore (e_net e)" by (simp add: ReleaseIP_stores)
  ultimately show ?thesis
    using ReleaseIP_addrs [OF ok, of "na_IPAddress al"] Some by (simp add: ledger_of_def net_view_def release_job_def als.get_delete)
qed

text \<open>Only directories and files change, and only by removal.\<close>

definition only_removes :: "engine \<Rightarrow> engine \<Rightarrow> bool" where
  "only_removes e e' \<longleftrightarrow> e_gpus e' = e_gpus e \<and> e_net e' = e_net e \<and> e_cgroups e' = e_cgroups e \<and> e_procs e' = e_procs e \<and>
     e_cleanups e' = e_cleanups e \<and> e_dirs e' \<subseteq> e_dirs e"

lemma only_removes_trans: "only_removes e1 e2 \<Longrightarrow> only_removes e2 e3 \<Longrightarrow> only_removes e1 e3"
  by (auto simp: only_removes_def)

lemma removeDirectory_spec:
  "removeDirectory x p e = (e', ok) \<Longrightarrow> only_removes e e' \<and> (ok \<longrightarrow> \<not> path_exists p (e_dirs e'))"
  by (auto simp: only_removes_def removeDirectory_def remove_tree_def path_exists_def split: if_splits)

lemma path_exists_mono: "path_exists p D \<Longrightarrow> D \<subseteq> D' \<Longrightarrow> path_exists p D'"
  by (auto simp: path_exists_def)

lemma cleanupFilesystem_spec:
  assumes "cleanupFilesystem x cfg j e = (e', ok)"
  shows "only_removes e e' \<and> (ok \<longrightarrow> \<not> path_exists (job_root cfg j) (e_dirs e'))"
proof -
  obtain e1 ok1 where 1: "removeDirectory x (job_root cfg j) e = (e1, ok1)" by fastforce
  let ?tmp = "Replace_all ''{JOB_ID}'' j (fs_TmpDir (ec_server cfg))"
  obtain e2 ok2 where 2: "(if ?tmp \<noteq> fs_TmpDir (ec_server cfg) then removeDirectory x ?tmp e1 else (e1, True)) = (e2, ok2)" by fastforce
  obtain e3 ok3 where 3: "removeDirectory x (Join_path [fs_BaseDir (ec_server cfg), j, ''pipes'']) e2 = (e3, ok3)" by fastforce
  obtain e4 ok4 where 4: "removeDirectory x (getWorkspaceDir cfg j) e3 = (e4, ok4)" by fastforce
  have r: "e' = e4" "ok = (ok1 \<and> ok2)" using assms by (simp_all add: cleanupFilesystem_def Let_def 1 2 3 4)
  have "only_removes e1 e2" using 2 removeDirectory_spec by (fastforce simp: only_removes_def split: if_splits)
  then have "only_removes e1 e4"
    using removeDirectory_spec [OF 3] removeDirectory_spec [OF 4] by (blast intro: only_removes_trans)
  then show ?thesis
    unfolding r using removeDirectory_spec [OF 1] path_exists_mono by (auto intro: only_removes_trans simp: only_removes_def)
qed



end
