(* ===== verification/EngineInv.thy ===== *)
theory EngineInv
  imports Execution
begin

text \<open>
  What every operation of the execution engine keeps: the invariant of the GPU manager and of the network store, and that an operation for one job gives nothing to another. The life cycle of
  jobs rests on these lemmas.
\<close>

section \<open>An invariant of the engine\<close>

text \<open>The parts of the invariant: the network store and the GPU manager are well formed, and no cleanup is under way between two operations.\<close>

definition net_ok :: "networkStoreAdapter \<Rightarrow> bool" where
  "net_ok a \<longleftrightarrow> pools_ok a \<and> assigned_ok a \<and> \<not> nsa_closed a"

definition gpu_ok :: "Manager \<Rightarrow> bool" where
  "gpu_ok m \<longleftrightarrow> gpu_inv m \<and> (gm_enabled m \<or> gm_allocations m = Map.empty)"

definition engine_inv :: "engine \<Rightarrow> bool" where
  "engine_inv e \<longleftrightarrow> gpu_ok (e_gpus e) \<and> net_ok (e_net e) \<and> e_cleanups e = {}"

text \<open>The jobs that hold GPUs or an assignment to a network.\<close>

definition holders :: "engine \<Rightarrow> string set" where
  "holders e = dom (l_gpus (ledger_of e)) \<union> dom (l_jobs (ledger_of e))"

lemma holders_fields: "holders e = dom (gm_allocations (e_gpus e)) \<union> dom (SimpleAllocationStore_Get (nsa_allocationStore (e_net e)))"
  by (simp add: holders_def ledger_of_def net_view_def)

lemma engine_inv_ok: "engine_inv e \<Longrightarrow> engine_ok e"
  by (simp add: engine_inv_def gpu_ok_def net_ok_def engine_ok_def)

lemma pools_ok_upd: "pools_ok a \<Longrightarrow> nsa_ipPools a n = Some pool \<Longrightarrow> (\<And>U. ip.pool_ok U pool \<Longrightarrow> ip.pool_ok U pool') \<Longrightarrow>
    pools_ok (a\<lparr>nsa_ipPools := (nsa_ipPools a)(n \<mapsto> pool')\<rparr>)"
  unfolding pools_ok_def by (auto, metis)

lemma AllocateIP_net_ok: "net_ok a \<Longrightarrow> net_ok (fst (AllocateIP a n))"
  using ip.take_ok
  by (auto simp: net_ok_def AllocateIP_def assigned_ok_def intro: pools_ok_upd split: option.splits)

lemma ReleaseIP_net_ok: "net_ok a \<Longrightarrow> net_ok (fst (ReleaseIP a n addr))"
  using ip.give_ok
  by (auto simp: net_ok_def ReleaseIP_def assigned_ok_def intro: pools_ok_upd split: option.splits)

lemma AssignJob_pools: "nsa_ipPools (fst (AssignJobToNetwork now a j n al)) = nsa_ipPools a \<and> nsa_closed (fst (AssignJobToNetwork now a j n al)) = nsa_closed a"
  by (auto simp: AssignJobToNetwork_def Let_def split: option.splits sum.splits prod.splits)

lemma AssignJob_others: "v \<noteq> j \<Longrightarrow>
    SimpleAllocationStore_Get (nsa_allocationStore (fst (AssignJobToNetwork now a j n al))) v = SimpleAllocationStore_Get (nsa_allocationStore a) v"
  by (auto simp: AssignJobToNetwork_def Let_def SimpleAllocationStore_Create_def SimpleAllocationStore_Get_def split: option.splits)

lemma AssignJob_net_ok: "net_ok a \<Longrightarrow> net_ok (fst (AssignJobToNetwork now a j n al))"
  using assigned_ok_assign AssignJob_pools by (simp add: net_ok_def pools_ok_def)

lemma RemoveJob_net_ok: "net_ok a \<Longrightarrow> net_ok (fst (RemoveJobFromNetwork a j))"
proof -
  assume a: "net_ok a"
  have "pools_ok (fst (RemoveJobFromNetwork a j)) \<and> \<not> nsa_closed (fst (RemoveJobFromNetwork a j))"
    using a ReleaseIP_net_ok [OF a] by (auto simp: net_ok_def RemoveJobFromNetwork_def pools_ok_def Let_def split: option.splits)
  then show ?thesis using a assigned_ok_unassign by (simp add: net_ok_def)
qed

text \<open>The state after the network was set up: the store as it was, with an address taken, with the assignment made, or with the address given back.\<close>

lemma Setup_states:
  "fst (SetupNetworking now a j n) \<in> {a, fst (AllocateIP a n)} \<or>
   (\<exists>al. fst (SetupNetworking now a j n) = fst (AssignJobToNetwork now (fst (AllocateIP a n)) j n al) \<or>
      (\<exists>i. fst (SetupNetworking now a j n) = fst (ReleaseIP (fst (AssignJobToNetwork now (fst (AllocateIP a n)) j n al)) n i)))"
  by (auto simp: SetupNetworking_def Let_def split: prod.splits sum.splits) (metis fst_conv)+

lemma Setup_net_ok: "net_ok a \<Longrightarrow> net_ok (fst (SetupNetworking now a j n))"
  using Setup_states [of now a j n] AllocateIP_net_ok AssignJob_net_ok ReleaseIP_net_ok by (metis insert_iff empty_iff)

lemma Setup_others: "v \<noteq> j \<Longrightarrow>
    SimpleAllocationStore_Get (nsa_allocationStore (fst (SetupNetworking now a j n))) v = SimpleAllocationStore_Get (nsa_allocationStore a) v"
  using Setup_states [of now a j n] AllocateIP_stores AssignJob_others ReleaseIP_stores by (metis insert_iff empty_iff)

lemma RemoveJob_get: "net_ok a \<Longrightarrow>
    SimpleAllocationStore_Get (nsa_allocationStore (fst (RemoveJobFromNetwork a j))) =
    (if j = [] then SimpleAllocationStore_Get (nsa_allocationStore a) else (SimpleAllocationStore_Get (nsa_allocationStore a))(j := None))"
  by (auto simp: net_ok_def RemoveJobFromNetwork_def GetJobNetworkAllocation_def Let_def als.get_delete ReleaseIP_stores fun_eq_iff split: option.splits)

lemma AllocateGPU_gpu_ok:
  assumes "gpu_ok m" "range_order (x_gpuOrder x) (gm_gpus m)"
  shows "gpu_ok (fst (AllocateGPU x m job)) \<and> (\<forall>v. v \<noteq> job_Uuid job \<longrightarrow> gm_allocations (fst (AllocateGPU x m job)) v = gm_allocations m v)"
proof (cases "gm_enabled m \<and> HasGPURequirement job")
  case True
  let ?a = "AllocateGPUs (x_gpuOrder x) (x_now x) m (job_Uuid job) (job_GPUCount job) (job_GPUMemoryMB job)"
  have inv: "gpu_inv (fst ?a)" using Allocate_inv assms by (simp add: gpu_ok_def)
  have en: "gm_enabled (fst ?a)" and oth: "v \<noteq> job_Uuid job \<Longrightarrow> gm_allocations (fst ?a) v = gm_allocations m v" for v
    using True by (auto simp: AllocateGPUs_def Let_def split: sum.splits option.splits)
  consider "fst (AllocateGPU x m job) = fst ?a" | "fst (AllocateGPU x m job) = ReleaseGPUs (x_verify x) (fst ?a) (job_Uuid job)"
    using True by (cases ?a; cases "snd ?a"; cases "x_cudaVerifier x \<and> \<not> x_cudaUsable x") (auto simp: AllocateGPU_def Let_def)
  then show ?thesis
  proof cases
    case 2
    have "gm_enabled (ReleaseGPUs (x_verify x) (fst ?a) (job_Uuid job))" using en by (auto simp: ReleaseGPUs_def Let_def split: option.splits)
    then show ?thesis using 2 Release_inv [OF inv] en oth by (simp add: gpu_ok_def ReleaseGPUs_allocations)
  qed (use inv en oth in \<open>simp add: gpu_ok_def\<close>)
qed (use assms in \<open>auto simp: AllocateGPU_def\<close>)

lemma ReleaseGPUs_gpu_ok:
  assumes "gpu_ok m"
  shows "gpu_ok (ReleaseGPUs v m j) \<and> gm_allocations (ReleaseGPUs v m j) = (gm_allocations m)(j := None)"
proof (cases "gm_enabled m")
  case True
  then have "gm_enabled (ReleaseGPUs v m j)" by (auto simp: ReleaseGPUs_def Let_def split: option.splits)
  then show ?thesis using True assms Release_inv by (simp add: gpu_ok_def ReleaseGPUs_allocations)
next
  case False
  then have "ReleaseGPUs v m j = m" by (auto simp: ReleaseGPUs_def)
  then show ?thesis using False assms by (auto simp: gpu_ok_def fun_eq_iff)
qed

text \<open>An operation for one job: the invariant is kept, and no other job comes to hold anything.\<close>

definition for_job :: "string \<Rightarrow> engine \<Rightarrow> engine \<Rightarrow> bool" where
  "for_job j e e' \<longleftrightarrow> engine_inv e' \<and> holders e' \<subseteq> insert j (holders e)"

lemma for_job_refl [simp]: "engine_inv e \<Longrightarrow> for_job j e e"
  by (auto simp: for_job_def)

lemma for_job_trans: "for_job j e1 e2 \<Longrightarrow> for_job j e2 e3 \<Longrightarrow> for_job j e1 e3"
  by (auto simp: for_job_def)

lemma for_job_cong: "for_job j e e1 \<Longrightarrow> e_gpus e2 = e_gpus e1 \<Longrightarrow> e_net e2 = e_net e1 \<Longrightarrow> e_cleanups e2 = e_cleanups e1 \<Longrightarrow> for_job j e e2"
  by (simp add: for_job_def engine_inv_def holders_fields)

lemma for_job_gpu:
  assumes "engine_inv e" "gpu_ok m" "\<And>v. v \<noteq> j \<Longrightarrow> gm_allocations m v = gm_allocations (e_gpus e) v"
  shows "for_job j e (e\<lparr>e_gpus := m\<rparr>)"
  using assms by (auto simp: for_job_def engine_inv_def holders_fields dom_def)

lemma for_job_net:
  assumes "engine_inv e" "net_ok a"
    "\<And>v. v \<noteq> j \<Longrightarrow> SimpleAllocationStore_Get (nsa_allocationStore a) v = SimpleAllocationStore_Get (nsa_allocationStore (e_net e)) v"
  shows "for_job j e (e\<lparr>e_net := a\<rparr>)"
  using assms by (auto simp: for_job_def engine_inv_def holders_fields dom_def)

lemma for_job_inv: "for_job j e e' \<Longrightarrow> engine_inv e'"
  by (simp add: for_job_def)

lemma ReleaseGPU_for_job: "engine_inv e \<Longrightarrow> for_job j e (e\<lparr>e_gpus := ReleaseGPU x (e_gpus e) j\<rparr>)"
  using ReleaseGPUs_gpu_ok [of "e_gpus e" "x_verify x" j]
  by (intro for_job_gpu) (auto simp: engine_inv_def ReleaseGPU_def)

lemma cleanup_for_job: "engine_inv e \<Longrightarrow> for_job j e (cleanup x cfg k e)"
  by (rule for_job_cong [of j e e]) (simp_all add: cleanup_def CleanupWorkspace_def)

lemma cleanupGPU_for_job: "engine_inv e \<Longrightarrow> for_job j e (cleanupGPU x j b e)"
  using ReleaseGPU_for_job by (simp add: cleanupGPU_def)

lemma CleanupNetworking_for_job: "engine_inv e \<Longrightarrow> for_job j e (e\<lparr>e_net := fst (CleanupNetworking (e_net e) j)\<rparr>)"
  using RemoveJob_net_ok [of "e_net e" j] RemoveJob_get [of "e_net e" j]
  by (intro for_job_net) (auto simp: engine_inv_def CleanupNetworking_def)

lemma start_gpu_for_job:
  assumes "engine_inv e" "range_order (x_gpuOrder x) (gm_gpus (e_gpus e))" "start_gpu x cfg e job = (e', job', r)"
  shows "for_job (job_Uuid job) e e' \<and> job_Uuid job' = job_Uuid job"
proof (cases "HasGPURequirement job")
  case True
  obtain m job1 r1 where a: "AllocateGPU x (e_gpus e) job = (m, job1, r1)" by (metis prod_cases3)
  have "for_job (job_Uuid job) e (e\<lparr>e_gpus := m\<rparr>)"
    using for_job_gpu [OF assms(1), of m "job_Uuid job"] AllocateGPU_gpu_ok [of "e_gpus e" x job] assms(1,2) a by (simp add: engine_inv_def)
  moreover have "e_gpus (cleanup x cfg k e1) = e_gpus e1 \<and> e_net (cleanup x cfg k e1) = e_net e1 \<and> e_cleanups (cleanup x cfg k e1) = e_cleanups e1" for k e1
    by (simp add: cleanup_def CleanupWorkspace_def)
  ultimately show ?thesis
    using assms(3) True a AllocateGPU_job [OF a] by (auto simp: start_gpu_def intro: for_job_cong split: sum.splits option.splits)
qed (use assms in \<open>auto simp: start_gpu_def\<close>)

lemma start_network_for_job:
  assumes "engine_inv e" "start_network x cfg gpu e job = (e', r)"
  shows "for_job (job_Uuid job) e e'"
proof (cases "job_Network job = []")
  case False
  obtain a r1 where s: "SetupNetworking (x_now x) (e_net e) (job_Uuid job) (job_Network job) = (a, r1)" by fastforce
  have f: "for_job (job_Uuid job) e (e\<lparr>e_net := a\<rparr>)"
    using for_job_net [OF assms(1), of a "job_Uuid job"] Setup_net_ok [of "e_net e"] Setup_others [of _ "job_Uuid job"] assms(1) s
    by (metis engine_inv_def fst_conv)
  have "for_job (job_Uuid job) e (cleanupGPU x (job_Uuid job) gpu (cleanup x cfg (job_Uuid job) (e\<lparr>e_net := a\<rparr>)))"
    using f cleanup_for_job cleanupGPU_for_job for_job_inv for_job_trans by meson
  then show ?thesis using assms(2) False s f by (auto simp: start_network_def split: sum.splits)
qed (use assms in \<open>auto simp: start_network_def\<close>)

lemma start_process_for_job:
  assumes "engine_inv e" "start_process x cfg gpu al e job = (e', r)"
  shows "for_job (job_Uuid job) e e'"
proof (cases "LaunchProcess x (launch_env x cfg al job)")
  case None
  let ?e1 = "cleanup x cfg (job_Uuid job) e"
  let ?e2 = "if al \<noteq> None then ?e1\<lparr>e_net := fst (CleanupNetworking (e_net ?e1) (job_Uuid job))\<rparr> else ?e1"
  have 1: "for_job (job_Uuid job) e ?e1" by (rule cleanup_for_job [OF assms(1)])
  have 2: "for_job (job_Uuid job) ?e1 ?e2" using CleanupNetworking_for_job [OF for_job_inv [OF 1]] for_job_inv [OF 1] by simp
  have "for_job (job_Uuid job) e (cleanupGPU x (job_Uuid job) gpu ?e2)"
    using 1 2 cleanupGPU_for_job [OF for_job_inv [OF 2]] for_job_trans by blast
  then show ?thesis using assms(2) None by (simp add: start_process_def Let_def)
next
  case (Some pid)
  then have "e' = e\<lparr>e_procs := (e_procs e)(job_Uuid job \<mapsto> launch_env x cfg al job)\<rparr>"
    using assms(2) by (auto simp: start_process_def Let_def split: if_splits)
  then show ?thesis by (intro for_job_cong [OF for_job_refl [OF assms(1)]]) simp_all
qed

lemma coordinator_StartJob_for_job:
  assumes "engine_inv e" "range_order (x_gpuOrder x) (gm_gpus (e_gpus e))" "coordinator_StartJob x cfg e job uploads = (e', job', r)"
  shows "for_job (job_Uuid job) e e' \<and> job_Uuid job' = job_Uuid job"
proof -
  obtain ops r0 where p: "PrepareWorkspace (x_cwd x) (x_fsOk x) (ec_server cfg) (job_Uuid job) uploads = (ops, r0)" by fastforce
  let ?e = "apply_fs ops e"
  have fs: "for_job (job_Uuid job) e ?e" by (rule for_job_cong [OF for_job_refl [OF assms(1)]]) simp_all
  consider "e' = e" "job' = job" | "e' = ?e" "job' = job" | "start_steps x cfg ?e job = (e', job', r)"
    using assms(3) p by (auto simp: coordinator_StartJob_def Let_def split: if_splits sum.splits)
  then show ?thesis
  proof cases
    case 3
    obtain e1 job1 r1 where g: "start_gpu x cfg ?e job = (e1, job1, r1)" by (metis prod_cases3)
    have G: "for_job (job_Uuid job) ?e e1" "job_Uuid job1 = job_Uuid job" using start_gpu_for_job [OF for_job_inv [OF fs] _ g] assms(2) by simp_all
    have E1: "for_job (job_Uuid job) e e1" using fs G(1) by (rule for_job_trans)
    show ?thesis
    proof (cases r1)
      case (Inr gpu)
      obtain e2 r2 where n: "start_network x cfg gpu e1 job1 = (e2, r2)" by fastforce
      have E2: "for_job (job_Uuid job) e e2" using E1 start_network_for_job [OF for_job_inv [OF E1] n] G(2) for_job_trans by simp
      show ?thesis
      proof (cases r2)
        case (Inr al)
        obtain e3 r3 where q: "start_process x cfg gpu al e2 job1 = (e3, r3)" by fastforce
        have "for_job (job_Uuid job) e e3" using E2 start_process_for_job [OF for_job_inv [OF E2] q] G(2) for_job_trans by simp
        then show ?thesis using 3 g \<open>r1 = Inr gpu\<close> n Inr q G by (simp add: start_steps_def)
      qed (use 3 g Inr n E2 G in \<open>auto simp: start_steps_def\<close>)
    qed (use 3 g E1 G in \<open>auto simp: start_steps_def\<close>)
  qed (use fs assms(1) in simp_all)
qed

text \<open>Setting up the resources of a job changes directories and cgroups only.\<close>

lemma SetupJobResources_fields:
  "e_gpus (fst (SetupJobResources x cfg e job)) = e_gpus e" "e_net (fst (SetupJobResources x cfg e job)) = e_net e"
  "e_cleanups (fst (SetupJobResources x cfg e job)) = e_cleanups e"
  by (auto simp: SetupJobResources_def createWorkspace_def createCgroup_def cleanupWorkspace_def cleanupAll_def CleanupCgroup_def
      split: cgroup_answer.splits)

lemma SetupJobResources_for_job: "engine_inv e \<Longrightarrow> for_job j e (fst (SetupJobResources x cfg e job))"
  by (rule for_job_cong [OF for_job_refl]) (simp_all add: SetupJobResources_fields)

text \<open>After a cleanup the job holds nothing.\<close>

lemma CleanupJob_frees:
  assumes "engine_inv e"
  shows "engine_inv (fst (CleanupJob x cfg j e)) \<and> holders (fst (CleanupJob x cfg j e)) \<subseteq> holders e \<and>
    (j \<noteq> [] \<longrightarrow> j \<notin> holders (fst (CleanupJob x cfg j e)))"
proof -
  let ?e1 = "releaseGPUs x j (CleanupCgroup cfg j e)"
  obtain e2 ok where fs: "cleanupFilesystem x cfg j ?e1 = (e2, ok)" by fastforce
  have e': "fst (CleanupJob x cfg j e) = e2\<lparr>e_net := fst (RemoveJobFromNetwork (e_net e2) j)\<rparr>"
    using assms fs by (simp add: CleanupJob_def Let_def engine_inv_def)
  have same: "e_net e2 = e_net e" "e_gpus e2 = ReleaseGPUs (x_verify x) (e_gpus e) j" "e_cleanups e2 = e_cleanups e"
    using cleanupFilesystem_spec [OF fs] by (simp_all add: only_removes_def releaseGPUs_def CleanupCgroup_def)
  have g: "gpu_ok (e_gpus e2)" "gm_allocations (e_gpus e2) = (gm_allocations (e_gpus e))(j := None)"
    using ReleaseGPUs_gpu_ok assms by (simp_all add: same engine_inv_def)
  have n: "net_ok (e_net e)" using assms by (simp add: engine_inv_def)
  show ?thesis using assms g RemoveJob_net_ok [OF n, of j] RemoveJob_get [OF n, of j]
    by (auto simp: e' engine_inv_def same holders_fields split: if_splits)
qed

lemma CleanupSystemOnly_for_job:
  assumes "engine_inv e"
  shows "for_job j e (fst (CleanupJobSystemResourcesOnly x cfg j e))"
  using assms ReleaseGPUs_gpu_ok [of "e_gpus e" "x_verify x" j]
  by (auto simp: for_job_def CleanupJobSystemResourcesOnly_def engine_inv_def holders_fields releaseGPUs_def CleanupCgroup_def)

end
