(* ===== verification/Lifecycle.thy ===== *)
theory Lifecycle
  imports EngineInv JobStore Scheduler
begin

text \<open>
  The life cycle of a job: \<open>core/joblet.go\<close>, with the uploads of scheduled jobs (\<open>core/upload/manager.go\<close>, \<open>core/resource_manager.go\<close>) and the writer of the output (\<open>core/writer.go\<close>),
  over the job store, the scheduler, the builder and the execution engine.

  Each call of the server is one function on the state of the joblet; a goroutine \<open>monitorJob\<close> is an entry of \<open>jl_monitors\<close> with the job it watches, and what it does when the process has ended is one function too.
  The metrics and telematics of a job are left out: their errors are only logged and nothing here reads them. A failure to move the process into its cgroup is only logged as well.
\<close>

section \<open>State, configuration, requests\<close>

record joblet =
  jl_store :: jobStoreAdapter
  jl_engine :: engine
  jl_scheduler :: Scheduler
  jl_uuids :: UUIDGenerator
  jl_monitors :: "Job list"

record joblet_config =
  jc_engine :: engine_config
  jc_builder :: BuilderConfig
  jc_JobTimeout :: duration

record StartJobRequest =
  sr_Command :: string
  sr_Args :: "string list"
  sr_MaxCPU :: int
  sr_CPUCores :: string
  sr_MaxMemory :: int
  sr_MaxIOBPS :: int
  sr_Uploads :: "FileUpload list"
  sr_Schedule :: string
  sr_Network :: string
  sr_Volumes :: "string list"
  sr_Runtime :: string
  sr_Environment :: "string \<rightharpoonup> string"
  sr_SecretEnvironment :: "string \<rightharpoonup> string"
  sr_JobType :: JobType
  sr_WorkingDirectory :: string
  sr_GPUCount :: int
  sr_GPUMemoryMB :: int
  sr_Timeout :: string

text \<open>What a request meets outside: the answers of the host, the context, the clock's conversions, the random source, the orders of two ranges.\<close>

record outside =
  o_calls :: calls
  o_done :: bool
  o_frac :: "nat \<Rightarrow> nat \<Rightarrow> nat \<Rightarrow> nat"
  o_kernel :: kernel_random
  o_envOrder :: "string list"
  o_secOrder :: "string list"
  o_parseTime :: "string \<Rightarrow> instant option"

datatype joblet_error =
    ContextDone
  | CommandEmpty
  | JobCreationFailed build_error
  | InvalidSchedule
  | UploadPreparationFailed resource_error
  | SchedulingFailed
  | ResourceSetupFailed resource_error
  | ExecutionFailed start_error
  | JobNotFound string
  | JobWasCanceled string
  | JobNotScheduled string
  | RemoveScheduledFailed
  | JobNotRunning string string
  | CleanupFailed cleanup_error
  | JobActive string string
  | DeletionFailed adapter_error
  | DeletionsFailed nat

section \<open>Output (writer.go)\<close>

definition OutputWriter_Write :: "string list \<Rightarrow> int \<Rightarrow> string \<Rightarrow> chunk \<Rightarrow> jobStoreAdapter \<Rightarrow> jobStoreAdapter \<times> nat" where
  "OutputWriter_Write ks now jobID p a = (if length p = 0 then (a, 0) else (WriteToBuffer ks now jobID p a, length p))"

section \<open>Uploads of scheduled jobs (upload/manager.go, resource\_manager.go)\<close>

definition count_upload :: "FileUpload \<Rightarrow> UploadSession \<Rightarrow> UploadSession" where
  "count_upload upload session =
     (let upload = upload\<lparr>fu_Size := int (length (fu_Content upload))\<rparr>
      in session\<lparr>us_TotalSize := int64 (us_TotalSize session + fu_Size upload), us_TotalFiles := us_TotalFiles session + 1,
           us_Files := us_Files session @ [upload]\<rparr>)"

definition PrepareUploadSession :: "string \<Rightarrow> FileUpload list \<Rightarrow> int \<Rightarrow> (upload_error, UploadSession) result" where
  "PrepareUploadSession jobID uploads memoryLimitMB =
     (let session = \<lparr>us_JobUUID = jobID, us_TotalFiles = 0, us_TotalSize = 0, us_Files = [], us_MemoryLimit = 0, us_ChunkSize = 0\<rparr>;
          session = OptimizeForMemory session memoryLimitMB;
          session = fold count_upload uploads session
      in case ValidateUpload session of (session, Inl err) \<Rightarrow> Inl err | (session, Inr _) \<Rightarrow> Inr session)"

definition ProcessDirectUploads :: "string \<Rightarrow> FileUpload list \<Rightarrow> int \<Rightarrow> (upload_error, unit) result" where
  "ProcessDirectUploads jobID uploads memoryLimitMB =
     (if length uploads = 0 then Inr ()
      else (case PrepareUploadSession jobID uploads memoryLimitMB of Inl err \<Rightarrow> Inl err | Inr session \<Rightarrow> Inr ()))"

definition PrepareScheduledJobUploads :: "calls \<Rightarrow> engine_config \<Rightarrow> engine \<Rightarrow> Job \<Rightarrow> FileUpload list \<Rightarrow> engine \<times> (resource_error, unit) result" where
  "PrepareScheduledJobUploads x cfg e job uploads =
     (if length uploads = 0 then (e, Inr ())
      else let workspaceDir = getWorkspaceDir cfg (job_Uuid job) in
           if \<not> x_mkdir x then (e, Inl MkdirWorkspaceFailed)
           else (case createCgroup x cfg (e\<lparr>e_dirs := insert workspaceDir (e_dirs e)\<rparr>) job of
                   (e, Inl err) \<Rightarrow> (if x_removeFails x (Dir workspaceDir) then e else remove_all (Dir workspaceDir) e, Inl err)
                 | (e, Inr _) \<Rightarrow>
                     (case ProcessDirectUploads (job_Uuid job) uploads (MemorySize_Megabytes (rl_Memory (job_Limits job))) of
                        Inl err \<Rightarrow> (e, Inl UploadsFailed)
                      | Inr _ \<Rightarrow> (e, Inr ()))))"

section \<open>Starting jobs (joblet.go)\<close>

text \<open>The two ways to clean up after a job.\<close>

definition cleanup_of :: "calls \<Rightarrow> joblet_config \<Rightarrow> Job \<Rightarrow> joblet \<Rightarrow> joblet" where
  "cleanup_of x cfg job J =
     J\<lparr>jl_engine := fst (if JobType_IsRuntimeBuild (job_Type job) then CleanupJobSystemResourcesOnly x (jc_engine cfg) (job_Uuid job) (jl_engine J)
        else CleanupJob x (jc_engine cfg) (job_Uuid job) (jl_engine J))\<rparr>"

definition handleExecutionFailure :: "calls \<Rightarrow> joblet_config \<Rightarrow> Job \<Rightarrow> joblet \<Rightarrow> joblet" where
  "handleExecutionFailure x cfg job J =
     (let job = job\<lparr>job_Status := StatusFailed, job_ExitCode := -1, job_EndTime := Some (x_now x)\<rparr>
      in cleanup_of x cfg job (J\<lparr>jl_store := UpdateJob (x_now x) job (jl_store J)\<rparr>))"

definition updateJobRunning :: "calls \<Rightarrow> int \<Rightarrow> Job \<Rightarrow> joblet \<Rightarrow> joblet \<times> Job" where
  "updateJobRunning x pid job J =
     (let job = job\<lparr>job_Pid := int32 pid, job_Status := StatusRunning\<rparr>
      in (J\<lparr>jl_store := UpdateJob (x_now x) job (jl_store J)\<rparr>, job))"

definition executeJob :: "calls \<Rightarrow> joblet_config \<Rightarrow> Job \<Rightarrow> FileUpload list \<Rightarrow> joblet \<Rightarrow> joblet \<times> (joblet_error, Job) result" where
  "executeJob x cfg job uploads J =
     (case SetupJobResources x (jc_engine cfg) (jl_engine J) job of
        (e, Inl err) \<Rightarrow> (J\<lparr>jl_engine := e\<rparr>, Inl (ResourceSetupFailed err))
      | (e, Inr _) \<Rightarrow>
          (let J = J\<lparr>jl_store := CreateNewJob (x_now x) job (jl_store J)\<rparr>
           in case coordinator_StartJob x (jc_engine cfg) e job uploads of
                (e, job, Inl err) \<Rightarrow> (handleExecutionFailure x cfg job (J\<lparr>jl_engine := e\<rparr>), Inl (ExecutionFailed err))
              | (e, job, Inr pid) \<Rightarrow>
                  (let (J, job) = updateJobRunning x pid job (J\<lparr>jl_engine := e\<rparr>)
                   in (J\<lparr>jl_monitors := jl_monitors J @ [job]\<rparr>, Inr job))))"

definition scheduleJob :: "outside \<Rightarrow> joblet_config \<Rightarrow> Job \<Rightarrow> BuildRequest \<Rightarrow> joblet \<Rightarrow> joblet \<times> (joblet_error, Job) result" where
  "scheduleJob out cfg job req J =
     (case o_parseTime out (br_Schedule req) of
        None \<Rightarrow> (J, Inl InvalidSchedule)
      | Some scheduledTime \<Rightarrow>
          (let job = job\<lparr>job_ScheduledTime := Some scheduledTime, job_Status := StatusScheduled\<rparr>
           in case (if length (br_Uploads req) > 0 then PrepareScheduledJobUploads (o_calls out) (jc_engine cfg) (jl_engine J) job (br_Uploads req)
                    else (jl_engine J, Inr ())) of
                (e, Inl err) \<Rightarrow> (J\<lparr>jl_engine := e\<rparr>, Inl (UploadPreparationFailed err))
              | (e, Inr _) \<Rightarrow>
                  (let J = J\<lparr>jl_engine := e, jl_store := CreateNewJob (x_now (o_calls out)) job (jl_store J)\<rparr>
                   in if job_ScheduledTime job = None
                      then (if JobType_IsRuntimeBuild (job_Type job) then J
                            else J\<lparr>jl_engine := fst (CleanupJob (o_calls out) (jc_engine cfg) (job_Uuid job) (jl_engine J))\<rparr>, Inl SchedulingFailed)
                      else (J\<lparr>jl_scheduler := AddJob (jl_scheduler J) job\<rparr>, Inr job))))"

definition build_request :: "StartJobRequest \<Rightarrow> ResourceLimits \<Rightarrow> BuildRequest" where
  "build_request req limits =
     \<lparr>br_Command = sr_Command req, br_Args = sr_Args req, br_Limits = limits, br_Schedule = sr_Schedule req, br_Network = sr_Network req,
      br_Volumes = sr_Volumes req, br_Runtime = sr_Runtime req, br_Environment = sr_Environment req, br_SecretEnvironment = sr_SecretEnvironment req,
      br_JobType = sr_JobType req, br_WorkingDirectory = sr_WorkingDirectory req, br_Uploads = sr_Uploads req, br_GPUCount = sr_GPUCount req,
      br_GPUMemoryMB = sr_GPUMemoryMB req, br_Timeout = sr_Timeout req\<rparr>"

text \<open>\<open>None\<close>: the parser of the core set does not return, or no identifier can be made, which panics.\<close>

definition StartJob :: "outside \<Rightarrow> joblet_config \<Rightarrow> StartJobRequest \<Rightarrow> joblet \<Rightarrow> (joblet \<times> (joblet_error, Job) result) option" where
  "StartJob out cfg req J =
     (case NewResourceLimitsFromParams (sr_MaxCPU req) (sr_CPUCores req) (sr_MaxMemory req) (sr_MaxIOBPS req) of
        None \<Rightarrow> None
      | Some limits \<Rightarrow>
          (let internalReq = build_request req limits
           in if o_done out then Some (J, Inl ContextDone)
              else if br_Command internalReq = [] then Some (J, Inl CommandEmpty)
              else (case Build (o_frac out) (x_now (o_calls out)) (o_kernel out) (o_envOrder out) (o_secOrder out) (jc_builder cfg) internalReq (jl_uuids J) of
                      (g, None) \<Rightarrow> None
                    | (g, Some (Inl err)) \<Rightarrow> Some (J\<lparr>jl_uuids := g\<rparr>, Inl (JobCreationFailed err))
                    | (g, Some (Inr jb)) \<Rightarrow>
                        (let J = J\<lparr>jl_uuids := g\<rparr>
                         in if br_Schedule internalReq \<noteq> [] then Some (scheduleJob out cfg jb internalReq J)
                            else Some (executeJob (o_calls out) cfg jb (br_Uploads internalReq) J)))))"

definition executeScheduledJob :: "calls \<Rightarrow> joblet_config \<Rightarrow> Job \<Rightarrow> joblet \<Rightarrow> joblet \<times> (joblet_error, unit) result" where
  "executeScheduledJob x cfg jobObj J =
     (case adapter_Job (job_Uuid jobObj) (jl_store J) of
        None \<Rightarrow> (J, Inl (JobNotFound (job_Uuid jobObj)))
      | Some freshJob \<Rightarrow>
          if job_Status freshJob = StatusCanceled then (J, Inl (JobWasCanceled (job_Uuid jobObj)))
          else if job_Status freshJob \<noteq> StatusScheduled then (J, Inl (JobNotScheduled (job_Status freshJob)))
          else (let freshJob = freshJob\<lparr>job_Status := StatusInitializing\<rparr>;
                    J = J\<lparr>jl_store := UpdateJob (x_now x) freshJob (jl_store J)\<rparr>
                in case executeJob x cfg freshJob [] J of
                     (J, Inl err) \<Rightarrow> (J, Inl err)
                   | (J, Inr _) \<Rightarrow> (J, Inr ())))"

section \<open>Stopping and deleting jobs (joblet.go)\<close>

text \<open>\<open>killed\<close>: the process is gone after the signals. A cleanup that is under way already is no error.\<close>

definition StopJob :: "calls \<Rightarrow> joblet_config \<Rightarrow> bool \<Rightarrow> string \<Rightarrow> joblet \<Rightarrow> joblet \<times> (joblet_error, unit) result" where
  "StopJob x cfg killed jobUUID J =
     (case adapter_Job jobUUID (jl_store J) of
        None \<Rightarrow> (J, Inl (JobNotFound jobUUID))
      | Some jb \<Rightarrow>
          if IsScheduled jb then
            (case RemoveJob (jl_scheduler J) jobUUID of
               (s, removed) \<Rightarrow>
                 (let J = J\<lparr>jl_scheduler := s\<rparr>
                  in if removed then
                       (let J = J\<lparr>jl_store := UpdateJob (x_now x) (jb\<lparr>job_Status := StatusCanceled\<rparr>) (jl_store J)\<rparr>
                        in (if JobType_IsRuntimeBuild (job_Type jb) then J
                            else J\<lparr>jl_engine := fst (CleanupJob x (jc_engine cfg) jobUUID (jl_engine J))\<rparr>, Inr ()))
                     else (J, Inl RemoveScheduledFailed)))
          else if \<not> IsRunning jb then (J, Inl (JobNotRunning jobUUID (job_Status jb)))
          else (let stopped = UpdateJob (x_now x) (jb\<lparr>job_Status := StatusStopped\<rparr>)
                in if jobUUID \<in> e_cleanups (jl_engine J) then (J\<lparr>jl_store := stopped (jl_store J)\<rparr>, Inr ())
                   else (case (if JobType_IsRuntimeBuild (job_Type jb) then CleanupJobWithProcessSystemOnly x (jc_engine cfg) killed jobUUID (job_Pid jb) (jl_engine J)
                               else CleanupJobWithProcess x (jc_engine cfg) killed jobUUID (job_Pid jb) (jl_engine J)) of
                           (e, r) \<Rightarrow> (J\<lparr>jl_engine := e, jl_store := stopped (jl_store J)\<rparr>,
                                       (case r of Inl (CleanupInProgress _) \<Rightarrow> Inr () | Inl err \<Rightarrow> Inl (CleanupFailed err) | Inr _ \<Rightarrow> Inr ())))))"

definition DeleteJob :: "calls \<Rightarrow> string list \<Rightarrow> joblet_config \<Rightarrow> string \<Rightarrow> joblet \<Rightarrow> joblet \<times> (joblet_error, unit) result" where
  "DeleteJob x ks cfg jobUUID J =
     (case adapter_Job jobUUID (jl_store J) of
        None \<Rightarrow> (J, Inl (JobNotFound jobUUID))
      | Some jb \<Rightarrow>
          if IsRunning jb \<or> IsScheduled jb then (J, Inl (JobActive jobUUID (job_Status jb)))
          else (case adapter_DeleteJob ks (x_now x) jobUUID (jl_store J) of
                  (a, Inl err) \<Rightarrow> (J\<lparr>jl_store := a\<rparr>, Inl (DeletionFailed err))
                | (a, Inr _) \<Rightarrow> (cleanup_of x cfg (jb\<lparr>job_Uuid := jobUUID\<rparr>) (J\<lparr>jl_store := a\<rparr>), Inr ())))"

text \<open>\<open>persistDelete\<close> is the answer of the persistence service to the deletion of a job's logs. The counters: deleted, skipped, failed.\<close>

fun delete_jobs :: "calls \<Rightarrow> string list \<Rightarrow> bool option \<Rightarrow> joblet_config \<Rightarrow> Job list \<Rightarrow> joblet \<Rightarrow> joblet \<times> nat \<times> nat \<times> nat" where
  "delete_jobs x ks persistDelete cfg [] J = (J, 0, 0, 0)"
| "delete_jobs x ks persistDelete cfg (job # js) J =
     (if IsRunning job \<or> IsScheduled job then
        (let (J, deleted, skipped, failed) = delete_jobs x ks persistDelete cfg js J in (J, deleted, Suc skipped, failed))
      else (case DeleteJob x ks cfg (job_Uuid job) J of
              (J, Inl err) \<Rightarrow> (let (J, deleted, skipped, failed) = delete_jobs x ks persistDelete cfg js J in (J, deleted, skipped, Suc failed))
            | (J, Inr _) \<Rightarrow>
                (let J = J\<lparr>jl_store := fst (DeleteJobLogs ks persistDelete (job_Uuid job) (jl_store J))\<rparr>;
                     (J, deleted, skipped, failed) = delete_jobs x ks persistDelete cfg js J
                 in (J, Suc deleted, skipped, failed))))"

definition DeleteAllJobs :: "calls \<Rightarrow> string list \<Rightarrow> bool option \<Rightarrow> joblet_config \<Rightarrow> joblet \<Rightarrow> joblet \<times> (joblet_error, nat \<times> nat) result" where
  "DeleteAllJobs x ks persistDelete cfg J =
     (let (J, deleted, skipped, failed) = delete_jobs x ks persistDelete cfg (ListJobs ks (jl_store J)) J
      in (J, if failed > 0 then Inl (DeletionsFailed failed) else Inr (deleted, skipped)))"

section \<open>Watching a job (joblet.go)\<close>

definition job_timeout :: "joblet_config \<Rightarrow> Job \<Rightarrow> duration" where
  "job_timeout cfg job = (if job_Timeout job > 0 then job_Timeout job else jc_JobTimeout cfg)"

text \<open>How the wait ends: the process ended (without error, with an exit code, or the wait failed), or the timer fired first.\<close>

datatype wait_end = Exited | ExitCode int | WaitFailed | TimerFired bool

definition final_job :: "instant \<Rightarrow> wait_end \<Rightarrow> Job \<Rightarrow> Job" where
  "final_job now w job =
     (case w of
        TimerFired killed \<Rightarrow> job\<lparr>job_Status := StatusTimeout, job_ExitCode := 124, job_EndTime := Some now\<rparr>
      | ExitCode c \<Rightarrow> job\<lparr>job_Status := StatusFailed, job_ExitCode := int32 c, job_EndTime := Some now\<rparr>
      | WaitFailed \<Rightarrow> job\<lparr>job_Status := StatusFailed, job_ExitCode := -1, job_EndTime := Some now\<rparr>
      | Exited \<Rightarrow> job\<lparr>job_Status := StatusCompleted, job_ExitCode := 0, job_EndTime := Some now\<rparr>)"

definition monitor_timeout :: "calls \<Rightarrow> joblet_config \<Rightarrow> bool \<Rightarrow> Job \<Rightarrow> joblet \<Rightarrow> joblet" where
  "monitor_timeout x cfg killed job J =
     J\<lparr>jl_engine := fst (if JobType_IsRuntimeBuild (job_Type job) then CleanupJobWithProcessSystemOnly x (jc_engine cfg) killed (job_Uuid job) (job_Pid job) (jl_engine J)
        else CleanupJobWithProcess x (jc_engine cfg) killed (job_Uuid job) (job_Pid job) (jl_engine J))\<rparr>"

text \<open>The goroutine from the end of the wait on; a process that ended is no longer there.\<close>

definition monitorJob :: "calls \<Rightarrow> joblet_config \<Rightarrow> wait_end \<Rightarrow> Job \<Rightarrow> joblet \<Rightarrow> joblet" where
  "monitorJob x cfg w job J =
     (let J = (case w of TimerFired killed \<Rightarrow> monitor_timeout x cfg killed job J
                 | _ \<Rightarrow> J\<lparr>jl_engine := (jl_engine J)\<lparr>e_procs := (e_procs (jl_engine J))(job_Uuid job := None)\<rparr>\<rparr>);
          J = J\<lparr>jl_store := UpdateJob (x_now x) (final_job (x_now x) w job) (jl_store J), jl_monitors := remove1 job (jl_monitors J)\<rparr>
      in case w of TimerFired killed \<Rightarrow> J | _ \<Rightarrow> cleanup_of x cfg job J)"

section \<open>Recovery and periodic cleanup (joblet.go)\<close>

definition recover_job :: "joblet_config \<Rightarrow> Job \<Rightarrow> joblet \<times> nat \<times> nat \<Rightarrow> joblet \<times> nat \<times> nat" where
  "recover_job cfg job st =
     (let (J, recovered, skipped) = st
      in if job_Status job \<noteq> StatusScheduled then (J, recovered, skipped)
         else if job_NodeId job \<noteq> server_NodeId (jc_builder cfg) then (J, recovered, skipped)
         else if job_ScheduledTime job = None then (J, recovered, Suc skipped)
         else (J\<lparr>jl_scheduler := AddJob (jl_scheduler J) job\<rparr>, Suc recovered, skipped))"

definition RecoverScheduledJobs :: "joblet_config \<Rightarrow> Job list \<Rightarrow> joblet \<Rightarrow> joblet \<times> nat \<times> nat" where
  "RecoverScheduledJobs cfg js J = fold (recover_job cfg) js (J, 0, 0)"

definition getActiveJobUUIDs :: "string list \<Rightarrow> joblet \<Rightarrow> string set" where
  "getActiveJobUUIDs ks J = set (map job_Uuid (ListJobs ks (jl_store J)))"

definition periodic_cleanup :: "calls \<Rightarrow> joblet_config \<Rightarrow> string list \<Rightarrow> (string \<times> bool) list \<Rightarrow> joblet \<Rightarrow> joblet" where
  "periodic_cleanup x cfg ks es J =
     J\<lparr>jl_engine := fst (CleanupOrphanedResources x (jc_engine cfg) (getActiveJobUUIDs ks J) es (jl_engine J))\<rparr>"

section \<open>Runs\<close>

text \<open>
  What can happen, one call or one step of a goroutine at a time; a step of the scheduler's goroutine that executes a job calls \<open>executeScheduledJob\<close>. A start is recorded with the identifier of the job, its type
  and whether it is to run at once, an execution and a stop with whether the stored job was scheduled.
\<close>

datatype lc_event =
    LStart string JobType bool
  | LExec string bool
  | LStop string bool
  | LInternal

definition scheduled_in :: "jobStoreAdapter \<Rightarrow> string \<Rightarrow> bool" where
  "scheduled_in a u \<longleftrightarrow> (case adapter_Job u a of None \<Rightarrow> False | Some job \<Rightarrow> job_Status job = StatusScheduled)"

definition orderly_answers :: "calls \<Rightarrow> joblet \<Rightarrow> bool" where
  "orderly_answers x J \<longleftrightarrow> range_order (x_gpuOrder x) (gm_gpus (e_gpus (jl_engine J)))"

text \<open>The random source fills the slice of sixteen bytes it is asked to fill.\<close>

definition full_read :: "kernel_random \<Rightarrow> bool" where
  "full_read k \<longleftrightarrow> (\<forall>bs. kr_bytes k = Some bs \<longrightarrow> length bs = 16)"

inductive joblet_step :: "joblet_config \<Rightarrow> joblet \<Rightarrow> lc_event \<Rightarrow> joblet \<Rightarrow> bool" for cfg where
  start: "orderly_answers (o_calls out) J \<Longrightarrow> full_read (o_kernel out) \<Longrightarrow> Building.Next (o_kernel out) (jl_uuids J) = (g, Some u) \<Longrightarrow> StartJob out cfg req J = Some (J', r) \<Longrightarrow>
    joblet_step cfg J (LStart u (sr_JobType req) (sr_Schedule req = [])) J'"
| exec: "orderly_answers x J \<Longrightarrow> sched_step (jl_scheduler J) (EvExec j t) s \<Longrightarrow> executeScheduledJob x cfg j (J\<lparr>jl_scheduler := s\<rparr>) = (J', r) \<Longrightarrow>
    joblet_step cfg J (LExec (job_Uuid j) (scheduled_in (jl_store J) (job_Uuid j))) J'"
| sched: "sched_step (jl_scheduler J) e s \<Longrightarrow> e \<in> {EvStart, EvStop, EvTau} \<Longrightarrow> joblet_step cfg J LInternal (J\<lparr>jl_scheduler := s\<rparr>)"
| stop: "StopJob x cfg killed u J = (J', r) \<Longrightarrow> joblet_step cfg J (LStop u (scheduled_in (jl_store J) u \<and> r = Inr ())) J'"
| delete: "DeleteJob x ks cfg u J = (J', r) \<Longrightarrow> joblet_step cfg J LInternal J'"
| delete_all: "DeleteAllJobs x ks answer cfg J = (J', r) \<Longrightarrow> joblet_step cfg J LInternal J'"
| finish: "job \<in> set (jl_monitors J) \<Longrightarrow> (\<forall>b. w = TimerFired b \<longrightarrow> job_timeout cfg job > 0) \<Longrightarrow> joblet_step cfg J LInternal (monitorJob x cfg w job J)"
| recover: "RecoverScheduledJobs cfg js J = (J', n, m) \<Longrightarrow> joblet_step cfg J LInternal J'"
| periodic: "joblet_step cfg J LInternal (periodic_cleanup x cfg ks es J)"
| emit: "joblet_step cfg J LInternal (J\<lparr>jl_store := fst (OutputWriter_Write ks now u p (jl_store J))\<rparr>)"

definition started :: "lc_event list \<Rightarrow> string set" where
  "started evs = {u. \<exists>ty b. LStart u ty b \<in> set evs}"

text \<open>Identifiers are not generated twice.\<close>

inductive joblet_run :: "joblet_config \<Rightarrow> joblet \<Rightarrow> lc_event list \<Rightarrow> joblet \<Rightarrow> bool" for cfg J0 where
  run_none: "joblet_run cfg J0 [] J0"
| run_more: "joblet_run cfg J0 evs J \<Longrightarrow> joblet_step cfg J e J' \<Longrightarrow> (\<forall>u ty b. e = LStart u ty b \<longrightarrow> u \<notin> started evs) \<Longrightarrow> joblet_run cfg J0 (evs @ [e]) J'"

definition new_joblet :: "joblet \<Rightarrow> bool" where
  "new_joblet J \<longleftrightarrow> engine_inv (jl_engine J) \<and> holders (jl_engine J) = {} \<and> jl_monitors J = [] \<and> sjs_jobs (a_jobStore (jl_store J)) = Map.empty"

section \<open>What the operations do to the store\<close>

abbreviation stored :: "jobStoreAdapter \<Rightarrow> string \<rightharpoonup> Job" where
  "stored a \<equiv> sjs_jobs (a_jobStore a)"

text \<open>At most the entry of one job changes, and if it is there afterwards it has one of the statuses.\<close>

definition touches :: "string \<Rightarrow> string set \<Rightarrow> jobStoreAdapter \<Rightarrow> jobStoreAdapter \<Rightarrow> bool" where
  "touches u S a a' \<longleftrightarrow> (\<forall>v. v \<noteq> u \<longrightarrow> stored a' v = stored a v) \<and>
     (stored a' u = stored a u \<or> stored a' u = None \<or> (\<exists>job. stored a' u = Some job \<and> job_Uuid job = u \<and> job_Status job \<in> S))"

lemma status_neq [simp]:
  "StatusInitializing \<noteq> StatusScheduled" "StatusFailed \<noteq> StatusScheduled" "StatusRunning \<noteq> StatusScheduled" "StatusStopped \<noteq> StatusScheduled"
  "StatusCompleted \<noteq> StatusScheduled" "StatusTimeout \<noteq> StatusScheduled" "StatusCanceled \<noteq> StatusScheduled" "StatusCanceled \<noteq> StatusRunning"
  by (simp_all add: status_defs)

lemmas status_neq_sym [simp] = status_neq [THEN not_sym]

lemma touches_refl [simp]: "touches u S a a"
  by (simp add: touches_def)

lemma touches_trans: "touches u S a b \<Longrightarrow> touches u S b c \<Longrightarrow> touches u S a c"
  unfolding touches_def by metis

lemma touches_mono: "touches u S a b \<Longrightarrow> S \<subseteq> T \<Longrightarrow> touches u T a b"
  unfolding touches_def by blast

lemma store_simps [simp]:
  "stored (publishEvent ev a) = stored a" "a_closed (publishEvent ev a) = a_closed a" "a_tasks (publishEvent ev a) = a_tasks a"
  by (simp_all add: publishEvent_def)

lemma CreateNewJob_stored: "stored (CreateNewJob now job a) = (if a_closed a then stored a else (stored a)(job_Uuid job \<mapsto> job))"
  by (simp add: CreateNewJob_def SimpleJobStore_Create_def GetBuffer_def Let_def split: option.splits)

lemma UpdateJob_stored: "stored (UpdateJob now job a) = (if a_closed a \<or> a_tasks a (job_Uuid job) = None then stored a else (stored a)(job_Uuid job \<mapsto> job))"
  by (auto simp: UpdateJob_def SimpleJobStore_Update_def Let_def split: option.splits)

lemma CreateNewJob_touches: "touches (job_Uuid job) {job_Status job} a (CreateNewJob now job a)"
  by (simp add: touches_def CreateNewJob_stored)

lemma UpdateJob_touches: "touches (job_Uuid job) {job_Status job} a (UpdateJob now job a)"
  by (simp add: touches_def UpdateJob_stored)

lemma adapter_Job_stored: "adapter_Job u a = Some jb \<Longrightarrow> \<not> a_closed a \<and> (\<exists>job. stored a u = Some job \<and> jb = DeepCopy job)"
  by (auto simp: adapter_Job_def SimpleJobStore_Get_def split: if_splits)

lemma scheduled_in_stored: "scheduled_in a u \<longleftrightarrow> \<not> a_closed a \<and> (\<exists>job. stored a u = Some job \<and> job_Status job = StatusScheduled)"
  by (auto simp: scheduled_in_def adapter_Job_def SimpleJobStore_Get_def split: option.splits)

lemma DeepCopy_no_build [simp]: "\<not> JobType_IsRuntimeBuild (job_Type (DeepCopy j))"
  by (simp add: DeepCopy_def zero_job_def JobType_IsRuntimeBuild_def JobTypeRuntimeBuild_def)

lemma start_keeps_job:
  assumes "coordinator_StartJob x cfg e job uploads = (e', job', r)"
  shows "job_Type job' = job_Type job" "job_Uuid job' = job_Uuid job"
proof -
  let ?same = "\<lambda>job1. job_Type job1 = job_Type job \<and> job_Uuid job1 = job_Uuid job"
  have a: "?same job1" if "AllocateGPU x m job = (m1, job1, r1)" for m m1 job1 r1
    using that by (auto simp: AllocateGPU_def Let_def split: if_splits prod.splits sum.splits)
  have s: "job_Type (setupGPUEnvironment x job1) = job_Type job1 \<and> job_Uuid (setupGPUEnvironment x job1) = job_Uuid job1" for job1 by (simp add: setupGPUEnvironment_def Let_def)
  have g: "?same job1" if "start_gpu x cfg e1 job = (e2, job1, r1)" for e1 e2 job1 r1
    using that a by (auto simp: start_gpu_def s split: if_splits prod.splits sum.splits option.splits)
  have "?same job1" if "start_steps x cfg e1 job = (e2, job1, r1)" for e1 e2 job1 r1
    using that g by (auto simp: start_steps_def split: prod.splits sum.splits)
  then have "?same job'" using assms by (auto simp: coordinator_StartJob_def Let_def split: if_splits prod.splits sum.splits)
  then show "job_Type job' = job_Type job" "job_Uuid job' = job_Uuid job" by simp_all
qed

lemma executeJob_store:
  assumes "executeJob x cfg job uploads J = (J', r)"
  shows "touches (job_Uuid job) {job_Status job, StatusFailed, StatusRunning} (jl_store J) (jl_store J') \<and> jl_scheduler J' = jl_scheduler J \<and> jl_uuids J' = jl_uuids J"
proof (cases "SetupJobResources x (jc_engine cfg) (jl_engine J) job")
  case (Pair e r0)
  show ?thesis
  proof (cases r0)
    case (Inl err)
    then show ?thesis using assms(1) Pair by (auto simp: executeJob_def)
  next
    case (Inr u)
    let ?S = "{job_Status job, StatusFailed, StatusRunning}" and ?a = "CreateNewJob (x_now x) job (jl_store J)"
    have c: "touches (job_Uuid job) ?S (jl_store J) ?a" using CreateNewJob_touches touches_mono by (metis insertI1 singletonD subsetI)
    obtain e1 job1 r1 where st: "coordinator_StartJob x (jc_engine cfg) e job uploads = (e1, job1, r1)" by (metis prod_cases3)
    note id = start_keeps_job(2) [OF st]
    have u: "touches (job_Uuid job) ?S ?a (UpdateJob now job2 ?a)" if "job_Uuid job2 = job_Uuid job" "job_Status job2 \<in> ?S" for now job2
      using that UpdateJob_touches [of job2 ?a now] touches_mono [of "job_Uuid job" "{job_Status job2}" ?a _ ?S] by simp
    show ?thesis
      using assms(1) Pair Inr st id touches_trans [OF c u]
      by (auto simp: executeJob_def Let_def handleExecutionFailure_def cleanup_of_def updateJobRunning_def split: sum.splits)
  qed
qed

section \<open>What the operations do to the engine\<close>

text \<open>The engine keeps its invariant and no job comes to hold anything; monitors and identifiers stay.\<close>

definition keeps :: "string set \<Rightarrow> joblet \<Rightarrow> joblet \<Rightarrow> bool" where
  "keeps gone J J' \<longleftrightarrow> engine_inv (jl_engine J') \<and> holders (jl_engine J') \<subseteq> holders (jl_engine J) - gone \<and> jl_monitors J' = jl_monitors J"

lemma keeps_refl: "engine_inv (jl_engine J) \<Longrightarrow> jl_engine J' = jl_engine J \<Longrightarrow> jl_monitors J' = jl_monitors J \<Longrightarrow> keeps {} J J'"
  by (simp add: keeps_def)

lemma keeps_trans: "keeps g J1 J2 \<Longrightarrow> keeps h J2 J3 \<Longrightarrow> keeps (g \<union> h) J1 J3"
  by (auto simp: keeps_def)

lemma cleanup_keeps:
  assumes "engine_inv e" "j \<noteq> []" "e_gpus e1 = e_gpus e" "e_net e1 = e_net e" "e_cleanups e1 = e_cleanups e"
  shows "engine_inv (fst (CleanupJob x cfg j e1)) \<and> holders (fst (CleanupJob x cfg j e1)) \<subseteq> holders e - {j}"
proof -
  have "engine_inv e1" "holders e1 = holders e" using assms by (simp_all add: engine_inv_def holders_fields)
  with CleanupJob_frees [of e1 x cfg j] assms(2) show ?thesis by auto
qed

lemma cleanup_of_keeps:
  assumes "engine_inv (jl_engine J)" "job_Uuid job \<noteq> []" "\<not> JobType_IsRuntimeBuild (job_Type job)"
  shows "keeps {job_Uuid job} J (cleanup_of x cfg job J)"
  using cleanup_keeps [OF assms(1,2) refl refl refl] assms(3) by (simp add: cleanup_of_def keeps_def)

lemma cleanup_of_store [simp]: "jl_store (cleanup_of x cfg job J) = jl_store J" "jl_scheduler (cleanup_of x cfg job J) = jl_scheduler J" "jl_monitors (cleanup_of x cfg job J) = jl_monitors J"
  by (simp_all add: cleanup_of_def)

lemma end_process_fields [simp]:
  "e_gpus (end_process b pid j e) = e_gpus e" "e_net (end_process b pid j e) = e_net e" "e_cleanups (end_process b pid j e) = e_cleanups e"
  by (simp_all add: end_process_def)

lemma StopJob_keeps:
  assumes "StopJob x cfg killed u J = (J', r)" "engine_inv (jl_engine J)" "u \<noteq> []"
  shows "keeps {} J J'"
proof (cases "adapter_Job u (jl_store J)")
  case None
  then show ?thesis using assms by (auto simp: StopJob_def keeps_def)
next
  case (Some jb)
  then have nb: "\<not> JobType_IsRuntimeBuild (job_Type jb)" using adapter_Job_stored by fastforce
  have c: "engine_inv (fst (CleanupJob x (jc_engine cfg) u e1)) \<and> holders (fst (CleanupJob x (jc_engine cfg) u e1)) \<subseteq> holders (jl_engine J)"
    if "e1 = jl_engine J \<or> e1 = end_process killed pid u (jl_engine J)" for pid e1
    using cleanup_keeps [OF assms(2,3), of e1 x "jc_engine cfg"] that by auto
  consider "IsScheduled jb" | "\<not> IsScheduled jb" "\<not> IsRunning jb" | "\<not> IsScheduled jb" "IsRunning jb" by blast
  then show ?thesis
  proof cases
    case 1
    obtain s b where "RemoveJob (jl_scheduler J) u = (s, b)" by fastforce
    then show ?thesis using assms(1,2) Some nb 1 c [of "jl_engine J"] by (cases b) (auto simp: StopJob_def Let_def keeps_def)
  next
    case 3
    obtain e r1 where cl: "CleanupJobWithProcess x (jc_engine cfg) killed u (job_Pid jb) (jl_engine J) = (e, r1)" by fastforce
    then have "engine_inv e" "holders e \<subseteq> holders (jl_engine J)"
      using c [of "end_process killed (job_Pid jb) u (jl_engine J)"] by (auto simp: CleanupJobWithProcess_def)
    then show ?thesis using assms(1,2) Some nb 3 cl by (auto simp: StopJob_def Let_def keeps_def split: if_splits)
  qed (use assms(1,2) Some in \<open>simp add: StopJob_def keeps_def\<close>)
qed

lemma DeleteJob_keeps:
  assumes "DeleteJob x ks cfg u J = (J', r)" "engine_inv (jl_engine J)"
  shows "keeps {} J J'"
proof (cases "adapter_Job u (jl_store J)")
  case None
  then show ?thesis using assms by (auto simp: DeleteJob_def keeps_def)
next
  case (Some jb)
  then have nb: "\<not> JobType_IsRuntimeBuild (job_Type jb)" using adapter_Job_stored by fastforce
  have "engine_inv (fst (CleanupJob x (jc_engine cfg) u (jl_engine J))) \<and> holders (fst (CleanupJob x (jc_engine cfg) u (jl_engine J))) \<subseteq> holders (jl_engine J)"
    using CleanupJob_frees [OF assms(2)] by blast
  then show ?thesis using assms Some nb by (auto simp: DeleteJob_def keeps_def cleanup_of_def split: if_splits prod.splits sum.splits)
qed

lemma delete_jobs_keeps:
  "delete_jobs x ks answer cfg js J = (J', n) \<Longrightarrow> engine_inv (jl_engine J) \<Longrightarrow> keeps {} J J'"
proof (induction js arbitrary: J J' n)
  case (Cons job js)
  obtain J1 r where d: "DeleteJob x ks cfg (job_Uuid job) J = (J1, r)" by fastforce
  have k: "keeps {} J J1" using DeleteJob_keeps [OF d Cons.prems(2)] .
  let ?J2 = "J1\<lparr>jl_store := fst (DeleteJobLogs ks answer (job_Uuid job) (jl_store J1))\<rparr>"
  have k2: "keeps {} J ?J2" using k by (simp add: keeps_def)
  have "keeps {} J J'" if "delete_jobs x ks answer cfg js J0 = (J', m)" "keeps {} J J0" for J0 m
    using keeps_trans [OF that(2) Cons.IH [OF that(1)]] that(2) by (simp add: keeps_def)
  moreover have "keeps {} J J" using Cons.prems(2) by (simp add: keeps_def)
  ultimately show ?case using Cons.prems(1) d k k2 by (fastforce simp: Let_def split: if_splits prod.splits sum.splits)
qed (simp add: keeps_def)

lemma orphans_keep:
  "engine_inv e \<Longrightarrow> engine_inv (fst (CleanupOrphanedResources x cfg A es e)) \<and> holders (fst (CleanupOrphanedResources x cfg A es e)) \<subseteq> holders e"
proof (induction es arbitrary: e)
  case (Cons en es)
  obtain j d where en: "en = (j, d)" by fastforce
  have "engine_inv (fst (CleanupJob x cfg j e))" "holders (fst (CleanupJob x cfg j e)) \<subseteq> holders e" using CleanupJob_frees [OF Cons.prems] by blast+
  with Cons.IH [of e] Cons.IH [of "fst (CleanupJob x cfg j e)"] Cons.prems show ?case
    by (auto simp: en Let_def split: prod.splits)
qed simp

lemma delete_jobs_monitors: "delete_jobs x ks ans cfg js J = (J', n) \<Longrightarrow> jl_monitors J' = jl_monitors J"
proof (induction js arbitrary: J J' n)
  case (Cons job js)
  obtain J1 r where d: "DeleteJob x ks cfg (job_Uuid job) J = (J1, r)" by fastforce
  have "jl_monitors J1 = jl_monitors J" using d by (auto simp: DeleteJob_def split: option.splits if_splits prod.splits sum.splits)
  then show ?case using Cons.prems Cons.IH d by (fastforce simp: Let_def split: if_splits prod.splits sum.splits)
qed simp

text \<open>A job that is executed is watched if it has started, and holds nothing if it has not.\<close>

lemma executeJob_engine:
  assumes ex: "executeJob x cfg job uploads J = (J', r)" and ord: "orderly_answers x J" and inv: "engine_inv (jl_engine J)"
    and id: "job_Uuid job \<noteq> []" and nb: "\<not> JobType_IsRuntimeBuild (job_Type job)"
  shows "engine_inv (jl_engine J') \<and>
    (case r of Inl err \<Rightarrow> holders (jl_engine J') \<subseteq> holders (jl_engine J) \<and> jl_monitors J' = jl_monitors J
     | Inr job' \<Rightarrow> holders (jl_engine J') \<subseteq> insert (job_Uuid job) (holders (jl_engine J)) \<and> jl_monitors J' = jl_monitors J @ [job'] \<and>
         job_Uuid job' = job_Uuid job \<and> \<not> JobType_IsRuntimeBuild (job_Type job'))"
proof -
  obtain e r0 where su: "SetupJobResources x (jc_engine cfg) (jl_engine J) job = (e, r0)" by fastforce
  have e: "engine_inv e" "holders e = holders (jl_engine J)" "e_gpus e = e_gpus (jl_engine J)"
    using SetupJobResources_for_job [OF inv, of "[]" x "jc_engine cfg" job] SetupJobResources_fields [of x "jc_engine cfg" "jl_engine J" job] su
    by (simp_all add: for_job_def holders_fields)
  show ?thesis
  proof (cases r0)
    case (Inl err)
    then show ?thesis using ex su e by (auto simp: executeJob_def)
  next
    case (Inr u)
    obtain e1 job1 r1 where st: "coordinator_StartJob x (jc_engine cfg) e job uploads = (e1, job1, r1)" by (metis prod_cases3)
    have F: "for_job (job_Uuid job) e e1" "job_Uuid job1 = job_Uuid job" "job_Type job1 = job_Type job"
      using coordinator_StartJob_for_job [OF e(1) _ st] e(3) ord start_keeps_job [OF st] by (simp_all add: orderly_answers_def)
    show ?thesis
    proof (cases r1)
      case (Inl err)
      let ?J1 = "J\<lparr>jl_store := CreateNewJob (x_now x) job (jl_store J), jl_engine := e1\<rparr>"
      have J': "J' = handleExecutionFailure x cfg job1 ?J1" "is_ok r = False" using ex su \<open>r0 = Inr u\<close> st Inl by (auto simp: executeJob_def Let_def)
      have "keeps {job_Uuid job1} (?J1\<lparr>jl_store := a\<rparr>) (cleanup_of x cfg job2 (?J1\<lparr>jl_store := a\<rparr>))"
        if "job_Uuid job2 = job_Uuid job1" "job_Type job2 = job_Type job1" for a job2
        using cleanup_of_keeps [of "?J1\<lparr>jl_store := a\<rparr>" job2 x cfg] F id nb that by (simp add: for_job_def)
      then have "engine_inv (jl_engine J')" "holders (jl_engine J') \<subseteq> holders e1 - {job_Uuid job}" "jl_monitors J' = jl_monitors J"
        unfolding J'(1) handleExecutionFailure_def Let_def keeps_def using F(2) by simp_all
      then show ?thesis using J'(2) F(1) e(2) by (cases r) (auto simp: for_job_def)
    next
      case (Inr pid)
      then show ?thesis using ex su \<open>r0 = Inr u\<close> st F e nb by (auto simp: executeJob_def Let_def updateJobRunning_def for_job_def)
    qed
  qed
qed

lemma monitorJob_engine:
  assumes "engine_inv (jl_engine J)" "job_Uuid job \<noteq> []" "\<not> JobType_IsRuntimeBuild (job_Type job)"
  shows "engine_inv (jl_engine (monitorJob x cfg w job J)) \<and> holders (jl_engine (monitorJob x cfg w job J)) \<subseteq> holders (jl_engine J) - {job_Uuid job} \<and>
    jl_monitors (monitorJob x cfg w job J) = remove1 job (jl_monitors J) \<and>
    jl_store (monitorJob x cfg w job J) = UpdateJob (x_now x) (final_job (x_now x) w job) (jl_store J)"
proof -
  let ?e = "(jl_engine J)\<lparr>e_procs := (e_procs (jl_engine J))(job_Uuid job := None)\<rparr>"
  have k: "engine_inv (fst (CleanupJob x (jc_engine cfg) (job_Uuid job) e1)) \<and> holders (fst (CleanupJob x (jc_engine cfg) (job_Uuid job) e1)) \<subseteq> holders (jl_engine J) - {job_Uuid job}"
    if "e1 = ?e \<or> e1 = end_process killed pid (job_Uuid job) (jl_engine J)" for e1 killed pid
    using cleanup_keeps [OF assms(1,2), of e1 x "jc_engine cfg"] that by auto
  show ?thesis
    using k [of ?e] k [of "end_process b (job_Pid job) (job_Uuid job) (jl_engine J)" b "job_Pid job" for b] assms(3)
    by (cases w) (simp_all add: monitorJob_def monitor_timeout_def cleanup_of_def CleanupJobWithProcess_def Let_def)
qed

lemma final_job_fields [simp]: "job_Uuid (final_job now w job) = job_Uuid job" "job_Type (final_job now w job) = job_Type job"
  by (cases w; simp add: final_job_def)+

lemma final_job_status: "job_Status (final_job now w job) \<in> {StatusCompleted, StatusFailed, StatusTimeout}"
  by (cases w) (simp_all add: final_job_def)

lemma recover_job_keeps:
  "jl_engine (fst (recover_job cfg job st)) = jl_engine (fst st)" "jl_store (fst (recover_job cfg job st)) = jl_store (fst st)"
  "jl_monitors (fst (recover_job cfg job st)) = jl_monitors (fst st)"
  by (simp_all add: recover_job_def Let_def split: prod.splits)

lemma recover_keeps:
  assumes "RecoverScheduledJobs cfg js J = (J', n, m)"
  shows "jl_engine J' = jl_engine J \<and> jl_store J' = jl_store J \<and> jl_monitors J' = jl_monitors J"
proof -
  have "jl_engine (fst (fold (recover_job cfg) js st)) = jl_engine (fst st) \<and> jl_store (fst (fold (recover_job cfg) js st)) = jl_store (fst st) \<and>
      jl_monitors (fst (fold (recover_job cfg) js st)) = jl_monitors (fst st)" for st
    by (induction js arbitrary: st) (simp_all add: recover_job_keeps)
  from this [of "(J, 0, 0)"] assms show ?thesis by (simp add: RecoverScheduledJobs_def)
qed

section \<open>Every job is executed at most once\<close>

fun is_run :: "string \<Rightarrow> lc_event \<Rightarrow> bool" where
  "is_run u (LStart v ty b) = (v = u \<and> b)"
| "is_run u (LExec v b) = (v = u \<and> b)"
| "is_run u _ = False"

definition runs_of :: "string \<Rightarrow> lc_event list \<Rightarrow> lc_event list" where
  "runs_of u evs = filter (is_run u) evs"

definition canceled :: "lc_event list \<Rightarrow> string set" where
  "canceled evs = {u. LStop u True \<in> set evs}"

lemma lc_history_simps [simp]:
  "started [] = {}" "canceled [] = {}" "runs_of u [] = []"
  "started (evs @ [LStart u ty b]) = insert u (started evs)" "started (evs @ [LExec u b]) = started evs" "started (evs @ [LStop u c]) = started evs" "started (evs @ [LInternal]) = started evs"
  "canceled (evs @ [LStart u ty b]) = canceled evs" "canceled (evs @ [LExec u b]) = canceled evs" "canceled (evs @ [LInternal]) = canceled evs"
  "canceled (evs @ [LStop u c]) = (if c then insert u (canceled evs) else canceled evs)"
  "runs_of u (evs @ [e]) = runs_of u evs @ (if is_run u e then [e] else [])"
  by (auto simp: started_def canceled_def runs_of_def)

text \<open>A stored job has its task; the store is keyed by identifiers.\<close>

definition store_ok :: "string set \<Rightarrow> jobStoreAdapter \<Rightarrow> bool" where
  "store_ok ids a \<longleftrightarrow> (\<forall>k job. stored a k = Some job \<longrightarrow> job_Uuid job = k \<and> k \<in> ids \<and> a_tasks a k \<noteq> None)"

text \<open>A job that was executed is never scheduled again, a cancelled one stays cancelled until it is deleted.\<close>

definition store_inv :: "lc_event list \<Rightarrow> joblet \<Rightarrow> bool" where
  "store_inv evs J \<longleftrightarrow> (\<forall>u \<in> started evs. length u = 36) \<and> store_ok (started evs) (jl_store J) \<and>
     (\<forall>u. length (runs_of u evs) \<le> 1) \<and>
     (\<forall>u. runs_of u evs \<noteq> [] \<longrightarrow> u \<in> started evs \<and> u \<notin> canceled evs \<and> (\<forall>job. stored (jl_store J) u = Some job \<longrightarrow> job_Status job \<noteq> StatusScheduled)) \<and>
     (\<forall>u \<in> canceled evs. u \<in> started evs \<and> (\<forall>job. stored (jl_store J) u = Some job \<longrightarrow> job_Status job = StatusCanceled)) \<and>
     (\<forall>job \<in> set (jl_monitors J). runs_of (job_Uuid job) evs \<noteq> [])"

lemma store_invD:
  assumes "store_inv evs J"
  shows "u \<in> started evs \<Longrightarrow> length u = 36" "store_ok (started evs) (jl_store J)" "length (runs_of u evs) \<le> 1"
    "runs_of u evs \<noteq> [] \<Longrightarrow> u \<in> started evs \<and> u \<notin> canceled evs" "runs_of u evs \<noteq> [] \<Longrightarrow> stored (jl_store J) u = Some job \<Longrightarrow> job_Status job \<noteq> StatusScheduled"
    "u \<in> canceled evs \<Longrightarrow> u \<in> started evs" "u \<in> canceled evs \<Longrightarrow> stored (jl_store J) u = Some job \<Longrightarrow> job_Status job = StatusCanceled"
    "job1 \<in> set (jl_monitors J) \<Longrightarrow> runs_of (job_Uuid job1) evs \<noteq> []"
  using assms unfolding store_inv_def by blast+

text \<open>What a step has to keep, and the steps that execute and cancel nothing: entries disappear, or the entry of a job that was not cancelled gets a status that is not \<open>SCHEDULED\<close>.\<close>

lemma store_inv_extend:
  assumes inv: "store_inv evs J" and ok: "store_ok (started (evs @ [e])) (jl_store J')"
    and started: "started evs \<subseteq> started (evs @ [e])" "\<And>v. v \<in> started (evs @ [e]) \<Longrightarrow> length v = 36" and canceled: "canceled (evs @ [e]) = canceled evs"
    and run: "\<And>v. is_run v e \<Longrightarrow> runs_of v evs = [] \<and> v \<notin> canceled evs \<and> v \<in> started (evs @ [e])"
    and mon: "\<And>job. job \<in> set (jl_monitors J') \<Longrightarrow> job \<in> set (jl_monitors J) \<or> is_run (job_Uuid job) e"
    and st: "\<And>v job. stored (jl_store J') v = Some job \<Longrightarrow> stored (jl_store J) v = Some job \<and> \<not> is_run v e \<or> v \<notin> canceled evs \<and> (runs_of v (evs @ [e]) \<noteq> [] \<longrightarrow> job_Status job \<noteq> StatusScheduled)"
  shows "store_inv (evs @ [e]) J'"
proof -
  note D = store_invD [OF inv]
  have "length (runs_of v (evs @ [e])) \<le> 1" for v using D(3) [of v] run [of v] by auto
  moreover have "v \<in> started (evs @ [e]) \<and> v \<notin> canceled evs" if "runs_of v (evs @ [e]) \<noteq> []" for v
    using that D(4) [of v] run [of v] started(1) by (auto split: if_splits)
  moreover have "job_Status job \<noteq> StatusScheduled" if "runs_of v (evs @ [e]) \<noteq> []" "stored (jl_store J') v = Some job" for v job
    using that D(5) [of v job] st [OF that(2)] by (auto split: if_splits)
  moreover have "v \<in> started (evs @ [e]) \<and> (\<forall>job. stored (jl_store J') v = Some job \<longrightarrow> job_Status job = StatusCanceled)" if "v \<in> canceled evs" for v
    using that D(6,7) [of v] started(1) st [of v] by blast
  moreover have "runs_of (job_Uuid job) (evs @ [e]) \<noteq> []" if "job \<in> set (jl_monitors J')" for job
    using mon [OF that] D(8) [of job] by auto
  ultimately show ?thesis unfolding store_inv_def canceled using ok started(2) by blast
qed

lemma store_inv_quiet:
  assumes inv: "store_inv evs J" and ok: "store_ok (started evs) (jl_store J')" and mon: "set (jl_monitors J') \<subseteq> set (jl_monitors J)"
    and ev: "started (evs @ [e]) = started evs" "canceled (evs @ [e]) = canceled evs" "\<And>v. \<not> is_run v e"
    and st: "\<And>v job. stored (jl_store J') v = Some job \<Longrightarrow> stored (jl_store J) v = Some job \<or> v \<notin> canceled evs \<and> job_Status job \<noteq> StatusScheduled"
  shows "store_inv (evs @ [e]) J'"
  by (rule store_inv_extend [OF inv]) (use ok mon ev store_invD(1) [OF inv] in \<open>auto dest: st\<close>)

lemma touches_quiet:
  assumes "store_inv evs J" "touches u S (jl_store J) (jl_store J')" "u \<notin> canceled evs" "StatusScheduled \<notin> S" "stored (jl_store J') v = Some job"
  shows "stored (jl_store J) v = Some job \<or> v \<notin> canceled evs \<and> job_Status job \<noteq> StatusScheduled"
  using assms unfolding touches_def by (cases "v = u") auto

text \<open>The store stays keyed and every stored job keeps its task.\<close>

lemma store_ok_create: "store_ok ids a \<Longrightarrow> job_Uuid job \<in> ids \<Longrightarrow> store_ok ids (CreateNewJob now job a)"
  by (auto simp: store_ok_def CreateNewJob_def SimpleJobStore_Create_def GetBuffer_def Let_def split: option.splits if_splits)

lemma store_ok_update: "store_ok ids a \<Longrightarrow> job_Uuid job \<in> ids \<Longrightarrow> store_ok ids (UpdateJob now job a)"
  by (auto simp: store_ok_def UpdateJob_def SimpleJobStore_Update_def Let_def split: option.splits if_splits)

lemma store_ok_mono: "store_ok ids a \<Longrightarrow> ids \<subseteq> ids' \<Longrightarrow> store_ok ids' a"
  unfolding store_ok_def by blast

lemma adapter_DeleteJob_shape:
  assumes "adapter_DeleteJob ks now u a = (a', r)"
  shows "stored a' = stored a \<and> a_tasks a' = a_tasks a \<or> (\<exists>v. stored a' = (stored a)(v := None) \<and> dom (a_tasks a') = dom (a_tasks a))"
proof -
  have c: "stored (cleanupTaskWrapper v a) = stored a" "dom (a_tasks (cleanupTaskWrapper v a)) = dom (a_tasks a)" for v
    by (auto simp: cleanupTaskWrapper_def split: option.splits if_splits)
  have d: "stored (publishJobEvent t v m now (start_state_op op ((cleanupTaskWrapper v a)\<lparr>a_jobStore := SimpleJobStore_Delete (a_jobStore (cleanupTaskWrapper v a)) v\<rparr>))) = (stored a)(v := None) \<and>
      dom (a_tasks (publishJobEvent t v m now (start_state_op op ((cleanupTaskWrapper v a)\<lparr>a_jobStore := SimpleJobStore_Delete (a_jobStore (cleanupTaskWrapper v a)) v\<rparr>)))) = dom (a_tasks a)" for t v m op
    by (simp add: publishJobEvent_def SimpleJobStore_Delete_def c)
  show ?thesis using assms d unfolding adapter_DeleteJob_def Let_def
    by (auto split: sum.splits prod.splits simp del: dom_def) blast+
qed

lemma store_ok_delete: "adapter_DeleteJob ks now u a = (a', r) \<Longrightarrow> store_ok ids a \<Longrightarrow> store_ok ids a'"
  by (drule adapter_DeleteJob_shape) (auto simp: store_ok_def dom_def split: if_splits)

lemma store_ok_write: "store_ok ids a \<Longrightarrow> store_ok ids (fst (OutputWriter_Write ks now u p a))"
  and write_stored: "stored (fst (OutputWriter_Write ks now u p a)) = stored a"
  by (auto simp: store_ok_def OutputWriter_Write_def WriteToBuffer_def Let_def split: option.splits sum.splits)

lemma executeJob_store_ok:
  assumes "executeJob x cfg job uploads J = (J', r)" "store_ok ids (jl_store J)" "job_Uuid job \<in> ids"
  shows "store_ok ids (jl_store J')"
proof -
  obtain e r0 where su: "SetupJobResources x (jc_engine cfg) (jl_engine J) job = (e, r0)" by fastforce
  obtain e1 job1 r1 where st: "coordinator_StartJob x (jc_engine cfg) e job uploads = (e1, job1, r1)" by (metis prod_cases3)
  note id = start_keeps_job(2) [OF st]
  have c: "store_ok ids (CreateNewJob (x_now x) job (jl_store J))" using assms(2,3) by (rule store_ok_create)
  have "store_ok ids (UpdateJob now job2 (CreateNewJob (x_now x) job (jl_store J)))" if "job_Uuid job2 = job_Uuid job1" for now job2
    using c assms(3) id that by (simp add: store_ok_update)
  then show ?thesis using assms(1,2) su st
    by (auto simp: executeJob_def Let_def handleExecutionFailure_def updateJobRunning_def split: sum.splits)
qed

lemma scheduleJob_effect:
  assumes "scheduleJob out cfg job req J = (J', r)"
  shows "touches (job_Uuid job) {StatusScheduled} (jl_store J) (jl_store J') \<and> jl_monitors J' = jl_monitors J \<and>
    e_gpus (jl_engine J') = e_gpus (jl_engine J) \<and> e_net (jl_engine J') = e_net (jl_engine J) \<and> e_cleanups (jl_engine J') = e_cleanups (jl_engine J) \<and>
    (store_ok ids (jl_store J) \<and> job_Uuid job \<in> ids \<longrightarrow> store_ok ids (jl_store J'))"
proof (cases "o_parseTime out (br_Schedule req)")
  case None
  then show ?thesis using assms by (auto simp: scheduleJob_def)
next
  case (Some t)
  let ?job = "job\<lparr>job_ScheduledTime := Some t, job_Status := StatusScheduled\<rparr>"
  obtain e r0 where p: "(if length (br_Uploads req) > 0 then PrepareScheduledJobUploads (o_calls out) (jc_engine cfg) (jl_engine J) ?job (br_Uploads req) else (jl_engine J, Inr ())) = (e, r0)"
    by fastforce
  then have e: "e_gpus e = e_gpus (jl_engine J) \<and> e_net e = e_net (jl_engine J) \<and> e_cleanups e = e_cleanups (jl_engine J)"
    by (auto simp: PrepareScheduledJobUploads_def createCgroup_def CleanupCgroup_def Let_def split: if_splits sum.splits cgroup_answer.splits)
  show ?thesis using assms Some p e CreateNewJob_touches [of ?job "jl_store J" "x_now (o_calls out)"] store_ok_create [of ids "jl_store J" ?job]
    by (cases r0) (auto simp: scheduleJob_def Let_def)
qed

lemma StartJob_cases:
  assumes "StartJob out cfg req J = Some (J', r)" "Building.Next (o_kernel out) (jl_uuids J) = (g, Some u)"
  shows "jl_store J' = jl_store J \<and> jl_engine J' = jl_engine J \<and> jl_monitors J' = jl_monitors J \<or>
    (\<exists>job breq. job_Uuid job = u \<and> job_Type job = sr_JobType req \<and> job_Status job = StatusInitializing \<and>
      (if sr_Schedule req = [] then executeJob (o_calls out) cfg job (sr_Uploads req) (J\<lparr>jl_uuids := g\<rparr>) = (J', r)
       else scheduleJob out cfg job breq (J\<lparr>jl_uuids := g\<rparr>) = (J', r)))"
proof -
  have b: "g1 = g \<and> job_Uuid job = u \<and> job_Type job = br_JobType q \<and> job_Status job = StatusInitializing"
    if "Build f n (o_kernel out) ks1 ks2 c q (jl_uuids J) = (g1, Some (Inr job))" for f n ks1 ks2 c q g1 job
    using that assms(2) by (auto simp: Build_def Let_def determineJobType_def zero_job_def split: sum.splits option.splits if_splits)
  show ?thesis using assms(1) b
    by (fastforce simp: StartJob_def Let_def build_request_def split: option.splits if_splits prod.splits sum.splits)
qed

lemma Next_length: "Building.Next k g = (g', Some u) \<Longrightarrow> full_read k \<Longrightarrow> length u = 36"
  using format_uuid_shape
  by (auto simp: Building.Next_def generateKernelUUID_def generateUrandomUUID_def readKernelUUID_def full_read_def set_version_def Let_def
      split: sum.splits option.splits if_splits prod.splits)

text \<open>Deleting: entries only disappear.\<close>

definition shrinks :: "jobStoreAdapter \<Rightarrow> jobStoreAdapter \<Rightarrow> bool" where
  "shrinks a a' \<longleftrightarrow> (\<forall>v job. stored a' v = Some job \<longrightarrow> stored a v = Some job)"

lemma shrinks_refl [simp]: "shrinks a a" and shrinks_trans: "shrinks a b \<Longrightarrow> shrinks b c \<Longrightarrow> shrinks a c"
  by (auto simp: shrinks_def)

lemma DeleteJob_store:
  assumes "DeleteJob x ks cfg u J = (J', r)" "store_ok ids (jl_store J)"
  shows "shrinks (jl_store J) (jl_store J') \<and> store_ok ids (jl_store J') \<and> (r = Inr () \<and> length u = 36 \<longrightarrow> stored (jl_store J') u = None)"
proof (cases "adapter_DeleteJob ks (x_now x) u (jl_store J)")
  case (Pair a r0)
  have sh: "shrinks (jl_store J) a" using adapter_DeleteJob_shape [OF Pair] by (auto simp: shrinks_def split: if_splits)
  have gone: "stored a u = None" if "r0 = Inr ()" "length u = 36"
    using that Pair
    by (auto simp: adapter_DeleteJob_def validateAndResolveJob_def resolveJobUuid_def resolve_full publishJobEvent_def SimpleJobStore_Delete_def Let_def
        split: sum.splits option.splits)
  show ?thesis using assms Pair sh gone store_ok_delete [OF Pair assms(2)]
    by (auto simp: DeleteJob_def split: option.splits if_splits sum.splits)
qed

lemma DeleteJobLogs_store:
  assumes "store_ok ids a" "length u = 36" "stored a u = None"
  shows "store_ok ids (fst (DeleteJobLogs ks ans u a)) \<and> stored (fst (DeleteJobLogs ks ans u a)) = stored a"
  using assms
  by (auto simp: DeleteJobLogs_def ensureNotClosed_def resolveJobUuid_def resolve_full completeTaskCleanup_def store_ok_def split: option.splits)

lemma delete_jobs_store:
  assumes "delete_jobs x ks ans cfg js J = (J', n)" "store_ok ids (jl_store J)" "\<forall>job \<in> set js. length (job_Uuid job) = 36"
  shows "shrinks (jl_store J) (jl_store J') \<and> store_ok ids (jl_store J')"
  using assms
proof (induction js arbitrary: J J' n)
  case (Cons job js)
  show ?case
  proof (cases "IsRunning job \<or> IsScheduled job")
    case True
    then show ?thesis using Cons by (fastforce simp: Let_def split: prod.splits)
  next
    case False
    obtain J1 r where d: "DeleteJob x ks cfg (job_Uuid job) J = (J1, r)" by fastforce
    note D = DeleteJob_store [OF d Cons.prems(2)]
    let ?J2 = "case r of Inl _ \<Rightarrow> J1 | Inr _ \<Rightarrow> J1\<lparr>jl_store := fst (DeleteJobLogs ks ans (job_Uuid job) (jl_store J1))\<rparr>"
    have 2: "shrinks (jl_store J) (jl_store ?J2)" "store_ok ids (jl_store ?J2)"
      using D DeleteJobLogs_store [of ids "jl_store J1" "job_Uuid job" ks ans] Cons.prems(3) by (auto simp: shrinks_def split: sum.splits)
    obtain m where "delete_jobs x ks ans cfg js ?J2 = (J', m)"
      using Cons.prems(1) False d by (auto simp: Let_def split: sum.splits prod.splits)
    from Cons.IH [OF this 2(2)] Cons.prems(3) 2(1) shrinks_trans show ?thesis by auto
  qed
qed simp

lemma ListJobs_ids: "store_ok ids a \<Longrightarrow> job \<in> set (ListJobs ks a) \<Longrightarrow> job_Uuid job \<in> ids"
  by (auto simp: ListJobs_def SimpleJobStore_List_def range_vals_def List.map_filter_def store_ok_def split: option.splits if_splits)

text \<open>A stop that is recorded as a cancellation leaves the job cancelled; any other stop touches a running job only.\<close>

lemma StopJob_store:
  assumes "StopJob x cfg killed u J = (J', r)" "store_ok ids (jl_store J)"
  shows "store_ok ids (jl_store J') \<and> (\<forall>v. v \<noteq> u \<longrightarrow> stored (jl_store J') v = stored (jl_store J) v) \<and>
    (if scheduled_in (jl_store J) u \<and> r = Inr () then \<exists>job. stored (jl_store J') u = Some job \<and> job_Status job = StatusCanceled
     else stored (jl_store J') u = stored (jl_store J) u \<or>
       (\<exists>old job. stored (jl_store J) u = Some old \<and> job_Status old = StatusRunning \<and> stored (jl_store J') u = Some job \<and> job_Status job = StatusStopped))"
proof (cases "adapter_Job u (jl_store J)")
  case None
  then show ?thesis using assms by (auto simp: StopJob_def scheduled_in_def)
next
  case (Some jb)
  then obtain job where job: "\<not> a_closed (jl_store J)" "stored (jl_store J) u = Some job" "jb = DeepCopy job" using adapter_Job_stored by blast
  then have id: "job_Uuid jb = u" "u \<in> ids" "a_tasks (jl_store J) u \<noteq> None" using assms(2) by (auto simp: store_ok_def)
  have sched: "scheduled_in (jl_store J) u \<longleftrightarrow> IsScheduled jb" by (simp add: scheduled_in_def Some IsScheduled_def)
  have up: "store_ok ids (UpdateJob n (jb\<lparr>job_Status := st\<rparr>) (jl_store J))" "stored (UpdateJob n (jb\<lparr>job_Status := st\<rparr>) (jl_store J)) = (stored (jl_store J))(u \<mapsto> jb\<lparr>job_Status := st\<rparr>)" for n st
    using store_ok_update [OF assms(2), of "jb\<lparr>job_Status := st\<rparr>"] id job(1) by (auto simp: UpdateJob_stored)
  have nb: "\<not> JobType_IsRuntimeBuild (job_Type jb)" using job(3) by simp
  consider "IsScheduled jb" | "\<not> IsScheduled jb" "\<not> IsRunning jb" | "\<not> IsScheduled jb" "IsRunning jb" by blast
  then show ?thesis
  proof cases
    case 1
    obtain s b where "RemoveJob (jl_scheduler J) u = (s, b)" by fastforce
    then show ?thesis using assms Some nb 1 sched up by (cases b) (auto simp: StopJob_def Let_def)
  next
    case 3
    then have "job_Status job = StatusRunning" using job(3) by (simp add: IsRunning_def)
    then show ?thesis using assms(1) Some nb 3 sched up job(2) by (auto simp: StopJob_def Let_def split: if_splits prod.splits)
  qed (use assms Some sched in \<open>simp add: StopJob_def\<close>)
qed

lemma monitorJob_store [simp]:
  "jl_store (monitorJob x cfg w job J) = UpdateJob (x_now x) (final_job (x_now x) w job) (jl_store J)"
  "jl_monitors (monitorJob x cfg w job J) = remove1 job (jl_monitors J)"
  by (cases w; simp add: monitorJob_def monitor_timeout_def Let_def)+

lemma executeJob_monitors:
  assumes "executeJob x cfg job uploads J = (J', r)"
  shows "(case r of Inl err \<Rightarrow> jl_monitors J' = jl_monitors J | Inr job' \<Rightarrow> jl_monitors J' = jl_monitors J @ [job'] \<and> job_Uuid job' = job_Uuid job)"
proof -
  obtain e r0 where su: "SetupJobResources x (jc_engine cfg) (jl_engine J) job = (e, r0)" by fastforce
  obtain e1 job1 r1 where st: "coordinator_StartJob x (jc_engine cfg) e job uploads = (e1, job1, r1)" by (metis prod_cases3)
  show ?thesis using assms su st start_keeps_job(2) [OF st]
    by (auto simp: executeJob_def handleExecutionFailure_def updateJobRunning_def Let_def split: sum.splits)
qed

text \<open>Running a job of the history: its entry, if there is one, is not scheduled any more.\<close>

lemma store_inv_run:
  assumes inv: "store_inv evs J" and ex: "executeJob x cfg job uploads J1 = (J', r)"
    and J1: "\<And>v. v \<noteq> job_Uuid job \<Longrightarrow> stored (jl_store J1) v = stored (jl_store J) v" "jl_monitors J1 = jl_monitors J" "store_ok (started (evs @ [e])) (jl_store J1)"
      "\<And>job1. stored (jl_store J1) (job_Uuid job) = Some job1 \<Longrightarrow> job_Status job1 \<noteq> StatusScheduled"
    and job: "job_Status job = StatusInitializing" "runs_of (job_Uuid job) evs = []" "job_Uuid job \<notin> canceled evs" "job_Uuid job \<in> started (evs @ [e])"
    and ev: "started evs \<subseteq> started (evs @ [e])" "\<And>v. v \<in> started (evs @ [e]) \<Longrightarrow> length v = 36" "canceled (evs @ [e]) = canceled evs"
      "\<And>v. is_run v e \<longleftrightarrow> v = job_Uuid job"
  shows "store_inv (evs @ [e]) J'"
proof (rule store_inv_extend [OF inv])
  have T: "touches (job_Uuid job) {StatusInitializing, StatusFailed, StatusRunning} (jl_store J1) (jl_store J')" using executeJob_store [OF ex] job(1) by simp
  show "store_ok (started (evs @ [e])) (jl_store J')" using executeJob_store_ok [OF ex J1(3) job(4)] .
  show "runs_of v evs = [] \<and> v \<notin> canceled evs \<and> v \<in> started (evs @ [e])" if "is_run v e" for v using that ev(4) job by simp
  show "job' \<in> set (jl_monitors J) \<or> is_run (job_Uuid job') e" if "job' \<in> set (jl_monitors J')" for job'
    using that executeJob_monitors [OF ex] J1(2) ev(4) by (auto split: sum.splits)
  show "stored (jl_store J) v = Some job' \<and> \<not> is_run v e \<or> v \<notin> canceled evs \<and> (runs_of v (evs @ [e]) \<noteq> [] \<longrightarrow> job_Status job' \<noteq> StatusScheduled)"
    if "stored (jl_store J') v = Some job'" for v job'
  proof (cases "v = job_Uuid job")
    case True
    then have "stored (jl_store J1) (job_Uuid job) = Some job' \<or> job_Status job' \<in> {StatusInitializing, StatusFailed, StatusRunning}"
      using that T unfolding touches_def by (metis option.distinct(1) option.inject)
    then have "job_Status job' \<noteq> StatusScheduled" using J1(4) by (auto simp: status_neq)
    then show ?thesis using True job(3) by simp
  next
    case False
    then show ?thesis using that T J1(1) ev(4) unfolding touches_def by metis
  qed
next
  show "length v = 36" if "v \<in> started (evs @ [e])" for v using ev(2) that .
qed (fact ev)+

lemma store_inv_start:
  assumes inv: "store_inv evs J" and u: "u \<notin> started evs" and k: "full_read (o_kernel out)" "Building.Next (o_kernel out) (jl_uuids J) = (g, Some u)"
    and st: "StartJob out cfg req J = Some (J', r)"
  shows "store_inv (evs @ [LStart u (sr_JobType req) (sr_Schedule req = [])]) J'"
proof -
  let ?e = "LStart u (sr_JobType req) (sr_Schedule req = [])" and ?J = "J\<lparr>jl_uuids := g\<rparr>"
  note D = store_invD [OF inv]
  have ok: "store_ok (started (evs @ [?e])) (jl_store J)" using store_ok_mono [OF D(2)] by auto
  have none: "stored (jl_store J) u = None" using D(2) u unfolding store_ok_def by (metis not_None_eq)
  have new: "runs_of u evs = []" "u \<notin> canceled evs" using D(4,6) u by blast+
  have len: "length v = 36" if "v \<in> started (evs @ [?e])" for v using that D(1) Next_length [OF k(2,1)] by auto
  from StartJob_cases [OF st k(2)] show ?thesis
  proof (elim disjE exE conjE)
    assume "jl_store J' = jl_store J" "jl_monitors J' = jl_monitors J"
    then show ?thesis by (intro store_inv_extend [OF inv]) (use ok len new none in auto)
  next
    fix job breq
    assume job: "job_Uuid job = u" "job_Status job = StatusInitializing"
      and go: "if sr_Schedule req = [] then executeJob (o_calls out) cfg job (sr_Uploads req) ?J = (J', r) else scheduleJob out cfg job breq ?J = (J', r)"
    show ?thesis
    proof (cases "sr_Schedule req = []")
      case True
      show ?thesis by (rule store_inv_run [OF inv, of "o_calls out" cfg job "sr_Uploads req" ?J]) (use True go ok len new none job in auto)
    next
      case False
      have E: "touches u {StatusScheduled} (jl_store J) (jl_store J')" "jl_monitors J' = jl_monitors J" "store_ok (started (evs @ [?e])) (jl_store J')"
        using scheduleJob_effect [of out cfg job breq ?J J' r] go False ok job by auto
      have "stored (jl_store J) v = Some job' \<or> v = u" if "stored (jl_store J') v = Some job'" for v job' using that E(1) unfolding touches_def by metis
      then show ?thesis by (intro store_inv_extend [OF inv E(3)]) (use E(2) False len new in auto)
    qed
  qed
qed

lemma store_inv_exec:
  assumes inv: "store_inv evs J" and ex: "executeScheduledJob x cfg j (J\<lparr>jl_scheduler := s\<rparr>) = (J', r)"
  shows "store_inv (evs @ [LExec (job_Uuid j) (scheduled_in (jl_store J) (job_Uuid j))]) J'"
proof (cases "scheduled_in (jl_store J) (job_Uuid j)")
  case False
  then have "J' = J\<lparr>jl_scheduler := s\<rparr>" using ex by (auto simp: executeScheduledJob_def scheduled_in_def split: option.splits if_splits)
  then show ?thesis by (intro store_inv_quiet [OF inv]) (use False store_invD(2) [OF inv] in auto)
next
  case True
  note D = store_invD [OF inv]
  let ?e = "LExec (job_Uuid j) True" and ?u = "job_Uuid j"
  obtain job where job: "\<not> a_closed (jl_store J)" "stored (jl_store J) ?u = Some job" "job_Status job = StatusScheduled" using True scheduled_in_stored by blast
  let ?fresh = "DeepCopy job\<lparr>job_Status := StatusInitializing\<rparr>"
  let ?J1 = "J\<lparr>jl_scheduler := s, jl_store := UpdateJob (x_now x) ?fresh (jl_store J)\<rparr>"
  have id: "job_Uuid ?fresh = ?u" "?u \<in> started evs" "a_tasks (jl_store J) ?u \<noteq> None" using D(2) job(2) by (auto simp: store_ok_def)
  have st1: "stored (jl_store ?J1) = (stored (jl_store J))(?u \<mapsto> ?fresh)" using id job(1) by (auto simp: UpdateJob_stored)
  obtain r' where go: "executeJob x cfg ?fresh [] ?J1 = (J', r')"
    using ex job by (auto simp: executeScheduledJob_def adapter_Job_def SimpleJobStore_Get_def Let_def split: prod.splits sum.splits)
  have new: "runs_of ?u evs = []" "?u \<notin> canceled evs" using D(5) [OF _ job(2)] D(7) [OF _ job(2)] job(3) by (auto simp: status_defs)
  have "store_inv (evs @ [?e]) J'"
    by (rule store_inv_run [OF inv go]) (use st1 id new D(1) store_ok_update [OF D(2), of ?fresh] in auto)
  then show ?thesis using True by simp
qed

lemma store_inv_stop:
  assumes inv: "store_inv evs J" and st: "StopJob x cfg killed u J = (J', r)"
  shows "store_inv (evs @ [LStop u (scheduled_in (jl_store J) u \<and> r = Inr ())]) J'"
proof -
  note D = store_invD [OF inv] and S = StopJob_store [OF st store_invD(2) [OF inv]]
  have mon: "jl_monitors J' = jl_monitors J" using st by (auto simp: StopJob_def Let_def split: option.splits if_splits prod.splits)
  show ?thesis
  proof (cases "scheduled_in (jl_store J) u \<and> r = Inr ()")
    case True
    then obtain job where job: "stored (jl_store J) u = Some job" "job_Status job = StatusScheduled" using scheduled_in_stored by blast
    have new: "u \<in> started evs" "runs_of u evs = []" using D(2,5) job unfolding store_ok_def by (blast, metis)
    let ?e = "LStop u True"
    have "\<exists>job. stored (jl_store J') u = Some job \<and> job_Status job = StatusCanceled" using S unfolding if_P [OF True] by blast
    then obtain job' where job': "stored (jl_store J') u = Some job'" "job_Status job' = StatusCanceled" by blast
    have stored': "stored (jl_store J') v = stored (jl_store J) v \<and> v \<noteq> u \<or> v = u \<and> stored (jl_store J') v = Some job'" for v
      using conjunct1 [OF conjunct2 [OF S], rule_format, of v] job'(1) by (cases "v = u") simp_all
    have ev: "started (evs @ [?e]) = started evs" "canceled (evs @ [?e]) = insert u (canceled evs)" "runs_of v (evs @ [?e]) = runs_of v evs" for v by simp_all
    have "v \<in> started evs \<and> v \<notin> insert u (canceled evs) \<and> (\<forall>jb. stored (jl_store J') v = Some jb \<longrightarrow> job_Status jb \<noteq> StatusScheduled)" if "runs_of v evs \<noteq> []" for v
      using D(4,5) [OF that] new(2) stored' [of v] that by auto
    moreover have "v \<in> started evs \<and> (\<forall>jb. stored (jl_store J') v = Some jb \<longrightarrow> job_Status jb = StatusCanceled)" if "v \<in> insert u (canceled evs)" for v
      using D(6,7) [of v] new(1) stored' [of v] job'(2) that by auto
    moreover have "store_ok (started evs) (jl_store J')" by (rule conjunct1 [OF S])
    ultimately have "store_inv (evs @ [?e]) J'" unfolding store_inv_def ev mon using D(1,3,8) by blast
    then show ?thesis using True by simp
  next
    case False
    have c: "u \<notin> canceled evs" if "stored (jl_store J) u = Some old" "job_Status old = StatusRunning" for old
      using D(7) [OF _ that(1)] that(2) by (auto simp: status_defs)
    have "stored (jl_store J) v = Some job \<or> v \<notin> canceled evs \<and> job_Status job \<noteq> StatusScheduled" if "stored (jl_store J') v = Some job" for v job
      using that S False c by (cases "v = u") auto
    then show ?thesis by (intro store_inv_quiet [OF inv]) (use S mon False in auto)
  qed
qed

lemma store_inv_step:
  assumes "joblet_step cfg J e J'" "store_inv evs J" "\<forall>u ty b. e = LStart u ty b \<longrightarrow> u \<notin> started evs"
  shows "store_inv (evs @ [e]) J'"
  using assms(1)
proof cases
  case (start out g u req r)
  then show ?thesis using store_inv_start [OF assms(2)] assms(3) by simp
next
  case (exec x j t s r)
  then show ?thesis using store_inv_exec [OF assms(2)] by simp
next
  case (sched ev s)
  then show ?thesis by (intro store_inv_quiet [OF assms(2)]) (use store_invD(2) [OF assms(2)] in auto)
next
  case (stop x killed u r)
  then show ?thesis using store_inv_stop [OF assms(2)] by simp
next
  case (delete x ks u r)
  moreover have "jl_monitors J' = jl_monitors J" using delete(2) by (auto simp: DeleteJob_def split: option.splits if_splits prod.splits sum.splits)
  ultimately show ?thesis using DeleteJob_store [OF delete(2) store_invD(2) [OF assms(2)]]
    by (intro store_inv_quiet [OF assms(2)]) (auto simp: shrinks_def)
next
  case (delete_all x ks answer r)
  let ?js = "ListJobs ks (jl_store J)"
  obtain n where n: "delete_jobs x ks answer cfg ?js J = (J', n)" using delete_all(2) by (auto simp: DeleteAllJobs_def Let_def split: prod.splits)
  have "\<forall>job \<in> set ?js. length (job_Uuid job) = 36" using ListJobs_ids [OF store_invD(2) [OF assms(2)]] store_invD(1) [OF assms(2)] by blast
  note S = delete_jobs_store [OF n store_invD(2) [OF assms(2)] this]
  show ?thesis using S delete_jobs_monitors [OF n] delete_all(1) by (intro store_inv_quiet [OF assms(2)]) (auto simp: shrinks_def)
next
  case (finish job w x)
  have job: "runs_of (job_Uuid job) evs \<noteq> []" using store_invD(8) [OF assms(2) finish(3)] .
  then have c: "job_Uuid job \<in> started evs" "job_Uuid job \<notin> canceled evs" using store_invD(4) [OF assms(2) job] by simp_all
  have T: "touches (job_Uuid job) {job_Status (final_job (x_now x) w job)} (jl_store J) (jl_store J')"
    using UpdateJob_touches [of "final_job (x_now x) w job"] finish(2) by simp
  have neq: "StatusScheduled \<notin> {job_Status (final_job (x_now x) w job)}" using final_job_status [of "x_now x" w job] by (auto simp: status_defs)
  have "set (remove1 job (jl_monitors J)) \<subseteq> set (jl_monitors J)" by (rule set_remove1_subset)
  then show ?thesis using touches_quiet [OF assms(2) T c(2) neq] store_ok_update [OF store_invD(2) [OF assms(2)], of "final_job (x_now x) w job"] c(1) finish
    by (intro store_inv_quiet [OF assms(2)]) auto
next
  case (recover js n m)
  then show ?thesis using recover_keeps [OF recover(2)] by (intro store_inv_quiet [OF assms(2)]) (use store_invD(2) [OF assms(2)] in auto)
next
  case (periodic x ks es)
  then show ?thesis by (intro store_inv_quiet [OF assms(2)]) (use store_invD(2) [OF assms(2)] in \<open>auto simp: periodic_cleanup_def\<close>)
next
  case (emit ks now u p)
  then show ?thesis using store_ok_write [OF store_invD(2) [OF assms(2)]] write_stored by (intro store_inv_quiet [OF assms(2)]) auto
qed

lemma store_inv_run_all:
  assumes "joblet_run cfg J0 evs J" "sjs_jobs (a_jobStore (jl_store J0)) = Map.empty" "jl_monitors J0 = []"
  shows "store_inv evs J"
  using assms(1)
proof (induction rule: joblet_run.induct)
  case run_none
  then show ?case using assms by (simp add: store_inv_def store_ok_def)
qed (rule store_inv_step)

section \<open>Resources follow the jobs\<close>

definition res_inv :: "joblet \<Rightarrow> bool" where
  "res_inv J \<longleftrightarrow> engine_inv (jl_engine J) \<and> holders (jl_engine J) \<subseteq> job_Uuid ` set (jl_monitors J) \<and>
     (\<forall>job \<in> set (jl_monitors J). \<not> JobType_IsRuntimeBuild (job_Type job))"

lemma res_inv_keeps: "res_inv J \<Longrightarrow> keeps gone J J' \<Longrightarrow> res_inv J'"
  unfolding res_inv_def keeps_def by auto

lemma res_inv_same:
  "res_inv J \<Longrightarrow> engine_inv (jl_engine J') \<Longrightarrow> holders (jl_engine J') \<subseteq> holders (jl_engine J) \<Longrightarrow> jl_monitors J' = jl_monitors J \<Longrightarrow> res_inv J'"
  unfolding res_inv_def by auto

lemma res_inv_execute:
  assumes "executeJob x cfg job uploads J = (J', r)" "orderly_answers x J" "res_inv J" "job_Uuid job \<noteq> []" "\<not> JobType_IsRuntimeBuild (job_Type job)"
  shows "res_inv J'"
  using executeJob_engine [OF assms(1,2) _ assms(4,5)] assms(3) unfolding res_inv_def by (cases r) auto

lemma scheduled_exec_shape:
  assumes "executeScheduledJob x cfg j J = (J', r)"
  shows "J' = J \<or> (\<exists>job r'. stored (jl_store J) (job_Uuid j) = Some job \<and>
    executeJob x cfg (DeepCopy job\<lparr>job_Status := StatusInitializing\<rparr>) [] (J\<lparr>jl_store := UpdateJob (x_now x) (DeepCopy job\<lparr>job_Status := StatusInitializing\<rparr>) (jl_store J)\<rparr>) = (J', r'))"
proof (cases "adapter_Job (job_Uuid j) (jl_store J)")
  case (Some jb)
  then obtain job where "stored (jl_store J) (job_Uuid j) = Some job" "jb = DeepCopy job" using adapter_Job_stored by blast
  with assms Some show ?thesis by (auto simp: executeScheduledJob_def Let_def split: if_splits prod.splits sum.splits)
qed (use assms in \<open>simp add: executeScheduledJob_def\<close>)

lemma res_inv_step:
  assumes "joblet_step cfg J e J'" "store_inv evs J" "res_inv J" "\<forall>u b. e \<noteq> LStart u JobTypeRuntimeBuild b"
  shows "res_inv J'"
  using assms(1)
proof cases
  case (start out g u req r)
  have nb: "\<not> JobType_IsRuntimeBuild (sr_JobType req)" using assms(4) start(1) by (auto simp: JobType_IsRuntimeBuild_def)
  have u: "u \<noteq> []" using Next_length [OF start(4,3)] by auto
  have ord: "orderly_answers (o_calls out) (J\<lparr>jl_uuids := g\<rparr>)" using start(2) by (simp add: orderly_answers_def)
  have R: "res_inv (J\<lparr>jl_uuids := g\<rparr>)" using assms(3) by (simp add: res_inv_def)
  from StartJob_cases [OF start(5,4)] show ?thesis
  proof (elim disjE exE conjE)
    assume "jl_engine J' = jl_engine J" "jl_monitors J' = jl_monitors J"
    then show ?thesis using assms(3) by (simp add: res_inv_def)
  next
    fix job breq
    assume job: "job_Uuid job = u" "job_Type job = sr_JobType req"
      and go: "if sr_Schedule req = [] then executeJob (o_calls out) cfg job (sr_Uploads req) (J\<lparr>jl_uuids := g\<rparr>) = (J', r)
        else scheduleJob out cfg job breq (J\<lparr>jl_uuids := g\<rparr>) = (J', r)"
    show ?thesis
    proof (cases "sr_Schedule req = []")
      case True
      then show ?thesis using res_inv_execute [OF _ ord R] go u nb job by simp
    next
      case False
      then have "e_gpus (jl_engine J') = e_gpus (jl_engine J)" "e_net (jl_engine J') = e_net (jl_engine J)" "e_cleanups (jl_engine J') = e_cleanups (jl_engine J)" "jl_monitors J' = jl_monitors J"
        using scheduleJob_effect [of out cfg job breq "J\<lparr>jl_uuids := g\<rparr>" J' r] go by auto
      then show ?thesis using assms(3) by (simp add: res_inv_def engine_inv_def holders_fields)
    qed
  qed
next
  case (exec x j t s r)
  have R: "res_inv (J\<lparr>jl_scheduler := s\<rparr>)" using assms(3) by (simp add: res_inv_def)
  from scheduled_exec_shape [OF exec(4)] show ?thesis
  proof (elim disjE exE conjE)
    fix job r'
    let ?fresh = "DeepCopy job\<lparr>job_Status := StatusInitializing\<rparr>"
    let ?J1 = "J\<lparr>jl_scheduler := s, jl_store := UpdateJob (x_now x) ?fresh (jl_store J)\<rparr>"
    assume "stored (jl_store (J\<lparr>jl_scheduler := s\<rparr>)) (job_Uuid j) = Some job"
      and go: "executeJob x cfg ?fresh [] (J\<lparr>jl_scheduler := s, jl_store := UpdateJob (x_now x) ?fresh (jl_store (J\<lparr>jl_scheduler := s\<rparr>))\<rparr>) = (J', r')"
    then have "job_Uuid ?fresh \<noteq> []" using store_invD(1,2) [OF assms(2)] unfolding store_ok_def by fastforce
    moreover have "res_inv ?J1" "orderly_answers x ?J1" using assms(3) exec(2) by (simp_all add: res_inv_def orderly_answers_def)
    ultimately show ?thesis using res_inv_execute go by simp
  qed (use R in simp)
next
  case (stop x killed u r)
  show ?thesis
  proof (cases "u = []")
    case True
    then have "stored (jl_store J) u = None" using store_invD(1,2) [OF assms(2)] unfolding store_ok_def by (metis list.size(3) not_None_eq zero_neq_numeral)
    then have "J' = J" using stop(2) by (auto simp: StopJob_def adapter_Job_def SimpleJobStore_Get_def split: if_splits)
    then show ?thesis using assms(3) by simp
  qed (use StopJob_keeps [OF stop(2)] res_inv_keeps [OF assms(3)] assms(3) in \<open>simp add: res_inv_def\<close>)
next
  case (delete x ks u r)
  then show ?thesis using DeleteJob_keeps res_inv_keeps assms(3) unfolding res_inv_def by metis
next
  case (delete_all x ks answer r)
  then obtain n where "delete_jobs x ks answer cfg (ListJobs ks (jl_store J)) J = (J', n)" by (auto simp: DeleteAllJobs_def Let_def split: prod.splits)
  then show ?thesis using delete_jobs_keeps res_inv_keeps assms(3) unfolding res_inv_def by metis
next
  case (finish job w x)
  have "length (job_Uuid job) = 36" using store_invD(1,4,8) [OF assms(2)] finish(3) by blast
  then have "job_Uuid job \<noteq> []" by auto
  then have M: "engine_inv (jl_engine J')" "holders (jl_engine J') \<subseteq> holders (jl_engine J) - {job_Uuid job}"
    using monitorJob_engine [of J job x cfg w] assms(3) finish unfolding res_inv_def by auto
  have "job' \<in> set (remove1 job (jl_monitors J))" if "job' \<in> set (jl_monitors J)" "job_Uuid job' \<noteq> job_Uuid job" for job' using that by (metis in_set_remove1)
  then have "holders (jl_engine J') \<subseteq> job_Uuid ` set (remove1 job (jl_monitors J))" using M(2) assms(3) unfolding res_inv_def by blast
  then show ?thesis using M(1) assms(3) finish(2) set_remove1_subset [of job "jl_monitors J"] unfolding res_inv_def by auto
next
  case (periodic x ks es)
  then show ?thesis using orphans_keep [of "jl_engine J"] assms(3) by (intro res_inv_same [OF assms(3)]) (simp_all add: periodic_cleanup_def res_inv_def)
qed (use recover_keeps assms(3) in \<open>auto simp: res_inv_def\<close>)

lemma res_inv_run:
  assumes "joblet_run cfg J0 evs J" "new_joblet J0" "\<forall>u b. LStart u JobTypeRuntimeBuild b \<notin> set evs"
  shows "res_inv J"
  using assms
proof (induction rule: joblet_run.induct)
  case run_none
  then show ?case by (simp add: new_joblet_def res_inv_def)
next
  case (run_more evs J e J')
  then have "store_inv evs J" using store_inv_run_all by (simp add: new_joblet_def)
  moreover have "\<forall>u b. e \<noteq> LStart u JobTypeRuntimeBuild b" "res_inv J" using run_more.prems run_more.IH by auto
  ultimately show ?case using res_inv_step [OF run_more.hyps(2)] by blast
qed

section \<open>A concrete server\<close>

definition example_joblet :: joblet where
  "example_joblet = \<lparr>jl_store = new_adapter True, jl_engine = example_engine, jl_scheduler = Scheduler.New 0, jl_uuids = NewUUIDGenerator [] [], jl_monitors = []\<rparr>"

definition example_jcfg :: joblet_config where
  "example_jcfg = \<lparr>jc_engine = example_cfg, jc_builder = example_builder_config\<lparr>server_NodeId := ''node-1'', cgroup_BaseDir := ''/sys/fs/cgroup/joblet''\<rparr>, jc_JobTimeout = 0\<rparr>"

definition example_outside :: outside where
  "example_outside = \<lparr>o_calls = example_calls\<lparr>x_launch := Some 42\<rparr>, o_done = False, o_frac = (\<lambda>_ _ _. 0), o_kernel = example_kernel, o_envOrder = [], o_secOrder = [],
     o_parseTime = (\<lambda>s. Some 99)\<rparr>"

definition example_request :: StartJobRequest where
  "example_request = \<lparr>sr_Command = ''/bin/echo'', sr_Args = [''a''], sr_MaxCPU = 0, sr_CPUCores = [], sr_MaxMemory = 0, sr_MaxIOBPS = 0, sr_Uploads = [], sr_Schedule = [],
     sr_Network = ''lab'', sr_Volumes = [], sr_Runtime = [], sr_Environment = Map.empty, sr_SecretEnvironment = Map.empty, sr_JobType = JobTypeStandard, sr_WorkingDirectory = [],
     sr_GPUCount = 2, sr_GPUMemoryMB = 0, sr_Timeout = []\<rparr>"

definition example_id :: string where
  "example_id = format_uuid (set_version (replicate 16 255))"

lemma example_started:
  "\<exists>J' job. StartJob example_outside example_jcfg example_request example_joblet = Some (J', Inr job) \<and> jl_monitors J' \<noteq> []"
proof -
  have "case StartJob example_outside example_jcfg example_request example_joblet of Some (J', Inr job) \<Rightarrow> jl_monitors J' \<noteq> [] | _ \<Rightarrow> False" by code_simp
  then show ?thesis by (auto split: option.splits prod.splits sum.splits)
qed

lemma example_run: "\<exists>J. joblet_run example_jcfg example_joblet [LStart example_id JobTypeStandard True] J \<and> jl_monitors J \<noteq> []"
proof -
  obtain J' r where J': "StartJob example_outside example_jcfg example_request example_joblet = Some (J', r)" "jl_monitors J' \<noteq> []"
    using example_started by blast
  have "Building.Next (o_kernel example_outside) (jl_uuids example_joblet) = (\<lparr>fallbackFD_open = True\<rparr>, Some example_id)"
    by (simp add: Building.Next_def generateKernelUUID_def generateUrandomUUID_def readKernelUUID_def example_outside_def example_kernel_def example_joblet_def NewUUIDGenerator_def example_id_def)
  moreover have "orderly_answers (o_calls example_outside) example_joblet" using example_engine_ok(3) by (simp add: orderly_answers_def example_outside_def example_joblet_def example_calls_def)
  moreover have "full_read (o_kernel example_outside)" by (simp add: full_read_def example_outside_def example_kernel_def)
  ultimately have "joblet_step example_jcfg example_joblet (LStart example_id (sr_JobType example_request) (sr_Schedule example_request = [])) J'" using J'(1) by (rule_tac joblet_step.start)
  then have "joblet_step example_jcfg example_joblet (LStart example_id JobTypeStandard True) J'" by (simp add: example_request_def)
  from joblet_run.run_more [OF joblet_run.run_none this] J'(2) show ?thesis by auto
qed

lemma example_new: "new_joblet example_joblet"
  using gpu_reach_inv [OF demo_start_reach] demo_adapter_state
  by (auto simp: new_joblet_def example_joblet_def engine_inv_def gpu_ok_def net_ok_def example_engine_def holders_fields assigned_ok_def new_adapter_def
      demo_start_def Initialize_def NewManager_def Let_def demo_config_def)

section \<open>Properties\<close>





text \<open>The files of a job.\<close>

lemma files_shrink:
  "e_files e \<subseteq>\<^sub>m F \<Longrightarrow> e_files (remove_all p e) \<subseteq>\<^sub>m F" "e_files e \<subseteq>\<^sub>m F \<Longrightarrow> e_files (cleanup x cfg j e) \<subseteq>\<^sub>m F"
  "e_files (CleanupCgroup cfg j e) = e_files e" "e_files (cleanupGPU x j b e) = e_files e"
  by (auto simp: remove_all_def map_le_def CleanupCgroup_def cleanup_def CleanupWorkspace_def cleanupGPU_def split: if_splits)

lemma start_steps_files:
  assumes "start_steps x cfg e job = (e', job', r)"
  shows "e_files e' \<subseteq>\<^sub>m e_files e \<and> (is_ok r \<longrightarrow> e_files e' = e_files e)"
proof -
  have g: "e_files e2 \<subseteq>\<^sub>m e_files e \<and> (is_ok r1 \<longrightarrow> e_files e2 = e_files e)" if "start_gpu x cfg e job = (e2, job1, r1)" for e2 job1 r1
    using that by (auto simp: start_gpu_def files_shrink split: if_splits prod.splits sum.splits option.splits)
  have n: "e_files e2 \<subseteq>\<^sub>m e_files e1 \<and> (is_ok r1 \<longrightarrow> e_files e2 = e_files e1)" if "start_network x cfg gpu e1 job1 = (e2, r1)" for gpu e1 job1 e2 r1
    using that by (auto simp: start_network_def files_shrink split: if_splits prod.splits sum.splits)
  have p: "e_files e2 \<subseteq>\<^sub>m e_files e1 \<and> (is_ok r1 \<longrightarrow> e_files e2 = e_files e1)" if "start_process x cfg gpu al e1 job1 = (e2, r1)" for gpu al e1 job1 e2 r1
    using that by (auto simp: start_process_def files_shrink Let_def split: if_splits option.splits)
  show ?thesis using assms unfolding start_steps_def
    by (auto split: prod.splits sum.splits dest!: g n p intro: map_le_trans)
qed

lemma PrepareWorkspace_no_uploads: "written_files (fst (PrepareWorkspace cwd ok cfg j [])) F = F"
  by (auto simp: PrepareWorkspace_def written_files_def Let_def split: prod.splits sum.splits)

lemma SetupJobResources_files:
  "SetupJobResources x cfg e job = (e', r) \<Longrightarrow> e_files e' \<subseteq>\<^sub>m e_files e \<and> (is_ok r \<longrightarrow> e_files e' = e_files e)"
  by (auto simp: SetupJobResources_def createWorkspace_def createCgroup_def cleanupWorkspace_def cleanupAll_def files_shrink
      split: if_splits prod.splits sum.splits cgroup_answer.splits)

lemma CleanupJob_files: "e_files (fst (CleanupJob x cfg j e)) \<subseteq>\<^sub>m e_files e"
  and SystemOnly_files: "e_files (fst (CleanupJobSystemResourcesOnly x cfg j e)) = e_files e"
proof -
  have d: "e_files e1 \<subseteq>\<^sub>m F \<Longrightarrow> e_files (fst (removeDirectory x p e1)) \<subseteq>\<^sub>m F" for p e1 F by (auto simp: removeDirectory_def files_shrink)
  have r: "e_files (releaseGPUs x j e1) = e_files e1" for e1 by (simp add: releaseGPUs_def)
  have "e_files (fst (cleanupFilesystem x cfg j e1)) \<subseteq>\<^sub>m e_files e1" for e1
    by (auto simp: cleanupFilesystem_def Let_def split_beta intro!: d)
  from this [of "releaseGPUs x j (CleanupCgroup cfg j e)"]
  show "e_files (fst (CleanupJob x cfg j e)) \<subseteq>\<^sub>m e_files e" by (simp add: CleanupJob_def Let_def split_beta r files_shrink)
  show "e_files (fst (CleanupJobSystemResourcesOnly x cfg j e)) = e_files e" by (simp add: CleanupJobSystemResourcesOnly_def r files_shrink)
qed

lemma executeJob_files:
  assumes "executeJob x cfg job uploads J = (J', r)"
  shows "is_ok r \<Longrightarrow> \<exists>ops ws. PrepareWorkspace (x_cwd x) (x_fsOk x) (ec_server (jc_engine cfg)) (job_Uuid job) uploads = (ops, Inr ws) \<and>
      e_files (jl_engine J') = written_files ops (e_files (jl_engine J))"
    and "uploads = [] \<Longrightarrow> e_files (jl_engine J') \<subseteq>\<^sub>m e_files (jl_engine J)"
proof -
  obtain e r0 where su: "SetupJobResources x (jc_engine cfg) (jl_engine J) job = (e, r0)" by fastforce
  obtain e1 job1 r1 where st: "coordinator_StartJob x (jc_engine cfg) e job uploads = (e1, job1, r1)" by (metis prod_cases3)
  obtain ops rw where ws: "PrepareWorkspace (x_cwd x) (x_fsOk x) (ec_server (jc_engine cfg)) (job_Uuid job) uploads = (ops, rw)" by fastforce
  note E = SetupJobResources_files [OF su]
  have ok: "is_ok r1 \<Longrightarrow> (\<exists>w. rw = Inr w) \<and> e_files e1 = written_files ops (e_files e)"
    using st ws start_steps_files by (fastforce simp: coordinator_StartJob_def apply_fs_def Let_def split: if_splits sum.splits)
  have sh: "e_files e1 \<subseteq>\<^sub>m e_files e" if "uploads = []"
  proof -
    have "written_files ops F = F" for F using PrepareWorkspace_no_uploads ws that by (metis fst_conv)
    then show ?thesis using st ws start_steps_files by (fastforce simp: coordinator_StartJob_def apply_fs_def Let_def split: if_splits sum.splits)
  qed
  have c: "jl_engine K = e2 \<Longrightarrow> e_files (jl_engine (cleanup_of x cfg job2 K)) \<subseteq>\<^sub>m e_files e2" for job2 K e2
    by (auto simp: cleanup_of_def CleanupJob_files SystemOnly_files)
  show "\<exists>ops ws. PrepareWorkspace (x_cwd x) (x_fsOk x) (ec_server (jc_engine cfg)) (job_Uuid job) uploads = (ops, Inr ws) \<and>
      e_files (jl_engine J') = written_files ops (e_files (jl_engine J))" if "is_ok r"
    using assms su st ws E ok that by (fastforce simp: executeJob_def updateJobRunning_def Let_def split: sum.splits)
  show "e_files (jl_engine J') \<subseteq>\<^sub>m e_files (jl_engine J)" if "uploads = []"
  proof -
    have "e_files (jl_engine J') \<subseteq>\<^sub>m e_files e1 \<or> e_files (jl_engine J') = e_files e"
      using assms su st by (auto simp: executeJob_def handleExecutionFailure_def updateJobRunning_def Let_def split: sum.splits intro!: c)
    then show ?thesis using sh [OF that] E by (auto intro: map_le_trans)
  qed
qed

lemma scheduleJob_files:
  assumes "scheduleJob out cfg job req J = (J', r)"
  shows "e_files (jl_engine J') \<subseteq>\<^sub>m e_files (jl_engine J)"
proof -
  have p: "e_files e' \<subseteq>\<^sub>m e_files e" if "PrepareScheduledJobUploads x c e jb ups = (e', r')" for x c e jb ups e' r'
    using that by (auto simp: PrepareScheduledJobUploads_def createCgroup_def Let_def files_shrink split: if_splits prod.splits sum.splits cgroup_answer.splits)
  show ?thesis using assms p by (auto simp: scheduleJob_def Let_def split: option.splits if_splits prod.splits sum.splits)
qed

lemma executeScheduledJob_files:
  assumes "executeScheduledJob x cfg j J = (J', r)"
  shows "e_files (jl_engine J') \<subseteq>\<^sub>m e_files (jl_engine J)"
  using scheduled_exec_shape [OF assms] executeJob_files(2) by fastforce

text \<open>
  C14. The files a client uploads with a job reach its workspace only when the job runs at once: then the files of the host afterwards are exactly those before with the uploads written in order.
  Scheduling a job with uploads writes none of them, and neither does executing it when its time has come: whatever the outcome, no file is there that was not there before.
\<close>

theorem uploads_of_scheduled_jobs_are_lost:
  assumes "executeJob x cfg job uploads J = (J', Inr job')" "scheduleJob out cfg jb req K = (K', r)" "executeScheduledJob y cfg j L = (L', s)"
  shows "(\<exists>ops ws. PrepareWorkspace (x_cwd x) (x_fsOk x) (ec_server (jc_engine cfg)) (job_Uuid job) uploads = (ops, Inr ws) \<and>
      e_files (jl_engine J') = written_files ops (e_files (jl_engine J))) \<and>
    e_files (jl_engine K') \<subseteq>\<^sub>m e_files (jl_engine K) \<and> e_files (jl_engine L') \<subseteq>\<^sub>m e_files (jl_engine L)"
  using executeJob_files(1) [OF assms(1)] scheduleJob_files [OF assms(2)] executeScheduledJob_files [OF assms(3)] by simp

definition upload_job :: Job where
  "upload_job = (example_job example_uuid StatusInitializing)\<lparr>job_Command := ''echo'', job_CgroupPath := ''/sys/fs/cgroup/joblet/job-1''\<rparr>"

definition example_upload :: FileUpload where
  "example_upload = \<lparr>fu_Path = ''a'', fu_Content = ''x'', fu_Mode = 0x1A4, fu_IsDirectory = False, fu_Size = 1\<rparr>"

theorem uploads_of_scheduled_jobs_are_lost_witness:
  "\<exists>J' job' ops ws. executeJob (o_calls example_outside) example_jcfg upload_job [example_upload] example_joblet = (J', Inr job') \<and>
     PrepareWorkspace None (\<lambda>x. True) (ec_server example_cfg) example_uuid [example_upload] = (ops, Inr ws) \<and>
     e_files (jl_engine J') = written_files ops (e_files (jl_engine example_joblet)) \<and>
     e_files (jl_engine (fst (executeScheduledJob example_calls example_jcfg upload_job example_joblet))) \<subseteq>\<^sub>m e_files (jl_engine example_joblet)"
proof -
  have "case executeJob (o_calls example_outside) example_jcfg upload_job [example_upload] example_joblet of (J', r) \<Rightarrow> is_ok r" by code_simp
  then obtain J' job' where J': "executeJob (o_calls example_outside) example_jcfg upload_job [example_upload] example_joblet = (J', Inr job')"
    by (auto split: prod.splits sum.splits simp: is_ok_def)
  have c: "x_cwd (o_calls example_outside) = None" "x_fsOk (o_calls example_outside) = (\<lambda>x. True)" "jc_engine example_jcfg = example_cfg" "job_Uuid upload_job = example_uuid"
    by (simp_all add: example_outside_def example_calls_def example_jcfg_def upload_job_def example_job_def)
  obtain L s where L: "executeScheduledJob example_calls example_jcfg upload_job example_joblet = (L, s)" by fastforce
  obtain K r where K: "scheduleJob example_outside example_jcfg upload_job example_build_request example_joblet = (K, r)" by fastforce
  from uploads_of_scheduled_jobs_are_lost [OF J' K L] J' L c show ?thesis by auto
qed

text \<open>
  A scheduled job whose resources cannot be set up when its time has come is left with the status INITIALIZING for good: from then on every attempt to stop it answers that it is not running,
  every attempt to delete it answers that it is running, and every further attempt to execute it answers that it is not scheduled.
\<close>

theorem failed_setup_leaves_job_stuck:
  assumes ex: "executeScheduledJob x cfg j J = (J', Inl (ResourceSetupFailed err))" and ok: "store_ok ids (jl_store J)" and len: "length (job_Uuid j) = 36"
  shows "(\<exists>job. stored (jl_store J') (job_Uuid j) = Some job \<and> job_Status job = StatusInitializing) \<and>
    StopJob y cfg killed (job_Uuid j) J' = (J', Inl (JobNotRunning (job_Uuid j) StatusInitializing)) \<and>
    DeleteJob y ks cfg (job_Uuid j) J' = (J', Inl (DeletionFailed (JobRunning (job_Uuid j) StatusInitializing))) \<and>
    executeScheduledJob y cfg j J' = (J', Inl (JobNotScheduled StatusInitializing))"
proof -
  let ?u = "job_Uuid j"
  obtain jb where jb: "adapter_Job ?u (jl_store J) = Some jb" "job_Status jb = StatusScheduled" using ex by (auto simp: executeScheduledJob_def split: option.splits if_splits)
  then obtain job where job: "\<not> a_closed (jl_store J)" "stored (jl_store J) ?u = Some job" "jb = DeepCopy job" using adapter_Job_stored by blast
  let ?fresh = "jb\<lparr>job_Status := StatusInitializing\<rparr>"
  let ?J1 = "J\<lparr>jl_store := UpdateJob (x_now x) ?fresh (jl_store J)\<rparr>"
  have id: "job_Uuid ?fresh = ?u" "a_tasks (jl_store J) ?u \<noteq> None" using ok job by (auto simp: store_ok_def)
  have go: "executeJob x cfg ?fresh [] ?J1 = (J', Inl (ResourceSetupFailed err))"
    using ex jb by (auto simp: executeScheduledJob_def Let_def split: prod.splits sum.splits)
  have J': "jl_store J' = jl_store ?J1" using go by (auto simp: executeJob_def Let_def split: prod.splits sum.splits)
  have st: "stored (jl_store J') ?u = Some ?fresh" using J' id job(1) by (auto simp: UpdateJob_stored)
  have live: "\<not> a_closed (jl_store J')" using J' job(1) by (auto simp: UpdateJob_def Let_def split: option.splits)
  have a: "adapter_Job ?u (jl_store J') = Some (DeepCopy ?fresh)" using st live by (simp add: adapter_Job_def SimpleJobStore_Get_def)
  have n: "StatusInitializing \<noteq> StatusCanceled" "StatusInitializing \<noteq> StatusRunning" by (simp_all add: status_defs)
  have d: "adapter_DeleteJob ks now ?u (jl_store J') = (jl_store J', Inl (JobRunning ?u StatusInitializing))" for now
    using a live len id by (simp add: adapter_DeleteJob_def ensureNotClosed_def validateAndResolveJob_def resolveJobUuid_def resolve_full validateJobNotRunning_def)
  show ?thesis using st a n d by (simp add: StopJob_def DeleteJob_def executeScheduledJob_def IsScheduled_def IsRunning_def)
qed

theorem failed_setup_leaves_job_stuck_witness:
  "\<exists>J'. executeScheduledJob (example_calls\<lparr>x_mkdir := False\<rparr>) example_jcfg (example_job example_uuid StatusScheduled)
      (example_joblet\<lparr>jl_store := CreateNewJob 1 (example_job example_uuid StatusScheduled) (new_adapter True)\<rparr>) = (J', Inl (ResourceSetupFailed MkdirWorkspaceFailed)) \<and>
    StopJob example_calls example_jcfg True example_uuid J' = (J', Inl (JobNotRunning example_uuid StatusInitializing)) \<and>
    DeleteJob example_calls [] example_jcfg example_uuid J' = (J', Inl (DeletionFailed (JobRunning example_uuid StatusInitializing)))"
proof -
  let ?j = "example_job example_uuid StatusScheduled" and ?a = "new_adapter True"
  let ?J = "example_joblet\<lparr>jl_store := CreateNewJob 1 ?j ?a\<rparr>"
  have u: "job_Uuid ?j = example_uuid" "length example_uuid = 36" and st: "job_Status ?j = StatusScheduled" by (simp_all add: example_job_def example_uuid_def)
  have ok: "store_ok {example_uuid} (CreateNewJob 1 ?j ?a)" by (rule store_ok_create) (simp_all add: u store_ok_def new_adapter_def)
  have "\<not> a_closed (CreateNewJob 1 ?j ?a)" "stored (CreateNewJob 1 ?j ?a) example_uuid = Some ?j"
    by (simp_all add: CreateNewJob_stored u) (simp_all add: CreateNewJob_def SimpleJobStore_Create_def new_adapter_def GetBuffer_def Let_def)
  then have "adapter_Job example_uuid (jl_store ?J) = Some (DeepCopy ?j)" by (simp add: adapter_Job_def SimpleJobStore_Get_def)
  moreover have "executeJob (example_calls\<lparr>x_mkdir := False\<rparr>) example_jcfg jb [] K = (K, Inl (ResourceSetupFailed MkdirWorkspaceFailed))" for jb K
    by (simp add: executeJob_def SetupJobResources_def createWorkspace_def)
  ultimately obtain J' where J': "executeScheduledJob (example_calls\<lparr>x_mkdir := False\<rparr>) example_jcfg ?j ?J = (J', Inl (ResourceSetupFailed MkdirWorkspaceFailed))"
    using that by (auto simp: executeScheduledJob_def u Let_def st split: if_splits)
  from failed_setup_leaves_job_stuck [OF J', of "{example_uuid}" example_calls True "[]"] ok u J' show ?thesis by auto
qed

text \<open>
  C15. A job that is running and is stopped is first recorded as STOPPED; when its watcher notices the end of the process it overwrites the record, with COMPLETED, FAILED or TIMEOUT according to how the wait ended.
  No job that was stopped stays STOPPED.
\<close>

theorem stopped_job_is_overwritten:
  assumes st: "StopJob x cfg killed (job_Uuid mj) J = (J', r)" and "stored (jl_store J) (job_Uuid mj) = Some job" "job_Status job = StatusRunning"
    and "store_ok ids (jl_store J)" "\<not> a_closed (jl_store J)"
  shows "(\<exists>jb. stored (jl_store J') (job_Uuid mj) = Some jb \<and> job_Status jb = StatusStopped) \<and>
    stored (jl_store (monitorJob y cfg w mj J')) (job_Uuid mj) = Some (final_job (x_now y) w mj) \<and>
    job_Status (final_job (x_now y) w mj) = (case w of Exited \<Rightarrow> StatusCompleted | TimerFired b \<Rightarrow> StatusTimeout | ExitCode c \<Rightarrow> StatusFailed | WaitFailed \<Rightarrow> StatusFailed)"
proof -
  let ?u = "job_Uuid mj"
  have a: "adapter_Job ?u (jl_store J) = Some (DeepCopy job)" using assms by (simp add: adapter_Job_def SimpleJobStore_Get_def)
  have id: "job_Uuid job = ?u" "a_tasks (jl_store J) ?u \<noteq> None" using assms(2,4) by (auto simp: store_ok_def)
  have J': "jl_store J' = UpdateJob (x_now x) (DeepCopy job\<lparr>job_Status := StatusStopped\<rparr>) (jl_store J)"
    using st a assms(3) by (auto simp: StopJob_def IsScheduled_def IsRunning_def Let_def status_defs split: if_splits prod.splits)
  have "stored (jl_store J') ?u = Some (DeepCopy job\<lparr>job_Status := StatusStopped\<rparr>)" using J' id assms(5) by (auto simp: UpdateJob_stored)
  moreover have "\<not> a_closed (jl_store J') \<and> a_tasks (jl_store J') ?u \<noteq> None" using J' assms(5) id by (auto simp: UpdateJob_def SimpleJobStore_Update_def Let_def split: option.splits)
  moreover from this have "stored (jl_store (monitorJob y cfg w mj J')) ?u = Some (final_job (x_now y) w mj)" by (auto simp: UpdateJob_stored)
  moreover have "job_Status (final_job (x_now y) w mj) = (case w of Exited \<Rightarrow> StatusCompleted | TimerFired b \<Rightarrow> StatusTimeout | ExitCode c \<Rightarrow> StatusFailed | WaitFailed \<Rightarrow> StatusFailed)"
    by (cases w) (simp_all add: final_job_def)
  ultimately show ?thesis by simp
qed

theorem stopped_job_is_overwritten_witness:
  "\<exists>J'. fst (StopJob example_calls example_jcfg True example_uuid (example_joblet\<lparr>jl_store := CreateNewJob 1 (example_job example_uuid StatusRunning) (new_adapter True)\<rparr>)) = J' \<and>
    (\<exists>jb. stored (jl_store J') example_uuid = Some jb \<and> job_Status jb = StatusStopped) \<and>
    (\<exists>jb. stored (jl_store (monitorJob example_calls example_jcfg (ExitCode 143) (example_job example_uuid StatusRunning) J')) example_uuid = Some jb \<and> job_Status jb = StatusFailed)"
proof -
  let ?j = "example_job example_uuid StatusRunning" and ?a = "new_adapter True"
  let ?J = "example_joblet\<lparr>jl_store := CreateNewJob 1 ?j ?a\<rparr>"
  have u: "job_Uuid ?j = example_uuid" "job_Status ?j = StatusRunning" by (simp_all add: example_job_def)
  have ok: "store_ok {example_uuid} (jl_store ?J)" by simp (rule store_ok_create, simp_all add: u store_ok_def new_adapter_def)
  have "\<not> a_closed (jl_store ?J)" "stored (jl_store ?J) example_uuid = Some ?j"
    by (simp_all add: CreateNewJob_stored u) (simp_all add: CreateNewJob_def SimpleJobStore_Create_def new_adapter_def GetBuffer_def Let_def)
  moreover obtain J' r where "StopJob example_calls example_jcfg True example_uuid ?J = (J', r)" by fastforce
  ultimately show ?thesis using stopped_job_is_overwritten [of example_calls example_jcfg True ?j ?J J' r ?j "{example_uuid}" example_calls "ExitCode 143"] ok u by auto
qed

definition recoverable :: "joblet_config \<Rightarrow> Job \<Rightarrow> bool" where
  "recoverable cfg job \<longleftrightarrow> job_Status job = StatusScheduled \<and> job_NodeId job = server_NodeId (jc_builder cfg)"

lemma recover_fold:
  assumes "pq_inv (sd_queue (jl_scheduler J))" "fold (recover_job cfg) js (J, n, m) = (J', n', m')"
  shows "pq_inv (sd_queue (jl_scheduler J')) \<and>
    pq_jobs (sd_queue (jl_scheduler J')) = pq_jobs (sd_queue (jl_scheduler J)) + mset (filter (\<lambda>job. recoverable cfg job \<and> job_ScheduledTime job \<noteq> None) js) \<and>
    n' = n + length (filter (\<lambda>job. recoverable cfg job \<and> job_ScheduledTime job \<noteq> None) js) \<and>
    m' = m + length (filter (\<lambda>job. recoverable cfg job \<and> job_ScheduledTime job = None) js)"
  using assms
proof (induction js arbitrary: J n m)
  case (Cons job js)
  show ?case
  proof (cases "recoverable cfg job \<and> job_ScheduledTime job \<noteq> None")
    case True
    then obtain t where t: "job_ScheduledTime job = Some t" by blast
    let ?J = "J\<lparr>jl_scheduler := AddJob (jl_scheduler J) job\<rparr>"
    have q: "sd_queue (jl_scheduler ?J) = Add (sd_queue (jl_scheduler J)) job" by (simp add: AddJob_def t)
    have "recover_job cfg job (J, n, m) = (?J, Suc n, m)" using True by (simp add: recover_job_def recoverable_def)
    then have "fold (recover_job cfg) js (?J, Suc n, m) = (J', n', m')" using Cons.prems(2) by simp
    from Cons.IH [OF _ this] show ?thesis using Add_spec [OF Cons.prems(1) t] True q by simp
  next
    case False
    then have "recover_job cfg job (J, n, m) = (J, n, if recoverable cfg job then Suc m else m)" by (auto simp: recover_job_def recoverable_def)
    then have "fold (recover_job cfg) js (J, n, if recoverable cfg job then Suc m else m) = (J', n', m')" using Cons.prems(2) by simp
    from Cons.IH [OF Cons.prems(1) this] show ?thesis using False by auto
  qed
qed simp

text \<open>
  After a restart, recovering the persisted jobs puts into the queue exactly the scheduled jobs of this node that have a time, each once per record, next to what was there, and keeps the heap a heap;
  the two counters are the numbers of the jobs added and of those scheduled here without a time.
\<close>

theorem recovery_exact:
  assumes "RecoverScheduledJobs cfg js J = (J', recovered, skipped)" "pq_inv (sd_queue (jl_scheduler J))"
  shows "pq_inv (sd_queue (jl_scheduler J')) \<and>
    pq_jobs (sd_queue (jl_scheduler J')) = pq_jobs (sd_queue (jl_scheduler J)) + mset (filter (\<lambda>job. recoverable cfg job \<and> job_ScheduledTime job \<noteq> None) js) \<and>
    recovered = length (filter (\<lambda>job. recoverable cfg job \<and> job_ScheduledTime job \<noteq> None) js) \<and>
    skipped = length (filter (\<lambda>job. recoverable cfg job \<and> job_ScheduledTime job = None) js)"
  using recover_fold [OF assms(2), of cfg js 0 0] assms(1) by (simp add: RecoverScheduledJobs_def)

theorem recovery_exact_witness:
  "\<exists>J' t. RecoverScheduledJobs example_jcfg [(example_job ''a'' StatusScheduled)\<lparr>job_NodeId := ''node-1'', job_ScheduledTime := Some 5\<rparr>, (example_job ''b'' StatusScheduled)\<lparr>job_NodeId := ''node-1''\<rparr>,
      (example_job ''c'' StatusScheduled)\<lparr>job_NodeId := ''node-2'', job_ScheduledTime := Some 6\<rparr>] example_joblet = (J', 1, 1) \<and>
    pq_jobs (sd_queue (jl_scheduler J')) = {#(example_job ''a'' StatusScheduled)\<lparr>job_NodeId := ''node-1'', job_ScheduledTime := Some 5\<rparr>#}"
proof -
  let ?js = "[(example_job ''a'' StatusScheduled)\<lparr>job_NodeId := ''node-1'', job_ScheduledTime := Some 5\<rparr>, (example_job ''b'' StatusScheduled)\<lparr>job_NodeId := ''node-1''\<rparr>,
      (example_job ''c'' StatusScheduled)\<lparr>job_NodeId := ''node-2'', job_ScheduledTime := Some 6\<rparr>]"
  obtain J' n m where r: "RecoverScheduledJobs example_jcfg ?js example_joblet = (J', n, m)" by (metis prod_cases3)
  have q: "pq_inv (sd_queue (jl_scheduler example_joblet))" "pq_jobs (sd_queue (jl_scheduler example_joblet)) = {#}"
    using NewPriorityQueue_spec by (simp_all add: example_joblet_def Scheduler.New_def)
  from recovery_exact [OF r q(1)] r q(2) show ?thesis
    by (simp add: recoverable_def example_job_def zero_job_def example_jcfg_def)
qed

end
