(* ===== verification/PersistLocal.thy ===== *)
theory PersistLocal
  imports Filepath
begin

text \<open>
  The local storage backend of the persistence service (\<open>persist/internal/storage/local.go\<close>): the cache of open files of a job, the writers and the readers of logs, metrics and the seven kinds of telemetry events,
  the deletion of the data of a job, the eviction of open files and the shutdown.

  A file is what a reader that decompresses it sees: the contents of its gzip members one after the other; every flush ends a member. A member whose end could not be written damages the file, and what is read of a damaged file is a parameter,
  as are the answers of the operating system and the JSON codec. The metrics and the seven kinds of events differ in the directory, the file name and the type of the record only; their Go functions are one definition with the kind as an argument,
  which the definitions with the names of the Go functions instantiate. Reading is not interrupted by the client.
\<close>

section \<open>Data\<close>

datatype StreamType = STREAM_UNSPECIFIED | STREAM_STDOUT | STREAM_STDERR

record LogLine =
  ll_JobUuid :: string
  ll_Stream :: StreamType
  ll_Timestamp :: int
  ll_Sequence :: nat
  ll_Content :: string

text \<open>A metric or an event; its fields other than the time are opaque here.\<close>

record telemetry =
  te_Timestamp :: int
  te_Fields :: string

datatype event_kind = MetricKind | ExecKind | ConnectKind | FileKind | AcceptKind | SocketDataKind | MmapKind | MprotectKind

datatype gzfile = Gz string | Damaged

text \<open>An open file with its gzip writer: what was written to the member and is not in the file yet, the sticky error of the writer, whether the writer and the file are closed.\<close>

record gz_stream =
  st_path :: string
  st_pending :: string
  st_failed :: bool
  st_closed :: bool
  st_open :: bool

record logFile =
  lf_stdout :: gz_stream
  lf_stderr :: gz_stream
  lf_lastAccess :: int

record eventFile =
  ef_stream :: gz_stream
  ef_lastAccess :: int

record local_config =
  lc_LogsDir :: string
  lc_MetricsDir :: string
  lc_EventsDir :: string
  lc_MaxOpenFiles :: int
  lc_FileHandleTTL :: int

text \<open>The maps of open files by kind, and the disk.\<close>

record LocalBackend =
  pb_cfg :: local_config
  pb_logFiles :: "string \<rightharpoonup> logFile"
  pb_eventFiles :: "event_kind \<Rightarrow> string \<rightharpoonup> eventFile"
  pb_maxOpenFiles :: int
  pb_fileHandleTTL :: int
  pb_dirs :: "string set"
  pb_disk :: "string \<rightharpoonup> gzfile"

text \<open>
  What the operating system answers during one call, by path; \<open>dc_write p n\<close> is the answer to the write of record \<open>n\<close> of the call. \<open>dc_damaged\<close> is what a reader finds in a damaged file, \<open>dc_resume\<close> what one finds
  that starts in the middle of a file, with whether it ends with an error.
\<close>

record disk_calls =
  dc_now :: int
  dc_mkdir :: "string \<Rightarrow> bool"
  dc_open :: "string \<Rightarrow> bool"
  dc_write :: "string \<Rightarrow> nat \<Rightarrow> bool"
  dc_close :: "string \<Rightarrow> bool"
  dc_sync :: "string \<Rightarrow> bool"
  dc_remove :: "string \<Rightarrow> bool"
  dc_damaged :: "string \<Rightarrow> string list \<times> bool"
  dc_resume :: "string \<Rightarrow> string list \<times> bool"

datatype persist_error =
    DirectoryFailed string
  | OpenFailed string
  | MarshalFailed
  | WriteFailed string
  | CloseFailed string
  | SyncFailed string
  | NoData string
  | GzipInvalid string
  | ScanFailed string
  | RemoveFailed string

section \<open>Gzip writers\<close>

definition append_disk :: "string \<Rightarrow> string \<Rightarrow> (string \<rightharpoonup> gzfile) \<Rightarrow> (string \<rightharpoonup> gzfile)" where
  "append_disk p data disk = (case disk p of Some (Gz s) \<Rightarrow> disk(p \<mapsto> Gz (s @ data)) | _ \<Rightarrow> disk)"

definition damage :: "string \<Rightarrow> (string \<rightharpoonup> gzfile) \<Rightarrow> (string \<rightharpoonup> gzfile)" where
  "damage p disk = (if disk p = None then disk else disk(p \<mapsto> Damaged))"

definition gz_new :: "string \<Rightarrow> gz_stream" where
  "gz_new p = \<lparr>st_path = p, st_pending = [], st_failed = False, st_closed = False, st_open = True\<rparr>"

text \<open>\<open>gzip.Writer.Write\<close>, \<open>gzip.Writer.Close\<close> and the new writer on the same file; an error of a writer stays with it.\<close>

definition gz_write :: "bool \<Rightarrow> string \<Rightarrow> gz_stream \<Rightarrow> (string \<rightharpoonup> gzfile) \<Rightarrow> gz_stream \<times> (string \<rightharpoonup> gzfile) \<times> bool" where
  "gz_write ok data st disk =
     (if st_failed st then (st, disk, False)
      else if st_closed st \<or> \<not> st_open st then (st\<lparr>st_failed := True\<rparr>, disk, False)
      else if \<not> ok then (st\<lparr>st_failed := True\<rparr>, damage (st_path st) disk, False)
      else (st\<lparr>st_pending := st_pending st @ data\<rparr>, disk, True))"

definition gz_close :: "bool \<Rightarrow> gz_stream \<Rightarrow> (string \<rightharpoonup> gzfile) \<Rightarrow> gz_stream \<times> (string \<rightharpoonup> gzfile) \<times> bool" where
  "gz_close ok st disk =
     (if st_failed st then (st, disk, False)
      else if st_closed st then (st, disk, True)
      else if \<not> st_open st then (st\<lparr>st_failed := True, st_closed := True\<rparr>, disk, False)
      else if \<not> ok then (st\<lparr>st_failed := True, st_closed := True\<rparr>, damage (st_path st) disk, False)
      else (st\<lparr>st_pending := [], st_closed := True\<rparr>, append_disk (st_path st) (st_pending st) disk, True))"

definition gz_renew :: "gz_stream \<Rightarrow> gz_stream" where
  "gz_renew st = st\<lparr>st_pending := [], st_failed := False, st_closed := False\<rparr>"

section \<open>Open files\<close>

definition event_dir :: "local_config \<Rightarrow> event_kind \<Rightarrow> string" where
  "event_dir cfg kind = (if kind = MetricKind then lc_MetricsDir cfg else lc_EventsDir cfg)"

primrec event_filename :: "event_kind \<Rightarrow> string" where
  "event_filename MetricKind = ''metrics.jsonl.gz''"
| "event_filename ExecKind = ''exec_events.jsonl.gz''"
| "event_filename ConnectKind = ''connect_events.jsonl.gz''"
| "event_filename FileKind = ''file_events.jsonl.gz''"
| "event_filename AcceptKind = ''accept_events.jsonl.gz''"
| "event_filename SocketDataKind = ''socket_data_events.jsonl.gz''"
| "event_filename MmapKind = ''mmap_events.jsonl.gz''"
| "event_filename MprotectKind = ''mprotect_events.jsonl.gz''"

text \<open>\<open>os.OpenFile\<close> for appending makes an empty file if there is none.\<close>

definition touch_file :: "string \<Rightarrow> (string \<rightharpoonup> gzfile) \<Rightarrow> (string \<rightharpoonup> gzfile)" where
  "touch_file p disk = (if disk p = None then disk(p \<mapsto> Gz []) else disk)"

definition getOrCreateLogFile :: "disk_calls \<Rightarrow> string \<Rightarrow> LocalBackend \<Rightarrow> LocalBackend \<times> (persist_error, logFile) result" where
  "getOrCreateLogFile x jobID lb =
     (case pb_logFiles lb jobID of
        Some lf \<Rightarrow> (let lf = lf\<lparr>lf_lastAccess := dc_now x\<rparr> in (lb\<lparr>pb_logFiles := (pb_logFiles lb)(jobID \<mapsto> lf)\<rparr>, Inr lf))
      | None \<Rightarrow>
          (let logDir = Join_path [lc_LogsDir (pb_cfg lb), jobID];
               stdoutPath = Join_path [logDir, ''stdout.log.gz''];
               stderrPath = Join_path [logDir, ''stderr.log.gz'']
           in if \<not> dc_mkdir x logDir then (lb, Inl (DirectoryFailed logDir))
              else let lb = lb\<lparr>pb_dirs := insert logDir (pb_dirs lb)\<rparr>
              in if \<not> dc_open x stdoutPath then (lb, Inl (OpenFailed stdoutPath))
              else let lb = lb\<lparr>pb_disk := touch_file stdoutPath (pb_disk lb)\<rparr>
              in if \<not> dc_open x stderrPath then (lb, Inl (OpenFailed stderrPath))
              else let lb = lb\<lparr>pb_disk := touch_file stderrPath (pb_disk lb)\<rparr>;
                       lf = \<lparr>lf_stdout = gz_new stdoutPath, lf_stderr = gz_new stderrPath, lf_lastAccess = dc_now x\<rparr>
              in (lb\<lparr>pb_logFiles := (pb_logFiles lb)(jobID \<mapsto> lf)\<rparr>, Inr lf)))"

definition set_events :: "event_kind \<Rightarrow> (string \<rightharpoonup> eventFile) \<Rightarrow> LocalBackend \<Rightarrow> LocalBackend" where
  "set_events kind m lb = lb\<lparr>pb_eventFiles := (pb_eventFiles lb)(kind := m)\<rparr>"

definition getOrCreateEventFile :: "disk_calls \<Rightarrow> event_kind \<Rightarrow> string \<Rightarrow> LocalBackend \<Rightarrow> LocalBackend \<times> (persist_error, eventFile) result" where
  "getOrCreateEventFile x kind jobID lb =
     (case pb_eventFiles lb kind jobID of
        Some ef \<Rightarrow> (let ef = ef\<lparr>ef_lastAccess := dc_now x\<rparr> in (set_events kind ((pb_eventFiles lb kind)(jobID \<mapsto> ef)) lb, Inr ef))
      | None \<Rightarrow>
          (let eventsDir = Join_path [event_dir (pb_cfg lb) kind, jobID];
               eventsPath = Join_path [eventsDir, event_filename kind]
           in if \<not> dc_mkdir x eventsDir then (lb, Inl (DirectoryFailed eventsDir))
              else let lb = lb\<lparr>pb_dirs := insert eventsDir (pb_dirs lb)\<rparr>
              in if \<not> dc_open x eventsPath then (lb, Inl (OpenFailed eventsPath))
              else let lb = lb\<lparr>pb_disk := touch_file eventsPath (pb_disk lb)\<rparr>;
                       ef = \<lparr>ef_stream = gz_new eventsPath, ef_lastAccess = dc_now x\<rparr>
              in (set_events kind ((pb_eventFiles lb kind)(jobID \<mapsto> ef)) lb, Inr ef)))"

definition getOrCreateMetricFile where "getOrCreateMetricFile x = getOrCreateEventFile x MetricKind"
definition getOrCreateExecEventFile where "getOrCreateExecEventFile x = getOrCreateEventFile x ExecKind"
definition getOrCreateConnectEventFile where "getOrCreateConnectEventFile x = getOrCreateEventFile x ConnectKind"

section \<open>Writing\<close>

definition nl :: string where
  "nl = [CHR 0x0A]"

text \<open>The loop over the log lines; it ends at the first that cannot be encoded or written.\<close>

fun write_lines :: "(LogLine \<Rightarrow> string option) \<Rightarrow> disk_calls \<Rightarrow> nat \<Rightarrow> LogLine list \<Rightarrow> logFile \<Rightarrow> (string \<rightharpoonup> gzfile) \<Rightarrow> logFile \<times> (string \<rightharpoonup> gzfile) \<times> (persist_error, unit) result" where
  "write_lines enc x n [] lf disk = (lf, disk, Inr ())"
| "write_lines enc x n (log # logs) lf disk =
     (case enc log of
        None \<Rightarrow> (lf, disk, Inl MarshalFailed)
      | Some data \<Rightarrow>
          (let data = data @ nl;
               w = (if ll_Stream log = STREAM_STDOUT then lf_stdout lf else lf_stderr lf);
               (w', disk, ok) = gz_write (dc_write x (st_path w) n) data w disk;
               lf = (if ll_Stream log = STREAM_STDOUT then lf\<lparr>lf_stdout := w'\<rparr> else lf\<lparr>lf_stderr := w'\<rparr>)
           in if \<not> ok then (lf, disk, Inl (WriteFailed (st_path w))) else write_lines enc x (Suc n) logs lf disk))"

definition flushLogFile :: "disk_calls \<Rightarrow> logFile \<Rightarrow> (string \<rightharpoonup> gzfile) \<Rightarrow> logFile \<times> (string \<rightharpoonup> gzfile) \<times> (persist_error, unit) result" where
  "flushLogFile x lf disk =
     (let (out, disk, stdoutOk) = gz_close (dc_close x (st_path (lf_stdout lf))) (lf_stdout lf) disk;
          (er, disk, stderrOk) = gz_close (dc_close x (st_path (lf_stderr lf))) (lf_stderr lf) disk;
          lf = lf\<lparr>lf_stdout := gz_renew out, lf_stderr := gz_renew er\<rparr>
      in (lf, disk,
          if \<not> stdoutOk then Inl (CloseFailed (st_path out))
          else if \<not> stderrOk then Inl (CloseFailed (st_path er))
          else if \<not> (st_open out \<and> dc_sync x (st_path out)) then Inl (SyncFailed (st_path out))
          else if \<not> (st_open er \<and> dc_sync x (st_path er)) then Inl (SyncFailed (st_path er))
          else Inr ()))"

definition LocalBackend_WriteLogs :: "(LogLine \<Rightarrow> string option) \<Rightarrow> disk_calls \<Rightarrow> string \<Rightarrow> LogLine list \<Rightarrow> LocalBackend \<Rightarrow> LocalBackend \<times> (persist_error, unit) result" where
  "LocalBackend_WriteLogs enc x jobID logs lb =
     (case getOrCreateLogFile x jobID lb of
        (lb, Inl err) \<Rightarrow> (lb, Inl err)
      | (lb, Inr lf) \<Rightarrow>
          (case write_lines enc x 0 logs lf (pb_disk lb) of
             (lf, disk, Inl err) \<Rightarrow> (lb\<lparr>pb_logFiles := (pb_logFiles lb)(jobID \<mapsto> lf), pb_disk := disk\<rparr>, Inl err)
           | (lf, disk, Inr _) \<Rightarrow>
               (let (lf, disk, r) = flushLogFile x lf disk
                in (lb\<lparr>pb_logFiles := (pb_logFiles lb)(jobID \<mapsto> lf), pb_disk := disk\<rparr>, r))))"

fun write_events :: "(telemetry \<Rightarrow> string option) \<Rightarrow> disk_calls \<Rightarrow> nat \<Rightarrow> telemetry list \<Rightarrow> gz_stream \<Rightarrow> (string \<rightharpoonup> gzfile) \<Rightarrow> gz_stream \<times> (string \<rightharpoonup> gzfile) \<times> (persist_error, unit) result" where
  "write_events enc x n [] w disk = (w, disk, Inr ())"
| "write_events enc x n (event # events) w disk =
     (case enc event of
        None \<Rightarrow> (w, disk, Inl MarshalFailed)
      | Some data \<Rightarrow>
          (let data = data @ nl;
               (w, disk, ok) = gz_write (dc_write x (st_path w) n) data w disk
           in if \<not> ok then (w, disk, Inl (WriteFailed (st_path w))) else write_events enc x (Suc n) events w disk))"

definition flushGenericEventFile :: "disk_calls \<Rightarrow> gz_stream \<Rightarrow> (string \<rightharpoonup> gzfile) \<Rightarrow> gz_stream \<times> (string \<rightharpoonup> gzfile) \<times> (persist_error, unit) result" where
  "flushGenericEventFile x w disk =
     (let (w, disk, ok) = gz_close (dc_close x (st_path w)) w disk;
          w' = gz_renew w
      in (w', disk,
          if \<not> ok then Inl (CloseFailed (st_path w))
          else if \<not> (st_open w \<and> dc_sync x (st_path w)) then Inl (SyncFailed (st_path w))
          else Inr ()))"

definition flushMetricFile where "flushMetricFile = flushGenericEventFile"
definition flushExecEventFile where "flushExecEventFile = flushGenericEventFile"
definition flushConnectEventFile where "flushConnectEventFile = flushGenericEventFile"

text \<open>Only \<open>WriteMetrics\<close> goes on with an empty list.\<close>

definition write_kind :: "event_kind \<Rightarrow> (telemetry \<Rightarrow> string option) \<Rightarrow> disk_calls \<Rightarrow> string \<Rightarrow> telemetry list \<Rightarrow> LocalBackend \<Rightarrow> LocalBackend \<times> (persist_error, unit) result" where
  "write_kind kind enc x jobID events lb =
     (if kind \<noteq> MetricKind \<and> length events = 0 then (lb, Inr ())
      else (case getOrCreateEventFile x kind jobID lb of
              (lb, Inl err) \<Rightarrow> (lb, Inl err)
            | (lb, Inr ef) \<Rightarrow>
                (let put = (\<lambda>w disk lb. set_events kind ((pb_eventFiles lb kind)(jobID \<mapsto> ef\<lparr>ef_stream := w\<rparr>)) (lb\<lparr>pb_disk := disk\<rparr>))
                 in case write_events enc x 0 events (ef_stream ef) (pb_disk lb) of
                      (w, disk, Inl err) \<Rightarrow> (put w disk lb, Inl err)
                    | (w, disk, Inr _) \<Rightarrow> (let (w, disk, r) = flushGenericEventFile x w disk in (put w disk lb, r)))))"

definition LocalBackend_WriteMetrics where "LocalBackend_WriteMetrics = write_kind MetricKind"
definition LocalBackend_WriteExecEvents where "LocalBackend_WriteExecEvents = write_kind ExecKind"
definition LocalBackend_WriteConnectEvents where "LocalBackend_WriteConnectEvents = write_kind ConnectKind"
definition LocalBackend_WriteFileEvents where "LocalBackend_WriteFileEvents = write_kind FileKind"
definition LocalBackend_WriteAcceptEvents where "LocalBackend_WriteAcceptEvents = write_kind AcceptKind"
definition LocalBackend_WriteSocketDataEvents where "LocalBackend_WriteSocketDataEvents = write_kind SocketDataKind"
definition LocalBackend_WriteMmapEvents where "LocalBackend_WriteMmapEvents = write_kind MmapKind"
definition LocalBackend_WriteMprotectEvents where "LocalBackend_WriteMprotectEvents = write_kind MprotectKind"

section \<open>Reading\<close>

text \<open>\<open>bufio.ScanLines\<close>: the lines without their newline and one carriage return before it; the longest token with its newline.\<close>

definition drop_cr :: "string \<Rightarrow> string" where
  "drop_cr l = (if l \<noteq> [] \<and> last l = CHR 0x0D then butlast l else l)"

definition scan_lines :: "string \<Rightarrow> string list" where
  "scan_lines s = (let ls = Split (CHR 0x0A) s in if last ls = [] then butlast ls else ls)"

definition scanner_max :: nat where
  "scanner_max = 1024 * 1024"

record query_state =
  qs_skipped :: int
  qs_count :: int

datatype read_end = AllRead | LimitReached | TooLong

text \<open>The loop over the lines of a file; what it sends, and how it ends. \<open>keep\<close> are the filters of the query.\<close>

fun read_loop :: "(string \<Rightarrow> 'a option) \<Rightarrow> ('a \<Rightarrow> bool) \<Rightarrow> int \<Rightarrow> int \<Rightarrow> string list \<Rightarrow> query_state \<Rightarrow> 'a list \<times> query_state \<times> read_end" where
  "read_loop dec keep offset limit [] q = ([], q, AllRead)"
| "read_loop dec keep offset limit (l # ls) q =
     (if length l + 1 > scanner_max then ([], q, TooLong)
      else if length (drop_cr l) = 0 then read_loop dec keep offset limit ls q
      else (case dec (drop_cr l) of
              None \<Rightarrow> read_loop dec keep offset limit ls q
            | Some e \<Rightarrow>
                if \<not> keep e then read_loop dec keep offset limit ls q
                else if qs_skipped q < offset then read_loop dec keep offset limit ls (q\<lparr>qs_skipped := qs_skipped q + 1\<rparr>)
                else if limit > 0 \<and> qs_count q \<ge> limit then ([], q, LimitReached)
                else (let (es, r) = read_loop dec keep offset limit ls (q\<lparr>qs_count := qs_count q + 1\<rparr>) in (e # es, r))))"

text \<open>A substring test written out.\<close>

fun index_from :: "nat \<Rightarrow> string \<Rightarrow> string \<Rightarrow> int" where
  "index_from i s substr =
     (if length s < length substr then -1
      else if take (length substr) s = substr then int i
      else (case s of [] \<Rightarrow> -1 | c # s' \<Rightarrow> index_from (Suc i) s' substr))"

declare index_from.simps [simp del]

definition indexSubstring :: "string \<Rightarrow> string \<Rightarrow> int" where
  "indexSubstring s substr = index_from 0 s substr"

definition contains :: "string \<Rightarrow> string \<Rightarrow> bool" where
  "contains s substr \<longleftrightarrow>
     length substr = 0 \<or> length s \<ge> length substr \<and>
       (s = substr \<or>
        (length s > length substr \<and>
          (take (length substr) s = substr \<or> drop (length s - length substr) s = substr \<or> indexSubstring s substr \<ge> 0)))"

record LogQuery =
  lq_JobUUID :: string
  lq_Stream :: StreamType
  lq_StartTime :: "int option"
  lq_EndTime :: "int option"
  lq_Limit :: int
  lq_Offset :: int
  lq_Filter :: string

record TelemetryQuery =
  tq_JobUUID :: string
  tq_StartTime :: "int option"
  tq_EndTime :: "int option"
  tq_Limit :: int
  tq_Offset :: int

definition in_range :: "int option \<Rightarrow> int option \<Rightarrow> int \<Rightarrow> bool" where
  "in_range start end t \<longleftrightarrow> \<not> (case start of None \<Rightarrow> False | Some s \<Rightarrow> t < s) \<and> \<not> (case end of None \<Rightarrow> False | Some e \<Rightarrow> t > e)"

definition keep_log :: "LogQuery \<Rightarrow> LogLine \<Rightarrow> bool" where
  "keep_log q l \<longleftrightarrow> in_range (lq_StartTime q) (lq_EndTime q) (ll_Timestamp l) \<and> \<not> (lq_Filter q \<noteq> [] \<and> \<not> contains (ll_Content l) (lq_Filter q))"

text \<open>The lines of a file, with whether the reader ends with an error.\<close>

definition gz_lines :: "disk_calls \<Rightarrow> string \<Rightarrow> gzfile \<Rightarrow> string list \<times> bool" where
  "gz_lines x p f = (case f of Gz s \<Rightarrow> (scan_lines s, False) | Damaged \<Rightarrow> dc_damaged x p)"

text \<open>The files in turn, with one count of what was sent and skipped.\<close>

fun read_log_files :: "disk_calls \<Rightarrow> (string \<Rightarrow> LogLine option) \<Rightarrow> LogQuery \<Rightarrow> (string \<rightharpoonup> gzfile) \<Rightarrow> string list \<Rightarrow> query_state \<Rightarrow> LogLine list \<times> persist_error option" where
  "read_log_files x dec q disk [] st = ([], None)"
| "read_log_files x dec q disk (p # ps) st =
     (case disk p of
        None \<Rightarrow> read_log_files x dec q disk ps st
      | Some f \<Rightarrow>
          if \<not> dc_open x p then ([], Some (OpenFailed p))
          else (let (lines, bad) = gz_lines x p f;
                    (es, st, e) = read_loop dec (keep_log q) (lq_Offset q) (lq_Limit q) lines st
                in if e = LimitReached then (es, None)
                   else if e = TooLong \<or> bad then (es, Some (ScanFailed p))
                   else (let (more, err) = read_log_files x dec q disk ps st in (es @ more, err))))"

definition log_paths :: "string \<Rightarrow> StreamType \<Rightarrow> string list" where
  "log_paths logDir stream =
     (if stream = STREAM_UNSPECIFIED \<or> stream = STREAM_STDOUT then [Join_path [logDir, ''stdout.log.gz'']] else []) @
     (if stream = STREAM_UNSPECIFIED \<or> stream = STREAM_STDERR then [Join_path [logDir, ''stderr.log.gz'']] else [])"

definition query_start :: query_state where
  "query_start = \<lparr>qs_skipped = 0, qs_count = 0\<rparr>"

text \<open>What the reader delivers, with the error it ends with, if any.\<close>

definition LocalBackend_ReadLogs :: "disk_calls \<Rightarrow> (string \<Rightarrow> LogLine option) \<Rightarrow> LogQuery \<Rightarrow> LocalBackend \<Rightarrow> (persist_error, LogLine list \<times> persist_error option) result" where
  "LocalBackend_ReadLogs x dec q lb =
     (let logDir = Join_path [lc_LogsDir (pb_cfg lb), lq_JobUUID q]
      in if logDir \<notin> pb_dirs lb then Inl (NoData (lq_JobUUID q))
         else Inr (read_log_files x dec q (pb_disk lb) (log_paths logDir (lq_Stream q)) query_start))"

text \<open>
  A reader of events starts anew in the file while there is more to read. The library's reader goes through all members at once, so a second start finds the end of the file, unless a line was too long for the scanner.
\<close>

definition read_event_file :: "disk_calls \<Rightarrow> (string \<Rightarrow> telemetry option) \<Rightarrow> TelemetryQuery \<Rightarrow> string \<Rightarrow> gzfile \<Rightarrow> telemetry list \<times> persist_error option" where
  "read_event_file x dec q p f =
     (if \<not> dc_open x p then ([], Some (OpenFailed p))
      else let keep = (\<lambda>e. in_range (tq_StartTime q) (tq_EndTime q) (te_Timestamp e));
               (lines, bad) = gz_lines x p f;
               (es, st, e) = read_loop dec keep (tq_Offset q) (tq_Limit q) lines query_start
           in if e = LimitReached then (es, None)
              else if e = TooLong then
                (let (lines, bad) = dc_resume x p;
                     (more, _, e) = read_loop dec keep (tq_Offset q) (tq_Limit q) lines st
                 in (es @ more, if e \<noteq> LimitReached \<and> bad then Some (GzipInvalid p) else None))
              else (es, if bad then Some (GzipInvalid p) else None))"

definition read_kind :: "event_kind \<Rightarrow> disk_calls \<Rightarrow> (string \<Rightarrow> telemetry option) \<Rightarrow> TelemetryQuery \<Rightarrow> LocalBackend \<Rightarrow> (persist_error, telemetry list \<times> persist_error option) result" where
  "read_kind kind x dec q lb =
     (let p = Join_path [event_dir (pb_cfg lb) kind, tq_JobUUID q, event_filename kind]
      in case pb_disk lb p of
           None \<Rightarrow> if kind = MetricKind then Inl (NoData (tq_JobUUID q)) else Inr ([], None)
         | Some f \<Rightarrow> Inr (read_event_file x dec q p f))"

definition LocalBackend_ReadMetrics where "LocalBackend_ReadMetrics = read_kind MetricKind"
definition LocalBackend_readExecEventsFromFile where "LocalBackend_readExecEventsFromFile = read_kind ExecKind"
definition LocalBackend_readConnectEventsFromFile where "LocalBackend_readConnectEventsFromFile = read_kind ConnectKind"
definition LocalBackend_readFileEventsFromFile where "LocalBackend_readFileEventsFromFile = read_kind FileKind"
definition LocalBackend_readAcceptEventsFromFile where "LocalBackend_readAcceptEventsFromFile = read_kind AcceptKind"
definition LocalBackend_readSocketDataEventsFromFile where "LocalBackend_readSocketDataEventsFromFile = read_kind SocketDataKind"
definition LocalBackend_readMmapEventsFromFile where "LocalBackend_readMmapEventsFromFile = read_kind MmapKind"
definition LocalBackend_readMprotectEventsFromFile where "LocalBackend_readMprotectEventsFromFile = read_kind MprotectKind"

section \<open>Closing, deleting, evicting\<close>

definition close_file :: "gz_stream \<Rightarrow> gz_stream" where
  "close_file st = st\<lparr>st_open := False\<rparr>"

text \<open>The errors of closing are ignored; what counts is what is in the files afterwards.\<close>

definition closeLogFile :: "disk_calls \<Rightarrow> logFile \<Rightarrow> (string \<rightharpoonup> gzfile) \<Rightarrow> logFile \<times> (string \<rightharpoonup> gzfile)" where
  "closeLogFile x lf disk =
     (let (out, disk, _) = gz_close (dc_close x (st_path (lf_stdout lf))) (lf_stdout lf) disk;
          (er, disk, _) = gz_close (dc_close x (st_path (lf_stderr lf))) (lf_stderr lf) disk
      in (lf\<lparr>lf_stdout := close_file out, lf_stderr := close_file er\<rparr>, disk))"

definition closeEventFile :: "disk_calls \<Rightarrow> eventFile \<Rightarrow> (string \<rightharpoonup> gzfile) \<Rightarrow> eventFile \<times> (string \<rightharpoonup> gzfile)" where
  "closeEventFile x ef disk =
     (let (w, disk, _) = gz_close (dc_close x (st_path (ef_stream ef))) (ef_stream ef) disk in (ef\<lparr>ef_stream := close_file w\<rparr>, disk))"

definition closeMetricFile where "closeMetricFile = closeEventFile"
definition closeExecEventFile where "closeExecEventFile = closeEventFile"
definition closeConnectEventFile where "closeConnectEventFile = closeEventFile"

text \<open>Closing the files of a job of one kind, if they are open, and taking them out of the map.\<close>

definition drop_log :: "disk_calls \<Rightarrow> string \<Rightarrow> LocalBackend \<Rightarrow> LocalBackend" where
  "drop_log x jobID lb =
     (case pb_logFiles lb jobID of
        None \<Rightarrow> lb
      | Some lf \<Rightarrow> lb\<lparr>pb_disk := snd (closeLogFile x lf (pb_disk lb)), pb_logFiles := (pb_logFiles lb)(jobID := None)\<rparr>)"

definition drop_event :: "disk_calls \<Rightarrow> event_kind \<Rightarrow> string \<Rightarrow> LocalBackend \<Rightarrow> LocalBackend" where
  "drop_event x kind jobID lb =
     (case pb_eventFiles lb kind jobID of
        None \<Rightarrow> lb
      | Some ef \<Rightarrow> set_events kind ((pb_eventFiles lb kind)(jobID := None)) (lb\<lparr>pb_disk := snd (closeEventFile x ef (pb_disk lb))\<rparr>))"

definition below :: "string \<Rightarrow> string \<Rightarrow> bool" where
  "below q p \<longleftrightarrow> q = p \<or> p = ''/'' \<or> HasPrefix q (p @ ''/'')"

definition RemoveAll :: "string \<Rightarrow> LocalBackend \<Rightarrow> LocalBackend" where
  "RemoveAll p lb = lb\<lparr>pb_disk := (\<lambda>q. if below q p then None else pb_disk lb q), pb_dirs := {q \<in> pb_dirs lb. \<not> below q p}\<rparr>"

definition all_kinds :: "event_kind list" where
  "all_kinds = [MetricKind, ExecKind, ConnectKind, FileKind, AcceptKind, SocketDataKind, MmapKind, MprotectKind]"

definition LocalBackend_DeleteJob :: "disk_calls \<Rightarrow> string \<Rightarrow> LocalBackend \<Rightarrow> LocalBackend \<times> (persist_error, unit) result" where
  "LocalBackend_DeleteJob x jobID lb =
     (let lb = fold (\<lambda>kind. drop_event x kind jobID) all_kinds (drop_log x jobID lb);
          logDir = Join_path [lc_LogsDir (pb_cfg lb), jobID];
          metricsDir = Join_path [lc_MetricsDir (pb_cfg lb), jobID];
          eventsDir = Join_path [lc_EventsDir (pb_cfg lb), jobID]
      in if \<not> dc_remove x logDir then (lb, Inl (RemoveFailed logDir))
         else let lb = RemoveAll logDir lb
         in if \<not> dc_remove x metricsDir then (lb, Inl (RemoveFailed metricsDir))
         else let lb = RemoveAll metricsDir lb
         in if \<not> dc_remove x eventsDir then (lb, Inl (RemoveFailed eventsDir))
         else (RemoveAll eventsDir lb, Inr ()))"

text \<open>The orders in which the maps are ranged over: the jobs with log files, and those with files of a kind.\<close>

record orders =
  or_log :: "string list"
  or_event :: "event_kind \<Rightarrow> string list"

definition evict_log :: "disk_calls \<Rightarrow> string \<Rightarrow> LocalBackend \<Rightarrow> LocalBackend" where
  "evict_log x jobID lb =
     (case pb_logFiles lb jobID of
        None \<Rightarrow> lb
      | Some lf \<Rightarrow> if dc_now x - lf_lastAccess lf > pb_fileHandleTTL lb then drop_log x jobID lb else lb)"

definition evict_event :: "disk_calls \<Rightarrow> event_kind \<Rightarrow> string \<Rightarrow> LocalBackend \<Rightarrow> LocalBackend" where
  "evict_event x kind jobID lb =
     (case pb_eventFiles lb kind jobID of
        None \<Rightarrow> lb
      | Some ef \<Rightarrow> if dc_now x - ef_lastAccess ef > pb_fileHandleTTL lb then drop_event x kind jobID lb else lb)"

definition evictEventFiles :: "disk_calls \<Rightarrow> orders \<Rightarrow> event_kind \<Rightarrow> LocalBackend \<Rightarrow> LocalBackend" where
  "evictEventFiles x ord kind lb = fold (evict_event x kind) (or_event ord kind) lb"

definition countOpenHandles :: "orders \<Rightarrow> LocalBackend \<Rightarrow> nat" where
  "countOpenHandles ord lb =
     length (range_vals (or_log ord) (pb_logFiles lb)) + sum_list (map (\<lambda>kind. length (range_vals (or_event ord kind) (pb_eventFiles lb kind))) all_kinds)"

datatype handle_kind = LogHandle | EventHandle event_kind

record handleInfo =
  hi_fileType :: handle_kind
  hi_jobID :: string
  hi_lastAccess :: int

definition log_handles :: "orders \<Rightarrow> LocalBackend \<Rightarrow> handleInfo list" where
  "log_handles ord lb =
     List.map_filter (\<lambda>j. map_option (\<lambda>lf. \<lparr>hi_fileType = LogHandle, hi_jobID = j, hi_lastAccess = lf_lastAccess lf\<rparr>) (pb_logFiles lb j)) (or_log ord)"

definition event_handles :: "orders \<Rightarrow> event_kind \<Rightarrow> LocalBackend \<Rightarrow> handleInfo list" where
  "event_handles ord kind lb =
     List.map_filter (\<lambda>j. map_option (\<lambda>ef. \<lparr>hi_fileType = EventHandle kind, hi_jobID = j, hi_lastAccess = ef_lastAccess ef\<rparr>) (pb_eventFiles lb kind j)) (or_event ord kind)"

definition open_handles :: "orders \<Rightarrow> LocalBackend \<Rightarrow> handleInfo list" where
  "open_handles ord lb = log_handles ord lb @ concat (map (\<lambda>kind. event_handles ord kind lb) all_kinds)"

definition has_handle :: "handleInfo \<Rightarrow> LocalBackend \<Rightarrow> bool" where
  "has_handle h lb = (case hi_fileType h of LogHandle \<Rightarrow> pb_logFiles lb (hi_jobID h) \<noteq> None | EventHandle kind \<Rightarrow> pb_eventFiles lb kind (hi_jobID h) \<noteq> None)"

definition drop_handle :: "disk_calls \<Rightarrow> handleInfo \<Rightarrow> LocalBackend \<Rightarrow> LocalBackend" where
  "drop_handle x h lb = (case hi_fileType h of LogHandle \<Rightarrow> drop_log x (hi_jobID h) lb | EventHandle kind \<Rightarrow> drop_event x kind (hi_jobID h) lb)"

fun evict_oldest :: "disk_calls \<Rightarrow> nat \<Rightarrow> handleInfo list \<Rightarrow> LocalBackend \<Rightarrow> LocalBackend" where
  "evict_oldest x n [] lb = lb"
| "evict_oldest x n (h # hs) lb =
     (if n = 0 then lb
      else if has_handle h lb then evict_oldest x (n - 1) hs (drop_handle x h lb)
      else evict_oldest x n hs lb)"

definition evictLRU :: "disk_calls \<Rightarrow> orders \<Rightarrow> int \<Rightarrow> LocalBackend \<Rightarrow> LocalBackend" where
  "evictLRU x ord n lb =
     (if n \<le> 0 then lb
      else evict_oldest x (nat n) (sort_slice (\<lambda>h h'. hi_lastAccess h < hi_lastAccess h') (open_handles ord lb)) lb)"

definition evictIdleHandles :: "disk_calls \<Rightarrow> orders \<Rightarrow> LocalBackend \<Rightarrow> LocalBackend" where
  "evictIdleHandles x ord lb =
     (let lb = fold (evict_log x) (or_log ord) lb;
          lb = fold (\<lambda>kind lb. evictEventFiles x ord kind lb) all_kinds lb;
          totalHandles = int (countOpenHandles ord lb)
      in if totalHandles > pb_maxOpenFiles lb then evictLRU x ord (totalHandles - pb_maxOpenFiles lb) lb else lb)"

text \<open>\<open>Close\<close> closes every open file and leaves it in its map.\<close>

definition close_log :: "disk_calls \<Rightarrow> string \<Rightarrow> LocalBackend \<Rightarrow> LocalBackend" where
  "close_log x jobID lb =
     (case pb_logFiles lb jobID of
        None \<Rightarrow> lb
      | Some lf \<Rightarrow> (let (lf, disk) = closeLogFile x lf (pb_disk lb) in lb\<lparr>pb_logFiles := (pb_logFiles lb)(jobID \<mapsto> lf), pb_disk := disk\<rparr>))"

definition close_event :: "disk_calls \<Rightarrow> event_kind \<Rightarrow> string \<Rightarrow> LocalBackend \<Rightarrow> LocalBackend" where
  "close_event x kind jobID lb =
     (case pb_eventFiles lb kind jobID of
        None \<Rightarrow> lb
      | Some ef \<Rightarrow> (let (ef, disk) = closeEventFile x ef (pb_disk lb) in set_events kind ((pb_eventFiles lb kind)(jobID \<mapsto> ef)) (lb\<lparr>pb_disk := disk\<rparr>)))"

definition LocalBackend_Close :: "disk_calls \<Rightarrow> orders \<Rightarrow> LocalBackend \<Rightarrow> LocalBackend" where
  "LocalBackend_Close x ord lb =
     fold (\<lambda>kind lb. fold (close_event x kind) (or_event ord kind) lb) all_kinds (fold (close_log x) (or_log ord) lb)"

definition NewLocalBackend :: "disk_calls \<Rightarrow> local_config \<Rightarrow> string set \<Rightarrow> (string \<rightharpoonup> gzfile) \<Rightarrow> (persist_error, LocalBackend) result" where
  "NewLocalBackend x cfg dirs disk =
     (let maxOpenFiles = (if lc_MaxOpenFiles cfg \<le> 0 then 1000 else lc_MaxOpenFiles cfg);
          ttl = int64 (lc_FileHandleTTL cfg * 1000000000);
          fileHandleTTL = (if ttl \<le> 0 then 300 * 1000000000 else ttl)
      in if \<not> dc_mkdir x (lc_LogsDir cfg) then Inl (DirectoryFailed (lc_LogsDir cfg))
         else if \<not> dc_mkdir x (lc_MetricsDir cfg) then Inl (DirectoryFailed (lc_MetricsDir cfg))
         else if \<not> dc_mkdir x (lc_EventsDir cfg) then Inl (DirectoryFailed (lc_EventsDir cfg))
         else Inr \<lparr>pb_cfg = cfg, pb_logFiles = Map.empty, pb_eventFiles = (\<lambda>_. Map.empty), pb_maxOpenFiles = maxOpenFiles, pb_fileHandleTTL = fileHandleTTL,
                pb_dirs = dirs \<union> {lc_LogsDir cfg, lc_MetricsDir cfg, lc_EventsDir cfg}, pb_disk = disk\<rparr>)"

section \<open>The substring test\<close>

lemma index_from_nonneg: "index_from i s substr \<ge> 0 \<longleftrightarrow> Contains s substr"
proof (induction s arbitrary: i)
  case Nil
  then show ?case by (subst index_from.simps) (auto simp: Contains_iff)
next
  case (Cons c s)
  show ?case
  proof (cases "take (length substr) (c # s) = substr")
    case True
    then have "c # s = [] @ substr @ drop (length substr) (c # s)" by (metis append_Nil append_take_drop_id)
    then have "Contains (c # s) substr" unfolding Contains_iff by blast
    moreover have "length substr \<le> length (c # s)" using True by (metis length_take min.cobounded1)
    ultimately show ?thesis using True by (subst index_from.simps) simp
  next
    case False
    have "Contains (c # s) substr = Contains s substr" using False by (simp add: HasPrefix_def)
    moreover have "\<not> Contains s substr" if "length (c # s) < length substr" using that by (auto simp: Contains_iff)
    ultimately show ?thesis using Cons.IH [of "Suc i"] False by (subst index_from.simps) auto
  qed
qed

lemma contains_is_Contains: "contains s substr = Contains s substr"
proof -
  have "Contains s substr" if "take (length substr) s = substr" using that by (metis Contains_iff append_Nil append_take_drop_id)
  moreover have "Contains s substr" if "drop (length s - length substr) s = substr" using that by (metis Contains_iff append_Nil2 append_take_drop_id)
  moreover have "Contains s substr" if "substr = []" using that by (auto simp: Contains_iff)
  moreover have "length substr \<le> length s \<and> (length s = length substr \<longrightarrow> s = substr)" if "Contains s substr" using that by (auto simp: Contains_iff)
  ultimately show ?thesis unfolding contains_def indexSubstring_def index_from_nonneg using le_neq_implies_less by (auto simp: Contains_iff)
qed

section \<open>Paths of the files of a job\<close>

datatype channel = LogOut | LogErr | Event event_kind

primrec chan_dir :: "local_config \<Rightarrow> channel \<Rightarrow> string" where
  "chan_dir cfg LogOut = lc_LogsDir cfg"
| "chan_dir cfg LogErr = lc_LogsDir cfg"
| "chan_dir cfg (Event kind) = event_dir cfg kind"

primrec chan_name :: "channel \<Rightarrow> string" where
  "chan_name LogOut = ''stdout.log.gz''"
| "chan_name LogErr = ''stderr.log.gz''"
| "chan_name (Event kind) = event_filename kind"

definition chan_path :: "local_config \<Rightarrow> channel \<Rightarrow> string \<Rightarrow> string" where
  "chan_path cfg ch j = Join_path [Join_path [chan_dir cfg ch, j], chan_name ch]"

definition job_ok :: "string \<Rightarrow> bool" where
  "job_ok j \<longleftrightarrow> is_plain j \<and> j \<noteq> ''..''"

definition dirs_of :: "local_config \<Rightarrow> string set" where
  "dirs_of cfg = {lc_LogsDir cfg, lc_MetricsDir cfg, lc_EventsDir cfg}"

text \<open>The three directories are absolute and none is properly inside another.\<close>

definition dirs_ok :: "local_config \<Rightarrow> bool" where
  "dirs_ok cfg \<longleftrightarrow> (\<forall>d \<in> dirs_of cfg. IsAbs d) \<and>
     (\<forall>d \<in> dirs_of cfg. \<forall>d' \<in> dirs_of cfg. \<forall>e es. path_elems (Clean d') \<noteq> path_elems (Clean d) @ e # es)"

lemma chan_dir_in: "chan_dir cfg ch \<in> dirs_of cfg"
  by (cases ch) (simp_all add: dirs_of_def event_dir_def)

lemma chan_name_plain: "is_plain (chan_name ch) \<and> chan_name ch \<noteq> ''..''"
  by (cases ch; simp add: is_plain_def) (rename_tac kind, case_tac kind; simp)

lemma event_filename_inj: "event_filename k = event_filename k' \<Longrightarrow> k = k'"
  by (cases k; cases k'; simp)

lemma event_filename_no_log: "event_filename k \<noteq> ''stdout.log.gz''" "event_filename k \<noteq> ''stderr.log.gz''"
  by (cases k; simp)+

lemma chan_name_inj: "chan_name ch = chan_name ch' \<Longrightarrow> ch = ch'"
  using event_filename_no_log event_filename_inj by (cases ch; cases ch') (auto dest: sym)

lemma path_elems_single: "is_plain e \<Longrightarrow> path_elems e = [e]"
  by (simp add: path_elems_def is_plain_def Split_no_sep)

lemma Join_plain:
  assumes "IsAbs d" "is_plain e" "e \<noteq> ''..''"
  shows "path_elems (Join_path [d, e]) = path_elems (Clean d) @ [e]" "IsAbs (Join_path [d, e])" "Clean (Join_path [d, e]) = Join_path [d, e]"
    "Join_path [d, e] = CHR ''/'' # Join ''/'' (path_elems (Clean d) @ [e])"
proof -
  have abs: "\<not> IsAbs e" using assms(2) by (auto simp: is_plain_def IsAbs_def HasPrefix_iff)
  have "Clean e = e" using abs assms(2,3) by (simp add: Clean_def path_elems_single render_def is_plain_def)
  note e = this abs
  show 1: "path_elems (Join_path [d, e]) = path_elems (Clean d) @ [e]"
    using Join_path_below [OF assms(1) e(2)] e(1) assms by (simp add: path_elems_single)
  have J: "Join_path [d, e] = Clean (d @ ''/'' @ e)" using Join_path_two [OF IsAbs_not_Nil [OF assms(1)]] .
  show 2: "IsAbs (Join_path [d, e])" unfolding J using IsAbs_append [OF assms(1)] by simp
  show "Clean (Join_path [d, e]) = Join_path [d, e]" unfolding J by (rule Clean_idem) (rule IsAbs_append [OF assms(1)])
  show "Join_path [d, e] = CHR ''/'' # Join ''/'' (path_elems (Clean d) @ [e])"
    using Clean_render [of "d @ ''/'' @ e"] 1 2 J IsAbs_append [OF assms(1)] by (simp add: render_def)
qed

lemma job_dir_path:
  assumes "dirs_ok cfg" "d \<in> dirs_of cfg" "job_ok j"
  shows "path_elems (Join_path [d, j]) = path_elems (Clean d) @ [j]" "IsAbs (Join_path [d, j])" "Clean (Join_path [d, j]) = Join_path [d, j]"
    "Join_path [d, j] = CHR ''/'' # Join ''/'' (path_elems (Clean d) @ [j])"
  using Join_plain [of d j] assms by (simp_all add: dirs_ok_def job_ok_def)

lemma chan_path_elems:
  assumes "dirs_ok cfg" "job_ok j"
  shows "path_elems (chan_path cfg ch j) = path_elems (Clean (chan_dir cfg ch)) @ [j, chan_name ch]"
    and "chan_path cfg ch j = Join_path [chan_dir cfg ch, j] @ ''/'' @ chan_name ch"
proof -
  note D = job_dir_path [OF assms(1) chan_dir_in assms(2), of ch]
  note N = Join_plain [OF D(2), of "chan_name ch"]
  show "path_elems (chan_path cfg ch j) = path_elems (Clean (chan_dir cfg ch)) @ [j, chan_name ch]"
    using N(1) chan_name_plain [of ch] D(1,3) by (simp add: chan_path_def)
  have "chan_path cfg ch j = CHR ''/'' # Join ''/'' ((path_elems (Clean (chan_dir cfg ch)) @ [j]) @ [chan_name ch])"
    using N(4) chan_name_plain [of ch] D(1,3) by (simp add: chan_path_def)
  also have "\<dots> = Join_path [chan_dir cfg ch, j] @ ''/'' @ chan_name ch" unfolding D(4) by (subst Join_append) simp_all
  finally show "chan_path cfg ch j = Join_path [chan_dir cfg ch, j] @ ''/'' @ chan_name ch" .
qed

lemma chan_path_inj:
  assumes "dirs_ok cfg" "job_ok j" "job_ok j'" "chan_path cfg ch j = chan_path cfg ch' j'"
  shows "ch = ch' \<and> j = j'"
proof -
  have "path_elems (Clean (chan_dir cfg ch)) @ [j, chan_name ch] = path_elems (Clean (chan_dir cfg ch')) @ [j', chan_name ch']"
    using chan_path_elems(1) assms by metis
  then have "[j, chan_name ch] = [j', chan_name ch']" by (metis append_eq_append_conv length_Cons list.size(3))
  then show ?thesis using chan_name_inj by auto
qed

lemma below_own: "dirs_ok cfg \<Longrightarrow> job_ok j \<Longrightarrow> below (chan_path cfg ch j) (Join_path [chan_dir cfg ch, j])"
  using chan_path_elems(2) [of cfg j ch] by (simp add: below_def HasPrefix_iff)

lemma below_other:
  assumes "dirs_ok cfg" "d \<in> dirs_of cfg" "job_ok j" "job_ok j'" "below (chan_path cfg ch j') (Join_path [d, j])"
  shows "j' = j"
proof -
  let ?D = "path_elems (Clean d)" and ?C = "path_elems (Clean (chan_dir cfg ch))"
  have "\<exists>es. ?C @ [j', chan_name ch] = ?D @ j # es"
  proof (cases "chan_path cfg ch j' = Join_path [d, j]")
    case True
    then show ?thesis using chan_path_elems(1) [OF assms(1,4), of ch] job_dir_path(1) [OF assms(1,2,3)] by auto
  next
    case False
    moreover have "Join_path [d, j] \<noteq> ''/''" using job_dir_path(1) [OF assms(1,2,3)] by (auto simp: path_elems_def)
    ultimately obtain t where "chan_path cfg ch j' = Join_path [d, j] @ CHR ''/'' # t" using assms(5) by (auto simp: below_def HasPrefix_iff)
    then show ?thesis using chan_path_elems(1) [OF assms(1,4), of ch] job_dir_path(1) [OF assms(1,2,3)] path_elems_append by (metis append.assoc append_Cons append_Nil)
  qed
  then obtain es where e: "?C @ [j', chan_name ch] = ?D @ j # es" by blast
  have "?C \<noteq> ?D @ x # ys" "?D \<noteq> ?C @ x # ys" for x ys using assms(1,2) chan_dir_in [of cfg ch] unfolding dirs_ok_def by blast+
  then have "?C = ?D" using e by (auto simp: append_eq_append_conv2 Cons_eq_append_conv append_eq_Cons_conv) (metis neq_Nil_conv)+
  then show ?thesis using e by simp
qed

section \<open>What is stored\<close>

text \<open>The contents of the files of a job, and the backend between two calls that found the disk healthy: nothing is pending, no writer has failed.\<close>

definition stored_text :: "LocalBackend \<Rightarrow> channel \<Rightarrow> string \<Rightarrow> string" where
  "stored_text lb ch j = (case pb_disk lb (chan_path (pb_cfg lb) ch j) of Some (Gz s) \<Rightarrow> s | _ \<Rightarrow> [])"

definition quiet :: "LocalBackend \<Rightarrow> channel \<Rightarrow> string \<Rightarrow> gz_stream \<Rightarrow> bool" where
  "quiet lb ch j st \<longleftrightarrow> st = gz_new (chan_path (pb_cfg lb) ch j) \<and> pb_disk lb (chan_path (pb_cfg lb) ch j) \<noteq> None"

definition backend_ok :: "LocalBackend \<Rightarrow> bool" where
  "backend_ok lb \<longleftrightarrow>
     (\<forall>j lf. pb_logFiles lb j = Some lf \<longrightarrow> job_ok j \<and> quiet lb LogOut j (lf_stdout lf) \<and> quiet lb LogErr j (lf_stderr lf)) \<and>
     (\<forall>kind j ef. pb_eventFiles lb kind j = Some ef \<longrightarrow> job_ok j \<and> quiet lb (Event kind) j (ef_stream ef)) \<and>
     (\<forall>ch j. job_ok j \<longrightarrow> pb_disk lb (chan_path (pb_cfg lb) ch j) \<noteq> Some Damaged) \<and>
     (\<forall>ch j. job_ok j \<longrightarrow> pb_disk lb (chan_path (pb_cfg lb) ch j) \<noteq> None \<longrightarrow> Join_path [chan_dir (pb_cfg lb) ch, j] \<in> pb_dirs lb)"

lemma backend_okD:
  assumes "backend_ok lb"
  shows "pb_logFiles lb j = Some lf \<Longrightarrow> job_ok j \<and> quiet lb LogOut j (lf_stdout lf) \<and> quiet lb LogErr j (lf_stderr lf)"
    "pb_eventFiles lb kind j = Some ef \<Longrightarrow> job_ok j \<and> quiet lb (Event kind) j (ef_stream ef)"
    "job_ok j \<Longrightarrow> pb_disk lb (chan_path (pb_cfg lb) ch j) \<noteq> Some Damaged"
    "job_ok j \<Longrightarrow> pb_disk lb (chan_path (pb_cfg lb) ch j) \<noteq> None \<Longrightarrow> Join_path [chan_dir (pb_cfg lb) ch, j] \<in> pb_dirs lb"
  using assms unfolding backend_ok_def by blast+

lemma disk_text:
  assumes "backend_ok lb" "job_ok j" "pb_disk lb (chan_path (pb_cfg lb) ch j) \<noteq> None"
  shows "pb_disk lb (chan_path (pb_cfg lb) ch j) = Some (Gz (stored_text lb ch j))"
  using assms(3) backend_okD(3) [OF assms(1,2), of ch] by (auto simp: stored_text_def split: gzfile.splits)

text \<open>Two ways the disk changes: a file is made if it is not there, text is appended to a file that is there.\<close>

definition same_cfg :: "LocalBackend \<Rightarrow> LocalBackend \<Rightarrow> bool" where
  "same_cfg lb lb' \<longleftrightarrow> pb_cfg lb' = pb_cfg lb \<and> pb_maxOpenFiles lb' = pb_maxOpenFiles lb \<and> pb_fileHandleTTL lb' = pb_fileHandleTTL lb"

lemma same_cfg_refl [simp]: "same_cfg lb lb" and same_cfg_trans: "same_cfg a b \<Longrightarrow> same_cfg b c \<Longrightarrow> same_cfg a c"
  by (simp_all add: same_cfg_def)

definition reaches :: "LocalBackend \<Rightarrow> LocalBackend \<Rightarrow> (channel \<Rightarrow> string \<Rightarrow> string) \<Rightarrow> bool" where
  "reaches lb lb' f \<longleftrightarrow> same_cfg lb lb' \<and> backend_ok lb' \<and> (\<forall>ch j. job_ok j \<longrightarrow> stored_text lb' ch j = f ch j)"

lemma reaches_same: "backend_ok lb \<Longrightarrow> reaches lb lb (stored_text lb)"
  by (simp add: reaches_def)

lemma reaches_trans: "reaches a b (stored_text a) \<Longrightarrow> reaches b c (stored_text b) \<Longrightarrow> reaches a c (stored_text a)"
  by (auto simp: reaches_def intro: same_cfg_trans)

lemma touch_reaches:
  fixes ch :: channel
  assumes "backend_ok lb" "dirs_ok (pb_cfg lb)" "job_ok j"
  defines "lb' \<equiv> lb\<lparr>pb_dirs := insert (Join_path [chan_dir (pb_cfg lb) ch, j]) (pb_dirs lb), pb_disk := touch_file (chan_path (pb_cfg lb) ch j) (pb_disk lb)\<rparr>"
  shows "reaches lb lb' (stored_text lb)" "pb_disk lb' (chan_path (pb_cfg lb) ch j) \<noteq> None"
    "pb_disk lb q \<noteq> None \<Longrightarrow> pb_disk lb' q \<noteq> None"
proof -
  let ?p = "chan_path (pb_cfg lb) ch j"
  have d: "pb_disk lb' q = (if q = ?p \<and> pb_disk lb ?p = None then Some (Gz []) else pb_disk lb q)" for q by (simp add: lb'_def touch_file_def)
  have inj: "chan_path (pb_cfg lb) ch' j' = ?p \<Longrightarrow> job_ok j' \<Longrightarrow> ch' = ch \<and> j' = j" for ch' j' using chan_path_inj [OF assms(2)] assms(3) by blast
  have q: "quiet lb' c i st" if "quiet lb c i st" for c i st using that d by (auto simp: quiet_def lb'_def)
  have f: "pb_cfg lb' = pb_cfg lb" "pb_logFiles lb' = pb_logFiles lb" "pb_eventFiles lb' = pb_eventFiles lb" "pb_dirs lb' = insert (Join_path [chan_dir (pb_cfg lb) ch, j]) (pb_dirs lb)"
    by (simp_all add: lb'_def)
  note D = backend_okD [OF assms(1)]
  have "pb_disk lb' (chan_path (pb_cfg lb) c i) \<noteq> Some Damaged" if "job_ok i" for c i using D(3) [OF that, of c] d by auto
  moreover have "Join_path [chan_dir (pb_cfg lb) c, i] \<in> pb_dirs lb'" if "job_ok i" "pb_disk lb' (chan_path (pb_cfg lb) c i) \<noteq> None" for c i
    using D(4) [OF that(1), of c] that d inj [of c i] f(4) by (auto split: if_splits)
  ultimately have "backend_ok lb'" unfolding backend_ok_def f using D(1,2) q by blast
  moreover have "stored_text lb' c i = stored_text lb c i" for c i by (simp add: stored_text_def f d)
  ultimately show "reaches lb lb' (stored_text lb)" by (simp add: reaches_def same_cfg_def lb'_def)
  show "pb_disk lb' ?p \<noteq> None" "pb_disk lb q \<noteq> None \<Longrightarrow> pb_disk lb' q \<noteq> None" using d by auto
qed

lemma append_reaches:
  fixes t :: string
  assumes "backend_ok lb" "dirs_ok (pb_cfg lb)" "job_ok j" "pb_disk lb (chan_path (pb_cfg lb) ch j) \<noteq> None"
  defines "lb' \<equiv> lb\<lparr>pb_disk := append_disk (chan_path (pb_cfg lb) ch j) t (pb_disk lb)\<rparr>"
  shows "reaches lb lb' (\<lambda>c i. stored_text lb c i @ (if c = ch \<and> i = j then t else []))" "pb_disk lb q \<noteq> None \<Longrightarrow> pb_disk lb' q \<noteq> None"
proof -
  let ?p = "chan_path (pb_cfg lb) ch j"
  have d: "pb_disk lb' q = (if q = ?p then Some (Gz (stored_text lb ch j @ t)) else pb_disk lb q)" for q
    using disk_text [OF assms(1,3,4)] by (simp add: lb'_def append_disk_def)
  have inj: "chan_path (pb_cfg lb) ch' j' = ?p \<Longrightarrow> job_ok j' \<Longrightarrow> ch' = ch \<and> j' = j" for ch' j' using chan_path_inj [OF assms(2)] assms(3) by blast
  have q: "quiet lb' c i st" if "quiet lb c i st" for c i st using that d by (auto simp: quiet_def lb'_def)
  have f: "pb_cfg lb' = pb_cfg lb" "pb_logFiles lb' = pb_logFiles lb" "pb_eventFiles lb' = pb_eventFiles lb" "pb_dirs lb' = pb_dirs lb" by (simp_all add: lb'_def)
  note D = backend_okD [OF assms(1)]
  have "pb_disk lb' (chan_path (pb_cfg lb) c i) \<noteq> Some Damaged" if "job_ok i" for c i using D(3) [OF that, of c] d by auto
  moreover have "Join_path [chan_dir (pb_cfg lb) c, i] \<in> pb_dirs lb'" if "job_ok i" "pb_disk lb' (chan_path (pb_cfg lb) c i) \<noteq> None" for c i
    using D(4) [OF that(1), of c] that d inj [of c i] f(4) assms(4) by (auto split: if_splits)
  ultimately have "backend_ok lb'" unfolding backend_ok_def f using D(1,2) q by blast
  moreover have "stored_text lb' c i = stored_text lb c i @ (if c = ch \<and> i = j then t else [])" if "job_ok i" for c i
    using inj [of c i] that d by (auto simp: stored_text_def f)
  ultimately show "reaches lb lb' (\<lambda>c i. stored_text lb c i @ (if c = ch \<and> i = j then t else []))" by (simp add: reaches_def same_cfg_def lb'_def)
  show "pb_disk lb q \<noteq> None \<Longrightarrow> pb_disk lb' q \<noteq> None" using d by auto
qed

text \<open>Changing the maps of open files alone.\<close>

lemma put_log_reaches:
  assumes "backend_ok lb" "job_ok j" "quiet lb LogOut j (lf_stdout lf)" "quiet lb LogErr j (lf_stderr lf)"
  shows "reaches lb (lb\<lparr>pb_logFiles := (pb_logFiles lb)(j \<mapsto> lf)\<rparr>) (stored_text lb)"
  using assms by (auto simp: reaches_def same_cfg_def backend_ok_def quiet_def stored_text_def)

lemma put_event_reaches:
  assumes "backend_ok lb" "job_ok j" "quiet lb (Event kind) j (ef_stream ef)"
  shows "reaches lb (set_events kind ((pb_eventFiles lb kind)(j \<mapsto> ef)) lb) (stored_text lb)"
  using assms by (auto simp: reaches_def same_cfg_def backend_ok_def quiet_def stored_text_def set_events_def)

lemma take_reaches:
  assumes "backend_ok lb"
  shows "reaches lb (lb\<lparr>pb_logFiles := (pb_logFiles lb)(j := None)\<rparr>) (stored_text lb)"
    "reaches lb (set_events kind ((pb_eventFiles lb kind)(j := None)) lb) (stored_text lb)"
  using assms by (auto simp: reaches_def same_cfg_def backend_ok_def quiet_def stored_text_def set_events_def split: if_splits)

section \<open>The operations on a healthy disk\<close>

definition healthy :: "disk_calls \<Rightarrow> bool" where
  "healthy x \<longleftrightarrow> (\<forall>p. dc_mkdir x p \<and> dc_open x p \<and> dc_close x p \<and> dc_sync x p \<and> dc_remove x p \<and> (\<forall>n. dc_write x p n))"

lemma healthyD: "healthy x \<Longrightarrow> dc_mkdir x p" "healthy x \<Longrightarrow> dc_open x p" "healthy x \<Longrightarrow> dc_close x p" "healthy x \<Longrightarrow> dc_sync x p"
  "healthy x \<Longrightarrow> dc_remove x p" "healthy x \<Longrightarrow> dc_write x p n"
  by (simp_all add: healthy_def)

text \<open>The lines of a list of records.\<close>

definition json_lines :: "('a \<Rightarrow> string option) \<Rightarrow> 'a list \<Rightarrow> string" where
  "json_lines enc es = concat (map (\<lambda>e. the (enc e) @ nl) es)"

lemma json_lines_simps [simp]: "json_lines enc [] = []" "json_lines enc (e # es) = the (enc e) @ nl @ json_lines enc es"
  "json_lines enc (es @ fs) = json_lines enc es @ json_lines enc fs"
  by (simp_all add: json_lines_def)

lemma getOrCreateEventFile_ok:
  assumes "backend_ok lb" "dirs_ok (pb_cfg lb)" "job_ok j" "healthy x"
  shows "\<exists>lb' ef. getOrCreateEventFile x kind j lb = (lb', Inr ef) \<and> reaches lb lb' (stored_text lb) \<and> quiet lb' (Event kind) j (ef_stream ef)"
proof (cases "pb_eventFiles lb kind j")
  case (Some ef)
  let ?ef = "ef\<lparr>ef_lastAccess := dc_now x\<rparr>"
  have q: "quiet lb (Event kind) j (ef_stream ?ef)" using backend_okD(2) [OF assms(1) Some] by simp
  then have "quiet (set_events kind ((pb_eventFiles lb kind)(j \<mapsto> ?ef)) lb) (Event kind) j (ef_stream ?ef)" by (simp add: quiet_def set_events_def)
  with Some put_event_reaches [OF assms(1,3) q] show ?thesis by (simp add: getOrCreateEventFile_def Let_def)
next
  case None
  let ?p = "chan_path (pb_cfg lb) (Event kind) j" and ?d = "Join_path [event_dir (pb_cfg lb) kind, j]"
  let ?lb = "lb\<lparr>pb_dirs := insert ?d (pb_dirs lb), pb_disk := touch_file ?p (pb_disk lb)\<rparr>" and ?ef = "\<lparr>ef_stream = gz_new ?p, ef_lastAccess = dc_now x\<rparr>"
  have r: "reaches lb ?lb (stored_text lb)" "pb_disk ?lb ?p \<noteq> None" using touch_reaches(1,2) [OF assms(1,2,3), where ch = "Event kind"] by simp_all
  then have q: "quiet ?lb (Event kind) j (ef_stream ?ef)" by (simp add: quiet_def)
  then have q': "quiet (set_events kind ((pb_eventFiles ?lb kind)(j \<mapsto> ?ef)) ?lb) (Event kind) j (ef_stream ?ef)" by (simp add: quiet_def set_events_def)
  have "reaches ?lb (set_events kind ((pb_eventFiles ?lb kind)(j \<mapsto> ?ef)) ?lb) (stored_text ?lb)"
    using put_event_reaches [OF _ assms(3) q] r(1) by (simp add: reaches_def)
  from reaches_trans [OF r(1) this] q' None healthyD(1,2) [OF assms(4)] show ?thesis
    by (simp add: getOrCreateEventFile_def Let_def chan_path_def)
qed

lemma write_events_ok:
  assumes "\<forall>e \<in> set es. enc e \<noteq> None" "healthy x" "\<not> st_failed w" "\<not> st_closed w" "st_open w"
  shows "write_events enc x n es w disk = (w\<lparr>st_pending := st_pending w @ json_lines enc es\<rparr>, disk, Inr ())"
  using assms
proof (induction es arbitrary: n w)
  case (Cons e es)
  then show ?case by (auto simp: gz_write_def healthyD(6) Let_def)
qed simp

lemma gz_close_ok:
  "\<not> st_failed w \<Longrightarrow> \<not> st_closed w \<Longrightarrow> st_open w \<Longrightarrow> gz_close True w disk = (w\<lparr>st_pending := [], st_closed := True\<rparr>, append_disk (st_path w) (st_pending w) disk, True)"
  by (simp add: gz_close_def)

lemma gz_new_simps [simp]: "st_path (gz_new p) = p" "st_pending (gz_new p) = []" "\<not> st_failed (gz_new p)" "\<not> st_closed (gz_new p)" "st_open (gz_new p)"
  by (simp_all add: gz_new_def)

lemma gz_renew_new [simp]: "gz_renew ((gz_new p)\<lparr>st_pending := a, st_closed := b\<rparr>) = gz_new p"
  by (simp add: gz_renew_def gz_new_def)

lemma write_kind_ok:
  assumes "backend_ok lb" "dirs_ok (pb_cfg lb)" "job_ok j" "healthy x" "\<forall>e \<in> set es. enc e \<noteq> None"
  shows "\<exists>lb'. write_kind kind enc x j es lb = (lb', Inr ()) \<and>
    reaches lb lb' (\<lambda>c i. stored_text lb c i @ (if c = Event kind \<and> i = j then json_lines enc es else []))"
proof (cases "kind \<noteq> MetricKind \<and> length es = 0")
  case True
  then show ?thesis using assms(1) by (auto simp: write_kind_def reaches_def)
next
  case False
  let ?p = "chan_path (pb_cfg lb) (Event kind) j"
  obtain lb1 ef where g: "getOrCreateEventFile x kind j lb = (lb1, Inr ef)" "reaches lb lb1 (stored_text lb)" "quiet lb1 (Event kind) j (ef_stream ef)"
    using getOrCreateEventFile_ok [OF assms(1-4)] by blast
  have c: "pb_cfg lb1 = pb_cfg lb" "backend_ok lb1" using g(2) by (simp_all add: reaches_def same_cfg_def)
  have ef: "ef_stream ef = gz_new ?p" "pb_disk lb1 ?p \<noteq> None" using g(3) c by (simp_all add: quiet_def)
  let ?lb2 = "lb1\<lparr>pb_disk := append_disk ?p (json_lines enc es) (pb_disk lb1)\<rparr>" and ?ef = "ef\<lparr>ef_stream := gz_new ?p\<rparr>"
  have r: "reaches lb1 ?lb2 (\<lambda>c i. stored_text lb1 c i @ (if c = Event kind \<and> i = j then json_lines enc es else []))" "pb_disk ?lb2 ?p \<noteq> None"
    using append_reaches(1) [of lb1 j "Event kind", where t = "json_lines enc es"] append_reaches(2) [of lb1 j "Event kind", where t = "json_lines enc es" and q = ?p] c assms(2,3) ef(2) by simp_all
  have q: "reaches ?lb2 (set_events kind ((pb_eventFiles ?lb2 kind)(j \<mapsto> ?ef)) ?lb2) (stored_text ?lb2)"
    using put_event_reaches [OF _ assms(3), of ?lb2 kind ?ef] r c by (simp add: reaches_def quiet_def)
  have "write_kind kind enc x j es lb = (set_events kind ((pb_eventFiles ?lb2 kind)(j \<mapsto> ?ef)) ?lb2, Inr ())"
    using g(1) ef write_events_ok [OF assms(5,4), of "gz_new ?p" 0 "pb_disk lb1"] healthyD(3,4) [OF assms(4)]
    unfolding write_kind_def if_not_P [OF False]
    by (simp add: Let_def flushGenericEventFile_def gz_close_ok gz_new_def gz_renew_def set_events_def)
  then show ?thesis using g(2) r(1) q unfolding reaches_def by (auto intro: same_cfg_trans)
qed

lemma getOrCreateLogFile_ok:
  assumes "backend_ok lb" "dirs_ok (pb_cfg lb)" "job_ok j" "healthy x"
  shows "\<exists>lb' lf. getOrCreateLogFile x j lb = (lb', Inr lf) \<and> reaches lb lb' (stored_text lb) \<and> quiet lb' LogOut j (lf_stdout lf) \<and> quiet lb' LogErr j (lf_stderr lf)"
proof (cases "pb_logFiles lb j")
  case (Some lf)
  let ?lf = "lf\<lparr>lf_lastAccess := dc_now x\<rparr>"
  have q: "quiet lb LogOut j (lf_stdout ?lf)" "quiet lb LogErr j (lf_stderr ?lf)" using backend_okD(1) [OF assms(1) Some] by simp_all
  with Some put_log_reaches [OF assms(1,3) q] show ?thesis by (simp add: getOrCreateLogFile_def Let_def quiet_def)
next
  case None
  let ?o = "chan_path (pb_cfg lb) LogOut j" and ?e = "chan_path (pb_cfg lb) LogErr j" and ?d = "Join_path [lc_LogsDir (pb_cfg lb), j]"
  let ?lb1 = "lb\<lparr>pb_dirs := insert ?d (pb_dirs lb), pb_disk := touch_file ?o (pb_disk lb)\<rparr>"
  let ?lb2 = "?lb1\<lparr>pb_dirs := insert ?d (pb_dirs ?lb1), pb_disk := touch_file ?e (pb_disk ?lb1)\<rparr>"
  let ?lf = "\<lparr>lf_stdout = gz_new ?o, lf_stderr = gz_new ?e, lf_lastAccess = dc_now x\<rparr>"
  have r1: "reaches lb ?lb1 (stored_text lb)" "pb_disk ?lb1 ?o \<noteq> None" using touch_reaches(1,2) [OF assms(1,2,3), where ch = LogOut] by simp_all
  have r2: "reaches ?lb1 ?lb2 (stored_text ?lb1)" "pb_disk ?lb2 ?e \<noteq> None" "pb_disk ?lb2 ?o \<noteq> None"
    using touch_reaches(1,2) [of ?lb1 j, where ch = LogErr] touch_reaches(3) [of ?lb1 j, where ch = LogErr and q = ?o] r1 assms(2,3) by (simp_all add: reaches_def)
  have q: "quiet ?lb2 LogOut j (lf_stdout ?lf)" "quiet ?lb2 LogErr j (lf_stderr ?lf)" using r2 by (simp_all add: quiet_def)
  have r3: "reaches ?lb2 (?lb2\<lparr>pb_logFiles := (pb_logFiles ?lb2)(j \<mapsto> ?lf)\<rparr>) (stored_text ?lb2)"
    using put_log_reaches [OF _ assms(3) q] r2(1) by (simp add: reaches_def)
  from reaches_trans [OF reaches_trans [OF r1(1) r2(1)] r3] q None healthyD(1,2) [OF assms(4)] show ?thesis
    by (simp add: getOrCreateLogFile_def Let_def chan_path_def quiet_def)
qed

definition of_stream :: "bool \<Rightarrow> LogLine list \<Rightarrow> LogLine list" where
  "of_stream out ls = filter (\<lambda>l. (ll_Stream l = STREAM_STDOUT) = out) ls"

lemma of_stream_simps [simp]: "of_stream out [] = []" "of_stream out (ls @ ms) = of_stream out ls @ of_stream out ms"
  by (simp_all add: of_stream_def)

lemma write_lines_ok:
  assumes "\<forall>l \<in> set ls. enc l \<noteq> None" "healthy x"
    "\<not> st_failed (lf_stdout lf)" "\<not> st_closed (lf_stdout lf)" "st_open (lf_stdout lf)" "\<not> st_failed (lf_stderr lf)" "\<not> st_closed (lf_stderr lf)" "st_open (lf_stderr lf)"
  shows "write_lines enc x n ls lf disk =
    (lf\<lparr>lf_stdout := (lf_stdout lf)\<lparr>st_pending := st_pending (lf_stdout lf) @ json_lines enc (of_stream True ls)\<rparr>,
       lf_stderr := (lf_stderr lf)\<lparr>st_pending := st_pending (lf_stderr lf) @ json_lines enc (of_stream False ls)\<rparr>\<rparr>, disk, Inr ())"
  using assms
proof (induction ls arbitrary: n lf)
  case (Cons l ls)
  obtain data where d: "enc l = Some data" using Cons.prems(1) by auto
  show ?case
  proof (cases "ll_Stream l = STREAM_STDOUT")
    case True
    let ?lf = "lf\<lparr>lf_stdout := (lf_stdout lf)\<lparr>st_pending := st_pending (lf_stdout lf) @ data @ nl\<rparr>\<rparr>"
    have "write_lines enc x n (l # ls) lf disk = write_lines enc x (Suc n) ls ?lf disk"
      using True d Cons.prems by (simp add: gz_write_def healthyD(6) Let_def)
    then show ?thesis using Cons.IH [of ?lf "Suc n"] Cons.prems True d by (simp add: of_stream_def)
  next
    case False
    let ?lf = "lf\<lparr>lf_stderr := (lf_stderr lf)\<lparr>st_pending := st_pending (lf_stderr lf) @ data @ nl\<rparr>\<rparr>"
    have "write_lines enc x n (l # ls) lf disk = write_lines enc x (Suc n) ls ?lf disk"
      using False d Cons.prems by (simp add: gz_write_def healthyD(6) Let_def)
    then show ?thesis using Cons.IH [of ?lf "Suc n"] Cons.prems False d by (simp add: of_stream_def)
  qed
qed simp

lemma WriteLogs_ok:
  assumes "backend_ok lb" "dirs_ok (pb_cfg lb)" "job_ok j" "healthy x" "\<forall>l \<in> set ls. enc l \<noteq> None"
  shows "\<exists>lb'. LocalBackend_WriteLogs enc x j ls lb = (lb', Inr ()) \<and>
    reaches lb lb' (\<lambda>c i. stored_text lb c i @ (if c = LogOut \<and> i = j then json_lines enc (of_stream True ls) else []) @ (if c = LogErr \<and> i = j then json_lines enc (of_stream False ls) else []))"
proof -
  let ?o = "chan_path (pb_cfg lb) LogOut j" and ?e = "chan_path (pb_cfg lb) LogErr j"
  let ?out = "json_lines enc (of_stream True ls)" and ?err = "json_lines enc (of_stream False ls)"
  obtain lb1 lf where g: "getOrCreateLogFile x j lb = (lb1, Inr lf)" "reaches lb lb1 (stored_text lb)" "quiet lb1 LogOut j (lf_stdout lf)" "quiet lb1 LogErr j (lf_stderr lf)"
    using getOrCreateLogFile_ok [OF assms(1-4)] by blast
  have c: "pb_cfg lb1 = pb_cfg lb" "backend_ok lb1" using g(2) by (simp_all add: reaches_def same_cfg_def)
  have lf: "lf_stdout lf = gz_new ?o" "lf_stderr lf = gz_new ?e" "pb_disk lb1 ?o \<noteq> None" "pb_disk lb1 ?e \<noteq> None" using g(3,4) c by (simp_all add: quiet_def)
  let ?lb2 = "lb1\<lparr>pb_disk := append_disk ?o ?out (pb_disk lb1)\<rparr>"
  have r2: "reaches lb1 ?lb2 (\<lambda>c i. stored_text lb1 c i @ (if c = LogOut \<and> i = j then ?out else []))" "pb_disk ?lb2 ?o \<noteq> None" "pb_disk ?lb2 ?e \<noteq> None"
    using append_reaches(1) [of lb1 j LogOut, where t = ?out] append_reaches(2) [of lb1 j LogOut, where t = ?out and q = ?o] append_reaches(2) [of lb1 j LogOut, where t = ?out and q = ?e] c assms(2,3) lf(3,4) by simp_all
  let ?lb3 = "?lb2\<lparr>pb_disk := append_disk ?e ?err (pb_disk ?lb2)\<rparr>" and ?lf = "lf\<lparr>lf_stdout := gz_new ?o, lf_stderr := gz_new ?e\<rparr>"
  have r3: "reaches ?lb2 ?lb3 (\<lambda>c i. stored_text ?lb2 c i @ (if c = LogErr \<and> i = j then ?err else []))" "pb_disk ?lb3 ?o \<noteq> None" "pb_disk ?lb3 ?e \<noteq> None"
    using append_reaches(1) [of ?lb2 j LogErr, where t = ?err] append_reaches(2) [of ?lb2 j LogErr, where t = ?err and q = ?o] append_reaches(2) [of ?lb2 j LogErr, where t = ?err and q = ?e] r2 c assms(2,3) by (simp_all add: reaches_def)
  have r4: "reaches ?lb3 (?lb3\<lparr>pb_logFiles := (pb_logFiles ?lb3)(j \<mapsto> ?lf)\<rparr>) (stored_text ?lb3)"
    using put_log_reaches [OF _ assms(3), of ?lb3 ?lf] r3 c by (simp add: reaches_def quiet_def)
  have "LocalBackend_WriteLogs enc x j ls lb = (?lb3\<lparr>pb_logFiles := (pb_logFiles ?lb3)(j \<mapsto> ?lf)\<rparr>, Inr ())"
    using g(1) lf(1,2) write_lines_ok [OF assms(5,4), of lf 0 "pb_disk lb1"] healthyD(3,4) [OF assms(4)]
    by (simp add: LocalBackend_WriteLogs_def Let_def flushLogFile_def gz_close_ok gz_new_def gz_renew_def)
  then show ?thesis using g(2) r2(1) r3(1) r4 unfolding reaches_def by (auto intro: same_cfg_trans)
qed

text \<open>Closing the files of a job of one kind loses nothing.\<close>

lemma append_nothing: "reaches a b (\<lambda>c i. stored_text a c i @ (if c = ch \<and> i = j then [] else [])) \<Longrightarrow> reaches a b (stored_text a)"
  by (simp add: reaches_def)

lemma drop_event_ok:
  assumes "backend_ok lb" "dirs_ok (pb_cfg lb)" "healthy x"
  shows "reaches lb (drop_event x kind j lb) (stored_text lb)" "pb_eventFiles (drop_event x kind j lb) kind j = None"
    "pb_logFiles (drop_event x kind j lb) = pb_logFiles lb" "pb_eventFiles lb k i = None \<Longrightarrow> pb_eventFiles (drop_event x kind j lb) k i = None"
proof -
  show "reaches lb (drop_event x kind j lb) (stored_text lb)"
  proof (cases "pb_eventFiles lb kind j")
    case (Some ef)
    let ?p = "chan_path (pb_cfg lb) (Event kind) j"
    have ef: "job_ok j" "ef_stream ef = gz_new ?p" "pb_disk lb ?p \<noteq> None" using backend_okD(2) [OF assms(1) Some] by (simp_all add: quiet_def)
    let ?lb = "lb\<lparr>pb_disk := append_disk ?p [] (pb_disk lb)\<rparr>"
    have r: "reaches lb ?lb (stored_text lb)" using append_reaches(1) [OF assms(1,2) ef(1,3), where t = "[]"] append_nothing by simp
    then have "reaches ?lb (set_events kind ((pb_eventFiles ?lb kind)(j := None)) ?lb) (stored_text ?lb)" using take_reaches(2) [of ?lb kind j] by (simp add: reaches_def)
    from reaches_trans [OF r this] show ?thesis using Some ef healthyD(3) [OF assms(3)]
      by (simp add: drop_event_def closeEventFile_def Let_def gz_close_ok)
  qed (use assms(1) reaches_same in \<open>simp add: drop_event_def\<close>)
qed (auto simp: drop_event_def set_events_def split: option.splits)

lemma drop_log_ok:
  assumes "backend_ok lb" "dirs_ok (pb_cfg lb)" "healthy x"
  shows "reaches lb (drop_log x j lb) (stored_text lb)" "pb_logFiles (drop_log x j lb) j = None" "pb_eventFiles (drop_log x j lb) = pb_eventFiles lb"
proof -
  show "reaches lb (drop_log x j lb) (stored_text lb)"
  proof (cases "pb_logFiles lb j")
    case (Some lf)
    let ?o = "chan_path (pb_cfg lb) LogOut j" and ?e = "chan_path (pb_cfg lb) LogErr j"
    have lf: "job_ok j" "lf_stdout lf = gz_new ?o" "lf_stderr lf = gz_new ?e" "pb_disk lb ?o \<noteq> None" "pb_disk lb ?e \<noteq> None"
      using backend_okD(1) [OF assms(1) Some] by (simp_all add: quiet_def)
    let ?lb1 = "lb\<lparr>pb_disk := append_disk ?o [] (pb_disk lb)\<rparr>"
    have r1: "reaches lb ?lb1 (stored_text lb)" "pb_disk ?lb1 ?e \<noteq> None"
      using append_reaches(1) [OF assms(1,2) lf(1,4), where t = "[]"] append_reaches(2) [OF assms(1,2) lf(1,4), where t = "[]" and q = ?e] append_nothing lf(5) by simp_all
    let ?lb2 = "?lb1\<lparr>pb_disk := append_disk ?e [] (pb_disk ?lb1)\<rparr>"
    have r2: "reaches ?lb1 ?lb2 (stored_text ?lb1)"
      using append_reaches(1) [of ?lb1 j LogErr, where t = "[]"] r1 assms(2) lf(1) append_nothing by (simp add: reaches_def)
    have r3: "reaches ?lb2 (?lb2\<lparr>pb_logFiles := (pb_logFiles ?lb2)(j := None)\<rparr>) (stored_text ?lb2)" using take_reaches(1) [of ?lb2 j] r2 by (simp add: reaches_def)
    from reaches_trans [OF reaches_trans [OF r1(1) r2] r3] show ?thesis using Some lf(2,3) healthyD(3) [OF assms(3)]
      by (simp add: drop_log_def closeLogFile_def Let_def gz_close_ok)
  qed (use assms(1) reaches_same in \<open>simp add: drop_log_def\<close>)
qed (auto simp: drop_log_def split: option.splits)

lemma fold_reaches:
  assumes "\<And>y lb. backend_ok lb \<Longrightarrow> dirs_ok (pb_cfg lb) \<Longrightarrow> reaches lb (f y lb) (stored_text lb)"
  shows "backend_ok lb \<Longrightarrow> dirs_ok (pb_cfg lb) \<Longrightarrow> reaches lb (fold f ys lb) (stored_text lb)"
proof (induction ys arbitrary: lb)
  case (Cons y ys)
  have r: "reaches lb (f y lb) (stored_text lb)" using assms Cons.prems by blast
  then have "backend_ok (f y lb)" "dirs_ok (pb_cfg (f y lb))" using Cons.prems(2) by (simp_all add: reaches_def same_cfg_def)
  from reaches_trans [OF r Cons.IH [OF this]] show ?case by simp
qed (simp add: reaches_same)

lemma evict_oldest_ok:
  "backend_ok lb \<Longrightarrow> dirs_ok (pb_cfg lb) \<Longrightarrow> healthy x \<Longrightarrow> reaches lb (evict_oldest x n hs lb) (stored_text lb)"
proof (induction hs arbitrary: n lb)
  case (Cons h hs)
  have r: "reaches lb (drop_handle x h lb) (stored_text lb)"
    using drop_log_ok(1) drop_event_ok(1) Cons.prems by (auto simp: drop_handle_def split: handle_kind.splits)
  then have "backend_ok (drop_handle x h lb)" "dirs_ok (pb_cfg (drop_handle x h lb))" using Cons.prems(2) by (simp_all add: reaches_def same_cfg_def)
  then show ?case using Cons.IH Cons.prems reaches_trans [OF r] reaches_same [OF Cons.prems(1)] by simp
qed (simp add: reaches_same)

lemma evictIdleHandles_ok:
  assumes "backend_ok lb" "dirs_ok (pb_cfg lb)" "healthy x"
  shows "reaches lb (evictIdleHandles x ord lb) (stored_text lb)"
proof -
  have l: "reaches a (evict_log x j a) (stored_text a)" if "backend_ok a" "dirs_ok (pb_cfg a)" for a j
    using drop_log_ok(1) [OF that assms(3)] reaches_same [OF that(1)] by (simp add: evict_log_def split: option.splits)
  have e: "reaches a (evict_event x kind j a) (stored_text a)" if "backend_ok a" "dirs_ok (pb_cfg a)" for a kind j
    using drop_event_ok(1) [OF that assms(3)] reaches_same [OF that(1)] by (simp add: evict_event_def split: option.splits)
  let ?a = "fold (evict_log x) (or_log ord) lb"
  have 1: "reaches lb ?a (stored_text lb)" using fold_reaches [of "evict_log x"] l assms by blast
  then have a: "backend_ok ?a" "dirs_ok (pb_cfg ?a)" using assms(2) by (simp_all add: reaches_def same_cfg_def)
  let ?b = "fold (\<lambda>kind lb. evictEventFiles x ord kind lb) all_kinds ?a"
  have "reaches c (evictEventFiles x ord kind c) (stored_text c)" if "backend_ok c" "dirs_ok (pb_cfg c)" for c kind
    unfolding evictEventFiles_def using fold_reaches [of "evict_event x kind"] e that by blast
  then have 2: "reaches ?a ?b (stored_text ?a)" using fold_reaches [of "\<lambda>kind lb. evictEventFiles x ord kind lb"] a by blast
  then have b: "backend_ok ?b" "dirs_ok (pb_cfg ?b)" using a(2) by (simp_all add: reaches_def same_cfg_def)
  have "reaches ?b (evictIdleHandles x ord lb) (stored_text ?b)"
    using evict_oldest_ok [OF b assms(3)] reaches_same [OF b(1)] by (simp add: evictIdleHandles_def evictLRU_def Let_def)
  then show ?thesis using 1 2 reaches_trans by blast
qed

text \<open>Deleting the data of a job.\<close>

definition no_files :: "string \<Rightarrow> LocalBackend \<Rightarrow> bool" where
  "no_files j lb \<longleftrightarrow> pb_logFiles lb j = None \<and> (\<forall>kind. pb_eventFiles lb kind j = None)"

lemma drop_all:
  assumes "backend_ok lb" "dirs_ok (pb_cfg lb)" "healthy x"
  shows "reaches lb (fold (\<lambda>kind. drop_event x kind j) all_kinds (drop_log x j lb)) (stored_text lb)"
    "no_files j (fold (\<lambda>kind. drop_event x kind j) all_kinds (drop_log x j lb))"
proof -
  let ?a = "drop_log x j lb"
  note A = drop_log_ok [OF assms, of j]
  have a: "backend_ok ?a" "dirs_ok (pb_cfg ?a)" using A(1) assms(2) by (simp_all add: reaches_def same_cfg_def)
  have "reaches ?a (fold (\<lambda>kind. drop_event x kind j) ks ?a) (stored_text ?a)" for ks
    using fold_reaches [of "\<lambda>kind. drop_event x kind j"] drop_event_ok(1) assms(3) a by blast
  then show "reaches lb (fold (\<lambda>kind. drop_event x kind j) all_kinds ?a) (stored_text lb)" using reaches_trans [OF A(1)] by blast
  have f: "pb_logFiles (fold (\<lambda>kind. drop_event x kind j) ks b) j = pb_logFiles b j \<and>
      (\<forall>k. k \<in> set ks \<or> pb_eventFiles b k j = None \<longrightarrow> pb_eventFiles (fold (\<lambda>kind. drop_event x kind j) ks b) k j = None)"
    if "backend_ok b" "dirs_ok (pb_cfg b)" for ks b
    using that
  proof (induction ks arbitrary: b)
    case (Cons k ks)
    note E = drop_event_ok(1,2,3) [OF Cons.prems assms(3), of k j] and E4 = drop_event_ok(4) [OF Cons.prems assms(3)]
    have "backend_ok (drop_event x k j b)" "dirs_ok (pb_cfg (drop_event x k j b))" using E(1) Cons.prems(2) by (simp_all add: reaches_def same_cfg_def)
    from Cons.IH [OF this] E(2,3) E4 show ?case by auto
  qed simp
  have "k \<in> set all_kinds" for k by (cases k) (simp_all add: all_kinds_def)
  then show "no_files j (fold (\<lambda>kind. drop_event x kind j) all_kinds ?a)" using f [OF a, of all_kinds] A(2) by (simp add: no_files_def)
qed

lemma below_trans: "below q p \<Longrightarrow> below (q @ ''/'' @ n) p"
  by (auto simp: below_def HasPrefix_iff)

lemma RemoveAll_ok:
  assumes "backend_ok lb" "dirs_ok (pb_cfg lb)" "job_ok j" "no_files j lb" "d \<in> dirs_of (pb_cfg lb)"
  shows "same_cfg lb (RemoveAll (Join_path [d, j]) lb)" "backend_ok (RemoveAll (Join_path [d, j]) lb)" "no_files j (RemoveAll (Join_path [d, j]) lb)"
    "stored_text (RemoveAll (Join_path [d, j]) lb) ch i = (if below (chan_path (pb_cfg lb) ch i) (Join_path [d, j]) then [] else stored_text lb ch i)"
proof -
  let ?p = "Join_path [d, j]" and ?c = "pb_cfg lb"
  have f: "pb_cfg (RemoveAll ?p lb) = ?c" "pb_logFiles (RemoveAll ?p lb) = pb_logFiles lb" "pb_eventFiles (RemoveAll ?p lb) = pb_eventFiles lb"
    "pb_disk (RemoveAll ?p lb) q = (if below q ?p then None else pb_disk lb q)" "pb_dirs (RemoveAll ?p lb) = {q \<in> pb_dirs lb. \<not> below q ?p}" for q
    by (simp_all add: RemoveAll_def)
  note D = backend_okD [OF assms(1)]
  have o: "\<not> below (chan_path ?c ch i) ?p" if "job_ok i" "i \<noteq> j" for ch i using below_other [OF assms(2,5,3) that(1)] that(2) by blast
  have q: "quiet (RemoveAll ?p lb) ch i st" if "quiet lb ch i st" "job_ok i" "i \<noteq> j" for ch i st
    using that o f(1,4) by (simp add: quiet_def)
  have dir: "Join_path [chan_dir ?c ch, i] \<in> pb_dirs (RemoveAll ?p lb)" if "job_ok i" "pb_disk (RemoveAll ?p lb) (chan_path ?c ch i) \<noteq> None" for ch i
  proof -
    have "\<not> below (chan_path ?c ch i) ?p" "pb_disk lb (chan_path ?c ch i) \<noteq> None" using that(2) f(4) by (auto split: if_splits)
    then show ?thesis using D(4) [OF that(1)] f(5) below_trans chan_path_elems(2) [OF assms(2) that(1), of ch] by auto
  qed
  show "backend_ok (RemoveAll ?p lb)" unfolding backend_ok_def f(1,2,3)
  proof (intro conjI allI impI)
    fix i lf
    assume "pb_logFiles lb i = Some lf"
    then show "job_ok i" "quiet (RemoveAll ?p lb) LogOut i (lf_stdout lf)" "quiet (RemoveAll ?p lb) LogErr i (lf_stderr lf)"
      using D(1) [of i lf] q [of _ i] assms(4) by (cases "i = j"; simp add: no_files_def)+
  next
    fix kind i ef
    assume "pb_eventFiles lb kind i = Some ef"
    then show "job_ok i" "quiet (RemoveAll ?p lb) (Event kind) i (ef_stream ef)" using D(2) [of kind i ef] q [of _ i] assms(4) by (cases "i = j"; simp add: no_files_def)+
  qed (use D(3) dir f(4) in auto)
  show "same_cfg lb (RemoveAll ?p lb)" "no_files j (RemoveAll ?p lb)" using assms(4) by (simp_all add: same_cfg_def no_files_def RemoveAll_def)
  show "stored_text (RemoveAll ?p lb) ch i = (if below (chan_path ?c ch i) ?p then [] else stored_text lb ch i)"
    by (simp add: stored_text_def f(1,4))
qed

lemma DeleteJob_ok:
  assumes "backend_ok lb" "dirs_ok (pb_cfg lb)" "job_ok j" "healthy x"
  shows "\<exists>lb'. LocalBackend_DeleteJob x j lb = (lb', Inr ()) \<and> reaches lb lb' (\<lambda>c i. if i = j then [] else stored_text lb c i)"
proof -
  let ?a = "fold (\<lambda>kind. drop_event x kind j) all_kinds (drop_log x j lb)" and ?c = "pb_cfg lb"
  note A = drop_all [OF assms(1,2,4), of j]
  have c: "pb_cfg ?a = ?c" "backend_ok ?a" using A(1) by (simp_all add: reaches_def same_cfg_def)
  let ?b1 = "RemoveAll (Join_path [lc_LogsDir ?c, j]) ?a"
  have R1: "same_cfg ?a ?b1" "backend_ok ?b1" "no_files j ?b1"
    "\<And>ch i. stored_text ?b1 ch i = (if below (chan_path ?c ch i) (Join_path [lc_LogsDir ?c, j]) then [] else stored_text ?a ch i)"
    using RemoveAll_ok [OF c(2) _ assms(3) A(2), of "lc_LogsDir ?c"] c(1) assms(2) by (simp_all add: dirs_of_def)
  have c1: "pb_cfg ?b1 = ?c" using R1(1) c(1) by (simp add: same_cfg_def)
  let ?b2 = "RemoveAll (Join_path [lc_MetricsDir ?c, j]) ?b1"
  have R2: "same_cfg ?b1 ?b2" "backend_ok ?b2" "no_files j ?b2"
    "\<And>ch i. stored_text ?b2 ch i = (if below (chan_path ?c ch i) (Join_path [lc_MetricsDir ?c, j]) then [] else stored_text ?b1 ch i)"
    using RemoveAll_ok [OF R1(2) _ assms(3) R1(3), of "lc_MetricsDir ?c"] c1 assms(2) by (simp_all add: dirs_of_def)
  have c2: "pb_cfg ?b2 = ?c" using R2(1) c1 by (simp add: same_cfg_def)
  let ?b3 = "RemoveAll (Join_path [lc_EventsDir ?c, j]) ?b2"
  have R3: "same_cfg ?b2 ?b3" "backend_ok ?b3"
    "\<And>ch i. stored_text ?b3 ch i = (if below (chan_path ?c ch i) (Join_path [lc_EventsDir ?c, j]) then [] else stored_text ?b2 ch i)"
    using RemoveAll_ok [OF R2(2) _ assms(3) R2(3), of "lc_EventsDir ?c"] c2 assms(2) by (simp_all add: dirs_of_def)
  have "stored_text ?b3 ch i = (if i = j then [] else stored_text lb ch i)" if "job_ok i" for ch i
  proof (cases "i = j")
    case True
    have "chan_dir ?c ch \<in> dirs_of ?c" by (rule chan_dir_in)
    then show ?thesis using below_own [OF assms(2,3), of ch] True R1(4) R2(4) R3(3) by (auto simp: dirs_of_def)
  next
    case False
    then have "\<not> below (chan_path ?c ch i) (Join_path [d, j])" if "d \<in> dirs_of ?c" for d using below_other [OF assms(2) that assms(3) \<open>job_ok i\<close>] by blast
    then show ?thesis using False R1(4) R2(4) R3(3) A(1) that by (simp add: dirs_of_def reaches_def)
  qed
  moreover have "LocalBackend_DeleteJob x j lb = (?b3, Inr ())"
    using healthyD(5) [OF assms(4)] c(1) by (simp add: LocalBackend_DeleteJob_def Let_def)
  moreover have "same_cfg lb ?b3" using A(1) R1(1) R2(1) R3(1) unfolding reaches_def by (blast intro: same_cfg_trans)
  ultimately show ?thesis using R3(2) by (auto simp: reaches_def)
qed

section \<open>Reading what was written\<close>

text \<open>What the JSON codec does for a record: a line that is not empty, has no line break, fits into the scanner and is decoded to the record.\<close>

definition json_ok :: "('a \<Rightarrow> string option) \<Rightarrow> (string \<Rightarrow> 'a option) \<Rightarrow> 'a \<Rightarrow> bool" where
  "json_ok enc dec e \<longleftrightarrow> (\<exists>s. enc e = Some s \<and> dec s = Some e \<and> s \<noteq> [] \<and> CHR 0x0A \<notin> set s \<and> last s \<noteq> CHR 0x0D \<and> length s < scanner_max)"

lemma json_okD:
  assumes "json_ok enc dec e"
  shows "enc e \<noteq> None" "dec (the (enc e)) = Some e" "the (enc e) \<noteq> []" "CHR 0x0A \<notin> set (the (enc e))" "drop_cr (the (enc e)) = the (enc e)"
    "\<not> length (the (enc e)) + 1 > scanner_max"
  using assms by (auto simp: json_ok_def drop_cr_def)

lemma scan_json_lines: "\<forall>e \<in> set es. json_ok enc dec e \<Longrightarrow> scan_lines (json_lines enc es) = map (\<lambda>e. the (enc e)) es"
proof -
  assume ok: "\<forall>e \<in> set es. json_ok enc dec e"
  then have "Split (CHR 0x0A) (json_lines enc es) = map (\<lambda>e. the (enc e)) es @ [[]]"
  proof (induction es)
    case (Cons e es)
    then show ?case using Split_append [of "CHR 0x0A" "the (enc e)" "json_lines enc es"] json_okD(4) [of enc dec e]
      by (simp add: nl_def Split_no_sep)
  qed simp
  then show ?thesis by (simp add: scan_lines_def)
qed

text \<open>The records a query asks for.\<close>

definition selected :: "('a \<Rightarrow> bool) \<Rightarrow> int \<Rightarrow> int \<Rightarrow> 'a list \<Rightarrow> 'a list" where
  "selected keep offset limit es = (let ks = drop (nat offset) (filter keep es) in if limit > 0 then take (nat limit) ks else ks)"

definition selected_from :: "('a \<Rightarrow> bool) \<Rightarrow> int \<Rightarrow> int \<Rightarrow> query_state \<Rightarrow> 'a list \<Rightarrow> 'a list" where
  "selected_from keep offset limit q es =
     (let ks = drop (nat (offset - qs_skipped q)) (filter keep es) in if limit > 0 then take (nat (limit - qs_count q)) ks else ks)"

lemma selected_from_start: "selected_from keep offset limit query_start es = selected keep offset limit es"
  by (simp add: selected_from_def selected_def query_start_def Let_def)

lemma read_loop_selects:
  assumes "\<forall>e \<in> set es. json_ok enc dec e"
  shows "fst (read_loop dec keep offset limit (map (\<lambda>e. the (enc e)) es) q) = selected_from keep offset limit q es \<and>
    snd (snd (read_loop dec keep offset limit (map (\<lambda>e. the (enc e)) es) q)) \<noteq> TooLong"
  using assms
proof (induction es arbitrary: q)
  case (Cons e es)
  then have e: "json_ok enc dec e" by simp
  note J = json_okD [OF e] and IH = Cons.IH [OF ballI [OF Cons.prems [rule_format, OF list.set_intros(2)]]]
  consider "\<not> keep e" | "keep e" "qs_skipped q < offset" | "keep e" "\<not> qs_skipped q < offset" "limit > 0 \<and> qs_count q \<ge> limit" | "keep e" "\<not> qs_skipped q < offset" "\<not> (limit > 0 \<and> qs_count q \<ge> limit)" by blast
  then show ?case
  proof cases
    case 1
    then show ?thesis using J IH [of q] by (simp add: selected_from_def Let_def)
  next
    case 2
    then have "nat (offset - qs_skipped q) = Suc (nat (offset - (qs_skipped q + 1)))" by simp
    then show ?thesis using 2 J IH [of "q\<lparr>qs_skipped := qs_skipped q + 1\<rparr>"] by (simp add: selected_from_def Let_def)
  next
    case 3
    then show ?thesis using J by (simp add: selected_from_def Let_def)
  next
    case 4
    then have "limit > 0 \<Longrightarrow> nat (limit - qs_count q) = Suc (nat (limit - (qs_count q + 1)))" "nat (offset - qs_skipped q) = 0" by simp_all
    then show ?thesis using 4 J IH [of "q\<lparr>qs_count := qs_count q + 1\<rparr>"] by (simp add: selected_from_def Let_def split_beta)
  qed
qed (simp add: selected_from_def Let_def)

lemma read_loop_append:
  "read_loop dec keep offset limit (ls @ ms) q =
     (let (es, q', e) = read_loop dec keep offset limit ls q
      in if e = AllRead then (let (fs, r) = read_loop dec keep offset limit ms q' in (es @ fs, r)) else (es, q', e))"
  by (induction dec keep offset limit ls q rule: read_loop.induct) (auto simp: Let_def split: prod.splits option.splits)

text \<open>Two files are read like one file with the lines of both.\<close>

lemma read_two_files:
  assumes f: "disk p1 = Some (Gz s1) \<or> disk p1 = None \<and> s1 = []" "disk p2 = Some (Gz s2) \<or> disk p2 = None \<and> s2 = []" "dc_open x p1" "dc_open x p2" and e: "s1 = json_lines enc es1" "s2 = json_lines enc es2"
    and ok: "\<forall>e \<in> set (es1 @ es2). json_ok enc dec e"
  shows "read_log_files x dec q disk [p1, p2] query_start = (selected (keep_log q) (lq_Offset q) (lq_Limit q) (es1 @ es2), None)"
    "read_log_files x dec q disk [p1] query_start = (selected (keep_log q) (lq_Offset q) (lq_Limit q) es1, None)"
    "read_log_files x dec q disk [p2] query_start = (selected (keep_log q) (lq_Offset q) (lq_Limit q) es2, None)"
proof -
  let ?r = "read_loop dec (keep_log q) (lq_Offset q) (lq_Limit q)"
  have l: "scan_lines s1 = map (\<lambda>e. the (enc e)) es1" "scan_lines s2 = map (\<lambda>e. the (enc e)) es2" using scan_json_lines [of es1 enc dec] scan_json_lines [of es2 enc dec] e ok by auto
  obtain a q1 e1 where r1: "?r (map (\<lambda>e. the (enc e)) es1) query_start = (a, q1, e1)" by (metis prod_cases3)
  obtain b q2 e2 where r2: "?r (map (\<lambda>e. the (enc e)) es2) q1 = (b, q2, e2)" by (metis prod_cases3)
  obtain c q3 e3 where r3: "?r (map (\<lambda>e. the (enc e)) es2) query_start = (c, q3, e3)" by (metis prod_cases3)
  have s: "?r (map (\<lambda>e. the (enc e)) (es1 @ es2)) query_start = (if e1 = AllRead then (a @ b, q2, e2) else (a, q1, e1))"
    using r1 r2 by (simp add: read_loop_append)
  have S: "fst (?r (map (\<lambda>e. the (enc e)) (es1 @ es2)) query_start) = selected (keep_log q) (lq_Offset q) (lq_Limit q) (es1 @ es2)" "a = selected (keep_log q) (lq_Offset q) (lq_Limit q) es1"
    "c = selected (keep_log q) (lq_Offset q) (lq_Limit q) es2" and T: "e1 \<noteq> TooLong" "e2 \<noteq> TooLong" "e3 \<noteq> TooLong"
    using read_loop_selects [of "es1 @ es2" enc dec "keep_log q" "lq_Offset q" "lq_Limit q" query_start] read_loop_selects [of es1 enc dec "keep_log q" "lq_Offset q" "lq_Limit q" query_start]
      read_loop_selects [of es2 enc dec "keep_log q" "lq_Offset q" "lq_Limit q" query_start] read_loop_selects [of es2 enc dec "keep_log q" "lq_Offset q" "lq_Limit q" q1] ok r1 r2 r3
    by (simp_all add: selected_from_start)
  have "selected (keep_log q) (lq_Offset q) (lq_Limit q) (es1 @ es2) = (if e1 = AllRead then a @ b else a)" using S(1) s by (simp split: if_splits)
  moreover have "e1 = AllRead \<or> e1 = LimitReached" using T(1) by (cases e1) simp_all
  ultimately show "read_log_files x dec q disk [p1, p2] query_start = (selected (keep_log q) (lq_Offset q) (lq_Limit q) (es1 @ es2), None)"
    using f l r1 r2 T(2) by (auto simp: gz_lines_def Let_def scan_lines_def)
  show "read_log_files x dec q disk [p1] query_start = (selected (keep_log q) (lq_Offset q) (lq_Limit q) es1, None)" using f l r1 T(1) S(2) by (auto simp: gz_lines_def Let_def scan_lines_def)
  show "read_log_files x dec q disk [p2] query_start = (selected (keep_log q) (lq_Offset q) (lq_Limit q) es2, None)" using f l r3 T(3) S(3) by (auto simp: gz_lines_def Let_def scan_lines_def)
qed

lemma read_event_file_selects:
  assumes "dc_open x p" "\<forall>e \<in> set es. json_ok enc dec e"
  shows "read_event_file x dec q p (Gz (json_lines enc es)) =
    (selected (\<lambda>e. in_range (tq_StartTime q) (tq_EndTime q) (te_Timestamp e)) (tq_Offset q) (tq_Limit q) es, None)"
proof -
  let ?k = "\<lambda>e. in_range (tq_StartTime q) (tq_EndTime q) (te_Timestamp e)"
  obtain a q1 e1 where r: "read_loop dec ?k (tq_Offset q) (tq_Limit q) (map (\<lambda>e. the (enc e)) es) query_start = (a, q1, e1)" by (metis prod_cases3)
  then show ?thesis using assms scan_json_lines [OF assms(2)] read_loop_selects [OF assms(2), of ?k "tq_Offset q" "tq_Limit q" query_start]
    by (simp add: read_event_file_def gz_lines_def Let_def selected_from_start)
qed

section \<open>Runs\<close>

text \<open>One call after the other, since each holds the lock; every call comes with what the system answers during it. The eviction runs by itself.\<close>

datatype backend_op =
    OpLogs disk_calls string "LogLine list"
  | OpEvents disk_calls event_kind string "telemetry list"
  | OpDelete disk_calls string
  | OpEvict disk_calls orders

fun backend_apply :: "(LogLine \<Rightarrow> string option) \<Rightarrow> (telemetry \<Rightarrow> string option) \<Rightarrow> backend_op \<Rightarrow> LocalBackend \<Rightarrow> LocalBackend" where
  "backend_apply encL encE (OpLogs x j ls) lb = fst (LocalBackend_WriteLogs encL x j ls lb)"
| "backend_apply encL encE (OpEvents x kind j es) lb = fst (write_kind kind encE x j es lb)"
| "backend_apply encL encE (OpDelete x j) lb = fst (LocalBackend_DeleteJob x j lb)"
| "backend_apply encL encE (OpEvict x ord) lb = evictIdleHandles x ord lb"

definition backend_run :: "(LogLine \<Rightarrow> string option) \<Rightarrow> (telemetry \<Rightarrow> string option) \<Rightarrow> backend_op list \<Rightarrow> LocalBackend \<Rightarrow> LocalBackend" where
  "backend_run encL encE ops lb = fold (backend_apply encL encE) ops lb"

text \<open>The log lines and the events written for a job since its data was deleted last.\<close>

fun log_op :: "string \<Rightarrow> backend_op \<Rightarrow> LogLine list \<Rightarrow> LogLine list" where
  "log_op j (OpLogs x i ls) acc = (if i = j then acc @ ls else acc)"
| "log_op j (OpDelete x i) acc = (if i = j then [] else acc)"
| "log_op j _ acc = acc"

fun event_op :: "event_kind \<Rightarrow> string \<Rightarrow> backend_op \<Rightarrow> telemetry list \<Rightarrow> telemetry list" where
  "event_op kind j (OpEvents x k i es) acc = (if i = j \<and> k = kind then acc @ es else acc)"
| "event_op kind j (OpDelete x i) acc = (if i = j then [] else acc)"
| "event_op kind j _ acc = acc"

definition logged :: "string \<Rightarrow> backend_op list \<Rightarrow> LogLine list" where
  "logged j ops = fold (log_op j) ops []"

definition recorded :: "event_kind \<Rightarrow> string \<Rightarrow> backend_op list \<Rightarrow> telemetry list" where
  "recorded kind j ops = fold (event_op kind j) ops []"

text \<open>Calls on a healthy disk, with identifiers that are plain names and records the codec is faithful for.\<close>

fun good_op :: "(LogLine \<Rightarrow> string option) \<Rightarrow> (string \<Rightarrow> LogLine option) \<Rightarrow> (telemetry \<Rightarrow> string option) \<Rightarrow> (string \<Rightarrow> telemetry option) \<Rightarrow> backend_op \<Rightarrow> bool" where
  "good_op encL decL encE decE (OpLogs x j ls) = (healthy x \<and> job_ok j \<and> (\<forall>l \<in> set ls. json_ok encL decL l))"
| "good_op encL decL encE decE (OpEvents x kind j es) = (healthy x \<and> job_ok j \<and> (\<forall>e \<in> set es. json_ok encE decE e))"
| "good_op encL decL encE decE (OpDelete x j) = (healthy x \<and> job_ok j)"
| "good_op encL decL encE decE (OpEvict x ord) = healthy x"

lemma run_stores:
  assumes "backend_ok lb0" "dirs_ok (pb_cfg lb0)" "\<And>ch j. job_ok j \<Longrightarrow> stored_text lb0 ch j = []" "\<forall>op \<in> set ops. good_op encL decL encE decE op"
  defines "lb \<equiv> backend_run encL encE ops lb0"
  shows "same_cfg lb0 lb \<and> backend_ok lb \<and>
    (\<forall>j. job_ok j \<longrightarrow> stored_text lb LogOut j = json_lines encL (of_stream True (logged j ops)) \<and> stored_text lb LogErr j = json_lines encL (of_stream False (logged j ops)) \<and>
      (\<forall>kind. stored_text lb (Event kind) j = json_lines encE (recorded kind j ops)) \<and>
      (\<forall>l \<in> set (logged j ops). json_ok encL decL l) \<and> (\<forall>kind. \<forall>e \<in> set (recorded kind j ops). json_ok encE decE e))"
  using assms(4) unfolding lb_def
proof (induction ops rule: rev_induct)
  case Nil
  then show ?case using assms(1,3) by (simp add: backend_run_def logged_def recorded_def)
next
  case (snoc op ops)
  let ?lb = "backend_run encL encE ops lb0"
  have I: "same_cfg lb0 ?lb" "backend_ok ?lb" and
    T: "job_ok j \<Longrightarrow> stored_text ?lb LogOut j = json_lines encL (of_stream True (logged j ops))" "job_ok j \<Longrightarrow> stored_text ?lb LogErr j = json_lines encL (of_stream False (logged j ops))"
      "job_ok j \<Longrightarrow> stored_text ?lb (Event kind) j = json_lines encE (recorded kind j ops)" and
    K: "job_ok j \<Longrightarrow> l \<in> set (logged j ops) \<Longrightarrow> json_ok encL decL l" "job_ok j \<Longrightarrow> e \<in> set (recorded kind j ops) \<Longrightarrow> json_ok encE decE e" for j l kind e
    using snoc.IH snoc.prems by simp_all
  have d: "dirs_ok (pb_cfg ?lb)" using I(1) assms(2) by (simp add: same_cfg_def)
  have step: "backend_run encL encE (ops @ [op]) lb0 = backend_apply encL encE op ?lb" by (simp add: backend_run_def)
  have h: "logged j (ops @ [op]) = log_op j op (logged j ops)" "recorded kind j (ops @ [op]) = event_op kind j op (recorded kind j ops)" for j kind
    by (simp_all add: logged_def recorded_def)
  have good: "good_op encL decL encE decE op" using snoc.prems by simp
  have fin: ?case if lb': "backend_apply encL encE op ?lb = lb'" "same_cfg ?lb lb'" "backend_ok lb'"
    and L: "\<And>i. job_ok i \<Longrightarrow> stored_text lb' LogOut i = json_lines encL (of_stream True (log_op i op (logged i ops)))"
      "\<And>i. job_ok i \<Longrightarrow> stored_text lb' LogErr i = json_lines encL (of_stream False (log_op i op (logged i ops)))"
    and E: "\<And>i kind. job_ok i \<Longrightarrow> stored_text lb' (Event kind) i = json_lines encE (event_op kind i op (recorded kind i ops))"
    and C: "\<And>i l. job_ok i \<Longrightarrow> l \<in> set (log_op i op (logged i ops)) \<Longrightarrow> json_ok encL decL l" "\<And>i kind e. job_ok i \<Longrightarrow> e \<in> set (event_op kind i op (recorded kind i ops)) \<Longrightarrow> json_ok encE decE e"
    for lb'
    unfolding step h lb'(1)
    by (intro conjI allI impI ballI) (rule same_cfg_trans [OF I(1) lb'(2)] lb'(3) | (rule L E, assumption) | (rule C, assumption, assumption))+
  show ?case
  proof (cases op)
    case (OpLogs x j ls)
    then have g: "job_ok j" "healthy x" "\<forall>l \<in> set ls. json_ok encL decL l" using good by simp_all
    have n: "\<forall>l \<in> set ls. encL l \<noteq> None" using g(3) json_okD(1) by fast
    obtain lb' where w: "LocalBackend_WriteLogs encL x j ls ?lb = (lb', Inr ())"
      and r: "reaches ?lb lb' (\<lambda>c i. stored_text ?lb c i @ (if c = LogOut \<and> i = j then json_lines encL (of_stream True ls) else []) @ (if c = LogErr \<and> i = j then json_lines encL (of_stream False ls) else []))"
      using WriteLogs_ok [OF I(2) d g(1,2) n] by blast
    have R: "same_cfg ?lb lb'" "backend_ok lb'" using r by (simp_all add: reaches_def)
    note R3 = r [unfolded reaches_def, THEN conjunct2, THEN conjunct2, rule_format]
    show ?thesis
    proof (rule fin [of lb'])
      show "backend_apply encL encE op ?lb = lb'" using OpLogs w by simp
    qed (use R in \<open>simp_all add: OpLogs R3 T\<close>, use K g(3) in \<open>auto split: if_splits\<close>)
  next
    case (OpEvents x k j es)
    then have g: "job_ok j" "healthy x" "\<forall>l \<in> set es. json_ok encE decE l" using good by simp_all
    have n: "\<forall>e \<in> set es. encE e \<noteq> None" using g(3) json_okD(1) by fast
    obtain lb' where w: "write_kind k encE x j es ?lb = (lb', Inr ())"
      and r: "reaches ?lb lb' (\<lambda>c i. stored_text ?lb c i @ (if c = Event k \<and> i = j then json_lines encE es else []))"
      using write_kind_ok [OF I(2) d g(1,2) n] by blast
    have R: "same_cfg ?lb lb'" "backend_ok lb'" using r by (simp_all add: reaches_def)
    note R3 = r [unfolded reaches_def, THEN conjunct2, THEN conjunct2, rule_format]
    show ?thesis
    proof (rule fin [of lb'])
      show "backend_apply encL encE op ?lb = lb'" using OpEvents w by simp
    qed (use R in \<open>simp_all add: OpEvents R3 T\<close>, use K g(3) in \<open>auto split: if_splits\<close>)
  next
    case (OpDelete x j)
    then have g: "job_ok j" "healthy x" using good by simp_all
    obtain lb' where w: "LocalBackend_DeleteJob x j ?lb = (lb', Inr ())" and r: "reaches ?lb lb' (\<lambda>c i. if i = j then [] else stored_text ?lb c i)"
      using DeleteJob_ok [OF I(2) d g] by blast
    have R: "same_cfg ?lb lb'" "backend_ok lb'" using r by (simp_all add: reaches_def)
    note R3 = r [unfolded reaches_def, THEN conjunct2, THEN conjunct2, rule_format]
    show ?thesis
    proof (rule fin [of lb'])
      show "backend_apply encL encE op ?lb = lb'" using OpDelete w by simp
    qed (use R in \<open>simp_all add: OpDelete R3 T\<close>, use K in \<open>auto split: if_splits\<close>)
  next
    case (OpEvict x ord)
    then have r: "reaches ?lb (evictIdleHandles x ord ?lb) (stored_text ?lb)" using evictIdleHandles_ok [OF I(2) d] good by simp
    have R: "same_cfg ?lb (evictIdleHandles x ord ?lb)" "backend_ok (evictIdleHandles x ord ?lb)" using r by (simp_all add: reaches_def)
    note R3 = r [unfolded reaches_def, THEN conjunct2, THEN conjunct2, rule_format]
    show ?thesis
    proof (rule fin [of "evictIdleHandles x ord ?lb"])
      show "backend_apply encL encE op ?lb = evictIdleHandles x ord ?lb" using OpEvict by simp
    qed (use R in \<open>simp_all add: OpEvict R3 T\<close>, use K in \<open>auto split: if_splits\<close>)
  qed
qed

lemma NewLocalBackend_ok:
  assumes "NewLocalBackend x cfg dirs Map.empty = Inr lb"
  shows "backend_ok lb" "pb_cfg lb = cfg" "stored_text lb ch j = []" "pb_logFiles lb = Map.empty" "pb_eventFiles lb = (\<lambda>_. Map.empty)"
  using assms by (auto simp: NewLocalBackend_def backend_ok_def stored_text_def Let_def split: if_splits)

lemma chan_path_join3: "dirs_ok cfg \<Longrightarrow> job_ok j \<Longrightarrow> Join_path [event_dir cfg kind, j, event_filename kind] = chan_path cfg (Event kind) j"
proof -
  assume c: "dirs_ok cfg" "job_ok j"
  let ?d = "event_dir cfg kind"
  have abs: "IsAbs ?d" using c(1) chan_dir_in [of cfg "Event kind"] by (simp add: dirs_ok_def)
  let ?q = "?d @ ''/'' @ j @ ''/'' @ event_filename kind"
  have J: "Join_path [?d, j, event_filename kind] = Clean ?q" using IsAbs_not_Nil [OF abs] by (simp add: Join_path_def)
  have q: "IsAbs ?q" "?q \<noteq> []" using IsAbs_append [OF abs] IsAbs_not_Nil [OF abs] by auto
  have n: "is_plain (event_filename kind)" "event_filename kind \<noteq> ''..''" using chan_name_plain [of "Event kind"] by simp_all
  have "path_elems ?q = path_elems ?d @ [j, event_filename kind]"
    using c(2) n path_elems_append [of ?d "j @ ''/'' @ event_filename kind"] path_elems_append [of j "event_filename kind"] by (simp add: job_ok_def path_elems_single)
  moreover have "j \<noteq> ''..''" using c(2) by (simp add: job_ok_def)
  ultimately have e: "path_elems (Clean ?q) = path_elems (Clean ?d) @ [j, event_filename kind]"
    using abs q n(2) by (simp add: path_elems_Clean clean_elems_append)
  have "Clean ?q = CHR ''/'' # Join ''/'' (path_elems (Clean ?d) @ [j, event_filename kind])" using Clean_render [OF q(2)] q(1) e by (simp add: render_def)
  also have "\<dots> = CHR ''/'' # Join ''/'' (path_elems (Clean ?d) @ [j]) @ ''/'' @ event_filename kind"
    using Join_append [of "path_elems (Clean ?d) @ [j]" "[event_filename kind]" "''/''"] by simp
  also have "\<dots> = chan_path cfg (Event kind) j" using chan_path_elems(2) [OF c, of "Event kind"] job_dir_path(4) [OF c(1) chan_dir_in c(2), of "Event kind"] by simp
  finally show ?thesis using J by simp
qed

text \<open>Closing the backend leaves the disk as it is, since nothing is pending between two calls.\<close>

definition idle :: "gz_stream \<Rightarrow> bool" where
  "idle st \<longleftrightarrow> st_pending st = [] \<and> \<not> st_failed st \<and> (st_closed st \<or> st_open st)"

definition all_idle :: "LocalBackend \<Rightarrow> bool" where
  "all_idle lb \<longleftrightarrow> (\<forall>j lf. pb_logFiles lb j = Some lf \<longrightarrow> idle (lf_stdout lf) \<and> idle (lf_stderr lf)) \<and> (\<forall>kind j ef. pb_eventFiles lb kind j = Some ef \<longrightarrow> idle (ef_stream ef))"

lemma append_disk_nothing: "append_disk p [] disk = disk"
  by (auto simp: append_disk_def fun_eq_iff split: option.splits gzfile.splits)

lemma close_idle: "idle st \<Longrightarrow> gz_close True st disk = (st', disk', ok) \<Longrightarrow> disk' = disk \<and> idle (close_file st')"
  by (auto simp: gz_close_def idle_def close_file_def append_disk_nothing split: if_splits)

definition same_disk :: "LocalBackend \<Rightarrow> LocalBackend \<Rightarrow> bool" where
  "same_disk lb lb' \<longleftrightarrow> pb_cfg lb' = pb_cfg lb \<and> pb_disk lb' = pb_disk lb \<and> pb_dirs lb' = pb_dirs lb \<and> all_idle lb'"

lemma close_steps:
  assumes "all_idle lb" "healthy x"
  shows "same_disk lb (close_log x j lb)" "same_disk lb (close_event x kind j lb)"
proof -
  show "same_disk lb (close_log x j lb)"
  proof (cases "pb_logFiles lb j")
    case (Some lf)
    obtain o1 d1 b1 where 1: "gz_close True (lf_stdout lf) (pb_disk lb) = (o1, d1, b1)" by (metis prod_cases3)
    obtain o2 d2 b2 where 2: "gz_close True (lf_stderr lf) d1 = (o2, d2, b2)" by (metis prod_cases3)
    have "idle (lf_stdout lf)" "idle (lf_stderr lf)" using assms(1) Some by (auto simp: all_idle_def)
    with close_idle [OF _ 1] close_idle [OF _ 2] Some 1 2 assms healthyD(3) [OF assms(2)] show ?thesis
      by (auto simp: same_disk_def close_log_def closeLogFile_def all_idle_def Let_def)
  qed (use assms in \<open>simp add: same_disk_def close_log_def\<close>)
  show "same_disk lb (close_event x kind j lb)"
  proof (cases "pb_eventFiles lb kind j")
    case (Some ef)
    obtain o1 d1 b1 where 1: "gz_close True (ef_stream ef) (pb_disk lb) = (o1, d1, b1)" by (metis prod_cases3)
    have "idle (ef_stream ef)" using assms(1) Some by (auto simp: all_idle_def)
    with close_idle [OF _ 1] Some 1 assms healthyD(3) [OF assms(2)] show ?thesis
      by (auto simp: same_disk_def close_event_def closeEventFile_def all_idle_def set_events_def Let_def split: if_splits)
  qed (use assms in \<open>simp add: same_disk_def close_event_def\<close>)
qed

lemma fold_same_disk: "(\<And>y lb. all_idle lb \<Longrightarrow> same_disk lb (f y lb)) \<Longrightarrow> all_idle lb \<Longrightarrow> same_disk lb (fold f ys lb)"
proof (induction ys arbitrary: lb)
  case (Cons y ys)
  have "same_disk lb (f y lb)" using Cons.prems by blast
  moreover from this have "same_disk (f y lb) (fold f ys (f y lb))" using Cons.IH [OF Cons.prems(1)] by (simp add: same_disk_def)
  ultimately show ?case by (simp add: same_disk_def)
qed (simp add: same_disk_def)

lemma Close_disk:
  assumes "backend_ok lb" "healthy x"
  shows "pb_cfg (LocalBackend_Close x ord lb) = pb_cfg lb" "pb_disk (LocalBackend_Close x ord lb) = pb_disk lb" "pb_dirs (LocalBackend_Close x ord lb) = pb_dirs lb"
proof -
  have i: "all_idle lb" using backend_okD(1,2) [OF assms(1)] by (auto simp: all_idle_def idle_def quiet_def)
  have 1: "same_disk lb (fold (close_log x) (or_log ord) lb)" using fold_same_disk [of "close_log x"] close_steps(1) assms(2) i by blast
  have "same_disk a (fold (close_event x kind) (or_event ord kind) a)" if "all_idle a" for kind a
    using fold_same_disk [of "close_event x kind"] close_steps(2) assms(2) that by blast
  then have "same_disk a (fold (\<lambda>kind lb. fold (close_event x kind) (or_event ord kind) lb) ks a)" if "all_idle a" for ks a
    using fold_same_disk [of "\<lambda>kind lb. fold (close_event x kind) (or_event ord kind) lb"] that by blast
  then have "same_disk (fold (close_log x) (or_log ord) lb) (LocalBackend_Close x ord lb)" using 1 unfolding LocalBackend_Close_def same_disk_def by blast
  with 1 show "pb_cfg (LocalBackend_Close x ord lb) = pb_cfg lb" "pb_disk (LocalBackend_Close x ord lb) = pb_disk lb" "pb_dirs (LocalBackend_Close x ord lb) = pb_dirs lb"
    by (simp_all add: same_disk_def)
qed

section \<open>Properties\<close>

lemma of_stream_all: "\<forall>l \<in> set ls. P l \<Longrightarrow> \<forall>l \<in> set (of_stream True ls @ of_stream False ls). P l"
  by (auto simp: of_stream_def)

definition example_persist_cfg :: local_config where
  "example_persist_cfg = \<lparr>lc_LogsDir = ''/var/l/logs'', lc_MetricsDir = ''/var/l/metrics'', lc_EventsDir = ''/var/l/events'', lc_MaxOpenFiles = 1, lc_FileHandleTTL = 0\<rparr>"

definition example_disk_calls :: disk_calls where
  "example_disk_calls = \<lparr>dc_now = 5, dc_mkdir = (\<lambda>p. True), dc_open = (\<lambda>p. True), dc_write = (\<lambda>p n. True), dc_close = (\<lambda>p. True), dc_sync = (\<lambda>p. True), dc_remove = (\<lambda>p. True),
     dc_damaged = (\<lambda>p. ([], False)), dc_resume = (\<lambda>p. ([], False))\<rparr>"

definition example_backend :: LocalBackend where
  "example_backend = \<lparr>pb_cfg = example_persist_cfg, pb_logFiles = Map.empty, pb_eventFiles = (\<lambda>_. Map.empty), pb_maxOpenFiles = 1, pb_fileHandleTTL = 300 * 1000000000,
     pb_dirs = {''/var/l/logs'', ''/var/l/metrics'', ''/var/l/events''}, pb_disk = Map.empty\<rparr>"

definition example_log :: LogLine where
  "example_log = \<lparr>ll_JobUuid = ''j1'', ll_Stream = STREAM_STDOUT, ll_Timestamp = 7, ll_Sequence = 1, ll_Content = ''hello''\<rparr>"

definition example_event :: telemetry where
  "example_event = \<lparr>te_Timestamp = 8, te_Fields = ''pid''\<rparr>"

lemma example_persist_ok: "dirs_ok example_persist_cfg" "healthy example_disk_calls" "job_ok ''j1''"
  "NewLocalBackend example_disk_calls example_persist_cfg {} Map.empty = Inr example_backend"
proof -
  have c: "path_elems (Clean ''/var/l/logs'') = [''var'', ''l'', ''logs'']" "path_elems (Clean ''/var/l/metrics'') = [''var'', ''l'', ''metrics'']"
    "path_elems (Clean ''/var/l/events'') = [''var'', ''l'', ''events'']" "IsAbs ''/var/l/logs''" "IsAbs ''/var/l/metrics''" "IsAbs ''/var/l/events''"
    by code_simp+
  show "dirs_ok example_persist_cfg" using c by (auto simp: dirs_ok_def dirs_of_def example_persist_cfg_def)
  show "healthy example_disk_calls" by (simp add: healthy_def example_disk_calls_def)
  show "job_ok ''j1''" by (simp add: job_ok_def is_plain_def)
  show "NewLocalBackend example_disk_calls example_persist_cfg {} Map.empty = Inr example_backend"
    by (simp add: NewLocalBackend_def example_disk_calls_def example_persist_cfg_def example_backend_def Let_def wrap_int_def)
qed



subsection \<open>Eviction\<close>

text \<open>The orders cover the maps.\<close>

definition orders_ok :: "orders \<Rightarrow> LocalBackend \<Rightarrow> bool" where
  "orders_ok ord lb \<longleftrightarrow> range_order (or_log ord) (pb_logFiles lb) \<and> (\<forall>kind. range_order (or_event ord kind) (pb_eventFiles lb kind))"

definition handle_key :: "handleInfo \<Rightarrow> handle_kind \<times> string" where
  "handle_key h = (hi_fileType h, hi_jobID h)"

lemma map_filter_filter: "(\<And>k. k \<in> set ks \<Longrightarrow> f' k = (case f k of None \<Rightarrow> None | Some h \<Rightarrow> if P h then Some h else None)) \<Longrightarrow> List.map_filter f' ks = filter P (List.map_filter f ks)"
  by (induction ks) (auto simp: List.map_filter_simps split: option.splits)

lemma drop_handle_open: "open_handles ord (drop_handle x h lb) = filter (\<lambda>h'. handle_key h' \<noteq> handle_key h) (open_handles ord lb)"
proof -
  have l: "log_handles ord (drop_handle x h lb) = filter (\<lambda>h'. handle_key h' \<noteq> handle_key h) (log_handles ord lb)"
    unfolding log_handles_def by (rule map_filter_filter) (auto simp: drop_handle_def drop_log_def drop_event_def set_events_def handle_key_def split: handle_kind.splits option.splits)
  have e: "event_handles ord kind (drop_handle x h lb) = filter (\<lambda>h'. handle_key h' \<noteq> handle_key h) (event_handles ord kind lb)" for kind
    unfolding event_handles_def by (rule map_filter_filter) (auto simp: drop_handle_def drop_log_def drop_event_def set_events_def handle_key_def split: handle_kind.splits option.splits)
  show ?thesis unfolding open_handles_def l e by (simp add: filter_concat comp_def)
qed

lemma open_has_handle: "h \<in> set (open_handles ord lb) \<Longrightarrow> has_handle h lb"
  by (auto simp: open_handles_def log_handles_def event_handles_def has_handle_def List.map_filter_def)

lemma drop_other_handle: "has_handle h' lb \<Longrightarrow> handle_key h' \<noteq> handle_key h \<Longrightarrow> has_handle h' (drop_handle x h lb)"
  by (auto simp: has_handle_def drop_handle_def drop_log_def drop_event_def set_events_def handle_key_def split: handle_kind.splits option.splits)

lemma evict_oldest_open:
  assumes "\<forall>h \<in> set hs. has_handle h lb" "distinct (map handle_key hs)"
  shows "open_handles ord (evict_oldest x n hs lb) = filter (\<lambda>h'. handle_key h' \<notin> handle_key ` set (take n hs)) (open_handles ord lb)"
  using assms
proof (induction x n hs lb rule: evict_oldest.induct)
  case (2 x n h hs lb)
  show ?case
  proof (cases "n = 0")
    case False
    have "has_handle h' (drop_handle x h lb)" if "h' \<in> set hs" for h'
    proof (rule drop_other_handle)
      show "has_handle h' lb" using 2(3) that by simp
      show "handle_key h' \<noteq> handle_key h" using 2(4) imageI [OF that, of handle_key] by auto
    qed
    then have "\<forall>h' \<in> set hs. has_handle h' (drop_handle x h lb)" by blast
    then have "open_handles ord (evict_oldest x (n - 1) hs (drop_handle x h lb)) = filter (\<lambda>h'. handle_key h' \<notin> handle_key ` set (take (n - 1) hs)) (open_handles ord (drop_handle x h lb))"
      using 2(1) [OF False] 2(3,4) by simp
    moreover obtain m where "n = Suc m" using False by (cases n) simp_all
    ultimately show ?thesis using 2(3) by (auto simp: drop_handle_open intro!: filter_cong)
  qed simp
qed simp

lemma open_handles_distinct:
  assumes "distinct (or_log ord)" "\<forall>kind. distinct (or_event ord kind)"
  shows "distinct (map handle_key (open_handles ord lb))"
proof -
  have m: "distinct (map g (List.map_filter f ks))" if "distinct ks" and I: "\<And>k k' h h'. f k = Some h \<Longrightarrow> f k' = Some h' \<Longrightarrow> g h = g h' \<Longrightarrow> k = k'"
    for g :: "handleInfo \<Rightarrow> handle_kind \<times> string" and f :: "string \<Rightarrow> handleInfo option" and ks
    using that(1)
  proof (induction ks)
    case (Cons k ks)
    show ?case
    proof (cases "f k")
      case (Some h)
      have "g h \<noteq> g h'" if h': "h' \<in> set (List.map_filter f ks)" for h'
      proof
        assume e: "g h = g h'"
        obtain k' where "k' \<in> set ks" "f k' = Some h'" using h' by (auto simp: List.map_filter_def)
        then show False using I [OF Some _ e] Cons.prems by auto
      qed
      then show ?thesis using Cons Some by (auto simp: List.map_filter_simps)
    qed (use Cons in \<open>simp add: List.map_filter_simps\<close>)
  qed (simp add: List.map_filter_simps)
  have l: "distinct (map handle_key (log_handles ord lb))" unfolding log_handles_def by (rule m) (auto simp: assms(1) handle_key_def)
  have e: "distinct (map handle_key (event_handles ord kind lb))" for kind unfolding event_handles_def by (rule m) (auto simp: assms(2) handle_key_def)
  have lk: "fst ` set (map handle_key (log_handles ord lb)) \<subseteq> {LogHandle}" by (auto simp: log_handles_def handle_key_def List.map_filter_def)
  have ek: "fst ` set (map handle_key (event_handles ord kind lb)) \<subseteq> {EventHandle kind}" for kind by (auto simp: event_handles_def handle_key_def List.map_filter_def)
  have "distinct (map handle_key (concat (map (\<lambda>kind. event_handles ord kind lb) ks))) \<and> fst ` set (map handle_key (concat (map (\<lambda>kind. event_handles ord kind lb) ks))) \<subseteq> EventHandle ` set ks"
    if "distinct ks" for ks
    using that
  proof (induction ks)
    case (Cons k ks)
    let ?A = "map handle_key (event_handles ord k lb)" and ?B = "map handle_key (concat (map (\<lambda>kind. event_handles ord kind lb) ks))"
    have I: "distinct ?B" "fst ` set ?B \<subseteq> EventHandle ` set ks" "k \<notin> set ks" using Cons by simp_all
    have "set ?A \<inter> set ?B = {}"
    proof (rule equals0I)
      fix y
      assume "y \<in> set ?A \<inter> set ?B"
      then have "fst y \<in> {EventHandle k}" "fst y \<in> EventHandle ` set ks" using ek [of k] I(2) by blast+
      then show False using I(3) by auto
    qed
    then have "distinct (?A @ ?B)" using e [of k] I(1) by (simp only: distinct_append)
    moreover have "fst ` set (?A @ ?B) \<subseteq> EventHandle ` set (k # ks)" 
    proof -
      have "fst ` set ?A \<subseteq> EventHandle ` set (k # ks)" using ek [of k] by auto
      moreover have "fst ` set ?B \<subseteq> EventHandle ` set (k # ks)" using I(2) by (rule subset_trans) auto
      ultimately show ?thesis unfolding set_append image_Un by (rule Un_least)
    qed
    ultimately show ?case by simp
  qed simp
  moreover have "distinct all_kinds" by (simp add: all_kinds_def)
  ultimately show ?thesis unfolding open_handles_def using l lk by fastforce
qed

lemma map_filter_length: "length (List.map_filter (\<lambda>j. map_option (f j) (m j)) ks) = length (range_vals ks m)"
  by (induction ks) (auto simp: List.map_filter_simps split: option.splits)

lemma countOpenHandles_open: "countOpenHandles ord lb = length (open_handles ord lb)"
  by (simp add: countOpenHandles_def open_handles_def log_handles_def event_handles_def map_filter_length length_concat comp_def)

text \<open>
  After each pass of the eviction at most \<open>maxOpenFiles\<close> entries of open files are left, and if the limit made it close some, none of those left was used less recently than one it closed.
  \<open>mid\<close> is the backend after the idle files have been closed.
\<close>

theorem eviction_bounds_handles:
  fixes x :: disk_calls
  assumes "orders_ok ord lb" "0 \<le> pb_maxOpenFiles lb"
  defines "lb' \<equiv> evictIdleHandles x ord lb" and "mid \<equiv> fold (\<lambda>kind lb. evictEventFiles x ord kind lb) all_kinds (fold (evict_log x) (or_log ord) lb)"
  shows "int (countOpenHandles ord lb') \<le> pb_maxOpenFiles lb \<and> set (open_handles ord lb') \<subseteq> set (open_handles ord mid) \<and>
    (\<forall>h \<in> set (open_handles ord mid) - set (open_handles ord lb'). \<forall>h' \<in> set (open_handles ord lb'). hi_lastAccess h \<le> hi_lastAccess h')"
proof -
  have cfg: "pb_maxOpenFiles mid = pb_maxOpenFiles lb"
  proof -
    have d: "pb_maxOpenFiles (drop_log x j a) = pb_maxOpenFiles a" "pb_maxOpenFiles (drop_event x kind j a) = pb_maxOpenFiles a" for j kind a
      by (simp_all add: drop_log_def drop_event_def set_events_def split: option.splits)
    have f: "(\<And>y a. pb_maxOpenFiles (g y a) = pb_maxOpenFiles a) \<Longrightarrow> pb_maxOpenFiles (fold g ys a) = pb_maxOpenFiles a" for g :: "'y \<Rightarrow> LocalBackend \<Rightarrow> LocalBackend" and ys a
      by (induction ys arbitrary: a) simp_all
    have "pb_maxOpenFiles (evict_log x j a) = pb_maxOpenFiles a" "pb_maxOpenFiles (evict_event x kind j a) = pb_maxOpenFiles a" for j kind a
      by (simp_all add: evict_log_def evict_event_def d split: option.splits)
    then show ?thesis unfolding mid_def evictEventFiles_def by (simp add: f)
  qed
  let ?hs = "open_handles ord mid" and ?max = "pb_maxOpenFiles lb"
  let ?sorted = "sort_slice (\<lambda>h h'. hi_lastAccess h < hi_lastAccess h') ?hs" and ?n = "nat (int (length ?hs) - ?max)"
  have dist: "distinct (map handle_key ?hs)" using open_handles_distinct assms(1) by (simp add: orders_ok_def range_order_def)
  show ?thesis
  proof (cases "int (length ?hs) > ?max")
    case False
    then have "lb' = mid" unfolding lb'_def evictIdleHandles_def by (simp add: mid_def [symmetric] countOpenHandles_open cfg)
    then show ?thesis using False by (simp add: countOpenHandles_open)
  next
    case True
    then have lb': "lb' = evict_oldest x ?n ?sorted mid" unfolding lb'_def evictIdleHandles_def
      by (simp add: mid_def [symmetric] countOpenHandles_open cfg evictLRU_def)
    have sd: "distinct (map handle_key ?sorted)" "set ?sorted = set ?hs" using dist by (simp_all add: go_sort.sort_distinct go_sort.sort_set)
    have left: "open_handles ord lb' = filter (\<lambda>h'. handle_key h' \<notin> handle_key ` set (take ?n ?sorted)) ?hs"
      unfolding lb' by (rule evict_oldest_open [OF _ sd(1)]) (use sd(2) open_has_handle in blast)
    have inj: "h = h'" if "h \<in> set ?hs" "h' \<in> set ?hs" "handle_key h = handle_key h'" for h h' using dist that by (simp add: distinct_map inj_on_def)
    have set_left: "set (open_handles ord lb') = set (drop ?n ?sorted)"
    proof -
      have "set (take ?n ?sorted) \<union> set (drop ?n ?sorted) = set ?hs" using sd(2) by (metis append_take_drop_id set_append)
      moreover have "distinct (map handle_key (take ?n ?sorted) @ map handle_key (drop ?n ?sorted))" using sd(1) by (simp only: map_append [symmetric] append_take_drop_id)
      then have "handle_key ` set (take ?n ?sorted) \<inter> handle_key ` set (drop ?n ?sorted) = {}" by simp
      moreover have "handle_key h \<in> handle_key ` set (take ?n ?sorted) \<longleftrightarrow> h \<in> set (take ?n ?sorted)" if "h \<in> set ?hs" for h
      proof
        assume "handle_key h \<in> handle_key ` set (take ?n ?sorted)"
        then obtain h' where "h' \<in> set (take ?n ?sorted)" "handle_key h = handle_key h'" by blast
        moreover from this(1) have "h' \<in> set ?hs" using sd(2) in_set_takeD by fast
        ultimately show "h \<in> set (take ?n ?sorted)" using inj [OF that] by metis
      qed blast
      ultimately show ?thesis unfolding left set_filter by blast
    qed
    have "distinct ?hs" "distinct ?sorted" using dist sd(1) by (simp_all add: distinct_map)
    then have d: "distinct (open_handles ord lb')" "distinct (drop ?n ?sorted)" unfolding left by simp_all
    have "length (open_handles ord lb') = card (set (drop ?n ?sorted))" using distinct_card [OF d(1)] set_left by simp
    also have "\<dots> = length ?sorted - ?n" using distinct_card [OF d(2)] by simp
    finally have "int (length (open_handles ord lb')) = ?max" using True assms(2) go_sort.sort_length [of _ ?hs] by simp
    moreover have "hi_lastAccess h \<le> hi_lastAccess h'" if "h \<in> set ?hs - set (open_handles ord lb')" "h' \<in> set (open_handles ord lb')" for h h'
    proof -
      have "sorted (map hi_lastAccess ?sorted)" by (rule go_sort.sort_by_key) simp
      then have "sorted (map hi_lastAccess (take ?n ?sorted) @ map hi_lastAccess (drop ?n ?sorted))" by (simp only: map_append [symmetric] append_take_drop_id)
      moreover have "h \<in> set (take ?n ?sorted)" using that(1) sd(2) set_left by (metis Diff_iff Un_iff append_take_drop_id set_append)
      moreover have "h' \<in> set (drop ?n ?sorted)" using that(2) set_left by simp
      ultimately show ?thesis by (auto simp: sorted_append)
    qed
    moreover have "set (open_handles ord lb') \<subseteq> set ?hs" unfolding left by auto
    ultimately show ?thesis by (simp add: countOpenHandles_open)
  qed
qed

theorem eviction_bounds_handles_witness:
  "int (countOpenHandles \<lparr>or_log = [''a''], or_event = (\<lambda>k. if k = ExecKind then [''b''] else [])\<rparr>
     (evictIdleHandles example_disk_calls \<lparr>or_log = [''a''], or_event = (\<lambda>k. if k = ExecKind then [''b''] else [])\<rparr>
       (example_backend\<lparr>pb_logFiles := [''a'' \<mapsto> \<lparr>lf_stdout = gz_new ''/o'', lf_stderr = gz_new ''/e'', lf_lastAccess = 3\<rparr>],
          pb_eventFiles := (\<lambda>k. if k = ExecKind then [''b'' \<mapsto> \<lparr>ef_stream = gz_new ''/x'', ef_lastAccess = 4\<rparr>] else Map.empty)\<rparr>))) \<le> 1"
proof -
  let ?lb = "example_backend\<lparr>pb_logFiles := [''a'' \<mapsto> \<lparr>lf_stdout = gz_new ''/o'', lf_stderr = gz_new ''/e'', lf_lastAccess = 3\<rparr>],
          pb_eventFiles := (\<lambda>k. if k = ExecKind then [''b'' \<mapsto> \<lparr>ef_stream = gz_new ''/x'', ef_lastAccess = 4\<rparr>] else Map.empty)\<rparr>"
  let ?ord = "\<lparr>or_log = [''a''], or_event = (\<lambda>k. if k = ExecKind then [''b''] else [])\<rparr>"
  have "orders_ok ?ord ?lb" by (simp add: orders_ok_def range_order_def)
  moreover have "pb_maxOpenFiles ?lb = 1" by (simp add: example_backend_def)
  ultimately show ?thesis using eviction_bounds_handles [of ?ord ?lb example_disk_calls] by simp
qed

subsection \<open>A write that fails\<close>

definition stuck :: "event_kind \<Rightarrow> string \<Rightarrow> string \<Rightarrow> LocalBackend \<Rightarrow> bool" where
  "stuck kind j p lb \<longleftrightarrow> (\<exists>ef. pb_eventFiles lb kind j = Some ef \<and> st_failed (ef_stream ef) \<and> st_path (ef_stream ef) = p)"

lemma write_events_failed: "write_events enc x n es w disk = (w', disk', Inl (WriteFailed p)) \<Longrightarrow> st_failed w' \<and> st_path w' = p"
proof (induction enc x n es w disk rule: write_events.induct)
  case (2 enc x n e es w disk)
  then show ?case by (auto simp: gz_write_def Let_def split: option.splits if_splits)
qed simp

lemma write_failed_stuck: "write_kind kind enc x j es lb = (lb', Inl (WriteFailed p)) \<Longrightarrow> stuck kind j p lb'"
  by (auto simp: write_kind_def getOrCreateEventFile_def flushGenericEventFile_def stuck_def set_events_def Let_def
      split: if_splits prod.splits sum.splits option.splits dest!: write_events_failed)

lemma stuck_write:
  assumes "stuck kind j p lb" "es \<noteq> []" "\<forall>e \<in> set es. enc e \<noteq> None"
  shows "\<exists>lb'. write_kind kind enc x j es lb = (lb', Inl (WriteFailed p)) \<and> pb_disk lb' = pb_disk lb \<and> stuck kind j p lb'"
proof -
  obtain ef where ef: "pb_eventFiles lb kind j = Some ef" "st_failed (ef_stream ef)" "st_path (ef_stream ef) = p" using assms(1) by (auto simp: stuck_def)
  obtain e fs data where es: "es = e # fs" "enc e = Some data" using assms(2,3) by (cases es) auto
  show ?thesis using ef es by (auto simp: write_kind_def getOrCreateEventFile_def gz_write_def set_events_def stuck_def Let_def)
qed

text \<open>
  Once a write of metrics or events has failed in the gzip writer, every later write of that kind for that job fails as well, however often it is tried and although the disk is healthy again: nothing more gets to the disk
  as long as the file stays open, and every attempt makes it look recently used, so that it is not closed as idle.
\<close>

theorem failed_write_sticks:
  assumes "write_kind kind enc x j es lb = (lb', Inl (WriteFailed p))"
    and "\<forall>(y, fs) \<in> set calls. healthy y \<and> fs \<noteq> [] \<and> (\<forall>e \<in> set fs. enc e \<noteq> None)" and "healthy z" "gs \<noteq> []" "\<forall>e \<in> set gs. enc e \<noteq> None"
  shows "\<exists>lb''. write_kind kind enc z j gs (fold (\<lambda>(y, fs) lb. fst (write_kind kind enc y j fs lb)) calls lb') = (lb'', Inl (WriteFailed p)) \<and>
    pb_disk lb'' = pb_disk lb' \<and> (\<exists>ef. pb_eventFiles lb'' kind j = Some ef \<and> ef_lastAccess ef = dc_now z)"
proof -
  have "stuck kind j p (fold (\<lambda>(y, fs) lb. fst (write_kind kind enc y j fs lb)) calls a) \<and> pb_disk (fold (\<lambda>(y, fs) lb. fst (write_kind kind enc y j fs lb)) calls a) = pb_disk a"
    if "stuck kind j p a" for a
    using that assms(2)
  proof (induction calls arbitrary: a)
    case (Cons c calls)
    obtain y fs where c: "c = (y, fs)" by fastforce
    obtain b where "write_kind kind enc y j fs a = (b, Inl (WriteFailed p))" "pb_disk b = pb_disk a" "stuck kind j p b"
      using stuck_write [of kind j p a fs enc y] Cons.prems c by auto
    then show ?case using Cons.IH [of b] Cons.prems(2) c by simp
  qed simp
  note S = this [OF write_failed_stuck [OF assms(1)]]
  obtain lb'' where w: "write_kind kind enc z j gs (fold (\<lambda>(y, fs) lb. fst (write_kind kind enc y j fs lb)) calls lb') = (lb'', Inl (WriteFailed p))" "pb_disk lb'' = pb_disk lb'"
    using stuck_write [OF conjunct1 [OF S] assms(4,5), of z] conjunct2 [OF S] by auto
  moreover have "\<exists>ef. pb_eventFiles lb'' kind j = Some ef \<and> ef_lastAccess ef = dc_now z"
    using w(1) by (auto simp: write_kind_def getOrCreateEventFile_def flushGenericEventFile_def set_events_def Let_def split: if_splits prod.splits sum.splits option.splits)
  ultimately show ?thesis by blast
qed

theorem failed_write_sticks_witness:
  "\<exists>lb' p lb''. write_kind ExecKind (\<lambda>e. Some ''event'') (example_disk_calls\<lparr>dc_write := (\<lambda>p n. False)\<rparr>) ''j1'' [example_event] example_backend = (lb', Inl (WriteFailed p)) \<and>
     write_kind ExecKind (\<lambda>e. Some ''event'') example_disk_calls ''j1'' [example_event]
       (fst (write_kind ExecKind (\<lambda>e. Some ''event'') example_disk_calls ''j1'' [example_event] lb')) = (lb'', Inl (WriteFailed p)) \<and> pb_disk lb'' = pb_disk lb'"
proof -
  obtain lb' p where w: "write_kind ExecKind (\<lambda>e. Some ''event'') (example_disk_calls\<lparr>dc_write := (\<lambda>p n. False)\<rparr>) ''j1'' [example_event] example_backend = (lb', Inl (WriteFailed p))"
    by (simp add: write_kind_def getOrCreateEventFile_def example_disk_calls_def example_backend_def gz_write_def Let_def)
  show ?thesis
    using w failed_write_sticks [OF w, of "[(example_disk_calls, [example_event])]" example_disk_calls "[example_event]"] example_persist_ok(2) by auto
qed

subsection \<open>Identifiers that are not plain names\<close>

lemma drop_cfg [simp]: "pb_cfg (drop_log x j lb) = pb_cfg lb" "pb_cfg (drop_event x kind j lb) = pb_cfg lb" "pb_cfg (fold (\<lambda>kind. drop_event x kind j) ks lb) = pb_cfg lb"
proof -
  show "pb_cfg (drop_log x j lb) = pb_cfg lb" and d: "pb_cfg (drop_event x kind j lb) = pb_cfg lb" for kind lb by (simp_all add: drop_log_def drop_event_def set_events_def split: option.splits)
  show "pb_cfg (fold (\<lambda>kind. drop_event x kind j) ks lb) = pb_cfg lb" by (induction ks arbitrary: lb) (simp_all add: d)
qed

lemma Join_dot: "IsAbs d \<Longrightarrow> Join_path [d, ''.''] = Clean d"
proof -
  assume abs: "IsAbs d"
  have "path_elems (d @ ''/.'') = path_elems d" using path_elems_append [of d "''.''"] by (simp add: path_elems_def)
  then show ?thesis using abs IsAbs_append [OF abs, of "''/.''"] IsAbs_not_Nil [OF abs] by (simp add: Join_path_def Clean_def)
qed

lemma below_dir:
  assumes "dirs_ok cfg" "job_ok j"
  shows "below (chan_path cfg ch j) (Clean (chan_dir cfg ch))"
proof -
  let ?d = "chan_dir cfg ch"
  define D where "D = path_elems (Clean ?d)"
  have abs: "IsAbs ?d" using assms(1) chan_dir_in [of cfg ch] by (simp add: dirs_ok_def)
  have c: "Clean ?d = CHR ''/'' # Join ''/'' D" unfolding D_def using Clean_render [OF IsAbs_not_Nil [OF abs]] abs by (simp add: render_def)
  have p: "chan_path cfg ch j = (CHR ''/'' # Join ''/'' (D @ [j])) @ ''/'' @ chan_name ch" unfolding D_def
    using chan_path_elems(2) [OF assms, of ch] job_dir_path(4) [OF assms(1) chan_dir_in assms(2), of ch] by simp
  show ?thesis
  proof (cases "D = []")
    case True
    then show ?thesis using c by (simp add: below_def)
  next
    case False
    then have "chan_path cfg ch j = (Clean ?d @ ''/'') @ (j @ ''/'' @ chan_name ch)" unfolding p c using Join_append [of D "[j]" "''/''"] by simp
    then show ?thesis unfolding below_def using HasPrefix_append by metis
  qed
qed

text \<open>
  The identifier of the job whose data is to be deleted goes into the paths as it is: a deletion of the job ``.'' succeeds and removes the logs, metrics and events of every job.
\<close>

theorem delete_dot_removes_all_jobs:
  assumes "dirs_ok (pb_cfg lb)" "healthy x"
  shows "\<exists>lb'. LocalBackend_DeleteJob x ''.'' lb = (lb', Inr ()) \<and> (\<forall>ch j. job_ok j \<longrightarrow> pb_disk lb' (chan_path (pb_cfg lb) ch j) = None)"
proof -
  have J: "Join_path [d, ''.''] = Clean d" if "d \<in> dirs_of (pb_cfg lb)" for d using Join_dot that assms(1) by (simp add: dirs_ok_def)
  have "below (chan_path (pb_cfg lb) ch j) (Clean (lc_LogsDir (pb_cfg lb))) \<or> below (chan_path (pb_cfg lb) ch j) (Clean (lc_MetricsDir (pb_cfg lb))) \<or>
      below (chan_path (pb_cfg lb) ch j) (Clean (lc_EventsDir (pb_cfg lb)))" if "job_ok j" for ch j
    using below_dir [OF assms(1) that, of ch] chan_dir_in [of "pb_cfg lb" ch] by (auto simp: dirs_of_def)
  then show ?thesis using healthyD(5) [OF assms(2)] J by (auto simp: LocalBackend_DeleteJob_def RemoveAll_def dirs_of_def Let_def)
qed

theorem delete_dot_removes_all_jobs_witness:
  "\<exists>lb'. LocalBackend_DeleteJob example_disk_calls ''.'' (example_backend\<lparr>pb_disk := [chan_path example_persist_cfg LogOut ''j1'' \<mapsto> Gz ''x'']\<rparr>) = (lb', Inr ()) \<and>
     pb_disk lb' (chan_path example_persist_cfg LogOut ''j1'') = None"
proof -
  let ?lb = "example_backend\<lparr>pb_disk := [chan_path example_persist_cfg LogOut ''j1'' \<mapsto> Gz ''x'']\<rparr>"
  have c: "pb_cfg ?lb = example_persist_cfg" by (simp add: example_backend_def)
  show ?thesis using delete_dot_removes_all_jobs [of ?lb example_disk_calls] example_persist_ok(1,2,3) unfolding c by blast
qed

end
