(* ===== verification/Telemetry.thy ===== *)
theory Telemetry
  imports Prelude "HOL-Library.Sublist"
begin

text \<open>
  The telemetry of jobs: events and filters (\<open>telemetry/event.go\<close>), the collector that buffers them and feeds the streams (\<open>telemetry/collector.go\<close>) and the adapter through which
  the sampling of metrics reaches it (\<open>adapters/metrics\_store\_adapter.go\<close>).

  Buffers and listener channels are shared by pointer: they live in two stores, from addresses to contents with a next free address. Emitting, streaming and clearing run concurrently; the step relation has
  one step per critical section. A panic is the value \<open>None\<close> of an operation and the label \<open>TPanic\<close> of a step. Values of type \<open>float64\<close> are their bits.
\<close>

section \<open>Events (event.go)\<close>

type_synonym float64 = "64 word"
type_synonym EventType = string

definition EventTypeMetrics :: EventType where "EventTypeMetrics = ''metrics''"
definition EventTypeExec :: EventType where "EventTypeExec = ''exec''"
definition EventTypeConnect :: EventType where "EventTypeConnect = ''connect''"
definition EventTypeFile :: EventType where "EventTypeFile = ''file''"
definition EventTypeAccept :: EventType where "EventTypeAccept = ''accept''"
definition EventTypeSocketData :: EventType where "EventTypeSocketData = ''socket_data''"
definition EventTypeMmap :: EventType where "EventTypeMmap = ''mmap''"
definition EventTypeMprotect :: EventType where "EventTypeMprotect = ''mprotect''"

lemmas event_type_defs = EventTypeMetrics_def EventTypeExec_def EventTypeConnect_def EventTypeFile_def EventTypeAccept_def EventTypeSocketData_def EventTypeMmap_def EventTypeMprotect_def

record MetricsData =
  md_CPUPercent :: float64
  md_MemoryBytes :: int
  md_MemoryLimit :: int
  md_DiskReadBytes :: int
  md_DiskWriteBytes :: int
  md_NetRecvBytes :: int
  md_NetSentBytes :: int
  md_GPUPercent :: float64
  md_GPUMemoryBytes :: int

record ExecData =
  xd_PID :: "32 word"
  xd_PPID :: "32 word"
  xd_Binary :: string
  xd_Args :: "string list"
  xd_ExitCode :: int

record ConnectData =
  cd_PID :: "32 word"
  cd_Address :: string
  cd_Port :: "32 word"
  cd_Protocol :: string
  cd_LocalAddress :: string
  cd_LocalPort :: "32 word"

record FileData =
  fd_PID :: "32 word"
  fd_Path :: string
  fd_Operation :: string
  fd_Bytes :: int

record AcceptData =
  ad_PID :: "32 word"
  ad_RemoteAddr :: string
  ad_RemotePort :: "32 word"
  ad_LocalPort :: "32 word"
  ad_Protocol :: string

record SocketDataData =
  sd_PID :: "32 word"
  sd_Direction :: string
  sd_Address :: string
  sd_Port :: "32 word"
  sd_Protocol :: string
  sd_Bytes :: int

record MmapData =
  mm_PID :: "32 word"
  mm_Addr :: "64 word"
  mm_Length :: "64 word"
  mm_Prot :: "32 word"
  mm_Flags :: "32 word"

record MprotectData =
  mp_PID :: "32 word"
  mp_Addr :: "64 word"
  mp_Length :: "64 word"
  mp_Prot :: "32 word"

datatype event_data =
    DMetrics MetricsData
  | DExec ExecData
  | DConnect ConnectData
  | DFile FileData
  | DAccept AcceptData
  | DSocketData SocketDataData
  | DMmap MmapData
  | DMprotect MprotectData

record Event =
  e_Timestamp :: instant
  e_JobUUID :: string
  e_Type :: EventType
  e_Data :: event_data

definition NewMetricsEvent :: "instant \<Rightarrow> string \<Rightarrow> MetricsData \<Rightarrow> Event" where
  "NewMetricsEvent now jobID data = \<lparr>e_Timestamp = now, e_JobUUID = jobID, e_Type = EventTypeMetrics, e_Data = DMetrics data\<rparr>"

definition NewExecEvent :: "instant \<Rightarrow> string \<Rightarrow> ExecData \<Rightarrow> Event" where
  "NewExecEvent now jobID data = \<lparr>e_Timestamp = now, e_JobUUID = jobID, e_Type = EventTypeExec, e_Data = DExec data\<rparr>"

definition NewConnectEvent :: "instant \<Rightarrow> string \<Rightarrow> ConnectData \<Rightarrow> Event" where
  "NewConnectEvent now jobID data = \<lparr>e_Timestamp = now, e_JobUUID = jobID, e_Type = EventTypeConnect, e_Data = DConnect data\<rparr>"

definition NewFileEvent :: "instant \<Rightarrow> string \<Rightarrow> FileData \<Rightarrow> Event" where
  "NewFileEvent now jobID data = \<lparr>e_Timestamp = now, e_JobUUID = jobID, e_Type = EventTypeFile, e_Data = DFile data\<rparr>"

definition NewAcceptEvent :: "instant \<Rightarrow> string \<Rightarrow> AcceptData \<Rightarrow> Event" where
  "NewAcceptEvent now jobID data = \<lparr>e_Timestamp = now, e_JobUUID = jobID, e_Type = EventTypeAccept, e_Data = DAccept data\<rparr>"

definition NewSocketDataEvent :: "instant \<Rightarrow> string \<Rightarrow> SocketDataData \<Rightarrow> Event" where
  "NewSocketDataEvent now jobID data = \<lparr>e_Timestamp = now, e_JobUUID = jobID, e_Type = EventTypeSocketData, e_Data = DSocketData data\<rparr>"

definition NewMmapEvent :: "instant \<Rightarrow> string \<Rightarrow> MmapData \<Rightarrow> Event" where
  "NewMmapEvent now jobID data = \<lparr>e_Timestamp = now, e_JobUUID = jobID, e_Type = EventTypeMmap, e_Data = DMmap data\<rparr>"

definition NewMprotectEvent :: "instant \<Rightarrow> string \<Rightarrow> MprotectData \<Rightarrow> Event" where
  "NewMprotectEvent now jobID data = \<lparr>e_Timestamp = now, e_JobUUID = jobID, e_Type = EventTypeMprotect, e_Data = DMprotect data\<rparr>"

primrec new_event :: "instant \<Rightarrow> string \<Rightarrow> event_data \<Rightarrow> Event" where
  "new_event now jobID (DMetrics d) = NewMetricsEvent now jobID d"
| "new_event now jobID (DExec d) = NewExecEvent now jobID d"
| "new_event now jobID (DConnect d) = NewConnectEvent now jobID d"
| "new_event now jobID (DFile d) = NewFileEvent now jobID d"
| "new_event now jobID (DAccept d) = NewAcceptEvent now jobID d"
| "new_event now jobID (DSocketData d) = NewSocketDataEvent now jobID d"
| "new_event now jobID (DMmap d) = NewMmapEvent now jobID d"
| "new_event now jobID (DMprotect d) = NewMprotectEvent now jobID d"

lemmas new_event_defs = NewMetricsEvent_def NewExecEvent_def NewConnectEvent_def NewFileEvent_def NewAcceptEvent_def NewSocketDataEvent_def NewMmapEvent_def NewMprotectEvent_def

lemma new_event_sel [simp]:
  "e_Timestamp (new_event now j d) = now" "e_JobUUID (new_event now j d) = j" "e_Data (new_event now j d) = d"
  by (cases d; simp add: new_event_defs)+

record EventFilter =
  tf_Types :: "EventType list"

definition Matches :: "EventFilter \<Rightarrow> Event \<Rightarrow> bool" where
  "Matches f e \<longleftrightarrow> (if length (tf_Types f) = 0 then True else list_ex (\<lambda>t. e_Type e = t) (tf_Types f))"

definition parse_type :: "string \<Rightarrow> EventType list" where
  "parse_type t =
     (if t = ''metrics'' then [EventTypeMetrics] else if t = ''exec'' then [EventTypeExec] else if t = ''connect'' then [EventTypeConnect]
      else if t = ''file'' then [EventTypeFile] else if t = ''accept'' then [EventTypeAccept] else if t = ''socket_data'' then [EventTypeSocketData]
      else if t = ''mmap'' then [EventTypeMmap] else if t = ''mprotect'' then [EventTypeMprotect] else [])"

definition ParseEventTypes :: "string list \<Rightarrow> EventType list" where
  "ParseEventTypes types = concat (map parse_type types)"

definition known_types :: "EventType list" where
  "known_types = [EventTypeMetrics, EventTypeExec, EventTypeConnect, EventTypeFile, EventTypeAccept, EventTypeSocketData, EventTypeMmap, EventTypeMprotect]"

lemma ParseEventTypes_filter: "ParseEventTypes types = filter (\<lambda>t. t \<in> set known_types) types"
proof -
  have "parse_type t = (if t \<in> set known_types then [t] else [])" for t by (auto simp: parse_type_def known_types_def event_type_defs)
  then show ?thesis unfolding ParseEventTypes_def by (induction types) simp_all
qed

section \<open>The collector (collector.go)\<close>

record listener =
  li_queue :: "Event list"
  li_closed :: bool

record eventBuffer =
  eb_events :: "Event list"
  eb_listeners :: "nat list"

record Collector =
  co_buffers :: "string \<rightharpoonup> nat"
  co_store :: "nat \<Rightarrow> eventBuffer"
  co_nextBuffer :: nat
  co_chans :: "nat \<Rightarrow> listener"
  co_nextChan :: nat
  co_bufferSize :: int
  co_persister :: bool
  co_sequence :: "64 word"

definition NewCollector :: "int \<Rightarrow> Collector" where
  "NewCollector bufferSize =
     (let bufferSize = (if bufferSize \<le> 0 then 100000 else bufferSize)
      in \<lparr>co_buffers = Map.empty, co_store = (\<lambda>b. \<lparr>eb_events = [], eb_listeners = []\<rparr>), co_nextBuffer = 0,
           co_chans = (\<lambda>ch. \<lparr>li_queue = [], li_closed = False\<rparr>), co_nextChan = 0, co_bufferSize = bufferSize, co_persister = False, co_sequence = 0\<rparr>)"

definition SetPersister :: "bool \<Rightarrow> Collector \<Rightarrow> Collector" where
  "SetPersister p c = c\<lparr>co_persister := p\<rparr>"

definition getOrCreateBuffer :: "string \<Rightarrow> Collector \<Rightarrow> Collector \<times> nat" where
  "getOrCreateBuffer jobID c =
     (case co_buffers c jobID of
        Some b \<Rightarrow> (c, b)
      | None \<Rightarrow>
          (let b = co_nextBuffer c; buf = \<lparr>eb_events = [], eb_listeners = []\<rparr>
           in (c\<lparr>co_buffers := (co_buffers c)(jobID \<mapsto> b), co_store := (co_store c)(b := buf), co_nextBuffer := b + 1\<rparr>, b)))"

definition ring_add :: "int \<Rightarrow> Event \<Rightarrow> Event list \<Rightarrow> Event list" where
  "ring_add bufferSize event events = (if int (length events) \<ge> bufferSize then tl events else events) @ [event]"

definition listener_capacity :: nat where
  "listener_capacity = 100"

text \<open>The non-blocking send to each listener; a send on a closed channel panics.\<close>

fun notify :: "Event \<Rightarrow> nat list \<Rightarrow> (nat \<Rightarrow> listener) \<Rightarrow> (nat \<Rightarrow> listener) option" where
  "notify event [] chans = Some chans"
| "notify event (ch # chs) chans =
     (let l = chans ch
      in if li_closed l then None
         else if length (li_queue l) < listener_capacity then notify event chs (chans(ch := l\<lparr>li_queue := li_queue l @ [event]\<rparr>))
         else notify event chs chans)"

text \<open>\<open>Emit\<close> after the buffer was found: the part under the lock of the buffer.\<close>

definition emit_locked :: "nat \<Rightarrow> Event \<Rightarrow> Collector \<Rightarrow> Collector option" where
  "emit_locked b event c =
     (let buf = co_store c b; buf = buf\<lparr>eb_events := ring_add (co_bufferSize c) event (eb_events buf)\<rparr>
      in map_option (\<lambda>chans. c\<lparr>co_store := (co_store c)(b := buf), co_chans := chans\<rparr>) (notify event (eb_listeners buf) (co_chans c)))"

definition Emit :: "Event \<Rightarrow> Collector \<Rightarrow> Collector option" where
  "Emit event c = (if e_JobUUID event = [] then Some c else let (c, b) = getOrCreateBuffer (e_JobUUID event) c in emit_locked b event c)"

text \<open>The number for the persister, if there is one; what it is given is the second part of the result.\<close>

definition next_sequence :: "Event \<Rightarrow> Collector \<Rightarrow> Collector \<times> (64 word \<times> Event) option" where
  "next_sequence event c =
     (if co_persister c then let seq = co_sequence c + 1 in (c\<lparr>co_sequence := seq\<rparr>, Some (seq, event)) else (c, None))"

definition emit_event :: "Event \<Rightarrow> Collector \<Rightarrow> (Collector \<times> (64 word \<times> Event) option) option" where
  "emit_event event c = map_option (next_sequence event) (Emit event c)"

definition EmitMetrics where "EmitMetrics now jobID data = emit_event (NewMetricsEvent now jobID data)"
definition EmitExec where "EmitExec now jobID data = emit_event (NewExecEvent now jobID data)"
definition EmitConnect where "EmitConnect now jobID data = emit_event (NewConnectEvent now jobID data)"
definition EmitFile where "EmitFile now jobID data = emit_event (NewFileEvent now jobID data)"
definition EmitAccept where "EmitAccept now jobID data = emit_event (NewAcceptEvent now jobID data)"
definition EmitSocketData where "EmitSocketData now jobID data = emit_event (NewSocketDataEvent now jobID data)"
definition EmitMmap where "EmitMmap now jobID data = emit_event (NewMmapEvent now jobID data)"
definition EmitMprotect where "EmitMprotect now jobID data = emit_event (NewMprotectEvent now jobID data)"

text \<open>The loop over a buffer; \<open>result\<close> is what was collected so far. A zero time is \<open>None\<close>.\<close>

definition passes :: "EventFilter option \<Rightarrow> Event \<Rightarrow> bool" where
  "passes flt event \<longleftrightarrow> (case flt of None \<Rightarrow> True | Some f \<Rightarrow> Matches f event)"

fun collect :: "EventFilter option \<Rightarrow> instant option \<Rightarrow> instant option \<Rightarrow> int \<Rightarrow> Event list \<Rightarrow> Event list \<Rightarrow> Event list" where
  "collect flt startTime endTime limit [] result = result"
| "collect flt startTime endTime limit (event # events) result =
     (if (case startTime of None \<Rightarrow> False | Some t \<Rightarrow> e_Timestamp event < t) then collect flt startTime endTime limit events result
      else if (case endTime of None \<Rightarrow> False | Some t \<Rightarrow> e_Timestamp event > t) then collect flt startTime endTime limit events result
      else if \<not> passes flt event then collect flt startTime endTime limit events result
      else let result = result @ [event]
           in if limit > 0 \<and> int (length result) \<ge> limit then result else collect flt startTime endTime limit events result)"

definition GetBufferedEvents :: "string \<Rightarrow> EventFilter option \<Rightarrow> instant option \<Rightarrow> instant option \<Rightarrow> int \<Rightarrow> Collector \<Rightarrow> Event list" where
  "GetBufferedEvents jobID flt startTime endTime limit c =
     (case co_buffers c jobID of None \<Rightarrow> [] | Some b \<Rightarrow> collect flt startTime endTime limit (eb_events (co_store c b)) [])"

definition close_listener :: "nat \<Rightarrow> (nat \<Rightarrow> listener) \<Rightarrow> (nat \<Rightarrow> listener) option" where
  "close_listener ch chans = (if li_closed (chans ch) then None else Some (chans(ch := (chans ch)\<lparr>li_closed := True\<rparr>)))"

fun close_listeners :: "nat list \<Rightarrow> (nat \<Rightarrow> listener) \<Rightarrow> (nat \<Rightarrow> listener) option" where
  "close_listeners [] chans = Some chans"
| "close_listeners (ch # chs) chans = (case close_listener ch chans of None \<Rightarrow> None | Some chans \<Rightarrow> close_listeners chs chans)"

definition ClearJob :: "string \<Rightarrow> Collector \<Rightarrow> Collector option" where
  "ClearJob jobID c =
     (case co_buffers c jobID of
        None \<Rightarrow> Some (c\<lparr>co_buffers := (co_buffers c)(jobID := None)\<rparr>)
      | Some b \<Rightarrow>
          (let buf = co_store c b
           in map_option (\<lambda>chans. c\<lparr>co_chans := chans, co_store := (co_store c)(b := buf\<lparr>eb_listeners := [], eb_events := []\<rparr>), co_buffers := (co_buffers c)(jobID := None)\<rparr>)
                (close_listeners (eb_listeners buf) (co_chans c))))"

definition JobCount :: "string list \<Rightarrow> Collector \<Rightarrow> nat" where
  "JobCount ks c = length (range_vals ks (co_buffers c))"

definition EventCount :: "string list \<Rightarrow> Collector \<Rightarrow> nat" where
  "EventCount ks c = sum_list (map (\<lambda>b. length (eb_events (co_store c b))) (range_vals ks (co_buffers c)))"

text \<open>The parts of \<open>Stream\<close>: the listener is registered and the buffer copied under one lock; at the end the listener is removed under the lock and then its channel is closed.\<close>

definition stream_register :: "nat \<Rightarrow> Collector \<Rightarrow> Collector \<times> nat \<times> Event list" where
  "stream_register b c =
     (let ch = co_nextChan c; buf = co_store c b
      in (c\<lparr>co_chans := (co_chans c)(ch := \<lparr>li_queue = [], li_closed = False\<rparr>), co_nextChan := ch + 1, co_store := (co_store c)(b := buf\<lparr>eb_listeners := eb_listeners buf @ [ch]\<rparr>)\<rparr>,
          ch, eb_events buf))"

definition stream_unregister :: "nat \<Rightarrow> nat \<Rightarrow> Collector \<Rightarrow> Collector" where
  "stream_unregister b ch c = (let buf = co_store c b in c\<lparr>co_store := (co_store c)(b := buf\<lparr>eb_listeners := remove1 ch (eb_listeners buf)\<rparr>)\<rparr>)"

definition stream_close :: "nat \<Rightarrow> Collector \<Rightarrow> Collector option" where
  "stream_close ch c = map_option (\<lambda>chans. c\<lparr>co_chans := chans\<rparr>) (close_listener ch (co_chans c))"

definition take_event :: "nat \<Rightarrow> Collector \<Rightarrow> (Event \<times> Collector) option" where
  "take_event ch c =
     (let l = co_chans c ch
      in case li_queue l of [] \<Rightarrow> None | event # q \<Rightarrow> Some (event, c\<lparr>co_chans := (co_chans c)(ch := l\<lparr>li_queue := q\<rparr>)\<rparr>))"

section \<open>The adapter of the metrics (metrics\_store\_adapter.go)\<close>

text \<open>The part of a sample that is passed on.\<close>

record JobMetricsSample =
  ms_JobUUID :: string
  ms_UsagePercent :: float64
  ms_MemoryCurrent :: "64 word"
  ms_MemoryMax :: "64 word"
  ms_TotalReadBytes :: "64 word"
  ms_TotalWriteBytes :: "64 word"
  ms_Network :: "(64 word \<times> 64 word) option"
  ms_GPU :: "(float64 \<times> 64 word) list"

text \<open>The collectors of samples are known by their jobs.\<close>

record MetricsStoreAdapter =
  ma_collectors :: "string set"
  ma_persist :: bool
  ma_closed :: bool

datatype metrics_error = MetricsClosed | CollectorExists string | CollectorFailed | CollectorStartFailed | NoCollector string | MetricsPersistFailed

definition StartCollector :: "bool \<Rightarrow> bool \<Rightarrow> string \<Rightarrow> MetricsStoreAdapter \<Rightarrow> MetricsStoreAdapter \<times> (metrics_error, unit) result" where
  "StartCollector newOk startOk jobID a =
     (if ma_closed a then (a, Inl MetricsClosed)
      else if jobID \<in> ma_collectors a then (a, Inl (CollectorExists jobID))
      else if \<not> newOk then (a, Inl CollectorFailed)
      else if \<not> startOk then (a, Inl CollectorStartFailed)
      else (a\<lparr>ma_collectors := insert jobID (ma_collectors a)\<rparr>, Inr ()))"

definition StopCollector :: "string \<Rightarrow> MetricsStoreAdapter \<Rightarrow> MetricsStoreAdapter \<times> (metrics_error, unit) result" where
  "StopCollector jobID a =
     (if jobID \<notin> ma_collectors a then (a, Inl (NoCollector jobID)) else (a\<lparr>ma_collectors := ma_collectors a - {jobID}\<rparr>, Inr ()))"

definition sample_data :: "JobMetricsSample \<Rightarrow> MetricsData" where
  "sample_data sample =
     (let data = \<lparr>md_CPUPercent = ms_UsagePercent sample, md_MemoryBytes = sint (ms_MemoryCurrent sample), md_MemoryLimit = sint (ms_MemoryMax sample),
                  md_DiskReadBytes = sint (ms_TotalReadBytes sample), md_DiskWriteBytes = sint (ms_TotalWriteBytes sample),
                  md_NetRecvBytes = 0, md_NetSentBytes = 0, md_GPUPercent = 0, md_GPUMemoryBytes = 0\<rparr>;
          data = (case ms_Network sample of None \<Rightarrow> data | Some (rx, tx) \<Rightarrow> data\<lparr>md_NetRecvBytes := sint rx, md_NetSentBytes := sint tx\<rparr>)
      in case ms_GPU sample of [] \<Rightarrow> data | (util, used) # _ \<Rightarrow> data\<lparr>md_GPUPercent := util, md_GPUMemoryBytes := sint used\<rparr>)"

text \<open>Without a telemetry collector nothing is published.\<close>

definition PublishMetrics :: "instant \<Rightarrow> JobMetricsSample \<Rightarrow> Collector option \<Rightarrow> (Collector option \<times> (64 word \<times> Event) option) option" where
  "PublishMetrics now sample tc =
     (case tc of
        None \<Rightarrow> Some (None, None)
      | Some c \<Rightarrow> map_option (\<lambda>(c, p). (Some c, p)) (EmitMetrics now (ms_JobUUID sample) (sample_data sample) c))"

text \<open>\<open>persistDelete\<close> is the answer of the persistence service. A panic of the collector is \<open>None\<close>.\<close>

definition DeleteJobMetrics :: "bool \<Rightarrow> string \<Rightarrow> MetricsStoreAdapter \<Rightarrow> Collector option \<Rightarrow> (MetricsStoreAdapter \<times> Collector option \<times> (metrics_error, unit) result) option" where
  "DeleteJobMetrics persistDelete jobID a tc =
     (let a = a\<lparr>ma_collectors := ma_collectors a - {jobID}\<rparr>
      in case (case tc of None \<Rightarrow> Some None | Some c \<Rightarrow> map_option Some (ClearJob jobID c)) of
           None \<Rightarrow> None
         | Some tc \<Rightarrow> Some (a, tc, if ma_persist a \<and> \<not> persistDelete then Inl MetricsPersistFailed else Inr ()))"

definition MetricsStoreAdapter_Close :: "MetricsStoreAdapter \<Rightarrow> MetricsStoreAdapter" where
  "MetricsStoreAdapter_Close a = (if ma_closed a then a else a\<lparr>ma_closed := True, ma_collectors := {}\<rparr>)"

section \<open>Interleavings\<close>

text \<open>
  A goroutine that emits an event has found the buffer, has added the event, has a number for the persister, or is done. A stream has found its buffer, sends the copied events, sends what its channel holds,
  is about to remove its listener, to close its channel, or is over. \<open>sm_sent\<close> is what its callback was given.
\<close>

datatype emit_pc = EFound nat Event | EAdded Event | ENumbered "64 word" Event

datatype stream_end = CallbackFailed | ContextDone | ChannelClosed

datatype stream_pc = SFound nat | SBuffered nat nat "Event list" | SLive nat nat | SEnding nat nat stream_end | SClosing nat stream_end | SDone stream_end

record stream =
  sm_job :: string
  sm_filter :: "EventFilter option"
  sm_sent :: "Event list"
  sm_pc :: stream_pc

record tele =
  te_col :: Collector
  te_emits :: "nat \<rightharpoonup> emit_pc"
  te_streams :: "nat \<rightharpoonup> stream"
  te_persisted :: "(64 word \<times> Event) list"

text \<open>An added event comes with the channels that were full.\<close>

datatype label = TAdd Event "nat list" | TOpen nat nat | TClear string | TPanic | TSilent

definition full_listeners :: "nat \<Rightarrow> Collector \<Rightarrow> nat list" where
  "full_listeners b c = filter (\<lambda>ch. \<not> length (li_queue (co_chans c ch)) < listener_capacity) (eb_listeners (co_store c b))"

definition set_stream :: "nat \<Rightarrow> stream \<Rightarrow> tele \<Rightarrow> tele" where
  "set_stream t sm T = T\<lparr>te_streams := (te_streams T)(t \<mapsto> sm)\<rparr>"

definition set_col :: "Collector \<Rightarrow> tele \<Rightarrow> tele" where
  "set_col c T = T\<lparr>te_col := c\<rparr>"

definition set_emit :: "nat \<Rightarrow> emit_pc option \<Rightarrow> tele \<Rightarrow> tele" where
  "set_emit i p T = T\<lparr>te_emits := (te_emits T)(i := p)\<rparr>"

text \<open>The next event of the copy or of the channel: it is passed over, or given to the callback, which may fail.\<close>

definition deliver_event :: "bool \<Rightarrow> Event \<Rightarrow> stream_pc \<Rightarrow> stream_pc \<Rightarrow> stream \<Rightarrow> stream" where
  "deliver_event ok event next failed sm =
     (if \<not> passes (sm_filter sm) event then sm\<lparr>sm_pc := next\<rparr>
      else if ok then sm\<lparr>sm_sent := sm_sent sm @ [event], sm_pc := next\<rparr>
      else sm\<lparr>sm_pc := failed\<rparr>)"

inductive tele_step :: "tele \<Rightarrow> label \<Rightarrow> tele \<Rightarrow> bool" where
  emit_find: "te_emits T i = None \<Longrightarrow> j \<noteq> [] \<Longrightarrow> getOrCreateBuffer j (te_col T) = (c, b) \<Longrightarrow>
    tele_step T TSilent (set_emit i (Some (EFound b (new_event now j data))) (set_col c T))"
| emit_nameless: "te_emits T i = None \<Longrightarrow> tele_step T TSilent (set_emit i (Some (EAdded (new_event now [] data))) T)"
| emit_add: "te_emits T i = Some (EFound b e) \<Longrightarrow> emit_locked b e (te_col T) = Some c \<Longrightarrow>
    tele_step T (TAdd e (full_listeners b (te_col T))) (set_emit i (Some (EAdded e)) (set_col c T))"
| emit_panic: "te_emits T i = Some (EFound b e) \<Longrightarrow> emit_locked b e (te_col T) = None \<Longrightarrow> tele_step T TPanic T"
| emit_number: "te_emits T i = Some (EAdded e) \<Longrightarrow> next_sequence e (te_col T) = (c, p) \<Longrightarrow>
    tele_step T TSilent (set_emit i (map_option (\<lambda>(n, e). ENumbered n e) p) (set_col c T))"
| emit_persist: "te_emits T i = Some (ENumbered n e) \<Longrightarrow>
    tele_step T TSilent (set_emit i None (T\<lparr>te_persisted := te_persisted T @ [(n, e)]\<rparr>))"
| set_persister: "tele_step T TSilent (set_col (SetPersister p (te_col T)) T)"
| stream_find: "te_streams T t = None \<Longrightarrow> getOrCreateBuffer j (te_col T) = (c, b) \<Longrightarrow>
    tele_step T TSilent (set_stream t \<lparr>sm_job = j, sm_filter = f, sm_sent = [], sm_pc = SFound b\<rparr> (set_col c T))"
| stream_open: "te_streams T t = Some sm \<Longrightarrow> sm_pc sm = SFound b \<Longrightarrow> stream_register b (te_col T) = (c, ch, es) \<Longrightarrow>
    tele_step T (TOpen t ch) (set_stream t (sm\<lparr>sm_pc := SBuffered b ch es\<rparr>) (set_col c T))"
| stream_buffered: "te_streams T t = Some sm \<Longrightarrow> sm_pc sm = SBuffered b ch (e # es) \<Longrightarrow>
    tele_step T TSilent (set_stream t (deliver_event ok e (SBuffered b ch es) (SEnding b ch CallbackFailed) sm) T)"
| stream_live: "te_streams T t = Some sm \<Longrightarrow> sm_pc sm = SBuffered b ch [] \<Longrightarrow> tele_step T TSilent (set_stream t (sm\<lparr>sm_pc := SLive b ch\<rparr>) T)"
| stream_take: "te_streams T t = Some sm \<Longrightarrow> sm_pc sm = SLive b ch \<Longrightarrow> take_event ch (te_col T) = Some (e, c) \<Longrightarrow>
    tele_step T TSilent (set_stream t (deliver_event ok e (SLive b ch) (SEnding b ch CallbackFailed) sm) (set_col c T))"
| stream_done: "te_streams T t = Some sm \<Longrightarrow> sm_pc sm = SLive b ch \<Longrightarrow> tele_step T TSilent (set_stream t (sm\<lparr>sm_pc := SEnding b ch ContextDone\<rparr>) T)"
| stream_eof: "te_streams T t = Some sm \<Longrightarrow> sm_pc sm = SLive b ch \<Longrightarrow> take_event ch (te_col T) = None \<Longrightarrow> li_closed (co_chans (te_col T) ch) \<Longrightarrow>
    tele_step T TSilent (set_stream t (sm\<lparr>sm_pc := SEnding b ch ChannelClosed\<rparr>) T)"
| stream_remove: "te_streams T t = Some sm \<Longrightarrow> sm_pc sm = SEnding b ch r \<Longrightarrow>
    tele_step T TSilent (set_stream t (sm\<lparr>sm_pc := SClosing ch r\<rparr>) (set_col (stream_unregister b ch (te_col T)) T))"
| stream_finish: "te_streams T t = Some sm \<Longrightarrow> sm_pc sm = SClosing ch r \<Longrightarrow> stream_close ch (te_col T) = Some c \<Longrightarrow>
    tele_step T TSilent (set_stream t (sm\<lparr>sm_pc := SDone r\<rparr>) (set_col c T))"
| stream_panic: "te_streams T t = Some sm \<Longrightarrow> sm_pc sm = SClosing ch r \<Longrightarrow> stream_close ch (te_col T) = None \<Longrightarrow> tele_step T TPanic T"
| clear: "ClearJob j (te_col T) = Some c \<Longrightarrow> tele_step T (TClear j) (set_col c T)"
| clear_panic: "ClearJob j (te_col T) = None \<Longrightarrow> tele_step T TPanic T"

definition new_tele :: "int \<Rightarrow> tele" where
  "new_tele n = \<lparr>te_col = NewCollector n, te_emits = Map.empty, te_streams = Map.empty, te_persisted = []\<rparr>"

text \<open>A run; after a panic the process is gone.\<close>

inductive tele_run :: "tele \<Rightarrow> label list \<Rightarrow> tele \<Rightarrow> bool" for T0 where
  run_nil: "tele_run T0 [] T0"
| run_step: "tele_run T0 ls T \<Longrightarrow> TPanic \<notin> set ls \<Longrightarrow> tele_step T l T' \<Longrightarrow> tele_run T0 (ls @ [l]) T'"

section \<open>Closed forms\<close>

definition last_n :: "nat \<Rightarrow> 'a list \<Rightarrow> 'a list" where
  "last_n n xs = drop (length xs - n) xs"

lemma last_n_Nil [simp]: "last_n n [] = []"
  by (simp add: last_n_def)

lemma last_n_length: "length (last_n n xs) = min n (length xs)"
  by (simp add: last_n_def)

lemma ring_add_last: "0 < n \<Longrightarrow> ring_add (int n) e (last_n n xs) = last_n n (xs @ [e])"
  by (auto simp: ring_add_def last_n_def Suc_diff_le tl_drop drop_Suc [symmetric] not_le)

lemma notify_eq:
  "distinct chs \<Longrightarrow> notify e chs chans =
    (if \<exists>ch \<in> set chs. li_closed (chans ch) then None
     else Some (\<lambda>ch. if ch \<in> set chs \<and> length (li_queue (chans ch)) < listener_capacity then (chans ch)\<lparr>li_queue := li_queue (chans ch) @ [e]\<rparr> else chans ch))"
proof (induction chs arbitrary: chans)
  case (Cons c chs)
  show ?case
  proof (cases "length (li_queue (chans c)) < listener_capacity")
    case True
    have "li_closed ((chans(c := (chans c)\<lparr>li_queue := li_queue (chans c) @ [e]\<rparr>)) ch) = li_closed (chans ch)" for ch by simp
    then show ?thesis using True Cons by (auto simp: Let_def fun_eq_iff)
  next
    case False
    then show ?thesis using Cons by (auto simp: Let_def fun_eq_iff)
  qed
qed simp

lemma close_listeners_eq:
  "distinct chs \<Longrightarrow> close_listeners chs chans =
    (if \<exists>ch \<in> set chs. li_closed (chans ch) then None else Some (\<lambda>ch. if ch \<in> set chs then (chans ch)\<lparr>li_closed := True\<rparr> else chans ch))"
  by (induction chs arbitrary: chans) (auto simp: close_listener_def fun_eq_iff)

lemma getOrCreateBuffer_cases:
  assumes "getOrCreateBuffer j c = (c', b)"
  obtains (old) "co_buffers c j = Some b" "c' = c"
  | (new) "co_buffers c j = None" "b = co_nextBuffer c"
      "c' = c\<lparr>co_buffers := (co_buffers c)(j \<mapsto> b), co_store := (co_store c)(b := \<lparr>eb_events = [], eb_listeners = []\<rparr>), co_nextBuffer := b + 1\<rparr>"
  using assms by (auto simp: getOrCreateBuffer_def Let_def split: option.splits)

section \<open>Invariants\<close>

fun pc_buf :: "stream_pc \<Rightarrow> nat option" where
  "pc_buf (SFound b) = Some b"
| "pc_buf (SBuffered b ch es) = Some b"
| "pc_buf (SLive b ch) = Some b"
| "pc_buf (SEnding b ch r) = Some b"
| "pc_buf _ = None"

fun pc_chan :: "stream_pc \<Rightarrow> nat option" where
  "pc_chan (SBuffered b ch es) = Some ch"
| "pc_chan (SLive b ch) = Some ch"
| "pc_chan (SEnding b ch r) = Some ch"
| "pc_chan (SClosing ch r) = Some ch"
| "pc_chan _ = None"

fun pc_open :: "stream_pc \<Rightarrow> (nat \<times> nat) option" where
  "pc_open (SBuffered b ch es) = Some (b, ch)"
| "pc_open (SLive b ch) = Some (b, ch)"
| "pc_open (SEnding b ch r) = Some (b, ch)"
| "pc_open _ = None"

lemma pc_open_parts: "pc_open pc = Some (b, ch) \<Longrightarrow> pc_buf pc = Some b \<and> pc_chan pc = Some ch"
  by (cases pc) auto

text \<open>Buffers belong to one job each, and whoever holds one holds it for that job.\<close>

definition buffers_ok :: "tele \<Rightarrow> bool" where
  "buffers_ok T \<longleftrightarrow>
     0 < co_bufferSize (te_col T) \<and>
     (\<forall>j b. co_buffers (te_col T) j = Some b \<longrightarrow> b < co_nextBuffer (te_col T)) \<and>
     (\<forall>j k b. co_buffers (te_col T) j = Some b \<longrightarrow> co_buffers (te_col T) k = Some b \<longrightarrow> j = k) \<and>
     (\<forall>i b e. te_emits T i = Some (EFound b e) \<longrightarrow> b < co_nextBuffer (te_col T) \<and> (\<forall>j. co_buffers (te_col T) j = Some b \<longrightarrow> e_JobUUID e = j)) \<and>
     (\<forall>t sm b. te_streams T t = Some sm \<longrightarrow> pc_buf (sm_pc sm) = Some b \<longrightarrow>
        b < co_nextBuffer (te_col T) \<and> (\<forall>j. co_buffers (te_col T) j = Some b \<longrightarrow> sm_job sm = j))"

text \<open>A listener is the open channel of exactly one stream, which listens to that buffer.\<close>

definition listens :: "tele \<Rightarrow> nat \<Rightarrow> nat \<Rightarrow> bool" where
  "listens T b ch \<longleftrightarrow> (\<exists>t sm. te_streams T t = Some sm \<and> pc_open (sm_pc sm) = Some (b, ch))"

definition chan_of :: "tele \<Rightarrow> nat \<Rightarrow> nat option" where
  "chan_of T t = (case te_streams T t of None \<Rightarrow> None | Some sm \<Rightarrow> pc_chan (sm_pc sm))"

definition channels_ok :: "tele \<Rightarrow> bool" where
  "channels_ok T \<longleftrightarrow>
     (\<forall>t ch. chan_of T t = Some ch \<longrightarrow> ch < co_nextChan (te_col T)) \<and>
     (\<forall>t t' ch. chan_of T t = Some ch \<longrightarrow> chan_of T t' = Some ch \<longrightarrow> t = t') \<and>
     (\<forall>b. distinct (eb_listeners (co_store (te_col T) b))) \<and>
     (\<forall>b ch. ch \<in> set (eb_listeners (co_store (te_col T) b)) \<longrightarrow> \<not> li_closed (co_chans (te_col T) ch) \<and> listens T b ch) \<and>
     (\<forall>b ch. listens T b ch \<longrightarrow> li_closed (co_chans (te_col T) ch) \<or> ch \<in> set (eb_listeners (co_store (te_col T) b)))"

lemma deliver_pc: "sm_pc (deliver_event ok e n f sm) \<in> {n, f}" "sm_job (deliver_event ok e n f sm) = sm_job sm" "sm_filter (deliver_event ok e n f sm) = sm_filter sm"
  by (simp_all add: deliver_event_def)

lemma deliver_buf: "pc_buf n = x \<Longrightarrow> pc_buf f = x \<Longrightarrow> pc_buf (sm_pc (deliver_event ok e n f sm)) = x"
  and deliver_chan: "pc_chan n = y \<Longrightarrow> pc_chan f = y \<Longrightarrow> pc_chan (sm_pc (deliver_event ok e n f sm)) = y"
  and deliver_open: "pc_open n = z \<Longrightarrow> pc_open f = z \<Longrightarrow> pc_open (sm_pc (deliver_event ok e n f sm)) = z"
  by (simp_all add: deliver_event_def)

lemmas sys_defs = set_stream_def set_col_def set_emit_def

lemma sys_sel [simp]:
  "te_col (set_col c T) = c" "te_emits (set_col c T) = te_emits T" "te_streams (set_col c T) = te_streams T"
  "te_col (set_emit i p T) = te_col T" "te_emits (set_emit i p T) = (te_emits T)(i := p)" "te_streams (set_emit i p T) = te_streams T"
  "te_col (set_stream t sm T) = te_col T" "te_emits (set_stream t sm T) = te_emits T" "te_streams (set_stream t sm T) = (te_streams T)(t \<mapsto> sm)"
  by (simp_all add: sys_defs)

text \<open>A step that leaves the collector's buffers alone.\<close>

lemma emit_locked_eq:
  assumes "distinct (eb_listeners (co_store c b))"
  shows "emit_locked b e c =
    (if \<exists>ch \<in> set (eb_listeners (co_store c b)). li_closed (co_chans c ch) then None
     else Some (c\<lparr>co_store := (co_store c)(b := (co_store c b)\<lparr>eb_events := ring_add (co_bufferSize c) e (eb_events (co_store c b))\<rparr>),
       co_chans := (\<lambda>ch. if ch \<in> set (eb_listeners (co_store c b)) \<and> length (li_queue (co_chans c ch)) < listener_capacity
          then (co_chans c ch)\<lparr>li_queue := li_queue (co_chans c ch) @ [e]\<rparr> else co_chans c ch)\<rparr>))"
  using notify_eq [OF assms, of e "co_chans c"] by (simp add: emit_locked_def Let_def)

lemma ClearJob_eq:
  assumes "\<And>b. distinct (eb_listeners (co_store c b))"
  shows "ClearJob j c =
    (case co_buffers c j of None \<Rightarrow> Some (c\<lparr>co_buffers := (co_buffers c)(j := None)\<rparr>)
     | Some b \<Rightarrow> if \<exists>ch \<in> set (eb_listeners (co_store c b)). li_closed (co_chans c ch) then None
        else Some (c\<lparr>co_chans := (\<lambda>ch. if ch \<in> set (eb_listeners (co_store c b)) then (co_chans c ch)\<lparr>li_closed := True\<rparr> else co_chans c ch),
          co_store := (co_store c)(b := (co_store c b)\<lparr>eb_listeners := [], eb_events := []\<rparr>), co_buffers := (co_buffers c)(j := None)\<rparr>))"
  using close_listeners_eq [OF assms] by (simp add: ClearJob_def Let_def split: option.splits)

lemma emit_locked_frame:
  assumes "emit_locked b e c = Some c'"
  shows "co_buffers c' = co_buffers c" "co_nextBuffer c' = co_nextBuffer c" "co_nextChan c' = co_nextChan c" "co_bufferSize c' = co_bufferSize c"
  using assms by (auto simp: emit_locked_def Let_def)

lemma ClearJob_frame:
  assumes "ClearJob j c = Some c'"
  shows "co_buffers c' = (co_buffers c)(j := None)" "co_nextBuffer c' = co_nextBuffer c" "co_nextChan c' = co_nextChan c" "co_bufferSize c' = co_bufferSize c"
  using assms by (auto simp: ClearJob_def Let_def split: option.splits)

lemma stream_register_frame:
  assumes "stream_register b c = (c', ch, es)"
  shows "co_buffers c' = co_buffers c" "co_nextBuffer c' = co_nextBuffer c" "co_bufferSize c' = co_bufferSize c"
  using assms by (auto simp: stream_register_def Let_def)

lemma take_event_Some: "take_event ch c = Some (e, c') \<longleftrightarrow> (\<exists>q. li_queue (co_chans c ch) = e # q \<and> c' = c\<lparr>co_chans := (co_chans c)(ch := (co_chans c ch)\<lparr>li_queue := q\<rparr>)\<rparr>)"
  by (auto simp: take_event_def Let_def split: list.splits)

lemma stream_close_Some: "stream_close ch c = Some c' \<longleftrightarrow> \<not> li_closed (co_chans c ch) \<and> c' = c\<lparr>co_chans := (co_chans c)(ch := (co_chans c ch)\<lparr>li_closed := True\<rparr>)\<rparr>"
  by (auto simp: stream_close_def close_listener_def)

lemma next_sequence_frame:
  assumes "next_sequence e c = (c', p)"
  shows "co_buffers c' = co_buffers c" "co_nextBuffer c' = co_nextBuffer c" "co_nextChan c' = co_nextChan c" "co_bufferSize c' = co_bufferSize c"
    "co_store c' = co_store c" "co_chans c' = co_chans c"
  using assms by (auto simp: next_sequence_def Let_def split: if_splits)

lemma buffers_ok_get:
  assumes "buffers_ok T" "getOrCreateBuffer j (te_col T) = (c, b)"
  shows "buffers_ok (set_col c T) \<and> co_buffers c j = Some b"
  using assms(2)
proof (cases rule: getOrCreateBuffer_cases)
  case old
  then show ?thesis using assms(1) by (simp add: sys_defs)
next
  case new
  have fresh: "co_buffers (te_col T) k \<noteq> Some b" "te_emits T i \<noteq> Some (EFound b e)" "te_streams T t = Some sm \<Longrightarrow> pc_buf (sm_pc sm) \<noteq> Some b" for k i e t sm
    using assms(1) new(2) unfolding buffers_ok_def by (metis less_irrefl)+
  show ?thesis using assms(1) new fresh by (auto simp: buffers_ok_def sys_defs intro: less_SucI)
qed

lemma buffers_ok_emit:
  assumes "buffers_ok T" "\<And>b e. p = Some (EFound b e) \<Longrightarrow> co_buffers (te_col T) (e_JobUUID e) = Some b"
  shows "buffers_ok (set_emit i p T)"
  using assms unfolding buffers_ok_def sys_defs by simp metis

lemma buffers_ok_stream:
  assumes "buffers_ok T" "\<And>b. pc_buf (sm_pc sm) = Some b \<Longrightarrow> co_buffers (te_col T) (sm_job sm) = Some b \<or>
      (\<exists>sm'. te_streams T t = Some sm' \<and> sm_job sm' = sm_job sm \<and> pc_buf (sm_pc sm') = Some b)"
  shows "buffers_ok (set_stream t sm T)"
  using assms unfolding buffers_ok_def sys_defs by simp metis

lemma buffers_ok_col:
  assumes "buffers_ok T" "co_bufferSize c = co_bufferSize (te_col T)" "co_nextBuffer c = co_nextBuffer (te_col T)" "co_buffers c \<subseteq>\<^sub>m co_buffers (te_col T)"
  shows "buffers_ok (set_col c T)"
proof -
  have "co_buffers c j = Some b \<Longrightarrow> co_buffers (te_col T) j = Some b" for j b using assms(4) by (auto simp: map_le_def dom_def)
  then show ?thesis using assms(1-3) unfolding buffers_ok_def sys_defs by simp metis
qed

lemmas collector_frames = emit_locked_frame ClearJob_frame stream_register_frame next_sequence_frame

lemma buffers_ok_step: "tele_step T l T' \<Longrightarrow> buffers_ok T \<Longrightarrow> buffers_ok T'"
proof (induction rule: tele_step.induct)
  case (emit_find T i j c b now data)
  then show ?case using buffers_ok_get [of T j c b] by (auto intro!: buffers_ok_emit)
next
  case (emit_nameless T i now data)
  then show ?case by (auto intro: buffers_ok_emit)
next
  case (emit_add T i b e c)
  then show ?case by (auto intro!: buffers_ok_emit buffers_ok_col simp: collector_frames)
next
  case (emit_number T i e c p)
  then show ?case by (auto intro!: buffers_ok_emit buffers_ok_col simp: collector_frames)
next
  case (emit_persist T i n e)
  then have "buffers_ok (T\<lparr>te_persisted := te_persisted T @ [(n, e)]\<rparr>)" by (simp add: buffers_ok_def)
  then show ?case by (auto intro: buffers_ok_emit)
next
  case (set_persister T p)
  then show ?case by (auto intro: buffers_ok_col simp: SetPersister_def)
next
  case (stream_find T t j c b f)
  then show ?case using buffers_ok_get [of T j c b] by (auto intro!: buffers_ok_stream)
next
  case (stream_open T t sm b c ch es)
  then have "buffers_ok (set_col c T)" by (auto intro!: buffers_ok_col simp: collector_frames)
  then show ?case using stream_open by (auto intro!: buffers_ok_stream)
next
  case (stream_buffered T t sm b ch e es ok)
  then show ?case by (auto intro!: buffers_ok_stream simp: deliver_pc deliver_buf [where x = "Some b"])
next
  case (stream_live T t sm b ch)
  then show ?case by (auto intro!: buffers_ok_stream)
next
  case (stream_take T t sm b ch e c ok)
  then have "buffers_ok (set_col c T)" by (auto intro!: buffers_ok_col simp: take_event_Some)
  then show ?case using stream_take by (auto intro!: buffers_ok_stream simp: deliver_pc deliver_buf [where x = "Some b"])
next
  case (stream_done T t sm b ch)
  then show ?case by (auto intro!: buffers_ok_stream)
next
  case (stream_eof T t sm b ch)
  then show ?case by (auto intro!: buffers_ok_stream)
next
  case (stream_remove T t sm b ch r)
  then have "buffers_ok (set_col (stream_unregister b ch (te_col T)) T)" by (auto intro!: buffers_ok_col simp: stream_unregister_def Let_def)
  then show ?case by (auto intro!: buffers_ok_stream)
next
  case (stream_finish T t sm ch r c)
  then have "buffers_ok (set_col c T)" by (auto intro!: buffers_ok_col simp: stream_close_Some)
  then show ?case by (auto intro!: buffers_ok_stream)
next
  case (clear j T c)
  then show ?case by (auto intro!: buffers_ok_col simp: collector_frames map_le_def)
qed simp_all

lemma listens_pc:
  assumes "te_streams T t = Some sm" "pc_open (sm_pc sm') = pc_open (sm_pc sm)"
  shows "listens (set_stream t sm' T) b ch \<longleftrightarrow> listens T b ch"
proof
  assume "listens (set_stream t sm' T) b ch"
  then obtain u x where "te_streams (set_stream t sm' T) u = Some x" "pc_open (sm_pc x) = Some (b, ch)" by (auto simp: listens_def)
  then show "listens T b ch" using assms by (cases "u = t") (auto simp: listens_def sys_defs)
next
  assume "listens T b ch"
  then obtain u x where x: "te_streams T u = Some x" "pc_open (sm_pc x) = Some (b, ch)" by (auto simp: listens_def)
  have "te_streams (set_stream t sm' T) u = Some (if u = t then sm' else x)" using x by (simp add: sys_defs)
  then show "listens (set_stream t sm' T) b ch" using x assms by (cases "u = t") (auto simp: listens_def)
qed

lemma listens_col [simp]: "listens (set_col c T) b ch = listens T b ch" "listens (set_emit i p T) b ch = listens T b ch"
  "listens (T\<lparr>te_persisted := ps\<rparr>) b ch = listens T b ch"
  by (simp_all add: listens_def sys_defs)

lemma stream_listens: "te_streams T t = Some sm \<Longrightarrow> pc_open (sm_pc sm) = Some (b, ch) \<Longrightarrow> listens T b ch \<and> chan_of T t = Some ch"
  by (auto simp: listens_def chan_of_def dest: pc_open_parts)

lemma listensE:
  assumes "listens T b ch"
  obtains t sm where "te_streams T t = Some sm" "pc_open (sm_pc sm) = Some (b, ch)" "chan_of T t = Some ch"
  using assms stream_listens unfolding listens_def by blast

lemma chan_of_sys [simp]: "chan_of (set_col c T) = chan_of T" "chan_of (set_emit i p T) = chan_of T" "chan_of (T\<lparr>te_persisted := ps\<rparr>) = chan_of T"
  "chan_of (set_stream t sm T) = (chan_of T)(t := pc_chan (sm_pc sm))"
  by (auto simp: chan_of_def fun_eq_iff)

text \<open>Steps that move a stream on without changing its channel.\<close>

lemma channels_ok_stream:
  assumes "channels_ok T" "te_streams T t = Some sm" "pc_open (sm_pc sm') = pc_open (sm_pc sm)" "pc_chan (sm_pc sm') = pc_chan (sm_pc sm)"
  shows "channels_ok (set_stream t sm' T)"
proof -
  have "(chan_of T)(t := pc_chan (sm_pc sm')) = chan_of T" using assms(2,4) by (auto simp: chan_of_def)
  then show ?thesis using assms(1) listens_pc [OF assms(2,3)] unfolding channels_ok_def by simp
qed

text \<open>Steps that change no listener, no flag and no counter of channels.\<close>

lemma channels_ok_col:
  assumes "channels_ok T" "co_nextChan c = co_nextChan (te_col T)" "\<And>b. eb_listeners (co_store c b) = eb_listeners (co_store (te_col T) b)"
    "\<And>ch. li_closed (co_chans c ch) = li_closed (co_chans (te_col T) ch)"
  shows "channels_ok (set_col c T)"
  using assms unfolding channels_ok_def by simp

lemma channels_ok_emit [simp]: "channels_ok (set_emit i p T) = channels_ok T" "channels_ok (T\<lparr>te_persisted := ps\<rparr>) = channels_ok T"
  by (simp_all add: channels_ok_def)

lemma channels_okD:
  assumes "channels_ok T"
  shows "chan_of T t = Some ch \<Longrightarrow> ch < co_nextChan (te_col T)" "chan_of T t = Some ch \<Longrightarrow> chan_of T t' = Some ch \<Longrightarrow> t = t'"
    "distinct (eb_listeners (co_store (te_col T) b))" "ch \<in> set (eb_listeners (co_store (te_col T) b)) \<Longrightarrow> \<not> li_closed (co_chans (te_col T) ch)"
    "ch \<in> set (eb_listeners (co_store (te_col T) b)) \<Longrightarrow> listens T b ch"
    "listens T b ch \<Longrightarrow> \<not> li_closed (co_chans (te_col T) ch) \<Longrightarrow> ch \<in> set (eb_listeners (co_store (te_col T) b))"
  using assms unfolding channels_ok_def by blast+

text \<open>A channel is listened to at one buffer only.\<close>

lemma listens_unique:
  assumes "channels_ok T" "listens T b ch" "listens T b' ch"
  shows "b = b'"
proof -
  obtain t sm where t: "te_streams T t = Some sm" "pc_open (sm_pc sm) = Some (b, ch)" "chan_of T t = Some ch" using assms(2) by (rule listensE)
  obtain t' sm' where t': "te_streams T t' = Some sm'" "pc_open (sm_pc sm') = Some (b', ch)" "chan_of T t' = Some ch" using assms(3) by (rule listensE)
  show ?thesis using t t' channels_okD(2) [OF assms(1) t(3) t'(3)] by simp
qed

lemma listens_set_stream:
  "listens (set_stream t sm T) b ch \<longleftrightarrow> pc_open (sm_pc sm) = Some (b, ch) \<or> (\<exists>u x. u \<noteq> t \<and> te_streams T u = Some x \<and> pc_open (sm_pc x) = Some (b, ch))"
  unfolding listens_def by (auto split: if_splits)

lemma listens_others:
  assumes "te_streams T t = Some sm" "pc_open (sm_pc sm) = None"
  shows "listens T b ch \<longleftrightarrow> (\<exists>u x. u \<noteq> t \<and> te_streams T u = Some x \<and> pc_open (sm_pc x) = Some (b, ch))"
  using assms unfolding listens_def by (metis option.distinct(1) option.inject)

lemma listens_fresh: "te_streams T t = None \<Longrightarrow> listens T b ch \<longleftrightarrow> (\<exists>u x. u \<noteq> t \<and> te_streams T u = Some x \<and> pc_open (sm_pc x) = Some (b, ch))"
  unfolding listens_def by (metis option.distinct(1))

lemma channels_ok_get:
  assumes "channels_ok T" "buffers_ok T" "getOrCreateBuffer j (te_col T) = (c, b)"
  shows "channels_ok (set_col c T)"
  using assms(3)
proof (cases rule: getOrCreateBuffer_cases)
  case old
  then show ?thesis using assms(1) by (simp add: sys_defs)
next
  case new
  have "\<not> listens T b ch" for ch
  proof
    assume "listens T b ch"
    then obtain t sm where "te_streams T t = Some sm" "pc_open (sm_pc sm) = Some (b, ch)" by (rule listensE)
    then show False using assms(2) new(2) pc_open_parts unfolding buffers_ok_def by (metis less_irrefl)
  qed
  then show ?thesis using assms(1) new unfolding channels_ok_def by simp
qed

lemma channels_ok_open:
  assumes "channels_ok T" "te_streams T t = Some sm" "sm_pc sm = SFound b" "stream_register b (te_col T) = (c, ch, es)" "pc_open (sm_pc sm') = Some (b, ch)"
  shows "channels_ok (set_stream t sm' (set_col c T))"
proof -
  have c: "c = (te_col T)\<lparr>co_chans := (co_chans (te_col T))(ch := \<lparr>li_queue = [], li_closed = False\<rparr>), co_nextChan := ch + 1,
      co_store := (co_store (te_col T))(b := (co_store (te_col T) b)\<lparr>eb_listeners := eb_listeners (co_store (te_col T) b) @ [ch]\<rparr>)\<rparr>"
    and ch: "ch = co_nextChan (te_col T)" using assms(4) by (auto simp: stream_register_def Let_def)
  have no: "chan_of T u \<noteq> Some ch" for u using channels_okD(1) [OF assms(1), of u ch] ch by auto
  have nl: "\<not> listens T b' ch" for b' using no by (auto elim: listensE)
  have cl: "chan_of T t = None" "pc_open (sm_pc sm) = None" using assms(2,3) by (auto simp: chan_of_def)
  have L: "listens (set_stream t sm' (set_col c T)) b' ch' \<longleftrightarrow> (b' = b \<and> ch' = ch) \<or> listens T b' ch'" for b' ch'
    using assms(5) listens_others [OF assms(2) cl(2)] unfolding listens_set_stream by auto
  have sm: "pc_chan (sm_pc sm') = Some ch" using assms(5) pc_open_parts by blast
  have nin: "ch \<notin> set (eb_listeners (co_store (te_col T) b'))" for b' using nl channels_okD(5) [OF assms(1)] by blast
  show ?thesis unfolding channels_ok_def L
    using assms(1) no nl nin sm cl c ch unfolding channels_ok_def by (auto simp: less_Suc_eq)
qed

lemma channels_ok_remove:
  assumes "channels_ok T" "te_streams T t = Some sm" "sm_pc sm = SEnding b ch r"
  shows "channels_ok (set_stream t (sm\<lparr>sm_pc := SClosing ch r\<rparr>) (set_col (stream_unregister b ch (te_col T)) T))"
proof -
  let ?T = "set_stream t (sm\<lparr>sm_pc := SClosing ch r\<rparr>) (set_col (stream_unregister b ch (te_col T)) T)"
  have t: "listens T b ch" "chan_of T t = Some ch" using stream_listens [OF assms(2), of b ch] assms(3) by simp_all
  have L: "listens ?T b' ch' \<longleftrightarrow> listens T b' ch' \<and> ch' \<noteq> ch" for b' ch'
  proof
    assume "listens ?T b' ch'"
    then obtain u x where x: "u \<noteq> t" "te_streams T u = Some x" "pc_open (sm_pc x) = Some (b', ch')" by (auto simp: listens_set_stream)
    then have "listens T b' ch'" "chan_of T u = Some ch'" using stream_listens by blast+
    then show "listens T b' ch' \<and> ch' \<noteq> ch" using channels_okD(2) [OF assms(1) t(2), of u] x(1) by auto
  next
    assume "listens T b' ch' \<and> ch' \<noteq> ch"
    then obtain u x where x: "te_streams T u = Some x" "pc_open (sm_pc x) = Some (b', ch')" "ch' \<noteq> ch" by (auto elim: listensE)
    then have "u \<noteq> t" using assms(2,3) by auto
    then show "listens ?T b' ch'" using x by (auto simp: listens_set_stream)
  qed
  have ch: "(chan_of T)(t := Some ch) = chan_of T" using t(2) by auto
  have l: "ch \<notin> set (eb_listeners (co_store (te_col T) b'))" if "b' \<noteq> b" for b'
    using channels_okD(5) [OF assms(1), of ch b'] listens_unique [OF assms(1) t(1), of b'] that by blast
  show ?thesis unfolding channels_ok_def L
    using assms(1) l unfolding channels_ok_def by (auto simp: stream_unregister_def Let_def ch)
qed

lemma channels_ok_finish:
  assumes "channels_ok T" "te_streams T t = Some sm" "sm_pc sm = SClosing ch r" "stream_close ch (te_col T) = Some c"
  shows "channels_ok (set_stream t (sm\<lparr>sm_pc := SDone r\<rparr>) (set_col c T))"
proof -
  have c: "c = (te_col T)\<lparr>co_chans := (co_chans (te_col T))(ch := (co_chans (te_col T) ch)\<lparr>li_closed := True\<rparr>)\<rparr>"
    using assms(4) by (simp add: stream_close_Some)
  have t: "chan_of T t = Some ch" "pc_open (sm_pc sm) = None" using assms(2,3) by (simp_all add: chan_of_def)
  have nl: "\<not> listens T b ch" for b
  proof
    assume "listens T b ch"
    then obtain u x where x: "te_streams T u = Some x" "pc_open (sm_pc x) = Some (b, ch)" "chan_of T u = Some ch" by (rule listensE)
    then have "u = t" using channels_okD(2) [OF assms(1) t(1)] by blast
    then show False using x assms(2,3) by simp
  qed
  have L: "listens (set_stream t (sm\<lparr>sm_pc := SDone r\<rparr>) (set_col c T)) b' ch' \<longleftrightarrow> listens T b' ch'" for b' ch'
    using listens_others [OF assms(2) t(2)] unfolding listens_set_stream by auto
  have n: "ch \<notin> set (eb_listeners (co_store (te_col T) b))" for b using nl channels_okD(5) [OF assms(1)] by blast
  show ?thesis unfolding channels_ok_def L using assms(1) n nl c unfolding channels_ok_def by auto
qed

lemma channels_ok_clear:
  assumes "channels_ok T" "ClearJob j (te_col T) = Some c"
  shows "channels_ok (set_col c T)"
proof (cases "co_buffers (te_col T) j")
  case None
  then show ?thesis using assms ClearJob_eq [of "te_col T" j] channels_okD(3) [OF assms(1)] by (auto intro!: channels_ok_col)
next
  case (Some b)
  let ?ls = "set (eb_listeners (co_store (te_col T) b))"
  have c: "c = (te_col T)\<lparr>co_chans := (\<lambda>ch. if ch \<in> ?ls then (co_chans (te_col T) ch)\<lparr>li_closed := True\<rparr> else co_chans (te_col T) ch),
      co_store := (co_store (te_col T))(b := (co_store (te_col T) b)\<lparr>eb_listeners := [], eb_events := []\<rparr>), co_buffers := (co_buffers (te_col T))(j := None)\<rparr>"
    using assms(2) Some ClearJob_eq [of "te_col T" j] channels_okD(3) [OF assms(1)] by (auto split: if_splits)
  have "ch \<notin> ?ls" if "ch \<in> set (eb_listeners (co_store (te_col T) b'))" "b' \<noteq> b" for ch b'
    using that channels_okD(5) [OF assms(1)] listens_unique [OF assms(1)] by blast
  then show ?thesis using assms(1) c unfolding channels_ok_def by auto
qed

lemma channels_ok_step: "tele_step T l T' \<Longrightarrow> channels_ok T \<Longrightarrow> buffers_ok T \<Longrightarrow> channels_ok T'"
proof (induction rule: tele_step.induct)
  case (emit_find T i j c b now data)
  then show ?case by (auto intro: channels_ok_get)
next
  case (emit_add T i b e c)
  then show ?case using emit_locked_eq [OF channels_okD(3) [OF emit_add.prems(1), of b], of e] by (auto intro!: channels_ok_col split: if_splits)
next
  case (emit_number T i e c p)
  then show ?case by (auto intro!: channels_ok_col simp: collector_frames)
next
  case (set_persister T p)
  then show ?case by (auto intro!: channels_ok_col simp: SetPersister_def)
next
  case (stream_find T t j c b f)
  then have ok: "channels_ok (set_col c T)" by (auto intro: channels_ok_get)
  have "(chan_of T)(t := None) = chan_of T" using stream_find(1) by (auto simp: chan_of_def)
  moreover have "listens (set_stream t \<lparr>sm_job = j, sm_filter = f, sm_sent = [], sm_pc = SFound b\<rparr> (set_col c T)) b' ch \<longleftrightarrow> listens (set_col c T) b' ch" for b' ch
    using listens_fresh [OF stream_find(1)] unfolding listens_set_stream by simp
  ultimately show ?case using ok unfolding channels_ok_def by simp
next
  case (stream_open T t sm b c ch es)
  then show ?case by (auto intro: channels_ok_open)
next
  case (stream_buffered T t sm b ch e es ok)
  then show ?case by (auto intro!: channels_ok_stream simp: deliver_open [where z = "Some (b, ch)"] deliver_chan [where y = "Some ch"])
next
  case (stream_live T t sm b ch)
  then show ?case by (auto intro!: channels_ok_stream)
next
  case (stream_take T t sm b ch e c ok)
  then have "channels_ok (set_col c T)" by (auto intro!: channels_ok_col simp: take_event_Some split: if_splits)
  then show ?case using stream_take by (auto intro!: channels_ok_stream simp: deliver_open [where z = "Some (b, ch)"] deliver_chan [where y = "Some ch"])
next
  case (stream_done T t sm b ch)
  then show ?case by (auto intro!: channels_ok_stream)
next
  case (stream_eof T t sm b ch)
  then show ?case by (auto intro!: channels_ok_stream)
next
  case (stream_remove T t sm b ch r)
  then show ?case by (auto intro: channels_ok_remove)
next
  case (stream_finish T t sm ch r c)
  then show ?case by (auto intro: channels_ok_finish)
next
  case (clear j T c)
  then show ?case by (auto intro: channels_ok_clear)
qed simp_all

definition tele_inv :: "tele \<Rightarrow> bool" where
  "tele_inv T \<longleftrightarrow> buffers_ok T \<and> channels_ok T"

lemma tele_inv_new: "tele_inv (new_tele n)"
  by (auto simp: tele_inv_def buffers_ok_def channels_ok_def new_tele_def NewCollector_def chan_of_def listens_def Let_def)

lemma tele_inv_step: "tele_step T l T' \<Longrightarrow> tele_inv T \<Longrightarrow> tele_inv T'"
  by (auto simp: tele_inv_def intro: buffers_ok_step channels_ok_step)

lemma tele_inv_run: "tele_run T0 ls T \<Longrightarrow> tele_inv T0 \<Longrightarrow> tele_inv T"
  by (induction rule: tele_run.induct) (auto intro: tele_inv_step)

section \<open>What a stream delivers\<close>

text \<open>The events added for a job, and those a stream has to deliver: the last ones when it was opened, and all since.\<close>

fun added_event :: "string \<Rightarrow> label \<Rightarrow> Event list" where
  "added_event j (TAdd e full) = (if e_JobUUID e = j then [e] else [])"
| "added_event j _ = []"

definition emitted :: "string \<Rightarrow> label list \<Rightarrow> Event list" where
  "emitted j ls = concat (map (added_event j) ls)"

lemma emitted_simps [simp]: "emitted j [] = []" "emitted j (l # ls) = added_event j l @ emitted j ls" "emitted j (ls @ ms) = emitted j ls @ emitted j ms"
  by (simp_all add: emitted_def)

fun is_open :: "nat \<Rightarrow> label \<Rightarrow> bool" where
  "is_open t (TOpen u ch) = (u = t)"
| "is_open t _ = False"

definition opened :: "nat \<Rightarrow> label list \<Rightarrow> bool" where
  "opened t ls = list_ex (is_open t) ls"

definition since_open :: "nat \<Rightarrow> label list \<Rightarrow> label list" where
  "since_open t ls = dropWhile (\<lambda>l. \<not> is_open t l) ls"

definition offered :: "nat \<Rightarrow> nat \<Rightarrow> string \<Rightarrow> label list \<Rightarrow> Event list" where
  "offered n t j ls = (if opened t ls then last_n n (emitted j (takeWhile (\<lambda>l. \<not> is_open t l) ls)) @ emitted j (since_open t ls) else [])"

definition lost :: "nat \<Rightarrow> nat \<Rightarrow> label list \<Rightarrow> bool" where
  "lost t ch ls \<longleftrightarrow> (\<exists>e full. TAdd e full \<in> set (since_open t ls) \<and> ch \<in> set full)"

lemma opened_simps [simp]: "opened t [] = False" "opened t (ls @ ms) = (opened t ls \<or> opened t ms)" "opened t (l # ls) = (is_open t l \<or> opened t ls)"
  by (auto simp: opened_def)

lemma since_open_append: "since_open t (ls @ ms) = (if opened t ls then since_open t ls @ ms else since_open t ms)"
  by (auto simp: since_open_def opened_def list_ex_iff dropWhile_append1 dropWhile_append2)

lemma not_open_split: "\<not> opened t ls \<Longrightarrow> takeWhile (\<lambda>l. \<not> is_open t l) (ls @ ms) = ls @ takeWhile (\<lambda>l. \<not> is_open t l) ms"
  by (induction ls) auto

lemma open_split: "opened t ls \<Longrightarrow> takeWhile (\<lambda>l. \<not> is_open t l) (ls @ ms) = takeWhile (\<lambda>l. \<not> is_open t l) ls"
  by (auto simp: opened_def list_ex_iff takeWhile_append1)

lemma added_open [simp]: "is_open t l \<Longrightarrow> added_event j l = []"
  by (cases l) auto

lemma offered_snoc:
  "offered n t j (ls @ [l]) = (if opened t ls then offered n t j ls @ added_event j l else if is_open t l then last_n n (emitted j ls) else [])"
  by (auto simp: offered_def since_open_append not_open_split open_split) (auto simp: since_open_def)

lemma lost_snoc: "lost t ch (ls @ [l]) \<longleftrightarrow> lost t ch ls \<or> (opened t ls \<and> (\<exists>e full. l = TAdd e full \<and> ch \<in> set full))"
proof -
  have "\<not> opened t ls \<Longrightarrow> since_open t ls = []" by (auto simp: since_open_def opened_def list_ex_iff dropWhile_eq_Nil_conv)
  then show ?thesis by (cases l, auto simp: lost_def since_open_append, auto simp: since_open_def split: if_splits)
qed

fun waiting :: "Collector \<Rightarrow> stream_pc \<Rightarrow> Event list" where
  "waiting c (SBuffered b ch es) = es @ li_queue (co_chans c ch)"
| "waiting c (SLive b ch) = li_queue (co_chans c ch)"
| "waiting c _ = []"

fun flowing :: "stream_pc \<Rightarrow> nat option" where
  "flowing (SBuffered b ch es) = Some ch"
| "flowing (SLive b ch) = Some ch"
| "flowing _ = None"

definition stream_ok :: "nat \<Rightarrow> string \<Rightarrow> label list \<Rightarrow> Collector \<Rightarrow> nat \<Rightarrow> stream \<Rightarrow> bool" where
  "stream_ok n j ls c t sm \<longleftrightarrow>
     (\<forall>b. pc_buf (sm_pc sm) = Some b \<longrightarrow> co_buffers c j = Some b) \<and>
     (\<forall>b ch. pc_open (sm_pc sm) = Some (b, ch) \<longrightarrow> \<not> li_closed (co_chans c ch)) \<and>
     ((\<exists>b. sm_pc sm = SFound b) \<longleftrightarrow> \<not> opened t ls) \<and>
     subseq (sm_sent sm @ filter (passes (sm_filter sm)) (waiting c (sm_pc sm))) (filter (passes (sm_filter sm)) (offered n t j ls)) \<and>
     (\<forall>ch. flowing (sm_pc sm) = Some ch \<longrightarrow> \<not> lost t ch ls \<longrightarrow>
        sm_sent sm @ filter (passes (sm_filter sm)) (waiting c (sm_pc sm)) = filter (passes (sm_filter sm)) (offered n t j ls))"

definition job_inv :: "nat \<Rightarrow> string \<Rightarrow> label list \<Rightarrow> tele \<Rightarrow> bool" where
  "job_inv n j ls T \<longleftrightarrow>
     co_bufferSize (te_col T) = int n \<and>
     (\<forall>i b e. te_emits T i = Some (EFound b e) \<longrightarrow> e_JobUUID e = j \<longrightarrow> co_buffers (te_col T) j = Some b) \<and>
     (case co_buffers (te_col T) j of None \<Rightarrow> emitted j ls = [] | Some b \<Rightarrow> eb_events (co_store (te_col T) b) = last_n n (emitted j ls)) \<and>
     (\<forall>t. te_streams T t = None \<longrightarrow> \<not> opened t ls) \<and>
     (\<forall>t sm. te_streams T t = Some sm \<longrightarrow> sm_job sm = j \<longrightarrow> stream_ok n j ls (te_col T) t sm)"

lemma waiting_cong: "(\<And>ch. flowing pc = Some ch \<Longrightarrow> li_queue (co_chans c ch) = li_queue (co_chans c' ch)) \<Longrightarrow> waiting c pc = waiting c' pc"
  by (cases pc) auto

lemma flowing_open: "flowing pc = Some ch \<Longrightarrow> \<exists>b. pc_open pc = Some (b, ch)"
  by (cases pc) auto

text \<open>A stream that a step does not touch.\<close>

lemma stream_ok_frame:
  assumes "stream_ok n j ls c t sm" "added_event j l = []" "\<not> is_open t l" "\<And>ch. flowing (sm_pc sm) = Some ch \<Longrightarrow> \<not> (\<exists>e full. l = TAdd e full \<and> ch \<in> set full)"
    "\<And>b. co_buffers c j = Some b \<Longrightarrow> co_buffers c' j = Some b"
    "\<And>b ch. pc_open (sm_pc sm) = Some (b, ch) \<Longrightarrow> li_queue (co_chans c' ch) = li_queue (co_chans c ch) \<and> li_closed (co_chans c' ch) = li_closed (co_chans c ch)"
  shows "stream_ok n j (ls @ [l]) c' t sm"
proof -
  have w: "waiting c' (sm_pc sm) = waiting c (sm_pc sm)" by (rule waiting_cong) (use assms(6) flowing_open in blast)
  have o: "offered n t j (ls @ [l]) = offered n t j ls" using assms(2,3) by (auto simp: offered_snoc) (simp add: offered_def)
  have x: "lost t ch (ls @ [l]) = lost t ch ls" if "flowing (sm_pc sm) = Some ch" for ch using assms(4) [OF that] by (auto simp: lost_snoc)
  show ?thesis using assms(1,3,5,6) unfolding stream_ok_def w o by (auto simp: x)
qed

text \<open>Steps that add no event and open no stream: what is left to show concerns the acting stream.\<close>

lemma job_inv_quiet:
  assumes inv: "job_inv n j ls T" and l: "added_event j l = []" "\<And>t. \<not> is_open t l" "\<And>e full. l \<noteq> TAdd e full"
    and size: "co_bufferSize (te_col T') = co_bufferSize (te_col T)" and bufs: "\<And>b. co_buffers (te_col T) j = Some b \<Longrightarrow> co_buffers (te_col T') j = Some b"
    and emits: "\<And>i b e. te_emits T' i = Some (EFound b e) \<Longrightarrow> e_JobUUID e = j \<Longrightarrow> co_buffers (te_col T') j = Some b"
    and events: "\<And>b. co_buffers (te_col T') j = Some b \<Longrightarrow> eb_events (co_store (te_col T') b) = (if co_buffers (te_col T) j = None then [] else eb_events (co_store (te_col T) b))"
    and gone: "\<And>t. te_streams T' t = None \<Longrightarrow> te_streams T t = None"
    and streams: "\<And>t sm. te_streams T' t = Some sm \<Longrightarrow> sm_job sm = j \<Longrightarrow> stream_ok n j (ls @ [l]) (te_col T') t sm"
  shows "job_inv n j (ls @ [l]) T'"
proof -
  have "case co_buffers (te_col T') j of None \<Rightarrow> emitted j (ls @ [l]) = [] | Some b \<Rightarrow> eb_events (co_store (te_col T') b) = last_n n (emitted j (ls @ [l]))"
    using inv events bufs l(1) unfolding job_inv_def by (auto split: option.splits)
  then show ?thesis using inv size emits gone streams l unfolding job_inv_def by auto
qed

lemma job_invD:
  assumes "job_inv n j ls T"
  shows "co_bufferSize (te_col T) = int n" "te_emits T i = Some (EFound b e) \<Longrightarrow> e_JobUUID e = j \<Longrightarrow> co_buffers (te_col T) j = Some b"
    "co_buffers (te_col T) j = None \<Longrightarrow> emitted j ls = []" "co_buffers (te_col T) j = Some b \<Longrightarrow> eb_events (co_store (te_col T) b) = last_n n (emitted j ls)"
    "te_streams T t = None \<Longrightarrow> \<not> opened t ls" "te_streams T t = Some sm \<Longrightarrow> sm_job sm = j \<Longrightarrow> stream_ok n j ls (te_col T) t sm"
  using assms unfolding job_inv_def by (auto split: option.splits)

lemma stream_okD:
  assumes "stream_ok n j ls c t sm"
  shows "pc_buf (sm_pc sm) = Some b \<Longrightarrow> co_buffers c j = Some b" "pc_open (sm_pc sm) = Some (b, ch) \<Longrightarrow> \<not> li_closed (co_chans c ch)"
    "(\<exists>b. sm_pc sm = SFound b) \<longleftrightarrow> \<not> opened t ls"
    "subseq (sm_sent sm @ filter (passes (sm_filter sm)) (waiting c (sm_pc sm))) (filter (passes (sm_filter sm)) (offered n t j ls))"
    "flowing (sm_pc sm) = Some ch \<Longrightarrow> \<not> lost t ch ls \<Longrightarrow> sm_sent sm @ filter (passes (sm_filter sm)) (waiting c (sm_pc sm)) = filter (passes (sm_filter sm)) (offered n t j ls)"
  using assms unfolding stream_ok_def by blast+

lemma getOrCreateBuffer_job:
  assumes "getOrCreateBuffer k c = (c', b)"
  shows "co_bufferSize c' = co_bufferSize c" "co_chans c' = co_chans c" "co_buffers c' k = Some b" "co_buffers c j = Some b' \<Longrightarrow> co_buffers c' j = Some b'"
  using assms by (auto elim!: getOrCreateBuffer_cases)

lemma getOrCreateBuffer_events:
  assumes "buffers_ok T" "getOrCreateBuffer k (te_col T) = (c', b)" "co_buffers c' j = Some b'"
  shows "eb_events (co_store c' b') = (if co_buffers (te_col T) j = None then [] else eb_events (co_store (te_col T) b'))"
  using assms(2)
proof (cases rule: getOrCreateBuffer_cases)
  case old
  then show ?thesis using assms(3) by simp
next
  case new
  have "b' < co_nextBuffer (te_col T)" if "co_buffers (te_col T) j = Some b'" using assms(1) that unfolding buffers_ok_def by blast
  then show ?thesis using new assms(3) by (auto split: if_splits)
qed

text \<open>A stream that moves on, in the collector as it is.\<close>

lemma subseq_drop_one: "subseq (xs @ y # ys) zs \<Longrightarrow> subseq (xs @ ys) zs"
  by (metis subseq_append_le_same_iff subseq_order.dual_order.trans list_emb_append_mono subseq_Cons' subseq_order.order_refl)

lemma subseq_front: "subseq (xs @ ys) zs \<Longrightarrow> subseq xs zs"
  by (meson prefixI prefix_imp_subseq subseq_order.order_trans)

lemma job_inv_quiet_stream:
  assumes "job_inv n j ls T" "te_streams T t = Some sm"
    and "sm_job sm' = sm_job sm" "sm_job sm = j \<Longrightarrow> stream_ok n j (ls @ [TSilent]) (te_col T) t sm'"
  shows "job_inv n j (ls @ [TSilent]) (set_stream t sm' T)"
proof (rule job_inv_quiet [OF assms(1)])
  fix u x assume x: "te_streams (set_stream t sm' T) u = Some x" "sm_job x = j"
  show "stream_ok n j (ls @ [TSilent]) (te_col (set_stream t sm' T)) u x"
  proof (cases "u = t")
    case True
    then show ?thesis using x assms(3,4) by simp
  next
    case False
    then have "stream_ok n j ls (te_col T) u x" using x job_invD(6) [OF assms(1), of u x] by simp
    then show ?thesis by (auto intro: stream_ok_frame)
  qed
next
  show "\<And>b. co_buffers (te_col (set_stream t sm' T)) j = Some b \<Longrightarrow> eb_events (co_store (te_col (set_stream t sm' T)) b) = (if co_buffers (te_col T) j = None then [] else eb_events (co_store (te_col T) b))"
    by simp
  show "\<And>u. te_streams (set_stream t sm' T) u = None \<Longrightarrow> te_streams T u = None" by (simp split: if_splits)
qed (use job_invD(2) [OF assms(1)] in auto)

lemma job_inv_col:
  assumes "job_inv n j ls T" "co_bufferSize c = co_bufferSize (te_col T)" "co_buffers c j = co_buffers (te_col T) j"
    and "\<And>b. co_buffers c j = Some b \<Longrightarrow> eb_events (co_store c b) = eb_events (co_store (te_col T) b)"
    and "\<And>t sm b ch. te_streams T t = Some sm \<Longrightarrow> sm_job sm = j \<Longrightarrow> pc_open (sm_pc sm) = Some (b, ch) \<Longrightarrow>
       li_queue (co_chans c ch) = li_queue (co_chans (te_col T) ch) \<and> li_closed (co_chans c ch) = li_closed (co_chans (te_col T) ch)"
    and "added_event j l = []" "\<And>t. \<not> is_open t l" "\<And>e full. l \<noteq> TAdd e full"
  shows "job_inv n j (ls @ [l]) (set_col c T)"
proof (rule job_inv_quiet [OF assms(1,6,7,8)])
  fix t sm assume s: "te_streams (set_col c T) t = Some sm" "sm_job sm = j"
  then have "stream_ok n j ls (te_col T) t sm" using job_invD(6) [OF assms(1)] by simp
  then show "stream_ok n j (ls @ [l]) (te_col (set_col c T)) t sm"
    by (rule stream_ok_frame) (use assms s in auto)
next
  show "\<And>b. co_buffers (te_col (set_col c T)) j = Some b \<Longrightarrow>
      eb_events (co_store (te_col (set_col c T)) b) = (if co_buffers (te_col T) j = None then [] else eb_events (co_store (te_col T) b))"
    using assms(3,4) by auto
  show "\<And>i b e. te_emits (set_col c T) i = Some (EFound b e) \<Longrightarrow> e_JobUUID e = j \<Longrightarrow> co_buffers (te_col (set_col c T)) j = Some b"
    using job_invD(2) [OF assms(1)] assms(3) by simp
qed (use assms in simp_all)

lemma job_inv_emit:
  assumes "job_inv n j ls T" "\<And>b e. p = Some (EFound b e) \<Longrightarrow> e_JobUUID e = j \<Longrightarrow> co_buffers (te_col T) j = Some b"
  shows "job_inv n j ls (set_emit i p T)"
  using assms unfolding job_inv_def by (auto split: option.splits)

lemma job_inv_persisted [simp]: "job_inv n j ls (T\<lparr>te_persisted := ps\<rparr>) = job_inv n j ls T"
  by (simp add: job_inv_def split: option.splits)

text \<open>The step of an emitter under the lock of the buffer.\<close>

lemma emit_locked_other:
  assumes "tele_inv T" "te_emits T i = Some (EFound b e)" "emit_locked b e (te_col T) = Some c" "co_buffers (te_col T) j \<noteq> Some b"
    "te_streams T t = Some sm" "pc_open (sm_pc sm) = Some (b', ch)" "co_buffers (te_col T) j = Some b'"
  shows "co_chans c ch = co_chans (te_col T) ch"
proof -
  have ok: "channels_ok T" using assms(1) by (simp add: tele_inv_def)
  have "ch \<notin> set (eb_listeners (co_store (te_col T) b))"
    using channels_okD(5) [OF ok] listens_unique [OF ok] stream_listens [OF assms(5,6)] assms(4,7) by metis
  then show ?thesis using assms(3) emit_locked_eq [OF channels_okD(3) [OF ok]] by (auto split: if_splits)
qed

lemma job_inv_add:
  assumes "tele_inv T" "job_inv n j ls T" "0 < n" "te_emits T i = Some (EFound b e)" "emit_locked b e (te_col T) = Some c"
  shows "job_inv n j (ls @ [TAdd e (full_listeners b (te_col T))]) (set_col c T)"
proof (cases "co_buffers (te_col T) j = Some b")
  case False
  have e: "e_JobUUID e \<noteq> j" using job_invD(2) [OF assms(2,4)] False by blast
  have ok: "channels_ok T" using assms(1) by (simp add: tele_inv_def)
  have c: "c = (te_col T)\<lparr>co_store := (co_store (te_col T))(b := (co_store (te_col T) b)\<lparr>eb_events := ring_add (co_bufferSize (te_col T)) e (eb_events (co_store (te_col T) b))\<rparr>), co_chans := co_chans c\<rparr>"
    using assms(5) emit_locked_eq [OF channels_okD(3) [OF ok]] by (auto split: if_splits)
  have frame: "co_chans c ch = co_chans (te_col T) ch" if "te_streams T t = Some sm" "sm_job sm = j" "pc_open (sm_pc sm) = Some (b', ch)" for t sm b' ch
    using emit_locked_other [OF assms(1,4,5) False that(1,3)] stream_okD(1) [OF job_invD(6) [OF assms(2) that(1,2)]] pc_open_parts [OF that(3)] by blast
  have full: "ch \<notin> set (full_listeners b (te_col T))" if s: "te_streams T t = Some sm" "sm_job sm = j" "flowing (sm_pc sm) = Some ch" for t sm ch
  proof
    assume "ch \<in> set (full_listeners b (te_col T))"
    then have "listens T b ch" using channels_okD(5) [OF ok] by (simp add: full_listeners_def)
    moreover obtain b' where b': "pc_open (sm_pc sm) = Some (b', ch)" using flowing_open [OF s(3)] by blast
    ultimately have "b' = b" using listens_unique [OF ok] stream_listens [OF s(1) b'] by blast
    then show False using stream_okD(1) [OF job_invD(6) [OF assms(2) s(1,2)]] pc_open_parts [OF b'] False by blast
  qed
  have B: "co_buffers c = co_buffers (te_col T)" "co_bufferSize c = co_bufferSize (te_col T)" by (subst c, simp)+
  have E: "eb_events (co_store c b') = eb_events (co_store (te_col T) b')" if "co_buffers (te_col T) j = Some b'" for b' using that False by (subst c) auto
  have "stream_ok n j (ls @ [TAdd e (full_listeners b (te_col T))]) c t sm" if "te_streams T t = Some sm" "sm_job sm = j" for t sm
    by (rule stream_ok_frame [OF job_invD(6) [OF assms(2) that]]) (use e frame [OF that] full [OF that] B in auto)
  then show ?thesis using assms(2) e B E unfolding job_inv_def by (auto split: option.splits)
next
  case True
  have ok: "channels_ok T" "buffers_ok T" using assms(1) by (simp_all add: tele_inv_def)
  have e: "e_JobUUID e = j" using ok(2) assms(4) True unfolding buffers_ok_def by blast
  let ?L = "eb_listeners (co_store (te_col T) b)"
  have c: "c = (te_col T)\<lparr>co_store := (co_store (te_col T))(b := (co_store (te_col T) b)\<lparr>eb_events := ring_add (co_bufferSize (te_col T)) e (eb_events (co_store (te_col T) b))\<rparr>),
       co_chans := (\<lambda>ch. if ch \<in> set ?L \<and> length (li_queue (co_chans (te_col T) ch)) < listener_capacity
          then (co_chans (te_col T) ch)\<lparr>li_queue := li_queue (co_chans (te_col T) ch) @ [e]\<rparr> else co_chans (te_col T) ch)\<rparr>"
    using assms(5) emit_locked_eq [OF channels_okD(3) [OF ok(1)]] by (auto split: if_splits)
  have E: "eb_events (co_store c b) = last_n n (emitted j (ls @ [TAdd e (full_listeners b (te_col T))]))"
    using job_invD(1,4) [OF assms(2)] True assms(3) e by (subst c) (simp add: ring_add_last)
  have B: "co_buffers c = co_buffers (te_col T)" "co_bufferSize c = co_bufferSize (te_col T)" "li_closed (co_chans c ch) = li_closed (co_chans (te_col T) ch)" for ch by (subst c, simp)+
  have S: "stream_ok n j (ls @ [TAdd e (full_listeners b (te_col T))]) c t sm" if s: "te_streams T t = Some sm" "sm_job sm = j" for t sm
  proof -
    note old = stream_okD [OF job_invD(6) [OF assms(2) s]]
    let ?f = "filter (passes (sm_filter sm))"
    have off: "offered n t j (ls @ [TAdd e (full_listeners b (te_col T))]) = (if opened t ls then offered n t j ls @ [e] else [])" using e by (simp add: offered_snoc)
    have nop: "offered n t j ls = []" if "\<not> opened t ls" using that by (simp add: offered_def)
    show ?thesis
    proof (cases "flowing (sm_pc sm)")
      case None
      then have w: "waiting c (sm_pc sm) = []" "waiting (te_col T) (sm_pc sm) = []" by (cases "sm_pc sm"; simp)+
      then have "subseq (sm_sent sm) (?f (offered n t j (ls @ [TAdd e (full_listeners b (te_col T))])))" using old(4) nop unfolding off by (auto intro: subseq_order.order_trans)
      then show ?thesis using old(1-3) w None B unfolding stream_ok_def by auto
    next
      case (Some ch)
      then obtain b' where b': "pc_open (sm_pc sm) = Some (b', ch)" using flowing_open by blast
      then have "b' = b" using old(1) pc_open_parts True by (metis option.inject)
      then have ch: "ch \<in> set ?L" using channels_okD(6) [OF ok(1)] stream_listens [OF s(1) b'] old(2) [OF b'] by blast
      have op: "opened t ls" using old(3) Some by auto
      have w: "waiting c (sm_pc sm) = waiting (te_col T) (sm_pc sm) @ (if ch \<in> set (full_listeners b (te_col T)) then [] else [e])"
        using Some ch by (cases "sm_pc sm") (simp_all add: c full_listeners_def)
      have l: "lost t ch (ls @ [TAdd e (full_listeners b (te_col T))]) \<longleftrightarrow> lost t ch ls \<or> ch \<in> set (full_listeners b (te_col T))" using op by (auto simp: lost_snoc)
      have "subseq (sm_sent sm @ ?f (waiting c (sm_pc sm))) (?f (offered n t j (ls @ [TAdd e (full_listeners b (te_col T))])))"
      proof (cases "ch \<in> set (full_listeners b (te_col T))")
        case True
        have "subseq (sm_sent sm @ ?f (waiting (te_col T) (sm_pc sm))) (?f (offered n t j ls) @ ?f [e])" using old(4) by (meson prefixI prefix_imp_subseq subseq_order.order_trans)
        then show ?thesis using True op unfolding w off by simp
      next
        case False
        have "subseq ((sm_sent sm @ ?f (waiting (te_col T) (sm_pc sm))) @ ?f [e]) (?f (offered n t j ls) @ ?f [e])" using old(4) by (rule list_emb_append_mono) simp
        then show ?thesis using False op unfolding w off by simp
      qed
      moreover have "sm_sent sm @ ?f (waiting c (sm_pc sm)) = ?f (offered n t j (ls @ [TAdd e (full_listeners b (te_col T))]))" if "\<not> lost t ch (ls @ [TAdd e (full_listeners b (te_col T))])"
        using old(5) [OF Some] that op unfolding l w off by (auto simp flip: append_assoc)
      ultimately show ?thesis using old(1-3) Some B unfolding stream_ok_def by auto
    qed
  qed
  show ?thesis using assms(2) True e B E S unfolding job_inv_def by (auto split: option.splits)
qed

lemma other_chan:
  assumes "channels_ok T" "te_streams T t = Some sm" "te_streams T u = Some x" "u \<noteq> t" "pc_open (sm_pc sm) = Some (b, ch)" "pc_open (sm_pc x) = Some (b', ch')"
  shows "ch' \<noteq> ch"
  using stream_listens [OF assms(2,5)] stream_listens [OF assms(3,6)] channels_okD(2) [OF assms(1)] assms(4) by blast

lemma job_inv_open:
  assumes "tele_inv T" "job_inv n j ls T" "te_streams T t = Some sm" "sm_pc sm = SFound b" "stream_register b (te_col T) = (c, ch, es)" "sm_job sm = j \<Longrightarrow> sm_sent sm = []"
  shows "job_inv n j (ls @ [TOpen t ch]) (set_stream t (sm\<lparr>sm_pc := SBuffered b ch es\<rparr>) (set_col c T))"
proof -
  have ok: "channels_ok T" using assms(1) by (simp add: tele_inv_def)
  have c: "c = (te_col T)\<lparr>co_chans := (co_chans (te_col T))(ch := \<lparr>li_queue = [], li_closed = False\<rparr>), co_nextChan := ch + 1,
      co_store := (co_store (te_col T))(b := (co_store (te_col T) b)\<lparr>eb_listeners := eb_listeners (co_store (te_col T) b) @ [ch]\<rparr>)\<rparr>"
    and ch: "ch = co_nextChan (te_col T)" and es: "es = eb_events (co_store (te_col T) b)" using assms(5) by (auto simp: stream_register_def Let_def)
  have new: "ch' \<noteq> ch" if "te_streams T u = Some x" "pc_open (sm_pc x) = Some (b', ch')" for u x b' ch'
    using stream_listens [OF that] channels_okD(1) [OF ok] ch by fastforce
  let ?T = "set_stream t (sm\<lparr>sm_pc := SBuffered b ch es\<rparr>) (set_col c T)"
  have S: "stream_ok n j (ls @ [TOpen t ch]) c u x" if x: "te_streams ?T u = Some x" "sm_job x = j" for u x
  proof (cases "u = t")
    case True
    then have s: "x = sm\<lparr>sm_pc := SBuffered b ch es\<rparr>" "sm_job sm = j" using x by auto
    note old = stream_okD [OF job_invD(6) [OF assms(2,3) s(2)]]
    have b: "co_buffers (te_col T) j = Some b" using old(1) assms(4) by simp
    have no: "\<not> opened t ls" using old(3) assms(4) by auto
    have "es = last_n n (emitted j ls)" using job_invD(4) [OF assms(2) b] es by simp
    then show ?thesis using True s no b assms(6) unfolding stream_ok_def by (auto simp: offered_snoc c)
  next
    case False
    then have x': "te_streams T u = Some x" using x by simp
    show ?thesis
      by (rule stream_ok_frame [OF job_invD(6) [OF assms(2) x' x(2)]]) (use False new [OF x'] in \<open>auto simp: c\<close>)
  qed
  have O: "\<not> opened u (ls @ [TOpen t ch])" if "te_streams ?T u = None" for u using that job_invD(5) [OF assms(2), of u] by (auto split: if_splits)
  have B: "co_buffers c = co_buffers (te_col T)" "co_bufferSize c = co_bufferSize (te_col T)" "eb_events (co_store c b') = eb_events (co_store (te_col T) b')" for b'
    by (simp_all add: c)
  have E: "emitted j (ls @ [TOpen t ch]) = emitted j ls" by simp
  show ?thesis using assms(2) S O unfolding job_inv_def E by (simp add: B split: option.splits)
qed

text \<open>The delivery of the next waiting event, which \<open>c'\<close> no longer has.\<close>

lemma stream_ok_deliver:
  assumes old: "stream_ok n j ls c t sm" and w: "waiting c (sm_pc sm) = e # waiting c' next" and o: "pc_open (sm_pc sm) = Some (b, ch)" "pc_open next = Some (b, ch)" "pc_open failed = Some (b, ch)"
    and f: "flowing next = flowing (sm_pc sm)" "flowing failed = None" and c: "co_buffers c' = co_buffers c" "li_closed (co_chans c' ch) = li_closed (co_chans c ch)"
  shows "stream_ok n j (ls @ [TSilent]) c' t (deliver_event ok e next failed sm)"
proof -
  let ?f = "filter (passes (sm_filter sm))"
  have bufs: "pc_buf (sm_pc sm) = Some b" "pc_buf next = Some b" "pc_buf failed = Some b" using o pc_open_parts by blast+
  have "sm_pc sm \<noteq> SFound x" "next \<noteq> SFound x" "failed \<noteq> SFound x" for x using o by auto
  then have nf: "opened t ls" "\<And>x. sm_pc (deliver_event ok e next failed sm) \<noteq> SFound x" using stream_okD(3) [OF old] by (auto simp: deliver_event_def)
  have ff: "waiting c' failed = []" using f(2) by (cases failed) auto
  have off: "offered n t j (ls @ [TSilent]) = offered n t j ls" using nf(1) by (simp add: offered_snoc)
  have los: "lost t ch (ls @ [TSilent]) = lost t ch ls" for ch by (simp add: lost_snoc)
  have sub: "subseq (sm_sent sm @ ?f (e # waiting c' next)) (?f (offered n t j ls))" using stream_okD(4) [OF old] w by simp
  have eq: "sm_sent sm @ ?f (e # waiting c' next) = ?f (offered n t j ls)" if "flowing next = Some ch'" "\<not> lost t ch' ls" for ch' using stream_okD(5) [OF old] that f(1) w by simp
  consider (skip) "\<not> passes (sm_filter sm) e" | (sent) "passes (sm_filter sm) e" ok | (fail) "passes (sm_filter sm) e" "\<not> ok" by blast
  then show ?thesis
  proof cases
    case skip
    then have d: "deliver_event ok e next failed sm = sm\<lparr>sm_pc := next\<rparr>" by (simp add: deliver_event_def)
    show ?thesis using stream_okD(1,2) [OF old] o bufs nf c sub eq skip unfolding d stream_ok_def off los by auto
  next
    case sent
    then have d: "deliver_event ok e next failed sm = sm\<lparr>sm_sent := sm_sent sm @ [e], sm_pc := next\<rparr>" by (simp add: deliver_event_def)
    show ?thesis using stream_okD(1,2) [OF old] o bufs nf c sub eq sent unfolding d stream_ok_def off los by auto
  next
    case fail
    then have d: "deliver_event ok e next failed sm = sm\<lparr>sm_pc := failed\<rparr>" by (simp add: deliver_event_def)
    show ?thesis using stream_okD(1,2) [OF old] o bufs nf c subseq_front [OF sub] fail f(2) ff unfolding d stream_ok_def off los by auto
  qed
qed

lemma stream_ok_stop:
  assumes old: "stream_ok n j ls c t sm" and pc: "flowing pc = None" "\<And>x. pc \<noteq> SFound x" "opened t ls" and buf: "\<And>b. pc_buf pc = Some b \<Longrightarrow> pc_buf (sm_pc sm) = Some b"
    and op: "\<And>b ch. pc_open pc = Some (b, ch) \<Longrightarrow> pc_open (sm_pc sm) = Some (b, ch) \<and> li_closed (co_chans c' ch) = li_closed (co_chans c ch)" and c: "co_buffers c' = co_buffers c"
  shows "stream_ok n j (ls @ [TSilent]) c' t (sm\<lparr>sm_pc := pc\<rparr>)"
proof -
  have w: "waiting c' pc = []" using pc by (cases pc) auto
  have off: "offered n t j (ls @ [TSilent]) = offered n t j ls" using pc(3) by (simp add: offered_snoc)
  show ?thesis using stream_okD(1,2) [OF old] subseq_front [OF stream_okD(4) [OF old]] assms(2-) w unfolding stream_ok_def off by auto
qed

definition sent_ok :: "tele \<Rightarrow> bool" where
  "sent_ok T \<longleftrightarrow> (\<forall>t sm b. te_streams T t = Some sm \<longrightarrow> sm_pc sm = SFound b \<longrightarrow> sm_sent sm = [])"

lemma sent_ok_step: "tele_step T l T' \<Longrightarrow> sent_ok T \<Longrightarrow> sent_ok T'"
  by (induction rule: tele_step.induct) (auto simp: sent_ok_def deliver_event_def split: if_splits)

lemma job_inv_step:
  assumes "tele_step T l T'" "tele_inv T" "sent_ok T" "job_inv n j ls T" "0 < n" "l \<noteq> TClear j" "l \<noteq> TPanic"
  shows "job_inv n j (ls @ [l]) T'"
  using assms
proof (induction rule: tele_step.induct)
  case (emit_find T i k c b now data)
  note g = getOrCreateBuffer_job [OF emit_find.hyps(3)]
  have ev: "eb_events (co_store c b') = (if co_buffers (te_col T) j = None then [] else eb_events (co_store (te_col T) b'))" if "co_buffers c j = Some b'" for b'
    using getOrCreateBuffer_events [OF _ emit_find.hyps(3) that] emit_find.prems(1) by (simp add: tele_inv_def)
  have "job_inv n j (ls @ [TSilent]) (set_col c T)"
  proof (rule job_inv_quiet [OF emit_find.prems(3)])
    show "stream_ok n j (ls @ [TSilent]) (te_col (set_col c T)) t sm" if "te_streams (set_col c T) t = Some sm" "sm_job sm = j" for t sm
      by (rule stream_ok_frame [OF job_invD(6) [OF emit_find.prems(3)]]) (use that g in auto)
    show "\<And>i b e. te_emits (set_col c T) i = Some (EFound b e) \<Longrightarrow> e_JobUUID e = j \<Longrightarrow> co_buffers (te_col (set_col c T)) j = Some b"
      using job_invD(2) [OF emit_find.prems(3)] g(4) by simp
  qed (use g ev in simp_all)
  then show ?case by (rule job_inv_emit) (use g in auto)
next
  case (emit_nameless T i now data)
  have "job_inv n j (ls @ [TSilent]) (set_col (te_col T) T)" by (rule job_inv_col [OF emit_nameless.prems(3)]) simp_all
  then show ?case by (auto intro: job_inv_emit simp: set_col_def)
next
  case (emit_add T i b e c)
  then show ?case by (auto intro!: job_inv_emit job_inv_add)
next
  case (emit_number T i e c p)
  have "job_inv n j (ls @ [TSilent]) (set_col c T)" by (rule job_inv_col [OF emit_number.prems(3)]) (use next_sequence_frame [OF emit_number.hyps(2)] in simp_all)
  then show ?case by (auto intro: job_inv_emit)
next
  case (emit_persist T i m e)
  have "job_inv n j (ls @ [TSilent]) (set_col (te_col T) T)" by (rule job_inv_col [OF emit_persist.prems(3)]) simp_all
  then show ?case by (auto intro: job_inv_emit simp: set_col_def)
next
  case (set_persister T p)
  show ?case by (rule job_inv_col [OF set_persister.prems(3)]) (simp_all add: SetPersister_def)
next
  case (stream_find T t k c b f)
  note g = getOrCreateBuffer_job [OF stream_find.hyps(2)]
  have ev: "eb_events (co_store c b') = (if co_buffers (te_col T) j = None then [] else eb_events (co_store (te_col T) b'))" if "co_buffers c j = Some b'" for b'
    using getOrCreateBuffer_events [OF _ stream_find.hyps(2) that] stream_find.prems(1) by (simp add: tele_inv_def)
  have no: "\<not> opened t ls" using job_invD(5) [OF stream_find.prems(3) stream_find.hyps(1)] .
  show ?case
  proof (rule job_inv_quiet [OF stream_find.prems(3)])
    fix u x assume x: "te_streams (set_stream t \<lparr>sm_job = k, sm_filter = f, sm_sent = [], sm_pc = SFound b\<rparr> (set_col c T)) u = Some x" "sm_job x = j"
    show "stream_ok n j (ls @ [TSilent]) (te_col (set_stream t \<lparr>sm_job = k, sm_filter = f, sm_sent = [], sm_pc = SFound b\<rparr> (set_col c T))) u x"
    proof (cases "u = t")
      case True
      then have "x = \<lparr>sm_job = k, sm_filter = f, sm_sent = [], sm_pc = SFound b\<rparr>" using x by simp
      then show ?thesis using x(2) g(3) no True unfolding stream_ok_def by auto
    next
      case False
      then have "te_streams T u = Some x" using x by simp
      then show ?thesis by (rule stream_ok_frame [OF job_invD(6) [OF stream_find.prems(3) _ x(2)]]) (use g in auto)
    qed
  next
    show "\<And>i b' e. te_emits (set_stream t \<lparr>sm_job = k, sm_filter = f, sm_sent = [], sm_pc = SFound b\<rparr> (set_col c T)) i = Some (EFound b' e) \<Longrightarrow>
        e_JobUUID e = j \<Longrightarrow> co_buffers (te_col (set_stream t \<lparr>sm_job = k, sm_filter = f, sm_sent = [], sm_pc = SFound b\<rparr> (set_col c T))) j = Some b'"
      using job_invD(2) [OF stream_find.prems(3)] g(4) by simp
  qed (use g ev in \<open>simp_all split: if_splits\<close>)
next
  case (stream_open T t sm b c ch es)
  then show ?case by (intro job_inv_open) (auto simp: sent_ok_def)
next
  case (stream_buffered T t sm b ch e es ok)
  show ?case
    by (rule job_inv_quiet_stream [OF stream_buffered.prems(3) stream_buffered.hyps(1)])
      (use stream_buffered job_invD(6) [OF stream_buffered.prems(3) stream_buffered.hyps(1)] in \<open>auto simp: deliver_pc intro!: stream_ok_deliver [where b = b and ch = ch]\<close>)
next
  case (stream_live T t sm b ch)
  show ?case
  proof (rule job_inv_quiet_stream [OF stream_live.prems(3) stream_live.hyps(1)])
    assume "sm_job sm = j"
    note old = job_invD(6) [OF stream_live.prems(3) stream_live.hyps(1) this]
    have "opened t ls" using stream_okD(3) [OF old] stream_live.hyps(2) by auto
    then show "stream_ok n j (ls @ [TSilent]) (te_col T) t (sm\<lparr>sm_pc := SLive b ch\<rparr>)"
      using stream_okD [OF old] stream_live.hyps(2) unfolding stream_ok_def by (auto simp: offered_snoc lost_snoc)
  qed simp
next
  case (stream_take T t sm b ch e c ok)
  obtain q where q: "li_queue (co_chans (te_col T) ch) = e # q" "c = (te_col T)\<lparr>co_chans := (co_chans (te_col T))(ch := (co_chans (te_col T) ch)\<lparr>li_queue := q\<rparr>)\<rparr>"
    using stream_take.hyps(3) by (auto simp: take_event_Some)
  have ok: "channels_ok T" using stream_take.prems(1) by (simp add: tele_inv_def)
  let ?sm = "deliver_event ok e (SLive b ch) (SEnding b ch CallbackFailed) sm"
  show ?case
  proof (rule job_inv_quiet [OF stream_take.prems(3)])
    fix u x assume x: "te_streams (set_stream t ?sm (set_col c T)) u = Some x" "sm_job x = j"
    show "stream_ok n j (ls @ [TSilent]) (te_col (set_stream t ?sm (set_col c T))) u x"
    proof (cases "u = t")
      case True
      then have s: "x = ?sm" "sm_job sm = j" using x by (auto simp: deliver_pc)
      show ?thesis unfolding s True
        by (rule stream_ok_deliver [OF job_invD(6) [OF stream_take.prems(3) stream_take.hyps(1) s(2)], where b = b and ch = ch]) (use stream_take.hyps(2) q in auto)
    next
      case False
      then have x': "te_streams T u = Some x" using x by simp
      have "pc_open (sm_pc sm) = Some (b, ch)" using stream_take.hyps(2) by simp
      then have "ch' \<noteq> ch" if "pc_open (sm_pc x) = Some (b', ch')" for b' ch' using other_chan [OF ok stream_take.hyps(1) x' False] that by blast
      then show ?thesis by (intro stream_ok_frame [OF job_invD(6) [OF stream_take.prems(3) x' x(2)]]) (auto simp: q(2))
    qed
  qed (use q job_invD(2) [OF stream_take.prems(3)] in \<open>auto split: if_splits\<close>)
next
  case (stream_done T t sm b ch)
  show ?case
    by (rule job_inv_quiet_stream [OF stream_done.prems(3) stream_done.hyps(1)])
      (use stream_done.hyps stream_okD(3) [OF job_invD(6) [OF stream_done.prems(3) stream_done.hyps(1)]] job_invD(6) [OF stream_done.prems(3) stream_done.hyps(1)] in \<open>auto intro!: stream_ok_stop\<close>)
next
  case (stream_eof T t sm b ch)
  show ?case
    by (rule job_inv_quiet_stream [OF stream_eof.prems(3) stream_eof.hyps(1)])
      (use stream_eof.hyps stream_okD(3) [OF job_invD(6) [OF stream_eof.prems(3) stream_eof.hyps(1)]] job_invD(6) [OF stream_eof.prems(3) stream_eof.hyps(1)] in \<open>auto intro!: stream_ok_stop\<close>)
next
  case (stream_remove T t sm b ch r)
  let ?c = "stream_unregister b ch (te_col T)"
  have c: "job_inv n j (ls @ [TSilent]) (set_col ?c T)" by (rule job_inv_col [OF stream_remove.prems(3)]) (auto simp: stream_unregister_def Let_def)
  have "stream_ok n j (ls @ [TSilent]) ?c t (sm\<lparr>sm_pc := SClosing ch r\<rparr>)" if "sm_job sm = j"
    using job_invD(6) [OF stream_remove.prems(3) stream_remove.hyps(1) that] stream_okD(3) [OF job_invD(6) [OF stream_remove.prems(3) stream_remove.hyps(1) that]] stream_remove.hyps(2)
    by (intro stream_ok_stop) (auto simp: stream_unregister_def Let_def)
  then show ?case using c unfolding job_inv_def by (auto split: option.splits)
next
  case (stream_finish T t sm ch r c)
  have ok: "channels_ok T" using stream_finish.prems(1) by (simp add: tele_inv_def)
  have cc: "c = (te_col T)\<lparr>co_chans := (co_chans (te_col T))(ch := (co_chans (te_col T) ch)\<lparr>li_closed := True\<rparr>)\<rparr>" using stream_finish.hyps(3) by (simp add: stream_close_Some)
  have other: "ch' \<noteq> ch" if "te_streams T u = Some x" "pc_open (sm_pc x) = Some (b', ch')" for u x b' ch'
  proof
    assume "ch' = ch"
    then have "chan_of T u = Some ch" "chan_of T t = Some ch" using stream_listens [OF that] stream_finish.hyps(1,2) by (auto simp: chan_of_def)
    then have "u = t" using channels_okD(2) [OF ok] by blast
    then show False using that stream_finish.hyps(1,2) by simp
  qed
  have c: "job_inv n j (ls @ [TSilent]) (set_col c T)" by (rule job_inv_col [OF stream_finish.prems(3)]) (use other in \<open>auto simp: cc\<close>)
  have "stream_ok n j (ls @ [TSilent]) c t (sm\<lparr>sm_pc := SDone r\<rparr>)" if "sm_job sm = j"
    using job_invD(6) [OF stream_finish.prems(3) stream_finish.hyps(1) that] stream_okD(3) [OF job_invD(6) [OF stream_finish.prems(3) stream_finish.hyps(1) that]] stream_finish.hyps(2)
    by (intro stream_ok_stop) (auto simp: cc)
  then show ?case using c unfolding job_inv_def by (auto split: option.splits)
next
  case (clear k T c)
  have ok: "channels_ok T" "buffers_ok T" using clear.prems(1) by (simp_all add: tele_inv_def)
  have k: "k \<noteq> j" using clear.prems(5) by auto
  show ?case
  proof (cases "co_buffers (te_col T) k")
    case None
    then have "c = (te_col T)\<lparr>co_buffers := (co_buffers (te_col T))(k := None)\<rparr>" using clear.hyps ClearJob_eq [OF channels_okD(3) [OF ok(1)]] by auto
    then show ?thesis using k by (intro job_inv_col [OF clear.prems(3)]) auto
  next
    case (Some b)
    let ?ls = "set (eb_listeners (co_store (te_col T) b))"
    have c: "c = (te_col T)\<lparr>co_chans := (\<lambda>ch. if ch \<in> ?ls then (co_chans (te_col T) ch)\<lparr>li_closed := True\<rparr> else co_chans (te_col T) ch),
        co_store := (co_store (te_col T))(b := (co_store (te_col T) b)\<lparr>eb_listeners := [], eb_events := []\<rparr>), co_buffers := (co_buffers (te_col T))(k := None)\<rparr>"
      using clear.hyps Some ClearJob_eq [OF channels_okD(3) [OF ok(1)], of k] by (auto split: if_splits)
    have nb: "co_buffers (te_col T) j \<noteq> Some b" using ok(2) Some k unfolding buffers_ok_def by blast
    have "ch \<notin> ?ls" if "te_streams T t = Some sm" "sm_job sm = j" "pc_open (sm_pc sm) = Some (b', ch)" for t sm b' ch
    proof
      assume "ch \<in> ?ls"
      then have "b' = b" using channels_okD(5) [OF ok(1)] listens_unique [OF ok(1)] stream_listens [OF that(1,3)] by blast
      then show False using stream_okD(1) [OF job_invD(6) [OF clear.prems(3) that(1,2)]] pc_open_parts [OF that(3)] nb by blast
    qed
    then show ?thesis using k nb by (intro job_inv_col [OF clear.prems(3)]) (auto simp: c)
  qed
qed simp_all

section \<open>Properties\<close>

lemma run_snocE:
  assumes "tele_run T0 (ls @ [l]) T"
  obtains T1 where "tele_run T0 ls T1" "tele_step T1 l T" "TPanic \<notin> set ls"
  using assms by (cases rule: tele_run.cases) auto

lemma run_prefix: "tele_run T0 (ls @ ms) T \<Longrightarrow> \<exists>T1. tele_run T0 ls T1"
proof (induction ms arbitrary: T rule: rev_induct)
  case (snoc m ms)
  then have "tele_run T0 ((ls @ ms) @ [m]) T" by simp
  then show ?case by (rule run_snocE) (rule snoc.IH)
qed auto

lemma run_append: "tele_run T1 ms T2 \<Longrightarrow> tele_run T0 ls T1 \<Longrightarrow> TPanic \<notin> set ls \<Longrightarrow> tele_run T0 (ls @ ms) T2"
  by (induction rule: tele_run.induct) (auto simp flip: append_assoc intro: tele_run.run_step)

definition buffer_limit :: "int \<Rightarrow> nat" where
  "buffer_limit cap = (if cap \<le> 0 then 100000 else nat cap)"

lemma buffer_limit_pos [simp]: "0 < buffer_limit cap"
  by (simp add: buffer_limit_def)

lemma job_inv_new: "job_inv (buffer_limit cap) j [] (new_tele cap)"
  by (simp add: job_inv_def new_tele_def NewCollector_def buffer_limit_def Let_def)

lemma sent_ok_new: "sent_ok (new_tele cap)"
  by (simp add: sent_ok_def new_tele_def)

lemma sent_ok_run: "tele_run (new_tele cap) ls T \<Longrightarrow> sent_ok T"
  by (induction rule: tele_run.induct) (auto intro: sent_ok_step sent_ok_new)

lemma inv_run: "tele_run (new_tele cap) ls T \<Longrightarrow> tele_inv T"
  by (rule tele_inv_run [OF _ tele_inv_new])

lemma job_inv_run: "tele_run (new_tele cap) ls T \<Longrightarrow> TClear j \<notin> set ls \<Longrightarrow> TPanic \<notin> set ls \<Longrightarrow> job_inv (buffer_limit cap) j ls T"
proof (induction rule: tele_run.induct)
  case run_nil
  show ?case by (rule job_inv_new)
next
  case (run_step ls T l T')
  then show ?case using inv_run sent_ok_run by (auto intro!: job_inv_step)
qed

definition opened_ok :: "label list \<Rightarrow> tele \<Rightarrow> bool" where
  "opened_ok ls T \<longleftrightarrow> (\<forall>t. opened t ls \<longrightarrow> (\<exists>sm. te_streams T t = Some sm \<and> (\<forall>b. sm_pc sm \<noteq> SFound b)))"

lemma opened_ok_step: "tele_step T l T' \<Longrightarrow> opened_ok ls T \<Longrightarrow> opened_ok (ls @ [l]) T'"
  by (induction rule: tele_step.induct) (auto simp: opened_ok_def deliver_event_def split: if_splits)

lemma opened_ok_new: "opened_ok [] T"
  by (simp add: opened_ok_def)

lemma opened_ok_run: "tele_run (new_tele cap) ls T \<Longrightarrow> opened_ok ls T"
  by (induction rule: tele_run.induct) (auto intro: opened_ok_step opened_ok_new)

inductive_cases open_stepE: "tele_step T (TOpen t ch) T'"

lemma opened_once:
  assumes "tele_run (new_tele cap) (ls @ TOpen t ch # ms) T"
  shows "\<not> opened t ls"
proof
  assume o: "opened t ls"
  from assms obtain T1 where "tele_run (new_tele cap) (ls @ [TOpen t ch]) T1" using run_prefix [of "new_tele cap" "ls @ [TOpen t ch]" ms T] by auto
  then obtain T2 where "tele_run (new_tele cap) ls T2" "tele_step T2 (TOpen t ch) T1" by (rule run_snocE)
  then show False using opened_ok_run [of cap ls T2] o by (auto elim!: open_stepE simp: opened_ok_def)
qed


lemma collect_eq:
  assumes "limit > 0 \<Longrightarrow> int (length acc) < limit"
  shows "collect f s u limit es acc = (if limit > 0 then take (nat limit) else id)
    (acc @ filter (\<lambda>e. \<not> (case s of None \<Rightarrow> False | Some t \<Rightarrow> e_Timestamp e < t) \<and> \<not> (case u of None \<Rightarrow> False | Some t \<Rightarrow> e_Timestamp e > t) \<and> passes f e) es)"
  using assms
proof (induction es arbitrary: acc)
  case Nil
  then show ?case by (cases "limit > 0") auto
next
  case (Cons e es)
  show ?case
  proof (cases "\<not> (case s of None \<Rightarrow> False | Some t \<Rightarrow> e_Timestamp e < t) \<and> \<not> (case u of None \<Rightarrow> False | Some t \<Rightarrow> e_Timestamp e > t) \<and> passes f e")
    case False
    then show ?thesis using Cons by auto
  next
    case True
    show ?thesis
    proof (cases "limit > 0 \<and> int (length (acc @ [e])) \<ge> limit")
      case True
      then have "nat limit = length (acc @ [e])" using Cons.prems by auto
      then show ?thesis using True \<open>\<not> _ \<and> \<not> _ \<and> _\<close> by simp
    next
      case False
      then show ?thesis using Cons.IH [of "acc @ [e]"] True by auto
    qed
  qed
qed

text \<open>
  C33. While a job is not cleared, its buffer holds exactly the last events emitted for it, and a query returns of these, in order, the ones in the time range that match the filter, cut off at the limit if there is one.
\<close>

theorem buffered_events_exact:
  assumes "tele_run (new_tele cap) ls T" "TClear j \<notin> set ls" "TPanic \<notin> set ls"
  shows "GetBufferedEvents j f s u limit (te_col T) = (if limit > 0 then take (nat limit) else id)
    (filter (\<lambda>e. \<not> (case s of None \<Rightarrow> False | Some t \<Rightarrow> e_Timestamp e < t) \<and> \<not> (case u of None \<Rightarrow> False | Some t \<Rightarrow> e_Timestamp e > t) \<and> passes f e)
      (last_n (buffer_limit cap) (emitted j ls)))"
  using job_invD(3,4) [OF job_inv_run [OF assms]] by (cases "co_buffers (te_col T) j") (simp_all add: GetBufferedEvents_def collect_eq)

subsection \<open>Panics\<close>

definition all_open :: "tele \<Rightarrow> bool" where
  "all_open T \<longleftrightarrow> (\<forall>t ch. chan_of T t = Some ch \<longrightarrow> \<not> li_closed (co_chans (te_col T) ch))"

text \<open>Only a clearing closes the channel of a stream that is not over.\<close>

lemma closed_step:
  assumes "tele_step T l T'" "tele_inv T" "chan_of T' t = Some ch" "li_closed (co_chans (te_col T') ch)" "\<And>j. l \<noteq> TClear j"
  shows "chan_of T t = Some ch \<and> li_closed (co_chans (te_col T) ch)"
  using assms
proof (induction rule: tele_step.induct)
  case (emit_find T i j c b now data)
  then show ?case by (auto elim!: getOrCreateBuffer_cases)
next
  case (emit_add T i b e c)
  have "channels_ok T" using emit_add.prems(1) by (simp add: tele_inv_def)
  then have "li_closed (co_chans c ch) = li_closed (co_chans (te_col T) ch)" using emit_add.hyps(2) emit_locked_eq [OF channels_okD(3)] by (auto split: if_splits)
  then show ?case using emit_add.prems by simp
next
  case (emit_number T i e c p)
  then show ?case by (auto simp: next_sequence_frame)
next
  case (stream_find T u j c b f)
  then show ?case by (auto elim!: getOrCreateBuffer_cases split: if_splits)
next
  case (stream_open T u sm b c ch' es)
  then show ?case by (auto simp: stream_register_def Let_def split: if_splits)
next
  case (stream_buffered T u sm b ch' e es ok)
  then show ?case using deliver_chan [of "SBuffered b ch' es" "Some ch'" "SEnding b ch' CallbackFailed" ok e sm] by (auto simp: chan_of_def split: if_splits)
next
  case (stream_take T u sm b ch' e c ok)
  then show ?case using deliver_chan [of "SLive b ch'" "Some ch'" "SEnding b ch' CallbackFailed" ok e sm] by (auto simp: chan_of_def take_event_Some split: if_splits)
next
  case (stream_remove T u sm b ch' r)
  then show ?case by (auto simp: chan_of_def stream_unregister_def Let_def split: if_splits)
next
  case (stream_finish T u sm ch' r c)
  have ok: "channels_ok T" using stream_finish.prems(1) by (simp add: tele_inv_def)
  have u: "chan_of T u = Some ch'" using stream_finish.hyps(1,2) by (simp add: chan_of_def)
  have t: "t \<noteq> u" "chan_of T t = Some ch" using stream_finish.prems(2) by (auto split: if_splits)
  then have "ch \<noteq> ch'" using channels_okD(2) [OF ok u] by blast
  then show ?case using stream_finish t by (simp add: stream_close_Some)
qed (auto simp: chan_of_def SetPersister_def split: if_splits)

lemma all_open_step: "tele_step T l T' \<Longrightarrow> tele_inv T \<Longrightarrow> all_open T \<Longrightarrow> (\<And>j. l \<noteq> TClear j) \<Longrightarrow> all_open T'"
  using closed_step unfolding all_open_def by blast

lemma all_open_run: "tele_run (new_tele cap) ls T \<Longrightarrow> (\<And>j. TClear j \<notin> set ls) \<Longrightarrow> all_open T"
proof (induction rule: tele_run.induct)
  case run_nil
  show ?case by (simp add: all_open_def chan_of_def new_tele_def)
next
  case (run_step ls T l T')
  then show ?case using inv_run [OF run_step(1)] by (auto intro: all_open_step)
qed

inductive_cases panic_stepE: "tele_step T TPanic T'"

lemma panic_needs_clear:
  assumes "tele_step T TPanic T'" "tele_inv T"
  shows "\<not> all_open T"
proof -
  have ok: "channels_ok T" using assms(2) by (simp add: tele_inv_def)
  have L: "\<not> li_closed (co_chans (te_col T) ch)" if "ch \<in> set (eb_listeners (co_store (te_col T) b))" for b ch using channels_okD(4) [OF ok that] .
  from assms(1) consider (emit) i b e where "te_emits T i = Some (EFound b e)" "emit_locked b e (te_col T) = None"
    | (stream) t sm ch r where "te_streams T t = Some sm" "sm_pc sm = SClosing ch r" "stream_close ch (te_col T) = None"
    | (clear) j where "ClearJob j (te_col T) = None" by (auto elim: panic_stepE)
  then show ?thesis
  proof cases
    case (emit i b e)
    then show ?thesis using emit_locked_eq [OF channels_okD(3) [OF ok]] L by (auto split: if_splits)
  next
    case (stream t sm ch r)
    then have "chan_of T t = Some ch" "li_closed (co_chans (te_col T) ch)" by (auto simp: chan_of_def stream_close_def close_listener_def split: if_splits)
    then show ?thesis by (auto simp: all_open_def)
  next
    case (clear j)
    then show ?thesis using ClearJob_eq [OF channels_okD(3) [OF ok], of j] L by (auto split: option.splits if_splits)
  qed
qed

text \<open>A stream whose channel was closed from outside cannot come to an end.\<close>

definition doomed :: "nat \<Rightarrow> nat \<Rightarrow> tele \<Rightarrow> bool" where
  "doomed t ch T \<longleftrightarrow> chan_of T t = Some ch \<and> li_closed (co_chans (te_col T) ch)"

lemma doomed_step:
  assumes "tele_step T l T'" "tele_inv T" "doomed t ch T"
  shows "doomed t ch T'"
  using assms
proof (induction rule: tele_step.induct)
  case (emit_find T i j c b now data)
  then show ?case by (auto simp: doomed_def elim!: getOrCreateBuffer_cases)
next
  case (emit_add T i b e c)
  have "channels_ok T" using emit_add.prems(1) by (simp add: tele_inv_def)
  then have "li_closed (co_chans c ch) = li_closed (co_chans (te_col T) ch)" using emit_add.hyps(2) emit_locked_eq [OF channels_okD(3)] by (auto split: if_splits)
  then show ?case using emit_add.prems by (simp add: doomed_def)
next
  case (emit_number T i e c p)
  then show ?case by (auto simp: doomed_def next_sequence_frame)
next
  case (stream_find T u j c b f)
  then show ?case by (auto simp: doomed_def chan_of_def elim!: getOrCreateBuffer_cases)
next
  case (stream_open T u sm b c ch' es)
  have "ch \<noteq> co_nextChan (te_col T)" using channels_okD(1) [of T t ch] stream_open.prems by (auto simp: doomed_def tele_inv_def)
  then show ?case using stream_open by (auto simp: doomed_def chan_of_def stream_register_def Let_def)
next
  case (stream_buffered T u sm b ch' e es ok)
  then show ?case using deliver_chan [of "SBuffered b ch' es" "Some ch'" "SEnding b ch' CallbackFailed" ok e sm] by (auto simp: doomed_def chan_of_def)
next
  case (stream_take T u sm b ch' e c ok)
  then show ?case using deliver_chan [of "SLive b ch'" "Some ch'" "SEnding b ch' CallbackFailed" ok e sm] by (auto simp: doomed_def chan_of_def take_event_Some)
next
  case (stream_remove T u sm b ch' r)
  then show ?case by (auto simp: doomed_def chan_of_def stream_unregister_def Let_def)
next
  case (stream_finish T u sm ch' r c)
  then show ?case by (auto simp: doomed_def chan_of_def stream_close_Some)
next
  case (clear j T c)
  have "channels_ok T" using clear.prems(1) by (simp add: tele_inv_def)
  then have "li_closed (co_chans (te_col T) ch) \<Longrightarrow> li_closed (co_chans c ch)" using clear.hyps ClearJob_eq [OF channels_okD(3), of T j] by (auto split: option.splits if_splits)
  then show ?case using clear.prems by (simp add: doomed_def)
qed (auto simp: doomed_def chan_of_def SetPersister_def)

lemma doomed_run: "tele_run T ls T' \<Longrightarrow> tele_inv T \<Longrightarrow> doomed t ch T \<Longrightarrow> doomed t ch T' \<and> tele_inv T'"
  by (induction rule: tele_run.induct) (auto intro: doomed_step tele_inv_step)

lemma doomed_not_done: "doomed t ch T \<Longrightarrow> te_streams T t = Some sm \<Longrightarrow> sm_pc sm \<noteq> SDone r"
  by (auto simp: doomed_def chan_of_def)

lemma step_then_run: "tele_step T l T1 \<Longrightarrow> l \<noteq> TPanic \<Longrightarrow> tele_run T1 ls T2 \<Longrightarrow> tele_run T (l # ls) T2"
  using run_append [of T1 ls T2 T "[l]"] tele_run.run_step [OF tele_run.run_nil [of T]] by auto

lemma drain_copy:
  assumes "te_streams T t = Some sm" "sm_pc sm = SBuffered b ch es"
  shows "\<exists>ms T' sm'. tele_run T ms T' \<and> TPanic \<notin> set ms \<and> te_streams T' t = Some sm' \<and> sm_pc sm' = SLive b ch"
  using assms
proof (induction es arbitrary: T sm)
  case Nil
  then have "tele_run T [TSilent] (set_stream t (sm\<lparr>sm_pc := SLive b ch\<rparr>) T)" using step_then_run [OF stream_live _ run_nil] by blast
  then show ?case by (intro exI [of _ "[TSilent]"] exI) (auto intro!: exI)
next
  case (Cons e es)
  let ?sm = "deliver_event True e (SBuffered b ch es) (SEnding b ch CallbackFailed) sm"
  have step: "tele_step T TSilent (set_stream t ?sm T)" using stream_buffered [OF Cons.prems] .
  have "te_streams (set_stream t ?sm T) t = Some ?sm" "sm_pc ?sm = SBuffered b ch es" by (simp_all add: deliver_event_def)
  then obtain ms T' sm' where "tele_run (set_stream t ?sm T) ms T'" "TPanic \<notin> set ms" "te_streams T' t = Some sm'" "sm_pc sm' = SLive b ch" using Cons.IH by blast
  then show ?case using step_then_run [OF step] by (intro exI [of _ "TSilent # ms"] exI [of _ T']) auto
qed

lemma live_to_closing:
  assumes "te_streams T t = Some sm" "sm_pc sm = SLive b ch"
  shows "\<exists>ms T' sm' r. tele_run T ms T' \<and> TPanic \<notin> set ms \<and> te_streams T' t = Some sm' \<and> sm_pc sm' = SClosing ch r"
proof -
  let ?T1 = "set_stream t (sm\<lparr>sm_pc := SEnding b ch ContextDone\<rparr>) T"
  have 1: "tele_step T TSilent ?T1" using stream_done [OF assms] .
  let ?T2 = "set_stream t ((sm\<lparr>sm_pc := SEnding b ch ContextDone\<rparr>)\<lparr>sm_pc := SClosing ch ContextDone\<rparr>) (set_col (stream_unregister b ch (te_col ?T1)) ?T1)"
  have 2: "tele_step ?T1 TSilent ?T2" by (rule stream_remove) simp_all
  have "tele_run T [TSilent, TSilent] ?T2" by (rule step_then_run [OF 1 _ step_then_run [OF 2 _ run_nil]]) simp_all
  then show ?thesis by (intro exI [of _ "[TSilent, TSilent]"] exI [of _ ?T2]) auto
qed

text \<open>
  C39. As long as no job is cleared nothing panics. But clearing a job, which the deletion of a job does, while one of its streams runs dooms the process: the clearing itself succeeds and closes the channel of the stream, after that
  the stream never ends normally, and it can come to the point where it closes the channel again and panics, for instance as soon as its client goes away.
\<close>

theorem clearing_breaks_streams:
  assumes "tele_run (new_tele cap) ls T" "TPanic \<notin> set ls" "\<And>j. TClear j \<notin> set ls"
  shows "\<not> tele_step T TPanic T' \<and>
    (te_streams T t = Some sm \<and> flowing (sm_pc sm) = Some ch \<longrightarrow>
      (\<exists>c. ClearJob (sm_job sm) (te_col T) = Some c \<and>
        (\<forall>ms T2 sm2 r. tele_run (set_col c T) ms T2 \<longrightarrow> te_streams T2 t = Some sm2 \<longrightarrow> sm_pc sm2 \<noteq> SDone r) \<and>
        (\<exists>ms T2. tele_run (set_col c T) (ms @ [TPanic]) T2)))"
proof -
  have inv: "tele_inv T" and op: "all_open T" using inv_run [OF assms(1)] all_open_run [OF assms(1,3)] by blast+
  have ok: "channels_ok T" using inv by (simp add: tele_inv_def)
  have "\<exists>c. ClearJob (sm_job sm) (te_col T) = Some c \<and> (\<forall>ms T2 sm2 r. tele_run (set_col c T) ms T2 \<longrightarrow> te_streams T2 t = Some sm2 \<longrightarrow> sm_pc sm2 \<noteq> SDone r) \<and>
      (\<exists>ms T2. tele_run (set_col c T) (ms @ [TPanic]) T2)"
    if sm: "te_streams T t = Some sm" "flowing (sm_pc sm) = Some ch"
  proof -
    obtain b where b: "pc_open (sm_pc sm) = Some (b, ch)" using flowing_open [OF sm(2)] by blast
    have buf: "co_buffers (te_col T) (sm_job sm) = Some b"
      using stream_okD(1) [OF job_invD(6) [OF job_inv_run [OF assms(1) assms(3) assms(2)] sm(1)]] pc_open_parts [OF b] by blast
    have in_b: "ch \<in> set (eb_listeners (co_store (te_col T) b))" using channels_okD(6) [OF ok] stream_listens [OF sm(1) b] op by (auto simp: all_open_def)
    let ?L = "set (eb_listeners (co_store (te_col T) b))"
    obtain c where c: "ClearJob (sm_job sm) (te_col T) = Some c" "li_closed (co_chans c ch)"
      using ClearJob_eq [OF channels_okD(3) [OF ok], of "sm_job sm"] buf channels_okD(4) [OF ok] in_b by (auto split: if_splits)
    have d: "doomed t ch (set_col c T)" using stream_listens [OF sm(1) b] c(2) by (simp add: doomed_def)
    have i: "tele_inv (set_col c T)" using tele_inv_step [OF clear [OF c(1)] inv] .
    have s: "te_streams (set_col c T) t = Some sm" using sm(1) by simp
    have "\<exists>ms T' sm'. tele_run (set_col c T) ms T' \<and> TPanic \<notin> set ms \<and> te_streams T' t = Some sm' \<and> sm_pc sm' = SLive b ch"
    proof (cases "sm_pc sm")
      case (SBuffered b' ch' es)
      then show ?thesis using drain_copy [OF s] b by auto
    next
      case (SLive b' ch')
      then show ?thesis using s b by (intro exI [of _ "[]"]) (auto intro: run_nil)
    qed (use sm(2) in auto)
    then obtain ms T1 sm1 where 1: "tele_run (set_col c T) ms T1" "TPanic \<notin> set ms" "te_streams T1 t = Some sm1" "sm_pc sm1 = SLive b ch" by blast
    then obtain ms2 T2 sm2 r where 2: "tele_run T1 ms2 T2" "TPanic \<notin> set ms2" "te_streams T2 t = Some sm2" "sm_pc sm2 = SClosing ch r" using live_to_closing by blast
    have run: "tele_run (set_col c T) (ms @ ms2) T2" using run_append [OF 2(1) 1(1,2)] .
    have "doomed t ch T2" using doomed_run [OF run i d] by blast
    then have "stream_close ch (te_col T2) = None" by (simp add: doomed_def stream_close_def close_listener_def)
    then have "tele_step T2 TPanic T2" using stream_panic [OF 2(3,4)] by blast
    then have "tele_run (set_col c T) ((ms @ ms2) @ [TPanic]) T2" using run run_step [of "set_col c T" "ms @ ms2" T2] 1(2) 2(2) by auto
    then show ?thesis using c(1) doomed_run [OF _ i d] doomed_not_done by blast
  qed
  then show ?thesis using panic_needs_clear [OF _ inv] op by blast
qed

subsection \<open>An example\<close>

definition example_exec :: Event where
  "example_exec = NewExecEvent 7 ''j'' \<lparr>xd_PID = 4, xd_PPID = 1, xd_Binary = ''/bin/ls'', xd_Args = [], xd_ExitCode = 0\<rparr>"

text \<open>A stream is opened for a job, an event is emitted for it and waits in the channel of the stream.\<close>

definition example_stream :: stream where
  "example_stream = \<lparr>sm_job = ''j'', sm_filter = None, sm_sent = [], sm_pc = SFound 0\<rparr>"

definition example_waiting :: tele where
  "example_waiting =
     (let T = new_tele 2; T = set_stream 0 example_stream (set_col (fst (getOrCreateBuffer ''j'' (te_col T))) T);
          T = set_stream 0 (example_stream\<lparr>sm_pc := SBuffered 0 0 []\<rparr>) (set_col (fst (stream_register 0 (te_col T))) T);
          T = set_emit 0 (Some (EFound 0 example_exec)) T
      in set_emit 0 (Some (EAdded example_exec)) (set_col (the (emit_locked 0 example_exec (te_col T))) T))"

lemma example_tele_run: "tele_run (new_tele 2) ([TSilent] @ TOpen 0 0 # [TSilent, TAdd example_exec []]) example_waiting"
proof -
  let ?T1 = "set_stream 0 example_stream (set_col (fst (getOrCreateBuffer ''j'' (te_col (new_tele 2)))) (new_tele 2))"
  let ?T2 = "set_stream 0 (example_stream\<lparr>sm_pc := SBuffered 0 0 []\<rparr>) (set_col (fst (stream_register 0 (te_col ?T1))) ?T1)"
  let ?T3 = "set_emit 0 (Some (EFound 0 example_exec)) ?T2"
  have g: "getOrCreateBuffer ''j'' (te_col (new_tele 2)) = (fst (getOrCreateBuffer ''j'' (te_col (new_tele 2))), 0)"
    by (simp add: getOrCreateBuffer_def new_tele_def NewCollector_def)
  have 1: "tele_step (new_tele 2) TSilent ?T1" unfolding example_stream_def by (rule stream_find [OF _ g]) (simp add: new_tele_def)
  have r: "stream_register 0 (te_col ?T1) = (fst (stream_register 0 (te_col ?T1)), 0, [])"
    by (simp add: stream_register_def getOrCreateBuffer_def new_tele_def NewCollector_def)
  have 2: "tele_step ?T1 (TOpen 0 0) ?T2" by (rule stream_open [OF _ _ r]) (simp_all add: example_stream_def)
  have g2: "getOrCreateBuffer ''j'' (te_col ?T2) = (te_col ?T2, 0)" by (simp add: getOrCreateBuffer_def stream_register_def new_tele_def NewCollector_def)
  have 3: "tele_step ?T2 TSilent ?T3" using emit_find [OF _ _ g2, of 0 7 "DExec \<lparr>xd_PID = 4, xd_PPID = 1, xd_Binary = ''/bin/ls'', xd_Args = [], xd_ExitCode = 0\<rparr>"]
    by (simp add: example_exec_def sys_defs new_tele_def)
  have l: "eb_listeners (co_store (te_col ?T3) 0) = [0]" "co_chans (te_col ?T3) 0 = \<lparr>li_queue = [], li_closed = False\<rparr>"
    by (simp_all add: stream_register_def getOrCreateBuffer_def new_tele_def NewCollector_def)
  have "emit_locked 0 example_exec (te_col ?T3) = Some (the (emit_locked 0 example_exec (te_col ?T3)))" using l by (simp add: emit_locked_eq)
  then have 4: "tele_step ?T3 (TAdd example_exec (full_listeners 0 (te_col ?T3))) (set_emit 0 (Some (EAdded example_exec)) (set_col (the (emit_locked 0 example_exec (te_col ?T3))) ?T3))"
    by (intro emit_add) simp_all
  have f: "full_listeners 0 (te_col ?T3) = []" using l by (simp add: full_listeners_def listener_capacity_def)
  have w: "example_waiting = set_emit 0 (Some (EAdded example_exec)) (set_col (the (emit_locked 0 example_exec (te_col ?T3))) ?T3)" by (simp add: example_waiting_def Let_def)
  show ?thesis unfolding w using step_then_run [OF 1 _ step_then_run [OF 2 _ step_then_run [OF 3 _ step_then_run [OF 4 [unfolded f] _ run_nil]]]] by simp
qed

lemma example_waiting_stream: "te_streams example_waiting 0 = Some (example_stream\<lparr>sm_pc := SBuffered 0 0 []\<rparr>)"
  by (simp add: example_waiting_def Let_def)


theorem buffered_events_exact_witness: "GetBufferedEvents ''j'' None None None 1 (te_col example_waiting) = [example_exec]"
  using buffered_events_exact [OF example_tele_run, of "''j''" None None None 1] by (simp add: last_n_def passes_def buffer_limit_def example_exec_def NewExecEvent_def)

theorem clearing_breaks_streams_witness:
  "\<exists>c. ClearJob ''j'' (te_col example_waiting) = Some c \<and> (\<exists>ms T2. tele_run (set_col c example_waiting) (ms @ [TPanic]) T2)"
  using clearing_breaks_streams [OF example_tele_run, of example_waiting 0 "example_stream\<lparr>sm_pc := SBuffered 0 0 []\<rparr>" 0] example_waiting_stream
  by (auto simp: example_stream_def)

end
