(* ===== verification/Cuda.thy ===== *)
theory Cuda
  imports Filepath Environ
begin

text \<open>
  The detection of CUDA on a node: the installations with their versions (\<open>gpu/cuda.go\<close>) and the verification of the GPUs through \<open>nvidia-smi\<close> (\<open>gpu/cuda\_verifier.go\<close>).

  The node is an argument: its environment, its files and what commands print (\<open>None\<close> for an error). The regular expressions of the sources are unanchored and capture groups; they are lists of items, matched
  from left to right, greedily, at the leftmost position where that is possible. A time-out of a command is an error of it.
\<close>

section \<open>Regular expressions with groups\<close>

text \<open>A literal, the group \<open>(\d+)\<close>, the same without a group, the two groups \<open>(\d+)(\d{3})\<close>, the group \<open>(\d+\.\d+\.\d+)\<close>, and \<open>\s+\<close>.\<close>

datatype pat_item = PLit string | PNum | PSkipNum | PNum3 | PVersion3 | PSpaces

definition is_regex_space :: "char \<Rightarrow> bool" where
  "is_regex_space c \<longleftrightarrow> c \<in> {CHR 0x09, CHR 0x0A, CHR 0x0C, CHR 0x0D, CHR '' ''}"

definition digit_run :: "string \<Rightarrow> string" where
  "digit_run s = takeWhile is_digit s"

fun match_items :: "pat_item list \<Rightarrow> string \<Rightarrow> string list option" where
  "match_items [] s = Some []"
| "match_items (PLit l # ps) s = (if HasPrefix s l then match_items ps (drop (length l) s) else None)"
| "match_items (PNum # ps) s =
     (let d = digit_run s in if d = [] then None else map_option (\<lambda>gs. d # gs) (match_items ps (drop (length d) s)))"
| "match_items (PSkipNum # ps) s = (let d = digit_run s in if d = [] then None else match_items ps (drop (length d) s))"
| "match_items (PNum3 # ps) s =
     (let d = digit_run s; k = length d - 3
      in if length d < 4 then None else map_option (\<lambda>gs. take k d # drop k d # gs) (match_items ps (drop (length d) s)))"
| "match_items (PVersion3 # ps) s =
     (let a = digit_run s; s1 = drop (length a) s; b = digit_run (drop 1 s1); s2 = drop (length b) (drop 1 s1); c = digit_run (drop 1 s2)
      in if a = [] \<or> \<not> HasPrefix s1 ''.'' \<or> b = [] \<or> \<not> HasPrefix s2 ''.'' \<or> c = [] then None
         else map_option (\<lambda>gs. (a @ ''.'' @ b @ ''.'' @ c) # gs) (match_items ps (drop (length c) (drop 1 s2))))"
| "match_items (PSpaces # ps) s =
     (let d = takeWhile is_regex_space s in if d = [] then None else match_items ps (drop (length d) s))"

text \<open>\<open>FindStringSubmatch\<close>, without the whole match.\<close>

fun find_submatch :: "pat_item list \<Rightarrow> string \<Rightarrow> string list option" where
  "find_submatch ps [] = match_items ps []"
| "find_submatch ps (c # s) = (case match_items ps (c # s) of Some gs \<Rightarrow> Some gs | None \<Rightarrow> find_submatch ps s)"

section \<open>Versions (cuda.go)\<close>

record CUDAVersion =
  cv_Major :: int
  cv_Minor :: int
  cv_Path :: string

definition CUDAVersion_String :: "CUDAVersion \<Rightarrow> string" where
  "CUDAVersion_String v = Itoa (cv_Major v) @ ''.'' @ Itoa (cv_Minor v)"

definition IsCompatible :: "CUDAVersion \<Rightarrow> CUDAVersion \<Rightarrow> bool" where
  "IsCompatible v required =
     (if cv_Major v > cv_Major required then True
      else if cv_Major v = cv_Major required \<and> cv_Minor v \<ge> cv_Minor required then True
      else False)"

datatype cuda_error = InvalidVersionFormat string | InvalidMajor string | InvalidMinor string | NoVersionInPath string | NvccMissing | NvccFailed | NvccUnparsable
  | ContentUnparsable | NoVersionFile | VersionUnknown string | NoInstallations | NoCompatible string | NoMountPaths string
  | VerificationError | VerificationFailed string | GPUNotFound int | GPUNotUsable int string | CapabilityTooLow int string string

definition ParseCUDAVersion :: "string \<Rightarrow> (cuda_error, CUDAVersion) result" where
  "ParseCUDAVersion versionStr =
     (let parts = Split CHR ''.'' versionStr
      in if length parts < 2 then Inl (InvalidVersionFormat versionStr)
         else (case Atoi (parts ! 0) of
                 None \<Rightarrow> Inl (InvalidMajor (parts ! 0))
               | Some major \<Rightarrow>
                   (case Atoi (parts ! 1) of
                      None \<Rightarrow> Inl (InvalidMinor (parts ! 1))
                    | Some minor \<Rightarrow> Inr \<lparr>cv_Major = major, cv_Minor = minor, cv_Path = []\<rparr>)))"

text \<open>The first pattern that matches gives the version.\<close>

fun first_pattern :: "pat_item list list \<Rightarrow> string \<Rightarrow> CUDAVersion option" where
  "first_pattern [] s = None"
| "first_pattern (p # ps) s =
     (case find_submatch p s of
        Some (major # minor # _) \<Rightarrow> Some \<lparr>cv_Major = Atoi_value major, cv_Minor = Atoi_value minor, cv_Path = []\<rparr>
      | _ \<Rightarrow> first_pattern ps s)"

definition nvcc_patterns :: "pat_item list list" where
  "nvcc_patterns = [[PLit ''V'', PNum, PLit ''.'', PNum, PLit ''.'', PSkipNum], [PLit ''release '', PNum, PLit ''.'', PNum], [PLit ''cuda_'', PNum, PLit ''.'', PNum]]"

definition parseNvccOutput :: "string \<Rightarrow> (cuda_error, CUDAVersion) result" where
  "parseNvccOutput out = (case first_pattern nvcc_patterns out of None \<Rightarrow> Inl NvccUnparsable | Some v \<Rightarrow> Inr v)"

definition content_patterns :: "pat_item list list" where
  "content_patterns = [[PLit ''CUDA Version '', PNum, PLit ''.'', PNum], [PNum, PLit ''.'', PNum, PLit ''.'', PNum], [PLit ''#define CUDART_VERSION '', PNum3]]"

definition parseVersionFromContent :: "string \<Rightarrow> (cuda_error, CUDAVersion) result" where
  "parseVersionFromContent content = (case first_pattern content_patterns content of None \<Rightarrow> Inl ContentUnparsable | Some v \<Rightarrow> Inr v)"

section \<open>Installations (cuda.go)\<close>

record cuda_node =
  cn_Getenv :: "string \<Rightarrow> string"
  cn_Stat :: "string \<Rightarrow> bool"
  cn_ReadDir :: "string \<Rightarrow> (string \<times> bool) list option"
  cn_ReadFile :: "string \<Rightarrow> string option"
  cn_Command :: "string list \<Rightarrow> string option"
  cn_LookPath :: "string \<Rightarrow> bool"

record CUDAInstallation =
  ci_Path :: string
  ci_Version :: CUDAVersion
  ci_DriverVersion :: string
  ci_IsDefault :: bool

definition isValidCUDAInstallation :: "cuda_node \<Rightarrow> string \<Rightarrow> bool" where
  "isValidCUDAInstallation x path =
     (list_all (cn_Stat x) [Join_path [path, ''lib64''], Join_path [path, ''include''], Join_path [path, ''bin'', ''nvcc'']] \<and>
      list_ex (cn_Stat x) [Join_path [path, ''lib64'', ''libcudart.so''], Join_path [path, ''lib'', ''libcudart.so'']])"

definition DetectCUDA :: "cuda_node \<Rightarrow> (cuda_error, string list) result" where
  "DetectCUDA x =
     (let candidatePaths = [''/usr/local/cuda'', ''/opt/cuda'', ''/usr/cuda'', ''/usr/local/cuda-12.0'', ''/usr/local/cuda-11.8'', ''/usr/local/cuda-11.0''];
          cudaHome = cn_Getenv x ''CUDA_HOME'';
          candidatePaths = (if cudaHome \<noteq> [] then cudaHome # candidatePaths else candidatePaths);
          validPaths = filter (isValidCUDAInstallation x) candidatePaths
      in if length validPaths = 0 then Inl NoInstallations else Inr validPaths)"

definition CUDADetector_GetCUDAEnvironment :: "cuda_node \<Rightarrow> string \<Rightarrow> (string \<rightharpoonup> string)" where
  "CUDADetector_GetCUDAEnvironment x cudaPath =
     (let env = [''CUDA_HOME'' \<mapsto> cudaPath];
          existingLibPaths = filter (cn_Stat x) [Join_path [cudaPath, ''lib64''], Join_path [cudaPath, ''lib'']];
          env = (if length existingLibPaths > 0 then env(''LD_LIBRARY_PATH'' \<mapsto> Join '':'' existingLibPaths) else env);
          binPath = Join_path [cudaPath, ''bin'']
      in if cn_Stat x binPath then env(''PATH'' \<mapsto> binPath) else env)"

definition GetCUDAMountPaths :: "cuda_node \<Rightarrow> string \<Rightarrow> (cuda_error, string list) result" where
  "GetCUDAMountPaths x cudaPath =
     (let mountPaths = filter (cn_Stat x) (map (\<lambda>d. Join_path [cudaPath, d]) [''lib64'', ''lib'', ''include'', ''bin'', ''extras''])
      in if length mountPaths = 0 then Inl (NoMountPaths cudaPath) else Inr mountPaths)"

text \<open>The pattern \<open>^cuda-\d+\.\d+$\<close>.\<close>

definition isVersionedCUDADir :: "string \<Rightarrow> bool" where
  "isVersionedCUDADir name =
     (HasPrefix name ''cuda-'' \<and>
      (let r = drop 5 name; a = digit_run r; r = drop (length a) r
       in a \<noteq> [] \<and> HasPrefix r ''.'' \<and> drop 1 r \<noteq> [] \<and> list_all is_digit (drop 1 r)))"

definition findVersionedPaths :: "cuda_node \<Rightarrow> string list" where
  "findVersionedPaths x =
     concat (map (\<lambda>basePath.
       (case cn_ReadDir x basePath of
          None \<Rightarrow> []
        | Some dirs \<Rightarrow>
            map (\<lambda>(name, isDir). Join_path [basePath, name])
              (filter (\<lambda>(name, isDir). isDir \<and> HasPrefix name ''cuda-'' \<and> isVersionedCUDADir name) dirs)))
       [''/usr/local'', ''/opt''])"

definition getCandidatePaths :: "cuda_node \<Rightarrow> string list" where
  "getCandidatePaths x =
     (let cudaHome = cn_Getenv x ''CUDA_HOME''
      in (if cudaHome \<noteq> [] then [cudaHome] else []) @ [''/usr/local/cuda'', ''/opt/cuda'', ''/usr/cuda''] @ findVersionedPaths x)"

definition extractVersionFromPath :: "string \<Rightarrow> (cuda_error, CUDAVersion) result" where
  "extractVersionFromPath path =
     (let b = Base path in if \<not> HasPrefix b ''cuda-'' then Inl (NoVersionInPath path) else ParseCUDAVersion (TrimPrefix b ''cuda-''))"

definition getVersionFromNvcc :: "cuda_node \<Rightarrow> string \<Rightarrow> (cuda_error, CUDAVersion) result" where
  "getVersionFromNvcc x cudaPath =
     (let nvccPath = Join_path [cudaPath, ''bin'', ''nvcc'']
      in if \<not> cn_Stat x nvccPath then Inl NvccMissing
         else (case cn_Command x [nvccPath, ''--version''] of None \<Rightarrow> Inl NvccFailed | Some out \<Rightarrow> parseNvccOutput out))"

fun first_file :: "cuda_node \<Rightarrow> string list \<Rightarrow> (cuda_error, CUDAVersion) result" where
  "first_file x [] = Inl NoVersionFile"
| "first_file x (f # fs) =
     (case cn_ReadFile x f of
        None \<Rightarrow> first_file x fs
      | Some content \<Rightarrow> (case parseVersionFromContent content of Inr v \<Rightarrow> Inr v | Inl _ \<Rightarrow> first_file x fs))"

definition getVersionFromFile :: "cuda_node \<Rightarrow> string \<Rightarrow> (cuda_error, CUDAVersion) result" where
  "getVersionFromFile x cudaPath =
     first_file x [Join_path [cudaPath, ''version.txt''], Join_path [cudaPath, ''VERSION''], Join_path [cudaPath, ''include'', ''cuda_runtime_api.h'']]"

definition detectCUDAVersion :: "cuda_node \<Rightarrow> string \<Rightarrow> (cuda_error, CUDAVersion) result" where
  "detectCUDAVersion x cudaPath =
     (case extractVersionFromPath cudaPath of
        Inr v \<Rightarrow> Inr (v\<lparr>cv_Path := cudaPath\<rparr>)
      | Inl _ \<Rightarrow>
          (case getVersionFromNvcc x cudaPath of
             Inr v \<Rightarrow> Inr (v\<lparr>cv_Path := cudaPath\<rparr>)
           | Inl _ \<Rightarrow>
               (case getVersionFromFile x cudaPath of
                  Inr v \<Rightarrow> Inr (v\<lparr>cv_Path := cudaPath\<rparr>)
                | Inl _ \<Rightarrow> Inl (VersionUnknown cudaPath))))"

definition driver_pattern :: "pat_item list" where
  "driver_pattern = [PLit ''NVRM version: NVIDIA UNIX x86_64 Kernel Module'', PSpaces, PVersion3]"

definition driver_from_proc :: "cuda_node \<Rightarrow> string" where
  "driver_from_proc x =
     (case cn_ReadFile x ''/proc/driver/nvidia/version'' of
        None \<Rightarrow> ''unknown''
      | Some content \<Rightarrow> (case find_submatch driver_pattern content of Some (v # _) \<Rightarrow> v | _ \<Rightarrow> ''unknown''))"

definition detectDriverVersion :: "cuda_node \<Rightarrow> string" where
  "detectDriverVersion x =
     (case cn_Command x [''nvidia-smi'', ''--query-gpu=driver_version'', ''--format=csv,noheader,nounits''] of
        Some out \<Rightarrow>
          (let line = TrimSpace (hd (Split CHR 0x0A out)) in if line \<noteq> [] then line else driver_from_proc x)
      | None \<Rightarrow> driver_from_proc x)"

definition findAllCUDAInstallations :: "cuda_node \<Rightarrow> CUDAInstallation list" where
  "findAllCUDAInstallations x =
     map (\<lambda>path.
       \<lparr>ci_Path = path,
        ci_Version = (case detectCUDAVersion x path of Inr v \<Rightarrow> v | Inl _ \<Rightarrow> \<lparr>cv_Major = 0, cv_Minor = 0, cv_Path = path\<rparr>),
        ci_DriverVersion = detectDriverVersion x, ci_IsDefault = False\<rparr>)
       (filter (isValidCUDAInstallation x) (getCandidatePaths x))"

text \<open>The loop that looks for the highest version, over the positions; \<open>m\<close> is the best so far.\<close>

definition higher :: "CUDAVersion \<Rightarrow> CUDAVersion \<Rightarrow> bool" where
  "higher v w \<longleftrightarrow> cv_Major v > cv_Major w \<or> (cv_Major v = cv_Major w \<and> cv_Minor v > cv_Minor w)"

fun max_version_idx :: "CUDAInstallation list \<Rightarrow> nat \<Rightarrow> nat list \<Rightarrow> nat" where
  "max_version_idx installs m [] = m"
| "max_version_idx installs m (k # ks) = max_version_idx installs (if higher (ci_Version (installs ! k)) (ci_Version (installs ! m)) then k else m) ks"

definition set_default :: "nat \<Rightarrow> CUDAInstallation list \<Rightarrow> CUDAInstallation list" where
  "set_default i installs = installs[i := (installs ! i)\<lparr>ci_IsDefault := True\<rparr>]"

definition markDefaultInstallation :: "cuda_node \<Rightarrow> CUDAInstallation list \<Rightarrow> CUDAInstallation list" where
  "markDefaultInstallation x installs =
     (if length installs = 0 then installs
      else let cudaHome = cn_Getenv x ''CUDA_HOME'' in
        (case find_pos (\<lambda>i. cudaHome \<noteq> [] \<and> ci_Path i = cudaHome) installs of
           Some i \<Rightarrow> set_default i installs
         | None \<Rightarrow>
             (case find_pos (\<lambda>i. ci_Path i = ''/usr/local/cuda'') installs of
                Some i \<Rightarrow> set_default i installs
              | None \<Rightarrow> set_default (max_version_idx installs 0 [0..<length installs]) installs)))"

definition DetectCUDAInstallations :: "cuda_node \<Rightarrow> (cuda_error, CUDAInstallation list) result" where
  "DetectCUDAInstallations x =
     (let installs = findAllCUDAInstallations x
      in if length installs = 0 then Inl NoInstallations else Inr (markDefaultInstallation x installs))"

definition FindCompatibleCUDA :: "cuda_node \<Rightarrow> CUDAVersion \<Rightarrow> (cuda_error, CUDAInstallation list) result" where
  "FindCompatibleCUDA x requiredVersion =
     (case DetectCUDAInstallations x of
        Inl err \<Rightarrow> Inl err
      | Inr installs \<Rightarrow>
          (let compatible = filter (\<lambda>i. IsCompatible (ci_Version i) requiredVersion) installs
           in if length compatible = 0 then Inl (NoCompatible (CUDAVersion_String requiredVersion)) else Inr compatible))"

fun closest :: "CUDAInstallation \<Rightarrow> CUDAInstallation list \<Rightarrow> CUDAInstallation" where
  "closest best [] = best"
| "closest best (i # is) =
     closest (if cv_Major (ci_Version i) < cv_Major (ci_Version best) \<or>
                 (cv_Major (ci_Version i) = cv_Major (ci_Version best) \<and> cv_Minor (ci_Version i) < cv_Minor (ci_Version best)) then i else best) is"

definition GetBestCUDA :: "cuda_node \<Rightarrow> CUDAVersion \<Rightarrow> (cuda_error, CUDAInstallation) result" where
  "GetBestCUDA x requiredVersion =
     (case FindCompatibleCUDA x requiredVersion of
        Inl err \<Rightarrow> Inl err
      | Inr compatible \<Rightarrow>
          (case find ci_IsDefault compatible of Some i \<Rightarrow> Inr i | None \<Rightarrow> Inr (closest (hd compatible) compatible)))"

section \<open>Verification (cuda\_verifier.go)\<close>

record CUDADeviceInfo =
  di_Index :: int
  di_Name :: string
  di_UUID :: string
  di_ComputeCapability :: string
  di_TotalMemoryMB :: int
  di_FreeMemoryMB :: int
  di_Usable :: bool
  di_UsableError :: string

record CUDAVerificationResult =
  vr_Success :: bool
  vr_Error :: string
  vr_DriverVersion :: string
  vr_CUDAVersion :: string
  vr_DeviceCount :: nat
  vr_UsableDeviceCount :: nat
  vr_Devices :: "CUDADeviceInfo list"

definition empty_result :: CUDAVerificationResult where
  "empty_result = \<lparr>vr_Success = False, vr_Error = [], vr_DriverVersion = [], vr_CUDAVersion = [], vr_DeviceCount = 0, vr_UsableDeviceCount = 0, vr_Devices = []\<rparr>"

definition IsAvailable :: "cuda_node \<Rightarrow> bool" where
  "IsAvailable x = cn_LookPath x ''nvidia-smi''"

text \<open>\<open>strings.Index\<close> as it is used: what follows the first occurrence.\<close>

fun after_sub :: "string \<Rightarrow> string \<Rightarrow> string option" where
  "after_sub sub [] = (if sub = [] then Some [] else None)"
| "after_sub sub (c # s) = (if HasPrefix (c # s) sub then Some (drop (length sub) (c # s)) else after_sub sub s)"

definition banner_version :: "string \<Rightarrow> string" where
  "banner_version outputStr =
     (case after_sub ''CUDA Version:'' outputStr of
        None \<Rightarrow> []
      | Some rest \<Rightarrow>
          (if list_ex (\<lambda>c. c \<in> {CHR '' '', CHR ''|'', CHR 0x0A}) rest
           then TrimSpace (takeWhile (\<lambda>c. c \<notin> {CHR '' '', CHR ''|'', CHR 0x0A}) rest) else TrimSpace rest))"

text \<open>The driver's version and CUDA's, \<open>None\<close> if the first query fails.\<close>

definition getVersionInfo :: "cuda_node \<Rightarrow> CUDAVerificationResult \<Rightarrow> CUDAVerificationResult option" where
  "getVersionInfo x result =
     (case cn_Command x [''nvidia-smi'', ''--query-gpu=driver_version'', ''--format=csv,noheader,nounits''] of
        None \<Rightarrow> None
      | Some out \<Rightarrow>
          (let result = result\<lparr>vr_DriverVersion := TrimSpace (hd (Split CHR 0x0A (TrimSpace out)))\<rparr>
           in Some (case cn_Command x [''nvidia-smi''] of None \<Rightarrow> result | Some out \<Rightarrow> result\<lparr>vr_CUDAVersion := banner_version out\<rparr>)))"

text \<open>\<open>strings.Split\<close> with the separator comma and space.\<close>

fun split_comma :: "string \<Rightarrow> string list" where
  "split_comma [] = [[]]"
| "split_comma [c] = [[c]]"
| "split_comma (c # d # s) =
     (if c = CHR '','' \<and> d = CHR '' '' then [] # split_comma s
      else (case split_comma (d # s) of [] \<Rightarrow> [[c]] | p # ps \<Rightarrow> (c # p) # ps))"

datatype line_error = UnexpectedFormat | InvalidIndex | InvalidTotalMemory | InvalidFreeMemory

definition parseDeviceLine :: "string \<Rightarrow> (line_error, CUDADeviceInfo) result" where
  "parseDeviceLine line =
     (let parts = split_comma line
      in if length parts < 6 then Inl UnexpectedFormat
         else (case Atoi (TrimSpace (parts ! 0)) of
                 None \<Rightarrow> Inl InvalidIndex
               | Some idx \<Rightarrow>
                   (case Atoi (TrimSpace (parts ! 4)) of
                      None \<Rightarrow> Inl InvalidTotalMemory
                    | Some totalMem \<Rightarrow>
                        (case Atoi (TrimSpace (parts ! 5)) of
                           None \<Rightarrow> Inl InvalidFreeMemory
                         | Some freeMem \<Rightarrow>
                             Inr \<lparr>di_Index = idx, di_Name = TrimSpace (parts ! 1), di_UUID = TrimSpace (parts ! 2), di_ComputeCapability = TrimSpace (parts ! 3),
                                  di_TotalMemoryMB = totalMem, di_FreeMemoryMB = freeMem, di_Usable = True, di_UsableError = []\<rparr>))))"

fun parse_devices :: "string list \<Rightarrow> CUDADeviceInfo list" where
  "parse_devices [] = []"
| "parse_devices (line # lines) =
     (if line = [] then parse_devices lines
      else (case parseDeviceLine line of Inl _ \<Rightarrow> parse_devices lines | Inr device \<Rightarrow> device # parse_devices lines))"

definition getDeviceInfo :: "cuda_node \<Rightarrow> CUDAVerificationResult \<Rightarrow> CUDAVerificationResult option" where
  "getDeviceInfo x result =
     (case cn_Command x [''nvidia-smi'', ''--query-gpu=index,name,uuid,compute_cap,memory.total,memory.free'', ''--format=csv,noheader,nounits''] of
        None \<Rightarrow> None
      | Some out \<Rightarrow>
          (let devices = parse_devices (Split CHR 0x0A (TrimSpace out))
           in Some (result\<lparr>vr_Devices := vr_Devices result @ devices, vr_UsableDeviceCount := vr_UsableDeviceCount result + length (filter di_Usable devices),
                vr_DeviceCount := length (vr_Devices result @ devices)\<rparr>)))"

definition Verify :: "cuda_node \<Rightarrow> CUDAVerificationResult" where
  "Verify x =
     (if \<not> IsAvailable x then empty_result\<lparr>vr_Error := ''nvidia-smi not found''\<rparr>
      else let result = empty_result\<lparr>vr_Success := True\<rparr>
           in (case getVersionInfo x result of
                 None \<Rightarrow> empty_result\<lparr>vr_Error := ''failed to get version info''\<rparr>
               | Some result \<Rightarrow>
                   (case getDeviceInfo x result of
                      None \<Rightarrow> empty_result\<lparr>vr_Error := ''failed to get device info''\<rparr>
                    | Some result \<Rightarrow> result)))"

text \<open>The map of the devices by their index: a later one replaces an earlier one.\<close>

definition device_map :: "CUDADeviceInfo list \<Rightarrow> int \<rightharpoonup> CUDADeviceInfo" where
  "device_map devices = map_of (rev (map (\<lambda>d. (di_Index d, d)) devices))"

fun check_usable :: "(int \<rightharpoonup> CUDADeviceInfo) \<Rightarrow> int list \<Rightarrow> (cuda_error, unit) result" where
  "check_usable m [] = Inr ()"
| "check_usable m (idx # idxs) =
     (case m idx of
        None \<Rightarrow> Inl (GPUNotFound idx)
      | Some dev \<Rightarrow> if \<not> di_Usable dev then Inl (GPUNotUsable idx (di_UsableError dev)) else check_usable m idxs)"

definition CheckGPUsUsable :: "cuda_node \<Rightarrow> int list \<Rightarrow> (cuda_error, unit) result" where
  "CheckGPUsUsable x gpuIndices =
     (let result = Verify x
      in if \<not> vr_Success result then Inl (VerificationFailed (vr_Error result)) else check_usable (device_map (vr_Devices result)) gpuIndices)"

definition ParseComputeCapability :: "string \<Rightarrow> int \<times> int" where
  "ParseComputeCapability cap =
     (let parts = Split CHR ''.'' cap
      in (if length parts \<ge> 1 then Atoi_value (parts ! 0) else 0, if length parts \<ge> 2 then Atoi_value (parts ! 1) else 0))"

definition IsComputeCapabilityCompatible :: "string \<Rightarrow> string \<Rightarrow> bool" where
  "IsComputeCapabilityCompatible actual required =
     (let (actMajor, actMinor) = ParseComputeCapability actual; (reqMajor, reqMinor) = ParseComputeCapability required
      in if actMajor > reqMajor then True else actMajor = reqMajor \<and> actMinor \<ge> reqMinor)"

section \<open>Verification for a job (cuda.go)\<close>

fun fallback_devices :: "string list \<Rightarrow> CUDADeviceInfo list" where
  "fallback_devices [] = []"
| "fallback_devices (line # lines) =
     (let parts = Split CHR '','' line
      in if line = [] \<or> length parts < 4 then fallback_devices lines
         else \<lparr>di_Index = Atoi_value (TrimSpace (parts ! 0)), di_Name = TrimSpace (parts ! 1), di_UUID = [], di_ComputeCapability = [],
               di_TotalMemoryMB = Atoi_value (TrimSpace (parts ! 2)), di_FreeMemoryMB = Atoi_value (TrimSpace (parts ! 3)), di_Usable = True, di_UsableError = []\<rparr>
              # fallback_devices lines)"

definition fallbackVerification :: "cuda_node \<Rightarrow> CUDAVerificationResult" where
  "fallbackVerification x =
     (let driverVersion = detectDriverVersion x
      in if driverVersion = [] \<or> driverVersion = ''unknown'' then empty_result\<lparr>vr_Error := ''NVIDIA driver not detected''\<rparr>
         else let result = empty_result\<lparr>vr_DriverVersion := driverVersion\<rparr>;
                  result = (case DetectCUDAInstallations x of Inr (i # _) \<Rightarrow> result\<lparr>vr_CUDAVersion := CUDAVersion_String (ci_Version i)\<rparr> | _ \<Rightarrow> result)
              in (case cn_Command x [''nvidia-smi'', ''--query-gpu=index,name,memory.total,memory.free'', ''--format=csv,noheader,nounits''] of
                    None \<Rightarrow> result\<lparr>vr_Error := ''nvidia-smi failed''\<rparr>
                  | Some out \<Rightarrow>
                      (let devices = fallback_devices (Split CHR 0x0A (TrimSpace out));
                           result = result\<lparr>vr_Devices := devices, vr_DeviceCount := length devices, vr_UsableDeviceCount := length devices, vr_Success := length devices > 0\<rparr>
                       in if \<not> vr_Success result then result\<lparr>vr_Error := ''No CUDA devices found''\<rparr> else result)))"

definition VerifyCUDARuntime :: "cuda_node \<Rightarrow> CUDAVerificationResult" where
  "VerifyCUDARuntime x = (if IsAvailable x then Verify x else fallbackVerification x)"

fun check_for_job :: "(int \<rightharpoonup> CUDADeviceInfo) \<Rightarrow> string \<Rightarrow> int list \<Rightarrow> (cuda_error, unit) result" where
  "check_for_job m cap [] = Inr ()"
| "check_for_job m cap (idx # idxs) =
     (case m idx of
        None \<Rightarrow> Inl (GPUNotFound idx)
      | Some dev \<Rightarrow>
          if \<not> di_Usable dev then Inl (GPUNotUsable idx (di_UsableError dev))
          else if cap \<noteq> [] \<and> \<not> IsComputeCapabilityCompatible (di_ComputeCapability dev) cap then Inl (CapabilityTooLow idx (di_ComputeCapability dev) cap)
          else check_for_job m cap idxs)"

definition VerifyGPUsForJob :: "cuda_node \<Rightarrow> int list \<Rightarrow> string \<Rightarrow> (cuda_error, unit) result" where
  "VerifyGPUsForJob x gpuIndices minComputeCapability =
     (let result = VerifyCUDARuntime x
      in if \<not> vr_Success result then Inl (VerificationFailed (vr_Error result))
         else check_for_job (device_map (vr_Devices result)) minComputeCapability gpuIndices)"

section \<open>The best installation\<close>

lemma higher_trans: "\<not> higher a b \<Longrightarrow> \<not> higher b c \<Longrightarrow> \<not> higher a c"
  by (auto simp: higher_def)

lemma higher_asym: "higher a b \<Longrightarrow> \<not> higher b a"
  by (auto simp: higher_def)

lemma IsCompatible_iff: "IsCompatible v r \<longleftrightarrow> \<not> higher r v"
  by (auto simp: IsCompatible_def higher_def)

lemma max_version_idx_in: "max_version_idx installs m ks = m \<or> max_version_idx installs m ks \<in> set ks"
proof (induction ks arbitrary: m)
  case (Cons k ks)
  show ?case using Cons [of m] Cons [of k] by auto
qed simp

lemma max_version_idx_max:
  "\<not> higher (ci_Version (installs ! m)) (ci_Version (installs ! max_version_idx installs m ks)) \<and>
   (\<forall>k \<in> set ks. \<not> higher (ci_Version (installs ! k)) (ci_Version (installs ! max_version_idx installs m ks)))"
proof (induction ks arbitrary: m)
  case Nil
  then show ?case by (simp add: higher_def)
next
  case (Cons k ks)
  show ?case
  proof (cases "higher (ci_Version (installs ! k)) (ci_Version (installs ! m))")
    case True
    from higher_trans [OF higher_asym [OF True]] Cons [of k] show ?thesis by (simp add: True)
  next
    case False
    from higher_trans [OF False] Cons [of m] show ?thesis by (simp add: False)
  qed
qed

lemma closest_in: "closest b installs = b \<or> closest b installs \<in> set installs"
proof (induction installs arbitrary: b)
  case (Cons i installs)
  show ?case using Cons [of i] Cons [of b] by (simp only: closest.simps split: if_split) auto
qed simp

lemma closest_least:
  "\<not> higher (ci_Version (closest b installs)) (ci_Version b) \<and> (\<forall>i \<in> set installs. \<not> higher (ci_Version (closest b installs)) (ci_Version i))"
proof (induction installs arbitrary: b)
  case Nil
  then show ?case by (simp add: higher_def)
next
  case (Cons i installs)
  show ?case
  proof (cases "higher (ci_Version b) (ci_Version i)")
    case True
    then have e: "closest b (i # installs) = closest i installs" by (auto simp: higher_def)
    from higher_trans [OF _ higher_asym [OF True]] Cons [of i] show ?thesis unfolding e by simp
  next
    case False
    then have e: "closest b (i # installs) = closest b installs" by (auto simp: higher_def)
    from higher_trans [OF _ False] Cons [of b] show ?thesis unfolding e by simp
  qed
qed

lemma closest_hd: "installs \<noteq> [] \<Longrightarrow> closest (hd installs) installs \<in> set installs"
  using closest_in [of "hd installs" installs] by auto

text \<open>Which position becomes the default.\<close>

definition default_pos :: "cuda_node \<Rightarrow> CUDAInstallation list \<Rightarrow> nat" where
  "default_pos x installs =
     (case find_pos (\<lambda>i. cn_Getenv x ''CUDA_HOME'' \<noteq> [] \<and> ci_Path i = cn_Getenv x ''CUDA_HOME'') installs of
        Some i \<Rightarrow> i
      | None \<Rightarrow>
          (case find_pos (\<lambda>i. ci_Path i = ''/usr/local/cuda'') installs of
             Some i \<Rightarrow> i
           | None \<Rightarrow> max_version_idx installs 0 [0..<length installs]))"

lemma mark_default: "installs \<noteq> [] \<Longrightarrow> markDefaultInstallation x installs = set_default (default_pos x installs) installs"
  by (simp add: markDefaultInstallation_def default_pos_def Let_def del: find_pos_None split: option.split)

lemma default_pos_bound: "installs \<noteq> [] \<Longrightarrow> default_pos x installs < length installs"
  using max_version_idx_in [of installs 0 "[0..<length installs]"]
  by (auto simp: default_pos_def split: option.split dest: find_pos_Some)

definition named_default :: "cuda_node \<Rightarrow> CUDAInstallation list \<Rightarrow> CUDAInstallation \<Rightarrow> bool" where
  "named_default x installs d =
     (if cn_Getenv x ''CUDA_HOME'' \<noteq> [] \<and> (\<exists>i \<in> set installs. ci_Path i = cn_Getenv x ''CUDA_HOME'') then ci_Path d = cn_Getenv x ''CUDA_HOME''
      else if \<exists>i \<in> set installs. ci_Path i = ''/usr/local/cuda'' then ci_Path d = ''/usr/local/cuda''
      else \<forall>i \<in> set installs. \<not> higher (ci_Version i) (ci_Version d))"

lemma default_pos_named:
  assumes ne: "installs \<noteq> []"
  shows "named_default x installs (installs ! default_pos x installs)"
proof (cases "find_pos (\<lambda>i. cn_Getenv x ''CUDA_HOME'' \<noteq> [] \<and> ci_Path i = cn_Getenv x ''CUDA_HOME'') installs")
  case (Some i)
  then show ?thesis using find_pos_Some [OF Some] by (auto simp: named_default_def default_pos_def)
next
  case None
  then have none: "\<not> (cn_Getenv x ''CUDA_HOME'' \<noteq> [] \<and> (\<exists>i \<in> set installs. ci_Path i = cn_Getenv x ''CUDA_HOME''))" by auto
  show ?thesis
  proof (cases "find_pos (\<lambda>i. ci_Path i = ''/usr/local/cuda'') installs")
    case (Some i)
    have "default_pos x installs = i" by (simp only: default_pos_def None Some option.case)
    then show ?thesis using find_pos_Some [OF Some] none unfolding named_default_def by auto
  next
    case no_std: None
    have e: "default_pos x installs = max_version_idx installs 0 [0..<length installs]" by (simp only: default_pos_def None no_std option.case)
    have "\<not> higher (ci_Version i) (ci_Version (installs ! default_pos x installs))" if "i \<in> set installs" for i
      using that max_version_idx_max [of installs 0 "[0..<length installs]"] by (auto simp: e in_set_conv_nth)
    then show ?thesis using none no_std by (auto simp: named_default_def)
  qed
qed

text \<open>Marking changes nothing but the mark.\<close>

lemma set_default_nth:
  "i < length installs \<Longrightarrow> k < length installs \<Longrightarrow>
   set_default i installs ! k = (if k = i then (installs ! k)\<lparr>ci_IsDefault := True\<rparr> else installs ! k)"
  by (simp add: set_default_def)

lemma length_set_default [simp]: "length (set_default i installs) = length installs"
  by (simp add: set_default_def)

lemma found_not_default: "i \<in> set (findAllCUDAInstallations x) \<Longrightarrow> \<not> ci_IsDefault i"
  by (auto simp: findAllCUDAInstallations_def)

lemma named_default_cong:
  assumes "length installs = length installs'"
    and "\<And>k. k < length installs \<Longrightarrow> ci_Path (installs ! k) = ci_Path (installs' ! k) \<and> ci_Version (installs ! k) = ci_Version (installs' ! k)"
    and "ci_Path d = ci_Path d'" "ci_Version d = ci_Version d'"
  shows "named_default x installs d = named_default x installs' d'"
proof -
  have "map (\<lambda>i. (ci_Path i, ci_Version i)) installs = map (\<lambda>i. (ci_Path i, ci_Version i)) installs'"
    using assms(1,2) by (intro nth_equalityI) simp_all
  then have "(\<lambda>i. (ci_Path i, ci_Version i)) ` set installs = (\<lambda>i. (ci_Path i, ci_Version i)) ` set installs'"
    by (metis set_map)
  then have ball: "(\<forall>i \<in> set installs. P (ci_Path i, ci_Version i)) = (\<forall>i \<in> set installs'. P (ci_Path i, ci_Version i))" for P
    using ball_simps(9) [of "\<lambda>i. (ci_Path i, ci_Version i)" "set installs" P] ball_simps(9) [of "\<lambda>i. (ci_Path i, ci_Version i)" "set installs'" P] by simp
  have path: "(\<exists>i \<in> set installs. ci_Path i = p) = (\<exists>i \<in> set installs'. ci_Path i = p)" for p
    using ball [of "\<lambda>(q, v). q \<noteq> p"] by auto
  have version: "(\<forall>i \<in> set installs. \<not> higher (ci_Version i) w) = (\<forall>i \<in> set installs'. \<not> higher (ci_Version i) w)" for w
    using ball [of "\<lambda>(q, v). \<not> higher v w"] by simp
  show ?thesis unfolding named_default_def assms(3,4) path version by (rule refl)
qed

lemma detected_default:
  assumes "DetectCUDAInstallations x = Inr installs"
  shows "\<exists>p < length installs. (\<forall>k < length installs. ci_IsDefault (installs ! k) \<longleftrightarrow> k = p) \<and> named_default x installs (installs ! p)"
proof -
  let ?found = "findAllCUDAInstallations x" and ?p = "default_pos x (findAllCUDAInstallations x)"
  have ne: "?found \<noteq> []" using assms by (auto simp: DetectCUDAInstallations_def Let_def split: if_splits)
  have e: "installs = set_default ?p ?found"
    using assms ne mark_default [OF ne, of x] by (simp add: DetectCUDAInstallations_def Let_def)
  note b = default_pos_bound [OF ne, of x]
  have "named_default x ?found (?found ! ?p) = named_default x installs (installs ! ?p)"
    by (rule named_default_cong) (simp_all add: e set_default_nth b)
  with default_pos_named [OF ne, of x] have "named_default x installs (installs ! ?p)" by simp
  moreover have "\<forall>k < length installs. ci_IsDefault (installs ! k) \<longleftrightarrow> k = ?p"
    using found_not_default [OF nth_mem, of _ x] by (auto simp: e set_default_nth b)
  ultimately show ?thesis using b by (auto simp: e)
qed

lemma find_default:
  assumes "p < length installs" "\<forall>k < length installs. ci_IsDefault (installs ! k) \<longleftrightarrow> k = p"
  shows "find ci_IsDefault (filter P installs) = (if P (installs ! p) then Some (installs ! p) else None)"
proof (cases "find ci_IsDefault (filter P installs)")
  case None
  then show ?thesis using assms by (auto simp: find_None_iff)
next
  case (Some i)
  then have "ci_IsDefault i" "i \<in> set (filter P installs)" by (auto simp: find_Some_iff) (metis nth_mem set_filter mem_Collect_eq)+
  then show ?thesis using Some assms(2) by (auto simp: in_set_conv_nth)
qed

text \<open>
  C38. Which installation a job gets that asks for a version of CUDA. Of the installations found on a node exactly one is the default: that at \<open>CUDA_HOME\<close>, if there is one there, else that at \<open>/usr/local/cuda\<close>, else
  one with the highest version. A request is given the default if that is compatible; otherwise it is given a compatible one with the lowest version (by major, then minor). It fails only if none is compatible.
\<close>

theorem best_installation:
  assumes "DetectCUDAInstallations x = Inr installs"
  shows "\<exists>p < length installs.
           (\<forall>k < length installs. ci_IsDefault (installs ! k) \<longleftrightarrow> k = p) \<and> named_default x installs (installs ! p) \<and>
           (case GetBestCUDA x v of
              Inl _ \<Rightarrow> \<forall>i \<in> set installs. \<not> IsCompatible (ci_Version i) v
            | Inr r \<Rightarrow>
                r \<in> set installs \<and> IsCompatible (ci_Version r) v \<and>
                (if IsCompatible (ci_Version (installs ! p)) v then r = installs ! p
                 else \<forall>i \<in> set installs. IsCompatible (ci_Version i) v \<longrightarrow> \<not> higher (ci_Version r) (ci_Version i)))"
proof -
  let ?c = "filter (\<lambda>i. IsCompatible (ci_Version i) v) installs"
  obtain p where p: "p < length installs" "\<forall>k < length installs. ci_IsDefault (installs ! k) \<longleftrightarrow> k = p" "named_default x installs (installs ! p)"
    using detected_default [OF assms] by blast
  have best: "GetBestCUDA x v =
     (if ?c = [] then Inl (NoCompatible (CUDAVersion_String v))
      else if IsCompatible (ci_Version (installs ! p)) v then Inr (installs ! p) else Inr (closest (hd ?c) ?c))"
    using find_default [OF p(1,2), of "\<lambda>i. IsCompatible (ci_Version i) v"] by (simp add: GetBestCUDA_def FindCompatibleCUDA_def assms Let_def)
  show ?thesis
  proof (intro exI [of _ p] conjI p)
    show "case GetBestCUDA x v of
              Inl _ \<Rightarrow> \<forall>i \<in> set installs. \<not> IsCompatible (ci_Version i) v
            | Inr r \<Rightarrow>
                r \<in> set installs \<and> IsCompatible (ci_Version r) v \<and>
                (if IsCompatible (ci_Version (installs ! p)) v then r = installs ! p
                 else \<forall>i \<in> set installs. IsCompatible (ci_Version i) v \<longrightarrow> \<not> higher (ci_Version r) (ci_Version i))"
      using closest_hd [of ?c] closest_least [of "hd ?c" ?c] p(1) by (auto simp: best filter_empty_conv)
  qed
qed

definition example_node :: cuda_node where
  "example_node =
     \<lparr>cn_Getenv = (\<lambda>_. []), cn_Stat = (\<lambda>p. HasPrefix p ''/opt/cuda-''),
      cn_ReadDir = (\<lambda>p. if p = ''/opt'' then Some [(''cuda-11.8'', True), (''cuda-12.4'', True), (''cuda-12.1'', True)] else None),
      cn_ReadFile = (\<lambda>_. None), cn_Command = (\<lambda>_. None), cn_LookPath = (\<lambda>_. False)\<rparr>"

definition example_installs :: "CUDAInstallation list" where
  "example_installs =
     map (\<lambda>(n, major, minor, d).
       \<lparr>ci_Path = n, ci_Version = \<lparr>cv_Major = major, cv_Minor = minor, cv_Path = n\<rparr>, ci_DriverVersion = ''unknown'', ci_IsDefault = d\<rparr>)
       [(''/opt/cuda-11.8'', 11, 8, False), (''/opt/cuda-12.4'', 12, 4, True), (''/opt/cuda-12.1'', 12, 1, False)]"

lemma example_detected: "DetectCUDAInstallations example_node = Inr example_installs"
  by code_simp

theorem best_installation_witness:
  "\<exists>p < length example_installs.
     (\<forall>k < length example_installs. ci_IsDefault (example_installs ! k) \<longleftrightarrow> k = p) \<and>
     GetBestCUDA example_node \<lparr>cv_Major = 12, cv_Minor = 0, cv_Path = []\<rparr> = Inr (example_installs ! p)"
proof -
  let ?v = "\<lparr>cv_Major = 12, cv_Minor = 0, cv_Path = []\<rparr> :: CUDAVersion"
  have c: "IsCompatible (ci_Version (example_installs ! 1)) ?v" by code_simp
  have d: "ci_IsDefault (example_installs ! 1)" "1 < length example_installs" by code_simp+
  have "\<not> isl (GetBestCUDA example_node ?v)" by code_simp
  then obtain r where r: "GetBestCUDA example_node ?v = Inr r" by (cases "GetBestCUDA example_node ?v") auto
  obtain p where p: "p < length example_installs" "\<forall>k < length example_installs. ci_IsDefault (example_installs ! k) \<longleftrightarrow> k = p"
      "if IsCompatible (ci_Version (example_installs ! p)) ?v then r = example_installs ! p
       else \<forall>i \<in> set example_installs. IsCompatible (ci_Version i) ?v \<longrightarrow> \<not> higher (ci_Version r) (ci_Version i)"
    using best_installation [OF example_detected, of ?v] unfolding r by auto
  then have "p = 1" using d by blast
  then show ?thesis using p c r by auto
qed

section \<open>Versions as text\<close>

text \<open>What \<open>nvidia-smi\<close> prints after \<open>CUDA Version:\<close> starts with a blank, and the version is read up to the first blank.\<close>

lemma after_sub_skip: "(\<forall>k < length pre. \<not> HasPrefix (drop k (pre @ s)) sub) \<Longrightarrow> after_sub sub (pre @ s) = after_sub sub s"
proof (induction pre)
  case (Cons c pre)
  have "\<not> HasPrefix (c # pre @ s) sub" using Cons.prems by (auto dest: spec [of _ 0])
  moreover have "\<forall>k < length pre. \<not> HasPrefix (drop k (pre @ s)) sub" using Cons.prems by (auto dest: spec [of _ "Suc _"])
  ultimately show ?case using Cons.IH by simp
qed simp

lemma after_sub_at: "HasPrefix s sub \<Longrightarrow> after_sub sub s = Some (drop (length sub) s)"
  by (cases s) (auto simp: HasPrefix_def)

lemma banner_version_blank:
  assumes "after_sub ''CUDA Version:'' out = Some (CHR '' '' # rest)"
  shows "banner_version out = []"
proof -
  have "TrimSpace [] = []" by code_simp
  then show ?thesis using assms by (simp add: banner_version_def)
qed

lemma nat_digits_three:
  assumes a: "0 < a" and b: "b < 1000"
  shows "nat_digits (1000 * a + b) = nat_digits a @ map (\<lambda>d. char_of (d + 48)) [b div 100, b div 10 mod 10, b mod 10]"
proof -
  have step: "nat_digits (10 * n + d) = nat_digits n @ [char_of (d + 48)]" if "0 < n" "d < 10" for n d
    using that nat_digits.simps [of "10 * n + d"] by simp
  have e: "1000 * a + b = 10 * (10 * (10 * a + b div 100) + b div 10 mod 10) + b mod 10"
  proof -
    have "b div 10 = 10 * (b div 100) + b div 10 mod 10" using div_mult_mod_eq [of "b div 10" 10] by (simp add: div_mult2_eq [symmetric])
    moreover have "b = 10 * (b div 10) + b mod 10" by simp
    moreover have "1000 * a + u = 10 * (10 * (10 * a + w) + y) + z" if "v = 10 * w + y" "u = 10 * v + z" for u v w y z :: nat
      using that by simp
    ultimately show ?thesis by blast
  qed
  have d: "b div 100 < 10" "b div 10 mod 10 < 10" "b mod 10 < 10" using b by auto
  have "nat_digits (10 * a + b div 100) = nat_digits a @ [char_of (b div 100 + 48)]"
    by (rule step) (use a d in auto)
  moreover have "nat_digits (10 * (10 * a + b div 100) + b div 10 mod 10) = nat_digits (10 * a + b div 100) @ [char_of (b div 10 mod 10 + 48)]"
    by (rule step) (use a d in auto)
  moreover have "nat_digits (1000 * a + b) = nat_digits (10 * (10 * a + b div 100) + b div 10 mod 10) @ [char_of (b mod 10 + 48)]"
    unfolding e by (rule step) (use a d in auto)
  ultimately show ?thesis by simp
qed

lemma takeWhile_digits: "\<forall>c \<in> set d. is_digit c \<Longrightarrow> \<not> is_digit c \<Longrightarrow> digit_run (d @ c # s) = d"
  by (simp add: digit_run_def takeWhile_append2)

lemma digit_run_digits: "\<forall>c \<in> set d. is_digit c \<Longrightarrow> digit_run d = d"
  by (simp add: digit_run_def)

lemma find_submatch_drop: "match_items ps (c # s) = None \<Longrightarrow> find_submatch ps (c # s) = find_submatch ps s"
  by simp

lemma HasPrefix_Cons: "HasPrefix s (a # l) \<Longrightarrow> take 1 s = [a]"
  by (cases s) (auto simp: HasPrefix_def)

lemma no_literal_start: "a \<notin> set s \<Longrightarrow> find_submatch (PLit (a # l) # ps) s = None"
proof (induction s)
  case Nil
  then show ?case by (simp add: HasPrefix_def)
next
  case (Cons c s)
  have "\<not> HasPrefix (c # s) (a # l)" using HasPrefix_Cons [of "c # s" a l] Cons.prems by auto
  then show ?case using Cons by simp
qed

lemma no_number_dot: "CHR ''.'' \<notin> set s \<Longrightarrow> find_submatch (PNum # PLit (CHR ''.'' # l) # ps) s = None"
proof (induction s)
  case Nil
  then show ?case by (simp add: digit_run_def)
next
  case (Cons c s)
  have "\<not> HasPrefix (drop n (c # s)) (CHR ''.'' # l)" for n
    using HasPrefix_Cons [of "drop n (c # s)" "CHR ''.''" l] Cons.prems in_set_dropD [of "CHR ''.''" n "c # s"] by (cases "drop n (c # s)") auto
  then show ?case using Cons by (simp add: Let_def)
qed

lemma digits_value_char_of: "d < 10 \<Longrightarrow> digits_value acc (char_of (d + 48) # s) = digits_value (acc * 10 + d) s"
  by (simp add: is_digit_char_of byte_val_digit)

lemma Atoi_value_three:
  assumes "x < 10" "y < 10" "z < 10"
  shows "Atoi_value (map (\<lambda>d. char_of (d + 48)) [x, y, z]) = int (100 * x + 10 * y + z)"
proof -
  have "(char_of (x + 48) :: char) \<noteq> CHR ''-''" "(char_of (x + 48) :: char) \<noteq> CHR ''+''"
    using is_digit_char_of [OF assms(1)] not_is_digit_sign by auto
  then show ?thesis using assms by (simp add: Atoi_value_def Let_def unsigned_value_def digits_value_char_of del: digits_value.simps(2))
qed

text \<open>
  The version read from the header \<open>cuda\_runtime\_api.h\<close>. It defines \<open>CUDART\_VERSION\<close> as \<open>1000 * major + 10 * minor\<close>; the code takes the last three digits for the minor version, so that it is ten times too
  large: 12010, version 12.1, is read as 12.10.
\<close>

theorem header_minor_times_ten:
  assumes "1 \<le> major" "major < 2 ^ 40" "minor < 100"
  shows "parseVersionFromContent (''#define CUDART_VERSION '' @ nat_digits (1000 * major + 10 * minor) @ [CHR 0x0A]) =
         Inr \<lparr>cv_Major = int major, cv_Minor = 10 * int minor, cv_Path = []\<rparr>"
proof -
  let ?b = "10 * minor"
  let ?m = "map (\<lambda>d. char_of (d + 48)) [?b div 100, ?b div 10 mod 10, ?b mod 10] :: string"
  define r where "r = (nat_digits major @ ?m) @ [CHR 0x0A]"
  have e: "nat_digits (1000 * major + ?b) = nat_digits major @ ?m" using assms by (intro nat_digits_three) auto
  have dig: "\<forall>c \<in> set (nat_digits major @ ?m). is_digit c" using nat_digits_all_digits [of "1000 * major + ?b"] unfolding e .
  have run: "digit_run r = nat_digits major @ ?m"
    unfolding r_def by (rule takeWhile_digits [OF dig]) (simp add: char_class_defs)
  have "is_digit CHR ''C'' = False" "is_digit CHR ''#'' = False" "is_digit CHR ''.'' = False" by (simp_all add: char_class_defs)
  then have chars: "CHR ''C'' \<notin> set r" "CHR ''.'' \<notin> set r" using dig unfolding r_def by auto
  have "find_submatch [PLit ''CUDA Version '', PNum, PLit ''.'', PNum] (''#define CUDART_VERSION '' @ r) = None"
    using no_literal_start [OF chars(1)] by (simp add: HasPrefix_def)
  moreover have "find_submatch [PNum, PLit ''.'', PNum, PLit ''.'', PNum] (''#define CUDART_VERSION '' @ r) = None"
    by (rule no_number_dot) (use chars in simp)
  moreover have "find_submatch [PLit ''#define CUDART_VERSION '', PNum3] (''#define CUDART_VERSION '' @ r) = Some [nat_digits major, ?m]"
    using run by (simp add: HasPrefix_def Let_def)
  ultimately have "parseVersionFromContent (''#define CUDART_VERSION '' @ r) =
     Inr \<lparr>cv_Major = Atoi_value (nat_digits major), cv_Minor = Atoi_value ?m, cv_Path = []\<rparr>"
    by (simp add: parseVersionFromContent_def content_patterns_def del: find_submatch.simps list.map append.simps)
  moreover have "Atoi_value ?m = int ?b"
  proof -
    have "100 * (minor div 10) + 10 * (minor mod 10) = ?b" by presburger
    then have "100 * int (minor div 10) + 10 * int (minor mod 10) = int ?b" by linarith
    then show ?thesis using assms(3) Atoi_value_three [of "?b div 100" "?b div 10 mod 10" "?b mod 10"] by simp
  qed
  ultimately show ?thesis using assms Atoi_value_digits [of major] by (simp add: e r_def)
qed

theorem header_minor_times_ten_witness:
  "parseVersionFromContent (''#define CUDART_VERSION '' @ nat_digits 12010 @ [CHR 0x0A]) = Inr \<lparr>cv_Major = 12, cv_Minor = 10, cv_Path = []\<rparr>"
  using header_minor_times_ten [of 12 1] by simp

text \<open>A version as text is read back.\<close>

lemma ParseCUDAVersion_String:
  assumes "0 \<le> cv_Major v" "fits64 (cv_Major v)" "0 \<le> cv_Minor v" "fits64 (cv_Minor v)"
  shows "ParseCUDAVersion (CUDAVersion_String v) = Inr (v\<lparr>cv_Path := []\<rparr>)"
proof -
  have "CHR ''.'' \<notin> set (Itoa (cv_Major v))" "CHR ''.'' \<notin> set (Itoa (cv_Minor v))"
    using assms not_is_digit_sign(3) by (auto dest: Itoa_digits)
  then have "Split CHR ''.'' (CUDAVersion_String v) = [Itoa (cv_Major v), Itoa (cv_Minor v)]"
    by (simp add: CUDAVersion_String_def Split_append_sep Split_no_sep)
  then show ?thesis using assms by (simp add: ParseCUDAVersion_def Atoi_Itoa)
qed

end
