(* ===== verification/Telematics.thy ===== *)
theory Telematics
  imports Telemetry
begin

text \<open>
  The way of an event of a job to a client: from memory (the converters of \<open>server/job\_service.go\<close>), or over the persistence service: the messages to it (\<open>ipc/persister.go\<close>), its answers to queries
  (\<open>persist/internal/server/grpc.go\<close>) and their conversion in \<open>server/job\_service.go\<close>.

  The protocol messages have the fields that these sources read or write; a field that is not set has the zero value, a message in a pointer is an option. Values of type \<open>float64\<close> are their bits, and their
  multiplication by 100 is an argument.
\<close>

section \<open>Messages to the persistence service\<close>

text \<open>What the messages of all kinds of events have, then the kinds.\<close>

record IpcEvent =
  ie_JobUuid :: string
  ie_Timestamp :: int
  ie_Sequence :: "64 word"
  ie_Pid :: "32 word"
  ie_Comm :: string

record IpcExecEvent = IpcEvent +
  ix_Ppid :: "32 word"
  ix_Uid :: "32 word"
  ix_Gid :: "32 word"
  ix_Filename :: string
  ix_Args :: "string list"

record IpcConnectEvent = IpcEvent +
  ic_SrcAddr :: string
  ic_SrcPort :: "32 word"
  ic_DstAddr :: string
  ic_DstPort :: "32 word"
  ic_Protocol :: string

record IpcMmapEvent = IpcEvent +
  im_Addr :: "64 word"
  im_Length :: "64 word"
  im_Prot :: "32 word"
  im_Flags :: "32 word"
  im_Filename :: string

record IpcMprotectEvent = IpcEvent +
  ip_Addr :: "64 word"
  ip_Length :: "64 word"
  ip_Prot :: "32 word"

record IpcFileEvent = IpcEvent +
  if_Path :: string
  if_Operation :: string
  if_Bytes :: int

record IpcAcceptEvent = IpcEvent +
  ia_SrcAddr :: string
  ia_SrcPort :: "32 word"
  ia_DstAddr :: string
  ia_DstPort :: "32 word"
  ia_Protocol :: string

record IpcSocketDataEvent = IpcEvent +
  is_Direction :: string
  is_Addr :: string
  is_Port :: "32 word"
  is_Bytes :: int
  is_Protocol :: string

record IpcDiskIO =
  ir_ReadBytes :: int
  ir_WriteBytes :: int
  ir_ReadOps :: int
  ir_WriteOps :: int

record IpcNetworkIO =
  in_RxBytes :: int
  in_TxBytes :: int
  in_RxPackets :: int
  in_TxPackets :: int

record IpcMetricData =
  id_CpuUsage :: float64
  id_MemoryUsage :: int
  id_GpuUsage :: float64
  id_DiskIo :: "IpcDiskIO option"
  id_NetworkIo :: "IpcNetworkIO option"

record IpcMetric =
  iq_JobUuid :: string
  iq_Timestamp :: int
  iq_Sequence :: "64 word"
  iq_Data :: "IpcMetricData option"

section \<open>The persister (persister.go)\<close>

text \<open>What the writer is given, if there is one.\<close>

definition PersistExecEvent :: "bool \<Rightarrow> string \<Rightarrow> int \<Rightarrow> 64 word \<Rightarrow> ExecData \<Rightarrow> IpcExecEvent option" where
  "PersistExecEvent writer jobID timestamp seq data =
     (if \<not> writer then None
      else Some \<lparr>ie_JobUuid = jobID, ie_Timestamp = timestamp, ie_Sequence = seq, ie_Pid = xd_PID data, ie_Comm = [],
        ix_Ppid = xd_PPID data, ix_Uid = 0, ix_Gid = 0, ix_Filename = xd_Binary data, ix_Args = xd_Args data\<rparr>)"

definition PersistConnectEvent :: "bool \<Rightarrow> string \<Rightarrow> int \<Rightarrow> 64 word \<Rightarrow> ConnectData \<Rightarrow> IpcConnectEvent option" where
  "PersistConnectEvent writer jobID timestamp seq data =
     (if \<not> writer then None
      else Some \<lparr>ie_JobUuid = jobID, ie_Timestamp = timestamp, ie_Sequence = seq, ie_Pid = cd_PID data, ie_Comm = [],
        ic_SrcAddr = cd_LocalAddress data, ic_SrcPort = cd_LocalPort data, ic_DstAddr = cd_Address data, ic_DstPort = cd_Port data, ic_Protocol = cd_Protocol data\<rparr>)"

definition PersistAcceptEvent :: "bool \<Rightarrow> string \<Rightarrow> int \<Rightarrow> 64 word \<Rightarrow> AcceptData \<Rightarrow> IpcAcceptEvent option" where
  "PersistAcceptEvent writer jobID timestamp seq data =
     (if \<not> writer then None
      else Some \<lparr>ie_JobUuid = jobID, ie_Timestamp = timestamp, ie_Sequence = seq, ie_Pid = ad_PID data, ie_Comm = [],
        ia_SrcAddr = ad_RemoteAddr data, ia_SrcPort = ad_RemotePort data, ia_DstAddr = [], ia_DstPort = ad_LocalPort data, ia_Protocol = ad_Protocol data\<rparr>)"

definition PersistSocketDataEvent :: "bool \<Rightarrow> string \<Rightarrow> int \<Rightarrow> 64 word \<Rightarrow> SocketDataData \<Rightarrow> IpcSocketDataEvent option" where
  "PersistSocketDataEvent writer jobID timestamp seq data =
     (if \<not> writer then None
      else Some \<lparr>ie_JobUuid = jobID, ie_Timestamp = timestamp, ie_Sequence = seq, ie_Pid = sd_PID data, ie_Comm = [],
        is_Direction = sd_Direction data, is_Addr = sd_Address data, is_Port = sd_Port data, is_Bytes = sd_Bytes data, is_Protocol = sd_Protocol data\<rparr>)"

definition PersistMmapEvent :: "bool \<Rightarrow> string \<Rightarrow> int \<Rightarrow> 64 word \<Rightarrow> MmapData \<Rightarrow> IpcMmapEvent option" where
  "PersistMmapEvent writer jobID timestamp seq data =
     (if \<not> writer then None
      else Some \<lparr>ie_JobUuid = jobID, ie_Timestamp = timestamp, ie_Sequence = seq, ie_Pid = mm_PID data, ie_Comm = [],
        im_Addr = mm_Addr data, im_Length = mm_Length data, im_Prot = mm_Prot data, im_Flags = mm_Flags data, im_Filename = []\<rparr>)"

definition PersistMprotectEvent :: "bool \<Rightarrow> string \<Rightarrow> int \<Rightarrow> 64 word \<Rightarrow> MprotectData \<Rightarrow> IpcMprotectEvent option" where
  "PersistMprotectEvent writer jobID timestamp seq data =
     (if \<not> writer then None
      else Some \<lparr>ie_JobUuid = jobID, ie_Timestamp = timestamp, ie_Sequence = seq, ie_Pid = mp_PID data, ie_Comm = [],
        ip_Addr = mp_Addr data, ip_Length = mp_Length data, ip_Prot = mp_Prot data\<rparr>)"

definition PersistFileEvent :: "bool \<Rightarrow> string \<Rightarrow> int \<Rightarrow> 64 word \<Rightarrow> FileData \<Rightarrow> IpcFileEvent option" where
  "PersistFileEvent writer jobID timestamp seq data =
     (if \<not> writer then None
      else Some \<lparr>ie_JobUuid = jobID, ie_Timestamp = timestamp, ie_Sequence = seq, ie_Pid = fd_PID data, ie_Comm = [],
        if_Path = fd_Path data, if_Operation = fd_Operation data, if_Bytes = fd_Bytes data\<rparr>)"

definition PersistMetrics :: "bool \<Rightarrow> string \<Rightarrow> int \<Rightarrow> 64 word \<Rightarrow> MetricsData \<Rightarrow> IpcMetric option" where
  "PersistMetrics writer jobID timestamp seq data =
     (if \<not> writer then None
      else Some \<lparr>iq_JobUuid = jobID, iq_Timestamp = timestamp, iq_Sequence = seq,
        iq_Data = Some \<lparr>id_CpuUsage = md_CPUPercent data, id_MemoryUsage = md_MemoryBytes data, id_GpuUsage = md_GPUPercent data,
          id_DiskIo = Some \<lparr>ir_ReadBytes = md_DiskReadBytes data, ir_WriteBytes = md_DiskWriteBytes data, ir_ReadOps = 0, ir_WriteOps = 0\<rparr>,
          id_NetworkIo = Some \<lparr>in_RxBytes = md_NetRecvBytes data, in_TxBytes = md_NetSentBytes data, in_RxPackets = 0, in_TxPackets = 0\<rparr>\<rparr>\<rparr>)"

section \<open>Answers of the persistence service (grpc.go)\<close>

record GenEvent =
  ge_JobUuid :: string
  ge_Timestamp :: int
  ge_Sequence :: "64 word"
  ge_Pid :: "32 word"
  ge_Comm :: string

record GenExecEvent = GenEvent +
  gx_Ppid :: "32 word"
  gx_Uid :: "32 word"
  gx_Gid :: "32 word"
  gx_Filename :: string
  gx_Args :: "string list"

record GenConnectEvent = GenEvent +
  gc_SrcAddr :: string
  gc_SrcPort :: "32 word"
  gc_DstAddr :: string
  gc_DstPort :: "32 word"
  gc_Protocol :: string

record GenMmapEvent = GenEvent +
  gm_Addr :: "64 word"
  gm_Length :: "64 word"
  gm_Prot :: "32 word"
  gm_Flags :: "32 word"
  gm_Filename :: string

record GenMprotectEvent = GenEvent +
  gp_Addr :: "64 word"
  gp_Length :: "64 word"
  gp_Prot :: "32 word"

record GenFileEvent = GenEvent +
  gf_Path :: string
  gf_Operation :: string
  gf_Bytes :: int

record GenAcceptEvent = GenEvent +
  ga_SrcAddr :: string
  ga_SrcPort :: "32 word"
  ga_DstAddr :: string
  ga_DstPort :: "32 word"
  ga_Protocol :: string

record GenSocketDataEvent = GenEvent +
  gs_Direction :: string
  gs_DstAddr :: string
  gs_DstPort :: "32 word"
  gs_Bytes :: int
  gs_Protocol :: string

record GenDiskIO =
  gr_ReadBytes :: int
  gr_WriteBytes :: int
  gr_ReadOps :: int
  gr_WriteOps :: int

record GenNetworkIO =
  gn_RxBytes :: int
  gn_TxBytes :: int
  gn_RxPackets :: int
  gn_TxPackets :: int

record GenMetricData =
  gd_CpuUsage :: float64
  gd_MemoryUsage :: int
  gd_GpuUsage :: float64
  gd_DiskIo :: "GenDiskIO option"
  gd_NetworkIo :: "GenNetworkIO option"

record GenMetric =
  gq_JobUuid :: string
  gq_Timestamp :: int
  gq_Sequence :: "64 word"
  gq_Data :: "GenMetricData option"

definition metricIPCToGen :: "IpcMetric option \<Rightarrow> GenMetric option" where
  "metricIPCToGen ipc =
     (case ipc of
        None \<Rightarrow> None
      | Some ipc \<Rightarrow>
          (let gen = \<lparr>gq_JobUuid = iq_JobUuid ipc, gq_Timestamp = iq_Timestamp ipc, gq_Sequence = iq_Sequence ipc, gq_Data = None\<rparr>
           in Some (case iq_Data ipc of
                      None \<Rightarrow> gen
                    | Some d \<Rightarrow>
                        gen\<lparr>gq_Data := Some
                          \<lparr>gd_CpuUsage = id_CpuUsage d, gd_MemoryUsage = id_MemoryUsage d, gd_GpuUsage = id_GpuUsage d,
                           gd_DiskIo = map_option (\<lambda>i. \<lparr>gr_ReadBytes = ir_ReadBytes i, gr_WriteBytes = ir_WriteBytes i, gr_ReadOps = ir_ReadOps i, gr_WriteOps = ir_WriteOps i\<rparr>) (id_DiskIo d),
                           gd_NetworkIo = map_option (\<lambda>i. \<lparr>gn_RxBytes = in_RxBytes i, gn_TxBytes = in_TxBytes i, gn_RxPackets = in_RxPackets i, gn_TxPackets = in_TxPackets i\<rparr>) (id_NetworkIo d)\<rparr>\<rparr>)))"

definition execEventIPCToGen :: "IpcExecEvent option \<Rightarrow> GenExecEvent option" where
  "execEventIPCToGen ipc =
     (case ipc of
        None \<Rightarrow> None
      | Some ipc \<Rightarrow>
          Some \<lparr>ge_JobUuid = ie_JobUuid ipc, ge_Timestamp = ie_Timestamp ipc, ge_Sequence = ie_Sequence ipc, ge_Pid = ie_Pid ipc, ge_Comm = ie_Comm ipc,
            gx_Ppid = ix_Ppid ipc, gx_Uid = ix_Uid ipc, gx_Gid = ix_Gid ipc, gx_Filename = ix_Filename ipc, gx_Args = ix_Args ipc\<rparr>)"

definition connectEventIPCToGen :: "IpcConnectEvent option \<Rightarrow> GenConnectEvent option" where
  "connectEventIPCToGen ipc =
     (case ipc of
        None \<Rightarrow> None
      | Some ipc \<Rightarrow>
          Some \<lparr>ge_JobUuid = ie_JobUuid ipc, ge_Timestamp = ie_Timestamp ipc, ge_Sequence = ie_Sequence ipc, ge_Pid = ie_Pid ipc, ge_Comm = ie_Comm ipc,
            gc_SrcAddr = ic_SrcAddr ipc, gc_SrcPort = ic_SrcPort ipc, gc_DstAddr = ic_DstAddr ipc, gc_DstPort = ic_DstPort ipc, gc_Protocol = ic_Protocol ipc\<rparr>)"

definition mmapEventIPCToGen :: "IpcMmapEvent option \<Rightarrow> GenMmapEvent option" where
  "mmapEventIPCToGen ipc =
     (case ipc of
        None \<Rightarrow> None
      | Some ipc \<Rightarrow>
          Some \<lparr>ge_JobUuid = ie_JobUuid ipc, ge_Timestamp = ie_Timestamp ipc, ge_Sequence = ie_Sequence ipc, ge_Pid = ie_Pid ipc, ge_Comm = ie_Comm ipc,
            gm_Addr = im_Addr ipc, gm_Length = im_Length ipc, gm_Prot = im_Prot ipc, gm_Flags = im_Flags ipc, gm_Filename = im_Filename ipc\<rparr>)"

definition mprotectEventIPCToGen :: "IpcMprotectEvent option \<Rightarrow> GenMprotectEvent option" where
  "mprotectEventIPCToGen ipc =
     (case ipc of
        None \<Rightarrow> None
      | Some ipc \<Rightarrow>
          Some \<lparr>ge_JobUuid = ie_JobUuid ipc, ge_Timestamp = ie_Timestamp ipc, ge_Sequence = ie_Sequence ipc, ge_Pid = ie_Pid ipc, ge_Comm = ie_Comm ipc,
            gp_Addr = ip_Addr ipc, gp_Length = ip_Length ipc, gp_Prot = ip_Prot ipc\<rparr>)"

definition fileEventIPCToGen :: "IpcFileEvent option \<Rightarrow> GenFileEvent option" where
  "fileEventIPCToGen ipc =
     (case ipc of
        None \<Rightarrow> None
      | Some ipc \<Rightarrow>
          Some \<lparr>ge_JobUuid = ie_JobUuid ipc, ge_Timestamp = ie_Timestamp ipc, ge_Sequence = ie_Sequence ipc, ge_Pid = ie_Pid ipc, ge_Comm = ie_Comm ipc,
            gf_Path = if_Path ipc, gf_Operation = if_Operation ipc, gf_Bytes = if_Bytes ipc\<rparr>)"

definition acceptEventIPCToGen :: "IpcAcceptEvent option \<Rightarrow> GenAcceptEvent option" where
  "acceptEventIPCToGen ipc =
     (case ipc of
        None \<Rightarrow> None
      | Some ipc \<Rightarrow>
          Some \<lparr>ge_JobUuid = ie_JobUuid ipc, ge_Timestamp = ie_Timestamp ipc, ge_Sequence = ie_Sequence ipc, ge_Pid = ie_Pid ipc, ge_Comm = ie_Comm ipc,
            ga_SrcAddr = ia_SrcAddr ipc, ga_SrcPort = ia_SrcPort ipc, ga_DstAddr = ia_DstAddr ipc, ga_DstPort = ia_DstPort ipc, ga_Protocol = ia_Protocol ipc\<rparr>)"

definition socketDataEventIPCToGen :: "IpcSocketDataEvent option \<Rightarrow> GenSocketDataEvent option" where
  "socketDataEventIPCToGen ipc =
     (case ipc of
        None \<Rightarrow> None
      | Some ipc \<Rightarrow>
          Some \<lparr>ge_JobUuid = ie_JobUuid ipc, ge_Timestamp = ie_Timestamp ipc, ge_Sequence = ie_Sequence ipc, ge_Pid = ie_Pid ipc, ge_Comm = ie_Comm ipc,
            gs_Direction = is_Direction ipc, gs_DstAddr = is_Addr ipc, gs_DstPort = is_Port ipc, gs_Bytes = is_Bytes ipc, gs_Protocol = is_Protocol ipc\<rparr>)"

section \<open>Messages to the client\<close>

record TelematicsExecData =
  tx_Pid :: "32 word"
  tx_Ppid :: "32 word"
  tx_Binary :: string
  tx_Args :: "string list"
  tx_ExitCode :: int

record TelematicsConnectData =
  tc_Pid :: "32 word"
  tc_DstAddr :: string
  tc_DstPort :: "32 word"
  tc_Protocol :: string
  tc_SrcAddr :: string
  tc_SrcPort :: "32 word"

record TelematicsAcceptData =
  ta_Pid :: "32 word"
  ta_SrcAddr :: string
  ta_SrcPort :: "32 word"
  ta_DstAddr :: string
  ta_DstPort :: "32 word"
  ta_Protocol :: string

record TelematicsFileData =
  tf_Pid :: "32 word"
  tf_Path :: string
  tf_Operation :: string
  tf_Bytes :: int

record TelematicsMmapData =
  tm_Pid :: "32 word"
  tm_Addr :: "64 word"
  tm_Length :: "64 word"
  tm_Prot :: "32 word"
  tm_Flags :: "32 word"

record TelematicsMprotectData =
  tp_Pid :: "32 word"
  tp_Addr :: "64 word"
  tp_Length :: "64 word"
  tp_Prot :: "32 word"

record TelematicsSocketDataData =
  ts_Pid :: "32 word"
  ts_Direction :: string
  ts_DstAddr :: string
  ts_DstPort :: "32 word"
  ts_Protocol :: string
  ts_Bytes :: int

datatype telematics_data =
    TExec TelematicsExecData
  | TConnect TelematicsConnectData
  | TAccept TelematicsAcceptData
  | TFile TelematicsFileData
  | TMmap TelematicsMmapData
  | TMprotect TelematicsMprotectData
  | TSocketData TelematicsSocketDataData

record TelematicsEvent =
  tv_Timestamp :: int
  tv_JobUuid :: string
  tv_Type :: string
  tv_Data :: telematics_data

record JobMetricsEvent =
  jv_Timestamp :: int
  jv_JobUuid :: string
  jv_CpuPercent :: float64
  jv_MemoryBytes :: int
  jv_MemoryLimit :: int
  jv_DiskReadBytes :: int
  jv_DiskWriteBytes :: int
  jv_NetRecvBytes :: int
  jv_NetSentBytes :: int
  jv_GpuPercent :: float64
  jv_GpuMemoryBytes :: int

section \<open>From memory (job\_service.go)\<close>

text \<open>\<open>None\<close> is a nil message.\<close>

definition telemetryEventToMetricsEvent :: "Event \<Rightarrow> JobMetricsEvent option" where
  "telemetryEventToMetricsEvent event =
     (if e_Type event \<noteq> EventTypeMetrics then None
      else (case e_Data event of
              DMetrics data \<Rightarrow>
                Some \<lparr>jv_Timestamp = e_Timestamp event, jv_JobUuid = e_JobUUID event, jv_CpuPercent = md_CPUPercent data, jv_MemoryBytes = md_MemoryBytes data,
                  jv_MemoryLimit = md_MemoryLimit data, jv_DiskReadBytes = md_DiskReadBytes data, jv_DiskWriteBytes = md_DiskWriteBytes data,
                  jv_NetRecvBytes = md_NetRecvBytes data, jv_NetSentBytes = md_NetSentBytes data, jv_GpuPercent = md_GPUPercent data,
                  jv_GpuMemoryBytes = md_GPUMemoryBytes data\<rparr>
            | _ \<Rightarrow> None))"

definition telemetryEventToTelematicsEvent :: "Event \<Rightarrow> TelematicsEvent option" where
  "telemetryEventToTelematicsEvent event =
     (let pbEvent = (\<lambda>data. Some \<lparr>tv_Timestamp = e_Timestamp event, tv_JobUuid = e_JobUUID event, tv_Type = e_Type event, tv_Data = data\<rparr>)
      in if e_Type event = EventTypeExec then
           (case e_Data event of DExec data \<Rightarrow> pbEvent (TExec \<lparr>tx_Pid = xd_PID data, tx_Ppid = xd_PPID data, tx_Binary = xd_Binary data, tx_Args = xd_Args data, tx_ExitCode = xd_ExitCode data\<rparr>) | _ \<Rightarrow> None)
         else if e_Type event = EventTypeConnect then
           (case e_Data event of DConnect data \<Rightarrow> pbEvent (TConnect \<lparr>tc_Pid = cd_PID data, tc_DstAddr = cd_Address data, tc_DstPort = cd_Port data, tc_Protocol = cd_Protocol data, tc_SrcAddr = cd_LocalAddress data, tc_SrcPort = cd_LocalPort data\<rparr>) | _ \<Rightarrow> None)
         else if e_Type event = EventTypeAccept then
           (case e_Data event of DAccept data \<Rightarrow> pbEvent (TAccept \<lparr>ta_Pid = ad_PID data, ta_SrcAddr = ad_RemoteAddr data, ta_SrcPort = ad_RemotePort data, ta_DstAddr = [], ta_DstPort = ad_LocalPort data, ta_Protocol = ad_Protocol data\<rparr>) | _ \<Rightarrow> None)
         else if e_Type event = EventTypeFile then
           (case e_Data event of DFile data \<Rightarrow> pbEvent (TFile \<lparr>tf_Pid = fd_PID data, tf_Path = fd_Path data, tf_Operation = fd_Operation data, tf_Bytes = fd_Bytes data\<rparr>) | _ \<Rightarrow> None)
         else if e_Type event = EventTypeMmap then
           (case e_Data event of DMmap data \<Rightarrow> pbEvent (TMmap \<lparr>tm_Pid = mm_PID data, tm_Addr = mm_Addr data, tm_Length = mm_Length data, tm_Prot = mm_Prot data, tm_Flags = mm_Flags data\<rparr>) | _ \<Rightarrow> None)
         else if e_Type event = EventTypeMprotect then
           (case e_Data event of DMprotect data \<Rightarrow> pbEvent (TMprotect \<lparr>tp_Pid = mp_PID data, tp_Addr = mp_Addr data, tp_Length = mp_Length data, tp_Prot = mp_Prot data\<rparr>) | _ \<Rightarrow> None)
         else if e_Type event = EventTypeSocketData then
           (case e_Data event of DSocketData data \<Rightarrow> pbEvent (TSocketData \<lparr>ts_Pid = sd_PID data, ts_Direction = sd_Direction data, ts_DstAddr = sd_Address data, ts_DstPort = sd_Port data, ts_Protocol = sd_Protocol data, ts_Bytes = sd_Bytes data\<rparr>) | _ \<Rightarrow> None)
         else None)"

section \<open>From the persistence service (job\_service.go)\<close>

text \<open>\<open>None\<close> is the panic for a message without data. A part that is missing reads as zero.\<close>

definition metric_answer :: "(float64 \<Rightarrow> float64) \<Rightarrow> GenMetric \<Rightarrow> JobMetricsEvent option" where
  "metric_answer times100 metric =
     map_option (\<lambda>d.
       \<lparr>jv_Timestamp = gq_Timestamp metric, jv_JobUuid = gq_JobUuid metric, jv_CpuPercent = times100 (gd_CpuUsage d), jv_MemoryBytes = gd_MemoryUsage d,
        jv_MemoryLimit = 0,
        jv_DiskReadBytes = (case gd_DiskIo d of None \<Rightarrow> 0 | Some i \<Rightarrow> gr_ReadBytes i),
        jv_DiskWriteBytes = (case gd_DiskIo d of None \<Rightarrow> 0 | Some i \<Rightarrow> gr_WriteBytes i),
        jv_NetRecvBytes = (case gd_NetworkIo d of None \<Rightarrow> 0 | Some i \<Rightarrow> gn_RxBytes i),
        jv_NetSentBytes = (case gd_NetworkIo d of None \<Rightarrow> 0 | Some i \<Rightarrow> gn_TxBytes i),
        jv_GpuPercent = times100 (gd_GpuUsage d), jv_GpuMemoryBytes = 0\<rparr>) (gq_Data metric)"

definition exec_answer :: "GenExecEvent \<Rightarrow> TelematicsEvent" where
  "exec_answer e =
     \<lparr>tv_Timestamp = ge_Timestamp e, tv_JobUuid = ge_JobUuid e, tv_Type = ''exec'',
      tv_Data = TExec \<lparr>tx_Pid = ge_Pid e, tx_Ppid = gx_Ppid e, tx_Binary = gx_Filename e, tx_Args = gx_Args e, tx_ExitCode = 0\<rparr>\<rparr>"

definition connect_answer :: "GenConnectEvent \<Rightarrow> TelematicsEvent" where
  "connect_answer e =
     \<lparr>tv_Timestamp = ge_Timestamp e, tv_JobUuid = ge_JobUuid e, tv_Type = ''connect'',
      tv_Data = TConnect \<lparr>tc_Pid = ge_Pid e, tc_DstAddr = gc_DstAddr e, tc_DstPort = gc_DstPort e, tc_Protocol = gc_Protocol e, tc_SrcAddr = gc_SrcAddr e, tc_SrcPort = gc_SrcPort e\<rparr>\<rparr>"

definition mmap_answer :: "GenMmapEvent \<Rightarrow> TelematicsEvent" where
  "mmap_answer e =
     \<lparr>tv_Timestamp = ge_Timestamp e, tv_JobUuid = ge_JobUuid e, tv_Type = ''mmap'',
      tv_Data = TMmap \<lparr>tm_Pid = ge_Pid e, tm_Addr = gm_Addr e, tm_Length = gm_Length e, tm_Prot = gm_Prot e, tm_Flags = 0\<rparr>\<rparr>"

definition mprotect_answer :: "GenMprotectEvent \<Rightarrow> TelematicsEvent" where
  "mprotect_answer e =
     \<lparr>tv_Timestamp = ge_Timestamp e, tv_JobUuid = ge_JobUuid e, tv_Type = ''mprotect'',
      tv_Data = TMprotect \<lparr>tp_Pid = ge_Pid e, tp_Addr = gp_Addr e, tp_Length = gp_Length e, tp_Prot = gp_Prot e\<rparr>\<rparr>"

definition file_answer :: "GenFileEvent \<Rightarrow> TelematicsEvent" where
  "file_answer e =
     \<lparr>tv_Timestamp = ge_Timestamp e, tv_JobUuid = ge_JobUuid e, tv_Type = ''file'',
      tv_Data = TFile \<lparr>tf_Pid = ge_Pid e, tf_Path = gf_Path e, tf_Operation = gf_Operation e, tf_Bytes = gf_Bytes e\<rparr>\<rparr>"

definition accept_answer :: "GenAcceptEvent \<Rightarrow> TelematicsEvent" where
  "accept_answer e =
     \<lparr>tv_Timestamp = ge_Timestamp e, tv_JobUuid = ge_JobUuid e, tv_Type = ''accept'',
      tv_Data = TAccept \<lparr>ta_Pid = ge_Pid e, ta_SrcAddr = ga_SrcAddr e, ta_SrcPort = ga_SrcPort e, ta_DstAddr = ga_DstAddr e, ta_DstPort = ga_DstPort e, ta_Protocol = ga_Protocol e\<rparr>\<rparr>"

definition socket_data_answer :: "GenSocketDataEvent \<Rightarrow> TelematicsEvent" where
  "socket_data_answer e =
     \<lparr>tv_Timestamp = ge_Timestamp e, tv_JobUuid = ge_JobUuid e, tv_Type = ''socket_data'',
      tv_Data = TSocketData \<lparr>ts_Pid = ge_Pid e, ts_Direction = gs_Direction e, ts_DstAddr = gs_DstAddr e, ts_DstPort = gs_DstPort e, ts_Protocol = [], ts_Bytes = gs_Bytes e\<rparr>\<rparr>"

section \<open>Memory and history\<close>

text \<open>What a client sees of an event that went through the persistence service, as it was stored, with its number.\<close>

definition history_event :: "64 word \<Rightarrow> Event \<Rightarrow> TelematicsEvent option" where
  "history_event seq e =
     (case e_Data e of
        DExec d \<Rightarrow> map_option exec_answer (execEventIPCToGen (PersistExecEvent True (e_JobUUID e) (e_Timestamp e) seq d))
      | DConnect d \<Rightarrow> map_option connect_answer (connectEventIPCToGen (PersistConnectEvent True (e_JobUUID e) (e_Timestamp e) seq d))
      | DFile d \<Rightarrow> map_option file_answer (fileEventIPCToGen (PersistFileEvent True (e_JobUUID e) (e_Timestamp e) seq d))
      | DAccept d \<Rightarrow> map_option accept_answer (acceptEventIPCToGen (PersistAcceptEvent True (e_JobUUID e) (e_Timestamp e) seq d))
      | DSocketData d \<Rightarrow> map_option socket_data_answer (socketDataEventIPCToGen (PersistSocketDataEvent True (e_JobUUID e) (e_Timestamp e) seq d))
      | DMmap d \<Rightarrow> map_option mmap_answer (mmapEventIPCToGen (PersistMmapEvent True (e_JobUUID e) (e_Timestamp e) seq d))
      | DMprotect d \<Rightarrow> map_option mprotect_answer (mprotectEventIPCToGen (PersistMprotectEvent True (e_JobUUID e) (e_Timestamp e) seq d))
      | DMetrics d \<Rightarrow> None)"

definition history_metrics :: "(float64 \<Rightarrow> float64) \<Rightarrow> 64 word \<Rightarrow> Event \<Rightarrow> JobMetricsEvent option" where
  "history_metrics times100 seq e =
     (case e_Data e of
        DMetrics d \<Rightarrow> Option.bind (metricIPCToGen (PersistMetrics True (e_JobUUID e) (e_Timestamp e) seq d)) (metric_answer times100)
      | _ \<Rightarrow> None)"

text \<open>What is lost on that way.\<close>

fun lossy :: "telematics_data \<Rightarrow> telematics_data" where
  "lossy (TExec d) = TExec (d\<lparr>tx_ExitCode := 0\<rparr>)"
| "lossy (TMmap d) = TMmap (d\<lparr>tm_Flags := 0\<rparr>)"
| "lossy (TSocketData d) = TSocketData (d\<lparr>ts_Protocol := []\<rparr>)"
| "lossy d = d"

lemmas persist_defs = PersistExecEvent_def PersistConnectEvent_def PersistFileEvent_def PersistAcceptEvent_def PersistSocketDataEvent_def PersistMmapEvent_def PersistMprotectEvent_def PersistMetrics_def
lemmas to_gen_defs = execEventIPCToGen_def connectEventIPCToGen_def fileEventIPCToGen_def acceptEventIPCToGen_def socketDataEventIPCToGen_def mmapEventIPCToGen_def mprotectEventIPCToGen_def metricIPCToGen_def
lemmas answer_defs = exec_answer_def connect_answer_def file_answer_def accept_answer_def socket_data_answer_def mmap_answer_def mprotect_answer_def metric_answer_def


end
