(* ===== verification/JobService.thy ===== *)
theory JobService
  imports Lifecycle Auth Errors Runtimes Cuda Telematics
begin

text \<open>
  The service of the jobs (\<open>server/job\_service.go\<close>), with the conversion of jobs to messages (\<open>mappers/job\_mapper.go\<close>) and the pattern of its streams (\<open>server/stream\_helper.go\<close>), over the joblet, the
  resolver of runtimes, the detection of CUDA, the collector of telemetry and the persistence service.

  A handler is a function of the state of the joblet and of what it meets outside. Its answer is a message or a status code; the texts of errors are left out. The persistence service is what it answers to each
  query: \<open>None\<close> for an error, else the messages before the stream ends. A \<open>range\<close> over the jobs takes their order \<open>ks\<close>. A client takes a message or fails to (\<open>ok\<close>).
\<close>

section \<open>The server's surroundings\<close>

record log_query =
  lq_JobUuid :: string
  lq_NodeId :: string

record event_query =
  eq_JobUuid :: string
  eq_NodeId :: string
  eq_StartTime :: int
  eq_EndTime :: int
  eq_Limit :: int

record persist_client =
  pc_Ping :: "bool option"
  pc_QueryLogs :: "log_query \<Rightarrow> chunk list option"
  pc_QueryMetrics :: "event_query \<Rightarrow> GenMetric list option"
  pc_QueryExecEvents :: "event_query \<Rightarrow> GenExecEvent list option"
  pc_QueryConnectEvents :: "event_query \<Rightarrow> GenConnectEvent list option"
  pc_QueryMmapEvents :: "event_query \<Rightarrow> GenMmapEvent list option"
  pc_QueryMprotectEvents :: "event_query \<Rightarrow> GenMprotectEvent list option"
  pc_QueryFileEvents :: "event_query \<Rightarrow> GenFileEvent list option"
  pc_QueryAcceptEvents :: "event_query \<Rightarrow> GenAcceptEvent list option"
  pc_QuerySocketDataEvents :: "event_query \<Rightarrow> GenSocketDataEvent list option"

text \<open>The renderings of times and durations and the multiplication of a \<open>float64\<close> by 100 are arguments.\<close>

record surroundings =
  sv_peer :: peer_info
  sv_persist :: "persist_client option"
  sv_runtimes :: node
  sv_cuda :: cuda_node
  sv_times100 :: "float64 \<Rightarrow> float64"
  sv_formatTime :: "instant \<Rightarrow> string"
  sv_formatDuration :: "duration \<Rightarrow> string"

text \<open>The codes of gRPC that \<open>codeForError\<close> does not give.\<close>

definition PermissionDeniedCode :: grpc_code where "PermissionDeniedCode = OtherCode 7"
definition UnavailableCode :: grpc_code where "UnavailableCode = OtherCode 14"
definition UnauthenticatedCode :: grpc_code where "UnauthenticatedCode = OtherCode 16"

definition auth_code :: "auth_error \<Rightarrow> grpc_code" where
  "auth_code err = (case err of PermissionDenied _ _ \<Rightarrow> PermissionDeniedCode | _ \<Rightarrow> UnauthenticatedCode)"

definition authorized :: "surroundings \<Rightarrow> Operation \<Rightarrow> (grpc_code, unit) result" where
  "authorized x operation = map_sum auth_code id (Authorized (sv_peer x) operation)"

section \<open>Requests to run a job\<close>

record pb_upload =
  up_Path :: string
  up_Content :: string
  up_Mode :: "32 word"
  up_IsDirectory :: bool

record RunJobRequest =
  rq_Command :: string
  rq_Args :: "string list"
  rq_MaxCpu :: int
  rq_CpuCores :: string
  rq_MaxMemory :: int
  rq_MaxIoBps :: int
  rq_Uploads :: "pb_upload list"
  rq_Schedule :: string
  rq_Network :: string
  rq_Volumes :: "string list"
  rq_Runtime :: string
  rq_Environment :: "string \<rightharpoonup> string"
  rq_SecretEnvironment :: "string \<rightharpoonup> string"
  rq_GpuCount :: int
  rq_GpuMemoryMb :: int
  rq_Timeout :: string

datatype runtime_problem =
    ResolveFailed runtime_error
  | RuntimeNeedsGPU string
  | RuntimeDeclaresInvalidCUDA string cuda_error
  | RuntimeNeedsCUDA string cuda_error

datatype request_problem =
    CommandRequired
  | BadEnvironment env_error
  | NegativeCPULimit
  | NegativeMemoryLimit
  | NegativeIOLimit
  | NegativeGPUCount
  | BadNetworkName string
  | BadVolumeName string
  | BadRuntime runtime_problem

definition defaultNetworkName :: string where
  "defaultNetworkName = ''bridge''"

definition builtinNetworks :: "string list" where
  "builtinNetworks = [''bridge'', ''host'', ''none'']"

text \<open>A specification that is not empty has a configuration.\<close>

definition validateRuntime :: "surroundings \<Rightarrow> StartJobRequest \<Rightarrow> (runtime_problem, unit) result" where
  "validateRuntime x req =
     (case ResolveRuntime (sv_runtimes x) (sr_Runtime req) of
        Inl err \<Rightarrow> Inl (ResolveFailed err)
      | Inr None \<Rightarrow> Inr ()
      | Inr (Some config) \<Rightarrow>
          if req_GPU (rc_Requirements config) \<and> sr_GPUCount req = 0 then Inl (RuntimeNeedsGPU (sr_Runtime req))
          else if sr_GPUCount req > 0 \<and> CUDAVersion (rc_Requirements config) \<noteq> [] then
            (case ParseCUDAVersion (CUDAVersion (rc_Requirements config)) of
               Inl err \<Rightarrow> Inl (RuntimeDeclaresInvalidCUDA (CUDAVersion (rc_Requirements config)) err)
             | Inr required \<Rightarrow>
                 (case FindCompatibleCUDA (sv_cuda x) required of
                    Inl err \<Rightarrow> Inl (RuntimeNeedsCUDA (CUDAVersion (rc_Requirements config)) err)
                  | Inr _ \<Rightarrow> Inr ()))
          else Inr ())"

definition validateJobRequest :: "surroundings \<Rightarrow> StartJobRequest \<Rightarrow> (request_problem, unit) result" where
  "validateJobRequest x req =
     (if sr_MaxCPU req < 0 then Inl NegativeCPULimit
      else if sr_MaxMemory req < 0 then Inl NegativeMemoryLimit
      else if sr_MaxIOBPS req < 0 then Inl NegativeIOLimit
      else if sr_GPUCount req < 0 then Inl NegativeGPUCount
      else if sr_Network req \<noteq> [] \<and> sr_Network req \<notin> set builtinNetworks \<and> \<not> IsValidNetworkName (sr_Network req) then Inl (BadNetworkName (sr_Network req))
      else (case find (\<lambda>volume. \<not> IsValidVolumeName volume) (sr_Volumes req) of
              Some volume \<Rightarrow> Inl (BadVolumeName volume)
            | None \<Rightarrow>
                if sr_Runtime req \<noteq> [] then (case validateRuntime x req of Inl err \<Rightarrow> Inl (BadRuntime err) | Inr _ \<Rightarrow> Inr ())
                else Inr ()))"

text \<open>The variables of a map, in the order of a \<open>range\<close> over it.\<close>

definition map_entries :: "string list \<Rightarrow> (string \<rightharpoonup> string) \<Rightarrow> (string \<times> string) list" where
  "map_entries ks m = List.map_filter (\<lambda>k. map_option (\<lambda>v. (k, v)) (m k)) ks"

definition domain_upload :: "pb_upload \<Rightarrow> FileUpload" where
  "domain_upload upload =
     \<lparr>fu_Path = up_Path upload, fu_Content = up_Content upload, fu_Mode = up_Mode upload, fu_IsDirectory = up_IsDirectory upload,
      fu_Size = int (length (up_Content upload))\<rparr>"

definition convertToJobRequest :: "surroundings \<Rightarrow> string list \<Rightarrow> string list \<Rightarrow> RunJobRequest \<Rightarrow> (request_problem, StartJobRequest) result" where
  "convertToJobRequest x envOrder secOrder req =
     (if rq_Command req = [] then Inl CommandRequired
      else let network = (if rq_Network req = [] then defaultNetworkName else rq_Network req);
               domainUploads = map domain_upload (rq_Uploads req)
           in (case validateClientEnvironment (map_entries envOrder (rq_Environment req)) of
                 Inl err \<Rightarrow> Inl (BadEnvironment err)
               | Inr _ \<Rightarrow>
                   (case validateClientEnvironment (map_entries secOrder (rq_SecretEnvironment req)) of
                      Inl err \<Rightarrow> Inl (BadEnvironment err)
                    | Inr _ \<Rightarrow>
                        (let jobRequest =
                           \<lparr>sr_Command = rq_Command req, sr_Args = rq_Args req, sr_MaxCPU = rq_MaxCpu req, sr_CPUCores = rq_CpuCores req,
                            sr_MaxMemory = rq_MaxMemory req, sr_MaxIOBPS = rq_MaxIoBps req, sr_Uploads = domainUploads, sr_Schedule = rq_Schedule req,
                            sr_Network = network, sr_Volumes = rq_Volumes req, sr_Runtime = rq_Runtime req, sr_Environment = rq_Environment req,
                            sr_SecretEnvironment = rq_SecretEnvironment req, sr_JobType = JobTypeStandard, sr_WorkingDirectory = [],
                            sr_GPUCount = rq_GpuCount req, sr_GPUMemoryMB = rq_GpuMemoryMb req, sr_Timeout = rq_Timeout req\<rparr>
                         in case validateJobRequest x jobRequest of Inl err \<Rightarrow> Inl err | Inr _ \<Rightarrow> Inr jobRequest))))"

section \<open>Errors\<close>

text \<open>The errors as far as \<open>statusFromError\<close> looks at them: which sentinel they wrap, without texts.\<close>

definition wraps :: "sentinel \<Rightarrow> go_error" where
  "wraps s = Wrapf [] [Sentinel s]"

definition request_error :: "request_problem \<Rightarrow> go_error" where
  "request_error p =
     (case p of
        CommandRequired \<Rightarrow> wraps ErrInvalidJobSpec
      | BadEnvironment _ \<Rightarrow> Plain []
      | BadRuntime (ResolveFailed (RuntimeNotFound _)) \<Rightarrow> Wrapf [] [Wrapf [] [wraps ErrRuntimeNotFound]]
      | BadRuntime _ \<Rightarrow> Wrapf [] [Wrapf [] [Plain []]]
      | _ \<Rightarrow> Wrapf [] [Plain []])"

definition build_go_error :: "build_error \<Rightarrow> go_error" where
  "build_go_error err =
     (case err of
        InvalidTimeout \<Rightarrow> wraps ErrInvalidJobSpec
      | NegativeTimeout \<Rightarrow> wraps ErrInvalidJobSpec
      | InvalidCPULimit \<Rightarrow> wraps ErrInvalidResourceSpec
      | InvalidMemoryLimit \<Rightarrow> wraps ErrInvalidResourceSpec)"

definition joblet_go_error :: "joblet_error \<Rightarrow> go_error" where
  "joblet_go_error err =
     (case err of
        CommandEmpty \<Rightarrow> wraps ErrInvalidJobSpec
      | JobCreationFailed e \<Rightarrow> Wrapf [] [build_go_error e]
      | JobNotFound _ \<Rightarrow> wraps ErrJobNotFound
      | JobNotRunning _ _ \<Rightarrow> wraps ErrJobNotRunning
      | JobActive _ _ \<Rightarrow> wraps ErrJobAlreadyRunning
      | _ \<Rightarrow> Plain [])"

text \<open>No error that reaches \<open>statusFromError\<close> here carries a status of its own.\<close>

definition status_code :: "go_error \<Rightarrow> grpc_code" where
  "status_code e = (case statusFromError (\<lambda>_. None) (Some e) [] of Some (Status c _) \<Rightarrow> c | _ \<Rightarrow> Internal)"

section \<open>Running, stopping and deleting jobs\<close>

definition checkPersistHealth :: "persist_client \<Rightarrow> bool" where
  "checkPersistHealth p = (case pc_Ping p of None \<Rightarrow> False | Some healthy \<Rightarrow> healthy)"

record RunJobResponse =
  rr_JobUuid :: string
  rr_Status :: string

text \<open>\<open>None\<close>: \<open>StartJob\<close> does not return, or panics.\<close>

definition RunJob :: "surroundings \<Rightarrow> outside \<Rightarrow> joblet_config \<Rightarrow> string list \<Rightarrow> string list \<Rightarrow> RunJobRequest \<Rightarrow> joblet \<Rightarrow> (joblet \<times> (grpc_code, RunJobResponse) result) option" where
  "RunJob x out cfg envOrder secOrder req J =
     (case authorized x RunJobOp of
        Inl code \<Rightarrow> Some (J, Inl code)
      | Inr _ \<Rightarrow>
          if (case sv_persist x of Some p \<Rightarrow> \<not> checkPersistHealth p | None \<Rightarrow> False) then Some (J, Inl UnavailableCode)
          else (case convertToJobRequest x envOrder secOrder req of
                  Inl p \<Rightarrow> Some (J, Inl (status_code (request_error p)))
                | Inr jobRequest \<Rightarrow>
                    (case StartJob out cfg jobRequest J of
                       None \<Rightarrow> None
                     | Some (J, Inl err) \<Rightarrow> Some (J, Inl (status_code (joblet_go_error err)))
                     | Some (J, Inr newJob) \<Rightarrow> Some (J, Inr \<lparr>rr_JobUuid = job_Uuid newJob, rr_Status = job_Status newJob\<rparr>))))"

definition service_StopJob :: "surroundings \<Rightarrow> calls \<Rightarrow> joblet_config \<Rightarrow> bool \<Rightarrow> string \<Rightarrow> joblet \<Rightarrow> joblet \<times> (grpc_code, string) result" where
  "service_StopJob x c cfg killed uuid J =
     (case authorized x StopJobOp of
        Inl code \<Rightarrow> (J, Inl code)
      | Inr _ \<Rightarrow>
          (case StopJob c cfg killed uuid J of
             (J, Inl err) \<Rightarrow> (J, Inl (status_code (joblet_go_error err)))
           | (J, Inr _) \<Rightarrow> (J, Inr uuid)))"

definition service_DeleteJob :: "surroundings \<Rightarrow> calls \<Rightarrow> string list \<Rightarrow> joblet_config \<Rightarrow> string \<Rightarrow> joblet \<Rightarrow> joblet \<times> (grpc_code, string) result" where
  "service_DeleteJob x c ks cfg uuid J =
     (case authorized x DeleteJobOp of
        Inl code \<Rightarrow> (J, Inl code)
      | Inr _ \<Rightarrow>
          (case DeleteJob c ks cfg uuid J of
             (J, Inl err) \<Rightarrow> (J, Inl (status_code (joblet_go_error err)))
           | (J, Inr _) \<Rightarrow> (J, Inr uuid)))"

definition service_DeleteAllJobs :: "surroundings \<Rightarrow> calls \<Rightarrow> string list \<Rightarrow> bool option \<Rightarrow> joblet_config \<Rightarrow> joblet \<Rightarrow> joblet \<times> (grpc_code, int \<times> int) result" where
  "service_DeleteAllJobs x c ks persistDelete cfg J =
     (case authorized x DeleteJobOp of
        Inl code \<Rightarrow> (J, Inl code)
      | Inr _ \<Rightarrow>
          (case DeleteAllJobs c ks persistDelete cfg J of
             (J, Inl err) \<Rightarrow> (J, Inl (status_code (joblet_go_error err)))
           | (J, Inr (deleted, skipped)) \<Rightarrow> (J, Inr (int32 (int deleted), int32 (int skipped)))))"

section \<open>Jobs as messages (job\_mapper.go) and their status\<close>

record pb_job =
  pj_Uuid :: string
  pj_Command :: string
  pj_Args :: "string list"
  pj_MaxCpu :: int
  pj_CpuCores :: string
  pj_MaxMemory :: int
  pj_MaxIoBps :: int
  pj_Status :: string
  pj_StartTime :: string
  pj_EndTime :: string
  pj_ScheduledTime :: string
  pj_ExitCode :: int
  pj_Runtime :: string
  pj_Environment :: "string \<rightharpoonup> string"
  pj_SecretEnvironment :: "string \<rightharpoonup> string"
  pj_GpuIndices :: "int list"
  pj_GpuCount :: int
  pj_GpuMemoryMb :: int
  pj_NodeId :: string
  pj_Timeout :: string

definition optional_time :: "surroundings \<Rightarrow> instant option \<Rightarrow> string" where
  "optional_time x t = (case t of None \<Rightarrow> [] | Some t \<Rightarrow> sv_formatTime x t)"

definition DomainToProtobuf :: "surroundings \<Rightarrow> Job \<Rightarrow> pb_job" where
  "DomainToProtobuf x job =
     \<lparr>pj_Uuid = job_Uuid job, pj_Command = job_Command job, pj_Args = job_Args job, pj_MaxCpu = CPUPercentage_Value (rl_CPU (job_Limits job)),
      pj_CpuCores = CPUCoreSet_String (rl_CPUCores (job_Limits job)), pj_MaxMemory = MemorySize_Megabytes (rl_Memory (job_Limits job)),
      pj_MaxIoBps = int32 (Bandwidth_BytesPerSecond (rl_IOBandwidth (job_Limits job))), pj_Status = job_Status job,
      pj_StartTime = sv_formatTime x (job_StartTime job), pj_EndTime = optional_time x (job_EndTime job), pj_ScheduledTime = optional_time x (job_ScheduledTime job),
      pj_ExitCode = job_ExitCode job, pj_Runtime = job_Runtime job, pj_Environment = job_Environment job, pj_SecretEnvironment = job_SecretEnvironment job,
      pj_GpuIndices = job_GPUIndices job, pj_GpuCount = job_GPUCount job, pj_GpuMemoryMb = int32 (job_GPUMemoryMB job), pj_NodeId = job_NodeId job,
      pj_Timeout = (if job_Timeout job > 0 then sv_formatDuration x (job_Timeout job) else [])\<rparr>"

definition service_ListJobs :: "surroundings \<Rightarrow> string list \<Rightarrow> joblet \<Rightarrow> (grpc_code, pb_job list) result" where
  "service_ListJobs x ks J =
     (case authorized x ListJobsOp of Inl code \<Rightarrow> Inl code | Inr _ \<Rightarrow> Inr (map (DomainToProtobuf x) (ListJobs ks (jl_store J))))"

definition convertUploadsToStringArray :: "FileUpload list \<Rightarrow> string list" where
  "convertUploadsToStringArray uploads = map fu_Path uploads"

text \<open>The fields that a response shares with the message of the job are in \<open>gs_Job\<close>, the secret variables among them masked.\<close>

record GetJobStatusResponse =
  gs_Job :: pb_job
  gs_Network :: string
  gs_Volumes :: "string list"
  gs_WorkDir :: string
  gs_Uploads :: "string list"

definition GetJobStatus :: "surroundings \<Rightarrow> string list \<Rightarrow> string \<Rightarrow> joblet \<Rightarrow> (grpc_code, GetJobStatusResponse) result" where
  "GetJobStatus x ks uuid J =
     (case authorized x GetJobStatusOp of
        Inl code \<Rightarrow> Inl code
      | Inr _ \<Rightarrow>
          (case JobByPrefix ks uuid (jl_store J) of
             None \<Rightarrow> Inl NotFound
           | Some job \<Rightarrow>
               (let pbJob = DomainToProtobuf x job;
                    maskedSecretEnv = (\<lambda>key. map_option (\<lambda>_. ''***'') (pj_SecretEnvironment pbJob key))
                in Inr \<lparr>gs_Job = pbJob\<lparr>pj_SecretEnvironment := maskedSecretEnv\<rparr>, gs_Network = job_Network job, gs_Volumes = job_Volumes job,
                     gs_WorkDir = job_WorkingDirectory job, gs_Uploads = convertUploadsToStringArray (job_Uploads job)\<rparr>)))"

section \<open>The pattern of the streams (stream\_helper.go)\<close>

datatype JobState = JobStateRunning | JobStateCompleted | JobStateNotFound

definition DetermineJobState :: "bool \<Rightarrow> bool \<Rightarrow> JobState" where
  "DetermineJobState ex isCompleted = (if \<not> ex then JobStateNotFound else if isCompleted then JobStateCompleted else JobStateRunning)"

definition state_of_job :: "string \<Rightarrow> joblet \<Rightarrow> JobState" where
  "state_of_job uuid J =
     (case adapter_Job uuid (jl_store J) of None \<Rightarrow> DetermineJobState False False | Some job \<Rightarrow> DetermineJobState True (IsCompleted job))"

text \<open>What a part of a handler sends, with how it ends: an error or a count.\<close>

type_synonym 'm sends = "'m list \<times> (grpc_code, nat) result"

text \<open>A stream that is over, with what was sent, or one that goes on live after that.\<close>

datatype ('m, 'l) stream_answer = StreamClosed "'m list" "(grpc_code, unit) result" | StreamOpen "'m list" 'l

record ('m, 'l) StreamConfig =
  sg_SendHistorical :: "'m sends"
  sg_QueryPersistOnly :: "'m sends option"
  sg_StreamLive :: "'l option"

definition StreamWithHistory :: "('m, 'l) StreamConfig \<Rightarrow> JobState \<Rightarrow> ('m, 'l) stream_answer" where
  "StreamWithHistory cfg state =
     (case state of
        JobStateCompleted \<Rightarrow> (case sg_SendHistorical cfg of (sent, r) \<Rightarrow> StreamClosed sent (map_sum id (\<lambda>_. ()) r))
      | JobStateNotFound \<Rightarrow>
          (case sg_QueryPersistOnly cfg of
             None \<Rightarrow> StreamClosed [] (Inl NotFound)
           | Some (sent, Inl code) \<Rightarrow> StreamClosed sent (Inl code)
           | Some (sent, Inr n) \<Rightarrow> StreamClosed sent (if n = 0 then Inl NotFound else Inr ()))
      | JobStateRunning \<Rightarrow>
          (case sg_SendHistorical cfg of
             (sent, _) \<Rightarrow> (case sg_StreamLive cfg of None \<Rightarrow> StreamClosed sent (Inr ()) | Some live \<Rightarrow> StreamOpen sent live)))"

text \<open>The loops that send one message after the other until the client does not take one.\<close>

fun send_each :: "('m \<Rightarrow> bool) \<Rightarrow> 'm list \<Rightarrow> 'm sends" where
  "send_each ok [] = ([], Inr 0)"
| "send_each ok (m # ms) =
     (if \<not> ok m then ([], Inl Internal) else case send_each ok ms of (sent, r) \<Rightarrow> (m # sent, map_sum id Suc r))"

definition getJobNodeId :: "string list \<Rightarrow> string \<Rightarrow> joblet \<Rightarrow> string" where
  "getJobNodeId ks jobUUID J = (case JobByPrefix ks jobUUID (jl_store J) of None \<Rightarrow> [] | Some job \<Rightarrow> job_NodeId job)"

definition resolved :: "string list \<Rightarrow> string \<Rightarrow> joblet \<Rightarrow> string" where
  "resolved ks jobUUID J = (case ResolveJobUUID ks jobUUID (jl_store J) of Inl _ \<Rightarrow> jobUUID | Inr uuid \<Rightarrow> uuid)"

section \<open>Logs\<close>

definition log_request :: "string list \<Rightarrow> string \<Rightarrow> joblet \<Rightarrow> log_query" where
  "log_request ks jobUUID J = \<lparr>lq_JobUuid = jobUUID, lq_NodeId = getJobNodeId ks jobUUID J\<rparr>"

definition sendHistoricalLogs :: "surroundings \<Rightarrow> (chunk \<Rightarrow> bool) \<Rightarrow> string list \<Rightarrow> string \<Rightarrow> joblet \<Rightarrow> chunk sends" where
  "sendHistoricalLogs x ok ks jobUUID J =
     (case sv_persist x of
        None \<Rightarrow> ([], Inr 0)
      | Some p \<Rightarrow> (case pc_QueryLogs p (log_request ks jobUUID J) of None \<Rightarrow> ([], Inr 0) | Some logLines \<Rightarrow> send_each ok logLines))"

definition queryPersistLogs :: "persist_client \<Rightarrow> (chunk \<Rightarrow> bool) \<Rightarrow> string list \<Rightarrow> string \<Rightarrow> joblet \<Rightarrow> chunk sends" where
  "queryPersistLogs p ok ks jobUUID J =
     (case pc_QueryLogs p (log_request ks jobUUID J) of None \<Rightarrow> ([], Inl NotFound) | Some logLines \<Rightarrow> send_each ok logLines)"

text \<open>The live part is over at once, or its loop begins with the state given.\<close>

datatype live_logs = LogsOver "chunk list" "(grpc_code, unit) result" | LogsLoop string stream_loop

definition streamLiveLogs :: "(chunk \<Rightarrow> bool) \<Rightarrow> string list \<Rightarrow> string \<Rightarrow> string \<Rightarrow> joblet \<Rightarrow> joblet \<times> live_logs" where
  "streamLiveLogs ok ks subID jobUUID J =
     (case SendUpdatesToClient ks subID jobUUID ok (jl_store J) of
        (a, StreamNotFound) \<Rightarrow> (J\<lparr>jl_store := a\<rparr>, LogsOver [] (Inl NotFound))
      | (a, StreamOver sent (Inl _)) \<Rightarrow> (J\<lparr>jl_store := a\<rparr>, LogsOver sent (Inl Internal))
      | (a, StreamOver sent (Inr _)) \<Rightarrow> (J\<lparr>jl_store := a\<rparr>, LogsOver sent (Inr ()))
      | (a, StreamLive uuid l) \<Rightarrow> (J\<lparr>jl_store := a\<rparr>, LogsLoop uuid l))"

text \<open>The store changes only if the stream goes live.\<close>

definition GetJobLogs :: "surroundings \<Rightarrow> (chunk \<Rightarrow> bool) \<Rightarrow> string list \<Rightarrow> string \<Rightarrow> string \<Rightarrow> joblet \<Rightarrow> joblet \<times> (chunk, live_logs) stream_answer" where
  "GetJobLogs x ok ks subID jobUUID J =
     (case authorized x GetJobLogsOp of
        Inl code \<Rightarrow> (J, StreamClosed [] (Inl code))
      | Inr _ \<Rightarrow>
          if jobUUID = [] then (J, StreamClosed [] (Inl InvalidArgument))
          else let resolvedUUID = resolved ks jobUUID J;
                   state = state_of_job resolvedUUID J;
                   (J', live) = streamLiveLogs ok ks subID resolvedUUID J;
                   cfg = \<lparr>sg_SendHistorical = sendHistoricalLogs x ok ks resolvedUUID J,
                          sg_QueryPersistOnly = Some (case sv_persist x of None \<Rightarrow> ([], Inr 0) | Some p \<Rightarrow> queryPersistLogs p ok ks resolvedUUID J),
                          sg_StreamLive = Some live\<rparr>
               in (case StreamWithHistory cfg state of
                     StreamClosed sent r \<Rightarrow> (J, StreamClosed sent r)
                   | StreamOpen sent live \<Rightarrow> (J', StreamOpen sent live)))"

text \<open>What the client has been sent when the loop has gone through the wakes \<open>its\<close>.\<close>

definition log_client :: "(chunk, live_logs) stream_answer \<Rightarrow> (instant \<times> wake) list \<Rightarrow> chunk list" where
  "log_client answer its =
     (case answer of
        StreamClosed sent _ \<Rightarrow> sent
      | StreamOpen sent (LogsOver chunks _) \<Rightarrow> sent @ chunks
      | StreamOpen sent (LogsLoop uuid l) \<Rightarrow> sent @ sl_sent (fold (stream_iter uuid) its l))"

section \<open>Metrics\<close>

definition metrics_filter :: EventFilter where
  "metrics_filter = \<lparr>tf_Types = [EventTypeMetrics]\<rparr>"

definition query_time :: "int \<Rightarrow> instant option" where
  "query_time t = (if t > 0 then Some t else None)"

definition event_request :: "string list \<Rightarrow> string \<Rightarrow> int \<Rightarrow> int \<Rightarrow> int \<Rightarrow> joblet \<Rightarrow> event_query" where
  "event_request ks jobID startTime endTime limit J =
     \<lparr>eq_JobUuid = jobID, eq_NodeId = getJobNodeId ks jobID J, eq_StartTime = startTime, eq_EndTime = endTime, eq_Limit = int32 limit\<rparr>"

text \<open>A message without data makes the conversion panic, which is \<open>None\<close>.\<close>

fun send_metrics :: "(JobMetricsEvent \<Rightarrow> bool) \<Rightarrow> JobMetricsEvent option list \<Rightarrow> JobMetricsEvent sends option" where
  "send_metrics ok [] = Some ([], Inr 0)"
| "send_metrics ok (None # ms) = None"
| "send_metrics ok (Some m # ms) =
     (if \<not> ok m then Some ([], Inl Internal) else map_option (\<lambda>(sent, r). (m # sent, map_sum id Suc r)) (send_metrics ok ms))"

definition queryPersistMetrics :: "surroundings \<Rightarrow> persist_client \<Rightarrow> (JobMetricsEvent \<Rightarrow> bool) \<Rightarrow> string list \<Rightarrow> string \<Rightarrow> int \<Rightarrow> int \<Rightarrow> int \<Rightarrow> joblet \<Rightarrow> JobMetricsEvent sends option" where
  "queryPersistMetrics x p ok ks jobID startTime endTime limit J =
     (case pc_QueryMetrics p (event_request ks jobID startTime endTime limit J) of
        None \<Rightarrow> Some ([], Inr 0)
      | Some metrics \<Rightarrow> send_metrics ok (map (metric_answer (sv_times100 x)) metrics))"

text \<open>The count of the first part is only added when it did not fail; the second part is sent when the count is zero.\<close>

definition with_buffer :: "'m sends \<Rightarrow> 'm sends \<Rightarrow> 'm sends" where
  "with_buffer persisted buffered =
     (case persisted of (sent, r) \<Rightarrow>
        if (case r of Inl _ \<Rightarrow> 0 | Inr n \<Rightarrow> n) = 0 then (case buffered of (sent', r') \<Rightarrow> (sent @ sent', map_sum id (\<lambda>_. 0) r'))
        else (sent, Inr 0))"

text \<open>What a part sends that does not panic.\<close>

definition sends_of :: "'m sends option \<Rightarrow> 'm sends" where
  "sends_of r = (case r of None \<Rightarrow> ([], Inr 0) | Some sends \<Rightarrow> sends)"

text \<open>A nil message is sent as the empty one.\<close>

definition empty_metrics :: JobMetricsEvent where
  "empty_metrics = \<lparr>jv_Timestamp = 0, jv_JobUuid = [], jv_CpuPercent = 0, jv_MemoryBytes = 0, jv_MemoryLimit = 0, jv_DiskReadBytes = 0, jv_DiskWriteBytes = 0,
     jv_NetRecvBytes = 0, jv_NetSentBytes = 0, jv_GpuPercent = 0, jv_GpuMemoryBytes = 0\<rparr>"

text \<open>The callback that a stream of the collector is given for the metrics, and the loop over the buffered events: the messages for one event.\<close>

definition metrics_callback :: "Event \<Rightarrow> JobMetricsEvent list" where
  "metrics_callback event = (if e_Type event = EventTypeMetrics then [case telemetryEventToMetricsEvent event of None \<Rightarrow> empty_metrics | Some m \<Rightarrow> m] else [])"

definition buffered :: "Collector option \<Rightarrow> string \<Rightarrow> EventFilter \<Rightarrow> int \<Rightarrow> int \<Rightarrow> int \<Rightarrow> Event list" where
  "buffered tc jobID flt startTime endTime limit =
     (case tc of None \<Rightarrow> [] | Some c \<Rightarrow> GetBufferedEvents jobID (Some flt) (query_time startTime) (query_time endTime) limit c)"

definition sendHistoricalMetrics :: "surroundings \<Rightarrow> Collector option \<Rightarrow> (JobMetricsEvent \<Rightarrow> bool) \<Rightarrow> string list \<Rightarrow> string \<Rightarrow> EventFilter \<Rightarrow> int \<Rightarrow> int \<Rightarrow> int \<Rightarrow> joblet \<Rightarrow> JobMetricsEvent sends option" where
  "sendHistoricalMetrics x tc ok ks jobID flt startTime endTime limit J =
     map_option (\<lambda>persisted. with_buffer persisted (send_each ok (concat (map metrics_callback (buffered tc jobID flt startTime endTime limit)))))
       (case sv_persist x of None \<Rightarrow> Some ([], Inr 0) | Some p \<Rightarrow> queryPersistMetrics x p ok ks jobID startTime endTime limit J)"

definition GetJobMetrics :: "surroundings \<Rightarrow> Collector option \<Rightarrow> (JobMetricsEvent \<Rightarrow> bool) \<Rightarrow> string list \<Rightarrow> string \<Rightarrow> int \<Rightarrow> int \<Rightarrow> int \<Rightarrow> joblet \<Rightarrow> (JobMetricsEvent list \<times> (grpc_code, unit) result) option" where
  "GetJobMetrics x tc ok ks jobUUID startTime endTime limit J =
     (case authorized x GetJobOp of
        Inl code \<Rightarrow> Some ([], Inl code)
      | Inr _ \<Rightarrow>
          if jobUUID = [] then Some ([], Inl InvalidArgument)
          else map_option (\<lambda>(sent, r). (sent, map_sum id (\<lambda>_. ()) r)) (sendHistoricalMetrics x tc ok ks (resolved ks jobUUID J) metrics_filter startTime endTime limit J))"

subsection \<open>The live part of metrics and telematics\<close>

text \<open>
  The loop that watches for the end of the job, while the collector's stream sends: what it remembers and its result. It wakes when the client is gone, the stream of the collector has ended (with an error or not),
  the timer of the drain fires, the subscription is closed, or an event of a job arrives.
\<close>

record watch =
  wa_jobCompleted :: bool
  wa_drainDeadline :: instant
  wa_result :: "(grpc_code, unit) result option"

datatype watch_wake = ClientGone | StreamEnded bool | DrainTick | UpdatesClosed | JobUpdate instant JobEvent

definition watch_start :: watch where
  "watch_start = \<lparr>wa_jobCompleted = False, wa_drainDeadline = 0, wa_result = None\<rparr>"

definition ends_watch :: "string \<Rightarrow> bool" where
  "ends_watch st \<longleftrightarrow> st = StatusCompleted \<or> st = StatusFailed \<or> st = StatusStopped \<or> st = StatusTimeout"

definition watch_iter :: "string \<Rightarrow> instant \<times> watch_wake \<Rightarrow> watch \<Rightarrow> watch" where
  "watch_iter jobID it w =
     (if wa_result w \<noteq> None then w
      else if wa_jobCompleted w \<and> fst it > wa_drainDeadline w then w\<lparr>wa_result := Some (Inr ())\<rparr>
      else (case snd it of
              ClientGone \<Rightarrow> w\<lparr>wa_result := Some (Inr ())\<rparr>
            | StreamEnded failed \<Rightarrow> w\<lparr>wa_result := Some (if failed then Inl Internal else Inr ())\<rparr>
            | DrainTick \<Rightarrow> w
            | UpdatesClosed \<Rightarrow> w\<lparr>wa_result := Some (Inr ())\<rparr>
            | JobUpdate now event \<Rightarrow>
                if ev_JobUUID event \<noteq> jobID then w
                else if ev_Type event = ''UPDATED'' \<and> ends_watch (ev_Status event) \<and> \<not> wa_jobCompleted w
                then w\<lparr>wa_jobCompleted := True, wa_drainDeadline := now + drainQuietPeriod\<rparr> else w))"

text \<open>The live part begins with a stream of the collector and the loop, or fails to subscribe (the hub is closed).\<close>

datatype live_events = NoSubscription | LiveEvents string EventFilter watch

definition stream_live :: "bool \<Rightarrow> string \<Rightarrow> EventFilter \<Rightarrow> live_events" where
  "stream_live subscribed jobID flt = (if subscribed then LiveEvents jobID flt watch_start else NoSubscription)"

definition StreamJobMetrics :: "surroundings \<Rightarrow> Collector option \<Rightarrow> bool \<Rightarrow> (JobMetricsEvent \<Rightarrow> bool) \<Rightarrow> string list \<Rightarrow> string \<Rightarrow> joblet \<Rightarrow> (JobMetricsEvent, live_events) stream_answer option" where
  "StreamJobMetrics x tc subscribed ok ks jobUUID J =
     (case authorized x GetJobOp of
        Inl code \<Rightarrow> Some (StreamClosed [] (Inl code))
      | Inr _ \<Rightarrow>
          if jobUUID = [] then Some (StreamClosed [] (Inl InvalidArgument))
          else if tc = None then Some (StreamClosed [] (Inl UnavailableCode))
          else let resolvedUUID = resolved ks jobUUID J;
                   state = state_of_job resolvedUUID J;
                   persist_only = (case sv_persist x of None \<Rightarrow> Some ([], Inr 0) | Some p \<Rightarrow> queryPersistMetrics x p ok ks resolvedUUID 0 0 0 J);
                   historical = sendHistoricalMetrics x tc ok ks resolvedUUID metrics_filter 0 0 0 J
               in if (if state = JobStateNotFound then persist_only else historical) = None then None
                  else Some (StreamWithHistory \<lparr>sg_SendHistorical = sends_of historical, sg_QueryPersistOnly = Some (sends_of persist_only),
                         sg_StreamLive = Some (stream_live subscribed resolvedUUID metrics_filter)\<rparr> state))"

section \<open>Telematics\<close>

definition all_telematics :: "EventType list" where
  "all_telematics = [EventTypeExec, EventTypeConnect, EventTypeAccept, EventTypeFile, EventTypeMmap, EventTypeMprotect, EventTypeSocketData]"

definition parseTelematicsFilter :: "string list \<Rightarrow> EventFilter" where
  "parseTelematicsFilter types = (if length types = 0 then \<lparr>tf_Types = all_telematics\<rparr> else \<lparr>tf_Types = ParseEventTypes types\<rparr>)"

definition wants :: "EventFilter \<Rightarrow> EventType \<Rightarrow> bool" where
  "wants flt t \<longleftrightarrow> length (tf_Types flt) = 0 \<or> t \<in> set (tf_Types flt)"

text \<open>The events of one kind, if they are wanted; a query that fails gives none.\<close>

definition fetch :: "bool \<Rightarrow> 'e list option \<Rightarrow> ('e \<Rightarrow> TelematicsEvent) \<Rightarrow> TelematicsEvent list" where
  "fetch wanted answer convert = (if wanted then (case answer of None \<Rightarrow> [] | Some es \<Rightarrow> map convert es) else [])"

definition collect_telematics :: "persist_client \<Rightarrow> EventFilter \<Rightarrow> event_query \<Rightarrow> TelematicsEvent list" where
  "collect_telematics p flt q =
     fetch (wants flt EventTypeExec) (pc_QueryExecEvents p q) exec_answer @
     fetch (wants flt EventTypeConnect) (pc_QueryConnectEvents p q) connect_answer @
     fetch (wants flt EventTypeMmap) (pc_QueryMmapEvents p q) mmap_answer @
     fetch (wants flt EventTypeMprotect) (pc_QueryMprotectEvents p q) mprotect_answer @
     fetch (wants flt EventTypeFile) (pc_QueryFileEvents p q) file_answer @
     fetch (wants flt EventTypeAccept) (pc_QueryAcceptEvents p q) accept_answer @
     fetch (wants flt EventTypeSocketData) (pc_QuerySocketDataEvents p q) socket_data_answer"

definition queryPersistTelematics :: "persist_client \<Rightarrow> (TelematicsEvent \<Rightarrow> bool) \<Rightarrow> string list \<Rightarrow> string \<Rightarrow> EventFilter \<Rightarrow> int \<Rightarrow> int \<Rightarrow> int \<Rightarrow> joblet \<Rightarrow> TelematicsEvent sends" where
  "queryPersistTelematics p ok ks jobID flt startTime endTime limit J =
     send_each ok (sort_slice (\<lambda>a b. tv_Timestamp a < tv_Timestamp b) (collect_telematics p flt (event_request ks jobID startTime endTime limit J)))"

definition telematics_callback :: "Event \<Rightarrow> TelematicsEvent list" where
  "telematics_callback event = (if e_Type event \<noteq> EventTypeMetrics then (case telemetryEventToTelematicsEvent event of None \<Rightarrow> [] | Some m \<Rightarrow> [m]) else [])"

definition sendHistoricalTelematics :: "surroundings \<Rightarrow> Collector option \<Rightarrow> (TelematicsEvent \<Rightarrow> bool) \<Rightarrow> string list \<Rightarrow> string \<Rightarrow> EventFilter \<Rightarrow> int \<Rightarrow> int \<Rightarrow> int \<Rightarrow> joblet \<Rightarrow> TelematicsEvent sends" where
  "sendHistoricalTelematics x tc ok ks jobID flt startTime endTime limit J =
     with_buffer (case sv_persist x of None \<Rightarrow> ([], Inr 0) | Some p \<Rightarrow> queryPersistTelematics p ok ks jobID flt startTime endTime limit J)
       (send_each ok (concat (map telematics_callback (buffered tc jobID flt startTime endTime limit))))"

definition GetJobTelematics :: "surroundings \<Rightarrow> Collector option \<Rightarrow> (TelematicsEvent \<Rightarrow> bool) \<Rightarrow> string list \<Rightarrow> string \<Rightarrow> string list \<Rightarrow> int \<Rightarrow> int \<Rightarrow> int \<Rightarrow> joblet \<Rightarrow> TelematicsEvent list \<times> (grpc_code, unit) result" where
  "GetJobTelematics x tc ok ks jobUUID types startTime endTime limit J =
     (case authorized x GetJobOp of
        Inl code \<Rightarrow> ([], Inl code)
      | Inr _ \<Rightarrow>
          if jobUUID = [] then ([], Inl InvalidArgument)
          else (case sendHistoricalTelematics x tc ok ks (resolved ks jobUUID J) (parseTelematicsFilter types) startTime endTime limit J of
                  (sent, r) \<Rightarrow> (sent, map_sum id (\<lambda>_. ()) r)))"

definition StreamJobTelematics :: "surroundings \<Rightarrow> Collector option \<Rightarrow> bool \<Rightarrow> (TelematicsEvent \<Rightarrow> bool) \<Rightarrow> string list \<Rightarrow> string \<Rightarrow> string list \<Rightarrow> joblet \<Rightarrow> (TelematicsEvent, live_events) stream_answer" where
  "StreamJobTelematics x tc subscribed ok ks jobUUID types J =
     (case authorized x GetJobOp of
        Inl code \<Rightarrow> StreamClosed [] (Inl code)
      | Inr _ \<Rightarrow>
          if jobUUID = [] then StreamClosed [] (Inl InvalidArgument)
          else if tc = None then StreamClosed [] (Inl UnavailableCode)
          else let resolvedUUID = resolved ks jobUUID J; flt = parseTelematicsFilter types; state = state_of_job resolvedUUID J
               in StreamWithHistory
                    \<lparr>sg_SendHistorical = sendHistoricalTelematics x tc ok ks resolvedUUID flt 0 0 0 J,
                     sg_QueryPersistOnly = Some (case sv_persist x of None \<Rightarrow> ([], Inr 0) | Some p \<Rightarrow> queryPersistTelematics p ok ks resolvedUUID flt 0 0 0 J),
                     sg_StreamLive = Some (stream_live subscribed resolvedUUID flt)\<rparr> state)"

section \<open>Accepted requests\<close>

lemma authorized_Inr [simp]: "authorized x a = Inr () \<longleftrightarrow> Authorized (sv_peer x) a = Inr ()"
  by (cases "Authorized (sv_peer x) a") (simp_all add: authorized_def)

lemma set_map_entries: "set (map_entries ks m) = {(k, v). k \<in> set ks \<and> m k = Some v}"
  by (auto simp: map_entries_def List.map_filter_def) force

definition well_formed_request :: "StartJobRequest \<Rightarrow> bool" where
  "well_formed_request r \<longleftrightarrow>
     sr_Command r \<noteq> [] \<and> sr_JobType r = JobTypeStandard \<and> 0 \<le> sr_MaxCPU r \<and> 0 \<le> sr_MaxMemory r \<and> 0 \<le> sr_MaxIOBPS r \<and> 0 \<le> sr_GPUCount r \<and>
     (sr_Network r \<in> set builtinNetworks \<or> IsValidNetworkName (sr_Network r)) \<and> (\<forall>v \<in> set (sr_Volumes r). IsValidVolumeName v) \<and>
     (\<forall>k \<in> dom (sr_Environment r) \<union> dom (sr_SecretEnvironment r). \<not> Environ.reserved k)"

lemma validateJobRequest_ok:
  "validateJobRequest x r = Inr () \<Longrightarrow>
   0 \<le> sr_MaxCPU r \<and> 0 \<le> sr_MaxMemory r \<and> 0 \<le> sr_MaxIOBPS r \<and> 0 \<le> sr_GPUCount r \<and>
   (sr_Network r = [] \<or> sr_Network r \<in> set builtinNetworks \<or> IsValidNetworkName (sr_Network r)) \<and> (\<forall>v \<in> set (sr_Volumes r). IsValidVolumeName v) \<and>
   (sr_Runtime r \<noteq> [] \<longrightarrow> validateRuntime x r = Inr ())"
  by (auto simp: validateJobRequest_def find_None_iff split: if_splits option.splits sum.splits)

lemma converted_well_formed:
  assumes "convertToJobRequest x envOrder secOrder req = Inr r"
    and "dom (rq_Environment req) \<subseteq> set envOrder" "dom (rq_SecretEnvironment req) \<subseteq> set secOrder"
  shows "well_formed_request r \<and> sr_Schedule r = rq_Schedule req \<and> sr_Environment r = rq_Environment req \<and> sr_SecretEnvironment r = rq_SecretEnvironment req"
proof -
  let ?env = "validateClientEnvironment (map_entries envOrder (rq_Environment req))"
  let ?sec = "validateClientEnvironment (map_entries secOrder (rq_SecretEnvironment req))"
  have c: "rq_Command req \<noteq> []" and e: "?env = Inr ()" "?sec = Inr ()" and v: "validateJobRequest x r = Inr ()"
    and r: "sr_Command r = rq_Command req" "sr_JobType r = JobTypeStandard" "sr_Network r \<noteq> []" "sr_Schedule r = rq_Schedule req"
      "sr_Environment r = rq_Environment req" "sr_SecretEnvironment r = rq_SecretEnvironment req"
    using assms(1) by (auto simp: convertToJobRequest_def Let_def defaultNetworkName_def split: if_splits sum.splits)
  have "\<not> Environ.reserved k" if "k \<in> dom (rq_Environment req) \<union> dom (rq_SecretEnvironment req)" for k
    using that e assms(2,3) by (fastforce simp: validateClientEnvironment_ok set_map_entries)
  then show ?thesis using c r validateJobRequest_ok [OF v] by (auto simp: well_formed_request_def)
qed

lemma started_job:
  assumes "StartJob out cfg req J = Some (J', Inr job)"
  shows "job_Type job = sr_JobType req \<and> (\<exists>g. Building.Next (o_kernel out) (jl_uuids J) = (g, Some (job_Uuid job)))"
proof -
  obtain g u0 where n: "Building.Next (o_kernel out) (jl_uuids J) = (g, u0)" by fastforce
  have b: "u0 = Some (job_Uuid job1) \<and> job_Type job1 = br_JobType q"
    if "Build f m (o_kernel out) ks1 ks2 c q (jl_uuids J) = (g1, Some (Inr job1))" for f m ks1 ks2 c q g1 job1
    using that n by (auto simp: Build_def Let_def determineJobType_def zero_job_def split: sum.splits option.splits if_splits)
  have ex: "job_Uuid job = job_Uuid job1 \<and> job_Type job = job_Type job1" if "executeJob y cfg job1 ups K = (J', Inr job)" for y job1 ups K
    using that start_keeps_job by (fastforce simp: executeJob_def Let_def updateJobRunning_def split: sum.splits prod.splits)
  have sc: "job_Uuid job = job_Uuid job1 \<and> job_Type job = job_Type job1" if "scheduleJob out cfg job1 breq K = (J', Inr job)" for job1 breq K
    using that by (auto simp: scheduleJob_def Let_def split: sum.splits prod.splits option.splits if_splits)
  show ?thesis using assms b ex sc n
    by (fastforce simp: StartJob_def Let_def build_request_def split: option.splits if_splits prod.splits sum.splits)
qed

lemma RunJob_cases:
  assumes "RunJob x out cfg envOrder secOrder req J = Some (J', r)"
  obtains (refused) code where "J' = J" "r = Inl code"
  | (passed) jr r' where "Authorized (sv_peer x) RunJobOp = Inr ()" "\<forall>p. sv_persist x = Some p \<longrightarrow> checkPersistHealth p"
      "convertToJobRequest x envOrder secOrder req = Inr jr" "StartJob out cfg jr J = Some (J', r')"
      "case r' of Inl err \<Rightarrow> r = Inl (status_code (joblet_go_error err)) | Inr job \<Rightarrow> r = Inr \<lparr>rr_JobUuid = job_Uuid job, rr_Status = job_Status job\<rparr>"
proof (cases "authorized x RunJobOp")
  case (Inl code)
  then show ?thesis using assms refused by (auto simp: RunJob_def)
next
  case (Inr u)
  then have au: "authorized x RunJobOp = Inr ()" by simp
  show ?thesis
  proof (cases "\<exists>p. sv_persist x = Some p \<and> \<not> checkPersistHealth p")
    case True
    then show ?thesis using assms refused au by (auto simp: RunJob_def)
  next
    case False
    then have h: "\<not> (case sv_persist x of Some p \<Rightarrow> \<not> checkPersistHealth p | None \<Rightarrow> False)" by (auto split: option.splits)
    show ?thesis
    proof (cases "convertToJobRequest x envOrder secOrder req")
      case (Inl err)
      then show ?thesis using assms refused au h by (auto simp: RunJob_def)
    next
      case jr: (Inr jr)
      have "case StartJob out cfg jr J of None \<Rightarrow> None = Some (J', r)
          | Some (K, Inl err) \<Rightarrow> J' = K \<and> r = Inl (status_code (joblet_go_error err))
          | Some (K, Inr job) \<Rightarrow> J' = K \<and> r = Inr \<lparr>rr_JobUuid = job_Uuid job, rr_Status = job_Status job\<rparr>"
        using assms au h jr by (auto simp: RunJob_def split: option.splits prod.splits sum.splits)
      then show ?thesis using passed [OF _ _ jr] au False
        by (auto split: option.splits prod.splits sum.splits)
    qed
  qed
qed

text \<open>
  C3. What \<open>RunJob\<close> starts. A job is started only for a client that may run jobs, while the persistence service, if there is one, is healthy, and from a well-formed request: it is a standard job, never a
  runtime build, whatever the client sent; it has a command and no negative limit; its network is a built-in one or has a valid name, its volumes have valid names, and no variable, secret or not, is reserved. The job in the
  answer is the one that was started.
\<close>

theorem accepted_jobs_are_standard:
  assumes "RunJob x out cfg envOrder secOrder req J = Some (J', Inr resp)"
    and "dom (rq_Environment req) \<subseteq> set envOrder" "dom (rq_SecretEnvironment req) \<subseteq> set secOrder"
  shows "Authorized (sv_peer x) RunJobOp = Inr () \<and> (\<forall>p. sv_persist x = Some p \<longrightarrow> pc_Ping p = Some True) \<and>
    (\<exists>jr job. convertToJobRequest x envOrder secOrder req = Inr jr \<and> well_formed_request jr \<and> StartJob out cfg jr J = Some (J', Inr job) \<and>
      job_Type job = JobTypeStandard \<and> rr_JobUuid resp = job_Uuid job \<and> rr_Status resp = job_Status job)"
  using assms(1)
proof (cases rule: RunJob_cases)
  case (passed jr r')
  then obtain job where job: "r' = Inr job" "resp = \<lparr>rr_JobUuid = job_Uuid job, rr_Status = job_Status job\<rparr>" by (cases r') auto
  have w: "well_formed_request jr" using converted_well_formed [OF passed(3) assms(2,3)] by blast
  have "job_Type job = JobTypeStandard" using started_job passed(4) w by (auto simp: job well_formed_request_def)
  moreover have "\<forall>p. sv_persist x = Some p \<longrightarrow> pc_Ping p = Some True" using passed(2) by (auto simp: checkPersistHealth_def split: option.splits)
  ultimately show ?thesis using passed(1,3,4) w job by auto
qed simp

definition example_persist :: persist_client where
  "example_persist =
     \<lparr>pc_Ping = Some True, pc_QueryLogs = (\<lambda>q. Some [''one'', ''two'']), pc_QueryMetrics = (\<lambda>q. Some []), pc_QueryExecEvents = (\<lambda>q. Some []),
      pc_QueryConnectEvents = (\<lambda>q. Some []), pc_QueryMmapEvents = (\<lambda>q. Some []), pc_QueryMprotectEvents = (\<lambda>q. None), pc_QueryFileEvents = (\<lambda>q. Some []),
      pc_QueryAcceptEvents = (\<lambda>q. Some []), pc_QuerySocketDataEvents = (\<lambda>q. Some [])\<rparr>"

definition example_surroundings :: surroundings where
  "example_surroundings =
     \<lparr>sv_peer = PeerCertificates [[''developer'']], sv_persist = Some example_persist, sv_runtimes = Runtimes.example_node, sv_cuda = Cuda.example_node,
      sv_times100 = id, sv_formatTime = (\<lambda>t. []), sv_formatDuration = (\<lambda>d. [])\<rparr>"

definition example_run_request :: RunJobRequest where
  "example_run_request =
     \<lparr>rq_Command = ''/bin/echo'', rq_Args = [''a''], rq_MaxCpu = 0, rq_CpuCores = [], rq_MaxMemory = 0, rq_MaxIoBps = 0, rq_Uploads = [], rq_Schedule = [],
      rq_Network = ''lab'', rq_Volumes = [], rq_Runtime = [], rq_Environment = Map.empty, rq_SecretEnvironment = Map.empty,
      rq_GpuCount = 2, rq_GpuMemoryMb = 0, rq_Timeout = []\<rparr>"

lemma example_allowed: "Authorized (sv_peer example_surroundings) RunJobOp = Inr ()"
  by code_simp

lemma example_healthy: "\<forall>p. sv_persist example_surroundings = Some p \<longrightarrow> pc_Ping p = Some True"
  by (simp add: example_surroundings_def example_persist_def)

lemma example_converted: "convertToJobRequest example_surroundings [] [] example_run_request = Inr example_request"
proof -
  have "IsValidNetworkName ''lab''" by code_simp
  then show ?thesis
    by (simp add: convertToJobRequest_def example_run_request_def example_request_def map_entries_def List.map_filter_def validateJobRequest_def)
qed

theorem accepted_jobs_are_standard_witness:
  "\<exists>J' jr job. StartJob example_outside example_jcfg jr example_joblet = Some (J', Inr job) \<and> job_Type job = JobTypeStandard \<and> well_formed_request jr"
proof -
  have au: "authorized example_surroundings RunJobOp = Inr ()" using example_allowed by simp
  have h: "\<not> (case sv_persist example_surroundings of Some p \<Rightarrow> \<not> checkPersistHealth p | None \<Rightarrow> False)" by (simp add: example_surroundings_def example_persist_def checkPersistHealth_def)
  obtain J' job where st: "StartJob example_outside example_jcfg example_request example_joblet = Some (J', Inr job)" using example_started by blast
  have "RunJob example_surroundings example_outside example_jcfg [] [] example_run_request example_joblet =
      Some (J', Inr \<lparr>rr_JobUuid = job_Uuid job, rr_Status = job_Status job\<rparr>)"
    using au h st by (simp add: RunJob_def example_converted del: authorized_Inr)
  from accepted_jobs_are_standard [OF this] show ?thesis by (auto simp: example_run_request_def)
qed

section \<open>Refused requests\<close>

text \<open>
  How a refused request is answered. For a client that may run jobs, with a healthy persistence service: only a missing command is answered with InvalidArgument and only a runtime that is not there with NotFound;
  every other mistake in a request (a negative limit, an invalid network or volume name, a reserved or malformed variable, an unmet requirement of a runtime) is answered with Internal, as if the server had failed. The joblet is
  left as it was.
\<close>

theorem refused_request_codes:
  assumes "Authorized (sv_peer x) RunJobOp = Inr ()" and "\<forall>p. sv_persist x = Some p \<longrightarrow> pc_Ping p = Some True"
    and "convertToJobRequest x envOrder secOrder req = Inl problem"
  shows "RunJob x out cfg envOrder secOrder req J = Some (J, Inl
    (if problem = CommandRequired then InvalidArgument
     else if \<exists>err. problem = BadRuntime (ResolveFailed (RuntimeNotFound err)) then NotFound
     else Internal))"
proof -
  have "\<not> (case sv_persist x of Some p \<Rightarrow> \<not> checkPersistHealth p | None \<Rightarrow> False)"
    using assms(2) by (auto simp: checkPersistHealth_def split: option.splits)
  moreover have "authorized x RunJobOp = Inr ()" using assms(1) by simp
  ultimately have "RunJob x out cfg envOrder secOrder req J = Some (J, Inl (status_code (request_error problem)))"
    using assms(3) by (simp add: RunJob_def del: authorized_Inr)
  moreover have "status_code (request_error problem) =
    (if problem = CommandRequired then InvalidArgument
     else if \<exists>err. problem = BadRuntime (ResolveFailed (RuntimeNotFound err)) then NotFound
     else Internal)"
    by (auto simp: request_error_def status_code_def statusFromError_def codeForError_def errors_Is_def wraps_def
        split: request_problem.splits runtime_problem.splits runtime_error.splits)
  ultimately show ?thesis by simp
qed

section \<open>The joblet under the service\<close>

theorem refused_request_codes_witness:
  "RunJob example_surroundings example_outside example_jcfg [] [] (example_run_request\<lparr>rq_Volumes := [''../etc'']\<rparr>) example_joblet =
   Some (example_joblet, Inl Internal)"
proof -
  have "\<not> IsValidVolumeName ''../etc''" "IsValidNetworkName ''lab''" by code_simp+
  then have "convertToJobRequest example_surroundings [] [] (example_run_request\<lparr>rq_Volumes := [''../etc'']\<rparr>) = Inl (BadVolumeName ''../etc'')"
    by (simp add: convertToJobRequest_def example_run_request_def map_entries_def List.map_filter_def validateJobRequest_def)
  from refused_request_codes [OF example_allowed example_healthy this] show ?thesis by simp
qed

section \<open>The joblet under the service\<close>

lemma StartJob_step:
  assumes "StartJob out cfg jr J = Some (J', r)" "orderly_answers (o_calls out) J" "full_read (o_kernel out)"
  shows "J' = J \<or> (\<exists>u. joblet_step cfg J (LStart u (sr_JobType jr) (sr_Schedule jr = [])) J')"
proof (cases "Building.Next (o_kernel out) (jl_uuids J)")
  case (Pair g u)
  show ?thesis
  proof (cases u)
    case None
    then show ?thesis using assms(1) Pair by (auto simp: StartJob_def Build_def Let_def split: option.splits if_splits)
  next
    case (Some v)
    then show ?thesis using joblet_step.start [OF assms(2,3) _ assms(1)] Pair by blast
  qed
qed



section \<open>Secrets\<close>

text \<open>The same server with other values of the secret variables of its jobs.\<close>

definition set_secrets :: "(Job \<Rightarrow> (string \<rightharpoonup> string)) \<Rightarrow> Job \<Rightarrow> Job" where
  "set_secrets f job = job\<lparr>job_SecretEnvironment := f job\<rparr>"

definition other_secrets :: "(Job \<Rightarrow> (string \<rightharpoonup> string)) \<Rightarrow> jobStoreAdapter \<Rightarrow> jobStoreAdapter" where
  "other_secrets f a = a\<lparr>a_jobStore := \<lparr>sjs_jobs = (\<lambda>u. map_option (set_secrets f) (sjs_jobs (a_jobStore a) u))\<rparr>\<rparr>"

definition secret_keys_kept :: "(Job \<Rightarrow> (string \<rightharpoonup> string)) \<Rightarrow> bool" where
  "secret_keys_kept f \<longleftrightarrow> (\<forall>job. dom (f job) = dom (job_SecretEnvironment job))"

lemma DeepCopy_set_secrets: "DeepCopy (set_secrets f job) = (DeepCopy job)\<lparr>job_SecretEnvironment := f job\<rparr>"
  by (simp add: DeepCopy_def set_secrets_def)

lemma DeepCopy_service: "job_WorkingDirectory (DeepCopy job) = []" "job_Uploads (DeepCopy job) = []" "job_SecretEnvironment (DeepCopy job) = job_SecretEnvironment job"
  "job_Uuid (DeepCopy job) = job_Uuid job"
  by (simp_all add: DeepCopy_def zero_job_def)

lemma pj_sel: "pj_Uuid (DomainToProtobuf x job) = job_Uuid job" "pj_SecretEnvironment (DomainToProtobuf x job) = job_SecretEnvironment job"
  by (simp_all add: DomainToProtobuf_def)

lemma adapter_Job_other:
  "adapter_Job u (other_secrets f a) = (if a_closed a then None else map_option (\<lambda>job. (DeepCopy job)\<lparr>job_SecretEnvironment := f job\<rparr>) (sjs_jobs (a_jobStore a) u))"
  by (cases "sjs_jobs (a_jobStore a) u") (simp_all add: adapter_Job_def other_secrets_def SimpleJobStore_Get_def DeepCopy_set_secrets)

lemma range_vals_map_option: "range_vals ks (\<lambda>u. map_option g (m u)) = map g (range_vals ks m)"
  by (induction ks) (simp_all split: option.split)

lemma JobByPrefix_other:
  "rel_option (\<lambda>j j'. \<exists>job. j = DeepCopy job \<and> j' = (DeepCopy job)\<lparr>job_SecretEnvironment := f job\<rparr>) (JobByPrefix ks u a) (JobByPrefix ks u (other_secrets f a))"
proof -
  let ?js = "filter (\<lambda>job. HasPrefix (job_Uuid job) u) (range_vals ks (sjs_jobs (a_jobStore a)))"
  have "filter (\<lambda>job. HasPrefix (job_Uuid job) u) (SimpleJobStore_List ks (a_jobStore (other_secrets f a))) = map (set_secrets f) ?js"
    by (simp add: SimpleJobStore_List_def other_secrets_def range_vals_map_option filter_map o_def set_secrets_def)
  moreover have "filter (\<lambda>job. HasPrefix (job_Uuid job) u) (SimpleJobStore_List ks (a_jobStore a)) = ?js" by (simp add: SimpleJobStore_List_def)
  moreover have "a_closed (other_secrets f a) = a_closed a" by (simp add: other_secrets_def)
  moreover have "rel_option (\<lambda>j j'. \<exists>job. j = DeepCopy job \<and> j' = (DeepCopy job)\<lparr>job_SecretEnvironment := f job\<rparr>)
      (case ?js of [job] \<Rightarrow> Some (DeepCopy job) | _ \<Rightarrow> None) (case map (set_secrets f) ?js of [job] \<Rightarrow> Some (DeepCopy job) | _ \<Rightarrow> None)"
    by (cases ?js) (auto simp: DeepCopy_set_secrets split: list.split)
  ultimately show ?thesis
    by (cases "sjs_jobs (a_jobStore a) u") (auto simp: JobByPrefix_def adapter_Job_other, auto simp: adapter_Job_def SimpleJobStore_Get_def)
qed

text \<open>
  C36. The status of a job tells nothing of its secrets but their names: two servers whose jobs differ only in the values of secret variables give the same answer. It also tells nothing of the working directory and the uploads,
  since the store's copies of a job do not have them: both are always empty. The list of the jobs, on the other hand, which a client needs no higher role to read, has the secret variables of every job with their values.
\<close>

theorem status_hides_what_list_shows:
  assumes "secret_keys_kept f" "range_order ks (stored (jl_store J))"
  shows "GetJobStatus x ks u (J\<lparr>jl_store := other_secrets f (jl_store J)\<rparr>) = GetJobStatus x ks u J \<and>
    (GetJobStatus x ks u J = Inr resp \<longrightarrow> gs_WorkDir resp = [] \<and> gs_Uploads resp = []) \<and>
    (Authorized (sv_peer x) ListJobsOp = Inr () \<and> \<not> a_closed (jl_store J) \<and> stored (jl_store J) v = Some job \<longrightarrow>
       (\<exists>pjs. service_ListJobs x ks J = Inr pjs \<and> (\<exists>pj \<in> set pjs. pj_Uuid pj = job_Uuid job \<and> pj_SecretEnvironment pj = job_SecretEnvironment job)))"
proof -
  have mask: "(\<lambda>key. map_option (\<lambda>_. ''***'') (f job key)) = (\<lambda>key. map_option (\<lambda>_. ''***'') (job_SecretEnvironment job key))" for job
  proof
    fix key
    have "f job key = None \<longleftrightarrow> job_SecretEnvironment job key = None" using assms(1) unfolding secret_keys_kept_def by blast
    then show "map_option (\<lambda>_. ''***'') (f job key) = map_option (\<lambda>_. ''***'') (job_SecretEnvironment job key)" by (cases "f job key"; cases "job_SecretEnvironment job key"; simp)
  qed
  have same: "GetJobStatus x ks u (J\<lparr>jl_store := other_secrets f (jl_store J)\<rparr>) = GetJobStatus x ks u J"
    using JobByPrefix_other [of f ks u "jl_store J"]
    by (auto simp: GetJobStatus_def DomainToProtobuf_def Let_def DeepCopy_service mask simp del: authorized_Inr split: sum.splits option.splits elim!: option.rel_cases)
  have copy: "\<exists>job0. job1 = DeepCopy job0" if "JobByPrefix ks u (jl_store J) = Some job1" for job1
    using JobByPrefix_other [of f ks u "jl_store J"] that by (auto elim: option.rel_cases)
  have "gs_WorkDir resp = [] \<and> gs_Uploads resp = []" if "GetJobStatus x ks u J = Inr resp"
    using that copy by (auto simp: GetJobStatus_def Let_def DeepCopy_service convertUploadsToStringArray_def split: sum.splits option.splits)
  moreover have "DeepCopy job \<in> set (ListJobs ks (jl_store J))" if "\<not> a_closed (jl_store J)" "stored (jl_store J) v = Some job"
    using that set_range_vals [OF assms(2)] by (auto simp: ListJobs_def SimpleJobStore_List_def ran_def)
  then have "\<exists>pj \<in> DomainToProtobuf x ` set (ListJobs ks (jl_store J)). pj_Uuid pj = job_Uuid job \<and> pj_SecretEnvironment pj = job_SecretEnvironment job"
    if "\<not> a_closed (jl_store J)" "stored (jl_store J) v = Some job"
    using that by (intro bexI [of _ "DomainToProtobuf x (DeepCopy job)"]) (simp_all add: pj_sel DeepCopy_service)
  ultimately show ?thesis using same
    by (auto simp: service_ListJobs_def simp flip: authorized_Inr split: sum.splits)
qed

definition example_secret_job :: Job where
  "example_secret_job = zero_job\<lparr>job_Uuid := ''j1'', job_Status := StatusRunning, job_SecretEnvironment := [''TOKEN'' \<mapsto> ''t0p'']\<rparr>"

definition example_secret_joblet :: joblet where
  "example_secret_joblet = example_joblet\<lparr>jl_store := (new_adapter True)\<lparr>a_jobStore := \<lparr>sjs_jobs = [''j1'' \<mapsto> example_secret_job]\<rparr>\<rparr>\<rparr>"

theorem status_hides_what_list_shows_witness:
  "\<exists>pjs. service_ListJobs (example_surroundings\<lparr>sv_peer := PeerCertificates [[''reader'']]\<rparr>) [''j1''] example_secret_joblet = Inr pjs \<and>
     (\<exists>pj \<in> set pjs. pj_Uuid pj = ''j1'' \<and> pj_SecretEnvironment pj = [''TOKEN'' \<mapsto> ''t0p''])"
proof -
  have "secret_keys_kept job_SecretEnvironment" by (simp add: secret_keys_kept_def)
  moreover have "range_order [''j1''] (stored (jl_store example_secret_joblet))" by (auto simp: range_order_def example_secret_joblet_def)
  moreover have "Authorized (PeerCertificates [[''reader'']]) ListJobsOp = Inr ()" by code_simp
  moreover have "\<not> a_closed (jl_store example_secret_joblet)" "stored (jl_store example_secret_joblet) ''j1'' = Some example_secret_job"
    by (simp_all add: example_secret_joblet_def new_adapter_def)
  ultimately show ?thesis
    using status_hides_what_list_shows [of job_SecretEnvironment "[''j1'']" example_secret_joblet "example_surroundings\<lparr>sv_peer := PeerCertificates [[''reader'']]\<rparr>" _ _ "''j1''" example_secret_job]
    by (auto simp: example_secret_job_def)
qed

section \<open>Logs\<close>

lemma send_each_all: "send_each (\<lambda>_. True) ms = (ms, Inr (length ms))"
  by (induction ms) simp_all

lemma send_all_all: "send_all (\<lambda>_. True) cs = (cs, Inr ())"
  by (induction cs) simp_all

lemma stream_run_grows: "\<exists>more. sl_sent (stream_run uuid its l) = sl_sent l @ more"
proof (induction its arbitrary: l)
  case (Cons it its)
  have "\<exists>more. sl_sent (stream_iter uuid it l) = sl_sent l @ more"
    by (cases "snd it") (auto simp: stream_iter_def handle_event_def Let_def)
  then show ?case using Cons [of "stream_iter uuid it l"] by auto
qed simp

definition persisted_logs :: "surroundings \<Rightarrow> string list \<Rightarrow> string \<Rightarrow> joblet \<Rightarrow> chunk list" where
  "persisted_logs x ks u J =
     (case sv_persist x of None \<Rightarrow> [] | Some p \<Rightarrow> (case pc_QueryLogs p (log_request ks u J) of None \<Rightarrow> [] | Some logLines \<Rightarrow> logLines))"

lemma historical_logs: "fst (sendHistoricalLogs x (\<lambda>_. True) ks u J) = persisted_logs x ks u J" "\<exists>n. snd (sendHistoricalLogs x (\<lambda>_. True) ks u J) = Inr n"
  by (auto simp: sendHistoricalLogs_def persisted_logs_def send_each_all split: option.splits)


definition example_logging :: joblet where
  "example_logging = example_joblet\<lparr>jl_store := (new_adapter True)\<lparr>a_jobStore := \<lparr>sjs_jobs = [''j1'' \<mapsto> example_secret_job]\<rparr>, a_persistEnabled := True,
     a_tasks := [''j1'' \<mapsto> \<lparr>tw_job = example_secret_job, tw_subscribers = []\<rparr>], a_logMgr := [''j1'' \<mapsto> \<lparr>lb_jobID = ''j1'', lb_data = [''one'', ''two'']\<rparr>]\<rparr>\<rparr>"


section \<open>Telematics\<close>

lemma send_each_prefix: "\<exists>rest. ms = fst (send_each ok ms) @ rest \<and> (case snd (send_each ok ms) of Inr n \<Rightarrow> rest = [] \<and> n = length ms | Inl c \<Rightarrow> c = Internal \<and> rest \<noteq> [] \<and> \<not> ok (hd rest))"
proof (induction ms)
  case (Cons m ms)
  then show ?case by (auto simp: map_sum_def id_def split: prod.splits sum.splits)
qed simp

lemma fetch_type:
  assumes "v \<in> set (fetch w a f)" "\<And>e. tv_Type (f e) = t"
  shows "tv_Type v = t \<and> w"
  using assms by (cases w; cases a) (auto simp: fetch_def)

lemma answer_types:
  "tv_Type (exec_answer x) = EventTypeExec" "tv_Type (connect_answer c) = EventTypeConnect" "tv_Type (mmap_answer m) = EventTypeMmap"
  "tv_Type (mprotect_answer mp) = EventTypeMprotect" "tv_Type (file_answer f) = EventTypeFile" "tv_Type (accept_answer a) = EventTypeAccept"
  "tv_Type (socket_data_answer sd) = EventTypeSocketData"
  by (simp_all add: answer_defs event_type_defs)

lemma collected_wanted: "v \<in> set (collect_telematics p flt q) \<Longrightarrow> wants flt (tv_Type v) \<and> tv_Type v \<in> set all_telematics"
  unfolding collect_telematics_def
  by (auto simp: all_telematics_def dest!: fetch_type [OF _ answer_types(1)] fetch_type [OF _ answer_types(2)] fetch_type [OF _ answer_types(3)]
      fetch_type [OF _ answer_types(4)] fetch_type [OF _ answer_types(5)] fetch_type [OF _ answer_types(6)] fetch_type [OF _ answer_types(7)])



section \<open>History and live streams\<close>

text \<open>An open stream goes through its copy of the buffer.\<close>

lemma copy_steps:
  assumes "tele_run T0 ls T" "TPanic \<notin> set ls" "te_streams T t = Some sm" "sm_pc sm = SBuffered b ch es"
  shows "\<exists>T'. tele_run T0 (ls @ replicate (length es) TSilent) T' \<and>
    te_streams T' t = Some (sm\<lparr>sm_sent := sm_sent sm @ filter (passes (sm_filter sm)) es, sm_pc := SBuffered b ch []\<rparr>)"
  using assms
proof (induction es arbitrary: ls T sm)
  case Nil
  then show ?case by (intro exI [of _ T]) simp
next
  case (Cons e es)
  let ?sm = "deliver_event True e (SBuffered b ch es) (SEnding b ch CallbackFailed) sm"
  have "tele_step T TSilent (set_stream t ?sm T)" using Cons.prems by (intro tele_step.stream_buffered)
  then have r: "tele_run T0 (ls @ [TSilent]) (set_stream t ?sm T)" using Cons.prems(1,2) by (intro tele_run.run_step)
  have s: "te_streams (set_stream t ?sm T) t = Some ?sm" "sm_pc ?sm = SBuffered b ch es" "sm_filter ?sm = sm_filter sm"
    by (simp_all add: set_stream_def deliver_event_def)
  show ?case using Cons.IH [OF r _ s(1,2)] Cons.prems(2) s(3) by (auto simp: deliver_event_def)
qed

lemma opened_stream:
  assumes run: "tele_run T0 ls T" and p: "TPanic \<notin> set ls" and n: "te_streams T t = None"
  shows "\<exists>ms T' sm. tele_run T0 (ls @ ms) T' \<and> te_streams T' t = Some sm \<and> sm_job sm = u \<and> sm_filter sm = Some flt \<and>
    sm_sent sm = GetBufferedEvents u (Some flt) None None 0 (te_col T)"
proof -
  obtain c b where g: "getOrCreateBuffer u (te_col T) = (c, b)" by fastforce
  obtain c2 ch es where r: "stream_register b c = (c2, ch, es)" by (metis prod_cases3)
  let ?sm = "\<lparr>sm_job = u, sm_filter = Some flt, sm_sent = [], sm_pc = SFound b\<rparr>"
  let ?T1 = "set_stream t ?sm (set_col c T)" and ?T2 = "set_stream t (?sm\<lparr>sm_pc := SBuffered b ch es\<rparr>) (set_col c2 (set_stream t ?sm (set_col c T)))"
  have r1: "tele_run T0 (ls @ [TSilent]) ?T1" using tele_step.stream_find [OF n g] run p by (intro tele_run.run_step)
  have st: "tele_step ?T1 (TOpen t ch) ?T2" using r by (intro tele_step.stream_open) (simp_all add: set_stream_def set_col_def)
  have r2: "tele_run T0 ((ls @ [TSilent]) @ [TOpen t ch]) ?T2" by (rule tele_run.run_step [OF r1 _ st]) (use p in simp)
  have es: "filter (passes (Some flt)) es = GetBufferedEvents u (Some flt) None None 0 (te_col T)"
    using g r by (cases rule: getOrCreateBuffer_cases) (auto simp: stream_register_def Let_def GetBufferedEvents_def collect_eq)
  have "\<exists>T'. tele_run T0 (((ls @ [TSilent]) @ [TOpen t ch]) @ replicate (length es) TSilent) T' \<and>
      te_streams T' t = Some ((?sm\<lparr>sm_pc := SBuffered b ch es\<rparr>)\<lparr>sm_sent := filter (passes (Some flt)) es, sm_pc := SBuffered b ch []\<rparr>)"
    using copy_steps [OF r2, of t "?sm\<lparr>sm_pc := SBuffered b ch es\<rparr>" b ch es] p by (simp add: set_stream_def)
  then obtain T' where "tele_run T0 (ls @ [TSilent, TOpen t ch] @ replicate (length es) TSilent) T'"
      "te_streams T' t = Some (?sm\<lparr>sm_sent := filter (passes (Some flt)) es, sm_pc := SBuffered b ch []\<rparr>)"
    by auto
  then show ?thesis using es by (intro exI [of _ "[TSilent, TOpen t ch] @ replicate (length es) TSilent"] exI [of _ T'] exI conjI) auto
qed

text \<open>
  A client that streams the events or the metrics of a job that is not over gets those in memory twice. Without a persistence service the history is what the buffer of the collector has, and the live
  stream that follows begins with the same events.
\<close>

theorem running_events_sent_twice:
  assumes "Authorized (sv_peer x) GetJobOp = Inr ()" "u \<noteq> []" "resolved ks u J = u" "adapter_Job u (jl_store J) = Some job" "\<not> IsCompleted job" "sv_persist x = None"
    and "tele_run (new_tele cap) ls T" "TPanic \<notin> set ls" "te_streams T t = None"
  shows "\<exists>sent flt sent_metrics.
    StreamJobTelematics x (Some (te_col T)) True (\<lambda>_. True) ks u names J = StreamOpen sent (LiveEvents u flt watch_start) \<and>
    (\<exists>ms T' sm. tele_run (new_tele cap) (ls @ ms) T' \<and> te_streams T' t = Some sm \<and> sm_job sm = u \<and> sm_filter sm = Some flt \<and>
       concat (map telematics_callback (sm_sent sm)) = sent) \<and>
    StreamJobMetrics x (Some (te_col T)) True (\<lambda>_. True) ks u J = Some (StreamOpen sent_metrics (LiveEvents u metrics_filter watch_start)) \<and>
    (\<exists>ms T' sm. tele_run (new_tele cap) (ls @ ms) T' \<and> te_streams T' t = Some sm \<and> sm_job sm = u \<and> sm_filter sm = Some metrics_filter \<and>
       concat (map metrics_callback (sm_sent sm)) = sent_metrics)"
proof -
  have au: "authorized x GetJobOp = Inr ()" using assms(1) by simp
  let ?flt = "parseTelematicsFilter names"
  have e: "buffered (Some (te_col T)) u f 0 0 0 = GetBufferedEvents u (Some f) None None 0 (te_col T)" for f by (simp add: buffered_def query_time_def)
  have s: "state_of_job u J = JobStateRunning" using assms(4,5) by (simp add: state_of_job_def DetermineJobState_def)
  have "StreamJobTelematics x (Some (te_col T)) True (\<lambda>_. True) ks u names J =
      StreamOpen (concat (map telematics_callback (GetBufferedEvents u (Some ?flt) None None 0 (te_col T)))) (LiveEvents u ?flt watch_start)"
    using au assms(2,3,6) s
    by (simp add: StreamJobTelematics_def Let_def StreamWithHistory_def sendHistoricalTelematics_def with_buffer_def send_each_all e stream_live_def del: authorized_Inr)
  moreover have "StreamJobMetrics x (Some (te_col T)) True (\<lambda>_. True) ks u J =
      Some (StreamOpen (concat (map metrics_callback (GetBufferedEvents u (Some metrics_filter) None None 0 (te_col T)))) (LiveEvents u metrics_filter watch_start))"
    using au assms(2,3,6) s
    by (simp add: StreamJobMetrics_def Let_def StreamWithHistory_def sendHistoricalMetrics_def with_buffer_def send_each_all e stream_live_def sends_of_def del: authorized_Inr)
  ultimately show ?thesis using opened_stream [OF assms(7-9), of u ?flt] opened_stream [OF assms(7-9), of u metrics_filter] by fastforce
qed

definition example_streaming :: joblet where
  "example_streaming = example_joblet\<lparr>jl_store := (new_adapter True)\<lparr>a_jobStore := \<lparr>sjs_jobs = [''j'' \<mapsto> example_secret_job]\<rparr>\<rparr>\<rparr>"

theorem running_events_sent_twice_witness:
  "\<exists>sent flt ms T' sm.
     StreamJobTelematics (example_surroundings\<lparr>sv_persist := None\<rparr>) (Some (te_col example_waiting)) True (\<lambda>_. True) [''j''] ''j'' [''exec''] example_streaming =
       StreamOpen sent (LiveEvents ''j'' flt watch_start) \<and>
     tele_run (new_tele 2) (([TSilent] @ TOpen 0 0 # [TSilent, TAdd example_exec []]) @ ms) T' \<and> te_streams T' 7 = Some sm \<and> concat (map telematics_callback (sm_sent sm)) = sent"
proof -
  have a: "Authorized (sv_peer (example_surroundings\<lparr>sv_persist := None\<rparr>)) GetJobOp = Inr ()" by code_simp
  have b: "resolved [''j''] ''j'' example_streaming = ''j''" by (simp add: resolved_def ResolveJobUUID_def resolveJobUuid_def resolveUuidByPrefix_def HasPrefix_def)
  have c: "adapter_Job ''j'' (jl_store example_streaming) = Some (DeepCopy example_secret_job)"
    by (simp add: example_streaming_def adapter_Job_def SimpleJobStore_Get_def new_adapter_def)
  have d: "\<not> IsCompleted (DeepCopy example_secret_job)" by code_simp
  have e: "te_streams example_waiting 7 = None" by (simp add: example_waiting_def Let_def new_tele_def set_stream_def set_col_def set_emit_def)
  show ?thesis
    using running_events_sent_twice [OF a _ b c d _ example_tele_run _ e, of "[''exec'']"] by simp blast
qed

text \<open>Half a second after the job has ended the watch of a live stream ends it, whatever happens in between.\<close>

lemma watch_stays:
  "wa_jobCompleted w \<Longrightarrow> wa_result (fold (watch_iter u) its w) \<noteq> None \<or>
    wa_jobCompleted (fold (watch_iter u) its w) \<and> wa_drainDeadline (fold (watch_iter u) its w) = wa_drainDeadline w"
proof (induction its arbitrary: w)
  case (Cons it its)
  show ?case
  proof (cases "wa_result (watch_iter u it w)")
    case None
    then have "wa_jobCompleted (watch_iter u it w) \<and> wa_drainDeadline (watch_iter u it w) = wa_drainDeadline w"
      using Cons.prems by (cases "snd it") (auto simp: watch_iter_def split: if_splits)
    then show ?thesis using Cons.IH [of "watch_iter u it w"] by simp
  next
    case (Some r)
    then have "fold (watch_iter u) its (watch_iter u it w) = watch_iter u it w" by (induction its) (simp_all add: watch_iter_def)
    then show ?thesis using Some by simp
  qed
qed simp

lemma watch_ends:
  assumes "ev_JobUUID event = u" "ev_Type event = ''UPDATED''" "ends_watch (ev_Status event)" "now + drainQuietPeriod < t"
  shows "wa_result (watch_iter u (t, k) (fold (watch_iter u) its (watch_iter u (s, JobUpdate now event) watch_start))) \<noteq> None"
proof -
  have "watch_iter u (s, JobUpdate now event) watch_start = \<lparr>wa_jobCompleted = True, wa_drainDeadline = now + drainQuietPeriod, wa_result = None\<rparr>"
    using assms by (simp add: watch_iter_def watch_start_def)
  then show ?thesis
    using watch_stays [of "watch_iter u (s, JobUpdate now event) watch_start" u its] assms(4) by (auto simp: watch_iter_def)
qed

end
