(* ===== verification/IpcWriter.thy ===== *)
theory IpcWriter
  imports PersistLocal Telematics JobStore
begin

text \<open>
  The way of logs and events out of the server (\<open>ipc/writer.go\<close>): a bounded channel of messages that \<open>writeLoop\<close> writes to a Unix socket, with \<open>reconnectLoop\<close> and \<open>Close\<close> beside it.

  Callers of \<open>write\<close>, the two loops and \<open>Close\<close> are steps on one state, one step per communication or critical section. The bytes that were handed to each connection are kept, and a connection
  may break after any of them. The protobuf encoding is an argument (\<open>proto_codec\<close>); \<open>None\<close> is an error of it. That the store of \<open>connected\<close> after a failed write and the count of the
  error are one step loses no behaviour, since \<open>connected\<close> is set nowhere else while it holds.
\<close>

section \<open>Messages\<close>

datatype MessageType =
    MESSAGE_TYPE_UNSPECIFIED
  | MESSAGE_TYPE_LOG
  | MESSAGE_TYPE_METRIC
  | MESSAGE_TYPE_EXEC_EVENT
  | MESSAGE_TYPE_CONNECT_EVENT
  | MESSAGE_TYPE_ACCEPT_EVENT
  | MESSAGE_TYPE_SOCKET_DATA_EVENT
  | MESSAGE_TYPE_MMAP_EVENT
  | MESSAGE_TYPE_MPROTECT_EVENT
  | MESSAGE_TYPE_FILE_EVENT

record IPCMessage =
  ms_Version :: "32 word"
  ms_Type :: MessageType
  ms_JobUuid :: string
  ms_Timestamp :: int
  ms_Sequence :: "64 word"
  ms_Data :: string

record proto_codec =
  pt_message :: "IPCMessage \<Rightarrow> string option"
  pt_log :: "LogLine \<Rightarrow> string option"
  pt_metric :: "IpcMetric \<Rightarrow> string option"
  pt_exec :: "IpcExecEvent \<Rightarrow> string option"
  pt_connect :: "IpcConnectEvent \<Rightarrow> string option"
  pt_accept :: "IpcAcceptEvent \<Rightarrow> string option"
  pt_socketData :: "IpcSocketDataEvent \<Rightarrow> string option"
  pt_mmap :: "IpcMmapEvent \<Rightarrow> string option"
  pt_mprotect :: "IpcMprotectEvent \<Rightarrow> string option"
  pt_file :: "IpcFileEvent \<Rightarrow> string option"

text \<open>The messages that the writing functions hand to \<open>write\<close>.\<close>

definition WriteLog :: "proto_codec \<Rightarrow> string \<Rightarrow> StreamType \<Rightarrow> int \<Rightarrow> 64 word \<Rightarrow> string \<Rightarrow> IPCMessage option" where
  "WriteLog px jobID stream timestamp seq content =
     map_option (\<lambda>data. \<lparr>ms_Version = 1, ms_Type = MESSAGE_TYPE_LOG, ms_JobUuid = jobID, ms_Timestamp = timestamp, ms_Sequence = seq, ms_Data = data\<rparr>)
       (pt_log px \<lparr>ll_JobUuid = jobID, ll_Stream = stream, ll_Timestamp = timestamp, ll_Sequence = unat seq, ll_Content = content\<rparr>)"

definition WriteMetric :: "proto_codec \<Rightarrow> string \<Rightarrow> int \<Rightarrow> 64 word \<Rightarrow> IpcMetricData option \<Rightarrow> IPCMessage option" where
  "WriteMetric px jobID timestamp seq data =
     map_option (\<lambda>metricData. \<lparr>ms_Version = 1, ms_Type = MESSAGE_TYPE_METRIC, ms_JobUuid = jobID, ms_Timestamp = timestamp, ms_Sequence = seq, ms_Data = metricData\<rparr>)
       (pt_metric px \<lparr>iq_JobUuid = jobID, iq_Timestamp = timestamp, iq_Sequence = seq, iq_Data = data\<rparr>)"

definition event_message :: "MessageType \<Rightarrow> 'e IpcEvent_scheme \<Rightarrow> string \<Rightarrow> IPCMessage" where
  "event_message t event data =
     \<lparr>ms_Version = 1, ms_Type = t, ms_JobUuid = ie_JobUuid event, ms_Timestamp = ie_Timestamp event, ms_Sequence = ie_Sequence event, ms_Data = data\<rparr>"

definition WriteExecEvent :: "proto_codec \<Rightarrow> IpcExecEvent \<Rightarrow> IPCMessage option" where
  "WriteExecEvent px event = map_option (event_message MESSAGE_TYPE_EXEC_EVENT event) (pt_exec px event)"

definition WriteConnectEvent :: "proto_codec \<Rightarrow> IpcConnectEvent \<Rightarrow> IPCMessage option" where
  "WriteConnectEvent px event = map_option (event_message MESSAGE_TYPE_CONNECT_EVENT event) (pt_connect px event)"

definition WriteAcceptEvent :: "proto_codec \<Rightarrow> IpcAcceptEvent \<Rightarrow> IPCMessage option" where
  "WriteAcceptEvent px event = map_option (event_message MESSAGE_TYPE_ACCEPT_EVENT event) (pt_accept px event)"

definition WriteSocketDataEvent :: "proto_codec \<Rightarrow> IpcSocketDataEvent \<Rightarrow> IPCMessage option" where
  "WriteSocketDataEvent px event = map_option (event_message MESSAGE_TYPE_SOCKET_DATA_EVENT event) (pt_socketData px event)"

definition WriteMmapEvent :: "proto_codec \<Rightarrow> IpcMmapEvent \<Rightarrow> IPCMessage option" where
  "WriteMmapEvent px event = map_option (event_message MESSAGE_TYPE_MMAP_EVENT event) (pt_mmap px event)"

definition WriteMprotectEvent :: "proto_codec \<Rightarrow> IpcMprotectEvent \<Rightarrow> IPCMessage option" where
  "WriteMprotectEvent px event = map_option (event_message MESSAGE_TYPE_MPROTECT_EVENT event) (pt_mprotect px event)"

definition WriteFileEvent :: "proto_codec \<Rightarrow> IpcFileEvent \<Rightarrow> IPCMessage option" where
  "WriteFileEvent px event = map_option (event_message MESSAGE_TYPE_FILE_EVENT event) (pt_file px event)"

section \<open>Frames\<close>

text \<open>A length is written as four bytes, the highest first, and only its low 32 bits.\<close>

definition be32 :: "nat \<Rightarrow> string" where
  "be32 n = [char_of (n div 2 ^ 24), char_of (n div 2 ^ 16), char_of (n div 2 ^ 8), char_of n]"

definition frame :: "string \<Rightarrow> string" where
  "frame data = be32 (length data) @ data"

section \<open>The manager of reconnections\<close>

record reconnectManager =
  rc_maxAttempts :: int
  rc_attempts :: int

definition newReconnectManager :: "int \<Rightarrow> reconnectManager" where
  "newReconnectManager maxAttempts = \<lparr>rc_maxAttempts = maxAttempts, rc_attempts = 0\<rparr>"

definition shouldRetry :: "reconnectManager \<Rightarrow> bool" where
  "shouldRetry rm = (if rc_maxAttempts rm = 0 then True else rc_attempts rm < rc_maxAttempts rm)"

definition recordAttempt :: "reconnectManager \<Rightarrow> reconnectManager" where
  "recordAttempt rm = rm\<lparr>rc_attempts := int64 (rc_attempts rm + 1)\<rparr>"

definition reconnect_reset :: "reconnectManager \<Rightarrow> reconnectManager" where
  "reconnect_reset rm = rm\<lparr>rc_attempts := 0\<rparr>"

section \<open>The writer\<close>

record Writer =
  wr_conn :: "nat option"
  wr_connected :: bool
  wr_writeChan :: "IPCMessage list"
  wr_bufferSize :: nat
  wr_chanClosed :: bool
  wr_reconnect :: reconnectManager
  wr_msgsSent :: "64 word"
  wr_msgsDropped :: "64 word"
  wr_writeErrors :: "64 word"
  wr_done :: bool

text \<open>A channel of negative size makes \<open>NewWriter\<close> panic.\<close>

definition NewWriter :: "int \<Rightarrow> int \<Rightarrow> Writer option" where
  "NewWriter bufferSize maxReconnects =
     (if bufferSize < 0 then None
      else Some \<lparr>wr_conn = None, wr_connected = False, wr_writeChan = [], wr_bufferSize = nat bufferSize, wr_chanClosed = False,
             wr_reconnect = newReconnectManager maxReconnects, wr_msgsSent = 0, wr_msgsDropped = 0, wr_writeErrors = 0, wr_done = False\<rparr>)"

text \<open>Where \<open>writeLoop\<close>, \<open>reconnectLoop\<close> and \<open>Close\<close> are.\<close>

datatype loop_at = AtTop | AtCheck IPCMessage | AtWait IPCMessage | AtSend IPCMessage | AtClosing | AtEnd
datatype reconnect_at = RAtStart | RAtTick | RAtDial | RAtEnd
datatype close_at = CAtStart | CAtWait | CAtEnd

record ipc =
  ip_writer :: Writer
  ip_blocked :: "nat \<Rightarrow> IPCMessage option"
  ip_loop :: loop_at
  ip_rloop :: reconnect_at
  ip_close :: close_at
  ip_wire :: "nat \<Rightarrow> string"
  ip_next :: nat

datatype ipc_label =
    Queued IPCMessage
  | Refused IPCMessage
  | Taken IPCMessage
  | HandedOver IPCMessage
  | Sent nat IPCMessage
  | Broken "nat option" IPCMessage string
  | GivenUp IPCMessage
  | Panicked
  | Quiet

definition new_ipc :: "Writer \<Rightarrow> ipc" where
  "new_ipc w = \<lparr>ip_writer = w, ip_blocked = (\<lambda>_. None), ip_loop = AtTop, ip_rloop = RAtStart, ip_close = CAtStart, ip_wire = (\<lambda>_. []), ip_next = 0\<rparr>"

text \<open>There is room in the channel, or, when it has no buffer, the loop waits for a message.\<close>

definition room :: "ipc \<Rightarrow> bool" where
  "room T \<longleftrightarrow> length (wr_writeChan (ip_writer T)) < wr_bufferSize (ip_writer T)"

definition meets :: "ipc \<Rightarrow> bool" where
  "meets T \<longleftrightarrow> wr_bufferSize (ip_writer T) = 0 \<and> ip_loop T = AtTop"

text \<open>Caller \<open>i\<close> begins to write a message, or is blocked with it.\<close>

definition offers :: "ipc \<Rightarrow> nat \<Rightarrow> IPCMessage \<Rightarrow> bool" where
  "offers T i m \<longleftrightarrow> ip_blocked T i = None \<or> ip_blocked T i = Some m"

abbreviation set_writer :: "(Writer \<Rightarrow> Writer) \<Rightarrow> ipc \<Rightarrow> ipc" where
  "set_writer f T \<equiv> T\<lparr>ip_writer := f (ip_writer T)\<rparr>"

definition count_dropped :: "Writer \<Rightarrow> Writer" where
  "count_dropped w = w\<lparr>wr_msgsDropped := wr_msgsDropped w + 1\<rparr>"

text \<open>What is handed to the connection when the sending of a message works, and the connection after \<open>connect\<close>.\<close>

definition put_wire :: "nat \<Rightarrow> string \<Rightarrow> ipc \<Rightarrow> ipc" where
  "put_wire c bytes T = T\<lparr>ip_wire := (ip_wire T)(c := ip_wire T c @ bytes)\<rparr>"

definition connect :: "bool \<Rightarrow> ipc \<Rightarrow> ipc" where
  "connect ok T =
     (let w = ip_writer T
      in if ok then T\<lparr>ip_writer := w\<lparr>wr_conn := Some (ip_next T), wr_connected := True\<rparr>, ip_next := Suc (ip_next T)\<rparr>
         else T\<lparr>ip_writer := w\<lparr>wr_conn := None, wr_reconnect := recordAttempt (wr_reconnect w)\<rparr>\<rparr>)"

definition closeConnection :: "Writer \<Rightarrow> Writer" where
  "closeConnection w = w\<lparr>wr_conn := None\<rparr>"

text \<open>A failed write: the error is counted and \<open>connected\<close> is cleared; the connection is closed in a step of its own.\<close>

definition send_failed :: "ipc \<Rightarrow> ipc" where
  "send_failed T = T\<lparr>ip_writer := (ip_writer T)\<lparr>wr_writeErrors := wr_writeErrors (ip_writer T) + 1, wr_connected := False\<rparr>, ip_loop := AtClosing\<rparr>"

definition send_worked :: "ipc \<Rightarrow> ipc" where
  "send_worked T = T\<lparr>ip_writer := (ip_writer T)\<lparr>wr_msgsSent := wr_msgsSent (ip_writer T) + 1\<rparr>, ip_loop := AtTop\<rparr>"

inductive ipc_step :: "proto_codec \<Rightarrow> ipc \<Rightarrow> ipc_label \<Rightarrow> ipc \<Rightarrow> bool" for px where
  write_queued: "offers T i m \<Longrightarrow> room T \<Longrightarrow> \<not> wr_chanClosed (ip_writer T) \<Longrightarrow>
    ipc_step px T (Queued m) (set_writer (\<lambda>w. w\<lparr>wr_writeChan := wr_writeChan w @ [m]\<rparr>) (T\<lparr>ip_blocked := (ip_blocked T)(i := None)\<rparr>))"
| write_met: "offers T i m \<Longrightarrow> meets T \<Longrightarrow> \<not> wr_chanClosed (ip_writer T) \<Longrightarrow>
    ipc_step px T (HandedOver m) (T\<lparr>ip_blocked := (ip_blocked T)(i := None), ip_loop := AtCheck m\<rparr>)"
| write_panic: "offers T i m \<Longrightarrow> wr_chanClosed (ip_writer T) \<Longrightarrow> ipc_step px T Panicked T"
| write_full: "ip_blocked T i = None \<Longrightarrow> \<not> room T \<Longrightarrow> \<not> meets T \<Longrightarrow> \<not> wr_chanClosed (ip_writer T) \<Longrightarrow>
    ipc_step px T Quiet (T\<lparr>ip_blocked := (ip_blocked T)(i \<mapsto> m)\<rparr>)"
| write_timeout: "ip_blocked T i = Some m \<Longrightarrow> ipc_step px T (Refused m) (set_writer count_dropped (T\<lparr>ip_blocked := (ip_blocked T)(i := None)\<rparr>))"
| write_canceled: "ip_blocked T i = Some m \<Longrightarrow> wr_done (ip_writer T) \<Longrightarrow> ipc_step px T (Refused m) (T\<lparr>ip_blocked := (ip_blocked T)(i := None)\<rparr>)"
| loop_end: "ip_loop T = AtTop \<Longrightarrow> wr_done (ip_writer T) \<Longrightarrow> ipc_step px T Quiet (T\<lparr>ip_loop := AtEnd\<rparr>)"
| loop_take: "ip_loop T = AtTop \<Longrightarrow> wr_writeChan (ip_writer T) = m # ms \<Longrightarrow>
    ipc_step px T (Taken m) (set_writer (\<lambda>w. w\<lparr>wr_writeChan := ms\<rparr>) (T\<lparr>ip_loop := AtCheck m\<rparr>))"
| check: "ip_loop T = AtCheck m \<Longrightarrow> ipc_step px T Quiet (T\<lparr>ip_loop := (if wr_connected (ip_writer T) then AtSend m else AtWait m)\<rparr>)"
| wait_tick: "ip_loop T = AtWait m \<Longrightarrow> wr_connected (ip_writer T) \<Longrightarrow> ipc_step px T Quiet (T\<lparr>ip_loop := AtSend m\<rparr>)"
| wait_end: "ip_loop T = AtWait m \<Longrightarrow> ipc_step px T (GivenUp m) (set_writer count_dropped (T\<lparr>ip_loop := AtTop\<rparr>))"
| send_nowhere: "ip_loop T = AtSend m \<Longrightarrow> wr_conn (ip_writer T) = None \<Longrightarrow> ipc_step px T (Broken None m []) (send_failed T)"
| send_unencoded: "ip_loop T = AtSend m \<Longrightarrow> wr_conn (ip_writer T) = Some c \<Longrightarrow> pt_message px m = None \<Longrightarrow> ipc_step px T (Broken (Some c) m []) (send_failed T)"
| send_broken: "ip_loop T = AtSend m \<Longrightarrow> wr_conn (ip_writer T) = Some c \<Longrightarrow> pt_message px m = Some data \<Longrightarrow> k < length (frame data) \<Longrightarrow>
    ipc_step px T (Broken (Some c) m (take k (frame data))) (send_failed (put_wire c (take k (frame data)) T))"
| send_ok: "ip_loop T = AtSend m \<Longrightarrow> wr_conn (ip_writer T) = Some c \<Longrightarrow> pt_message px m = Some data \<Longrightarrow>
    ipc_step px T (Sent c m) (send_worked (put_wire c (frame data) T))"
| loop_close: "ip_loop T = AtClosing \<Longrightarrow> ipc_step px T Quiet (set_writer closeConnection (T\<lparr>ip_loop := AtTop\<rparr>))"
| connect_first: "ip_rloop T = RAtStart \<Longrightarrow> ipc_step px T Quiet (connect ok (T\<lparr>ip_rloop := RAtTick\<rparr>))"
| reconnect_end: "ip_rloop T = RAtTick \<Longrightarrow> wr_done (ip_writer T) \<Longrightarrow> ipc_step px T Quiet (T\<lparr>ip_rloop := RAtEnd\<rparr>)"
| reconnect_tick: "ip_rloop T = RAtTick \<Longrightarrow> \<not> wr_connected (ip_writer T) \<Longrightarrow>
    ipc_step px T Quiet (T\<lparr>ip_rloop := (if shouldRetry (wr_reconnect (ip_writer T)) then RAtDial else RAtEnd)\<rparr>)"
| reconnect_failed: "ip_rloop T = RAtDial \<Longrightarrow> ipc_step px T Quiet (connect False (T\<lparr>ip_rloop := RAtTick\<rparr>))"
| reconnected: "ip_rloop T = RAtDial \<Longrightarrow>
    ipc_step px T Quiet (set_writer (\<lambda>w. w\<lparr>wr_reconnect := reconnect_reset (wr_reconnect w)\<rparr>) (connect True (T\<lparr>ip_rloop := RAtTick\<rparr>)))"
| close_cancel: "ip_close T = CAtStart \<Longrightarrow> ipc_step px T Quiet (set_writer (\<lambda>w. w\<lparr>wr_done := True\<rparr>) (T\<lparr>ip_close := CAtWait\<rparr>))"
| close_finish: "ip_close T = CAtWait \<Longrightarrow> ip_loop T = AtEnd \<Longrightarrow> ip_rloop T = RAtEnd \<Longrightarrow>
    ipc_step px T Quiet (set_writer (\<lambda>w. closeConnection w\<lparr>wr_chanClosed := True\<rparr>) (T\<lparr>ip_close := CAtEnd\<rparr>))"
| close_again: "ip_close T = CAtEnd \<Longrightarrow> ipc_step px T Panicked T"

inductive ipc_run :: "proto_codec \<Rightarrow> ipc \<Rightarrow> ipc_label list \<Rightarrow> ipc \<Rightarrow> bool" for px T0 where
  ipc_stop: "ipc_run px T0 [] T0"
| ipc_go: "ipc_run px T0 ls T \<Longrightarrow> ipc_step px T l T' \<Longrightarrow> ipc_run px T0 (ls @ [l]) T'"

section \<open>What a run has done\<close>

fun queued_by :: "ipc_label \<Rightarrow> IPCMessage list" where
  "queued_by (Queued m) = [m]"
| "queued_by (HandedOver m) = [m]"
| "queued_by _ = []"

fun taken_by :: "ipc_label \<Rightarrow> IPCMessage list" where
  "taken_by (Taken m) = [m]"
| "taken_by (HandedOver m) = [m]"
| "taken_by _ = []"

fun ended_by :: "ipc_label \<Rightarrow> IPCMessage list" where
  "ended_by (Sent c m) = [m]"
| "ended_by (Broken c m bytes) = [m]"
| "ended_by (GivenUp m) = [m]"
| "ended_by _ = []"

fun sent_by :: "ipc_label \<Rightarrow> (nat \<times> IPCMessage) list" where
  "sent_by (Sent c m) = [(c, m)]"
| "sent_by _ = []"

fun broken_by :: "ipc_label \<Rightarrow> (nat \<times> IPCMessage \<times> string) list" where
  "broken_by (Broken (Some c) m bytes) = [(c, m, bytes)]"
| "broken_by _ = []"

definition history :: "('l \<Rightarrow> 'a list) \<Rightarrow> 'l list \<Rightarrow> 'a list" where
  "history f ls = concat (map f ls)"

lemma ipc_history_simps [simp]: "history f [] = []" "history f (ls @ [l]) = history f ls @ f l"
  by (simp_all add: history_def)

text \<open>What was sent over connection \<open>c\<close>, and the part of a message at which it broke.\<close>

definition on_conn :: "nat \<Rightarrow> (nat \<times> 'a) list \<Rightarrow> 'a list" where
  "on_conn c ps = map snd (filter (\<lambda>p. fst p = c) ps)"

lemma on_conn_simps [simp]: "on_conn c [] = []" "on_conn c (ps @ [(c', x)]) = on_conn c ps @ (if c' = c then [x] else [])"
  by (simp_all add: on_conn_def)

fun held :: "loop_at \<Rightarrow> IPCMessage list" where
  "held (AtCheck m) = [m]"
| "held (AtWait m) = [m]"
| "held (AtSend m) = [m]"
| "held _ = []"

definition frames :: "proto_codec \<Rightarrow> IPCMessage list \<Rightarrow> string" where
  "frames px ms = concat (map (\<lambda>m. frame (the (pt_message px m))) ms)"

lemma frames_simps [simp]: "frames px [] = []" "frames px (ms @ [m]) = frames px ms @ frame (the (pt_message px m))"
  by (simp_all add: frames_def)

definition queue_inv :: "nat \<Rightarrow> ipc_label list \<Rightarrow> ipc \<Rightarrow> bool" where
  "queue_inv cap ls T \<longleftrightarrow>
     history queued_by ls = history taken_by ls @ wr_writeChan (ip_writer T) \<and>
     history taken_by ls = history ended_by ls @ held (ip_loop T) \<and>
     length (wr_writeChan (ip_writer T)) \<le> cap \<and> wr_bufferSize (ip_writer T) = cap \<and>
     wr_msgsSent (ip_writer T) = of_nat (length (history sent_by ls))"

lemmas ipc_defs = room_def meets_def offers_def put_wire_def connect_def closeConnection_def count_dropped_def send_failed_def send_worked_def Let_def

lemma queue_inv_step:
  assumes "queue_inv cap ls T" "ipc_step px T l T'"
  shows "queue_inv cap (ls @ [l]) T'"
  using assms(2,1) by (cases rule: ipc_step.cases) (simp_all add: queue_inv_def ipc_defs split: if_splits)

text \<open>
  The connections are numbered. A connection that broke is used no more: either the loop is about to close it, or the writer has another connection or none.
\<close>

definition wire_inv :: "proto_codec \<Rightarrow> ipc_label list \<Rightarrow> ipc \<Rightarrow> bool" where
  "wire_inv px ls T \<longleftrightarrow>
     (\<forall>c. ip_wire T c = frames px (on_conn c (history sent_by ls)) @ concat (map snd (on_conn c (history broken_by ls)))) \<and>
     (\<forall>c. wr_conn (ip_writer T) = Some c \<longrightarrow> c < ip_next T \<and> (on_conn c (history broken_by ls) \<noteq> [] \<longrightarrow> ip_loop T = AtClosing)) \<and>
     (\<forall>c. on_conn c (history broken_by ls) = [] \<or>
        (\<exists>m bytes. on_conn c (history broken_by ls) = [(m, bytes)] \<and> (bytes = [] \<or> (\<exists>data k. pt_message px m = Some data \<and> bytes = take k (frame data) \<and> k < length (frame data))))) \<and>
     (\<forall>p \<in> set (history sent_by ls). fst p < ip_next T \<and> pt_message px (snd p) \<noteq> None \<and> (\<forall>c. wr_conn (ip_writer T) = Some c \<longrightarrow> fst p \<le> c)) \<and>
     (\<forall>p \<in> set (history broken_by ls). fst p < ip_next T) \<and>
     sorted (map fst (history sent_by ls))"

lemma on_conn_Nil: "(\<And>p. p \<in> set ps \<Longrightarrow> fst p \<noteq> c) \<Longrightarrow> on_conn c ps = []"
  by (auto simp: on_conn_def filter_empty_conv)

lemma on_conn_mem: "x \<in> set (on_conn c ps) \<longleftrightarrow> (c, x) \<in> set ps"
  by (force simp: on_conn_def)

lemma wire_inv_quiet:
  assumes "wire_inv px ls T" and "sent_by l = []" "broken_by l = []" and "ip_wire T' = ip_wire T" "ip_next T \<le> ip_next T'"
    and "\<And>c. wr_conn (ip_writer T') = Some c \<Longrightarrow> wr_conn (ip_writer T) = Some c \<and> (ip_loop T = AtClosing \<longrightarrow> ip_loop T' = AtClosing) \<or> c = ip_next T \<and> ip_next T' = Suc (ip_next T)"
  shows "wire_inv px (ls @ [l]) T'"
proof -
  have n: "on_conn c (history broken_by ls) = []" "on_conn c (history sent_by ls) = []" if "ip_next T \<le> c" for c
    using assms(1) that by (auto simp: wire_inv_def intro!: on_conn_Nil)
  show ?thesis
    using assms n unfolding wire_inv_def by simp (smt (verit) less_Suc_eq le_less_trans less_imp_le order_less_le_trans not_less_eq_eq le_refl nat_less_le)
qed

lemma wire_inv_step:
  assumes "wire_inv px ls T" "ipc_step px T l T'"
  shows "wire_inv px (ls @ [l]) T'"
  using assms(2)
proof cases
  case (send_broken m c data k)
  then have conn: "c < ip_next T" "on_conn c (history broken_by ls) = []" using assms(1) by (auto simp: wire_inv_def)
  then show ?thesis using assms(1) send_broken by (auto simp: wire_inv_def ipc_defs)
next
  case (send_unencoded m c)
  then have conn: "c < ip_next T" "on_conn c (history broken_by ls) = []" using assms(1) by (auto simp: wire_inv_def)
  then show ?thesis using assms(1) send_unencoded by (auto simp: wire_inv_def ipc_defs)
next
  case (send_ok m c data)
  then have conn: "c < ip_next T" "on_conn c (history broken_by ls) = []" using assms(1) by (auto simp: wire_inv_def)
  then show ?thesis using assms(1) send_ok by (auto simp: wire_inv_def ipc_defs sorted_append)
qed (rule wire_inv_quiet [OF assms(1)]; auto simp: ipc_defs split: if_splits)+

lemma ipc_invs:
  assumes "NewWriter bufferSize maxReconnects = Some w" "ipc_run px (new_ipc w) ls T"
  shows "queue_inv (nat bufferSize) ls T \<and> wire_inv px ls T"
  using assms(2)
proof induction
  case ipc_stop
  show ?case using assms(1) by (auto simp: NewWriter_def new_ipc_def queue_inv_def wire_inv_def split: if_splits)
next
  case (ipc_go ls T l T')
  then show ?case using queue_inv_step wire_inv_step by blast
qed

section \<open>Delivery\<close>

text \<open>Messages sent over numbered connections, one connection after the other.\<close>

lemma split_by_conn:
  assumes "sorted (map fst ps)" "\<forall>p \<in> set ps. fst p < n"
  shows "ps = concat (map (\<lambda>c. map (Pair c) (on_conn c ps)) [0..<n])"
  using assms
proof (induction n arbitrary: ps)
  case 0
  then show ?case by (cases ps) auto
next
  case (Suc n)
  let ?a = "filter (\<lambda>p. fst p < n) ps" and ?b = "filter (\<lambda>p. fst p = n) ps"
  have ab: "ps = ?a @ ?b" using Suc.prems
  proof (induction ps)
    case (Cons p ps)
    have ih: "filter (\<lambda>p. fst p < n) ps @ filter (\<lambda>p. fst p = n) ps = ps" using Cons by simp
    show ?case
    proof (cases "fst p < n")
      case True
      then show ?thesis using ih by simp
    next
      case False
      then have n: "fst p = n" "\<forall>q \<in> set ps. fst q = n" using Cons.prems by force+
      then have "filter (\<lambda>p. fst p < n) ps = []" "filter (\<lambda>p. fst p = n) ps = ps" by (auto simp: filter_empty_conv filter_id_conv)
      then show ?thesis using n by simp
    qed
  qed simp
  have c: "on_conn c ?a = on_conn c ps" if "c < n" for c using that by (auto simp: on_conn_def intro!: arg_cong [of _ _ "map snd"] filter_cong)
  have b: "map (Pair n) (on_conn n ps) = ?b" by (induction ps) (auto simp: on_conn_def)
  have "?a = concat (map (\<lambda>c. map (Pair c) (on_conn c ?a)) [0..<n])" using Suc.prems by (intro Suc.IH) (auto simp: sorted_filter)
  also have "\<dots> = concat (map (\<lambda>c. map (Pair c) (on_conn c ps)) [0..<n])" using c by (intro arg_cong [of _ _ concat] map_cong) auto
  finally show ?case using ab b by simp
qed

lemma sent_subseq: "subseq (map snd (history sent_by ls)) (history ended_by ls)"
proof (induction ls rule: rev_induct)
  case (snoc l ls)
  have "subseq (map snd (sent_by l)) (ended_by l)" by (cases l) simp_all
  then show ?case by (simp add: list_emb_append_mono [OF snoc])
qed simp

lemma broken_label: "(c, m, bytes) \<in> set (history broken_by ls) \<longleftrightarrow> Broken (Some c) m bytes \<in> set ls"
proof (induction ls rule: rev_induct)
  case (snoc l ls)
  then show ?case by (cases l rule: broken_by.cases) auto
qed simp

lemma wire_invD:
  assumes "wire_inv px ls T"
  shows "ip_wire T c = frames px (on_conn c (history sent_by ls)) @ concat (map snd (on_conn c (history broken_by ls)))"
    and "on_conn c (history broken_by ls) = [] \<or>
        (\<exists>m bytes. on_conn c (history broken_by ls) = [(m, bytes)] \<and> (bytes = [] \<or> (\<exists>data k. pt_message px m = Some data \<and> bytes = take k (frame data) \<and> k < length (frame data))))"
    and "\<forall>p \<in> set (history sent_by ls). fst p < ip_next T" and "sorted (map fst (history sent_by ls))"
proof -
  note W = assms [unfolded wire_inv_def]
  note W2 = W [THEN conjunct2, THEN conjunct2]
  show "ip_wire T c = frames px (on_conn c (history sent_by ls)) @ concat (map snd (on_conn c (history broken_by ls)))" by (rule W [THEN conjunct1, THEN spec])
  show "on_conn c (history broken_by ls) = [] \<or>
        (\<exists>m bytes. on_conn c (history broken_by ls) = [(m, bytes)] \<and> (bytes = [] \<or> (\<exists>data k. pt_message px m = Some data \<and> bytes = take k (frame data) \<and> k < length (frame data))))"
    by (rule W2 [THEN conjunct1, THEN spec])
  show "\<forall>p \<in> set (history sent_by ls). fst p < ip_next T" using W2 [THEN conjunct2, THEN conjunct1] by blast
  show "sorted (map fst (history sent_by ls))" by (rule W2 [THEN conjunct2, THEN conjunct2, THEN conjunct2])
qed

lemma writer_run_facts:
  assumes "NewWriter bufferSize maxReconnects = Some w" "ipc_run px (new_ipc w) ls T"
  shows "history queued_by ls = history ended_by ls @ held (ip_loop T) @ wr_writeChan (ip_writer T)"
    and "length (wr_writeChan (ip_writer T)) \<le> nat bufferSize"
    and "subseq (map snd (history sent_by ls)) (history queued_by ls)"
    and "history sent_by ls = concat (map (\<lambda>c. map (Pair c) (on_conn c (history sent_by ls))) [0..<ip_next T])"
    and "\<exists>rest. ip_wire T c = frames px (on_conn c (history sent_by ls)) @ rest \<and>
      (rest = [] \<or> (\<exists>m data. Broken (Some c) m rest \<in> set ls \<and> pt_message px m = Some data \<and> strict_prefix rest (frame data)))"
proof -
  have I: "queue_inv (nat bufferSize) ls T" "wire_inv px ls T" using ipc_invs [OF assms] by blast+
  show q: "history queued_by ls = history ended_by ls @ held (ip_loop T) @ wr_writeChan (ip_writer T)" and "length (wr_writeChan (ip_writer T)) \<le> nat bufferSize"
    using I(1) by (simp_all add: queue_inv_def)
  show "subseq (map snd (history sent_by ls)) (history queued_by ls)" unfolding q by (rule subseq_order.order_trans [OF sent_subseq]) (rule prefix_imp_subseq, simp)
  show "history sent_by ls = concat (map (\<lambda>c. map (Pair c) (on_conn c (history sent_by ls))) [0..<ip_next T])"
    by (rule split_by_conn [OF wire_invD(4,3) [OF I(2)]])
  let ?b = "on_conn c (history broken_by ls)"
  have w: "ip_wire T c = frames px (on_conn c (history sent_by ls)) @ concat (map snd ?b)" by (rule wire_invD(1) [OF I(2)])
  consider "?b = []" | m bytes where "?b = [(m, bytes)]" "bytes = [] \<or> (\<exists>data k. pt_message px m = Some data \<and> bytes = take k (frame data) \<and> k < length (frame data))"
    using wire_invD(2) [OF I(2), of c] by blast
  then show "\<exists>rest. ip_wire T c = frames px (on_conn c (history sent_by ls)) @ rest \<and>
      (rest = [] \<or> (\<exists>m data. Broken (Some c) m rest \<in> set ls \<and> pt_message px m = Some data \<and> strict_prefix rest (frame data)))"
  proof cases
    case 2
    have "(c, m, bytes) \<in> set (history broken_by ls)" using 2(1) by (simp flip: on_conn_mem)
    then have l: "Broken (Some c) m bytes \<in> set ls" by (simp add: broken_label)
    have wb: "ip_wire T c = frames px (on_conn c (history sent_by ls)) @ bytes" using w 2(1) by simp
    have "bytes = [] \<or> (\<exists>data. pt_message px m = Some data \<and> strict_prefix bytes (frame data))"
      using 2(2) by (auto simp: strict_prefix_def take_is_prefix)
    then show ?thesis using wb l by blast
  qed (simp add: w)
qed

text \<open>
  C6. What becomes of the messages given to the writer, in every interleaving of callers, loops, reconnections and broken connections: each message that enters the channel is, in this order, sent, or lost by a broken connection or after the wait,
  or in the hand of the loop, or still in the channel, which never holds more than its size. The bytes handed to a connection are the frames of the messages sent over it, in order, followed by at most a part of one frame, of a message
  that is counted as an error; and connections follow one another, so that no message is sent twice or out of order.
\<close>

theorem writer_delivers:
  assumes "NewWriter bufferSize maxReconnects = Some w" "ipc_run px (new_ipc w) ls T"
  shows "history queued_by ls = history ended_by ls @ held (ip_loop T) @ wr_writeChan (ip_writer T) \<and>
    length (wr_writeChan (ip_writer T)) \<le> nat bufferSize \<and>
    subseq (map snd (history sent_by ls)) (history queued_by ls) \<and>
    history sent_by ls = concat (map (\<lambda>c. map (Pair c) (on_conn c (history sent_by ls))) [0..<ip_next T]) \<and>
    (\<exists>rest. ip_wire T c = frames px (on_conn c (history sent_by ls)) @ rest \<and>
      (rest = [] \<or> (\<exists>m data. Broken (Some c) m rest \<in> set ls \<and> pt_message px m = Some data \<and> strict_prefix rest (frame data))))"
  using writer_run_facts [OF assms] by blast

section \<open>Closing and reconnecting\<close>

text \<open>After \<open>Close\<close> both loops are over.\<close>

definition closed_inv :: "ipc \<Rightarrow> bool" where
  "closed_inv T \<longleftrightarrow> (wr_chanClosed (ip_writer T) \<longrightarrow> ip_loop T = AtEnd)"

lemma closed_inv_run:
  assumes "ipc_run px T0 ls T" "closed_inv T0"
  shows "closed_inv T"
  using assms
proof induction
  case (ipc_go ls T l T')
  from ipc_go(2) have "closed_inv T'" if "closed_inv T" using that by cases (auto simp: closed_inv_def ipc_defs split: if_splits)
  then show ?case using ipc_go by blast
qed simp

lemma new_closed_inv: "NewWriter bufferSize maxReconnects = Some w \<Longrightarrow> closed_inv (new_ipc w)"
  by (auto simp: NewWriter_def new_ipc_def closed_inv_def split: if_splits)

lemma closed_writer_step:
  assumes "ipc_step px T l T'" "wr_chanClosed (ip_writer T)" "ip_loop T = AtEnd"
  shows "wr_chanClosed (ip_writer T') \<and> ip_loop T' = AtEnd \<and> wr_writeChan (ip_writer T') = wr_writeChan (ip_writer T) \<and> sent_by l = [] \<and> queued_by l = []"
  using assms by cases (auto simp: ipc_defs split: if_splits)

text \<open>
  Once \<open>Close\<close> has returned, what is still in the channel is never sent, and any further call of a writing function panics, since the channel is closed.
\<close>

theorem closed_writer_loses:
  assumes "NewWriter bufferSize maxReconnects = Some w" "ipc_run px (new_ipc w) ls T" "wr_chanClosed (ip_writer T)"
  shows "(\<forall>ls' T'. ipc_run px T ls' T' \<longrightarrow> history sent_by ls' = [] \<and> history queued_by ls' = [] \<and> wr_writeChan (ip_writer T') = wr_writeChan (ip_writer T)) \<and>
    (\<forall>i m. offers T i m \<longrightarrow> ipc_step px T Panicked T)"
proof (intro conjI allI impI)
  fix ls' T' assume "ipc_run px T ls' T'"
  then have "wr_chanClosed (ip_writer T') \<and> ip_loop T' = AtEnd \<and> wr_writeChan (ip_writer T') = wr_writeChan (ip_writer T) \<and> history sent_by ls' = [] \<and> history queued_by ls' = []"
  proof induction
    case ipc_stop
    have "closed_inv T" using closed_inv_run [OF assms(2)] new_closed_inv [OF assms(1)] by blast
    then show ?case using assms(3) by (simp add: closed_inv_def)
  next
    case (ipc_go ls T1 l T2)
    then show ?case using closed_writer_step [of px T1 l T2] by simp
  qed
  then show "history sent_by ls' = []" "history queued_by ls' = []" "wr_writeChan (ip_writer T') = wr_writeChan (ip_writer T)" by blast+
qed (simp add: write_panic assms(3))

text \<open>The run of the race.\<close>

lemma race_run:
  assumes "NewWriter bufferSize maxReconnects = Some w" "0 < bufferSize" "0 \<le> maxReconnects"
  shows "\<exists>T. ipc_run px (new_ipc w) [Quiet, Queued m1, Taken m1, Quiet, Broken (Some 0) m1 [], Quiet, Quiet, Quiet, Queued m2, Taken m2, Quiet, Broken None m2 []] T \<and>
    ip_next T = 2 \<and> ip_wire T 0 = [] \<and> ip_wire T 1 = []"
proof -
  have w: "w = \<lparr>wr_conn = None, wr_connected = False, wr_writeChan = [], wr_bufferSize = nat bufferSize, wr_chanClosed = False,
      wr_reconnect = newReconnectManager maxReconnects, wr_msgsSent = 0, wr_msgsDropped = 0, wr_writeErrors = 0, wr_done = False\<rparr>"
    using assms(1) by (simp add: NewWriter_def split: if_splits)
  let ?q = "\<lambda>m T. set_writer (\<lambda>w. w\<lparr>wr_writeChan := wr_writeChan w @ [m]\<rparr>) (T\<lparr>ip_blocked := (ip_blocked T)(0 := None)\<rparr>)"
  let ?t = "\<lambda>m T. set_writer (\<lambda>w. w\<lparr>wr_writeChan := []\<rparr>) (T\<lparr>ip_loop := AtCheck m\<rparr>)"
  define T1 where "T1 = connect True (new_ipc w\<lparr>ip_rloop := RAtTick\<rparr>)"
  define T2 where "T2 = ?q m1 T1"
  define T3 where "T3 = ?t m1 T2"
  define T4 where "T4 = T3\<lparr>ip_loop := AtSend m1\<rparr>"
  define T5 where "T5 = send_failed T4"
  define T6 where "T6 = T5\<lparr>ip_rloop := RAtDial\<rparr>"
  define T7 where "T7 = set_writer (\<lambda>w. w\<lparr>wr_reconnect := reconnect_reset (wr_reconnect w)\<rparr>) (connect True (T6\<lparr>ip_rloop := RAtTick\<rparr>))"
  define T8 where "T8 = set_writer closeConnection (T7\<lparr>ip_loop := AtTop\<rparr>)"
  define T9 where "T9 = ?q m2 T8"
  define T10 where "T10 = ?t m2 T9"
  define T11 where "T11 = T10\<lparr>ip_loop := AtSend m2\<rparr>"
  define T12 where "T12 = send_failed T11"
  note defs = T1_def T2_def T3_def T4_def T5_def T6_def T7_def T8_def T9_def T10_def T11_def T12_def ipc_defs new_ipc_def w
  have put: "put_wire c [] T = T" for c T by (simp add: put_wire_def)
  have s1: "ipc_step px (new_ipc w) Quiet T1" unfolding T1_def by (rule connect_first) (simp add: new_ipc_def)
  have s2: "ipc_step px T1 (Queued m1) T2" unfolding T2_def using assms(2) by (intro write_queued) (simp_all add: defs)
  have s3: "ipc_step px T2 (Taken m1) T3" unfolding T3_def by (rule loop_take) (simp_all add: defs)
  have s4: "ipc_step px T3 Quiet T4" using check [of T3 m1 px] by (simp add: defs)
  have s5: "ipc_step px T4 (Broken (Some 0) m1 []) T5"
  proof (cases "pt_message px m1")
    case None
    show ?thesis unfolding T5_def by (rule send_unencoded [OF _ _ None]) (simp_all add: defs)
  next
    case (Some data)
    show ?thesis using send_broken [of T4 m1 0 px data 0] Some by (simp add: put frame_def be32_def T5_def) (simp add: defs)
  qed
  have "ip_rloop T5 = RAtTick" "\<not> wr_connected (ip_writer T5)" by (simp_all add: defs)
  moreover have "shouldRetry (wr_reconnect (ip_writer T5))" using assms(3) by (simp add: shouldRetry_def newReconnectManager_def defs)
  ultimately have s6: "ipc_step px T5 Quiet T6" using reconnect_tick [of T5 px] by (simp add: T6_def)
  have s7: "ipc_step px T6 Quiet T7" unfolding T7_def by (rule reconnected) (simp add: defs)
  have s8: "ipc_step px T7 Quiet T8" unfolding T8_def by (rule loop_close) (simp add: defs)
  have s9: "ipc_step px T8 (Queued m2) T9" unfolding T9_def using assms(2) by (intro write_queued) (simp_all add: defs)
  have s10: "ipc_step px T9 (Taken m2) T10" unfolding T10_def by (rule loop_take) (simp_all add: defs)
  have s11: "ipc_step px T10 Quiet T11" using check [of T10 m2 px] by (simp add: defs)
  have s12: "ipc_step px T11 (Broken None m2 []) T12" unfolding T12_def by (rule send_nowhere) (simp_all add: defs)
  have "ipc_run px (new_ipc w) ([] @ [Quiet] @ [Queued m1] @ [Taken m1] @ [Quiet] @ [Broken (Some 0) m1 []] @ [Quiet] @ [Quiet] @ [Quiet] @ [Queued m2] @ [Taken m2] @ [Quiet] @ [Broken None m2 []]) T12"
    using ipc_go [OF ipc_go [OF ipc_go [OF ipc_go [OF ipc_go [OF ipc_go [OF ipc_go [OF ipc_go [OF ipc_go [OF ipc_go [OF ipc_go [OF ipc_go [OF ipc_stop s1] s2] s3] s4] s5] s6] s7] s8] s9] s10] s11] s12]
    by simp
  then show ?thesis by (intro exI [of _ T12]) (simp add: defs)
qed

text \<open>Two more runs: a message is sent; a message is in the channel when the writer is closed.\<close>

lemma sending_run:
  assumes "NewWriter bufferSize maxReconnects = Some w" "0 < bufferSize" "pt_message px m = Some data"
  shows "\<exists>T. ipc_run px (new_ipc w) [Quiet, Queued m, Taken m, Quiet, Sent 0 m] T \<and> wr_writeChan (ip_writer T) = [] \<and> ip_wire T 0 = frame data"
proof -
  have w: "w = \<lparr>wr_conn = None, wr_connected = False, wr_writeChan = [], wr_bufferSize = nat bufferSize, wr_chanClosed = False,
      wr_reconnect = newReconnectManager maxReconnects, wr_msgsSent = 0, wr_msgsDropped = 0, wr_writeErrors = 0, wr_done = False\<rparr>"
    using assms(1) by (simp add: NewWriter_def split: if_splits)
  define T1 where "T1 = connect True (new_ipc w\<lparr>ip_rloop := RAtTick\<rparr>)"
  define T2 where "T2 = set_writer (\<lambda>w. w\<lparr>wr_writeChan := wr_writeChan w @ [m]\<rparr>) (T1\<lparr>ip_blocked := (ip_blocked T1)(0 := None)\<rparr>)"
  define T3 where "T3 = set_writer (\<lambda>w. w\<lparr>wr_writeChan := []\<rparr>) (T2\<lparr>ip_loop := AtCheck m\<rparr>)"
  define T4 where "T4 = T3\<lparr>ip_loop := AtSend m\<rparr>"
  define T5 where "T5 = send_worked (put_wire 0 (frame data) T4)"
  note defs = T1_def T2_def T3_def T4_def T5_def ipc_defs new_ipc_def w
  have s1: "ipc_step px (new_ipc w) Quiet T1" unfolding T1_def by (rule connect_first) (simp add: new_ipc_def)
  have s2: "ipc_step px T1 (Queued m) T2" unfolding T2_def using assms(2) by (intro write_queued) (simp_all add: defs)
  have s3: "ipc_step px T2 (Taken m) T3" unfolding T3_def by (rule loop_take) (simp_all add: defs)
  have s4: "ipc_step px T3 Quiet T4" using check [of T3 m px] by (simp add: defs)
  have s5: "ipc_step px T4 (Sent 0 m) T5" unfolding T5_def by (rule send_ok [OF _ _ assms(3)]) (simp_all add: defs)
  have "ipc_run px (new_ipc w) [Quiet, Queued m, Taken m, Quiet, Sent 0 m] T5"
    using ipc_go [OF ipc_go [OF ipc_go [OF ipc_go [OF ipc_go [OF ipc_stop s1] s2] s3] s4] s5] by simp
  then show ?thesis by (intro exI [of _ T5]) (simp add: defs)
qed

lemma closing_run:
  assumes "NewWriter bufferSize maxReconnects = Some w" "0 < bufferSize"
  shows "\<exists>T. ipc_run px (new_ipc w) [Queued m, Quiet, Quiet, Quiet, Quiet, Quiet] T \<and> wr_chanClosed (ip_writer T) \<and> wr_writeChan (ip_writer T) = [m]"
proof -
  have w: "w = \<lparr>wr_conn = None, wr_connected = False, wr_writeChan = [], wr_bufferSize = nat bufferSize, wr_chanClosed = False,
      wr_reconnect = newReconnectManager maxReconnects, wr_msgsSent = 0, wr_msgsDropped = 0, wr_writeErrors = 0, wr_done = False\<rparr>"
    using assms(1) by (simp add: NewWriter_def split: if_splits)
  define T1 where "T1 = set_writer (\<lambda>w. w\<lparr>wr_writeChan := wr_writeChan w @ [m]\<rparr>) (new_ipc w\<lparr>ip_blocked := (ip_blocked (new_ipc w))(0 := None)\<rparr>)"
  define T2 where "T2 = connect False (T1\<lparr>ip_rloop := RAtTick\<rparr>)"
  define T3 where "T3 = set_writer (\<lambda>w. w\<lparr>wr_done := True\<rparr>) (T2\<lparr>ip_close := CAtWait\<rparr>)"
  define T4 where "T4 = T3\<lparr>ip_loop := AtEnd\<rparr>"
  define T5 where "T5 = T4\<lparr>ip_rloop := RAtEnd\<rparr>"
  define T6 where "T6 = set_writer (\<lambda>w. closeConnection w\<lparr>wr_chanClosed := True\<rparr>) (T5\<lparr>ip_close := CAtEnd\<rparr>)"
  note defs = T1_def T2_def T3_def T4_def T5_def T6_def ipc_defs new_ipc_def w
  have s1: "ipc_step px (new_ipc w) (Queued m) T1" unfolding T1_def using assms(2) by (intro write_queued) (simp_all add: defs)
  have s2: "ipc_step px T1 Quiet T2" unfolding T2_def by (rule connect_first) (simp add: defs)
  have s3: "ipc_step px T2 Quiet T3" unfolding T3_def by (rule close_cancel) (simp add: defs)
  have s4: "ipc_step px T3 Quiet T4" unfolding T4_def by (rule loop_end) (simp_all add: defs)
  have s5: "ipc_step px T4 Quiet T5" unfolding T5_def by (rule reconnect_end) (simp_all add: defs)
  have s6: "ipc_step px T5 Quiet T6" unfolding T6_def by (rule close_finish) (simp_all add: defs)
  have "ipc_run px (new_ipc w) [Queued m, Quiet, Quiet, Quiet, Quiet, Quiet] T6"
    using ipc_go [OF ipc_go [OF ipc_go [OF ipc_go [OF ipc_go [OF ipc_go [OF ipc_stop s1] s2] s3] s4] s5] s6] by simp
  then show ?thesis by (intro exI [of _ T6]) (simp add: defs)
qed

text \<open>
  C40. Between the moment the loop notes a failed write and the moment it closes the connection, the writer can reconnect; then the loop closes the new connection, and the writer counts as connected without a connection:
  the next message is lost although nothing failed since the service was back. For any writer with a buffer and any two messages there is such a run.
\<close>

theorem reconnect_race:
  assumes "NewWriter bufferSize maxReconnects = Some w" "0 < bufferSize" "0 \<le> maxReconnects"
  shows "\<exists>T. ipc_run px (new_ipc w) [Quiet, Queued m1, Taken m1, Quiet, Broken (Some 0) m1 [], Quiet, Quiet, Quiet, Queued m2, Taken m2, Quiet, Broken None m2 []] T \<and>
    ip_next T = 2 \<and> ip_wire T 0 = [] \<and> ip_wire T 1 = []"
  by (rule race_run [OF assms])

section \<open>Examples\<close>

definition example_codec :: proto_codec where
  "example_codec = \<lparr>pt_message = (\<lambda>m. Some (ms_JobUuid m @ ms_Data m)), pt_log = (\<lambda>l. Some (ll_Content l)), pt_metric = (\<lambda>_. Some []), pt_exec = (\<lambda>_. Some []),
     pt_connect = (\<lambda>_. Some []), pt_accept = (\<lambda>_. Some []), pt_socketData = (\<lambda>_. Some []), pt_mmap = (\<lambda>_. Some []), pt_mprotect = (\<lambda>_. Some []), pt_file = (\<lambda>_. Some [])\<rparr>"

definition example_message :: IPCMessage where
  "example_message = \<lparr>ms_Version = 1, ms_Type = MESSAGE_TYPE_LOG, ms_JobUuid = ''j'', ms_Timestamp = 5, ms_Sequence = 0, ms_Data = ''out''\<rparr>"

definition example_writer :: Writer where
  "example_writer = the (NewWriter 1 0)"

lemma example_new_writer: "NewWriter 1 0 = Some example_writer"
  by (simp add: example_writer_def NewWriter_def)

lemma example_log_message: "WriteLog example_codec ''j'' STREAM_STDOUT 5 0 ''out'' = Some example_message" "pt_message example_codec example_message = Some ''jout''"
  by (simp_all add: WriteLog_def example_codec_def example_message_def)

theorem writer_delivers_witness:
  "\<exists>T :: ipc. history sent_by [Quiet, Queued example_message, Taken example_message, Quiet, Sent 0 example_message] = [(0, example_message)] \<and>
     [example_message] = [example_message] @ held (ip_loop T) @ wr_writeChan (ip_writer T) \<and> prefix (frame ''jout'') (ip_wire T 0)"
proof -
  obtain T where T: "ipc_run example_codec (new_ipc example_writer) [Quiet, Queued example_message, Taken example_message, Quiet, Sent 0 example_message] T"
    using sending_run [OF example_new_writer _ example_log_message(2)] by auto
  let ?ls = "[Quiet, Queued example_message, Taken example_message, Quiet, Sent 0 example_message]"
  have h: "history queued_by ?ls = [example_message]" "history ended_by ?ls = [example_message]" "history sent_by ?ls = [(0, example_message)]"
    by (simp_all add: history_def)
  have f: "frames example_codec (on_conn 0 [(0, example_message)]) = frame ''jout''" by (simp add: frames_def on_conn_def example_log_message)
  note D = writer_delivers [OF example_new_writer T, of 0, unfolded h f]
  obtain rest where "ip_wire T 0 = frame ''jout'' @ rest" using D by blast
  then show ?thesis using D h by (intro exI [of _ T]) simp
qed

theorem closed_writer_loses_witness:
  "\<exists>T. wr_writeChan (ip_writer T) = [example_message] \<and> (\<forall>ls' T'. ipc_run example_codec T ls' T' \<longrightarrow> history sent_by ls' = [])"
proof -
  obtain T where T: "ipc_run example_codec (new_ipc example_writer) [Queued example_message, Quiet, Quiet, Quiet, Quiet, Quiet] T" "wr_chanClosed (ip_writer T)"
    "wr_writeChan (ip_writer T) = [example_message]"
    using closing_run [OF example_new_writer, of example_codec example_message] by auto
  from closed_writer_loses [OF example_new_writer T(1,2)] T(3) show ?thesis by blast
qed

theorem reconnect_race_witness:
  "\<exists>T. ipc_run example_codec (new_ipc example_writer) [Quiet, Queued example_message, Taken example_message, Quiet, Broken (Some 0) example_message [], Quiet, Quiet, Quiet,
     Queued example_message, Taken example_message, Quiet, Broken None example_message []] T \<and> ip_next T = 2"
  using reconnect_race [OF example_new_writer, of example_codec example_message example_message] by auto

end
