(* ===== verification/Spec2Isabelle.thy ===== *)
theory Spec2Isabelle
  imports Prelude Regex Filepath Values Domain Heap JobQueue Scheduler Gpu Stores VolumeStore Net NetworkStore
    StateStorage Errors Auth Runtimes Building PubSub JobStore ConnPool Environ InitMode Execution EngineInv Lifecycle PersistLocal
    Telemetry Cuda Telematics JobService IpcWriter
begin

text \<open>
  \<^bold>\<open>Verification of joblet.\<close> Joblet runs jobs on Linux hosts. A request becomes a job (a domain object made of
  validated values); a job with a start time waits in the scheduler; when it runs it gets GPUs, an address
  in a network and volumes, each from a manager or store that all jobs share; it is started by way of an init process
  that is told by its environment what to do; its output and its state changes are published to clients, and its state is kept by a
  separate state service. This development models these parts, from the sources under \<open>src/\<close>, and proves what
  makes them correct.

  \<^bold>\<open>Parts and theories\<close> (paths below \<open>src/internal/joblet/\<close> unless they start with \<open>state/\<close>):

  \<^item> \<open>Prelude\<close>, \<open>Regex\<close>, \<open>Filepath\<close>, \<open>Heap\<close>, \<open>Net\<close>: what the sources use of Go and of its standard library:
    fixed-width integers, strings, maps with the order of \<open>range\<close> as an argument, \<open>sort.Slice\<close> (locale
    \<open>slice_sorter\<close>), \<open>regexp\<close>, \<open>path/filepath\<close>, \<open>container/heap\<close> (locale \<open>heap_container\<close>), \<open>net\<close>.
  \<^item> \<open>Values\<close>: \<open>domain/values/*.go\<close>. One record per struct, one function per constructor and method. Shown: what an
    accepted core specification, memory size or cgroup path looks like; round trips.
  \<^item> \<open>Domain\<close>: \<open>domain/*.go\<close>. Jobs with their cached value objects, limits, uploads, names, volumes. Shown: an
    accepted upload path stays in the workspace; modes and chunk sizes; what a deep copy keeps.
  \<^item> \<open>JobQueue\<close>: \<open>scheduler/priority_queue.go\<close>. The heap of scheduled jobs, shown to implement a priority queue
    (locale \<open>job_queue\<close>, interpretation \<open>jq\<close>) on the laws of \<open>container/heap\<close> (interpretation \<open>pqh\<close>).
  \<^item> \<open>Scheduler\<close>: \<open>scheduler/scheduler.go\<close>. The goroutine \<open>run\<close> and its callers as steps on a shared state; a
    program run is any sequence of steps. Shown: no job is lost or run twice, none runs early, no wake-up is lost,
    and where these need a hypothesis, that they fail without it.
  \<^item> \<open>Gpu\<close>: \<open>gpu/manager.go\<close>, \<open>allocation_strategy.go\<close>, \<open>types.go\<close>, \<open>simulated.go\<close>. The strategies share the locale
    \<open>gpu_strategy\<close>; the manager's invariant is proved from it. Shown: exclusive allocation, exact success condition,
    scrubbing and quarantine, optimality of the strategies.
  \<^item> \<open>Stores\<close>: \<open>adapters/in_memory_stores.go\<close> and the types of \<open>storage_interfaces.go\<close>. Four stores, one interface
    (locale \<open>kv_store\<close>, interpretations \<open>js\<close>, \<open>vs\<close>, \<open>ns\<close>, \<open>als\<close>).
  \<^item> \<open>VolumeStore\<close>: \<open>adapters/volume_store_adapter.go\<close> on the volume store. Shown: the usage counts and the store
    agree, a volume in use is not removed, and the two exceptions.
  \<^item> \<open>NetworkStore\<close>: \<open>adapters/network_store_adapter.go\<close> and \<open>core/execution/network_service.go\<close> on the network and
    allocation stores. Address pools have the locale \<open>address_pool\<close> (interpretation \<open>ip\<close>). Shown: the pool of a
    network is its host addresses, no address has two holders, setting up a job's network leaks no address.
  \<^item> \<open>StateStorage\<close>: \<open>state/internal/storage/\<close> \<open>interface.go\<close>, \<open>memory.go\<close>, \<open>local.go\<close>. Both backends implement the
    locale \<open>state_backend\<close> (interpretations \<open>mem\<close>, \<open>loc\<close>). Shown: they answer alike, a restart finds the jobs that were
    saved, what \<open>List\<close> selects, and what one oversized job does to the others.

  \<^item> \<open>Errors\<close>: \<open>pkg/errors/errors.go\<close>, \<open>server/error_mapping.go\<close>. Errors with their chains of causes; the status code the client sees
    does not depend on the wrapping.
  \<^item> \<open>Auth\<close>: \<open>auth/grpc_authorization.go\<close>. A certificate gives the least of the roles it names.
  \<^item> \<open>Runtimes\<close>: \<open>pkg/semver/semver.go\<close>, \<open>runtime/resolver.go\<close>, \<open>types.go\<close>. Versions as a linear order, and which directory a
    runtime specification resolves to; the directory tree is an argument.
  \<^item> \<open>Building\<close>: \<open>core/validation/validator.go\<close>, \<open>core/job/id_generator.go\<close>, \<open>builder.go\<close>. Paths that stay below their base, identifiers,
    and the job that a request becomes.
  \<^item> \<open>PubSub\<close>: \<open>pubsub/pubsub.go\<close>. Publishers, subscribers and readers as steps on the hub. Shown: delivery in order and without duplicates, and the
    one interleaving that panics.
  \<^item> \<open>JobStore\<close>: \<open>adapters/job_store_adapter.go\<close>, \<open>log_buffer.go\<close>. Shown: the output of a job is what was written, a stream has no gap
    between snapshot and live events, deletion, and the state service as a mirror of the store.
  \<^item> \<open>ConnPool\<close>: \<open>state/pool.go\<close>. The connections to the state service under concurrent clients: bounds, exclusive use, and what \<open>Close\<close> can break.
  \<^item> \<open>Environ\<close>: \<open>core/environment/builder.go\<close>, \<open>core/execution/environment_service.go\<close> and the checks of variables in \<open>server/job_service.go\<close> and
    \<open>core/process/manager.go\<close>. Shown: what the server writes into the environment is what the init process reads; clients cannot set a reserved variable;
    uploads stay in the workspace.
  \<^item> \<open>InitMode\<close>: \<open>internal/modes/jobexec/jobexec.go\<close>, \<open>core/unprivileged/namespace.go\<close>. Shown: the command of a job runs without privileges.
  \<^item> \<open>Execution\<close>: \<open>core/execution/coordinator.go\<close>, \<open>gpu_service.go\<close>, \<open>core/resource_manager.go\<close>, \<open>core/cleanup/coordinator.go\<close>. GPUs and networks
    are resources that jobs acquire and release (locale \<open>job_resource\<close>, interpretations \<open>gpus\<close>, \<open>nets\<close>). Shown: a start that fails gives everything back, and
    the cleanup implements the abstract release of what one job holds.
  \<^item> \<open>EngineInv\<close>: what the resources of the engine (GPUs, pools, assignments) agree on between any two operations, and who holds them; each operation of
    \<open>Execution\<close> keeps it.
  \<^item> \<open>Lifecycle\<close>: \<open>core/joblet.go\<close>, \<open>core/upload/manager.go\<close>, \<open>core/writer.go\<close>. The server as a step relation over the job store, the queue and the engine: requests, the
    scheduler's executions, the goroutines that watch jobs, restarts. Shown: resources are held by watched jobs only, a job is executed at most once; what
    happens to uploads, to jobs whose set-up fails and to stopped jobs; what a restart queues again.
  \<^item> \<open>PersistLocal\<close>: \<open>persist/internal/storage/local.go\<close>, \<open>backend.go\<close>. Logs, metrics and events in compressed files with a cache of open files. Shown: what is
    read is what was written, in order and as filtered; the cache is bounded and evicts the least recently used; what a failed write and an odd identifier do.
  \<^item> \<open>Telemetry\<close>: \<open>telemetry/event.go\<close>, \<open>collector.go\<close>, \<open>adapters/metrics_store_adapter.go\<close>. The collector of a job's events with its bounded buffers and the channels of its streams;
    emitters, clients and deletions are steps of one system. Shown: what a buffer holds and a query returns, what a stream delivers, and that a deletion makes the open streams panic.
  \<^item> \<open>Cuda\<close>: \<open>gpu/cuda.go\<close>, \<open>cuda_verifier.go\<close>. Versions read from paths, commands and headers; which installation is chosen.
  \<^item> \<open>Telematics\<close>: \<open>ipc/persister.go\<close>, the conversions of \<open>persist/internal/server/grpc.go\<close> and of \<open>server/job_service.go\<close>. What of an event survives the way through the persistence service.
  \<^item> \<open>JobService\<close>: \<open>server/job_service.go\<close>, \<open>stream_helper.go\<close>, \<open>mappers/job_mapper.go\<close>. The handlers of the job service over \<open>Lifecycle\<close>, \<open>Auth\<close>, \<open>Errors\<close>, \<open>Runtimes\<close>, \<open>Cuda\<close> and \<open>Telematics\<close>.
    Shown: which requests become jobs, that every run of handlers is a run of the joblet, what logs, histories and streams contain, and what the status of a job hides.
  \<^item> \<open>IpcWriter\<close>: \<open>ipc/writer.go\<close>. The channel of messages to the persistence service with its sender, reconnections and closing as steps. Shown: what becomes of each message and what the bytes on each
    connection are, what closing loses, and the race by which a message is lost after a reconnection.

  \<^bold>\<open>How the code is rendered.\<close> A struct is a record whose fields carry a short prefix, an error is a constructor of the
  component's error type, a method takes the receiver and returns it changed. What a method reads from outside (the
  clock, the order in which a map is ranged over, the outcome of a command or of a system call) is an argument, and
  the theorems hold for all of its values. Log output is left out. A method that holds a lock for its whole
  body is one function; one that does not is split where another call can come in between (\<open>Stop\<close>, \<open>AddJob\<close>,
  \<open>RemoveJob\<close> of the scheduler, \<open>RemoveVolume\<close>, \<open>Publish\<close>, the pool of connections).

  \<^bold>\<open>Bounds.\<close> Go integers are integers with \<open>wrap_int\<close> wherever an operation can leave their range. Two loops of the
  sources may not end (the range of cores and the filling of an address pool); they return an option, with
  \<open>None\<close> for a loop that never ends, and the theorems say when that happens. No definition uses fuel.

  \<^bold>\<open>Parameters.\<close> The JSON codec of the state file (hypothesis \<open>json_codec\<close>), the printing and parsing of IPv6
  literals, the memory query of \<open>nvidia-smi\<close>, the parser of YAML files and of RFC 3339 times, the rounding of a duration with a fraction, the answers of the kernel and of
  the disk, the JSON codec of logs and events (hypothesis \<open>json_ok\<close>), the answers of the persistence service to a client of the job service, the multiplication of a \<open>float64\<close> by 100 and the
  rendering of times and durations in messages, the files and command outputs of a host with CUDA, the protobuf encoding of messages.

  \<^bold>\<open>Not modelled\<close>: what happens inside system calls and commands (mounts, namespaces, host networking), the translation of gRPC messages, the cloud
  backends, monitoring, configuration files and command-line entry points; renderings through \<open>float64\<close>.

  \<^bold>\<open>Plan.\<close> Next: the server of the IPC (\<open>persist/internal/ipc/server.go\<close>), the process manager (\<open>core/process/manager.go\<close>), the limits of cgroups (\<open>core/resource/cgroup.go\<close>), the mounts of a job
  (\<open>core/filesystem/isolator.go\<close>), MIG listings (\<open>gpu/mig.go\<close>), the state client and its server.
\<close>

end
